(* ===== verification/Prelude.thy ===== *)
theory Prelude
  imports Main "HOL-Library.Sublist"
begin

text \<open>
  Shared vocabulary of the development.

  The panel is written in TypeScript.  Three of its built-in containers appear in almost
  every component and are modelled here once:
  \<^item> a \<^verbatim>\<open>Set\<close> iterates in insertion order, so it is a list without repetitions; adding goes
    through \<open>js_add\<close> and \<open>new Set(iterable)\<close> is \<open>js_set\<close>;
  \<^item> a \<^verbatim>\<open>Map\<close> iterates in insertion order too, so it is an association list; \<open>set\<close> overwrites
    in place or appends (\<open>map_put\<close>), \<open>delete\<close> is \<open>map_del\<close>, \<open>get\<close> is \<^const>\<open>map_of\<close>;
  \<^item> a string is a \<^typ>\<open>string\<close>; the code modelled here only inspects ASCII characters of it.

  The collections \<open>js_simps\<close> and \<open>row_simps\<close> carry the component proofs.
\<close>

named_theorems js_simps \<open>facts on insertion-ordered sets and maps\<close>
named_theorems row_simps \<open>facts on rows of database tables\<close>

section \<open>Insertion-ordered sets\<close>

definition js_add :: "'a \<Rightarrow> 'a list \<Rightarrow> 'a list" where
  "js_add x s = (if x \<in> set s then s else s @ [x])"

definition js_set :: "'a list \<Rightarrow> 'a list" where
  "js_set xs = fold js_add xs []"

lemma set_js_add [simp, js_simps]: "set (js_add x s) = insert x (set s)"
  by (auto simp: js_add_def)

lemma distinct_js_add [simp, js_simps]: "distinct (js_add x s) = distinct s"
  by (auto simp: js_add_def)

lemma set_fold_js_add [simp, js_simps]: "set (fold js_add xs s) = set xs \<union> set s"
  by (induction xs arbitrary: s) auto

lemma distinct_fold_js_add [simp, js_simps]: "distinct (fold js_add xs s) = distinct s"
  by (induction xs arbitrary: s) auto

lemma set_js_set [simp, js_simps]: "set (js_set xs) = set xs"
  by (simp add: js_set_def)

lemma distinct_js_set [simp, js_simps]: "distinct (js_set xs)"
  by (simp add: js_set_def)

lemma fold_js_add_distinct: "distinct (s @ xs) \<Longrightarrow> fold js_add xs s = s @ xs"
  by (induction xs arbitrary: s) (auto simp: js_add_def)

lemma js_set_id: "distinct xs \<Longrightarrow> js_set xs = xs"
  by (simp add: js_set_def fold_js_add_distinct)

text \<open>The loop \<open>for (const x of xs) if (p(x)) out.add(x)\<close>.\<close>

definition js_add_if :: "('a \<Rightarrow> bool) \<Rightarrow> 'a \<Rightarrow> 'a list \<Rightarrow> 'a list" where
  "js_add_if p x s = (if p x then js_add x s else s)"

lemma set_fold_js_add_if [simp, js_simps]:
  "set (fold (js_add_if p) xs s) = {x \<in> set xs. p x} \<union> set s"
  by (induction xs arbitrary: s) (auto simp: js_add_if_def)

lemma distinct_fold_js_add_if [simp, js_simps]:
  "distinct (fold (js_add_if p) xs s) = distinct s"
  by (induction xs arbitrary: s) (auto simp: js_add_if_def)

section \<open>Insertion-ordered maps\<close>

definition map_del :: "'k \<Rightarrow> ('k \<times> 'v) list \<Rightarrow> ('k \<times> 'v) list" where
  "map_del k m = filter (\<lambda>(k', _). k' \<noteq> k) m"

fun map_put :: "'k \<Rightarrow> 'v \<Rightarrow> ('k \<times> 'v) list \<Rightarrow> ('k \<times> 'v) list" where
  "map_put k v [] = [(k, v)]"
| "map_put k v ((k', v') # m) = (if k' = k then (k, v) # m else (k', v') # map_put k v m)"

lemma map_of_map_put [simp, js_simps]: "map_of (map_put k v m) = (map_of m)(k \<mapsto> v)"
  by (induction m) auto

lemma keys_map_put: "fst ` set (map_put k v m) = insert k (fst ` set m)"
  by (induction m rule: map_put.induct) (simp_all add: insert_commute)

lemma distinct_map_put [js_simps]:
  "distinct (map fst m) \<Longrightarrow> distinct (map fst (map_put k v m))"
proof (induction m)
  case Nil
  then show ?case by simp
next
  case (Cons e m)
  obtain k' v' where e: "e = (k', v')" by (cases e)
  have "k' \<notin> fst ` set (map_put k v m)" if "k' \<noteq> k"
    using that Cons.prems e by (simp add: keys_map_put)
  then show ?case using Cons e by auto
qed

lemma map_of_map_del [simp, js_simps]: "map_of (map_del k m) = (map_of m)(k := None)"
  by (induction m) (auto simp: map_del_def)

lemma keys_map_del [simp, js_simps]: "fst ` set (map_del k m) = fst ` set m - {k}"
  by (auto simp: map_del_def image_iff)

lemma distinct_map_del [js_simps]: "distinct (map fst m) \<Longrightarrow> distinct (map fst (map_del k m))"
  by (induction m) (auto simp: map_del_def)

lemma map_del_absent: "k \<notin> fst ` set m \<Longrightarrow> map_del k m = m"
  by (induction m) (auto simp: map_del_def)

lemma set_map_put: "e \<in> set (map_put k v m) \<Longrightarrow> e = (k, v) \<or> e \<in> set m"
  by (induction m rule: map_put.induct) (auto split: if_splits)

lemma set_map_del: "e \<in> set (map_del k m) \<longleftrightarrow> e \<in> set m \<and> fst e \<noteq> k"
  by (auto simp: map_del_def)

lemma set_fold_map_del: "e \<in> set (fold map_del ks m) \<longleftrightarrow> e \<in> set m \<and> fst e \<notin> set ks"
  by (induction ks arbitrary: m) (auto simp: set_map_del)

text \<open>Re-inserting a key after deleting it appends it: iteration order is store order.\<close>

lemma map_put_fresh: "k \<notin> fst ` set m \<Longrightarrow> map_put k v m = m @ [(k, v)]"
  by (induction m) auto

section \<open>Tables as lists of rows\<close>

text \<open>\<open>find_row p t\<close> is \<open>SELECT \<dots> WHERE p LIMIT 1\<close>; \<open>update_rows\<close> is a multi-row \<open>UPDATE\<close>.\<close>

definition find_row :: "('a \<Rightarrow> bool) \<Rightarrow> 'a list \<Rightarrow> 'a option" where
  "find_row p t = List.find p t"

definition update_rows :: "('a \<Rightarrow> bool) \<Rightarrow> ('a \<Rightarrow> 'a) \<Rightarrow> 'a list \<Rightarrow> 'a list" where
  "update_rows p f t = map (\<lambda>r. if p r then f r else r) t"

lemma find_row_Some: "find_row p t = Some r \<Longrightarrow> r \<in> set t \<and> p r"
  by (auto simp: find_row_def find_Some_iff)

lemma find_row_None: "find_row p t = None \<longleftrightarrow> (\<forall>r \<in> set t. \<not> p r)"
  by (auto simp: find_row_def find_None_iff)

lemma find_row_Nil [simp]: "find_row p [] = None"
  by (simp add: find_row_def)

lemma find_row_Cons [simp]: "find_row p (x # xs) = (if p x then Some x else find_row p xs)"
  by (simp add: find_row_def)

lemma find_row_append:
  "find_row p (xs @ ys) = (case find_row p xs of None \<Rightarrow> find_row p ys | Some r \<Rightarrow> Some r)"
  by (induction xs) auto

lemma find_row_update:
  assumes "\<And>t. key (f t) = key t"
  shows "find_row (\<lambda>t. key t = i) (update_rows (\<lambda>t. key t = j) f ts) =
     (if i = j then map_option f (find_row (\<lambda>t. key t = i) ts) else find_row (\<lambda>t. key t = i) ts)"
  using assms by (induction ts) (auto simp: update_rows_def find_row_def)

lemma find_row_update_if:
  assumes "\<And>t. key (f t) = key t"
  shows "find_row (\<lambda>t. key t = i) (update_rows (\<lambda>t. key t = i \<and> q t) f ts) =
     map_option (\<lambda>t. if q t then f t else t) (find_row (\<lambda>t. key t = i) ts)"
  using assms by (induction ts) (auto simp: update_rows_def find_row_def)

lemma find_row_unique:
  "distinct (map key t) \<Longrightarrow> r \<in> set t \<Longrightarrow> find_row (\<lambda>x. key x = key r) t = Some r"
  by (induction t) (auto simp: image_iff)

lemma find_row_cong: "(\<And>r. r \<in> set t \<Longrightarrow> p r = q r) \<Longrightarrow> find_row p t = find_row q t"
  by (induction t) auto

lemma find_row_map:
  "(\<And>r. r \<in> set t \<Longrightarrow> p (f r) = p r) \<Longrightarrow> find_row p (map f t) = map_option f (find_row p t)"
  by (induction t) auto

lemma find_row_filter:
  "(\<And>r. r \<in> set t \<Longrightarrow> p r \<Longrightarrow> q r) \<Longrightarrow> find_row p (filter q t) = find_row p t"
  by (induction t) auto

lemma update_rows_mem: "r' \<in> set (update_rows p f t) \<Longrightarrow> \<exists>r \<in> set t. r' = (if p r then f r else r)"
  unfolding update_rows_def set_map by (erule imageE) blast

lemma set_update_rows [row_simps]:
  "set (update_rows p f t) = f ` {r \<in> set t. p r} \<union> {r \<in> set t. \<not> p r}"
  by (auto simp: update_rows_def)

lemma map_update_rows [simp, row_simps]:
  "(\<And>r. g (f r) = g r) \<Longrightarrow> map g (update_rows p f t) = map g t"
  by (auto simp: update_rows_def)

lemma update_rows_none [simp]: "(\<And>r. r \<in> set t \<Longrightarrow> \<not> p r) \<Longrightarrow> update_rows p f t = t"
  by (induction t) (auto simp: update_rows_def)

section \<open>Optional fields of a request body\<close>

text \<open>The \<open>??\<close> operator: the body's value when present, the stored one otherwise.\<close>

definition orElse :: "'a option \<Rightarrow> 'a \<Rightarrow> 'a" where
  "orElse mv d = (case mv of None \<Rightarrow> d | Some x \<Rightarrow> x)"

lemma orElse_simps [simp]: "orElse None d = d" "orElse (Some x) d = x"
  by (simp_all add: orElse_def)

end
