(* ===== verification/Permissions.thy ===== *)
theory Permissions
  imports Prelude
begin

text \<open>
  The permission catalogues of \<^verbatim>\<open>packages/shared-config/src\<close>: the panel keys
  (\<^verbatim>\<open>permissions.ts\<close>) and the live Squad keys (\<^verbatim>\<open>squad-permissions.ts\<close>).  Keys are strings,
  as in the source: token scopes and \<^verbatim>\<open>role_permissions\<close> rows are arbitrary strings that the
  code tests against the catalogue at run time.  The Russian display labels and descriptions
  carry no behaviour and are left out.
\<close>

section \<open>Panel permission keys\<close>

definition PERMISSION_CATEGORIES :: "string list" where
  "PERMISSION_CATEGORIES = [''servers'',
     ''configs'',
     ''players'',
     ''moderation'',
     ''admin_groups'',
     ''whitelist'',
     ''host'',
     ''audit'',
     ''events'',
     ''users'',
     ''roles'',
     ''backup'',
     ''api_tokens'',
     ''discord'',
     ''triggers'',
     ''scheduler'',
     ''balancer'',
     ''issues'']"

record permission_def =
  pd_key :: string
  pd_category :: string
  pd_dangerous :: bool
  pd_unimplemented :: bool

definition mkPermission :: "string \<Rightarrow> string \<Rightarrow> bool \<Rightarrow> bool \<Rightarrow> permission_def" where
  "mkPermission k c d u =
     \<lparr>pd_key = k, pd_category = c, pd_dangerous = d, pd_unimplemented = u\<rparr>"

lemma mkPermission_sel [simp]:
  "pd_key (mkPermission k c d u) = k" "pd_category (mkPermission k c d u) = c"
  "pd_dangerous (mkPermission k c d u) = d" "pd_unimplemented (mkPermission k c d u) = u"
  by (simp_all add: mkPermission_def)

definition PERMISSIONS :: "permission_def list" where
  "PERMISSIONS = [
     mkPermission ''server:view'' ''servers'' False False,
     mkPermission ''server:install'' ''servers'' True False,
     mkPermission ''server:start'' ''servers'' False False,
     mkPermission ''server:stop'' ''servers'' False False,
     mkPermission ''server:force_stop'' ''servers'' True False,
     mkPermission ''server:restart'' ''servers'' False False,
     mkPermission ''server:delete'' ''servers'' True False,
     mkPermission ''server:edit_settings'' ''servers'' False False,
     mkPermission ''server:update'' ''servers'' True False,
     mkPermission ''server:download_logs'' ''servers'' False False,
     mkPermission ''config:view'' ''configs'' False False,
     mkPermission ''config:edit'' ''configs'' True False,
     mkPermission ''config:rollback'' ''configs'' True False,
     mkPermission ''player:view'' ''players'' False False,
     mkPermission ''player:view_ips'' ''players'' False False,
     mkPermission ''player:manage_alt_detection'' ''players'' True False,
     mkPermission ''player:view_notes'' ''players'' False True,
     mkPermission ''player:edit_notes'' ''players'' False True,
     mkPermission ''player:set_flags'' ''players'' False False,
     mkPermission ''mod:kick'' ''moderation'' True False,
     mkPermission ''mod:warn'' ''moderation'' False False,
     mkPermission ''mod:ban_temp'' ''moderation'' True False,
     mkPermission ''mod:ban_perm'' ''moderation'' True False,
     mkPermission ''mod:unban'' ''moderation'' False False,
     mkPermission ''ban_source:view'' ''moderation'' False False,
     mkPermission ''message_template:manage'' ''moderation'' False False,
     mkPermission ''banlist:read'' ''moderation'' False False,
     mkPermission ''admin_group:view'' ''admin_groups'' False False,
     mkPermission ''admin_group:edit'' ''admin_groups'' True False,
     mkPermission ''whitelist:view'' ''whitelist'' False False,
     mkPermission ''whitelist:edit'' ''whitelist'' False False,
     mkPermission ''host:view'' ''host'' False False,
     mkPermission ''host:metrics'' ''host'' False False,
     mkPermission ''host:manage'' ''host'' True False,
     mkPermission ''audit:view'' ''audit'' False False,
     mkPermission ''audit:export'' ''audit'' False True,
     mkPermission ''events:view'' ''events'' False False,
     mkPermission ''user:view'' ''users'' False False,
     mkPermission ''user:manage_roles'' ''users'' True False,
     mkPermission ''role:view'' ''roles'' False False,
     mkPermission ''role:create'' ''roles'' False False,
     mkPermission ''role:edit'' ''roles'' False False,
     mkPermission ''role:delete'' ''roles'' True False,
     mkPermission ''backup:view'' ''backup'' False True,
     mkPermission ''backup:trigger'' ''backup'' False True,
     mkPermission ''backup:restore'' ''backup'' True True,
     mkPermission ''api_token:create'' ''api_tokens'' True False,
     mkPermission ''api_token:revoke'' ''api_tokens'' False False,
     mkPermission ''discord:link'' ''discord'' False True,
     mkPermission ''integration:manage'' ''discord'' True False,
     mkPermission ''trigger:view'' ''triggers'' False False,
     mkPermission ''trigger:edit'' ''triggers'' True False,
     mkPermission ''scheduler:view'' ''scheduler'' False True,
     mkPermission ''scheduler:edit'' ''scheduler'' False True,
     mkPermission ''balancer:view'' ''balancer'' False False,
     mkPermission ''balancer:edit'' ''balancer'' False False,
     mkPermission ''issue:view'' ''issues'' False False]"

definition PERMISSION_KEYS :: "string list" where
  "PERMISSION_KEYS = map pd_key PERMISSIONS"

definition isPermissionKey :: "string \<Rightarrow> bool" where
  "isPermissionKey x = (x \<in> set (js_set PERMISSION_KEYS))"

lemma isPermissionKey_iff [simp]: "isPermissionKey x \<longleftrightarrow> x \<in> set PERMISSION_KEYS"
  by (simp add: isPermissionKey_def)

section \<open>Live Squad permission keys\<close>

record squad_permission_def =
  sp_key :: string
  sp_dangerous :: bool

definition mkSquadPermission :: "string \<Rightarrow> bool \<Rightarrow> squad_permission_def" where
  "mkSquadPermission k d = \<lparr>sp_key = k, sp_dangerous = d\<rparr>"

lemma mkSquadPermission_sel [simp]:
  "sp_key (mkSquadPermission k d) = k" "sp_dangerous (mkSquadPermission k d) = d"
  by (simp_all add: mkSquadPermission_def)

definition SQUAD_PERMISSIONS :: "squad_permission_def list" where
  "SQUAD_PERMISSIONS = [
     mkSquadPermission ''startvote'' False,
     mkSquadPermission ''changemap'' True,
     mkSquadPermission ''pause'' False,
     mkSquadPermission ''cheat'' False,
     mkSquadPermission ''private'' False,
     mkSquadPermission ''balance'' False,
     mkSquadPermission ''chat'' False,
     mkSquadPermission ''kick'' True,
     mkSquadPermission ''ban'' True,
     mkSquadPermission ''config'' False,
     mkSquadPermission ''cameraman'' False,
     mkSquadPermission ''immune'' False,
     mkSquadPermission ''manageserver'' True,
     mkSquadPermission ''featuretest'' False,
     mkSquadPermission ''reserve'' False,
     mkSquadPermission ''demos'' False,
     mkSquadPermission ''clientdemos'' False,
     mkSquadPermission ''debug'' False,
     mkSquadPermission ''teamchange'' False,
     mkSquadPermission ''forceteamchange'' False,
     mkSquadPermission ''canseeadminchat'' False]"

definition SQUAD_PERMISSION_KEYS :: "string list" where
  "SQUAD_PERMISSION_KEYS = map sp_key SQUAD_PERMISSIONS"

definition isSquadPermissionKey :: "string \<Rightarrow> bool" where
  "isSquadPermissionKey x = (x \<in> set (js_set SQUAD_PERMISSION_KEYS))"

definition DANGEROUS_SQUAD_PERMISSIONS :: "string list" where
  "DANGEROUS_SQUAD_PERMISSIONS = js_set (map sp_key (filter sp_dangerous SQUAD_PERMISSIONS))"

definition isDangerousSquadPermission :: "string \<Rightarrow> bool" where
  "isDangerousSquadPermission k = (k \<in> set DANGEROUS_SQUAD_PERMISSIONS)"

section \<open>Facts about the catalogues\<close>

lemma distinct_PERMISSION_KEYS: "distinct PERMISSION_KEYS"
  by code_simp

lemma distinct_SQUAD_PERMISSION_KEYS: "distinct SQUAD_PERMISSION_KEYS"
  by code_simp

lemma PERMISSIONS_categories: "list_all (\<lambda>p. pd_category p \<in> set PERMISSION_CATEGORIES) PERMISSIONS"
  by code_simp

lemma js_set_PERMISSION_KEYS: "js_set PERMISSION_KEYS = PERMISSION_KEYS"
  by (simp add: js_set_id distinct_PERMISSION_KEYS)

lemma DANGEROUS_SQUAD_PERMISSIONS_eq:
  "DANGEROUS_SQUAD_PERMISSIONS = [''changemap'', ''kick'', ''ban'', ''manageserver'']"
  by code_simp

lemma kick_ban_squad_keys: "''kick'' \<in> set SQUAD_PERMISSION_KEYS" "''ban'' \<in> set SQUAD_PERMISSION_KEYS"
  by code_simp+

end
