(* ===== verification/Rbac.thy ===== *)
theory Rbac
  imports Permissions
begin

text \<open>
  Derivation of a user's permission context from a role: \<^verbatim>\<open>apps/api/src/lib/rbac.ts\<close> and the
  scope helpers of \<^verbatim>\<open>apps/api/src/lib/api-tokens.ts\<close>.

  A role row carries boolean flag columns; its live Squad permissions and its explicit
  \<^verbatim>\<open>role_permissions\<close> keys are separate tables.  \<open>buildRolePermissionContext\<close> derives what a
  holder of the role may do, \<open>narrowToTokenScopes\<close> what an API token of that holder may do,
  and \<open>grantsBeyond\<close> lists what one context has that another lacks.  The order \<open>ctx_le\<close> is
  the abstract meaning of \<open>grantsBeyond\<close>; the rest of the access-control proofs use only it.
\<close>

section \<open>Role rows and permission contexts\<close>

record role_row =
  role_id :: string
  role_name :: string
  color :: string
  description :: "string option"
  is_system_role :: bool
  panel_access :: bool
  can_view_ips :: bool
  can_assign_roles :: bool
  can_edit_roles :: bool
  can_manage_issues :: bool
  can_manage_ban_sources :: bool
  can_manage_integrations :: bool
  can_manage_clans :: bool
  can_manage_economy :: bool
  can_manage_media :: bool
  can_handle_reports :: bool
  can_manage_infrastructure :: bool
  combat_view :: bool

record permission_context =
  permissions :: "string list"
  squadPermissions :: "string list"
  roleId :: "string option"
  roleName :: "string option"
  panelAccess :: bool
  canViewIps :: bool
  canAssignRoles :: bool
  canEditRoles :: bool
  canManageIssues :: bool
  canManageBanSources :: bool
  canManageIntegrations :: bool
  canManageClans :: bool
  canManageEconomy :: bool
  canManageMedia :: bool
  canHandleReports :: bool
  combatView :: bool
  isOwner :: bool

definition emptyContext :: permission_context where
  "emptyContext = \<lparr>permissions = [], squadPermissions = [], roleId = None, roleName = None,
     panelAccess = False, canViewIps = False, canAssignRoles = False, canEditRoles = False,
     canManageIssues = False, canManageBanSources = False, canManageIntegrations = False,
     canManageClans = False, canManageEconomy = False, canManageMedia = False,
     canHandleReports = False, combatView = False, isOwner = False\<rparr>"

section \<open>Flag gates\<close>

definition PANEL_PERMS_GATED_BY_ASSIGN :: "string list" where
  "PANEL_PERMS_GATED_BY_ASSIGN = [''user:manage_roles'']"

definition PANEL_PERMS_GATED_BY_EDIT :: "string list" where
  "PANEL_PERMS_GATED_BY_EDIT = [''role:create'', ''role:edit'', ''role:delete'']"

definition PANEL_PERMS_GATED_BY_TRIGGER_EDIT :: "string list" where
  "PANEL_PERMS_GATED_BY_TRIGGER_EDIT = [''trigger:edit'']"

definition PANEL_PERMS_GATED_BY_EDIT_OR_GRANT :: "string list" where
  "PANEL_PERMS_GATED_BY_EDIT_OR_GRANT = [''message_template:manage'']"

definition PANEL_PERMS_GATED_BY_INTEGRATIONS :: "string list" where
  "PANEL_PERMS_GATED_BY_INTEGRATIONS = [''integration:manage'']"

definition PANEL_PERMS_GATED_BY_VIEW_IPS :: "string list" where
  "PANEL_PERMS_GATED_BY_VIEW_IPS = [''player:view_ips'']"

definition PANEL_PERMS_GATED_BY_VIEW_IPS_AND_EDIT :: "string list" where
  "PANEL_PERMS_GATED_BY_VIEW_IPS_AND_EDIT = [''player:manage_alt_detection'']"

definition PANEL_PERMS_GATED_BY_SQUAD_KICK :: "string list" where
  "PANEL_PERMS_GATED_BY_SQUAD_KICK = [''mod:kick'', ''mod:warn'']"

definition PANEL_PERMS_GATED_BY_SQUAD_BAN :: "string list" where
  "PANEL_PERMS_GATED_BY_SQUAD_BAN = [''mod:ban_temp'', ''mod:ban_perm'', ''mod:unban'']"

definition PANEL_PERMS_GATED_BY_INFRASTRUCTURE :: "string list" where
  "PANEL_PERMS_GATED_BY_INFRASTRUCTURE = [''host:manage'', ''server:install'', ''server:delete'',
     ''server:force_stop'', ''server:update'', ''config:edit'', ''config:rollback'',
     ''admin_group:edit'', ''api_token:create'', ''backup:restore'']"

definition PANEL_PERMS_WITH_FLAG_GATE :: "string list" where
  "PANEL_PERMS_WITH_FLAG_GATE = js_set (PANEL_PERMS_GATED_BY_ASSIGN @ PANEL_PERMS_GATED_BY_EDIT
     @ PANEL_PERMS_GATED_BY_TRIGGER_EDIT @ PANEL_PERMS_GATED_BY_EDIT_OR_GRANT
     @ PANEL_PERMS_GATED_BY_INTEGRATIONS @ PANEL_PERMS_GATED_BY_VIEW_IPS
     @ PANEL_PERMS_GATED_BY_VIEW_IPS_AND_EDIT @ PANEL_PERMS_GATED_BY_SQUAD_KICK
     @ PANEL_PERMS_GATED_BY_SQUAD_BAN @ PANEL_PERMS_GATED_BY_INFRASTRUCTURE)"

definition ALL_PANEL_PERMS :: "string list" where
  "ALL_PANEL_PERMS = js_set PERMISSION_KEYS"

definition EXPLICITLY_GRANTABLE_GATED_KEYS :: "string list" where
  "EXPLICITLY_GRANTABLE_GATED_KEYS =
     js_set (PANEL_PERMS_GATED_BY_TRIGGER_EDIT @ PANEL_PERMS_GATED_BY_EDIT_OR_GRANT)"

record role_flag_gates =
  gAssignRoles :: bool
  gEditRoles :: bool
  gManageIntegrations :: bool
  gViewIps :: bool
  gManageInfrastructure :: bool
  gSquadPermissions :: "string list"

definition keyPassesFlagGates :: "string \<Rightarrow> role_flag_gates \<Rightarrow> bool" where
  "keyPassesFlagGates key flags =
     (if key \<in> set PANEL_PERMS_GATED_BY_ASSIGN \<and> \<not> gAssignRoles flags then False
      else if key \<in> set PANEL_PERMS_GATED_BY_EDIT \<and> \<not> gEditRoles flags then False
      else if key \<in> set PANEL_PERMS_GATED_BY_TRIGGER_EDIT \<and> \<not> gEditRoles flags then False
      else if key \<in> set PANEL_PERMS_GATED_BY_EDIT_OR_GRANT \<and> \<not> gEditRoles flags then False
      else if key \<in> set PANEL_PERMS_GATED_BY_INTEGRATIONS \<and> \<not> gManageIntegrations flags then False
      else if key \<in> set PANEL_PERMS_GATED_BY_VIEW_IPS \<and> \<not> gViewIps flags then False
      else if key \<in> set PANEL_PERMS_GATED_BY_VIEW_IPS_AND_EDIT
              \<and> \<not> (gViewIps flags \<and> gEditRoles flags) then False
      else if key \<in> set PANEL_PERMS_GATED_BY_SQUAD_KICK
              \<and> ''kick'' \<notin> set (gSquadPermissions flags) then False
      else if key \<in> set PANEL_PERMS_GATED_BY_SQUAD_BAN
              \<and> ''ban'' \<notin> set (gSquadPermissions flags) then False
      else if key \<in> set PANEL_PERMS_GATED_BY_INFRASTRUCTURE
              \<and> \<not> gManageInfrastructure flags then False
      else True)"

definition derivePanelPermissions :: "bool \<Rightarrow> bool \<Rightarrow> role_flag_gates \<Rightarrow> string list" where
  "derivePanelPermissions panelAcc owner flags =
     (if owner then js_set ALL_PANEL_PERMS
      else if \<not> panelAcc then []
      else fold (js_add_if (\<lambda>key. keyPassesFlagGates key flags)) ALL_PANEL_PERMS [])"

section \<open>The context a role grants\<close>

text \<open>\<open>role.name === 'Owner' && role.isSystemRole\<close>, and the flags Owner implies.\<close>

definition ownerRole :: "role_row \<Rightarrow> bool" where
  "ownerRole r \<longleftrightarrow> role_name r = ''Owner'' \<and> is_system_role r"

definition roleSquadPermissions :: "role_row \<Rightarrow> string list \<Rightarrow> string list" where
  "roleSquadPermissions r squad =
     (if ownerRole r then js_set SQUAD_PERMISSION_KEYS
      else js_set (filter (\<lambda>k. k \<noteq> []) squad))"

definition roleFlagGates :: "role_row \<Rightarrow> string list \<Rightarrow> role_flag_gates" where
  "roleFlagGates r squad =
     \<lparr>gAssignRoles = ownerRole r \<or> can_assign_roles r,
      gEditRoles = ownerRole r \<or> can_edit_roles r,
      gManageIntegrations = ownerRole r \<or> can_manage_integrations r,
      gViewIps = ownerRole r \<or> can_view_ips r,
      gManageInfrastructure = ownerRole r \<or> can_manage_infrastructure r,
      gSquadPermissions = roleSquadPermissions r squad\<rparr>"

definition explicitAllowed :: "role_flag_gates \<Rightarrow> string \<Rightarrow> bool" where
  "explicitAllowed flags key \<longleftrightarrow> isPermissionKey key
     \<and> (key \<in> set EXPLICITLY_GRANTABLE_GATED_KEYS \<or> keyPassesFlagGates key flags)"

definition buildRolePermissionContext ::
  "string \<Rightarrow> role_row \<Rightarrow> string list \<Rightarrow> string list \<Rightarrow> permission_context" where
  "buildRolePermissionContext rid r squad explicitKeys =
     (let owner = ownerRole r;
          panelAcc = owner \<or> panel_access r;
          flags = roleFlagGates r squad;
          perms = derivePanelPermissions panelAcc owner flags
      in \<lparr>permissions = fold (js_add_if (explicitAllowed flags)) explicitKeys perms,
          squadPermissions = roleSquadPermissions r squad,
          roleId = Some rid, roleName = Some (role_name r),
          panelAccess = panelAcc,
          canViewIps = owner \<or> can_view_ips r,
          canAssignRoles = owner \<or> can_assign_roles r,
          canEditRoles = owner \<or> can_edit_roles r,
          canManageIssues = owner \<or> can_manage_issues r,
          canManageBanSources = owner \<or> (panelAcc \<and> can_manage_ban_sources r),
          canManageIntegrations = owner \<or> can_manage_integrations r,
          canManageClans = owner \<or> can_manage_clans r,
          canManageEconomy = owner \<or> (panelAcc \<and> can_manage_economy r),
          canManageMedia = owner \<or> (panelAcc \<and> can_manage_media r),
          canHandleReports = owner \<or> can_handle_reports r,
          combatView = owner \<or> (panelAcc \<and> combat_view r),
          isOwner = owner\<rparr>)"

section \<open>Comparing contexts\<close>

definition HIERARCHY_FLAGS :: "((permission_context \<Rightarrow> bool) \<times> string) list" where
  "HIERARCHY_FLAGS = [(isOwner, ''owner''), (panelAccess, ''panel_access''),
     (canViewIps, ''can_view_ips''), (canAssignRoles, ''can_assign_roles''),
     (canEditRoles, ''can_edit_roles''), (canManageIssues, ''can_manage_issues''),
     (canManageBanSources, ''can_manage_ban_sources''),
     (canManageIntegrations, ''can_manage_integrations''), (canManageClans, ''can_manage_clans''),
     (canManageEconomy, ''can_manage_economy''), (canManageMedia, ''can_manage_media''),
     (canHandleReports, ''can_handle_reports''), (combatView, ''combat_view'')]"

definition grantsBeyond :: "permission_context \<Rightarrow> permission_context \<Rightarrow> string list" where
  "grantsBeyond actor target =
     map snd (filter (\<lambda>(field, _). field target \<and> \<not> field actor) HIERARCHY_FLAGS)
     @ map (\<lambda>key. ''permission:'' @ key)
         (filter (\<lambda>key. key \<notin> set (permissions actor)) (permissions target))
     @ map (\<lambda>key. ''squad:'' @ key)
         (filter (\<lambda>key. key \<notin> set (squadPermissions actor)) (squadPermissions target))"

text \<open>The order \<open>target \<subseteq> actor\<close> that \<open>grantsBeyond\<close> decides.\<close>

definition ctx_le :: "permission_context \<Rightarrow> permission_context \<Rightarrow> bool" where
  "ctx_le t a \<longleftrightarrow> (\<forall>(field, _) \<in> set HIERARCHY_FLAGS. field t \<longrightarrow> field a)
     \<and> set (permissions t) \<subseteq> set (permissions a)
     \<and> set (squadPermissions t) \<subseteq> set (squadPermissions a)"

section \<open>Token scopes\<close>

definition intersectScopes :: "string list \<Rightarrow> string list \<Rightarrow> string list" where
  "intersectScopes scopes granted =
     fold (js_add_if (\<lambda>scope. isPermissionKey scope \<and> scope \<in> set granted)) scopes []"

record scope_validation =
  sv_ok :: bool
  sv_unknown :: "string list"
  sv_notGranted :: "string list"

definition validateScopesSubset :: "string list \<Rightarrow> string list \<Rightarrow> scope_validation" where
  "validateScopesSubset requested granted =
     (let unknown = filter (\<lambda>s. \<not> isPermissionKey s) requested;
          notGranted = filter (\<lambda>s. isPermissionKey s \<and> s \<notin> set granted) requested
      in \<lparr>sv_ok = (unknown = [] \<and> notGranted = []), sv_unknown = unknown,
          sv_notGranted = notGranted\<rparr>)"

definition delegates :: "string list \<Rightarrow> string list \<Rightarrow> bool" where
  "delegates perms keys = list_all (\<lambda>key. key \<in> set perms) keys"

definition narrowToTokenScopes :: "permission_context \<Rightarrow> string list \<Rightarrow> permission_context" where
  "narrowToTokenScopes r scopes =
     (let perms = intersectScopes scopes (permissions r);
          kick = (if ''kick'' \<in> set (squadPermissions r)
                     \<and> delegates perms PANEL_PERMS_GATED_BY_SQUAD_KICK
                  then js_add ''kick'' [] else []);
          squad = (if ''ban'' \<in> set (squadPermissions r)
                      \<and> delegates perms PANEL_PERMS_GATED_BY_SQUAD_BAN
                   then js_add ''ban'' kick else kick)
      in \<lparr>permissions = perms, squadPermissions = squad,
          roleId = roleId r, roleName = roleName r,
          panelAccess = (panelAccess r \<and> length perms > 0),
          canViewIps = (canViewIps r \<and> delegates perms PANEL_PERMS_GATED_BY_VIEW_IPS),
          canAssignRoles = (canAssignRoles r \<and> delegates perms PANEL_PERMS_GATED_BY_ASSIGN),
          canEditRoles = (canEditRoles r \<and> delegates perms PANEL_PERMS_GATED_BY_EDIT),
          canManageIssues = False, canManageBanSources = False,
          canManageIntegrations =
            (canManageIntegrations r \<and> delegates perms PANEL_PERMS_GATED_BY_INTEGRATIONS),
          canManageClans = False, canManageEconomy = False, canManageMedia = False,
          canHandleReports = False, combatView = False, isOwner = False\<rparr>)"

section \<open>Laws\<close>

lemmas gate_defs = PANEL_PERMS_GATED_BY_ASSIGN_def PANEL_PERMS_GATED_BY_EDIT_def
  PANEL_PERMS_GATED_BY_TRIGGER_EDIT_def PANEL_PERMS_GATED_BY_EDIT_OR_GRANT_def
  PANEL_PERMS_GATED_BY_INTEGRATIONS_def PANEL_PERMS_GATED_BY_VIEW_IPS_def
  PANEL_PERMS_GATED_BY_VIEW_IPS_AND_EDIT_def PANEL_PERMS_GATED_BY_SQUAD_KICK_def
  PANEL_PERMS_GATED_BY_SQUAD_BAN_def PANEL_PERMS_GATED_BY_INFRASTRUCTURE_def

lemma grantsBeyond_Nil: "grantsBeyond actor target = [] \<longleftrightarrow> ctx_le target actor"
  by (auto simp: grantsBeyond_def ctx_le_def filter_empty_conv)

lemma ctx_le_refl [simp, intro]: "ctx_le a a"
  by (auto simp: ctx_le_def)

lemma ctx_le_trans [trans]: "ctx_le a b \<Longrightarrow> ctx_le b c \<Longrightarrow> ctx_le a c"
  unfolding ctx_le_def by fast

lemma ctx_le_empty [simp, intro]: "ctx_le emptyContext a"
  by (simp add: ctx_le_def emptyContext_def HIERARCHY_FLAGS_def)

lemma ctx_le_permissions: "ctx_le t a \<Longrightarrow> k \<in> set (permissions t) \<Longrightarrow> k \<in> set (permissions a)"
  by (auto simp: ctx_le_def)

lemma ctx_le_squad: "ctx_le t a \<Longrightarrow> k \<in> set (squadPermissions t) \<Longrightarrow> k \<in> set (squadPermissions a)"
  by (auto simp: ctx_le_def)

lemma ctx_le_flags:
  assumes "ctx_le t a"
  shows "isOwner t \<Longrightarrow> isOwner a" "panelAccess t \<Longrightarrow> panelAccess a"
    "canAssignRoles t \<Longrightarrow> canAssignRoles a" "canEditRoles t \<Longrightarrow> canEditRoles a"
    "canViewIps t \<Longrightarrow> canViewIps a"
  using assms by (auto simp: ctx_le_def HIERARCHY_FLAGS_def)

lemma set_ALL_PANEL_PERMS [simp]: "set ALL_PANEL_PERMS = set PERMISSION_KEYS"
  by (simp add: ALL_PANEL_PERMS_def)

lemma set_derivePanelPermissions:
  "set (derivePanelPermissions pa owner flags) =
     (if owner then set PERMISSION_KEYS
      else if \<not> pa then {}
      else {k \<in> set PERMISSION_KEYS. keyPassesFlagGates k flags})"
  by (auto simp: derivePanelPermissions_def)

lemma isOwner_build [simp]:
  "isOwner (buildRolePermissionContext rid r squad ex) = ownerRole r"
  by (simp add: buildRolePermissionContext_def Let_def)

lemma roleId_build [simp]: "roleId (buildRolePermissionContext rid r squad ex) = Some rid"
  by (simp add: buildRolePermissionContext_def Let_def)

lemma panelAccess_build [simp]:
  "panelAccess (buildRolePermissionContext rid r squad ex) \<longleftrightarrow> ownerRole r \<or> panel_access r"
  by (simp add: buildRolePermissionContext_def Let_def)

lemma squadPermissions_build [simp]:
  "squadPermissions (buildRolePermissionContext rid r squad ex) = roleSquadPermissions r squad"
  by (simp add: buildRolePermissionContext_def Let_def)

lemma permissions_build:
  "set (permissions (buildRolePermissionContext rid r squad ex)) =
     {k \<in> set ex. explicitAllowed (roleFlagGates r squad) k}
     \<union> set (derivePanelPermissions (ownerRole r \<or> panel_access r) (ownerRole r)
              (roleFlagGates r squad))"
  by (simp add: buildRolePermissionContext_def Let_def)

lemma build_owner_permissions:
  "ownerRole r \<Longrightarrow>
   set (permissions (buildRolePermissionContext rid r squad ex)) = set PERMISSION_KEYS"
  by (auto simp: permissions_build set_derivePanelPermissions explicitAllowed_def)

lemma build_permissions_known:
  "set (permissions (buildRolePermissionContext rid r squad ex)) \<subseteq> set PERMISSION_KEYS"
  by (auto simp: permissions_build set_derivePanelPermissions explicitAllowed_def)

lemma set_intersectScopes [simp]:
  "set (intersectScopes scopes granted) =
     {s \<in> set scopes. s \<in> set PERMISSION_KEYS \<and> s \<in> set granted}"
  by (auto simp: intersectScopes_def)

lemma narrow_ctx_le: "ctx_le (narrowToTokenScopes r scopes) r"
  by (auto simp: ctx_le_def narrowToTokenScopes_def Let_def HIERARCHY_FLAGS_def split: if_splits)

lemma dangerous_keys_gated:
  "list_all (\<lambda>p. pd_dangerous p \<longrightarrow> pd_key p \<in> set PANEL_PERMS_WITH_FLAG_GATE) PERMISSIONS"
  by code_simp

text \<open>A gated key that passes means one of the flags behind the gates is set.\<close>

lemma passes_gate_flag:
  assumes "k \<in> set PANEL_PERMS_WITH_FLAG_GATE" and "keyPassesFlagGates k flags"
  shows "gAssignRoles flags \<or> gEditRoles flags \<or> gManageIntegrations flags \<or> gViewIps flags
    \<or> gManageInfrastructure flags \<or> ''kick'' \<in> set (gSquadPermissions flags)
    \<or> ''ban'' \<in> set (gSquadPermissions flags)"
  using assms by (auto simp: PANEL_PERMS_WITH_FLAG_GATE_def keyPassesFlagGates_def split: if_splits)

section \<open>Properties\<close>


text \<open>
  No dangerous permission without a flag.  A role that holds a permission the catalogue marks
  dangerous is the Owner role, has one of the role flags or Squad permissions behind the gates, or was
  given that key by an explicit row for a key that may be granted so.
\<close>

lemma dangerous_needs_flag:
  assumes "p \<in> set PERMISSIONS" and "pd_dangerous p"
    and "pd_key p \<in> set (permissions (buildRolePermissionContext rid r squad ex))"
  shows "ownerRole r \<or> can_assign_roles r \<or> can_edit_roles r \<or> can_manage_integrations r \<or> can_view_ips r
    \<or> can_manage_infrastructure r \<or> ''kick'' \<in> set squad \<or> ''ban'' \<in> set squad
    \<or> pd_key p \<in> {''trigger:edit'', ''message_template:manage''} \<and> pd_key p \<in> set ex"
proof -
  have gated: "pd_key p \<in> set PANEL_PERMS_WITH_FLAG_GATE"
    using dangerous_keys_gated assms(1,2) by (auto simp: list_all_iff)
  consider "ownerRole r" | "keyPassesFlagGates (pd_key p) (roleFlagGates r squad)"
    | "pd_key p \<in> {''trigger:edit'', ''message_template:manage''}" "pd_key p \<in> set ex"
    using assms(3) by (auto simp: permissions_build set_derivePanelPermissions explicitAllowed_def
        EXPLICITLY_GRANTABLE_GATED_KEYS_def gate_defs split: if_splits)
  then show ?thesis
  proof cases
    case 2
    then show ?thesis
      using passes_gate_flag [OF gated 2] by (auto simp: roleFlagGates_def roleSquadPermissions_def split: if_splits)
  qed auto
qed

definition demoModRole :: role_row where
  "demoModRole = \<lparr>role_id = ''r2'', role_name = ''Mod'', color = ''red'', description = None,
     is_system_role = False, panel_access = True, can_view_ips = False, can_assign_roles = False,
     can_edit_roles = False, can_manage_issues = False, can_manage_ban_sources = False,
     can_manage_integrations = False, can_manage_clans = False, can_manage_economy = False,
     can_manage_media = False, can_handle_reports = False, can_manage_infrastructure = False,
     combat_view = False\<rparr>"

lemma demo_dangerous:
  "list_ex (\<lambda>p. pd_dangerous p \<and> pd_key p = ''mod:ban_perm'') PERMISSIONS"
  "''mod:ban_perm'' \<in> set (permissions (buildRolePermissionContext ''r2'' demoModRole [''ban''] []))"
  by code_simp+

lemma dangerous_needs_flag_example:
  "\<exists>p \<in> set PERMISSIONS. pd_dangerous p
     \<and> pd_key p \<in> set (permissions (buildRolePermissionContext ''r2'' demoModRole [''ban''] []))
     \<and> ''ban'' \<in> set [''ban'']"
proof -
  obtain p where p: "p \<in> set PERMISSIONS" "pd_dangerous p" "pd_key p = ''mod:ban_perm''"
    using demo_dangerous(1) by (auto simp: list_ex_iff)
  then show ?thesis
    using dangerous_needs_flag [OF p(1,2), of "''r2''" demoModRole "[''ban'']" "[]"] demo_dangerous(2)
    by (auto simp: demoModRole_def ownerRole_def)
qed

text \<open>
  An API token is a restriction of its owner's role.  Its permissions are exactly the known scopes
  that the role grants, everything else it carries is within the role, and it never acts as Owner.
\<close>

lemma token_narrows_role:
  "ctx_le (narrowToTokenScopes r scopes) r \<and> \<not> isOwner (narrowToTokenScopes r scopes)
   \<and> set (permissions (narrowToTokenScopes r scopes))
       = {s \<in> set scopes. s \<in> set PERMISSION_KEYS \<and> s \<in> set (permissions r)}"
  by (simp add: narrow_ctx_le) (simp add: narrowToTokenScopes_def Let_def)

text \<open>
  Scopes accepted when a token is minted are all effective: if validation accepts the requested
  scopes against the granted permissions, narrowing to them yields the requested scopes without
  repetitions, in order.
\<close>

lemma accepted_scopes_effective:
  assumes "sv_ok (validateScopesSubset requested granted)"
  shows "intersectScopes requested granted = js_set requested"
proof -
  have all: "\<forall>x \<in> set requested. isPermissionKey x \<and> x \<in> set granted"
    using assms by (auto simp: validateScopesSubset_def Let_def filter_empty_conv)
  have "fold (js_add_if (\<lambda>s. isPermissionKey s \<and> s \<in> set granted)) requested acc
      = fold js_add requested acc" for acc
    using all by (induction requested arbitrary: acc) (auto simp: js_add_if_def)
  then show ?thesis by (simp add: intersectScopes_def js_set_def)
qed

lemma accepted_scopes_effective_example:
  "sv_ok (validateScopesSubset [''role:view'', ''role:view''] [''role:edit'', ''role:view''])
   \<and> intersectScopes [''role:view'', ''role:view''] [''role:edit'', ''role:view''] = [''role:view'']"
proof -
  have "sv_ok (validateScopesSubset [''role:view'', ''role:view''] [''role:edit'', ''role:view''])" by code_simp
  then show ?thesis using accepted_scopes_effective [of "[''role:view'', ''role:view'']"]
    by (simp add: js_set_def js_add_def)
qed

end
