(* ===== verification/Permission_Cache.thy ===== *)
theory Permission_Cache
  imports Prelude
begin

text \<open>
  The process-local permission cache of \<^verbatim>\<open>apps/api/src/lib/rbac.ts\<close>: a \<^verbatim>\<open>Map\<close> from player id to
  a value with an absolute expiry.  Every store sweeps expired entries from the front and evicts
  the oldest entry once \<open>PERMISSION_CACHE_MAX_ENTRIES\<close> is reached; a read serves an entry only
  before its expiry.  Times are milliseconds.

  The locale \<open>ttl_cache\<close> is the contract the authorisation code relies on: what a read may
  return after a store or an invalidation.  It is interpreted on the operations below.
\<close>

section \<open>Operations\<close>

type_synonym 'v perm_cache = "(string \<times> 'v \<times> int) list"

definition TTL_MS :: int where "TTL_MS = 30000"

definition PERMISSION_CACHE_MAX_ENTRIES :: nat where "PERMISSION_CACHE_MAX_ENTRIES = 5000"

text \<open>The loop over the map: stop at the first live entry while there is room.\<close>

fun sweepCache :: "int \<Rightarrow> 'v perm_cache \<Rightarrow> 'v perm_cache" where
  "sweepCache now [] = []"
| "sweepCache now ((key, v, expiresAt) # rest) =
     (if expiresAt > now \<and> length ((key, v, expiresAt) # rest) < PERMISSION_CACHE_MAX_ENTRIES
      then (key, v, expiresAt) # rest
      else sweepCache now rest)"

definition cachePermissions :: "int \<Rightarrow> string \<Rightarrow> 'v \<Rightarrow> 'v perm_cache \<Rightarrow> 'v perm_cache" where
  "cachePermissions now playerId v m =
     map_put playerId (v, now + TTL_MS) (sweepCache now (map_del playerId m))"

definition permissionCacheSize :: "'v perm_cache \<Rightarrow> nat" where
  "permissionCacheSize m = length m"

text \<open>
  The read at the top of \<open>loadUserPermissions\<close>: a live hit is served, an expired hit is deleted.
\<close>

definition cacheHit :: "int \<Rightarrow> string \<Rightarrow> 'v perm_cache \<Rightarrow> 'v option" where
  "cacheHit now playerId m =
     (case map_of m playerId of
        Some (v, expiresAt) \<Rightarrow> if expiresAt > now then Some v else None
      | None \<Rightarrow> None)"

definition cacheAfterRead :: "int \<Rightarrow> string \<Rightarrow> 'v perm_cache \<Rightarrow> 'v perm_cache" where
  "cacheAfterRead now playerId m =
     (case map_of m playerId of
        Some (v, expiresAt) \<Rightarrow> if expiresAt > now then m else map_del playerId m
      | None \<Rightarrow> m)"

definition invalidatePermissionCache :: "string \<Rightarrow> 'v perm_cache \<Rightarrow> 'v perm_cache" where
  "invalidatePermissionCache playerId m = map_del playerId m"

definition invalidateMany :: "string list \<Rightarrow> 'v perm_cache \<Rightarrow> 'v perm_cache" where
  "invalidateMany ids m = fold invalidatePermissionCache ids m"

definition invalidateAllPermissionCaches :: "'v perm_cache \<Rightarrow> 'v perm_cache" where
  "invalidateAllPermissionCaches m = []"

section \<open>Invariant: distinct keys, bounded size, expiry order\<close>

definition expiries :: "'v perm_cache \<Rightarrow> int list" where
  "expiries m = map (\<lambda>(_, _, e). e) m"

definition cache_ok :: "int \<Rightarrow> 'v perm_cache \<Rightarrow> bool" where
  "cache_ok now m \<longleftrightarrow> distinct (map fst m) \<and> length m \<le> PERMISSION_CACHE_MAX_ENTRIES
     \<and> sorted (expiries m) \<and> (\<forall>e \<in> set (expiries m). e \<le> now + TTL_MS)"

lemma expiries_Nil [simp]: "expiries [] = []"
  by (simp add: expiries_def)

lemma expiries_Cons [simp]: "expiries ((k, v, e) # m) = e # expiries m"
  by (simp add: expiries_def)

lemma expiries_append [simp]: "expiries (m @ m') = expiries m @ expiries m'"
  by (simp add: expiries_def)

lemma sweepCache_suffix: "suffix (sweepCache now m) m"
  by (induction now m rule: sweepCache.induct) (auto simp: suffix_Cons)

lemma length_sweepCache: "length (sweepCache now m) < PERMISSION_CACHE_MAX_ENTRIES"
  by (induction now m rule: sweepCache.induct) (auto simp: PERMISSION_CACHE_MAX_ENTRIES_def)

lemma sorted_suffix: "suffix xs ys \<Longrightarrow> sorted ys \<Longrightarrow> sorted xs"
  by (auto simp: suffix_def sorted_append)

lemma expiries_suffix: "suffix m m' \<Longrightarrow> suffix (expiries m) (expiries m')"
  by (auto simp: suffix_def)

lemma distinct_keys_suffix: "suffix m m' \<Longrightarrow> distinct (map fst m') \<Longrightarrow> distinct (map fst m)"
  by (auto simp: suffix_def)

text \<open>With entries in expiry order the sweep removes every expired one.\<close>

lemma sweepCache_live: "sorted (expiries m) \<Longrightarrow> \<forall>e \<in> set (expiries (sweepCache now m)). e > now"
  by (induction now m rule: sweepCache.induct) auto

lemma expiries_map_del: "sorted (expiries m) \<Longrightarrow> sorted (expiries (map_del k m))"
  unfolding expiries_def map_del_def
  by (induction m) (auto simp: image_iff)

lemma set_expiries_map_del: "set (expiries (map_del k m)) \<subseteq> set (expiries m)"
  by (force simp: expiries_def map_del_def)

lemma length_map_del: "length (map_del k m) \<le> length m"
  by (simp add: map_del_def)

lemma cache_ok_map_del: "cache_ok now m \<Longrightarrow> cache_ok now (map_del k m)"
  using length_map_del [of k m] set_expiries_map_del [of k m]
  by (auto simp: cache_ok_def expiries_map_del distinct_map_del)

lemma sweep_key_notin: "k \<notin> fst ` set (sweepCache now (map_del k m))"
proof -
  have "set (sweepCache now (map_del k m)) \<subseteq> set (map_del k m)"
    by (rule set_mono_suffix [OF sweepCache_suffix])
  then show ?thesis by (auto simp: map_del_def)
qed

lemma cachePermissions_append:
  "cachePermissions now k v m = sweepCache now (map_del k m) @ [(k, v, now + TTL_MS)]"
  by (simp add: cachePermissions_def map_put_fresh sweep_key_notin)

lemma cache_ok_mono: "cache_ok now m \<Longrightarrow> now \<le> now' \<Longrightarrow> cache_ok now' m"
  by (force simp: cache_ok_def)

lemma cache_ok_cachePermissions:
  assumes "cache_ok t m" and "t \<le> now"
  shows "cache_ok now (cachePermissions now k v m)"
proof -
  let ?s = "sweepCache now (map_del k m)"
  have ok: "cache_ok now (map_del k m)"
    using assms by (blast intro: cache_ok_mono cache_ok_map_del)
  have suf: "suffix ?s (map_del k m)" by (rule sweepCache_suffix)
  have "distinct (map fst ?s)"
    using ok distinct_keys_suffix [OF suf] by (simp add: cache_ok_def)
  moreover have "sorted (expiries ?s)"
    using ok sorted_suffix [OF expiries_suffix [OF suf]] by (simp add: cache_ok_def)
  moreover have "\<forall>e \<in> set (expiries ?s). e \<le> now + TTL_MS"
    using ok set_mono_suffix [OF expiries_suffix [OF suf]] by (auto simp: cache_ok_def)
  moreover have "length ?s < PERMISSION_CACHE_MAX_ENTRIES" by (rule length_sweepCache)
  ultimately show ?thesis
    using sweep_key_notin [of k now m]
    by (auto simp: cachePermissions_append cache_ok_def sorted_append)
qed

lemma cachePermissions_live:
  assumes "cache_ok t m"
  shows "\<forall>e \<in> set (expiries (cachePermissions now k v m)). e > now"
proof -
  have "sorted (expiries (map_del k m))"
    using assms by (simp add: cache_ok_def expiries_map_del)
  then show ?thesis
    using sweepCache_live by (auto simp: cachePermissions_append TTL_MS_def)
qed

section \<open>The contract of a bounded cache with a time to live\<close>

locale ttl_cache =
  fixes put :: "int \<Rightarrow> 'k \<Rightarrow> 'v \<Rightarrow> 'm \<Rightarrow> 'm"
    and get :: "int \<Rightarrow> 'k \<Rightarrow> 'm \<Rightarrow> 'v option"
    and drop_key :: "'k \<Rightarrow> 'm \<Rightarrow> 'm"
    and empty :: 'm
    and invar :: "'m \<Rightarrow> bool"
    and ttl :: int
  assumes get_empty: "get now k empty = None"
    and get_put_same: "get now' k (put now k v m) = (if now' < now + ttl then Some v else None)"
    and get_put_other: "invar m \<Longrightarrow> k' \<noteq> k \<Longrightarrow> get now' k' (put now k v m) = Some x \<Longrightarrow>
      get now' k' m = Some x"
    and get_drop_same: "get now' k (drop_key k m) = None"
    and get_drop_other: "k' \<noteq> k \<Longrightarrow> get now' k' (drop_key k m) = get now' k' m"
    and invar_empty: "invar empty"
    and invar_put: "invar m \<Longrightarrow> invar (put now k v m)"
    and invar_drop: "invar m \<Longrightarrow> invar (drop_key k m)"
begin

text \<open>
  A history is the list of stores and invalidations, newest first.  \<open>last_store k h\<close> is the
  newest store of \<open>k\<close> that no later invalidation of \<open>k\<close> cancelled.
\<close>

fun run_ops :: "('k \<times> (int \<times> 'v) option) list \<Rightarrow> 'm" where
  "run_ops [] = empty"
| "run_ops ((k, Some (t, v)) # h) = put t k v (run_ops h)"
| "run_ops ((k, None) # h) = drop_key k (run_ops h)"

lemma invar_run_ops: "invar (run_ops h)"
  by (induction h rule: run_ops.induct) (simp_all add: invar_empty invar_put invar_drop)

lemma served_is_last_store:
  "get now k (run_ops h) = Some x \<Longrightarrow>
   \<exists>t. map_of h k = Some (Some (t, x)) \<and> now < t + ttl"
proof (induction h rule: run_ops.induct)
  case 1
  then show ?case by (simp add: get_empty)
next
  case (2 k' t v h)
  show ?case
  proof (cases "k = k'")
    case True
    with "2.prems" show ?thesis by (auto simp: get_put_same split: if_splits)
  next
    case False
    with "2.prems" have "get now k (run_ops h) = Some x"
      by (auto dest: get_put_other [OF invar_run_ops])
    with "2.IH" False show ?thesis by auto
  qed
next
  case (3 k' h)
  then show ?case by (cases "k = k'") (auto simp: get_drop_same get_drop_other)
qed

end

lemma map_of_suffix_distinct:
  "suffix m m' \<Longrightarrow> distinct (map fst m') \<Longrightarrow> map_of m k = Some x \<Longrightarrow> map_of m' k = Some x"
proof -
  assume "suffix m m'" and d: "distinct (map fst m')" and x: "map_of m k = Some x"
  then obtain ys where m': "m' = ys @ m" by (auto simp: suffix_def)
  have "k \<notin> fst ` set ys"
  proof
    assume "k \<in> fst ` set ys"
    moreover have "k \<in> fst ` set m" using map_of_SomeD [OF x] by force
    ultimately show False using d m' by auto
  qed
  then have "map_of ys k = None" by (simp add: map_of_eq_None_iff)
  then show "map_of m' k = Some x" using x m' by (simp add: map_add_def)
qed

lemma cacheHit_put_same:
  "cacheHit now' k (cachePermissions now k v m) = (if now' < now + TTL_MS then Some v else None)"
  using sweep_key_notin [of k now m]
  by (simp add: cacheHit_def cachePermissions_def)

lemma cacheHit_put_other:
  assumes "distinct (map fst m)" and "k' \<noteq> k"
    and "cacheHit now' k' (cachePermissions now k v m) = Some x"
  shows "cacheHit now' k' m = Some x"
proof -
  have suf: "suffix (sweepCache now (map_del k m)) (map_del k m)" by (rule sweepCache_suffix)
  have dis: "distinct (map fst (map_del k m))" using assms(1) by (rule distinct_map_del)
  obtain e where e: "map_of (sweepCache now (map_del k m)) k' = Some (x, e)" and "now' < e"
  proof (cases "map_of (sweepCache now (map_del k m)) k'")
    case None
    then show thesis using assms(2,3) by (simp add: cacheHit_def cachePermissions_def)
  next
    case (Some y)
    then show thesis
      using assms(2,3) that
      by (cases y) (simp add: cacheHit_def cachePermissions_def split: if_splits)
  qed
  have "map_of (map_del k m) k' = Some (x, e)"
    by (rule map_of_suffix_distinct [OF suf dis e])
  then show ?thesis using assms(2) \<open>now' < e\<close> by (simp add: cacheHit_def)
qed

text \<open>After a store, an entry is the stored one or an earlier one.\<close>

lemma map_of_cachePermissions:
  assumes "distinct (map fst m)" and "map_of (cachePermissions now k v m) k' = Some x"
  shows "k' = k \<and> x = (v, now + TTL_MS) \<or> map_of m k' = Some x"
proof (cases "k' = k")
  case True
  then show ?thesis using assms(2) by (simp add: cachePermissions_def)
next
  case False
  then have "map_of (sweepCache now (map_del k m)) k' = Some x"
    using assms(2) by (simp add: cachePermissions_def)
  then have "map_of (map_del k m) k' = Some x"
    using map_of_suffix_distinct [OF sweepCache_suffix distinct_map_del [OF assms(1)]] by blast
  then show ?thesis using False by simp
qed

lemma cacheHit_drop:
  "cacheHit now k' (invalidatePermissionCache k m) = (if k' = k then None else cacheHit now k' m)"
  by (simp add: cacheHit_def invalidatePermissionCache_def)

lemma distinct_cachePermissions:
  assumes "distinct (map fst m)"
  shows "distinct (map fst (cachePermissions now k v m))"
proof -
  have "distinct (map fst (sweepCache now (map_del k m)))"
    by (rule distinct_keys_suffix [OF sweepCache_suffix distinct_map_del [OF assms]])
  then show ?thesis
    using sweep_key_notin [of k now m] by (simp add: cachePermissions_append)
qed

lemma distinct_invalidatePermissionCache:
  "distinct (map fst m) \<Longrightarrow> distinct (map fst (invalidatePermissionCache k m))"
  by (simp add: invalidatePermissionCache_def distinct_map_del)

interpretation pc: ttl_cache cachePermissions cacheHit invalidatePermissionCache "[]"
  "\<lambda>m. distinct (map fst m)" TTL_MS
proof unfold_locales
  show "cacheHit now k [] = (None :: 'a option)" for now k
    by (simp add: cacheHit_def)
next
  fix m :: "'a perm_cache" and k' k now' now v x
  assume "distinct (map fst m)" "k' \<noteq> k" "cacheHit now' k' (cachePermissions now k v m) = Some x"
  then show "cacheHit now' k' m = Some x" by (rule cacheHit_put_other)
qed (simp_all add: cacheHit_put_same cacheHit_drop distinct_cachePermissions
       distinct_invalidatePermissionCache)

section \<open>Histories of the permission cache\<close>

text \<open>The cache after a history of stores and invalidations, newest first.\<close>

fun cacheHistory :: "(string \<times> (int \<times> 'v) option) list \<Rightarrow> 'v perm_cache" where
  "cacheHistory [] = []"
| "cacheHistory ((k, Some (t, v)) # h) = cachePermissions t k v (cacheHistory h)"
| "cacheHistory ((k, None) # h) = invalidatePermissionCache k (cacheHistory h)"

lemma cacheHistory_run: "cacheHistory h = pc.run_ops h"
  by (induction h rule: cacheHistory.induct) simp_all

fun storeTimes :: "(string \<times> (int \<times> 'v) option) list \<Rightarrow> int list" where
  "storeTimes [] = []"
| "storeTimes ((k, Some (t, v)) # h) = t # storeTimes h"
| "storeTimes ((k, None) # h) = storeTimes h"

lemma cache_ok_history:
  "sorted_wrt (\<ge>) (now # storeTimes h) \<Longrightarrow> cache_ok now (cacheHistory h)"
proof (induction h arbitrary: now rule: cacheHistory.induct)
  case 1
  then show ?case by (simp add: cache_ok_def)
next
  case (2 k t v h)
  then have "cache_ok t (cacheHistory h)" by auto
  then have "cache_ok t (cachePermissions t k v (cacheHistory h))" by (rule cache_ok_cachePermissions) simp
  then show ?case using 2(2) by (auto intro: cache_ok_mono)
next
  case (3 k h)
  then show ?case by (simp add: invalidatePermissionCache_def cache_ok_map_del)
qed

section \<open>Properties\<close>

text \<open>
  The permission cache serves only current grants.  After any history of stores and invalidations,
  a hit is the value of the newest operation on that player, which is a store made less than the time
  to live ago: never a value that was invalidated or overwritten since.
\<close>

lemma permission_cache_current:
  assumes "cacheHit now pid (cacheHistory h) = Some c"
  shows "\<exists>t. map_of h pid = Some (Some (t, c)) \<and> now < t + TTL_MS"
  using assms pc.served_is_last_store by (simp add: cacheHistory_run)

lemma permission_cache_current_example:
  "cacheHit 9 ''a'' (cacheHistory [(''b'', None), (''a'', Some (5, True)), (''a'', Some (1, False))]) = Some True
   \<and> (9::int) < 5 + TTL_MS"
proof -
  have "cacheHit 9 ''a'' (cacheHistory [(''b'', None), (''a'', Some (5, True)), (''a'', Some (1, False))]) = Some True"
    by code_simp
  then show ?thesis
    using permission_cache_current [of 9 "''a''" "[(''b'', None), (''a'', Some (5, True)), (''a'', Some (1, False))]" True]
    by auto
qed

text \<open>
  The permission cache is bounded.  After any history with a clock that does not run backwards it
  holds at most \<open>PERMISSION_CACHE_MAX_ENTRIES\<close> entries, one per player, in order of expiry, and right
  after a store none of them has expired.
\<close>

lemma permission_cache_bounded:
  assumes "sorted_wrt (\<ge>) (now # storeTimes h)"
  shows "permissionCacheSize (cacheHistory h) \<le> 5000 \<and> distinct (map fst (cacheHistory h))
    \<and> sorted (expiries (cacheHistory h))
    \<and> (\<forall>e \<in> set (expiries (cachePermissions now pid c (cacheHistory h))). now < e)"
  using cache_ok_history [OF assms] cachePermissions_live [OF cache_ok_history [OF assms], of now pid c]
  by (auto simp: cache_ok_def permissionCacheSize_def PERMISSION_CACHE_MAX_ENTRIES_def)

lemma permission_cache_bounded_example:
  "permissionCacheSize (cacheHistory [(''a'', Some (5, True)), (''b'', None), (''a'', Some (1, False))]) \<le> 5000"
  using permission_cache_bounded [of 9 "[(''a'', Some (5, True)), (''b'', None), (''a'', Some (1, False))]"] by simp

end
