(* ===== verification/Sessions.thy ===== *)
theory Sessions
  imports Prelude
begin

text \<open>
  Browser sessions: \<^verbatim>\<open>apps/api/src/lib/sessions.ts\<close>.  A session is a row of the \<^verbatim>\<open>sessions\<close> table
  keyed by the SHA-256 of the cookie token, cached in Redis for \<open>REDIS_TTL_SECONDS\<close> under an HMAC.
  The hash and the HMAC are the parameters \<open>hash\<close> and \<open>mac\<close>.  A cache value is either an envelope
  (the payload object its JSON text parses to, with the MAC text) or text that is not such an
  envelope.  Times are milliseconds.
\<close>

section \<open>State\<close>

datatype session_scope = Panel | SelfService

record session_payload =
  sp_player :: string
  sp_expires :: int
  sp_last :: int
  sp_ip :: "string option"
  sp_agent :: "string option"
  sp_scope :: "string option"

record session_record =
  s_id :: string
  s_player :: string
  s_expires :: int
  s_last :: int
  s_ip :: "string option"
  s_agent :: "string option"
  s_scope :: session_scope

datatype redis_value = Envelope session_payload string | Unparsable

record sess_state =
  s_rows :: "session_record list"
  s_redis :: "(string \<times> redis_value \<times> int) list"
  s_touches :: "(string \<times> int) list"
  s_revoked :: "(string \<times> string) list"

text \<open>
  \<open>s_touches\<close> holds the \<^verbatim>\<open>session-touch:<id>\<close> throttle keys with their deadlines, \<open>s_revoked\<close> the
  \<^verbatim>\<open>session.revoked\<close> events published so far as pairs of player and session id.
\<close>

definition REDIS_TTL_SECONDS :: int where "REDIS_TTL_SECONDS = 600"

definition SCOPE_SELF_SERVICE :: string where "SCOPE_SELF_SERVICE = ''self_service''"

definition normalizeScope :: "string option \<Rightarrow> session_scope" where
  "normalizeScope v = (if v = Some SCOPE_SELF_SERVICE then SelfService else Panel)"

definition scopeText :: "session_scope \<Rightarrow> string" where
  "scopeText s = (case s of SelfService \<Rightarrow> SCOPE_SELF_SERVICE | Panel \<Rightarrow> ''panel'')"

section \<open>The cache\<close>

text \<open>Redis keys are \<^verbatim>\<open>session:<id>\<close>; the prefix is left out of the model's keys.\<close>

definition payloadOf :: "session_record \<Rightarrow> session_payload" where
  "payloadOf s = \<lparr>sp_player = s_player s, sp_expires = s_expires s, sp_last = s_last s,
     sp_ip = s_ip s, sp_agent = s_agent s, sp_scope = Some (scopeText (s_scope s))\<rparr>"

definition redisGet :: "int \<Rightarrow> string \<Rightarrow> sess_state \<Rightarrow> redis_value option" where
  "redisGet now k st =
     (case map_of (s_redis st) k of
        Some (v, deadline) \<Rightarrow> if now < deadline then Some v else None
      | None \<Rightarrow> None)"

definition cachePut ::
  "(string \<Rightarrow> session_payload \<Rightarrow> string) \<Rightarrow> int \<Rightarrow> session_record \<Rightarrow> sess_state \<Rightarrow> sess_state" where
  "cachePut mac now s st =
     st\<lparr>s_redis := map_put (s_id s)
          (Envelope (payloadOf s) (mac (s_id s) (payloadOf s)), now + REDIS_TTL_SECONDS * 1000)
          (s_redis st)\<rparr>"

definition cacheGet ::
  "(string \<Rightarrow> session_payload \<Rightarrow> string) \<Rightarrow> int \<Rightarrow> string \<Rightarrow> sess_state \<Rightarrow> session_record option" where
  "cacheGet mac now tokenId st =
     (case redisGet now tokenId st of
        None \<Rightarrow> None
      | Some Unparsable \<Rightarrow> None
      | Some (Envelope payload m) \<Rightarrow>
          if m \<noteq> mac tokenId payload then None
          else Some \<lparr>s_id = tokenId, s_player = sp_player payload, s_expires = sp_expires payload,
                     s_last = sp_last payload, s_ip = sp_ip payload, s_agent = sp_agent payload,
                     s_scope = normalizeScope (sp_scope payload)\<rparr>)"

definition invalidateSessionCache :: "string \<Rightarrow> sess_state \<Rightarrow> sess_state" where
  "invalidateSessionCache tokenId st = st\<lparr>s_redis := map_del tokenId (s_redis st)\<rparr>"

section \<open>Operations\<close>

text \<open>The insert raises on a duplicate primary key; \<open>token\<close> is the freshly minted one.\<close>

definition createSession ::
  "(string \<Rightarrow> string) \<Rightarrow> (string \<Rightarrow> session_payload \<Rightarrow> string) \<Rightarrow> int \<Rightarrow> string \<Rightarrow> string
   \<Rightarrow> string option \<Rightarrow> string option \<Rightarrow> int \<Rightarrow> session_scope option
   \<Rightarrow> sess_state \<Rightarrow> (session_record \<times> sess_state) option" where
  "createSession hash mac now token playerId ip agent ttlMs scope st =
     (let s = \<lparr>s_id = hash token, s_player = playerId, s_expires = now + ttlMs, s_last = now,
               s_ip = ip, s_agent = agent, s_scope = orElse scope Panel\<rparr>
      in if hash token \<in> s_id ` set (s_rows st) then None
         else Some (s, cachePut mac now s (st\<lparr>s_rows := s_rows st @ [s]\<rparr>)))"

definition revokeSession :: "string \<Rightarrow> sess_state \<Rightarrow> sess_state" where
  "revokeSession tokenId st =
     invalidateSessionCache tokenId (st\<lparr>s_rows := filter (\<lambda>s. s_id s \<noteq> tokenId) (s_rows st)\<rparr>)"

text \<open>The part of \<open>resolveSession\<close> after a cache miss.\<close>

definition resolveFromDb ::
  "(string \<Rightarrow> session_payload \<Rightarrow> string) \<Rightarrow> int \<Rightarrow> string
   \<Rightarrow> sess_state \<Rightarrow> session_record option \<times> sess_state" where
  "resolveFromDb mac now tokenId st =
     (case find_row (\<lambda>s. s_id s = tokenId) (s_rows st) of
        None \<Rightarrow> (None, st)
      | Some row \<Rightarrow>
          if s_expires row \<le> now then (None, revokeSession tokenId st)
          else (Some row, cachePut mac now row st))"

definition resolveSession ::
  "(string \<Rightarrow> string) \<Rightarrow> (string \<Rightarrow> session_payload \<Rightarrow> string) \<Rightarrow> int \<Rightarrow> string
   \<Rightarrow> sess_state \<Rightarrow> session_record option \<times> sess_state" where
  "resolveSession hash mac now token st =
     (if token = [] then (None, st)
      else case cacheGet mac now (hash token) st of
             Some c \<Rightarrow>
               if s_expires c \<ge> now then (Some c, st)
               else resolveFromDb mac now (hash token) (invalidateSessionCache (hash token) st)
           | None \<Rightarrow> resolveFromDb mac now (hash token) st)"

definition REVOKE_REDIS_DEL_BATCH :: nat where "REVOKE_REDIS_DEL_BATCH = 1000"

text \<open>The batched \<open>DEL\<close> loop.\<close>

function delBatches :: "string list \<Rightarrow> sess_state \<Rightarrow> sess_state" where
  "delBatches ids st =
     (if ids = [] then st
      else delBatches (drop REVOKE_REDIS_DEL_BATCH ids)
             (st\<lparr>s_redis := fold map_del (take REVOKE_REDIS_DEL_BATCH ids) (s_redis st)\<rparr>))"
  by pat_completeness auto
termination
  by (relation "measure (length \<circ> fst)") (auto simp: REVOKE_REDIS_DEL_BATCH_def)

declare delBatches.simps [simp del]

definition revokeAllForPlayers :: "bool \<Rightarrow> string list \<Rightarrow> sess_state \<Rightarrow> sess_state" where
  "revokeAllForPlayers publisher playerIds st =
     (if playerIds = [] then st
      else let gone = filter (\<lambda>s. s_player s \<in> set playerIds) (s_rows st);
               st1 = st\<lparr>s_rows := filter (\<lambda>s. s_player s \<notin> set playerIds) (s_rows st)\<rparr>
           in if gone = [] then st1
              else let st2 = delBatches (map s_id gone) st1
                   in if \<not> publisher then st2
                      else st2\<lparr>s_revoked := s_revoked st2 @ map (\<lambda>s. (s_player s, s_id s)) gone\<rparr>)"

definition revokeAllForPlayer :: "bool \<Rightarrow> string \<Rightarrow> sess_state \<Rightarrow> sess_state" where
  "revokeAllForPlayer publisher playerId st = revokeAllForPlayers publisher [playerId] st"

definition pruneExpired :: "int \<Rightarrow> sess_state \<Rightarrow> nat \<times> sess_state" where
  "pruneExpired now st =
     (length (filter (\<lambda>s. s_expires s < now) (s_rows st)),
      st\<lparr>s_rows := filter (\<lambda>s. \<not> s_expires s < now) (s_rows st)\<rparr>)"

text \<open>
  \<open>touchSession\<close> with the \<open>updateDb\<close> callback of \<^verbatim>\<open>plugins/auth.ts\<close>: the \<open>SET NX EX\<close> throttle key,
  the new deadline in the row, and the cached entry dropped.
\<close>

definition touchRow :: "int \<Rightarrow> int \<Rightarrow> int \<Rightarrow> string \<Rightarrow> sess_state \<Rightarrow> sess_state" where
  "touchRow now ttlSeconds throttleSeconds sessionId st =
     invalidateSessionCache sessionId
       (st\<lparr>s_touches := map_put sessionId (now + throttleSeconds * 1000) (s_touches st),
          s_rows := update_rows (\<lambda>s. s_id s = sessionId)
            (\<lambda>s. s\<lparr>s_expires := now + ttlSeconds * 1000, s_last := now\<rparr>) (s_rows st)\<rparr>)"

definition touchSession :: "int \<Rightarrow> int \<Rightarrow> int \<Rightarrow> string \<Rightarrow> sess_state \<Rightarrow> bool \<times> sess_state" where
  "touchSession now ttlSeconds throttleSeconds sessionId st =
     (case map_of (s_touches st) sessionId of
        Some deadline \<Rightarrow>
          if now < deadline then (False, st)
          else (True, touchRow now ttlSeconds throttleSeconds sessionId st)
      | None \<Rightarrow> (True, touchRow now ttlSeconds throttleSeconds sessionId st))"


section \<open>The session store as a state machine\<close>

datatype sess_op =
    Create string string "string option" "string option" int "session_scope option"
  | Resolve string
  | Revoke string
  | RevokeAll bool "string list"
  | Prune
  | Touch string int int

fun sess_exec ::
  "(string \<Rightarrow> string) \<Rightarrow> (string \<Rightarrow> session_payload \<Rightarrow> string) \<Rightarrow> int \<Rightarrow> sess_op
   \<Rightarrow> sess_state \<Rightarrow> sess_state" where
  "sess_exec hash mac now (Create token pid ip agent ttl scope) st =
     (case createSession hash mac now token pid ip agent ttl scope st of
        None \<Rightarrow> st | Some (_, st') \<Rightarrow> st')"
| "sess_exec hash mac now (Resolve token) st = snd (resolveSession hash mac now token st)"
| "sess_exec hash mac now (Revoke tokenId) st = revokeSession tokenId st"
| "sess_exec hash mac now (RevokeAll pub pids) st = revokeAllForPlayers pub pids st"
| "sess_exec hash mac now Prune st = snd (pruneExpired now st)"
| "sess_exec hash mac now (Touch sid ttl throttle) st = snd (touchSession now ttl throttle sid st)"

text \<open>The records \<open>createSession\<close> hands out, and the entries that carry a valid MAC.\<close>

fun minted_by ::
  "(string \<Rightarrow> string) \<Rightarrow> (string \<Rightarrow> session_payload \<Rightarrow> string) \<Rightarrow> int \<Rightarrow> sess_op
   \<Rightarrow> sess_state \<Rightarrow> session_record set" where
  "minted_by hash mac now (Create token pid ip agent ttl scope) st =
     (case createSession hash mac now token pid ip agent ttl scope st of
        None \<Rightarrow> {} | Some (s, _) \<Rightarrow> {s})"
| "minted_by hash mac now _ st = {}"

definition valid_entries ::
  "(string \<Rightarrow> session_payload \<Rightarrow> string) \<Rightarrow> sess_state \<Rightarrow> (string \<times> session_payload) set" where
  "valid_entries mac st = {(k, p). \<exists>d. (k, Envelope p (mac k p), d) \<in> set (s_redis st)}"

definition emptySessions :: sess_state where
  "emptySessions = \<lparr>s_rows = [], s_redis = [], s_touches = [], s_revoked = []\<rparr>"

text \<open>
  Runs of the store.  With \<open>adv\<close> another process writes Redis too: any value under any key, except
  that it cannot produce a MAC this process never issued; it may replay an entry it has seen.
\<close>

inductive sess_reach ::
  "bool \<Rightarrow> (string \<Rightarrow> string) \<Rightarrow> (string \<Rightarrow> session_payload \<Rightarrow> string) \<Rightarrow> int
   \<Rightarrow> (string \<times> session_payload) set \<Rightarrow> session_record set \<Rightarrow> sess_state \<Rightarrow> bool"
  for adv hash mac where
  start: "sess_reach adv hash mac t {} {} emptySessions"
| op: "sess_reach adv hash mac t seen minted st \<Longrightarrow> t \<le> now \<Longrightarrow> st' = sess_exec hash mac now oper st \<Longrightarrow>
    sess_reach adv hash mac now (seen \<union> valid_entries mac st')
      (minted \<union> minted_by hash mac now oper st) st'"
| tamper: "sess_reach adv hash mac t seen minted st \<Longrightarrow> adv \<Longrightarrow>
    (\<And>p. v = Envelope p (mac k p) \<Longrightarrow> (k, p) \<in> seen) \<Longrightarrow>
    sess_reach adv hash mac t seen minted (st\<lparr>s_redis := map_put k (v, d) (s_redis st)\<rparr>)"

section \<open>What each operation leaves in the cache and the table\<close>

lemma normalizeScope_scopeText [simp]: "normalizeScope (Some (scopeText s)) = s"
  by (cases s) (auto simp: normalizeScope_def scopeText_def SCOPE_SELF_SERVICE_def)

lemma scopeText_inject [simp]: "scopeText s = scopeText s' \<longleftrightarrow> s = s'"
  by (cases s; cases s') (auto simp: scopeText_def SCOPE_SELF_SERVICE_def)

text \<open>A cache read serves an entry whose MAC verifies, with the payload's fields.\<close>

lemma cacheGet_Some:
  assumes "cacheGet mac now k st = Some s"
  obtains p d where "(k, Envelope p (mac k p), d) \<in> set (s_redis st)" "now < d"
    "s_id s = k" "s_player s = sp_player p" "s_expires s = sp_expires p"
    "s_scope s = normalizeScope (sp_scope p)"
proof -
  obtain v d where vd: "map_of (s_redis st) k = Some (v, d)" "now < d"
    and got: "redisGet now k st = Some v"
    using assms by (auto simp: cacheGet_def redisGet_def split: option.splits if_splits)
  moreover obtain p where "v = Envelope p (mac k p)"
    using assms got by (cases v) (auto simp: cacheGet_def split: if_splits)
  ultimately show ?thesis
    using assms that [of p d] map_of_SomeD [OF vd(1)] by (auto simp: cacheGet_def split: if_splits)
qed

lemma redis_delBatches: "set (s_redis (delBatches ids st)) = {e \<in> set (s_redis st). fst e \<notin> set ids}"
proof (induction ids st rule: delBatches.induct)
  case (1 ids st)
  show ?case
  proof (cases "ids = []")
    case True
    then show ?thesis by (simp add: delBatches.simps)
  next
    case False
    have "set ids = set (take REVOKE_REDIS_DEL_BATCH ids) \<union> set (drop REVOKE_REDIS_DEL_BATCH ids)"
      by (metis append_take_drop_id set_append)
    then show ?thesis
      using False 1 by (auto simp: delBatches.simps [of ids st] set_fold_map_del)
  qed
qed

lemma delBatches_other [simp]:
  "s_rows (delBatches ids st) = s_rows st" "s_revoked (delBatches ids st) = s_revoked st"
  by (induction ids st rule: delBatches.induct) (simp_all add: delBatches.simps)

lemma rows_revokeAllForPlayers:
  "set (s_rows (revokeAllForPlayers pub pids st)) = {s \<in> set (s_rows st). s_player s \<notin> set pids}"
  by (auto simp: revokeAllForPlayers_def Let_def)

lemma redis_revokeAllForPlayers:
  "set (s_redis (revokeAllForPlayers pub pids st)) =
     {e \<in> set (s_redis st). \<forall>s \<in> set (s_rows st). s_player s \<in> set pids \<longrightarrow> s_id s \<noteq> fst e}"
  by (auto simp: revokeAllForPlayers_def Let_def redis_delBatches filter_empty_conv)


lemma valid_entriesI: "(k, Envelope p (mac k p), d) \<in> set (s_redis st) \<Longrightarrow> (k, p) \<in> valid_entries mac st"
  by (auto simp: valid_entries_def)

lemma valid_entries_mono: "set (s_redis st) \<subseteq> set (s_redis st') \<Longrightarrow> valid_entries mac st \<subseteq> valid_entries mac st'"
  by (auto simp: valid_entries_def)

lemma valid_entries_cachePut:
  "valid_entries mac (cachePut mac now s st) \<subseteq> insert (s_id s, payloadOf s) (valid_entries mac st)"
  by (auto simp: valid_entries_def cachePut_def dest!: set_map_put)

lemma rows_cachePut [simp]: "s_rows (cachePut mac now s st) = s_rows st"
  by (simp add: cachePut_def)

lemma rows_invalidate [simp]: "s_rows (invalidateSessionCache k st) = s_rows st"
  by (simp add: invalidateSessionCache_def)

lemma valid_entries_invalidate:
  "valid_entries mac (invalidateSessionCache k st) = {e \<in> valid_entries mac st. fst e \<noteq> k}"
  by (auto simp: valid_entries_def invalidateSessionCache_def set_map_del)

lemma valid_entries_rows [simp]: "valid_entries mac (st\<lparr>s_rows := rs\<rparr>) = valid_entries mac st"
  by (simp add: valid_entries_def)

lemma valid_entries_touches [simp]: "valid_entries mac (st\<lparr>s_touches := ts\<rparr>) = valid_entries mac st"
  by (simp add: valid_entries_def)

lemmas sess_simps = valid_entries_invalidate revokeSession_def touchRow_def

text \<open>
  What every operation keeps: an entry that verifies afterwards is either the entry of a row the
  table holds, or it verified before and the operation removed no live row of its id.
\<close>

definition keeps ::
  "(string \<Rightarrow> session_payload \<Rightarrow> string) \<Rightarrow> int \<Rightarrow> sess_state \<Rightarrow> sess_state \<Rightarrow> bool" where
  "keeps mac now st st' \<longleftrightarrow> (\<forall>(k, p) \<in> valid_entries mac st'.
     (\<exists>r \<in> set (s_rows st'). k = s_id r \<and> p = payloadOf r)
     \<or> (k, p) \<in> valid_entries mac st
        \<and> (\<forall>r \<in> set (s_rows st). s_id r = k \<longrightarrow> r \<in> set (s_rows st') \<or> s_expires r < now))"

lemma keeps_refl [simp]: "keeps mac now st st"
  by (auto simp: keeps_def)

lemma keeps_invalidate: "keeps mac now (invalidateSessionCache k st) st' \<Longrightarrow> keeps mac now st st'"
  by (auto simp: keeps_def valid_entries_invalidate)

lemma keeps_revokeSession: "keeps mac now st (revokeSession k st)"
  by (auto simp: keeps_def sess_simps)

lemma keeps_cachePut: "s \<in> set (s_rows st) \<Longrightarrow> keeps mac now st (cachePut mac now' s st)"
  using valid_entries_cachePut [of mac now' s st] by (auto simp: keeps_def)

lemma keeps_resolveFromDb: "keeps mac now st (snd (resolveFromDb mac now k st))"
  by (auto simp: resolveFromDb_def keeps_revokeSession keeps_cachePut
      split: option.split dest: find_row_Some(1))

lemma keeps_resolveSession: "keeps mac now st (snd (resolveSession hash mac now token st))"
  by (auto simp: resolveSession_def keeps_resolveFromDb
      keeps_invalidate [OF keeps_resolveFromDb] split: option.split)

lemma keeps_createSession:
  "createSession hash mac now token pid ip agent ttl scope st = Some (s, st') \<Longrightarrow> keeps mac now st st'"
  using valid_entries_cachePut [of mac now s "st\<lparr>s_rows := s_rows st @ [s]\<rparr>"]
  by (auto simp: createSession_def keeps_def Let_def split: if_splits)

lemma keeps_revokeAllForPlayers: "keeps mac now st (revokeAllForPlayers pub pids st)"
  by (auto simp: keeps_def valid_entries_def redis_revokeAllForPlayers rows_revokeAllForPlayers)

lemma keeps_touchSession: "keeps mac now st (snd (touchSession now ttl throttle sid st))"
  by (auto simp: touchSession_def keeps_def sess_simps set_update_rows split: option.split)

lemma keeps_sess_exec: "keeps mac now st (sess_exec hash mac now oper st)"
proof (cases oper)
  case (Create token pid ip agent ttl scope)
  then show ?thesis using keeps_createSession by (auto split: option.split)
next
  case Prune
  then show ?thesis by (auto simp: keeps_def pruneExpired_def)
qed (simp_all add: keeps_resolveSession keeps_revokeSession keeps_revokeAllForPlayers
    keeps_touchSession)

text \<open>A row an operation leaves has the id, player and scope of a row before or of a minted one.\<close>

definition same_holder :: "session_record \<Rightarrow> session_record \<Rightarrow> bool" where
  "same_holder a b \<longleftrightarrow> s_id a = s_id b \<and> s_player a = s_player b \<and> s_scope a = s_scope b"

lemma rows_sess_exec:
  assumes "r \<in> set (s_rows (sess_exec hash mac now oper st))"
  shows "\<exists>c \<in> set (s_rows st) \<union> minted_by hash mac now oper st. same_holder c r"
proof (cases oper)
  case (Create token pid ip agent ttl scope)
  then show ?thesis
    using assms by (auto simp: createSession_def Let_def same_holder_def split: if_splits)
next
  case (Resolve token)
  then show ?thesis
    using assms by (auto simp: resolveSession_def resolveFromDb_def revokeSession_def same_holder_def
        split: if_splits option.splits)
next
  case (Touch sid ttl throttle)
  then show ?thesis
    using assms by (auto simp: touchSession_def touchRow_def set_update_rows same_holder_def
        split: if_splits option.splits)
qed (use assms in \<open>auto simp: revokeSession_def rows_revokeAllForPlayers pruneExpired_def same_holder_def\<close>)


section \<open>Invariants of runs\<close>

text \<open>Without tampering, an entry that verifies mirrors a stored row, unless it has expired.\<close>

definition mirrors_rows ::
  "(string \<Rightarrow> session_payload \<Rightarrow> string) \<Rightarrow> int \<Rightarrow> sess_state \<Rightarrow> bool" where
  "mirrors_rows mac t st \<longleftrightarrow> (\<forall>(k, p) \<in> valid_entries mac st.
     (\<exists>r \<in> set (s_rows st). k = s_id r \<and> p = payloadOf r) \<or> sp_expires p < t)"

lemma mirrors_rows_exec:
  assumes "mirrors_rows mac t st" and "t \<le> now"
  shows "mirrors_rows mac now (sess_exec hash mac now oper st)"
  unfolding mirrors_rows_def
proof clarify
  fix k p
  let ?st' = "sess_exec hash mac now oper st"
  assume e: "(k, p) \<in> valid_entries mac ?st'" and live: "\<not> sp_expires p < now"
  show "\<exists>r \<in> set (s_rows ?st'). k = s_id r \<and> p = payloadOf r"
  proof (rule ccontr)
    assume no: "\<not> ?thesis"
    then have old: "(k, p) \<in> valid_entries mac st"
      and kept: "\<And>r. r \<in> set (s_rows st) \<Longrightarrow> s_id r = k \<Longrightarrow> r \<in> set (s_rows ?st') \<or> s_expires r < now"
      using keeps_sess_exec [of mac now st hash oper] e by (auto simp: keeps_def)
    obtain r where "r \<in> set (s_rows st)" "k = s_id r" "p = payloadOf r"
      using assms old live unfolding mirrors_rows_def by force
    then show False using kept [of r] no live by (auto simp: payloadOf_def)
  qed
qed

lemma mirrors_rows_reach: "sess_reach False hash mac t seen minted st \<Longrightarrow> mirrors_rows mac t st"
proof (induction rule: sess_reach.induct)
  case (start t)
  then show ?case by (simp add: mirrors_rows_def emptySessions_def valid_entries_def)
next
  case (op t seen minted st now st' oper)
  then show ?case using mirrors_rows_exec by blast
qed simp

text \<open>Under tampering, every entry ever issued and every row goes back to a minted session.\<close>

definition traceable ::
  "(string \<times> session_payload) set \<Rightarrow> session_record set \<Rightarrow> sess_state \<Rightarrow> bool" where
  "traceable seen minted st \<longleftrightarrow>
     (\<forall>(k, p) \<in> seen. \<exists>c \<in> minted. s_id c = k \<and> s_player c = sp_player p \<and> sp_scope p = Some (scopeText (s_scope c)))
     \<and> (\<forall>r \<in> set (s_rows st). \<exists>c \<in> minted. same_holder c r)"

lemma traceable_op:
  assumes tr: "traceable seen minted st" and sub: "valid_entries mac st \<subseteq> seen"
    and st'_def: "st' = sess_exec hash mac now oper st"
  shows "traceable (seen \<union> valid_entries mac st') (minted \<union> minted_by hash mac now oper st) st'"
proof -
  let ?minted = "minted \<union> minted_by hash mac now oper st"
  have rows: "\<exists>c \<in> ?minted. same_holder c r" if r: "r \<in> set (s_rows st')" for r
  proof -
    obtain c where "c \<in> set (s_rows st) \<union> minted_by hash mac now oper st" "same_holder c r"
      using rows_sess_exec r unfolding st'_def by blast
    then show ?thesis using tr by (fastforce simp: traceable_def same_holder_def)
  qed
  have "\<exists>c \<in> ?minted. s_id c = k \<and> s_player c = sp_player p \<and> sp_scope p = Some (scopeText (s_scope c))"
    if e: "(k, p) \<in> seen \<union> valid_entries mac st'" for k p
  proof (cases "(k, p) \<in> seen")
    case True
    then show ?thesis using tr unfolding traceable_def by fast
  next
    case False
    then obtain r where "r \<in> set (s_rows st')" "k = s_id r" "p = payloadOf r"
      using e sub keeps_sess_exec [of mac now st hash oper] unfolding st'_def by (auto simp: keeps_def)
    then show ?thesis using rows [of r] by (auto simp: payloadOf_def same_holder_def)
  qed
  with rows show ?thesis by (auto simp: traceable_def)
qed

lemma traceable_reach:
  "sess_reach adv hash mac t seen minted st \<Longrightarrow> valid_entries mac st \<subseteq> seen \<and> traceable seen minted st"
proof (induction rule: sess_reach.induct)
  case (start t)
  then show ?case by (simp add: traceable_def emptySessions_def valid_entries_def)
next
  case (op t seen minted st now st' oper)
  then show ?case using traceable_op by blast
next
  case (tamper t seen minted st v k d)
  then have "valid_entries mac (st\<lparr>s_redis := map_put k (v, d) (s_redis st)\<rparr>) \<subseteq> seen"
    by (auto simp: valid_entries_def dest!: set_map_put)
  with tamper show ?case by (simp add: traceable_def)
qed

text \<open>What a resolved session comes from.\<close>

lemma resolveSession_Some:
  assumes "resolveSession hash mac now token st = (Some s, st')"
  shows "(\<exists>p. (hash token, p) \<in> valid_entries mac st \<and> s_id s = hash token \<and> s_player s = sp_player p
            \<and> s_expires s = sp_expires p \<and> s_scope s = normalizeScope (sp_scope p) \<and> now \<le> s_expires s)
         \<or> (s \<in> set (s_rows st) \<and> s_id s = hash token \<and> now < s_expires s)"
proof -
  have db: "s \<in> set (s_rows st) \<and> s_id s = hash token \<and> now < s_expires s"
    if "resolveFromDb mac now (hash token) st1 = (Some s, st')" "s_rows st1 = s_rows st" for st1
    using that by (auto simp: resolveFromDb_def split: option.splits if_splits dest: find_row_Some)
  show ?thesis
  proof (cases "cacheGet mac now (hash token) st")
    case None
    then show ?thesis using assms db by (auto simp: resolveSession_def split: if_splits)
  next
    case (Some c)
    then show ?thesis
      using assms db [of "invalidateSessionCache (hash token) st"]
      by (auto simp: resolveSession_def split: if_splits elim!: cacheGet_Some intro: valid_entriesI)
  qed
qed

lemma resolved_is_minted:
  assumes "valid_entries mac st \<subseteq> seen" and "traceable seen minted st"
    and "resolveSession hash mac now token st = (Some s, st')"
  shows "\<exists>c \<in> minted. s_id c = hash token \<and> same_holder c s"
  using resolveSession_Some [OF assms(3)]
proof (elim disjE exE conjE)
  fix p assume p: "(hash token, p) \<in> valid_entries mac st" "s_id s = hash token" "s_player s = sp_player p"
    "s_scope s = normalizeScope (sp_scope p)"
  then obtain c where "c \<in> minted" "s_id c = hash token" "s_player c = sp_player p"
    "sp_scope p = Some (scopeText (s_scope c))"
    using assms(1,2) unfolding traceable_def by blast
  then show ?thesis using p by (auto simp: same_holder_def)
next
  assume "s \<in> set (s_rows st)" "s_id s = hash token"
  then show ?thesis using assms(2) unfolding traceable_def same_holder_def by metis
qed


text \<open>Time passes between operations.\<close>

lemma mirrors_rows_later: "mirrors_rows mac t st \<Longrightarrow> t \<le> now \<Longrightarrow> mirrors_rows mac now st"
  by (fastforce simp: mirrors_rows_def)

definition run_ops ::
  "(string \<Rightarrow> string) \<Rightarrow> (string \<Rightarrow> session_payload \<Rightarrow> string) \<Rightarrow> (int \<times> sess_op) list
   \<Rightarrow> sess_state \<Rightarrow> sess_state" where
  "run_ops hash mac ops st = fold (\<lambda>(now, oper). sess_exec hash mac now oper) ops st"

fun creates :: "string \<Rightarrow> sess_op \<Rightarrow> bool" where
  "creates pid (Create token pid' ip agent ttl scope) = (pid' = pid)"
| "creates pid _ = False"

lemma no_row_exec:
  assumes "\<forall>r \<in> set (s_rows st). s_player r \<noteq> pid" and "\<not> creates pid oper"
    and "r \<in> set (s_rows (sess_exec hash mac now oper st))"
  shows "s_player r \<noteq> pid"
proof -
  have "s_player c \<noteq> pid" if "c \<in> minted_by hash mac now oper st" for c
    using assms(2) that by (cases oper) (auto simp: createSession_def Let_def split: if_splits)
  then show ?thesis
    using rows_sess_exec [OF assms(3)] assms(1) by (auto simp: same_holder_def)
qed

lemma run_ops_no_row:
  assumes "mirrors_rows mac t st" and "\<forall>r \<in> set (s_rows st). s_player r \<noteq> pid"
    and "sorted (t # map fst ops @ [now])" and "\<forall>(u, oper) \<in> set ops. \<not> creates pid oper"
  shows "mirrors_rows mac now (run_ops hash mac ops st)
         \<and> (\<forall>r \<in> set (s_rows (run_ops hash mac ops st)). s_player r \<noteq> pid)"
  using assms
proof (induction ops arbitrary: t st)
  case Nil
  then show ?case by (auto simp: run_ops_def intro: mirrors_rows_later)
next
  case (Cons e ops)
  obtain u oper where e: "e = (u, oper)" by (cases e)
  let ?st = "sess_exec hash mac u oper st"
  have "mirrors_rows mac u ?st"
    using Cons.prems(1,3) e by (intro mirrors_rows_exec) auto
  moreover have "\<not> creates pid oper" using Cons.prems(4) e by simp
  then have "\<forall>r \<in> set (s_rows ?st). s_player r \<noteq> pid"
    using no_row_exec [OF Cons.prems(2)] by blast
  ultimately show ?case
    using Cons.IH [of u ?st] Cons.prems(3,4) e by (simp add: run_ops_def)
qed

section \<open>Properties\<close>

text \<open>
  C3: Session authenticity.  Even when another process writes arbitrary values into Redis (but cannot
  forge the process's MAC), a token resolves only to a session that \<open>createSession\<close> minted under the
  hash of that very token, for the same player and with the same scope, and only before its deadline.
\<close>

theorem session_authentic:
  assumes "sess_reach adv hash mac t seen minted st"
    and "resolveSession hash mac now token st = (Some s, st')"
  shows "now \<le> s_expires s
    \<and> (\<exists>c \<in> minted. s_id c = hash token \<and> s_player c = s_player s \<and> s_scope c = s_scope s)"
proof -
  have "now \<le> s_expires s" using resolveSession_Some [OF assms(2)] by auto
  moreover have "\<exists>c \<in> minted. s_id c = hash token \<and> same_holder c s"
    using traceable_reach [OF assms(1)] resolved_is_minted assms(2) by blast
  ultimately show ?thesis by (auto simp: same_holder_def)
qed

text \<open>A concrete store: one session of one player, then a Redis value another process garbled.\<close>

definition demoHash :: "string \<Rightarrow> string" where "demoHash token = ''h'' @ token"

definition demoMac :: "string \<Rightarrow> session_payload \<Rightarrow> string" where
  "demoMac k p = ''m'' @ k @ sp_player p"

definition demoStore :: sess_state where
  "demoStore = sess_exec demoHash demoMac 0
     (Create ''t'' ''alice'' None None 1000 (Some SelfService)) emptySessions"

lemma demoStore_reach:
  "sess_reach adv demoHash demoMac 0 (valid_entries demoMac demoStore)
     {\<lparr>s_id = ''ht'', s_player = ''alice'', s_expires = 1000, s_last = 0, s_ip = None, s_agent = None,
       s_scope = SelfService\<rparr>} demoStore"
  using sess_reach.op [OF sess_reach.start [of adv demoHash demoMac 0], of 0 demoStore
      "Create ''t'' ''alice'' None None 1000 (Some SelfService)"]
  by (simp add: demoStore_def createSession_def demoHash_def emptySessions_def Let_def)

definition demoGarbled :: sess_state where
  "demoGarbled = demoStore\<lparr>s_redis := map_put ''ht'' (Unparsable, 600000) (s_redis demoStore)\<rparr>"

definition demoSession :: session_record where
  "demoSession = \<lparr>s_id = ''ht'', s_player = ''alice'', s_expires = 1000, s_last = 0, s_ip = None,
     s_agent = None, s_scope = SelfService\<rparr>"

lemma demoGarbled_resolves:
  "fst (resolveSession demoHash demoMac 7 ''t'' demoGarbled) = Some demoSession"
  by code_simp

theorem session_authentic_witness:
  "sess_reach True demoHash demoMac 0 (valid_entries demoMac demoStore) {demoSession} demoGarbled
   \<and> fst (resolveSession demoHash demoMac 7 ''t'' demoGarbled) = Some demoSession
   \<and> (7::int) \<le> s_expires demoSession"
proof -
  have r: "sess_reach True demoHash demoMac 0 (valid_entries demoMac demoStore) {demoSession} demoGarbled"
    unfolding demoGarbled_def demoSession_def
    using sess_reach.tamper [OF demoStore_reach [of True], of Unparsable] by simp
  moreover obtain st' where "resolveSession demoHash demoMac 7 ''t'' demoGarbled = (Some demoSession, st')"
    using demoGarbled_resolves by (metis prod.collapse)
  then have "7 \<le> s_expires demoSession" using session_authentic [OF r] by blast
  ultimately show ?thesis using demoGarbled_resolves by blast
qed


text \<open>
  C12: Forced logout.  When no other process writes Redis, revoking all sessions of a player in any
  reachable store keeps the player out: whatever operations follow, as long as none creates a new
  session for that player, no token resolves to one of their sessions, although the cache may still
  hold entries of sessions whose rows were pruned.
\<close>

theorem revoked_players_stay_out:
  assumes "sess_reach False hash mac t seen minted st" and "pid \<in> set pids"
    and "sorted (t # map fst ops @ [now])" and "\<forall>(u, oper) \<in> set ops. \<not> creates pid oper"
    and "resolveSession hash mac now token
           (run_ops hash mac ops (revokeAllForPlayers pub pids st)) = (Some s, st')"
  shows "s_player s \<noteq> pid"
proof -
  let ?st = "revokeAllForPlayers pub pids st"
  have "mirrors_rows mac t ?st"
    using mirrors_rows_exec [of mac t st t hash "RevokeAll pub pids"] mirrors_rows_reach [OF assms(1)]
    by simp
  moreover have "\<forall>r \<in> set (s_rows ?st). s_player r \<noteq> pid"
    using assms(2) by (auto simp: rows_revokeAllForPlayers)
  ultimately have fin: "mirrors_rows mac now (run_ops hash mac ops ?st)"
      "\<forall>r \<in> set (s_rows (run_ops hash mac ops ?st)). s_player r \<noteq> pid"
    using run_ops_no_row assms(3,4) by blast+
  then show ?thesis
    using resolveSession_Some [OF assms(5)] by (fastforce simp: mirrors_rows_def payloadOf_def)
qed

definition demoOps :: "(int \<times> sess_op) list" where
  "demoOps = [(20, Resolve ''t''), (30, Create ''u'' ''bob'' None None 500 None)]"

lemma demoOps_resolves:
  "resolveSession demoHash demoMac 40 ''u''
     (run_ops demoHash demoMac demoOps (revokeAllForPlayers True [''alice''] demoStore))
   = (Some \<lparr>s_id = ''hu'', s_player = ''bob'', s_expires = 530, s_last = 30, s_ip = None,
            s_agent = None, s_scope = Panel\<rparr>,
      run_ops demoHash demoMac demoOps (revokeAllForPlayers True [''alice''] demoStore))"
  by code_simp

theorem revoked_players_stay_out_witness:
  "resolveSession demoHash demoMac 40 ''u''
     (run_ops demoHash demoMac demoOps (revokeAllForPlayers True [''alice''] demoStore))
   = (Some \<lparr>s_id = ''hu'', s_player = ''bob'', s_expires = 530, s_last = 30, s_ip = None,
            s_agent = None, s_scope = Panel\<rparr>,
      run_ops demoHash demoMac demoOps (revokeAllForPlayers True [''alice''] demoStore))
   \<and> ''bob'' \<noteq> ''alice''"
  using demoOps_resolves
    revoked_players_stay_out [OF demoStore_reach _ _ _ demoOps_resolves, of "''alice''"]
  by (simp add: demoOps_def)

text \<open>
  The cache entry carries no freshness: whoever can write Redis can put back an entry the process
  wrote earlier, and the revoked session resolves again although its row is gone.
\<close>

lemma replayed_entry_survives_revocation:
  "sess_reach True demoHash demoMac 0 (valid_entries demoMac demoStore) {demoSession} demoStore
   \<and> s_rows (revokeAllForPlayers True [''alice''] demoStore) = []
   \<and> fst (resolveSession demoHash demoMac 7 ''t''
        ((revokeAllForPlayers True [''alice''] demoStore)\<lparr>s_redis := s_redis demoStore\<rparr>)) = Some demoSession"
proof -
  have "s_rows (revokeAllForPlayers True [''alice''] demoStore) = []" by code_simp
  moreover have "fst (resolveSession demoHash demoMac 7 ''t''
      ((revokeAllForPlayers True [''alice''] demoStore)\<lparr>s_redis := s_redis demoStore\<rparr>)) = Some demoSession"
    by code_simp
  ultimately show ?thesis using demoStore_reach [of True] by (simp add: demoSession_def)
qed

end
