(* ===== verification/Role_Store.thy ===== *)
theory Role_Store
  imports Rbac Permission_Cache Sessions
begin

text \<open>
  The state the role-management routes share: the tables \<^verbatim>\<open>roles\<close>, \<^verbatim>\<open>role_squad_permissions\<close>,
  \<^verbatim>\<open>role_permissions\<close>, \<^verbatim>\<open>players\<close>, \<^verbatim>\<open>vip_tiers\<close>, \<^verbatim>\<open>sessions\<close> and
  \<^verbatim>\<open>admins_cfg_sync_outbox\<close> (schemas under \<^verbatim>\<open>packages/db/src/schema\<close>), the session store with its
  Redis cache, the Discord role-sync stream, and the permission cache of the API process; and the
  helpers that read and write it.  A table is the list of its rows.

  An \<open>UPDATE\<close> of \<^verbatim>\<open>players.role_id\<close> runs the row trigger \<^verbatim>\<open>players_last_owner_guard\<close>
  (\<^verbatim>\<open>packages/db/drizzle/0107\<close>), which raises when the row is the last Owner; the transaction
  then rolls back and the error handler answers 409.  A raising update is \<open>None\<close>.
\<close>

section \<open>Rows and state\<close>

record player_row =
  pl_id :: string
  pl_steam :: "nat option"
  pl_role :: "string option"
  pl_expires :: "int option"
  pl_comment :: "string option"

record api_token_row =
  tk_id :: string
  tk_player :: string
  tk_hash :: string
  tk_scopes :: "string list"
  tk_last_used :: "int option"
  tk_revoked :: "int option"

record world =
  w_roles :: "role_row list"
  w_squad :: "(string \<times> string) list"
  w_perms :: "(string \<times> string) list"
  w_players :: "player_row list"
  w_vip :: "(string \<times> string) list"
  w_sess :: sess_state
  w_tokens :: "api_token_row list"
  w_token_touch :: "(string \<times> int) list"
  w_servers :: "string list"
  w_outbox :: "(string \<times> string \<times> string option) list"
  w_discord :: "(string option \<times> string) list"
  w_cache :: "permission_context perm_cache"
  w_owner_claimed :: bool

section \<open>Reading a role\<close>

definition findRole :: "world \<Rightarrow> string \<Rightarrow> role_row option" where
  "findRole w rid = find_row (\<lambda>r. role_id r = rid) (w_roles w)"

definition findPlayer :: "world \<Rightarrow> string \<Rightarrow> player_row option" where
  "findPlayer w pid = find_row (\<lambda>p. pl_id p = pid) (w_players w)"

definition squadKeysOf :: "world \<Rightarrow> string \<Rightarrow> string list" where
  "squadKeysOf w rid = map snd (filter (\<lambda>(r, _). r = rid) (w_squad w))"

definition permKeysOf :: "world \<Rightarrow> string \<Rightarrow> string list" where
  "permKeysOf w rid = map snd (filter (\<lambda>(r, _). r = rid) (w_perms w))"

definition loadRolePermissions :: "world \<Rightarrow> string \<Rightarrow> permission_context option" where
  "loadRolePermissions w rid =
     (case findRole w rid of
        None \<Rightarrow> None
      | Some r \<Rightarrow> Some (buildRolePermissionContext rid r (squadKeysOf w rid) (permKeysOf w rid)))"

text \<open>The id of the system \<open>Owner\<close> role, as several routes look it up.\<close>

definition ownerRoleId :: "world \<Rightarrow> string option" where
  "ownerRoleId w = map_option role_id (find_row ownerRole (w_roles w))"

definition membersOfRole :: "world \<Rightarrow> string \<Rightarrow> string list" where
  "membersOfRole w rid = map pl_id (filter (\<lambda>p. pl_role p = Some rid) (w_players w))"

section \<open>Loading a user's permissions through the cache\<close>

text \<open>
  The SQL of \<open>loadUserPermissions\<close>: the player's role, unless it has expired.  The explicit
  \<^verbatim>\<open>role_permissions\<close> keys are a second query.
\<close>

definition liveRole :: "int \<Rightarrow> player_row \<Rightarrow> string option" where
  "liveRole now p =
     (case pl_expires p of
        None \<Rightarrow> pl_role p
      | Some e \<Rightarrow> if e > now then pl_role p else None)"

definition freshContext :: "int \<Rightarrow> world \<Rightarrow> string \<Rightarrow> permission_context" where
  "freshContext now w pid =
     (case findPlayer w pid of
        None \<Rightarrow> emptyContext
      | Some p \<Rightarrow>
          (case liveRole now p of
             None \<Rightarrow> emptyContext
           | Some rid \<Rightarrow>
               (case loadRolePermissions w rid of None \<Rightarrow> emptyContext | Some c \<Rightarrow> c)))"

definition loadUserPermissions :: "int \<Rightarrow> string \<Rightarrow> world \<Rightarrow> permission_context \<times> world" where
  "loadUserPermissions now pid w =
     (case cacheHit now pid (w_cache w) of
        Some c \<Rightarrow> (c, w)
      | None \<Rightarrow>
          (let w1 = w\<lparr>w_cache := cacheAfterRead now pid (w_cache w)\<rparr>;
               c = freshContext now w1 pid
           in (c, w1\<lparr>w_cache := cachePermissions now pid c (w_cache w1)\<rparr>)))"

definition invalidatePermissionCacheForRole :: "string \<Rightarrow> world \<Rightarrow> world" where
  "invalidatePermissionCacheForRole rid w =
     w\<lparr>w_cache := invalidateMany (membersOfRole w rid) (w_cache w)\<rparr>"

section \<open>Writing\<close>

text \<open>
  \<open>UPDATE players SET \<dots> WHERE p\<close> row by row; each row trigger sees the rows already written by
  the same statement.  \<open>done\<close> holds the written prefix.
\<close>

definition ownerGuardRaises :: "string option \<Rightarrow> player_row list \<Rightarrow> player_row \<Rightarrow> player_row \<Rightarrow> bool" where
  "ownerGuardRaises owner table old new \<longleftrightarrow>
     owner \<noteq> None \<and> pl_role old = owner \<and> pl_role new \<noteq> pl_role old
     \<and> \<not> list_ex (\<lambda>p. pl_role p = owner \<and> pl_id p \<noteq> pl_id old) table"

fun updatePlayersGuarded ::
  "string option \<Rightarrow> (player_row \<Rightarrow> bool) \<Rightarrow> (player_row \<Rightarrow> player_row)
   \<Rightarrow> player_row list \<Rightarrow> player_row list \<Rightarrow> player_row list option" where
  "updatePlayersGuarded owner p f written [] = Some written"
| "updatePlayersGuarded owner p f written (r # rest) =
     (if \<not> p r then updatePlayersGuarded owner p f (written @ [r]) rest
      else if ownerGuardRaises owner (written @ r # rest) r (f r) then None
      else updatePlayersGuarded owner p f (written @ [f r]) rest)"

definition updatePlayers ::
  "(player_row \<Rightarrow> bool) \<Rightarrow> (player_row \<Rightarrow> player_row) \<Rightarrow> world \<Rightarrow> world option" where
  "updatePlayers p f w =
     map_option (\<lambda>t. w\<lparr>w_players := t\<rparr>)
       (updatePlayersGuarded (ownerRoleId w) p f [] (w_players w))"

text \<open>One outbox row per active panel-hosted server, in the same transaction.\<close>

definition publishAdminsCfgSyncForAllServers :: "string \<Rightarrow> string option \<Rightarrow> world \<Rightarrow> world" where
  "publishAdminsCfgSyncForAllServers reason actorId w =
     w\<lparr>w_outbox := w_outbox w @ map (\<lambda>s. (s, reason, actorId)) (w_servers w)\<rparr>"

definition publishDiscordRoleSync :: "string option \<Rightarrow> string \<Rightarrow> world \<Rightarrow> world" where
  "publishDiscordRoleSync pid reason w = w\<lparr>w_discord := w_discord w @ [(pid, reason)]\<rparr>"

text \<open>The routes pass the live bus, so a revocation publishes its events.\<close>

definition revokeSessions :: "string list \<Rightarrow> world \<Rightarrow> world" where
  "revokeSessions pids w = w\<lparr>w_sess := revokeAllForPlayers True pids (w_sess w)\<rparr>"

section \<open>First Owner claim\<close>

datatype claim_result = Claimed | AlreadyClaimed | NoOwnerRole

text \<open>
  \<^verbatim>\<open>claimFirstOwner\<close> (\<^verbatim>\<open>apps/api/src/lib/first-owner.ts\<close>), its transaction; the sentinel file
  written afterwards is informational and its failure is swallowed.
\<close>

definition claimFirstOwner :: "string \<Rightarrow> world \<Rightarrow> claim_result \<times> world" where
  "claimFirstOwner pid w =
     (if w_owner_claimed w then (AlreadyClaimed, w)
      else case ownerRoleId w of
             None \<Rightarrow> (NoOwnerRole, w)
           | Some oid \<Rightarrow>
               if find_row (\<lambda>p. pl_role p = Some oid) (w_players w) \<noteq> None
               then (AlreadyClaimed, w\<lparr>w_owner_claimed := True\<rparr>)
               else (Claimed, w\<lparr>w_players := update_rows (\<lambda>p. pl_id p = pid)
                        (\<lambda>p. p\<lparr>pl_role := Some oid, pl_expires := None, pl_comment := None\<rparr>)
                        (w_players w), w_owner_claimed := True\<rparr>))"

section \<open>Well-formedness: keys and foreign keys\<close>

definition wf_world :: "world \<Rightarrow> bool" where
  "wf_world w \<longleftrightarrow> distinct (map role_id (w_roles w)) \<and> distinct (map role_name (w_roles w))
     \<and> distinct (map pl_id (w_players w))
     \<and> (\<forall>p \<in> set (w_players w). \<forall>rid. pl_role p = Some rid \<longrightarrow> rid \<in> role_id ` set (w_roles w))
     \<and> fst ` set (w_squad w) \<subseteq> role_id ` set (w_roles w)
     \<and> fst ` set (w_perms w) \<subseteq> role_id ` set (w_roles w)"

text \<open>What the player's assigned role grants, whether or not the assignment has expired.\<close>

definition assignedContext :: "world \<Rightarrow> string \<Rightarrow> permission_context" where
  "assignedContext w pid =
     (case findPlayer w pid of
        None \<Rightarrow> emptyContext
      | Some p \<Rightarrow>
          (case pl_role p of
             None \<Rightarrow> emptyContext
           | Some rid \<Rightarrow>
               (case loadRolePermissions w rid of None \<Rightarrow> emptyContext | Some c \<Rightarrow> c)))"

text \<open>Every cached context is within what the player's assigned role grants now.\<close>

definition cache_coherent :: "world \<Rightarrow> bool" where
  "cache_coherent w \<longleftrightarrow> distinct (map fst (w_cache w))
     \<and> (\<forall>pid c e. map_of (w_cache w) pid = Some (c, e) \<longrightarrow> ctx_le c (assignedContext w pid))"

definition owners :: "world \<Rightarrow> string set" where
  "owners w = {pl_id p | p. p \<in> set (w_players w) \<and> ownerRoleId w \<noteq> None
     \<and> pl_role p = ownerRoleId w}"

section \<open>Lemmas on reading\<close>

lemmas lookup_defs = findRole_def findPlayer_def squadKeysOf_def permKeysOf_def
  loadRolePermissions_def membersOfRole_def

lemma freshContext_cases: "freshContext now w pid = emptyContext \<or> freshContext now w pid = assignedContext w pid"
  by (auto simp: freshContext_def assignedContext_def liveRole_def split: option.splits)

lemma freshContext_le: "ctx_le (freshContext now w pid) (assignedContext w pid)"
  using freshContext_cases [of now w pid] by auto

lemma freshContext_cache [simp]: "freshContext now (w\<lparr>w_cache := m\<rparr>) pid = freshContext now w pid"
  by (simp add: freshContext_def lookup_defs cong: option.case_cong)

lemma assignedContext_cache [simp]:
  "assignedContext (w\<lparr>w_cache := m\<rparr>) pid = assignedContext w pid"
  by (simp add: assignedContext_def lookup_defs cong: option.case_cong)

lemma findRole_Some:
  assumes "findRole w rid = Some r"
  shows "r \<in> set (w_roles w)" "role_id r = rid"
  using find_row_Some assms unfolding findRole_def by fast+

lemma findPlayer_Some:
  assumes "findPlayer w pid = Some p"
  shows "p \<in> set (w_players w)" "pl_id p = pid"
  using find_row_Some assms unfolding findPlayer_def by fast+

lemma findPlayer_member:
  "wf_world w \<Longrightarrow> p \<in> set (w_players w) \<Longrightarrow> findPlayer w (pl_id p) = Some p"
  by (simp add: findPlayer_def wf_world_def find_row_unique)

lemma findRole_member:
  "wf_world w \<Longrightarrow> r \<in> set (w_roles w) \<Longrightarrow> findRole w (role_id r) = Some r"
  by (simp add: findRole_def wf_world_def find_row_unique)

lemma ownerRoleId_iff:
  assumes "wf_world w" and "findRole w rid = Some r"
  shows "ownerRoleId w = Some rid \<longleftrightarrow> ownerRole r"
proof
  assume "ownerRoleId w = Some rid"
  then obtain r' where r': "find_row ownerRole (w_roles w) = Some r'" "role_id r' = rid"
    by (auto simp: ownerRoleId_def)
  then have "r' \<in> set (w_roles w)" "ownerRole r'" using find_row_Some by fast+
  moreover have "findRole w (role_id r') = Some r'"
    using assms(1) calculation(1) by (rule findRole_member)
  ultimately show "ownerRole r" using assms(2) r'(2) by simp
next
  assume own: "ownerRole r"
  have r: "r \<in> set (w_roles w)" "role_id r = rid" using findRole_Some [OF assms(2)] by auto
  obtain r' where r': "find_row ownerRole (w_roles w) = Some r'"
    using own r(1) find_row_None [of ownerRole "w_roles w"] by (cases "find_row ownerRole (w_roles w)") auto
  then have "r' \<in> set (w_roles w)" "ownerRole r'" using find_row_Some by fast+
  then have "r' = r"
    using own r(1) assms(1) unfolding wf_world_def ownerRole_def
    by (metis inj_on_eq_iff distinct_map)
  then show "ownerRoleId w = Some rid" using r' r(2) by (simp add: ownerRoleId_def)
qed

lemma cacheHit_le:
  assumes "cache_coherent w" and "cacheHit now pid (w_cache w) = Some c"
  shows "ctx_le c (assignedContext w pid)"
proof -
  obtain e where "map_of (w_cache w) pid = Some (c, e)"
    using assms(2) by (auto simp: cacheHit_def split: option.splits if_splits)
  then show ?thesis using assms(1) by (auto simp: cache_coherent_def)
qed

lemma loadUserPermissions_le:
  assumes "cache_coherent w" and "loadUserPermissions now pid w = (c, w')"
  shows "ctx_le c (assignedContext w pid)"
  using assms cacheHit_le freshContext_le [of now w pid]
  by (auto simp: loadUserPermissions_def Let_def split: option.splits)

text \<open>Loading permissions writes only the cache, and keeps it coherent.\<close>

lemma loadUserPermissions_world:
  "\<exists>m. snd (loadUserPermissions now pid w) = w\<lparr>w_cache := m\<rparr>"
proof (cases "cacheHit now pid (w_cache w)")
  case None
  then show ?thesis by (auto simp: loadUserPermissions_def Let_def)
next
  case (Some c)
  then show ?thesis by (auto simp: loadUserPermissions_def intro: exI [of _ "w_cache w"])
qed

lemma cacheAfterRead_sub:
  "distinct (map fst m) \<Longrightarrow> distinct (map fst (cacheAfterRead now k m))"
  "map_of (cacheAfterRead now k m) k' = Some x \<Longrightarrow> map_of m k' = Some x"
  by (auto simp: cacheAfterRead_def distinct_map_del split: option.splits if_splits)

lemma loadUserPermissions_coherent:
  assumes "cache_coherent w"
  shows "cache_coherent (snd (loadUserPermissions now pid w))"
proof (cases "cacheHit now pid (w_cache w)")
  case None
  let ?m = "cacheAfterRead now pid (w_cache w)"
  let ?c = "freshContext now w pid"
  have d: "distinct (map fst ?m)" using assms cacheAfterRead_sub(1) by (auto simp: cache_coherent_def)
  have "ctx_le c (assignedContext w k)" if "map_of (cachePermissions now pid ?c ?m) k = Some (c, e)" for k c e
    using map_of_cachePermissions [OF d that]
  proof (elim disjE conjE)
    assume "k = pid" "(c, e) = (?c, now + TTL_MS)"
    then show ?thesis using freshContext_le by simp
  next
    assume "map_of ?m k = Some (c, e)"
    then show ?thesis using assms cacheAfterRead_sub(2) unfolding cache_coherent_def by blast
  qed
  then show ?thesis
    using None distinct_cachePermissions [OF d]
    by (auto simp: loadUserPermissions_def Let_def cache_coherent_def)
next
  case (Some c)
  then show ?thesis using assms by (simp add: loadUserPermissions_def)
qed

section \<open>Lemmas on the guarded update\<close>

lemma updatePlayersGuarded_Some:
  "updatePlayersGuarded owner p f written rows = Some t \<Longrightarrow> t = written @ update_rows p f rows"
  by (induction owner p f written rows rule: updatePlayersGuarded.induct)
    (auto simp: update_rows_def split: if_splits)

lemma updatePlayers_Some:
  "updatePlayers p f w = Some w' \<Longrightarrow> w' = w\<lparr>w_players := update_rows p f (w_players w)\<rparr>"
  using updatePlayersGuarded_Some [of "ownerRoleId w" p f "[]" "w_players w"]
  by (auto simp: updatePlayers_def)

lemma updatePlayersGuarded_none:
  "\<forall>q \<in> set rs. \<not> p q \<Longrightarrow> updatePlayersGuarded owner p f written rs = Some (written @ rs)"
  by (induction rs arbitrary: written) auto

lemma updatePlayers_none: "\<forall>q \<in> set (w_players w). \<not> p q \<Longrightarrow> updatePlayers p f w = Some w"
  by (simp add: updatePlayers_def updatePlayersGuarded_none)

text \<open>The trigger keeps an Owner: if the table had one before, it has one after.\<close>

lemma updatePlayersGuarded_owner:
  assumes "updatePlayersGuarded (Some oid) p f written rows = Some t"
    and "\<exists>q \<in> set (written @ rows). pl_role q = Some oid"
  shows "\<exists>q \<in> set t. pl_role q = Some oid"
  using assms
proof (induction rows arbitrary: written)
  case Nil
  then show ?case by simp
next
  case (Cons r rest)
  show ?case
  proof (cases "p r")
    case False
    have "updatePlayersGuarded (Some oid) p f (written @ [r]) rest = Some t"
      using Cons.prems(1) False by simp
    then show ?thesis using Cons.prems(2) by (rule_tac Cons.IH) auto
  next
    case True
    then have guard: "\<not> ownerGuardRaises (Some oid) (written @ r # rest) r (f r)"
      and upd: "updatePlayersGuarded (Some oid) p f (written @ [f r]) rest = Some t"
      using Cons.prems(1) by (auto split: if_splits)
    have "\<exists>q \<in> set ((written @ [f r]) @ rest). pl_role q = Some oid"
      using guard Cons.prems(2) by (auto simp: ownerGuardRaises_def list_ex_iff)
    with upd show ?thesis by (rule_tac Cons.IH) auto
  qed
qed

section \<open>Claiming the first Owner\<close>

lemma owners_iff:
  "pid \<in> owners w \<longleftrightarrow> (\<exists>oid. ownerRoleId w = Some oid \<and> (\<exists>p \<in> set (w_players w). pl_id p = pid \<and> pl_role p = Some oid))"
  by (auto simp: owners_def)

lemma claim_no_owner:
  assumes "ownerRoleId w = Some oid"
  shows "find_row (\<lambda>p. pl_role p = Some oid) (w_players w) = None \<longleftrightarrow> owners w = {}"
  using assms by (auto simp: find_row_None owners_def)

fun claimAll :: "string list \<Rightarrow> world \<Rightarrow> claim_result list \<times> world" where
  "claimAll [] w = ([], w)"
| "claimAll (pid # pids) w =
     (let (r, w1) = claimFirstOwner pid w; (rs, w2) = claimAll pids w1 in (r # rs, w2))"

lemma claimFirstOwner_cases:
  obtains "claimFirstOwner pid w = (AlreadyClaimed, w)" "w_owner_claimed w"
  | "claimFirstOwner pid w = (NoOwnerRole, w)" "ownerRoleId w = None" "\<not> w_owner_claimed w"
  | "claimFirstOwner pid w = (AlreadyClaimed, w\<lparr>w_owner_claimed := True\<rparr>)" "owners w \<noteq> {}" "\<not> w_owner_claimed w"
  | oid where "claimFirstOwner pid w = (Claimed, w\<lparr>w_players := update_rows (\<lambda>p. pl_id p = pid)
        (\<lambda>p. p\<lparr>pl_role := Some oid, pl_expires := None, pl_comment := None\<rparr>) (w_players w),
        w_owner_claimed := True\<rparr>)"
      "ownerRoleId w = Some oid" "owners w = {}" "\<not> w_owner_claimed w"
proof (cases "w_owner_claimed w")
  case True
  then show ?thesis using that(1) by (simp add: claimFirstOwner_def)
next
  case False
  show ?thesis
  proof (cases "ownerRoleId w")
    case None
    then show ?thesis using that(2) False by (simp add: claimFirstOwner_def)
  next
    case (Some oid)
    then show ?thesis
      using that(3) that(4) [of oid] False claim_no_owner [OF Some]
      by (cases "find_row (\<lambda>p. pl_role p = Some oid) (w_players w)") (auto simp: claimFirstOwner_def)
  qed
qed

lemma claimAll_claimed:
  "w_owner_claimed w \<Longrightarrow> claimAll pids w = (replicate (length pids) AlreadyClaimed, w)"
  by (induction pids) (simp_all add: claimFirstOwner_def)

section \<open>Properties\<close>

text \<open>
  C23: The first Owner is claimed at most once.  However many logins run the claim, one after another,
  at most one of them is granted the Owner role; and none is when the panel had an Owner already.
\<close>

theorem first_owner_claimed_once:
  "length (filter (\<lambda>r. r = Claimed) (fst (claimAll pids w))) \<le> 1
   \<and> (owners w \<noteq> {} \<longrightarrow> Claimed \<notin> set (fst (claimAll pids w)) \<and> owners (snd (claimAll pids w)) = owners w)"
proof (induction pids arbitrary: w)
  case Nil
  then show ?case by simp
next
  case (Cons pid pids)
  have set_claimed: "owners (w\<lparr>w_owner_claimed := True\<rparr>) = owners w"
    by (simp add: owners_def ownerRoleId_def)
  show ?case
  proof (cases rule: claimFirstOwner_cases [of pid w])
    case 3
    then show ?thesis
      using claimAll_claimed [of "w\<lparr>w_owner_claimed := True\<rparr>" pids] set_claimed by simp
  next
    case (4 oid)
    then show ?thesis by (simp add: claimAll_claimed)
  qed (use Cons [of w] in \<open>auto split: prod.split simp: claimAll_claimed owners_def\<close>)
qed

definition demoClaimWorld :: world where
  "demoClaimWorld = \<lparr>w_roles = [demoModRole\<lparr>role_id := ''r1'', role_name := ''Owner'', is_system_role := True\<rparr>],
     w_squad = [], w_perms = [],
     w_players = [\<lparr>pl_id = ''a'', pl_steam = Some 1, pl_role = Some ''r1'', pl_expires = None, pl_comment = None\<rparr>,
       \<lparr>pl_id = ''b'', pl_steam = Some 2, pl_role = None, pl_expires = None, pl_comment = None\<rparr>],
     w_vip = [], w_sess = emptySessions, w_tokens = [], w_token_touch = [], w_servers = [], w_outbox = [],
     w_discord = [], w_cache = [], w_owner_claimed = False\<rparr>"

lemma demoClaimWorld_owner: "''a'' \<in> owners demoClaimWorld"
  unfolding owners_iff
  by (simp add: demoClaimWorld_def ownerRoleId_def demoModRole_def ownerRole_def)

theorem first_owner_claimed_once_witness:
  "owners demoClaimWorld \<noteq> {} \<and> Claimed \<notin> set (fst (claimAll [''b'', ''a''] demoClaimWorld))"
  using first_owner_claimed_once [of "[''b'', ''a'']" demoClaimWorld] demoClaimWorld_owner by blast

end
