(* ===== verification/Role_Guards.thy ===== *)
theory Role_Guards
  imports Role_Store "HOL-Library.Char_ord" "HOL-Library.List_Lexorder"
begin

text \<open>
  The checks the role routes run before they write: the role hierarchy
  (\<^verbatim>\<open>apps/api/src/lib/role-hierarchy.ts\<close>), the privilege ceiling
  (\<^verbatim>\<open>apps/api/src/lib/role-guards.ts\<close>) and the whitelist guard
  (\<^verbatim>\<open>apps/api/src/lib/whitelist-role-guard.ts\<close>).

  The locale \<open>grant_order\<close> is what a caller of the hierarchy may rely on: an empty list of missing
  grants means the target fits inside the actor, and fitting composes.  The escalation proof of
  the routes uses only this contract.
\<close>

section \<open>Hierarchy\<close>

record role_actor =
  actor_id :: string
  actor_ctx :: permission_context

datatype role_refusal = Refusal (refusal_error: string) (refusal_missing: "string list")

definition checkGrantsWithinActor ::
  "role_actor option \<Rightarrow> permission_context \<Rightarrow> role_refusal option" where
  "checkGrantsWithinActor actor role =
     (case actor of
        None \<Rightarrow> Some (Refusal ''role_exceeds_actor_permissions'' [])
      | Some a \<Rightarrow>
          if isOwner (actor_ctx a) then None
          else (let missing = grantsBeyond (actor_ctx a) role
                in if missing \<noteq> [] then Some (Refusal ''role_exceeds_actor_permissions'' missing)
                   else None))"

definition checkRoleWithinActor ::
  "world \<Rightarrow> role_actor option \<Rightarrow> string \<Rightarrow> role_refusal option" where
  "checkRoleWithinActor w actor rid =
     (case actor of
        None \<Rightarrow> Some (Refusal ''role_exceeds_actor_permissions'' [])
      | Some a \<Rightarrow>
          if isOwner (actor_ctx a) then None
          else (case loadRolePermissions w rid of
                  None \<Rightarrow> None
                | Some role \<Rightarrow> checkGrantsWithinActor actor role))"

text \<open>The loop over the distinct current roles of the players being changed.\<close>

fun checkCurrentRoles ::
  "world \<Rightarrow> permission_context \<Rightarrow> string option \<Rightarrow> string list \<Rightarrow> role_refusal option" where
  "checkCurrentRoles w actor newRole [] = None"
| "checkCurrentRoles w actor newRole (rid # rest) =
     (if Some rid = newRole then checkCurrentRoles w actor newRole rest
      else case loadRolePermissions w rid of
             None \<Rightarrow> checkCurrentRoles w actor newRole rest
           | Some role \<Rightarrow>
               (let missing = grantsBeyond actor role
                in if missing \<noteq> [] then Some (Refusal ''target_outranks_actor'' missing)
                   else checkCurrentRoles w actor newRole rest))"

definition currentRolesOf :: "world \<Rightarrow> string list \<Rightarrow> string list" where
  "currentRolesOf w pids =
     js_set (List.map_filter pl_role (filter (\<lambda>p. pl_id p \<in> set pids) (w_players w)))"

definition checkRoleAssignment ::
  "world \<Rightarrow> role_actor option \<Rightarrow> string list \<Rightarrow> string option \<Rightarrow> role_refusal option" where
  "checkRoleAssignment w actor pids newRole =
     (case actor of
        None \<Rightarrow> Some (Refusal ''role_exceeds_actor_permissions'' [])
      | Some a \<Rightarrow>
          if isOwner (actor_ctx a) then None
          else if actor_id a \<in> set pids then Some (Refusal ''cannot_change_own_role'' [])
          else (case (case newRole of None \<Rightarrow> None | Some rid \<Rightarrow> checkRoleWithinActor w actor rid) of
                  Some refusal \<Rightarrow> Some refusal
                | None \<Rightarrow>
                    if pids = [] then None
                    else checkCurrentRoles w (actor_ctx a) newRole (currentRolesOf w pids)))"

section \<open>Privilege ceiling\<close>

record role_grant =
  grant_row :: role_row
  grant_squad :: "string list"
  grant_keys :: "string list"

definition FLAG_CAPABILITIES ::
  "(string \<times> (role_row \<Rightarrow> bool) \<times> (permission_context \<Rightarrow> bool)) list" where
  "FLAG_CAPABILITIES = [
     (''panel_access'', panel_access, panelAccess),
     (''can_view_ips'', can_view_ips, canViewIps),
     (''can_assign_roles'', can_assign_roles, canAssignRoles),
     (''can_edit_roles'', can_edit_roles, canEditRoles),
     (''can_manage_issues'', can_manage_issues, canManageIssues),
     (''can_manage_ban_sources'', (\<lambda>r. panel_access r \<and> can_manage_ban_sources r),
       canManageBanSources),
     (''can_manage_integrations'', can_manage_integrations, canManageIntegrations),
     (''can_manage_clans'', can_manage_clans, canManageClans),
     (''can_manage_economy'', (\<lambda>r. panel_access r \<and> can_manage_economy r), canManageEconomy),
     (''can_manage_media'', (\<lambda>r. panel_access r \<and> can_manage_media r), canManageMedia),
     (''can_handle_reports'', can_handle_reports, canHandleReports),
     (''combat_view'', (\<lambda>r. panel_access r \<and> combat_view r), combatView)]"

definition loadRoleGrant :: "world \<Rightarrow> string \<Rightarrow> role_grant option" where
  "loadRoleGrant w rid =
     (case findRole w rid of
        None \<Rightarrow> None
      | Some r \<Rightarrow> Some \<lparr>grant_row = r, grant_squad = squadKeysOf w rid,
                       grant_keys = permKeysOf w rid\<rparr>)"

definition roleCapabilities :: "role_grant \<Rightarrow> string list" where
  "roleCapabilities g =
     js_set (map fst (filter (\<lambda>(_, granted, _). granted (grant_row g)) FLAG_CAPABILITIES)
             @ map (\<lambda>key. ''squad:'' @ key) (grant_squad g)
             @ map (\<lambda>key. ''perm:'' @ key) (grant_keys g))"

definition actorHolds :: "permission_context option \<Rightarrow> string \<Rightarrow> bool" where
  "actorHolds actor capability =
     (case actor of
        None \<Rightarrow> False
      | Some a \<Rightarrow>
          if prefix ''squad:'' capability
          then drop (length ''squad:'') capability \<in> set (squadPermissions a)
          else if prefix ''perm:'' capability
          then drop (length ''perm:'') capability \<in> set (permissions a)
          else (case List.find (\<lambda>(c, _, _). c = capability) FLAG_CAPABILITIES of
                  Some (_, _, held) \<Rightarrow> held a
                | None \<Rightarrow> False))"

definition capabilitiesBeyondActor ::
  "string list \<Rightarrow> permission_context option \<Rightarrow> string list" where
  "capabilitiesBeyondActor capabilities actor =
     (if (case actor of None \<Rightarrow> False | Some a \<Rightarrow> isOwner a) then []
      else sort (filter (\<lambda>c. \<not> actorHolds actor c) capabilities))"

definition roleGrantBeyondActor ::
  "world \<Rightarrow> string \<Rightarrow> permission_context option \<Rightarrow> string list" where
  "roleGrantBeyondActor w rid actor =
     (if (case actor of None \<Rightarrow> False | Some a \<Rightarrow> isOwner a) then []
      else case loadRoleGrant w rid of
             None \<Rightarrow> []
           | Some g \<Rightarrow> capabilitiesBeyondActor (roleCapabilities g) actor)"

section \<open>Whitelist guard\<close>

record guarded_role =
  gr_id :: string
  gr_name :: string
  gr_system :: bool

definition isOwnerRole :: "guarded_role \<Rightarrow> bool" where
  "isOwnerRole r \<longleftrightarrow> gr_system r \<and> gr_name r = ''Owner''"

definition callerCanManageRoles :: "role_actor option \<Rightarrow> bool" where
  "callerCanManageRoles user =
     (case user of None \<Rightarrow> False | Some a \<Rightarrow> ''user:manage_roles'' \<in> set (permissions (actor_ctx a)))"

definition whitelistRoleWriteDenial ::
  "bool \<Rightarrow> guarded_role \<Rightarrow> string option \<Rightarrow> guarded_role option \<Rightarrow> (nat \<times> string) option" where
  "whitelistRoleWriteDenial canManage target whitelistId current =
     (if isOwnerRole target then Some (403, ''owner_assignment_forbidden'')
      else if (case current of None \<Rightarrow> False | Some c \<Rightarrow> isOwnerRole c)
        then Some (409, ''owner_role_protected'')
      else if canManage then None
      else if Some (gr_id target) \<noteq> whitelistId then Some (403, ''role_assignment_forbidden'')
      else if (case current of None \<Rightarrow> False | Some c \<Rightarrow> gr_id c \<noteq> gr_id target)
        then Some (403, ''role_assignment_forbidden'')
      else None)"

section \<open>The contract of the hierarchy\<close>

locale grant_order =
  fixes beyond :: "'c \<Rightarrow> 'c \<Rightarrow> 'g list" and le :: "'c \<Rightarrow> 'c \<Rightarrow> bool" and bot :: 'c
  assumes beyond_Nil: "beyond a t = [] \<longleftrightarrow> le t a"
    and refl: "le a a"
    and trans: "le a b \<Longrightarrow> le b c \<Longrightarrow> le a c"
    and bot: "le bot a"
begin

text \<open>\<open>covered f g\<close>: whatever anybody holds under \<open>f\<close>, somebody held it under \<open>g\<close>.\<close>

definition covered :: "('p \<Rightarrow> 'c) \<Rightarrow> ('p \<Rightarrow> 'c) \<Rightarrow> bool" where
  "covered f g \<longleftrightarrow> (\<forall>p. \<exists>q. le (f p) (g q))"

lemma covered_refl: "covered f f"
  by (auto simp: covered_def intro: refl)

lemma covered_trans: "covered f g \<Longrightarrow> covered g h \<Longrightarrow> covered f h"
  unfolding covered_def by (meson trans)

text \<open>
  A change is safe when every player keeps what they had, loses it, or receives a grant that
  passed the hierarchy check against somebody's grant.
\<close>

lemma covered_step:
  assumes "\<And>p. f p = g p \<or> f p = bot \<or> (\<exists>t q. f p = t \<and> beyond a t = [] \<and> le a (g q))"
  shows "covered f g"
  unfolding covered_def
proof
  fix p
  consider "f p = g p" | "f p = bot" | q where "beyond a (f p) = []" "le a (g q)"
    using assms [of p] by auto
  then show "\<exists>q. le (f p) (g q)"
  proof cases
    case 1
    then show ?thesis by (auto intro: refl)
  next
    case 2
    then show ?thesis using bot by auto
  next
    case 3
    then have "le (f p) a" by (simp add: beyond_Nil)
    then show ?thesis using 3(2) by (blast intro: trans)
  qed
qed

end

interpretation go: grant_order grantsBeyond ctx_le emptyContext
  by unfold_locales (auto simp: grantsBeyond_Nil intro: ctx_le_trans)

section \<open>Lemmas on the checks\<close>

lemma checkGrantsWithinActor_None:
  "checkGrantsWithinActor (Some a) role = None \<longleftrightarrow>
     isOwner (actor_ctx a) \<or> ctx_le role (actor_ctx a)"
  by (auto simp: checkGrantsWithinActor_def Let_def grantsBeyond_Nil)

lemma checkRoleWithinActor_None:
  "checkRoleWithinActor w (Some a) rid = None \<longleftrightarrow>
     isOwner (actor_ctx a) \<or>
     (\<forall>role. loadRolePermissions w rid = Some role \<longrightarrow> ctx_le role (actor_ctx a))"
  by (auto simp: checkRoleWithinActor_def checkGrantsWithinActor_None split: option.splits)

lemma checkCurrentRoles_None:
  "checkCurrentRoles w actor newRole rids = None \<longleftrightarrow>
     (\<forall>rid \<in> set rids. Some rid \<noteq> newRole \<longrightarrow>
        (\<forall>role. loadRolePermissions w rid = Some role \<longrightarrow> ctx_le role actor))"
  by (induction rids) (auto simp: Let_def grantsBeyond_Nil split: option.splits)

lemma set_currentRolesOf:
  "set (currentRolesOf w pids) =
     {rid. \<exists>p \<in> set (w_players w). pl_id p \<in> set pids \<and> pl_role p = Some rid}"
  by (force simp: currentRolesOf_def List.map_filter_def)

lemma checkRoleAssignment_anonymous [simp]:
  "checkRoleAssignment w None pids newRole \<noteq> None"
  by (simp add: checkRoleAssignment_def)

text \<open>What a passed assignment check means for an actor who is not an Owner.\<close>

lemma checkRoleAssignment_None:
  assumes "checkRoleAssignment w actor pids newRole = None"
  obtains a where "actor = Some a"
    and "\<not> isOwner (actor_ctx a) \<Longrightarrow> actor_id a \<notin> set pids"
    and "\<And>rid role. \<not> isOwner (actor_ctx a) \<Longrightarrow> newRole = Some rid \<Longrightarrow>
           loadRolePermissions w rid = Some role \<Longrightarrow> ctx_le role (actor_ctx a)"
    and "\<And>p rid role. \<not> isOwner (actor_ctx a) \<Longrightarrow> p \<in> set (w_players w) \<Longrightarrow> pl_id p \<in> set pids \<Longrightarrow>
           pl_role p = Some rid \<Longrightarrow> loadRolePermissions w rid = Some role \<Longrightarrow>
           ctx_le role (actor_ctx a)"
proof (cases actor)
  case None
  then show ?thesis using assms by simp
next
  case (Some a)
  have within: "ctx_le role (actor_ctx a)"
    if "\<not> isOwner (actor_ctx a)" "newRole = Some rid" "loadRolePermissions w rid = Some role"
    for rid role
    using assms Some that
    by (auto simp: checkRoleAssignment_def checkRoleWithinActor_None split: option.splits if_splits)
  have outranks: "ctx_le role (actor_ctx a)"
    if "\<not> isOwner (actor_ctx a)" "p \<in> set (w_players w)" "pl_id p \<in> set pids"
      "pl_role p = Some rid" "loadRolePermissions w rid = Some role" for p rid role
  proof (cases "newRole = Some rid")
    case True
    then show ?thesis using within that by blast
  next
    case False
    have "checkCurrentRoles w (actor_ctx a) newRole (currentRolesOf w pids) = None"
      using assms Some that(1,3)
      by (auto simp: checkRoleAssignment_def split: option.splits if_splits)
    then show ?thesis using that False by (auto simp: checkCurrentRoles_None set_currentRolesOf)
  qed
  show ?thesis
    using Some assms within outranks
    by (intro that [of a]) (auto simp: checkRoleAssignment_def split: if_splits)
qed

section \<open>Ceiling and hierarchy compared\<close>

lemma actorHolds_squad [simp]:
  "actorHolds (Some a) (''squad:'' @ k) \<longleftrightarrow> k \<in> set (squadPermissions a)"
  by (simp add: actorHolds_def)

lemma actorHolds_perm [simp]:
  "actorHolds (Some a) (''perm:'' @ k) \<longleftrightarrow> k \<in> set (permissions a)"
  by (simp add: actorHolds_def)

lemma capabilitiesBeyondActor_Nil:
  "capabilitiesBeyondActor caps (Some a) = [] \<longleftrightarrow>
     isOwner a \<or> (\<forall>c \<in> set caps. actorHolds (Some a) c)"
proof -
  have "sort xs = [] \<longleftrightarrow> xs = []" for xs :: "string list"
    by (metis length_0_conv length_sort)
  then show ?thesis by (auto simp: capabilitiesBeyondActor_def filter_empty_conv)
qed

text \<open>Case analysis on membership in an explicit list.\<close>

lemma list_ex_elim:
  "x \<in> set (y # ys) \<Longrightarrow> (x = y \<Longrightarrow> P) \<Longrightarrow> (x \<in> set ys \<Longrightarrow> P) \<Longrightarrow> P"
  "x \<in> set [] \<Longrightarrow> P"
  by auto

lemma actorHolds_flag:
  assumes "(c, granted, held) \<in> set FLAG_CAPABILITIES"
  shows "actorHolds (Some a) c = held a"
  using assms unfolding FLAG_CAPABILITIES_def actorHolds_def
  by (elim list_ex_elim) simp_all

text \<open>A flag capability of a role is the matching flag of the context the role grants.\<close>

lemma flag_granted_held:
  assumes "(c, granted, held) \<in> set FLAG_CAPABILITIES" and "granted r"
  shows "held (buildRolePermissionContext rid r squad ex)"
  using assms unfolding FLAG_CAPABILITIES_def
  by (elim list_ex_elim) (simp_all add: buildRolePermissionContext_def Let_def)

lemma held_mono:
  assumes "(c, granted, held) \<in> set FLAG_CAPABILITIES" and "ctx_le t a" and "held t"
  shows "held a"
  using assms unfolding FLAG_CAPABILITIES_def
  by (elim list_ex_elim) (simp_all add: ctx_le_def HIERARCHY_FLAGS_def)

lemma roleCapabilities_cases:
  assumes "c \<in> set (roleCapabilities g)"
  obtains granted held where "(c, granted, held) \<in> set FLAG_CAPABILITIES" "granted (grant_row g)"
  | k where "c = ''squad:'' @ k" "k \<in> set (grant_squad g)"
  | k where "c = ''perm:'' @ k" "k \<in> set (grant_keys g)"
  using assms by (auto simp: roleCapabilities_def)

section \<open>Properties\<close>

text \<open>
  The hierarchy check subsumes the privilege ceiling.  For an existing role whose stored Squad keys
  and explicit permission rows are all effective, an actor who passes the hierarchy comparison is never
  stopped by the ceiling, which is why the assignment routes may call only the former.
\<close>

lemma hierarchy_subsumes_ceiling:
  assumes "loadRolePermissions w rid = Some role"
    and "set (squadKeysOf w rid) \<subseteq> set (squadPermissions role)"
    and "set (permKeysOf w rid) \<subseteq> set (permissions role)"
    and "checkRoleWithinActor w (Some a) rid = None"
  shows "roleGrantBeyondActor w rid (Some (actor_ctx a)) = []"
proof (cases "isOwner (actor_ctx a)")
  case True
  then show ?thesis by (simp add: roleGrantBeyondActor_def)
next
  case False
  then have le: "ctx_le role (actor_ctx a)" using assms(1,4) by (auto simp: checkRoleWithinActor_None)
  obtain r where r: "findRole w rid = Some r"
    "role = buildRolePermissionContext rid r (squadKeysOf w rid) (permKeysOf w rid)"
    using assms(1) by (auto simp: loadRolePermissions_def split: option.splits)
  let ?g = "\<lparr>grant_row = r, grant_squad = squadKeysOf w rid, grant_keys = permKeysOf w rid\<rparr>"
  have "actorHolds (Some (actor_ctx a)) c" if "c \<in> set (roleCapabilities ?g)" for c
    using that
  proof (cases rule: roleCapabilities_cases)
    case (1 granted held)
    then have "held role" unfolding r(2) using flag_granted_held [OF 1(1)] by simp
    then show ?thesis using held_mono [OF 1(1) le] actorHolds_flag [OF 1(1)] by simp
  next
    case (2 k)
    then have "k \<in> set (squadPermissions role)" using assms(2) by auto
    then show ?thesis unfolding 2(1) actorHolds_squad by (rule ctx_le_squad [OF le])
  next
    case (3 k)
    then have "k \<in> set (permissions role)" using assms(3) by auto
    then show ?thesis unfolding 3(1) actorHolds_perm by (rule ctx_le_permissions [OF le])
  qed
  then show ?thesis
    using r(1) False capabilitiesBeyondActor_Nil by (simp add: roleGrantBeyondActor_def loadRoleGrant_def)
qed

text \<open>A role with an explicit row for a key its flags withhold, and an actor holding an equal role.\<close>

definition demoGuardWorld :: "string list \<Rightarrow> world" where
  "demoGuardWorld keys = demoClaimWorld\<lparr>w_roles := [demoModRole], w_squad := [(''r2'', ''kick'')],
     w_perms := map (Pair ''r2'') keys, w_players := []\<rparr>"

definition demoGuardActor :: role_actor where
  "demoGuardActor = \<lparr>actor_id = ''x'',
     actor_ctx = buildRolePermissionContext ''r2'' demoModRole [''kick''] []\<rparr>"

lemma demoGuard_facts:
  "checkRoleWithinActor (demoGuardWorld [''role:view'']) (Some demoGuardActor) ''r2'' = None"
  "(case loadRolePermissions (demoGuardWorld [''role:view'']) ''r2'' of None \<Rightarrow> False
    | Some role \<Rightarrow> list_all (\<lambda>k. k \<in> set (squadPermissions role)) (squadKeysOf (demoGuardWorld [''role:view'']) ''r2'')
        \<and> list_all (\<lambda>k. k \<in> set (permissions role)) (permKeysOf (demoGuardWorld [''role:view'']) ''r2''))"
  by code_simp+

lemma hierarchy_subsumes_ceiling_example:
  "roleGrantBeyondActor (demoGuardWorld [''role:view'']) ''r2'' (Some (actor_ctx demoGuardActor)) = []"
proof -
  obtain role where "loadRolePermissions (demoGuardWorld [''role:view'']) ''r2'' = Some role"
    "set (squadKeysOf (demoGuardWorld [''role:view'']) ''r2'') \<subseteq> set (squadPermissions role)"
    "set (permKeysOf (demoGuardWorld [''role:view'']) ''r2'') \<subseteq> set (permissions role)"
    using demoGuard_facts(2) by (auto simp: list_all_iff split: option.splits)
  then show ?thesis using hierarchy_subsumes_ceiling demoGuard_facts(1) by blast
qed

text \<open>
  Without that condition the comparison is weaker than the ceiling: an explicit row for a key the
  role's flags withhold is invisible to the hierarchy check but counted by the ceiling.
\<close>

lemma hierarchy_weaker_on_withheld_row:
  "checkRoleWithinActor (demoGuardWorld [''role:edit'']) (Some demoGuardActor) ''r2'' = None"
  "roleGrantBeyondActor (demoGuardWorld [''role:edit'']) ''r2'' (Some (actor_ctx demoGuardActor)) = [''perm:role:edit'']"
  by code_simp+

text \<open>
  The whitelist paths are no back door.  A write they allow never grants the Owner role and never
  replaces an Owner's role; without role management it grants exactly the configured whitelist role,
  and only to a player who has no role or that role.
\<close>

lemma whitelist_guard_safe:
  assumes "whitelistRoleWriteDenial canManage target whitelistId current = None"
  shows "\<not> isOwnerRole target \<and> \<not> (\<exists>c. current = Some c \<and> isOwnerRole c)
    \<and> (canManage \<or> whitelistId = Some (gr_id target) \<and> (current = None \<or> map_option gr_id current = whitelistId))"
  using assms by (auto simp: whitelistRoleWriteDenial_def split: if_splits option.splits)

lemma whitelist_guard_safe_example:
  "whitelistRoleWriteDenial False \<lparr>gr_id = ''w'', gr_name = ''Whitelist'', gr_system = False\<rparr> (Some ''w'') None = None
   \<and> \<not> isOwnerRole \<lparr>gr_id = ''w'', gr_name = ''Whitelist'', gr_system = False\<rparr>"
proof -
  have "whitelistRoleWriteDenial False \<lparr>gr_id = ''w'', gr_name = ''Whitelist'', gr_system = False\<rparr> (Some ''w'') None = None"
    by code_simp
  then show ?thesis using whitelist_guard_safe by blast
qed

end
