(* ===== verification/Strings.thy ===== *)
theory Strings
  imports Prelude
begin

text \<open>
  The string operations of JavaScript that the modelled code uses, on ASCII text: white space and
  \<^verbatim>\<open>trim\<close>, \<^verbatim>\<open>toLowerCase\<close>, \<^verbatim>\<open>split\<close> on a character and \<^verbatim>\<open>join\<close>, \<^verbatim>\<open>indexOf\<close>, decimal rendering and
  reading of naturals.  The round trips between splitting and joining, and between rendering and
  reading, are proved here once.
\<close>

section \<open>Characters\<close>

definition is_ws :: "char \<Rightarrow> bool" where
  "is_ws c \<longleftrightarrow> of_char c \<in> {9, 10, 11, 12, 13, 32, 160 :: nat}"

definition is_digit :: "char \<Rightarrow> bool" where
  "is_digit c \<longleftrightarrow> 48 \<le> (of_char c :: nat) \<and> (of_char c :: nat) \<le> 57"

definition lower_char :: "char \<Rightarrow> char" where
  "lower_char c = (if 65 \<le> (of_char c :: nat) \<and> (of_char c :: nat) \<le> 90
                   then char_of (of_char c + 32 :: nat) else c)"

definition is_hex :: "char \<Rightarrow> bool" where
  "is_hex c \<longleftrightarrow> is_digit c \<or> 97 \<le> (of_char (lower_char c) :: nat) \<and> (of_char (lower_char c) :: nat) \<le> 102"

definition toLowerCase :: "string \<Rightarrow> string" where
  "toLowerCase s = map lower_char s"

section \<open>Trimming, splitting, searching\<close>

definition trimStart :: "string \<Rightarrow> string" where
  "trimStart s = dropWhile is_ws s"

definition trimEnd :: "string \<Rightarrow> string" where
  "trimEnd s = rev (dropWhile is_ws (rev s))"

definition trim :: "string \<Rightarrow> string" where
  "trim s = trimEnd (trimStart s)"

fun split_on :: "'a \<Rightarrow> 'a list \<Rightarrow> 'a list list" where
  "split_on c [] = [[]]"
| "split_on c (x # xs) =
     (if x = c then [] # split_on c xs
      else case split_on c xs of [] \<Rightarrow> [[x]] | h # t \<Rightarrow> (x # h) # t)"

fun join_with :: "'a list \<Rightarrow> 'a list list \<Rightarrow> 'a list" where
  "join_with sep [] = []"
| "join_with sep [x] = x"
| "join_with sep (x # y # ys) = x @ sep @ join_with sep (y # ys)"

fun index_of :: "'a \<Rightarrow> 'a list \<Rightarrow> nat option" where
  "index_of c [] = None"
| "index_of c (x # xs) = (if x = c then Some 0 else map_option Suc (index_of c xs))"

lemma split_on_not_Nil [simp]: "split_on c s \<noteq> []"
  by (induction s) (auto split: list.split)

lemma split_on_no_sep: "c \<notin> set s \<Longrightarrow> split_on c s = [s]"
  by (induction s) auto

lemma split_on_append: "c \<notin> set a \<Longrightarrow> split_on c (a @ c # s) = a # split_on c s"
  by (induction a) auto

lemma split_on_parts: "p \<in> set (split_on c s) \<Longrightarrow> c \<notin> set p"
proof (induction s arbitrary: p)
  case (Cons x xs)
  obtain h t where "split_on c xs = h # t" by (cases "split_on c xs") auto
  with Cons show ?case by (auto split: if_splits)
qed simp

lemma join_split [simp]: "join_with [c] (split_on c s) = s"
proof (induction s)
  case (Cons x xs)
  obtain h t where "split_on c xs = h # t" by (cases "split_on c xs") auto
  with Cons show ?case by (cases t) auto
qed simp

lemma split_join:
  "ps \<noteq> [] \<Longrightarrow> \<forall>p \<in> set ps. c \<notin> set p \<Longrightarrow> split_on c (join_with [c] ps) = ps"
proof (induction "[c]" ps rule: join_with.induct)
  case (3 x y ys)
  then show ?case using split_on_append [of c x "join_with [c] (y # ys)"] by simp
qed (auto simp: split_on_no_sep)

lemma index_of_Some:
  "index_of c s = Some i \<Longrightarrow> i < length s \<and> s ! i = c \<and> c \<notin> set (take i s)"
  by (induction s arbitrary: i) (auto split: if_splits)

lemma index_of_None: "index_of c s = None \<longleftrightarrow> c \<notin> set s"
  by (induction s) auto

lemma trim_no_ws: "\<forall>c \<in> set s. \<not> is_ws c \<Longrightarrow> trim s = s"
proof -
  assume "\<forall>c \<in> set s. \<not> is_ws c"
  then have "takeWhile is_ws s = []" "takeWhile is_ws (rev s) = []"
    by (metis set_takeWhileD set_rev list.set_intros(1) neq_Nil_conv)+
  then have "dropWhile is_ws s = s" "dropWhile is_ws (rev s) = rev s"
    by (metis append_Nil takeWhile_dropWhile_id)+
  then show ?thesis by (simp add: trim_def trimStart_def trimEnd_def)
qed

section \<open>Decimal numbers\<close>

definition digit_char :: "nat \<Rightarrow> char" where
  "digit_char d = char_of (48 + d)"

fun show_nat :: "nat \<Rightarrow> string" where
  "show_nat n = (if n < 10 then [digit_char n] else show_nat (n div 10) @ [digit_char (n mod 10)])"

declare show_nat.simps [simp del]

definition digit_val :: "char \<Rightarrow> nat" where
  "digit_val c = of_char c - 48"

definition nat_of_digits :: "string \<Rightarrow> nat" where
  "nat_of_digits s = foldl (\<lambda>a c. a * 10 + digit_val c) 0 s"

lemma digit_char [simp]:
  assumes "d < 10"
  shows "digit_val (digit_char d) = d" "is_digit (digit_char d)"
  using assms by (simp_all add: digit_val_def digit_char_def is_digit_def)

lemma is_digit_digit_val: "is_digit c \<Longrightarrow> digit_val c < 10 \<and> digit_char (digit_val c) = c"
  by (auto simp: is_digit_def digit_val_def digit_char_def)

lemma show_nat_digits: "\<forall>c \<in> set (show_nat n). is_digit c"
  by (induction n rule: show_nat.induct) (subst show_nat.simps, auto)

lemma show_nat_not_Nil [simp]: "show_nat n \<noteq> []"
  by (simp add: show_nat.simps [of n])

lemma nat_of_digits_snoc [simp]: "nat_of_digits (s @ [c]) = nat_of_digits s * 10 + digit_val c"
  by (simp add: nat_of_digits_def)

lemma nat_of_digits_Nil [simp]: "nat_of_digits [] = 0"
  by (simp add: nat_of_digits_def)

lemma nat_of_show_nat [simp]: "nat_of_digits (show_nat n) = n"
proof (induction n rule: show_nat.induct)
  case (1 n)
  show ?case
  proof (cases "n < 10")
    case True
    then show ?thesis using nat_of_digits_snoc [of "[]" "digit_char n"]
      by (simp add: show_nat.simps [of n] del: nat_of_digits_snoc)
  next
    case False
    then show ?thesis using 1 by (simp add: show_nat.simps [of n])
  qed
qed

lemma show_nat_inject [simp]: "show_nat m = show_nat n \<longleftrightarrow> m = n"
  by (metis nat_of_show_nat)

section \<open>Text as UTF-16 code units\<close>

text \<open>
  Where the code inspects characters outside ASCII, text is a list of code units; \<open>lit\<close> embeds a
  literal.
\<close>

type_synonym jstr = "nat list"

definition lit :: "string \<Rightarrow> jstr" where
  "lit s = map of_char s"

text \<open>White space and line terminators of ECMAScript, which \<^verbatim>\<open>trim\<close> removes.\<close>

definition js_ws :: "nat \<Rightarrow> bool" where
  "js_ws c \<longleftrightarrow> 9 \<le> c \<and> c \<le> 13 \<or> c = 32 \<or> c = 160 \<or> c = 0x1680 \<or> 0x2000 \<le> c \<and> c \<le> 0x200A
     \<or> c = 0x2028 \<or> c = 0x2029 \<or> c = 0x202F \<or> c = 0x205F \<or> c = 0x3000 \<or> c = 0xFEFF"

definition jtrim :: "jstr \<Rightarrow> jstr" where
  "jtrim s = rev (dropWhile js_ws (rev (dropWhile js_ws s)))"

text \<open>\<^verbatim>\<open>s.replace(/[p]+/g, r)\<close> for a character class and a one-character replacement.\<close>

function replaceRuns :: "('a \<Rightarrow> bool) \<Rightarrow> 'a \<Rightarrow> 'a list \<Rightarrow> 'a list" where
  "replaceRuns p r [] = []"
| "replaceRuns p r (c # cs) =
     (if p c then r # replaceRuns p r (dropWhile p cs) else c # replaceRuns p r cs)"
  by pat_completeness auto
termination
  by (relation "measure (\<lambda>(_, _, s). length s)") (auto simp: less_Suc_eq_le length_dropWhile_le)

text \<open>\<^verbatim>\<open>s.indexOf(pat)\<close>.\<close>

fun find_sub :: "'a list \<Rightarrow> 'a list \<Rightarrow> nat option" where
  "find_sub pat [] = (if pat = [] then Some 0 else None)"
| "find_sub pat (c # cs) =
     (if prefix pat (c # cs) then Some 0 else map_option Suc (find_sub pat cs))"

lemma set_jtrim: "set (jtrim s) \<subseteq> set s"
  by (auto simp: jtrim_def dest!: set_dropWhileD)

lemma set_replaceRuns: "set (replaceRuns p r s) \<subseteq> insert r {c \<in> set s. \<not> p c}"
proof (induction p r s rule: replaceRuns.induct)
  case (2 p r c cs)
  then show ?case using set_dropWhileD [of _ p cs] by (cases "p c") fastforce+
qed simp

text \<open>After collapsing runs of \<open>r\<close> to one \<open>r\<close>, no two of them are adjacent.\<close>

lemma hd_dropWhile_neq: "dropWhile (\<lambda>c. c = r) cs = x # xs \<Longrightarrow> x \<noteq> r"
  by (induction cs) (auto split: if_splits)

lemma replaceRuns_hd:
  "replaceRuns (\<lambda>c. c = r) r s = x # xs \<Longrightarrow> \<exists>ys. s = x # ys"
  by (cases s) (auto split: if_splits)

lemma replaceRuns_no_double: "\<not> sublist [r, r] (replaceRuns (\<lambda>c. c = r) r s)"
proof (induction s rule: length_induct)
  case (1 s)
  show ?case
  proof (cases s)
    case (Cons c cs)
    show ?thesis
    proof (cases "c = r")
      case True
      let ?rest = "replaceRuns (\<lambda>c. c = r) r (dropWhile (\<lambda>c. c = r) cs)"
      have "\<not> sublist [r, r] ?rest"
        using 1 Cons length_dropWhile_le [of "\<lambda>c. c = r" cs] by simp
      moreover have "\<not> prefix [r] ?rest"
        using replaceRuns_hd hd_dropWhile_neq by (cases ?rest) (simp, fastforce)
      ultimately show ?thesis using Cons True by (auto simp: sublist_Cons_right)
    next
      case False
      then show ?thesis using 1 Cons by (auto simp: sublist_Cons_right)
    qed
  qed simp
qed

lemma find_sub_None: "find_sub pat s = None \<longleftrightarrow> \<not> sublist pat s"
  by (induction s) (auto simp: sublist_Cons_right)

lemma find_sub_Some:
  "find_sub pat s = Some i \<longleftrightarrow>
     i \<le> length s \<and> prefix pat (drop i s) \<and> (\<forall>j < i. \<not> prefix pat (drop j s))"
proof (induction s arbitrary: i)
  case Nil
  then show ?case by (auto split: if_splits)
next
  case (Cons c cs)
  show ?case
  proof (cases i)
    case 0
    then show ?thesis by auto
  next
    case (Suc k)
    have "(\<forall>j < Suc k. \<not> prefix pat (drop j (c # cs))) \<longleftrightarrow>
        \<not> prefix pat (c # cs) \<and> (\<forall>j < k. \<not> prefix pat (drop j cs))"
      by (auto simp: less_Suc_eq_0_disj)
    then show ?thesis using Suc Cons [of k] by auto
  qed
qed

text \<open>Searching across a separator that the pattern does not contain.\<close>

lemma prefix_stops_at_sep: "c \<notin> set pat \<Longrightarrow> prefix pat (a @ c # b) \<longleftrightarrow> prefix pat a"
proof (induction pat arbitrary: a)
  case (Cons x pat)
  then show ?case by (cases a) auto
qed simp

lemma find_sub_after_sep:
  assumes "pat \<noteq> []" and "c \<notin> set pat" and "\<not> sublist pat a"
  shows "find_sub pat (a @ c # b) = map_option (\<lambda>k. length a + 1 + k) (find_sub pat b)"
  using assms(3)
proof (induction a)
  case Nil
  have "\<not> prefix pat (c # b)" using assms(1,2) by (cases pat) auto
  then show ?case by simp
next
  case (Cons x a)
  then have "\<not> prefix pat (x # a @ c # b)" "\<not> sublist pat a"
    using prefix_stops_at_sep [OF assms(2), of "x # a" b] by (auto simp: sublist_Cons_right)
  then show ?case using Cons.IH by (simp add: option.map_comp comp_def)
qed

section \<open>Stable sorting by a comparison\<close>

fun insort_by :: "('a \<Rightarrow> 'a \<Rightarrow> bool) \<Rightarrow> 'a \<Rightarrow> 'a list \<Rightarrow> 'a list" where
  "insort_by le x [] = [x]"
| "insort_by le x (y # ys) = (if le x y then x # y # ys else y # insort_by le x ys)"

definition sort_by :: "('a \<Rightarrow> 'a \<Rightarrow> bool) \<Rightarrow> 'a list \<Rightarrow> 'a list" where
  "sort_by le xs = foldr (insort_by le) xs []"

lemma set_insort_by [simp]: "set (insort_by le x xs) = insert x (set xs)"
  by (induction xs) auto

lemma set_sort_by [simp]: "set (sort_by le xs) = set xs"
  by (induction xs) (auto simp: sort_by_def)

lemma length_insort_by [simp]: "length (insort_by le x xs) = Suc (length xs)"
  by (induction xs) auto

lemma length_sort_by [simp]: "length (sort_by le xs) = length xs"
  by (induction xs) (auto simp: sort_by_def)

end
