(* ===== verification/Api_Auth.thy ===== *)
theory Api_Auth
  imports Role_Guards Strings
begin

text \<open>
  Authentication and route authorisation of the API: \<^verbatim>\<open>apps/api/src/plugins/auth.ts\<close> (the global
  \<^verbatim>\<open>onRequest\<close> hook) and the token helpers of \<^verbatim>\<open>apps/api/src/lib/api-tokens.ts\<close>.

  The hook reads the session cookie, or failing that an API token, builds the caller's permission
  context, drops callers without panel access on routes that are not self-service, and then checks
  the permissions and role flags the route declares.  SHA-256 and the session MAC are parameters.
\<close>

section \<open>Token syntax\<close>

definition API_TOKEN_PREFIX :: string where "API_TOKEN_PREFIX = ''sqp_''"

definition API_TOKEN_TOUCH_THROTTLE_SECONDS :: int where "API_TOKEN_TOUCH_THROTTLE_SECONDS = 60"

text \<open>The class \<^verbatim>\<open>[0-9a-f-]\<close> with the flag \<^verbatim>\<open>i\<close>.\<close>

definition uuid_char :: "char \<Rightarrow> bool" where
  "uuid_char c \<longleftrightarrow> is_hex c \<or> c = CHR ''-''"

definition looksLikeApiToken :: "string \<Rightarrow> bool" where
  "looksLikeApiToken value \<longleftrightarrow>
     take 4 value = API_TOKEN_PREFIX
     \<and> (let rest = drop 4 value
        in case index_of CHR ''_'' rest of
             None \<Rightarrow> False
           | Some sep \<Rightarrow>
               let uuid = take sep rest; random = drop (sep + 1) rest
               in length uuid = 36 \<and> list_all uuid_char uuid \<and> length random \<ge> 16)"

datatype header_value = OneHeader string | ManyHeaders "string list"

text \<open>\<^verbatim>\<open>/^Bearer\s+(\S+)$/i\<close>: the scheme, at least one blank, then a blank-free token to the end.\<close>

definition matchBearer :: "string \<Rightarrow> string option" where
  "matchBearer value =
     (let rest = drop 6 value; token = dropWhile is_ws rest
      in if toLowerCase (take 6 value) = ''bearer'' \<and> takeWhile is_ws rest \<noteq> []
            \<and> token \<noteq> [] \<and> list_all (\<lambda>c. \<not> is_ws c) token
         then Some token else None)"

fun extractBearerToken :: "header_value option \<Rightarrow> string option" where
  "extractBearerToken None = None"
| "extractBearerToken (Some (OneHeader v)) = (if v = [] then None else matchBearer v)"
| "extractBearerToken (Some (ManyHeaders [])) = None"
| "extractBearerToken (Some (ManyHeaders (v # _))) = (if v = [] then None else matchBearer v)"

section \<open>Requests, routes and outcomes\<close>

record route_config =
  rc_public :: bool
  rc_selfService :: bool
  rc_permissions :: "string list"
  rc_roleFlags :: "string list"

record request =
  rq_cookie :: "string option"
  rq_authorization :: "header_value option"

record req_session =
  rs_id :: string
  rs_player :: string
  rs_scope :: session_scope

record req_auth =
  ra_user :: "role_actor option"
  ra_session :: "req_session option"
  ra_token :: "string option"
  ra_setCookie :: bool

definition anonymous :: req_auth where
  "anonymous = \<lparr>ra_user = None, ra_session = None, ra_token = None, ra_setCookie = False\<rparr>"

datatype auth_outcome = Proceed req_auth | Unauthenticated | Forbidden "string list"

text \<open>The boolean fields of a context, by the name a route's \<open>roleFlags\<close> uses.\<close>

definition ROLE_FLAGS :: "(string \<times> (permission_context \<Rightarrow> bool)) list" where
  "ROLE_FLAGS = [(''panelAccess'', panelAccess), (''canViewIps'', canViewIps),
     (''canAssignRoles'', canAssignRoles), (''canEditRoles'', canEditRoles),
     (''canManageIssues'', canManageIssues), (''canManageBanSources'', canManageBanSources),
     (''canManageIntegrations'', canManageIntegrations), (''canManageClans'', canManageClans),
     (''canManageEconomy'', canManageEconomy), (''canManageMedia'', canManageMedia),
     (''canHandleReports'', canHandleReports), (''combatView'', combatView), (''isOwner'', isOwner)]"

definition flagOf :: "permission_context \<Rightarrow> string \<Rightarrow> bool" where
  "flagOf ctx flag = (case map_of ROLE_FLAGS flag of None \<Rightarrow> False | Some f \<Rightarrow> f ctx)"

definition toSnakeCase :: "string \<Rightarrow> string" where
  "toSnakeCase flag = concat (map (\<lambda>c. if lower_char c \<noteq> c then [CHR ''_'', lower_char c] else [c]) flag)"

section \<open>The hook\<close>

record auth_config =
  ac_ttl :: int
  ac_throttle :: int

text \<open>The cookie branch: resolve the session, load the player's permissions, touch the session.\<close>

definition authCookie ::
  "(string \<Rightarrow> string) \<Rightarrow> (string \<Rightarrow> session_payload \<Rightarrow> string) \<Rightarrow> auth_config \<Rightarrow> int \<Rightarrow> string
   \<Rightarrow> world \<Rightarrow> req_auth \<times> world" where
  "authCookie hash mac cfg now token w =
     (case resolveSession hash mac now token (w_sess w) of
        (None, ss) \<Rightarrow> (anonymous, w\<lparr>w_sess := ss\<rparr>)
      | (Some s, ss) \<Rightarrow>
          (let w1 = w\<lparr>w_sess := ss\<rparr>
           in case findPlayer w1 (s_player s) of
                None \<Rightarrow> (anonymous, w1)
              | Some p \<Rightarrow>
                  (let (ctx, w2) = loadUserPermissions now (pl_id p) w1;
                       (touched, ss') = touchSession now (ac_ttl cfg) (ac_throttle cfg) (s_id s) (w_sess w2)
                   in (\<lparr>ra_user = Some \<lparr>actor_id = pl_id p, actor_ctx = ctx\<rparr>,
                        ra_session = Some \<lparr>rs_id = s_id s, rs_player = pl_id p, rs_scope = s_scope s\<rparr>,
                        ra_token = None, ra_setCookie = touched\<rparr>,
                       w2\<lparr>w_sess := ss'\<rparr>))))"

definition touchApiTokenLastUsed :: "int \<Rightarrow> string \<Rightarrow> world \<Rightarrow> world" where
  "touchApiTokenLastUsed now tokenId w =
     (let fresh = w\<lparr>w_token_touch := map_put tokenId (now + API_TOKEN_TOUCH_THROTTLE_SECONDS * 1000)
                                     (w_token_touch w),
                    w_tokens := update_rows (\<lambda>t. tk_id t = tokenId)
                                  (\<lambda>t. t\<lparr>tk_last_used := Some now\<rparr>) (w_tokens w)\<rparr>
      in case map_of (w_token_touch w) tokenId of
           Some deadline \<Rightarrow> if now < deadline then w else fresh
         | None \<Rightarrow> fresh)"

text \<open>The bearer branch.\<close>

definition authBearer :: "(string \<Rightarrow> string) \<Rightarrow> int \<Rightarrow> header_value option \<Rightarrow> world \<Rightarrow> req_auth \<times> world" where
  "authBearer hashToken now header w =
     (case extractBearerToken header of
        None \<Rightarrow> (anonymous, w)
      | Some bearer \<Rightarrow>
          if \<not> looksLikeApiToken bearer then (anonymous, w)
          else case find_row (\<lambda>t. tk_hash t = hashToken bearer \<and> tk_revoked t = None) (w_tokens w) of
                 None \<Rightarrow> (anonymous, w)
               | Some token \<Rightarrow>
                   (case findPlayer w (tk_player token) of
                      None \<Rightarrow> (anonymous, w)
                    | Some p \<Rightarrow>
                        (let (rolePerms, w1) = loadUserPermissions now (pl_id p) w
                         in if \<not> panelAccess rolePerms then (anonymous, w1)
                            else (\<lparr>ra_user = Some \<lparr>actor_id = pl_id p,
                                      actor_ctx = narrowToTokenScopes rolePerms (tk_scopes token)\<rparr>,
                                    ra_session = None, ra_token = Some (tk_id token),
                                    ra_setCookie = False\<rparr>,
                                  touchApiTokenLastUsed now (tk_id token) w1))))"

text \<open>A session without live panel access is honoured on self-service routes only.\<close>

definition downgrade :: "route_config \<Rightarrow> req_auth \<Rightarrow> req_auth" where
  "downgrade route a =
     (if ra_session a \<noteq> None
         \<and> \<not> (case ra_user a of None \<Rightarrow> False | Some u \<Rightarrow> panelAccess (actor_ctx u))
         \<and> \<not> rc_selfService route
      then a\<lparr>ra_user := None, ra_session := None, ra_token := None\<rparr>
      else a)"

definition authorize :: "route_config \<Rightarrow> req_auth \<Rightarrow> auth_outcome" where
  "authorize route a =
     (if rc_public route then Proceed a
      else case ra_user a of
             None \<Rightarrow> Unauthenticated
           | Some u \<Rightarrow>
               (case find_row (\<lambda>perm. perm \<notin> set (permissions (actor_ctx u))) (rc_permissions route) of
                  Some _ \<Rightarrow> Forbidden (rc_permissions route)
                | None \<Rightarrow>
                    (case find_row (\<lambda>flag. \<not> flagOf (actor_ctx u) flag) (rc_roleFlags route) of
                       Some flag \<Rightarrow> Forbidden [toSnakeCase flag]
                     | None \<Rightarrow> Proceed a)))"

definition authHook ::
  "(string \<Rightarrow> string) \<Rightarrow> (string \<Rightarrow> session_payload \<Rightarrow> string) \<Rightarrow> (string \<Rightarrow> string) \<Rightarrow> auth_config \<Rightarrow> int
   \<Rightarrow> route_config \<Rightarrow> request \<Rightarrow> world \<Rightarrow> auth_outcome \<times> world" where
  "authHook hash mac hashToken cfg now route rq w =
     (let (a, w') = (case rq_cookie rq of
                       Some (c # cs) \<Rightarrow> authCookie hash mac cfg now (c # cs) w
                     | _ \<Rightarrow> authBearer hashToken now (rq_authorization rq) w)
      in (authorize route (downgrade route a), w'))"

section \<open>Lemmas\<close>

text \<open>The part of the state access decisions depend on.\<close>

definition same_tables :: "world \<Rightarrow> world \<Rightarrow> bool" where
  "same_tables w w' \<longleftrightarrow> w_roles w' = w_roles w \<and> w_squad w' = w_squad w \<and> w_perms w' = w_perms w
     \<and> w_players w' = w_players w"

lemma same_tables_refl [simp]: "same_tables w w"
  by (simp add: same_tables_def)

lemma same_tables_facts:
  assumes "same_tables w w'"
  shows "findPlayer w' pid = findPlayer w pid" "assignedContext w' pid = assignedContext w pid"
    "wf_world w' = wf_world w" "ownerRoleId w' = ownerRoleId w" "owners w' = owners w"
proof -
  show "findPlayer w' pid = findPlayer w pid" using assms by (simp add: same_tables_def findPlayer_def)
  then show "assignedContext w' pid = assignedContext w pid"
    using assms by (simp add: same_tables_def assignedContext_def lookup_defs cong: option.case_cong)
  show "wf_world w' = wf_world w" using assms by (simp add: same_tables_def wf_world_def)
  show "ownerRoleId w' = ownerRoleId w" using assms by (simp add: same_tables_def ownerRoleId_def)
  then show "owners w' = owners w" using assms by (simp add: same_tables_def owners_def)
qed

text \<open>What authentication yields: an actor within the player's role, and untouched tables.\<close>

definition auth_ok :: "world \<Rightarrow> req_auth \<times> world \<Rightarrow> bool" where
  "auth_ok w res \<longleftrightarrow> same_tables w (snd res) \<and> cache_coherent (snd res)
     \<and> (\<forall>u. ra_user (fst res) = Some u \<longrightarrow> ctx_le (actor_ctx u) (assignedContext w (actor_id u))
          \<and> findPlayer w (actor_id u) \<noteq> None
          \<and> (ra_session (fst res) = None \<longrightarrow> panelAccess (assignedContext w (actor_id u))))"

lemma auth_ok_anonymous: "same_tables w w' \<Longrightarrow> cache_coherent w' \<Longrightarrow> auth_ok w (anonymous, w')"
  by (simp add: auth_ok_def anonymous_def)

lemma coherent_sess [simp]: "cache_coherent (w\<lparr>w_sess := ss\<rparr>) = cache_coherent w"
  using same_tables_facts(2) [of w "w\<lparr>w_sess := ss\<rparr>"] by (simp add: cache_coherent_def same_tables_def)

lemma coherent_token_touch [simp]:
  "cache_coherent (w\<lparr>w_token_touch := t, w_tokens := ts\<rparr>) = cache_coherent w"
  using same_tables_facts(2) [of w "w\<lparr>w_token_touch := t, w_tokens := ts\<rparr>"]
  by (simp add: cache_coherent_def same_tables_def)

lemma authCookie_ok:
  assumes "cache_coherent w"
  shows "auth_ok w (authCookie hash mac cfg now token w)"
proof -
  obtain res ss where res: "resolveSession hash mac now token (w_sess w) = (res, ss)" by fastforce
  let ?w1 = "w\<lparr>w_sess := ss\<rparr>"
  show ?thesis
  proof (cases "res = None \<or> findPlayer ?w1 (s_player (the res)) = None")
    case True
    then show ?thesis
      using assms res
      by (auto simp: authCookie_def auth_ok_def anonymous_def same_tables_def split: option.splits)
  next
    case False
    then obtain s p where s: "res = Some s" "findPlayer ?w1 (s_player s) = Some p" by auto
    obtain ctx w2 where load: "loadUserPermissions now (pl_id p) ?w1 = (ctx, w2)" by fastforce
    obtain m where m: "w2 = ?w1\<lparr>w_cache := m\<rparr>"
      using loadUserPermissions_world [of now "pl_id p" ?w1] load by auto
    have "same_tables w ?w1" "same_tables w w2" using m by (simp_all add: same_tables_def)
    moreover have "cache_coherent w2"
      using loadUserPermissions_coherent [of ?w1 now "pl_id p"] assms load by simp
    moreover have "ctx_le ctx (assignedContext w (pl_id p))"
      using loadUserPermissions_le [OF _ load] assms same_tables_facts(2) [OF \<open>same_tables w ?w1\<close>] by simp
    moreover have "findPlayer w (pl_id p) = Some p"
      using s(2) findPlayer_Some(2) [OF s(2)] by (simp add: findPlayer_def)
    ultimately show ?thesis
      using res s load by (auto simp: authCookie_def auth_ok_def same_tables_def split: prod.split)
  qed
qed

lemma touchApiToken_core:
  "same_tables w (touchApiTokenLastUsed now tid w)"
  "cache_coherent w \<Longrightarrow> cache_coherent (touchApiTokenLastUsed now tid w)"
  by (simp_all add: touchApiTokenLastUsed_def Let_def same_tables_def split: option.split)

lemma authBearer_ok:
  assumes "cache_coherent w"
  shows "auth_ok w (authBearer hashToken now header w)"
proof -
  have anon: "auth_ok w (anonymous, w)" using assms by (simp add: auth_ok_anonymous)
  have "auth_ok w (authBearer hashToken now header w)"
    if b: "extractBearerToken header = Some bearer" "looksLikeApiToken bearer"
      "find_row (\<lambda>t. tk_hash t = hashToken bearer \<and> tk_revoked t = None) (w_tokens w) = Some token"
      "findPlayer w (tk_player token) = Some p" for bearer token p
  proof -
    obtain ctx w1 where load: "loadUserPermissions now (pl_id p) w = (ctx, w1)" by fastforce
    obtain m where m: "w1 = w\<lparr>w_cache := m\<rparr>"
      using loadUserPermissions_world [of now "pl_id p" w] load by auto
    have t: "same_tables w w1" using m by (simp add: same_tables_def)
    have c: "cache_coherent w1" using loadUserPermissions_coherent [OF assms, of now "pl_id p"] load by simp
    have le: "ctx_le ctx (assignedContext w (pl_id p))" by (rule loadUserPermissions_le [OF assms load])
    have "ctx_le (narrowToTokenScopes ctx (tk_scopes token)) (assignedContext w (pl_id p))"
      using narrow_ctx_le le by (rule ctx_le_trans)
    moreover have "same_tables w (touchApiTokenLastUsed now (tk_id token) w1)"
      using t touchApiToken_core(1) [of w1 now "tk_id token"] by (simp add: same_tables_def)
    moreover have "findPlayer w (pl_id p) = Some p" using b(4) findPlayer_Some(2) [OF b(4)] by simp
    ultimately show ?thesis
      using b load t c le touchApiToken_core(2) [OF c, of now "tk_id token"] ctx_le_flags(2) [OF le]
      by (auto simp: authBearer_def auth_ok_def anonymous_def)
  qed
  with anon show ?thesis
    by (cases "extractBearerToken header") (auto simp: authBearer_def split: option.split)
qed

lemma downgrade_user: "ra_user (downgrade route a) = Some u \<Longrightarrow> ra_user a = Some u"
  by (auto simp: downgrade_def split: if_splits)

lemma downgrade_panel:
  assumes "ra_user (downgrade route a) = Some u" and "\<not> rc_selfService route"
  shows "panelAccess (actor_ctx u) \<or> ra_session a = None"
  using assms by (auto simp: downgrade_def split: if_splits)

lemma authHook_ok:
  assumes "cache_coherent w" and "authHook hash mac hashToken cfg now route rq w = (out, w')"
  shows "same_tables w w'" "cache_coherent w'"
    "out = Proceed a \<Longrightarrow> ra_user a = Some u \<Longrightarrow>
       ctx_le (actor_ctx u) (assignedContext w (actor_id u)) \<and> findPlayer w (actor_id u) \<noteq> None
       \<and> (rc_selfService route \<or> panelAccess (assignedContext w (actor_id u)))"
proof -
  define res where "res = (case rq_cookie rq of
      Some (c # cs) \<Rightarrow> authCookie hash mac cfg now (c # cs) w
    | _ \<Rightarrow> authBearer hashToken now (rq_authorization rq) w)"
  have ok: "auth_ok w res"
    unfolding res_def using authCookie_ok [OF assms(1)] authBearer_ok [OF assms(1)]
    by (simp split: option.split list.split)
  have out: "out = authorize route (downgrade route (fst res))" "w' = snd res"
    using assms(2) unfolding authHook_def res_def [symmetric] by (auto split: prod.splits)
  show "same_tables w w'" "cache_coherent w'" using ok out(2) by (simp_all add: auth_ok_def)
  assume a: "out = Proceed a" "ra_user a = Some u"
  then have "a = downgrade route (fst res)"
    using out(1) by (auto simp: authorize_def split: if_splits option.splits)
  then have u: "ra_user (downgrade route (fst res)) = Some u" using a(2) by simp
  have le: "ctx_le (actor_ctx u) (assignedContext w (actor_id u))"
    using ok downgrade_user [OF u] by (simp add: auth_ok_def)
  then show "ctx_le (actor_ctx u) (assignedContext w (actor_id u)) \<and> findPlayer w (actor_id u) \<noteq> None
      \<and> (rc_selfService route \<or> panelAccess (assignedContext w (actor_id u)))"
    using ok downgrade_user [OF u] downgrade_panel [OF u] ctx_le_flags(2) [OF le]
    by (cases "rc_selfService route") (auto simp: auth_ok_def)
qed

lemma authorize_Proceed:
  assumes "authorize route a = Proceed a'" and "\<not> rc_public route"
  obtains u where "a' = a" "ra_user a = Some u" "set (rc_permissions route) \<subseteq> set (permissions (actor_ctx u))"
    "\<forall>flag \<in> set (rc_roleFlags route). flagOf (actor_ctx u) flag"
  using assms by (auto simp: authorize_def find_row_None split: option.splits)

lemma authHook_Proceed:
  assumes "authHook hash mac hashToken cfg now route rq w = (Proceed a, w')" and "\<not> rc_public route"
  obtains u where "ra_user a = Some u" "set (rc_permissions route) \<subseteq> set (permissions (actor_ctx u))"
    "\<forall>flag \<in> set (rc_roleFlags route). flagOf (actor_ctx u) flag"
  using assms by (auto simp: authHook_def split: prod.splits elim!: authorize_Proceed)

lemma flagOf_mono:
  assumes "ctx_le t c" and "flagOf t flag"
  shows "flagOf c flag"
proof -
  obtain f where f: "map_of ROLE_FLAGS flag = Some f" "f t"
    using assms(2) by (auto simp: flagOf_def split: option.splits)
  have "(flag, f) \<in> set ROLE_FLAGS" using f(1) by (rule map_of_SomeD)
  then have "f c"
    using assms(1) f(2) unfolding ctx_le_def ROLE_FLAGS_def HIERARCHY_FLAGS_def
    by (elim list_ex_elim) simp_all
  then show ?thesis using f(1) by (simp add: flagOf_def)
qed

section \<open>Properties\<close>

text \<open>
  C4: The route gate is sound and fails closed.  On a route that is not public, the hook lets a request
  proceed only on behalf of an existing player whose assigned role grants every permission and every
  role flag the route requires, and grants panel access unless the route is self-service; this holds
  for cookie sessions and API tokens, with permissions read through the cache.
\<close>

theorem auth_gate_sound:
  assumes "cache_coherent w" and "\<not> rc_public route"
    and "authHook hash mac hashToken cfg now route rq w = (Proceed a, w')"
  shows "\<exists>u. ra_user a = Some u \<and> findPlayer w (actor_id u) \<noteq> None
    \<and> set (rc_permissions route) \<subseteq> set (permissions (assignedContext w (actor_id u)))
    \<and> (\<forall>flag \<in> set (rc_roleFlags route). flagOf (assignedContext w (actor_id u)) flag)
    \<and> (rc_selfService route \<or> panelAccess (assignedContext w (actor_id u)))"
proof -
  obtain u where u: "ra_user a = Some u" "set (rc_permissions route) \<subseteq> set (permissions (actor_ctx u))"
    "\<forall>flag \<in> set (rc_roleFlags route). flagOf (actor_ctx u) flag"
    using authHook_Proceed [OF assms(3,2)] by blast
  have "ctx_le (actor_ctx u) (assignedContext w (actor_id u))" "findPlayer w (actor_id u) \<noteq> None"
    "rc_selfService route \<or> panelAccess (assignedContext w (actor_id u))"
    using authHook_ok(3) [OF assms(1,3) _ u(1)] by auto
  then show ?thesis using u ctx_le_permissions flagOf_mono by (intro exI [of _ u]) blast
qed

section \<open>A concrete panel\<close>

text \<open>Three roles, three players, a cookie session of \<open>alice\<close> and an API token of \<open>bob\<close>.\<close>

definition demoRole :: "string \<Rightarrow> string \<Rightarrow> bool \<Rightarrow> role_row" where
  "demoRole rid name system = \<lparr>role_id = rid, role_name = name, color = ''red'', description = None,
     is_system_role = system, panel_access = True, can_view_ips = False, can_assign_roles = True,
     can_edit_roles = False, can_manage_issues = False, can_manage_ban_sources = False,
     can_manage_integrations = False, can_manage_clans = False, can_manage_economy = False,
     can_manage_media = False, can_handle_reports = False, can_manage_infrastructure = False,
     combat_view = False\<rparr>"

definition demoPlayer :: "string \<Rightarrow> nat \<Rightarrow> string option \<Rightarrow> player_row" where
  "demoPlayer pid steam rid = \<lparr>pl_id = pid, pl_steam = Some steam, pl_role = rid, pl_expires = None,
     pl_comment = None\<rparr>"

definition demoWorld :: world where
  "demoWorld = \<lparr>w_roles = [demoRole ''r1'' ''Owner'' True, demoRole ''r2'' ''Mod'' False,
       (demoRole ''r3'' ''Guest'' False)\<lparr>can_assign_roles := False\<rparr>],
     w_squad = [(''r2'', ''kick'')], w_perms = [],
     w_players = [demoPlayer ''carol'' 1 (Some ''r1''), demoPlayer ''alice'' 2 (Some ''r2''),
       demoPlayer ''bob'' 3 None],
     w_vip = [], w_sess = demoStore, w_tokens = [], w_token_touch = [], w_servers = [''s1''],
     w_outbox = [], w_discord = [], w_cache = [], w_owner_claimed = True\<rparr>"

definition demoRequest :: request where
  "demoRequest = \<lparr>rq_cookie = Some ''t'', rq_authorization = None\<rparr>"

definition demoRoute :: route_config where
  "demoRoute = \<lparr>rc_public = False, rc_selfService = False, rc_permissions = [''user:manage_roles''],
     rc_roleFlags = [''canAssignRoles'']\<rparr>"

definition demoAuthConfig :: auth_config where
  "demoAuthConfig = \<lparr>ac_ttl = 3600, ac_throttle = 60\<rparr>"

definition demoOutcome :: "auth_outcome \<times> world" where
  "demoOutcome = authHook demoHash demoMac demoHash demoAuthConfig 7 demoRoute demoRequest demoWorld"

lemma demoWorld_coherent: "cache_coherent demoWorld"
  by (simp add: demoWorld_def cache_coherent_def)

lemma demoOutcome_proceeds:
  "(case fst demoOutcome of Proceed a \<Rightarrow> map_option actor_id (ra_user a) = Some ''alice'' | _ \<Rightarrow> False)"
  by code_simp

theorem auth_gate_sound_witness:
  "(case fst demoOutcome of Proceed a \<Rightarrow> map_option actor_id (ra_user a) = Some ''alice'' | _ \<Rightarrow> False)
   \<and> ''user:manage_roles'' \<in> set (permissions (assignedContext demoWorld ''alice''))
   \<and> panelAccess (assignedContext demoWorld ''alice'')"
proof -
  obtain a where a: "fst demoOutcome = Proceed a" "map_option actor_id (ra_user a) = Some ''alice''"
    using demoOutcome_proceeds by (auto split: auth_outcome.splits)
  then have out: "demoOutcome = (Proceed a, snd demoOutcome)" by (metis prod.collapse)
  from a show ?thesis
    using auth_gate_sound [OF demoWorld_coherent _ out [unfolded demoOutcome_def]]
    by (auto simp: demoRoute_def)
qed

end
