(* ===== verification/Admins_Config.thy ===== *)
theory Admins_Config
  imports Strings "HOL-Library.List_Lexorder"
begin

text \<open>
  The managed segment of the game server's \<^verbatim>\<open>Admins.cfg\<close>:
  \<^verbatim>\<open>packages/shared-config/src/admins-config.ts\<close>.  \<open>buildManagedSegmentBody\<close> renders the panel's
  roles and admins between two marker lines, \<open>findManagedSegment\<close> locates the segment in a file and
  \<open>spliceManagedSegment\<close> replaces it.  \<^verbatim>\<open>localeCompare\<close> is the parameter \<open>lc\<close>: its order depends on
  the locale data of the host.
\<close>

section \<open>Markers and entries\<close>

definition BEGIN_MARKER :: jstr where "BEGIN_MARKER = lit ''//SQUAD-PANEL BEGIN''"
definition END_MARKER :: jstr where "END_MARKER = lit ''//SQUAD-PANEL END''"

definition BEGIN_LINE :: jstr where
  "BEGIN_LINE = BEGIN_MARKER @ [32, 8212, 32, 1085, 1077, 32, 1088, 1077, 1076, 1072, 1082, 1090, 1080,
     1088, 1086, 1074, 1072, 1090, 1100, 32, 1074, 1088, 1091, 1095, 1085, 1091, 1102]"

definition SEGMENT_NEWLINE :: jstr where "SEGMENT_NEWLINE = [13, 10]"

record role_entry =
  re_name :: jstr
  re_perms :: "jstr list"

record admin_entry =
  ad_eos :: jstr
  ad_role :: jstr
  ad_comment :: "jstr option"

record clan_priority_entry =
  cp_eos :: jstr
  cp_clan :: jstr

record segment_inputs =
  si_roles :: "role_entry list"
  si_admins :: "admin_entry list"
  si_clan :: "clan_priority_entry list option"

definition CLAN_PRIORITY_GROUP_NAME :: jstr where "CLAN_PRIORITY_GROUP_NAME = lit ''ClanPriority''"
definition CLAN_PRIORITY_PERMISSION :: jstr where "CLAN_PRIORITY_PERMISSION = lit ''reserve''"

section \<open>Text that may enter the file\<close>

definition lineBreaking :: "nat \<Rightarrow> bool" where
  "lineBreaking c \<longleftrightarrow> c < 32 \<or> 127 \<le> c \<and> c \<le> 159 \<or> c = 0x2028 \<or> c = 0x2029"

definition roleNameSyntax :: "nat \<Rightarrow> bool" where
  "roleNameSyntax c \<longleftrightarrow> c = 58 \<or> c = 44 \<or> c = 47"

definition isAdminsCfgSafeRoleName :: "jstr \<Rightarrow> bool" where
  "isAdminsCfgSafeRoleName name \<longleftrightarrow>
     jtrim name \<noteq> [] \<and> \<not> list_ex lineBreaking name \<and> \<not> list_ex roleNameSyntax name"

definition isAdminsCfgSingleLineText :: "jstr \<Rightarrow> bool" where
  "isAdminsCfgSingleLineText text \<longleftrightarrow> \<not> list_ex lineBreaking text"

definition toAdminsCfgCommentText :: "jstr \<Rightarrow> jstr" where
  "toAdminsCfgCommentText text =
     jtrim (replaceRuns (\<lambda>c. c = 47) 47 (replaceRuns lineBreaking 32 text))"

section \<open>Building the segment\<close>

record managed_segment =
  seg_body :: jstr
  seg_groups :: nat
  seg_admins :: nat

definition rolesWithPerms :: "(jstr \<Rightarrow> jstr \<Rightarrow> int) \<Rightarrow> segment_inputs \<Rightarrow> role_entry list" where
  "rolesWithPerms lc inp =
     sort_by (\<lambda>a b. lc (re_name a) (re_name b) \<le> 0)
       (map (\<lambda>r. r\<lparr>re_perms := sort (re_perms r)\<rparr>)
         (filter (\<lambda>r. re_perms r \<noteq> [] \<and> isAdminsCfgSafeRoleName (re_name r)) (si_roles inp)))"

definition listedAdmins :: "(jstr \<Rightarrow> jstr \<Rightarrow> int) \<Rightarrow> segment_inputs \<Rightarrow> admin_entry list" where
  "listedAdmins lc inp =
     sort_by (\<lambda>a b. let r = lc (ad_role a) (ad_role b)
                    in if r \<noteq> 0 then r \<le> 0 else lc (ad_eos a) (ad_eos b) \<le> 0)
       (filter (\<lambda>a. ad_role a \<in> set (map re_name (rolesWithPerms lc inp))) (si_admins inp))"

definition clanAdmins :: "(jstr \<Rightarrow> jstr \<Rightarrow> int) \<Rightarrow> segment_inputs \<Rightarrow> clan_priority_entry list" where
  "clanAdmins lc inp = sort_by (\<lambda>a b. lc (cp_eos a) (cp_eos b) \<le> 0) (orElse (si_clan inp) [])"

definition emitClanPriorityGroup :: "(jstr \<Rightarrow> jstr \<Rightarrow> int) \<Rightarrow> segment_inputs \<Rightarrow> bool" where
  "emitClanPriorityGroup lc inp \<longleftrightarrow> orElse (si_clan inp) [] \<noteq> []
     \<and> CLAN_PRIORITY_GROUP_NAME \<notin> set (map re_name (rolesWithPerms lc inp))"

definition groupLine :: "role_entry \<Rightarrow> jstr" where
  "groupLine r = lit ''Group='' @ re_name r @ lit '':'' @ join_with (lit '','') (re_perms r)"

definition adminLine :: "admin_entry \<Rightarrow> jstr" where
  "adminLine a =
     (let base = lit ''Admin='' @ ad_eos a @ lit '':'' @ ad_role a;
          comment = (case ad_comment a of None \<Rightarrow> [] | Some c \<Rightarrow> if c = [] then [] else toAdminsCfgCommentText c)
      in if comment \<noteq> [] then base @ lit '' // '' @ comment else base)"

definition clanLine :: "clan_priority_entry \<Rightarrow> jstr" where
  "clanLine e = lit ''Admin='' @ cp_eos e @ lit '':'' @ CLAN_PRIORITY_GROUP_NAME @ lit '' // clan:''
     @ toAdminsCfgCommentText (cp_clan e)"

definition segmentLines :: "(jstr \<Rightarrow> jstr \<Rightarrow> int) \<Rightarrow> segment_inputs \<Rightarrow> jstr list" where
  "segmentLines lc inp =
     (let totalGroups = length (rolesWithPerms lc inp) + (if emitClanPriorityGroup lc inp then 1 else 0);
          totalAdmins = length (listedAdmins lc inp) + length (clanAdmins lc inp)
      in [BEGIN_LINE]
         @ map groupLine (rolesWithPerms lc inp)
         @ (if emitClanPriorityGroup lc inp
            then [lit ''Group='' @ CLAN_PRIORITY_GROUP_NAME @ lit '':'' @ CLAN_PRIORITY_PERMISSION] else [])
         @ (if totalGroups > 0 \<and> totalAdmins > 0 then [[]] else [])
         @ map adminLine (listedAdmins lc inp)
         @ map clanLine (clanAdmins lc inp)
         @ [END_MARKER])"

definition buildManagedSegmentBody :: "(jstr \<Rightarrow> jstr \<Rightarrow> int) \<Rightarrow> segment_inputs \<Rightarrow> managed_segment" where
  "buildManagedSegmentBody lc inp =
     \<lparr>seg_body = join_with SEGMENT_NEWLINE (segmentLines lc inp),
      seg_groups = length (rolesWithPerms lc inp) + (if emitClanPriorityGroup lc inp then 1 else 0),
      seg_admins = length (listedAdmins lc inp) + length (clanAdmins lc inp)\<rparr>"

section \<open>Locating and splicing\<close>

record located =
  loc_segment :: jstr
  loc_start :: nat
  loc_end :: nat

definition findManagedSegment :: "jstr \<Rightarrow> located option" where
  "findManagedSegment content =
     (case find_sub BEGIN_MARKER content of
        None \<Rightarrow> None
      | Some b \<Rightarrow>
          (let e = (case find_sub END_MARKER (drop b content) of
                      None \<Rightarrow> length content
                    | Some k \<Rightarrow> b + k + length END_MARKER)
           in Some \<lparr>loc_segment = take (e - b) (drop b content), loc_start = b, loc_end = e\<rparr>))"

definition spliceManagedSegment :: "jstr \<Rightarrow> jstr \<Rightarrow> jstr" where
  "spliceManagedSegment content body =
     (case findManagedSegment content of
        Some l \<Rightarrow> take (loc_start l) content @ body @ drop (loc_end l) content
      | None \<Rightarrow>
          if content = [] then body @ SEGMENT_NEWLINE
          else body @ SEGMENT_NEWLINE @ SEGMENT_NEWLINE @ content)"

section \<open>Lines of the segment\<close>

text \<open>Account ids and permission keys as the database holds them: no control character, no slash.\<close>

definition cleanText :: "jstr \<Rightarrow> bool" where
  "cleanText s \<longleftrightarrow> \<not> list_ex lineBreaking s \<and> 47 \<notin> set s"

definition cleanInputs :: "segment_inputs \<Rightarrow> bool" where
  "cleanInputs inp \<longleftrightarrow> list_all (\<lambda>r. list_all cleanText (re_perms r)) (si_roles inp)
     \<and> list_all (\<lambda>a. cleanText (ad_eos a)) (si_admins inp)
     \<and> list_all (\<lambda>e. cleanText (cp_eos e)) (orElse (si_clan inp) [])"

text \<open>One line of the file, holding no closing marker.\<close>

definition plainLine :: "jstr \<Rightarrow> bool" where
  "plainLine l \<longleftrightarrow> 13 \<notin> set l \<and> 10 \<notin> set l \<and> \<not> sublist END_MARKER l"

lemma END_MARKER_unfold: "END_MARKER = [47, 47, 83, 81, 85, 65, 68, 45, 80, 65, 78, 69, 76, 32, 69, 78, 68]"
  by code_simp

lemma no_slash_no_marker: "47 \<notin> set l \<Longrightarrow> \<not> sublist END_MARKER l"
  using set_mono_sublist [of END_MARKER l] by (auto simp: END_MARKER_unfold)

text \<open>After \<open>//\<close> the line has a blank, and the comment holds no \<open>//\<close>: no marker can form.\<close>

lemma comment_no_marker:
  assumes "47 \<notin> set base" and "\<not> sublist [47, 47] comment"
  shows "\<not> sublist END_MARKER (base @ 47 # 47 # 32 # comment)"
  using assms(1)
proof (induction base)
  case Nil
  have "\<not> sublist END_MARKER comment"
    using assms(2) sublist_order.order.trans [of "[47, 47]" END_MARKER comment]
    by (auto simp: END_MARKER_unfold sublist_Cons_right)
  then show ?case by (auto simp: sublist_Cons_right END_MARKER_unfold)
next
  case (Cons x base)
  then show ?case by (auto simp: sublist_Cons_right END_MARKER_unfold)
qed

lemma sublist_jtrim: "sublist (jtrim s) s"
proof -
  have "sublist (rev (dropWhile js_ws t)) (rev t)" for t
    using suffix_dropWhile [of js_ws t] by (metis suffix_imp_sublist sublist_rev)
  then have "sublist (jtrim s) (dropWhile js_ws s)"
    unfolding jtrim_def by (metis rev_rev_ident)
  then show ?thesis
    using suffix_dropWhile [of js_ws s] by (meson sublist_order.order.trans suffix_imp_sublist)
qed

lemma comment_text_no_double: "\<not> sublist [47, 47] (toAdminsCfgCommentText t)"
proof
  assume "sublist [47, 47] (toAdminsCfgCommentText t)"
  then have "sublist [47, 47] (replaceRuns (\<lambda>c. c = 47) 47 (replaceRuns lineBreaking 32 t))"
    unfolding toAdminsCfgCommentText_def using sublist_jtrim by (rule sublist_order.order.trans)
  then show False using replaceRuns_no_double [of 47 "replaceRuns lineBreaking 32 t"] by contradiction
qed

lemma comment_text_no_break: "c \<in> set (toAdminsCfgCommentText t) \<Longrightarrow> \<not> lineBreaking c"
  unfolding toAdminsCfgCommentText_def
  using set_jtrim set_replaceRuns [of "\<lambda>c. c = 47" 47] set_replaceRuns [of lineBreaking 32 t]
  by (fastforce simp: lineBreaking_def)

lemma clean_no_break: "\<not> list_ex lineBreaking l \<Longrightarrow> 13 \<notin> set l \<and> 10 \<notin> set l"
  by (auto simp: list_ex_iff lineBreaking_def)

lemma comment_text_single: "13 \<notin> set (toAdminsCfgCommentText t) \<and> 10 \<notin> set (toAdminsCfgCommentText t)"
  using comment_text_no_break [of 13 t] comment_text_no_break [of 10 t] by (auto simp: lineBreaking_def)

lemma safe_name:
  assumes "isAdminsCfgSafeRoleName n"
  shows "13 \<notin> set n" "10 \<notin> set n" "47 \<notin> set n"
  using assms clean_no_break [of n]
  by (auto simp: isAdminsCfgSafeRoleName_def list_ex_iff roleNameSyntax_def)

lemma set_join_with: "set (join_with sep ls) \<subseteq> set sep \<union> \<Union> (set ` set ls)"
  by (induction sep ls rule: join_with.induct) auto

lemma join_clean:
  assumes "list_all cleanText ls"
  shows "13 \<notin> set (join_with [44] ls)" "10 \<notin> set (join_with [44] ls)" "47 \<notin> set (join_with [44] ls)"
  using assms set_join_with [of "[44]" ls] clean_no_break
  by (fastforce simp: list_all_iff cleanText_def)+

lemma rolesWithPerms_clean:
  assumes "cleanInputs inp" and "r \<in> set (rolesWithPerms lc inp)"
  shows "isAdminsCfgSafeRoleName (re_name r)" "list_all cleanText (re_perms r)"
  using assms by (auto simp: rolesWithPerms_def cleanInputs_def list_all_iff)

lemma plain_groupLine:
  assumes "cleanInputs inp" and "r \<in> set (rolesWithPerms lc inp)"
  shows "plainLine (groupLine r)"
proof -
  have "13 \<notin> set (groupLine r)" "10 \<notin> set (groupLine r)" "47 \<notin> set (groupLine r)"
    using safe_name [OF rolesWithPerms_clean(1) [OF assms]] join_clean [OF rolesWithPerms_clean(2) [OF assms]]
    by (auto simp: groupLine_def lit_def)
  then show ?thesis by (simp add: plainLine_def no_slash_no_marker)
qed

lemma listedAdmins_clean:
  assumes "cleanInputs inp" and "a \<in> set (listedAdmins lc inp)"
  shows "a \<in> set (si_admins inp)" "cleanText (ad_eos a)" "isAdminsCfgSafeRoleName (ad_role a)"
  using assms rolesWithPerms_clean(1) [OF assms(1)]
  by (auto simp: listedAdmins_def cleanInputs_def list_all_iff)

text \<open>An \<open>Admin=\<close> line is the id and the role, optionally followed by \<open> // \<close> and a flattened comment.\<close>

lemma adminLine_cases:
  obtains "adminLine a = lit ''Admin='' @ ad_eos a @ lit '':'' @ ad_role a"
  | t where "adminLine a = (lit ''Admin='' @ ad_eos a @ lit '':'' @ ad_role a @ [32])
      @ 47 # 47 # 32 # toAdminsCfgCommentText t"
proof (cases "ad_comment a")
  case None
  then show ?thesis using that(1) by (simp add: adminLine_def)
next
  case (Some c)
  show ?thesis
  proof (cases "c = [] \<or> toAdminsCfgCommentText c = []")
    case True
    then show ?thesis using that(1) Some by (auto simp: adminLine_def)
  next
    case False
    then show ?thesis using that(2) [of c] Some by (simp add: adminLine_def lit_def)
  qed
qed

lemma clanLine_eq:
  "clanLine e = (lit ''Admin='' @ cp_eos e @ lit '':'' @ CLAN_PRIORITY_GROUP_NAME @ [32])
     @ 47 # 47 # 32 # lit ''clan:'' @ toAdminsCfgCommentText (cp_clan e)"
  by (simp add: clanLine_def lit_def)

lemma plain_commented:
  assumes "13 \<notin> set base" "10 \<notin> set base" "47 \<notin> set base"
    and "\<not> sublist [47, 47] c" "13 \<notin> set c" "10 \<notin> set c"
  shows "plainLine (base @ 47 # 47 # 32 # c)"
  using assms comment_no_marker [OF assms(3,4)] by (simp add: plainLine_def)

lemma plain_adminLine:
  assumes "cleanInputs inp" and "a \<in> set (listedAdmins lc inp)"
  shows "plainLine (adminLine a)"
proof -
  let ?base = "lit ''Admin='' @ ad_eos a @ lit '':'' @ ad_role a"
  have base: "13 \<notin> set ?base" "10 \<notin> set ?base" "47 \<notin> set ?base"
    using listedAdmins_clean(2) [OF assms] safe_name [OF listedAdmins_clean(3) [OF assms]]
      clean_no_break [of "ad_eos a"]
    by (auto simp: cleanText_def lit_def)
  show ?thesis
  proof (cases rule: adminLine_cases [of a])
    case 1
    then show ?thesis using base no_slash_no_marker by (simp add: plainLine_def)
  next
    case (2 t)
    then show ?thesis
      using base plain_commented [of "?base @ [32]"] comment_text_no_double comment_text_single by simp
  qed
qed

lemma prefixed_no_double: "47 \<notin> set p \<Longrightarrow> \<not> sublist [47, 47] c \<Longrightarrow> \<not> sublist [47, 47] (p @ c)"
  by (induction p) (auto simp: sublist_Cons_right)

lemma plain_clanLine:
  assumes "cleanInputs inp" and "e \<in> set (clanAdmins lc inp)"
  shows "plainLine (clanLine e)"
proof -
  let ?base = "lit ''Admin='' @ cp_eos e @ lit '':'' @ CLAN_PRIORITY_GROUP_NAME @ [32]"
  have "cleanText (cp_eos e)"
    using assms by (auto simp: clanAdmins_def cleanInputs_def list_all_iff)
  then have "13 \<notin> set ?base" "10 \<notin> set ?base" "47 \<notin> set ?base"
    using clean_no_break [of "cp_eos e"] by (auto simp: cleanText_def lit_def CLAN_PRIORITY_GROUP_NAME_def)
  moreover have "\<not> sublist [47, 47] (lit ''clan:'' @ toAdminsCfgCommentText (cp_clan e))"
    by (intro prefixed_no_double comment_text_no_double) (simp add: lit_def)
  moreover have "13 \<notin> set (lit ''clan:'' @ toAdminsCfgCommentText (cp_clan e))"
      "10 \<notin> set (lit ''clan:'' @ toAdminsCfgCommentText (cp_clan e))"
    using comment_text_single by (auto simp: lit_def)
  ultimately show ?thesis unfolding clanLine_eq by (rule plain_commented)
qed

lemma plain_fixed:
  "plainLine BEGIN_LINE" "plainLine []"
  "plainLine (lit ''Group='' @ CLAN_PRIORITY_GROUP_NAME @ lit '':'' @ CLAN_PRIORITY_PERMISSION)"
proof -
  have "find_sub END_MARKER BEGIN_LINE = None" "13 \<notin> set BEGIN_LINE" "10 \<notin> set BEGIN_LINE"
    by (simp_all add: BEGIN_LINE_def BEGIN_MARKER_def END_MARKER_unfold lit_def)
  then show "plainLine BEGIN_LINE" by (simp add: plainLine_def find_sub_None)
  show "plainLine []" by (simp add: plainLine_def END_MARKER_unfold)
  show "plainLine (lit ''Group='' @ CLAN_PRIORITY_GROUP_NAME @ lit '':'' @ CLAN_PRIORITY_PERMISSION)"
    unfolding plainLine_def using no_slash_no_marker
    by (simp add: lit_def CLAN_PRIORITY_GROUP_NAME_def CLAN_PRIORITY_PERMISSION_def)
qed

text \<open>All lines but the last are plain, and the last is the closing marker.\<close>

lemma segmentLines_plain:
  assumes "cleanInputs inp"
  obtains ls where "segmentLines lc inp = BEGIN_LINE # ls @ [END_MARKER]" "\<forall>l \<in> set ls. plainLine l"
proof -
  let ?mid = "map groupLine (rolesWithPerms lc inp)
     @ (if emitClanPriorityGroup lc inp
        then [lit ''Group='' @ CLAN_PRIORITY_GROUP_NAME @ lit '':'' @ CLAN_PRIORITY_PERMISSION] else [])
     @ (if length (rolesWithPerms lc inp) + (if emitClanPriorityGroup lc inp then 1 else 0) > 0
           \<and> length (listedAdmins lc inp) + length (clanAdmins lc inp) > 0 then [[]] else [])
     @ map adminLine (listedAdmins lc inp) @ map clanLine (clanAdmins lc inp)"
  have "segmentLines lc inp = BEGIN_LINE # ?mid @ [END_MARKER]"
    by (simp add: segmentLines_def Let_def)
  moreover have "\<forall>l \<in> set ?mid. plainLine l"
    using plain_groupLine [OF assms] plain_adminLine [OF assms] plain_clanLine [OF assms] plain_fixed
    by (auto split: if_splits)
  ultimately show ?thesis by (rule that)
qed

section \<open>Sealed segments\<close>

text \<open>A body that opens with the begin marker and whose first end marker is its last characters.\<close>

definition sealed :: "jstr \<Rightarrow> bool" where
  "sealed b \<longleftrightarrow> prefix BEGIN_MARKER b \<and> length END_MARKER \<le> length b
     \<and> find_sub END_MARKER b = Some (length b - length END_MARKER)"

lemma find_END_join:
  assumes "\<forall>l \<in> set ls. plainLine l"
  shows "find_sub END_MARKER (join_with [13, 10] (ls @ [END_MARKER]))
    = Some (length (join_with [13, 10] (ls @ [END_MARKER])) - length END_MARKER)
    \<and> length END_MARKER \<le> length (join_with [13, 10] (ls @ [END_MARKER]))"
  using assms
proof (induction ls)
  case Nil
  have "find_sub END_MARKER END_MARKER = Some 0" by (simp add: find_sub_Some)
  then show ?case by simp
next
  case (Cons l ls)
  let ?rest = "join_with [13, 10] (ls @ [END_MARKER])"
  have rest: "find_sub END_MARKER ?rest = Some (length ?rest - length END_MARKER)"
      "length END_MARKER \<le> length ?rest"
    using Cons by auto
  have join: "join_with [13, 10] ((l # ls) @ [END_MARKER]) = l @ 13 # 10 # ?rest"
    by (cases ls) simp_all
  have sep: "END_MARKER \<noteq> []" "13 \<notin> set END_MARKER" "10 \<notin> set END_MARKER" "\<not> sublist END_MARKER []"
    by (simp_all add: END_MARKER_unfold)
  have "find_sub END_MARKER (l @ 13 # 10 # ?rest) = Some (length l + 2 + (length ?rest - length END_MARKER))"
    using find_sub_after_sep [OF sep(1,2), of l "10 # ?rest"] find_sub_after_sep [OF sep(1,3,4), of ?rest]
      Cons.prems rest by (simp add: plainLine_def)
  then show ?case using rest unfolding join by simp
qed

lemma prefix_append_intro: "prefix p a \<Longrightarrow> prefix p (a @ b)"
  by (auto simp: prefix_def)

lemma sealed_body:
  assumes "cleanInputs inp"
  shows "sealed (seg_body (buildManagedSegmentBody lc inp))"
proof -
  obtain ls where ls: "segmentLines lc inp = BEGIN_LINE # ls @ [END_MARKER]" "\<forall>l \<in> set ls. plainLine l"
    using segmentLines_plain [OF assms] by blast
  let ?b = "join_with [13, 10] ((BEGIN_LINE # ls) @ [END_MARKER])"
  have "?b = BEGIN_LINE @ [13, 10] @ join_with [13, 10] (ls @ [END_MARKER])"
    by (cases ls) simp_all
  then have "prefix BEGIN_MARKER ?b" by (simp add: BEGIN_LINE_def)
  then have "sealed ?b"
    using find_END_join [of "BEGIN_LINE # ls"] ls(2) plain_fixed(1) by (simp add: sealed_def)
  then show ?thesis using ls(1) by (simp add: buildManagedSegmentBody_def SEGMENT_NEWLINE_def)
qed

lemma prefix_iff_take: "prefix p x \<longleftrightarrow> take (length p) x = p"
  by (metis append_eq_conv_conj prefix_def take_is_prefix)

lemma prefix_drop_append:
  "j + length p \<le> length s \<Longrightarrow> prefix p (drop j (s @ t)) \<longleftrightarrow> prefix p (drop j s)"
  by (simp add: prefix_iff_take)

lemma find_sub_append:
  assumes "find_sub pat s = Some i"
  shows "find_sub pat (s @ t) = Some i"
proof -
  have i: "i \<le> length s" "prefix pat (drop i s)" "\<forall>j < i. \<not> prefix pat (drop j s)"
    using assms by (auto simp: find_sub_Some)
  then have len: "i + length pat \<le> length s" using prefix_length_le [OF i(2)] by simp
  have "\<not> prefix pat (drop j (s @ t))" if "j < i" for j
    using that i(3) len prefix_drop_append [of j pat s t] by auto
  then show ?thesis using i by (auto simp: find_sub_Some intro: prefix_append_intro)
qed

text \<open>Replacing what follows a first occurrence keeps it the first occurrence.\<close>

lemma find_sub_replace:
  assumes "find_sub pat s = Some i" and "prefix pat t"
  shows "find_sub pat (take i s @ t) = Some i"
proof -
  obtain s' t' where s': "drop i s = pat @ s'" and t': "t = pat @ t'"
    using assms by (auto simp: find_sub_Some prefix_def)
  have i: "i \<le> length s" "\<forall>j < i. \<not> prefix pat (drop j s)"
    using assms(1) by (auto simp: find_sub_Some)
  have "\<not> prefix pat (drop j ((take i s @ pat) @ t'))" if "j < i" for j
  proof -
    have "prefix pat (drop j ((take i s @ pat) @ t')) \<longleftrightarrow> prefix pat (drop j ((take i s @ pat) @ s'))"
      using that i(1) by (simp only: prefix_drop_append length_append length_take)
    also have "(take i s @ pat) @ s' = s" using s' append_take_drop_id [of i s] by simp
    finally show ?thesis using i(2) that by simp
  qed
  then show ?thesis using i t' by (auto simp: find_sub_Some)
qed

lemma findManagedSegment_sealed:
  assumes "find_sub BEGIN_MARKER (pre @ b @ post) = Some (length pre)" and "sealed b"
  shows "findManagedSegment (pre @ b @ post)
    = Some \<lparr>loc_segment = b, loc_start = length pre, loc_end = length pre + length b\<rparr>"
  using assms find_sub_append [of END_MARKER b _ post]
  by (simp add: findManagedSegment_def sealed_def)

text \<open>Where a segment goes: what stays in front of it and behind it.\<close>

definition splicePoint :: "jstr \<Rightarrow> jstr \<times> jstr" where
  "splicePoint content =
     (case findManagedSegment content of
        Some l \<Rightarrow> (take (loc_start l) content, drop (loc_end l) content)
      | None \<Rightarrow> ([], if content = [] then SEGMENT_NEWLINE else SEGMENT_NEWLINE @ SEGMENT_NEWLINE @ content))"

lemma splice_eq: "spliceManagedSegment content b = fst (splicePoint content) @ b @ snd (splicePoint content)"
  by (auto simp: spliceManagedSegment_def splicePoint_def split: option.split)

lemma find_BEGIN_splice:
  assumes "prefix BEGIN_MARKER b"
  shows "find_sub BEGIN_MARKER (fst (splicePoint content) @ b @ snd (splicePoint content))
    = Some (length (fst (splicePoint content)))"
proof (cases "findManagedSegment content")
  case None
  then show ?thesis using assms by (simp add: splicePoint_def find_sub_Some prefix_append_intro)
next
  case (Some l)
  then have "find_sub BEGIN_MARKER content = Some (loc_start l)"
    by (auto simp: findManagedSegment_def Let_def split: option.splits)
  moreover from this have "loc_start l \<le> length content" by (auto simp: find_sub_Some)
  ultimately show ?thesis
    using find_sub_replace [of BEGIN_MARKER content _ "b @ snd (splicePoint content)"] assms Some
    by (simp add: splicePoint_def prefix_append_intro)
qed

lemma splice_twice:
  assumes "sealed b"
  shows "findManagedSegment (spliceManagedSegment content b)
      = Some \<lparr>loc_segment = b, loc_start = length (fst (splicePoint content)),
              loc_end = length (fst (splicePoint content)) + length b\<rparr>"
    and "spliceManagedSegment (spliceManagedSegment content b) b' = spliceManagedSegment content b'"
proof -
  show loc: "findManagedSegment (spliceManagedSegment content b)
      = Some \<lparr>loc_segment = b, loc_start = length (fst (splicePoint content)),
              loc_end = length (fst (splicePoint content)) + length b\<rparr>"
    unfolding splice_eq using assms find_BEGIN_splice [of b content]
    by (intro findManagedSegment_sealed) (auto simp: sealed_def)
  show "spliceManagedSegment (spliceManagedSegment content b) b' = spliceManagedSegment content b'"
    unfolding spliceManagedSegment_def [of "spliceManagedSegment content b"] loc
    by (simp add: splice_eq)
qed

section \<open>Reading the segment back\<close>

text \<open>The lines of a file, with \<open>\r\<close> dropped.\<close>

definition fileLines :: "jstr \<Rightarrow> jstr list" where
  "fileLines content = split_on 10 (filter (\<lambda>c. c \<noteq> 13) content)"

lemma filter_join:
  "\<forall>l \<in> set (ls :: jstr list). 13 \<notin> set l \<Longrightarrow>
     filter (\<lambda>c. c \<noteq> 13) (join_with [13, 10] ls) = join_with [10] ls"
proof (induction "[13, 10] :: nat list" ls rule: join_with.induct)
  case (2 x)
  then show ?case by (auto simp: filter_id_conv)
next
  case (3 x y ys)
  then have "filter (\<lambda>c. c \<noteq> 13) x = x" by (auto simp: filter_id_conv)
  then show ?case using 3 by simp
qed simp

lemma fileLines_body:
  assumes "cleanInputs inp"
  shows "fileLines (seg_body (buildManagedSegmentBody lc inp)) = segmentLines lc inp"
proof -
  obtain ls where ls: "segmentLines lc inp = BEGIN_LINE # ls @ [END_MARKER]" "\<forall>l \<in> set ls. plainLine l"
    using segmentLines_plain [OF assms] by blast
  then have "\<forall>l \<in> set (segmentLines lc inp). 13 \<notin> set l \<and> 10 \<notin> set l"
    using plain_fixed(1) by (auto simp: plainLine_def END_MARKER_unfold)
  then have "split_on 10 (filter (\<lambda>c. c \<noteq> 13) (join_with [13, 10] (segmentLines lc inp))) = segmentLines lc inp"
    using filter_join [of "segmentLines lc inp"] split_join [of "segmentLines lc inp" 10] ls(1) by simp
  then show ?thesis by (simp add: fileLines_def buildManagedSegmentBody_def SEGMENT_NEWLINE_def)
qed

definition isAdminLine :: "jstr \<Rightarrow> bool" where
  "isAdminLine l \<longleftrightarrow> take 6 l = lit ''Admin=''"

definition isGroupLine :: "jstr \<Rightarrow> bool" where
  "isGroupLine l \<longleftrightarrow> take 6 l = lit ''Group=''"

lemma line_kinds [simp]:
  "isAdminLine (adminLine a)" "isAdminLine (clanLine e)" "\<not> isAdminLine (groupLine r)"
  "\<not> isGroupLine (adminLine a)" "\<not> isGroupLine (clanLine e)" "isGroupLine (groupLine r)"
  "\<not> isAdminLine BEGIN_LINE" "\<not> isGroupLine BEGIN_LINE" "\<not> isAdminLine END_MARKER"
  "\<not> isGroupLine END_MARKER" "\<not> isAdminLine []" "\<not> isGroupLine []"
  by (cases rule: adminLine_cases [of a];
      simp add: isAdminLine_def isGroupLine_def clanLine_def groupLine_def lit_def BEGIN_LINE_def
        BEGIN_MARKER_def END_MARKER_def)+

lemma filter_all_none:
  "(\<And>x. x \<in> set xs \<Longrightarrow> p x) \<Longrightarrow> filter p xs = xs" "(\<And>x. x \<in> set xs \<Longrightarrow> \<not> p x) \<Longrightarrow> filter p xs = []"
  by (auto simp: filter_id_conv filter_empty_conv)

lemma adminLines_segment:
  "filter isAdminLine (segmentLines lc inp)
     = map adminLine (listedAdmins lc inp) @ map clanLine (clanAdmins lc inp)"
  by (simp add: segmentLines_def Let_def filter_map comp_def filter_all_none isAdminLine_def [of "lit _ @ _"])
    (simp add: isAdminLine_def lit_def)

lemma groupLines_segment:
  "length (filter isGroupLine (segmentLines lc inp)) = seg_groups (buildManagedSegmentBody lc inp)"
  by (simp add: segmentLines_def Let_def filter_map comp_def buildManagedSegmentBody_def)
    (simp add: isGroupLine_def lit_def)

section \<open>Properties\<close>

text \<open>
  C5: No injection through names and comments.  Whatever the role names, comments and clan names are,
  reading the rendered segment line by line gives exactly as many \<open>Admin=\<close> and \<open>Group=\<close> lines as the
  generator reports, and every \<open>Admin=\<close> line is the line of an admin of the input whose role name is
  safe, or of a clan-priority entry, for account ids without control characters or slashes.
\<close>

theorem segment_grants_only_listed:
  assumes "cleanInputs inp"
  shows "length (filter isAdminLine (fileLines (seg_body (buildManagedSegmentBody lc inp))))
           = seg_admins (buildManagedSegmentBody lc inp)
    \<and> length (filter isGroupLine (fileLines (seg_body (buildManagedSegmentBody lc inp))))
           = seg_groups (buildManagedSegmentBody lc inp)
    \<and> (\<forall>l \<in> set (fileLines (seg_body (buildManagedSegmentBody lc inp))). isAdminLine l \<longrightarrow>
         (\<exists>a \<in> set (si_admins inp). isAdminsCfgSafeRoleName (ad_role a) \<and> l = adminLine a)
         \<or> (\<exists>e \<in> set (orElse (si_clan inp) []). l = clanLine e))"
proof -
  have "l \<in> set (map adminLine (listedAdmins lc inp) @ map clanLine (clanAdmins lc inp))"
    if "l \<in> set (segmentLines lc inp)" "isAdminLine l" for l
    unfolding adminLines_segment [symmetric] using that by simp
  then have "(\<exists>a \<in> set (si_admins inp). isAdminsCfgSafeRoleName (ad_role a) \<and> l = adminLine a)
      \<or> (\<exists>e \<in> set (orElse (si_clan inp) []). l = clanLine e)"
    if "l \<in> set (segmentLines lc inp)" "isAdminLine l" for l
    using that listedAdmins_clean [OF assms] by (fastforce simp: clanAdmins_def)
  then show ?thesis
    unfolding fileLines_body [OF assms] adminLines_segment groupLines_segment
    by (simp add: buildManagedSegmentBody_def)
qed

definition demoCompare :: "jstr \<Rightarrow> jstr \<Rightarrow> int" where
  "demoCompare a b = (if a = b then 0 else if a < b then -1 else 1)"

text \<open>A comment that tries to close the segment and to add an admin of its own.\<close>

definition demoInputs :: segment_inputs where
  "demoInputs = \<lparr>si_roles = [\<lparr>re_name = lit ''Mod'', re_perms = [lit ''kick'', lit ''ban'']\<rparr>],
     si_admins = [\<lparr>ad_eos = lit ''0002'', ad_role = lit ''Mod'',
       ad_comment = Some (lit ''x'' @ [10] @ lit ''//SQUAD-PANEL END'' @ [13, 10] @ lit ''Admin=1:Mod'')\<rparr>],
     si_clan = None\<rparr>"

lemma demoInputs_clean: "cleanInputs demoInputs"
  by (simp add: demoInputs_def cleanInputs_def cleanText_def lineBreaking_def lit_def)

lemma demoInputs_counts:
  "seg_admins (buildManagedSegmentBody demoCompare demoInputs) = 1"
  "seg_groups (buildManagedSegmentBody demoCompare demoInputs) = 1"
  by (simp_all add: demoInputs_def buildManagedSegmentBody_def rolesWithPerms_def listedAdmins_def
      clanAdmins_def emitClanPriorityGroup_def isAdminsCfgSafeRoleName_def jtrim_def js_ws_def
      lineBreaking_def roleNameSyntax_def lit_def sort_by_def)

theorem segment_grants_only_listed_witness:
  "cleanInputs demoInputs
   \<and> length (filter isAdminLine (fileLines (seg_body (buildManagedSegmentBody demoCompare demoInputs)))) = 1
   \<and> length (filter isGroupLine (fileLines (seg_body (buildManagedSegmentBody demoCompare demoInputs)))) = 1"
  using segment_grants_only_listed [OF demoInputs_clean, of demoCompare] demoInputs_clean demoInputs_counts
  by simp

text \<open>
  C6: The segment can always be found again, and the last write wins.  After splicing a rendered
  segment into any file content, with or without an earlier or a truncated segment, the locator finds
  exactly that segment, and splicing any other body into the result gives what splicing it into the
  original content gives: repeated syncs neither accumulate segments nor touch the text around them.
\<close>

theorem splice_last_write_wins:
  assumes "cleanInputs inp"
  shows "map_option loc_segment
      (findManagedSegment (spliceManagedSegment content (seg_body (buildManagedSegmentBody lc inp))))
        = Some (seg_body (buildManagedSegmentBody lc inp))
    \<and> spliceManagedSegment (spliceManagedSegment content (seg_body (buildManagedSegmentBody lc inp))) b'
        = spliceManagedSegment content b'"
  using splice_twice [OF sealed_body [OF assms], of content lc]
    splice_twice(2) [OF sealed_body [OF assms], of content lc b'] by simp

theorem splice_last_write_wins_witness:
  "cleanInputs demoInputs
   \<and> map_option loc_segment (findManagedSegment (spliceManagedSegment (lit ''Admin=9:Mod'')
        (seg_body (buildManagedSegmentBody demoCompare demoInputs))))
      = Some (seg_body (buildManagedSegmentBody demoCompare demoInputs))"
  using splice_last_write_wins [OF demoInputs_clean, of "lit ''Admin=9:Mod''" demoCompare] demoInputs_clean
  by blast

end
