(* ===== verification/Role_Routes.thy ===== *)
theory Role_Routes
  imports Api_Auth Admins_Config
begin

text \<open>
  The routes that create, edit and delete roles and move players between them:
  \<^verbatim>\<open>apps/api/src/routes/roles.ts\<close>, \<^verbatim>\<open>routes/role-members/{members,bulk,import-export}.ts\<close> and the
  role assignment of \<^verbatim>\<open>routes/players.ts\<close>.  Each handler takes the authenticated caller, the parsed
  request and the state, and returns the reply and the new state; its guards are in the code's order.
  A transaction whose \<open>UPDATE players\<close> trips the last-Owner trigger leaves the state unchanged and
  answers 409.  Audit snapshots and log lines are left out.
\<close>

section \<open>Replies and request bodies\<close>

datatype reply =
    Failed (status: nat) (error_code: string) "string list"
  | ImportRejected "(nat \<times> string \<times> string) list"
  | Done nat "nat option"

definition refused :: "role_refusal \<Rightarrow> reply" where
  "refused r = Failed 403 (refusal_error r) (refusal_missing r)"

definition roleCeilingError :: "string list \<Rightarrow> reply" where
  "roleCeilingError beyond = Failed 403 ''role_exceeds_actor_permissions'' beyond"

definition isRoleColor :: "string \<Rightarrow> bool" where
  "isRoleColor x \<longleftrightarrow>
     x \<in> {''red'', ''rose'', ''pink'', ''fuchsia'', ''purple'', ''violet'', ''indigo'', ''blue'', ''sky'',
           ''cyan'', ''teal'', ''emerald'', ''green'', ''lime'', ''amber'', ''neutral''}
     \<or> length x = 7 \<and> take 1 x = ''#'' \<and> list_all is_hex (drop 1 x)"

definition roleNameSchema :: "string \<Rightarrow> bool" where
  "roleNameSchema n \<longleftrightarrow> 1 \<le> length n \<and> length n \<le> 64 \<and> isAdminsCfgSafeRoleName (lit n)"

definition squadPermissionsArraySchema :: "string list \<Rightarrow> string list option" where
  "squadPermissionsArraySchema keys =
     (if list_all isSquadPermissionKey keys \<and> length keys \<le> length SQUAD_PERMISSIONS
      then Some (js_set keys) else None)"

record create_body =
  cb_name :: string
  cb_color :: string
  cb_description :: "string option"
  cb_squad_permissions :: "string list"
  cb_panel_access :: bool
  cb_can_view_ips :: bool
  cb_can_assign_roles :: bool
  cb_can_edit_roles :: bool
  cb_can_manage_issues :: bool
  cb_can_manage_ban_sources :: bool
  cb_can_manage_integrations :: bool
  cb_can_manage_clans :: bool
  cb_can_manage_economy :: bool
  cb_can_handle_reports :: bool
  cb_can_manage_infrastructure :: bool

record update_body =
  ub_name :: "string option"
  ub_color :: "string option"
  ub_description :: "string option option"
  ub_squad_permissions :: "string list option"
  ub_panel_access :: "bool option"
  ub_can_view_ips :: "bool option"
  ub_can_assign_roles :: "bool option"
  ub_can_edit_roles :: "bool option"
  ub_can_manage_issues :: "bool option"
  ub_can_manage_ban_sources :: "bool option"
  ub_can_manage_integrations :: "bool option"
  ub_can_manage_clans :: "bool option"
  ub_can_manage_economy :: "bool option"
  ub_can_handle_reports :: "bool option"
  ub_can_manage_infrastructure :: "bool option"

definition opt_ok :: "('a \<Rightarrow> bool) \<Rightarrow> 'a option \<Rightarrow> bool" where
  "opt_ok p m = (case m of None \<Rightarrow> True | Some x \<Rightarrow> p x)"

definition createBodyOk :: "create_body \<Rightarrow> bool" where
  "createBodyOk b \<longleftrightarrow> roleNameSchema (cb_name b) \<and> isRoleColor (cb_color b)
     \<and> opt_ok (\<lambda>d. length d \<le> 256) (cb_description b)"

definition updateBodyOk :: "update_body \<Rightarrow> bool" where
  "updateBodyOk b \<longleftrightarrow> opt_ok roleNameSchema (ub_name b) \<and> opt_ok isRoleColor (ub_color b)
     \<and> opt_ok (opt_ok (\<lambda>d. length d \<le> 256)) (ub_description b)"

definition invalidBody :: reply where "invalidBody = Failed 400 ''validation_error'' []"

definition ensureFlagDependency :: "bool \<Rightarrow> bool \<Rightarrow> bool \<Rightarrow> bool \<Rightarrow> string option" where
  "ensureFlagDependency panel assign edit viewIps =
     (if \<not> panel \<and> (assign \<or> edit) then Some ''panel_access_required_for_role_management''
      else if \<not> panel \<and> viewIps then Some ''panel_access_required_for_view_ips''
      else None)"

text \<open>\<^verbatim>\<open>req.user?.permissions\<close> and \<^verbatim>\<open>req.user?.playerId ?? null\<close>.\<close>

definition actorPermissions :: "role_actor option \<Rightarrow> permission_context option" where
  "actorPermissions actor = map_option actor_ctx actor"

definition actorId :: "role_actor option \<Rightarrow> string option" where
  "actorId actor = map_option actor_id actor"

definition revokeMemberSessions :: "string list \<Rightarrow> world \<Rightarrow> world" where
  "revokeMemberSessions pids w = fold (\<lambda>pid. revokeSessions [pid]) pids w"

section \<open>Creating a role\<close>

definition newRoleRow :: "string \<Rightarrow> create_body \<Rightarrow> role_row" where
  "newRoleRow rid b = \<lparr>role_id = rid, role_name = cb_name b, color = cb_color b,
     description = cb_description b, is_system_role = False, panel_access = cb_panel_access b,
     can_view_ips = cb_can_view_ips b, can_assign_roles = cb_can_assign_roles b,
     can_edit_roles = cb_can_edit_roles b, can_manage_issues = cb_can_manage_issues b,
     can_manage_ban_sources = cb_can_manage_ban_sources b,
     can_manage_integrations = cb_can_manage_integrations b, can_manage_clans = cb_can_manage_clans b,
     can_manage_economy = cb_can_manage_economy b, can_manage_media = False,
     can_handle_reports = cb_can_handle_reports b,
     can_manage_infrastructure = cb_can_manage_infrastructure b, combat_view = True\<rparr>"

text \<open>\<open>rid\<close> is the id \<^verbatim>\<open>uuidv7()\<close> returns; a collision with an existing id is an unexpected error.\<close>

definition createRole :: "string \<Rightarrow> role_actor option \<Rightarrow> create_body \<Rightarrow> world \<Rightarrow> reply \<times> world" where
  "createRole rid actor b w =
     (case (if createBodyOk b then squadPermissionsArraySchema (cb_squad_permissions b) else None) of
        None \<Rightarrow> (invalidBody, w)
      | Some squad \<Rightarrow>
          (case ensureFlagDependency (cb_panel_access b) (cb_can_assign_roles b) (cb_can_edit_roles b)
                  (cb_can_view_ips b) of
             Some dep \<Rightarrow> (Failed 400 dep [], w)
           | None \<Rightarrow>
               (let row = newRoleRow rid b;
                    beyond = capabilitiesBeyondActor
                      (roleCapabilities \<lparr>grant_row = row, grant_squad = squad, grant_keys = []\<rparr>)
                      (actorPermissions actor)
                in if beyond \<noteq> [] then (roleCeilingError beyond, w)
                   else case checkGrantsWithinActor actor (buildRolePermissionContext rid row squad []) of
                          Some refusal \<Rightarrow> (refused refusal, w)
                        | None \<Rightarrow>
                            if rid \<in> role_id ` set (w_roles w) then (Failed 500 ''internal_error'' [], w)
                            else if cb_name b \<in> role_name ` set (w_roles w)
                            then (Failed 409 ''role_name_taken'' [], w)
                            else (Done 201 None,
                                  publishAdminsCfgSyncForAllServers ''role.create'' (actorId actor)
                                    (w\<lparr>w_roles := w_roles w @ [row],
                                       w_squad := w_squad w @ map (Pair rid) squad\<rparr>)))))"

section \<open>Editing a role\<close>

text \<open>The columns a \<open>PUT\<close> may change, each kept when absent from the body.\<close>

definition applyUpdate :: "update_body \<Rightarrow> role_row \<Rightarrow> role_row" where
  "applyUpdate b r = r\<lparr>role_name := orElse (ub_name b) (role_name r),
     color := orElse (ub_color b) (color r),
     description := orElse (ub_description b) (description r),
     panel_access := orElse (ub_panel_access b) (panel_access r),
     can_view_ips := orElse (ub_can_view_ips b) (can_view_ips r),
     can_assign_roles := orElse (ub_can_assign_roles b) (can_assign_roles r),
     can_edit_roles := orElse (ub_can_edit_roles b) (can_edit_roles r),
     can_manage_issues := orElse (ub_can_manage_issues b) (can_manage_issues r),
     can_manage_ban_sources := orElse (ub_can_manage_ban_sources b) (can_manage_ban_sources r),
     can_manage_integrations := orElse (ub_can_manage_integrations b) (can_manage_integrations r),
     can_manage_clans := orElse (ub_can_manage_clans b) (can_manage_clans r),
     can_manage_economy := orElse (ub_can_manage_economy b) (can_manage_economy r),
     can_handle_reports := orElse (ub_can_handle_reports b) (can_handle_reports r),
     can_manage_infrastructure := orElse (ub_can_manage_infrastructure b) (can_manage_infrastructure r)\<rparr>"

definition replaceSquad :: "string \<Rightarrow> string list option \<Rightarrow> (string \<times> string) list \<Rightarrow> (string \<times> string) list" where
  "replaceSquad rid squad t =
     (case squad of None \<Rightarrow> t
      | Some keys \<Rightarrow> filter (\<lambda>(r, _). r \<noteq> rid) t @ map (Pair rid) keys)"

text \<open>The transaction and what follows it.\<close>

definition commitUpdate ::
  "role_actor option \<Rightarrow> role_row \<Rightarrow> update_body \<Rightarrow> string list option \<Rightarrow> world \<Rightarrow> world" where
  "commitUpdate actor r b squad w =
     (let rid = role_id r;
          members = membersOfRole w rid;
          w1 = w\<lparr>w_roles := update_rows (\<lambda>x. role_id x = rid) (applyUpdate b) (w_roles w),
                 w_squad := replaceSquad rid squad (w_squad w)\<rparr>;
          affects = (ub_name b \<noteq> None \<and> ub_name b \<noteq> Some (role_name r)) \<or> squad \<noteq> None;
          w2 = (if affects then publishAdminsCfgSyncForAllServers ''role.update'' (actorId actor) w1 else w1);
          w3 = invalidatePermissionCacheForRole rid w2
      in if ub_panel_access b = Some False \<and> panel_access r then revokeMemberSessions members w3 else w3)"

definition updateRole :: "string \<Rightarrow> role_actor option \<Rightarrow> update_body \<Rightarrow> world \<Rightarrow> reply \<times> world" where
  "updateRole rid actor b w =
     (if \<not> updateBodyOk b then (invalidBody, w)
      else case (case ub_squad_permissions b of None \<Rightarrow> Some None
                 | Some keys \<Rightarrow> map_option Some (squadPermissionsArraySchema keys)) of
        None \<Rightarrow> (invalidBody, w)
      | Some squad \<Rightarrow>
     (case findRole w rid of
        None \<Rightarrow> (Failed 404 ''role_not_found'' [], w)
      | Some r \<Rightarrow>
          if ownerRole r then (Failed 400 ''owner_role_immutable'' [], w)
          else if (case actor of None \<Rightarrow> False
                   | Some a \<Rightarrow> \<not> isOwner (actor_ctx a) \<and> roleId (actor_ctx a) = Some rid)
          then (Failed 403 ''cannot_edit_own_role'' [], w)
          else case checkRoleWithinActor w actor rid of
            Some refusal \<Rightarrow> (refused refusal, w)
          | None \<Rightarrow>
              (let row = applyUpdate b r;
                   squad' = orElse squad (squadKeysOf w rid);
                   proposed = buildRolePermissionContext rid row squad' (permKeysOf w rid)
               in case ensureFlagDependency (panel_access row) (can_assign_roles row) (can_edit_roles row)
                         (can_view_ips row) of
                    Some dep \<Rightarrow> (Failed 400 dep [], w)
                  | None \<Rightarrow>
                      (case loadRoleGrant w rid of
                         None \<Rightarrow> (Failed 404 ''role_not_found'' [], w)
                       | Some before \<Rightarrow>
                           (let after = \<lparr>grant_row = row, grant_squad = orElse squad (grant_squad before),
                                         grant_keys = grant_keys before\<rparr>;
                                already = roleCapabilities before;
                                newly = filter (\<lambda>c. c \<notin> set already) (roleCapabilities after);
                                beyond = capabilitiesBeyondActor newly (actorPermissions actor)
                            in if beyond \<noteq> [] then (roleCeilingError beyond, w)
                               else case checkGrantsWithinActor actor proposed of
                                      Some refusal \<Rightarrow> (refused refusal, w)
                                    | None \<Rightarrow>
                                        if list_ex (\<lambda>x. role_id x \<noteq> rid \<and> role_name x = role_name row) (w_roles w)
                                        then (Failed 409 ''role_name_taken'' [], w)
                                        else (Done 200 None, commitUpdate actor r b squad w))))))"

section \<open>Deleting a role\<close>

text \<open>Clearing an assignment sets the role, its expiry and its comment to \<open>null\<close>.\<close>

definition clearRole :: "player_row \<Rightarrow> player_row" where
  "clearRole p = p\<lparr>pl_role := None, pl_expires := None, pl_comment := None\<rparr>"

definition lastOwner :: reply where "lastOwner = Failed 409 ''cannot_remove_last_owner'' []"

text \<open>Deleting the row cascades to \<^verbatim>\<open>role_squad_permissions\<close> and \<^verbatim>\<open>role_permissions\<close>.\<close>

definition deleteRole :: "string \<Rightarrow> role_actor option \<Rightarrow> world \<Rightarrow> reply \<times> world" where
  "deleteRole rid actor w =
     (case findRole w rid of
        None \<Rightarrow> (Failed 404 ''role_not_found'' [], w)
      | Some r \<Rightarrow>
          if ownerRole r then (Failed 400 ''owner_role_immutable'' [], w)
          else case checkRoleWithinActor w actor rid of
            Some refusal \<Rightarrow> (refused refusal, w)
          | None \<Rightarrow>
              if rid \<in> snd ` set (w_vip w) then (Failed 409 ''role_referenced_by_vip_tier'' [], w)
              else (let members = membersOfRole w rid
                    in case updatePlayers (\<lambda>p. pl_role p = Some rid) clearRole w of
                         None \<Rightarrow> (lastOwner, w)
                       | Some w1 \<Rightarrow>
                           (let w2 = w1\<lparr>w_roles := filter (\<lambda>x. role_id x \<noteq> rid) (w_roles w1),
                                        w_squad := filter (\<lambda>(x, _). x \<noteq> rid) (w_squad w1),
                                        w_perms := filter (\<lambda>(x, _). x \<noteq> rid) (w_perms w1)\<rparr>;
                                w3 = publishAdminsCfgSyncForAllServers ''role.delete'' (actorId actor) w2;
                                w4 = invalidatePermissionCacheForRole rid w3;
                                w5 = w4\<lparr>w_cache := invalidateAllPermissionCaches (w_cache w4)\<rparr>
                            in (Done 200 None, if panel_access r then revokeMemberSessions members w5 else w5))))"

section \<open>Adding and removing one member\<close>

definition COMMENT_MAX_LEN :: nat where "COMMENT_MAX_LEN = 512"

text \<open>The comment schema: trimmed, bounded, on one line.  An absent and a \<open>null\<close> comment act alike.\<close>

definition commentSchema :: "string option \<Rightarrow> bool" where
  "commentSchema c = opt_ok (\<lambda>t. length (trim t) \<le> COMMENT_MAX_LEN \<and> isAdminsCfgSingleLineText (lit (trim t))) c"

definition storedComment :: "string option \<Rightarrow> string option" where
  "storedComment c = (case c of None \<Rightarrow> None | Some t \<Rightarrow> if trim t = [] then None else Some (trim t))"

definition giveRole :: "string \<Rightarrow> int option \<Rightarrow> string option \<Rightarrow> player_row \<Rightarrow> player_row" where
  "giveRole rid expires comment p = p\<lparr>pl_role := Some rid, pl_expires := expires, pl_comment := comment\<rparr>"

definition addMember ::
  "string \<Rightarrow> string \<Rightarrow> string option \<Rightarrow> role_actor option \<Rightarrow> world \<Rightarrow> reply \<times> world" where
  "addMember rid pid comment actor w =
     (if \<not> commentSchema comment then (invalidBody, w)
      else case findRole w rid of
        None \<Rightarrow> (Failed 404 ''role_not_found'' [], w)
      | Some r \<Rightarrow>
          if ownerRole r then (Failed 403 ''owner_assignment_forbidden'' [], w)
          else if findPlayer w pid = None then (Failed 404 ''player_not_found'' [], w)
          else case checkRoleAssignment w actor [pid] (Some rid) of
            Some refusal \<Rightarrow> (refused refusal, w)
          | None \<Rightarrow>
              (case updatePlayers (\<lambda>p. pl_id p = pid) (giveRole rid None (storedComment comment)) w of
                 None \<Rightarrow> (lastOwner, w)
               | Some w1 \<Rightarrow>
                   (let w2 = publishAdminsCfgSyncForAllServers ''role.member.add'' (actorId actor) w1;
                        w3 = w2\<lparr>w_cache := invalidatePermissionCache pid (w_cache w2)\<rparr>;
                        w4 = publishDiscordRoleSync (Some pid) ''role.member.add'' w3
                    in (Done 201 None, if panel_access r then w4 else revokeSessions [pid] w4))))"

definition removeMember :: "string \<Rightarrow> string \<Rightarrow> role_actor option \<Rightarrow> world \<Rightarrow> reply \<times> world" where
  "removeMember rid pid actor w =
     (case findRole w rid of
        None \<Rightarrow> (Failed 404 ''role_not_found'' [], w)
      | Some r \<Rightarrow>
          (case checkRoleAssignment w actor [pid] None of
             Some refusal \<Rightarrow> (refused refusal, w)
           | None \<Rightarrow>
               (let affected = (\<lambda>p. pl_id p = pid \<and> pl_role p = Some rid)
                in if ownerRole r \<and> find_row affected (w_players w) = None then (Done 200 None, w)
                   else if ownerRole r \<and> length (membersOfRole w rid) \<le> 1 then (lastOwner, w)
                   else case updatePlayers affected clearRole w of
                          None \<Rightarrow> (lastOwner, w)
                        | Some w1 \<Rightarrow>
                            if find_row affected (w_players w) = None then (Done 200 None, w1)
                            else (let w2 = publishAdminsCfgSyncForAllServers ''role.member.remove''
                                             (actorId actor) w1;
                                      w3 = w2\<lparr>w_cache := invalidatePermissionCache pid (w_cache w2)\<rparr>;
                                      w4 = publishDiscordRoleSync (Some pid) ''role.member.remove'' w3
                                  in (Done 200 None, revokeSessions [pid] w4)))))"

section \<open>Bulk removal and move\<close>

definition membersOf :: "world \<Rightarrow> string \<Rightarrow> string list \<Rightarrow> string list" where
  "membersOf w rid pids =
     map pl_id (filter (\<lambda>p. pl_role p = Some rid \<and> pl_id p \<in> set pids) (w_players w))"

definition publishBulkSync :: "string list \<Rightarrow> string \<Rightarrow> world \<Rightarrow> world" where
  "publishBulkSync ids reason w = (if ids = [] then w else publishDiscordRoleSync None reason w)"

definition BULK_MAX_IDS :: nat where "BULK_MAX_IDS = 5000"

definition bulkIdsOk :: "string list \<Rightarrow> bool" where
  "bulkIdsOk ids \<longleftrightarrow> 1 \<le> length ids \<and> length ids \<le> BULK_MAX_IDS"

definition bulkRemove :: "string \<Rightarrow> string list \<Rightarrow> role_actor option \<Rightarrow> world \<Rightarrow> reply \<times> world" where
  "bulkRemove rid ids actor w =
     (if \<not> bulkIdsOk ids then (invalidBody, w)
      else case findRole w rid of
        None \<Rightarrow> (Failed 404 ''role_not_found'' [], w)
      | Some r \<Rightarrow>
          (let pids = js_set ids; gone = membersOf w rid pids
           in case checkRoleAssignment w actor gone None of
                Some refusal \<Rightarrow> (refused refusal, w)
              | None \<Rightarrow>
                  if ownerRole r \<and> length (membersOfRole w rid) - length gone < 1 then (lastOwner, w)
                  else case updatePlayers (\<lambda>p. pl_role p = Some rid \<and> pl_id p \<in> set pids) clearRole w of
                         None \<Rightarrow> (lastOwner, w)
                       | Some w1 \<Rightarrow>
                           (let w2 = publishAdminsCfgSyncForAllServers ''role.member.bulk_remove''
                                       (actorId actor) w1;
                                w3 = w2\<lparr>w_cache := invalidateMany gone (w_cache w2)\<rparr>;
                                w4 = publishBulkSync gone ''role.member.bulk_remove'' w3
                            in (Done 200 (Some (length gone)), revokeSessions gone w4))))"

definition moveMembers ::
  "string \<Rightarrow> string \<Rightarrow> string list \<Rightarrow> role_actor option \<Rightarrow> world \<Rightarrow> reply \<times> world" where
  "moveMembers rid target ids actor w =
     (if \<not> bulkIdsOk ids then (invalidBody, w)
      else case findRole w rid of
        None \<Rightarrow> (Failed 404 ''role_not_found'' [], w)
      | Some src \<Rightarrow>
          if target = rid then (Failed 400 ''target_role_same_as_source'' [], w)
          else case findRole w target of
            None \<Rightarrow> (Failed 404 ''target_role_not_found'' [], w)
          | Some tgt \<Rightarrow>
              if ownerRole tgt then (Failed 403 ''owner_assignment_forbidden'' [], w)
              else (let beyond = roleGrantBeyondActor w target (actorPermissions actor);
                        pids = js_set ids; moved = membersOf w rid pids
                    in if beyond \<noteq> [] then (roleCeilingError beyond, w)
                       else case checkRoleAssignment w actor moved (Some target) of
                         Some refusal \<Rightarrow> (refused refusal, w)
                       | None \<Rightarrow>
                           if ownerRole src \<and> length (membersOfRole w rid) - length moved < 1 then (lastOwner, w)
                           else case updatePlayers (\<lambda>p. pl_role p = Some rid \<and> pl_id p \<in> set pids)
                                       (giveRole target None None) w of
                                  None \<Rightarrow> (lastOwner, w)
                                | Some w1 \<Rightarrow>
                                    (let w2 = publishAdminsCfgSyncForAllServers ''role.member.move''
                                                (actorId actor) w1;
                                         w3 = w2\<lparr>w_cache := invalidateMany moved (w_cache w2)\<rparr>;
                                         w4 = publishBulkSync moved ''role.member.move'' w3
                                     in (Done 200 (Some (length moved)),
                                         if panel_access tgt then w4 else revokeSessions moved w4))))"

section \<open>CSV import\<close>

definition IMPORT_MAX_ROWS :: nat where "IMPORT_MAX_ROWS = 5000"
definition IMPORT_MAX_CHARS :: nat where "IMPORT_MAX_CHARS = 2000000"

text \<open>\<^verbatim>\<open>split(/\r\n|\r|\n/)\<close>.\<close>

fun splitLines :: "string \<Rightarrow> string list" where
  "splitLines [] = [[]]"
| "splitLines (c # cs) =
     (if c = CHR 0x0D \<and> prefix [CHR 0x0A] cs then [] # splitLines (drop 1 cs)
      else if c = CHR 0x0D \<or> c = CHR 0x0A then [] # splitLines cs
      else case splitLines cs of [] \<Rightarrow> [[c]] | h # t \<Rightarrow> (c # h) # t)"

definition parseImportRow :: "string \<Rightarrow> string \<times> string option" where
  "parseImportRow raw =
     (case index_of CHR '';'' raw of
        None \<Rightarrow> (trim raw, None)
      | Some semi \<Rightarrow>
          (let comment = trim (drop (semi + 1) raw)
           in (trim (take semi raw), if comment = [] then None else Some comment)))"

record import_row =
  ir_line :: nat
  ir_steam :: string
  ir_comment :: "string option"

definition parseImport :: "string \<Rightarrow> import_row list" where
  "parseImport csv =
     map (\<lambda>(i, raw). let (steam, comment) = parseImportRow raw
                     in \<lparr>ir_line = i + 1, ir_steam = steam, ir_comment = comment\<rparr>)
       (enumerate 0 (filter (\<lambda>l. trim l \<noteq> []) (splitLines csv)))"

definition steamId64Ok :: "string \<Rightarrow> bool" where
  "steamId64Ok s \<longleftrightarrow> length s = 17 \<and> list_all is_digit s"

definition importError :: "import_row \<Rightarrow> string \<Rightarrow> nat \<times> string \<times> string" where
  "importError row reason = (ir_line row, ir_steam row, reason)"

text \<open>First pass: shape and duplicates, with the set of ids seen so far.\<close>

fun importShape ::
  "import_row list \<Rightarrow> string list \<Rightarrow> (nat \<times> string \<times> string) list \<times> import_row list" where
  "importShape [] seen = ([], [])"
| "importShape (row # rest) seen =
     (if \<not> steamId64Ok (ir_steam row)
      then (let (e, v) = importShape rest seen in (importError row ''invalid_steam_id64'' # e, v))
      else if opt_ok (\<lambda>c. length c \<le> COMMENT_MAX_LEN) (ir_comment row) = False
      then (let (e, v) = importShape rest seen in (importError row ''comment_too_long'' # e, v))
      else if ir_steam row \<in> set seen
      then (let (e, v) = importShape rest seen in (importError row ''duplicate_steam_id64'' # e, v))
      else (let (e, v) = importShape rest (js_add (ir_steam row) seen) in (e, row # v)))"

text \<open>Second pass: existence, and Owners are not reassigned.  \<open>existing\<close> is the one \<open>IN\<close> lookup.\<close>

definition steamKey :: "player_row \<Rightarrow> string option" where
  "steamKey p = map_option show_nat (pl_steam p)"

fun importResolve ::
  "string option \<Rightarrow> player_row list \<Rightarrow> import_row list
   \<Rightarrow> (nat \<times> string \<times> string) list \<times> (string \<times> string option) list" where
  "importResolve owner existing [] = ([], [])"
| "importResolve owner existing (row # rest) =
     (let (e, a) = importResolve owner existing rest
      in case find_row (\<lambda>p. steamKey p = Some (ir_steam row)) existing of
           None \<Rightarrow> (importError row ''player_not_found'' # e, a)
         | Some p \<Rightarrow>
             if owner \<noteq> None \<and> pl_role p = owner
             then (importError row ''owner_reassignment_forbidden'' # e, a)
             else (e, (pl_id p, ir_comment row) # a))"

definition importExisting :: "import_row list \<Rightarrow> world \<Rightarrow> player_row list" where
  "importExisting valid w =
     filter (\<lambda>p. \<exists>n \<in> set (map (nat_of_digits \<circ> ir_steam) valid). pl_steam p = Some n) (w_players w)"

text \<open>\<open>UPDATE players \<dots> FROM (VALUES \<dots>) AS v(id, comment) WHERE players.id = v.id\<close>.\<close>

definition importUpdate :: "string \<Rightarrow> (string \<times> string option) list \<Rightarrow> world \<Rightarrow> world option" where
  "importUpdate rid assignments w =
     (if assignments = [] then Some w
      else updatePlayers (\<lambda>p. map_of assignments (pl_id p) \<noteq> None)
             (\<lambda>p. giveRole rid None (orElse (map_of assignments (pl_id p)) None) p) w)"

definition importMembers ::
  "string \<Rightarrow> string \<Rightarrow> role_actor option \<Rightarrow> world \<Rightarrow> reply \<times> world" where
  "importMembers rid rawCsv actor w =
     (let csv = trim rawCsv
      in if csv = [] \<or> length csv > IMPORT_MAX_CHARS then (invalidBody, w)
         else case findRole w rid of
           None \<Rightarrow> (Failed 404 ''role_not_found'' [], w)
         | Some r \<Rightarrow>
             if ownerRole r then (Failed 403 ''owner_assignment_forbidden'' [], w)
             else (let beyond = roleGrantBeyondActor w rid (actorPermissions actor);
                       parsed = parseImport csv
                   in if beyond \<noteq> [] then (roleCeilingError beyond, w)
                      else if length parsed > IMPORT_MAX_ROWS then (Failed 413 ''too_many_rows'' [], w)
                      else (let (shapeErrors, valid) = importShape parsed [];
                                (resolveErrors, assignments) =
                                  importResolve (ownerRoleId w) (importExisting valid w) valid;
                                errors = shapeErrors @ resolveErrors;
                                pids = map fst assignments
                            in if errors \<noteq> [] then (ImportRejected errors, w)
                               else case checkRoleAssignment w actor pids (Some rid) of
                                 Some refusal \<Rightarrow> (refused refusal, w)
                               | None \<Rightarrow>
                                   (case importUpdate rid assignments w of
                                      None \<Rightarrow> (lastOwner, w)
                                    | Some w1 \<Rightarrow>
                                        (let w2 = publishAdminsCfgSyncForAllServers ''role.member.import''
                                                    (actorId actor) w1;
                                             w3 = w2\<lparr>w_cache := invalidateMany pids (w_cache w2)\<rparr>;
                                             w4 = publishBulkSync pids ''role.member.import'' w3
                                         in (Done 201 (Some (length assignments)),
                                             if panel_access r then w4 else revokeSessions pids w4))))))"

section \<open>Assigning a role to a player\<close>

record role_assign_body =
  ra_role_id :: "string option"
  ra_expires_at :: "int option"
  ra_comment :: "string option"

definition assignRole ::
  "int \<Rightarrow> string \<Rightarrow> role_assign_body \<Rightarrow> role_actor option \<Rightarrow> world \<Rightarrow> reply \<times> world" where
  "assignRole now pid b actor w =
     (let newRole = ra_role_id b; comment = storedComment (ra_comment b);
          reason = (if newRole = None then ''player.role.unassign'' else ''player.role.assign'')
      in if \<not> commentSchema (ra_comment b) then (invalidBody, w)
         else if (case ra_expires_at b of None \<Rightarrow> False | Some e \<Rightarrow> e \<le> now)
         then (Failed 400 ''role_expiry_must_be_future'' [], w)
         else case (case newRole of
                      None \<Rightarrow> Inr False
                    | Some rid \<Rightarrow>
                        (case findRole w rid of
                           None \<Rightarrow> Inl (Failed 404 ''role_not_found'' [])
                         | Some r \<Rightarrow> if ownerRole r then Inl (Failed 403 ''owner_assignment_forbidden'' [])
                                     else Inr (panel_access r))) of
                Inl failure \<Rightarrow> (failure, w)
              | Inr newPanelAccess \<Rightarrow>
                  (case findPlayer w pid of
                     None \<Rightarrow> (Failed 404 ''player_not_found'' [], w)
                   | Some current \<Rightarrow>
                       (case checkRoleAssignment w actor [pid] newRole of
                          Some refusal \<Rightarrow> (refused refusal, w)
                        | None \<Rightarrow>
                            (let owner = ownerRoleId w;
                                 wasOwner = (pl_role current = owner \<and> owner \<noteq> None);
                                 willBeOwner = (newRole = owner \<and> owner \<noteq> None)
                             in if wasOwner \<and> \<not> willBeOwner
                                   \<and> length (filter (\<lambda>p. pl_role p = owner) (w_players w)) \<le> 1
                                then (lastOwner, w)
                                else case updatePlayers (\<lambda>p. pl_id p = pid)
                                       (\<lambda>p. case newRole of None \<Rightarrow> clearRole p
                                            | Some rid \<Rightarrow> giveRole rid (ra_expires_at b) comment p) w of
                                  None \<Rightarrow> (lastOwner, w)
                                | Some w1 \<Rightarrow>
                                    (let w2 = publishAdminsCfgSyncForAllServers reason (actorId actor) w1;
                                         w3 = w2\<lparr>w_cache := invalidatePermissionCache pid (w_cache w2)\<rparr>;
                                         w4 = publishDiscordRoleSync (Some pid) reason w3
                                     in (Done 200 None,
                                         if newPanelAccess then w4 else revokeSessions [pid] w4))))))"

definition unassignRole :: "string \<Rightarrow> role_actor option \<Rightarrow> world \<Rightarrow> reply \<times> world" where
  "unassignRole pid actor w =
     (case findPlayer w pid of
        None \<Rightarrow> (Failed 404 ''player_not_found'' [], w)
      | Some current \<Rightarrow>
          (case checkRoleAssignment w actor [pid] None of
             Some refusal \<Rightarrow> (refused refusal, w)
           | None \<Rightarrow>
               (let owner = ownerRoleId w
                in if pl_role current = owner \<and> owner \<noteq> None
                      \<and> length (filter (\<lambda>p. pl_role p = owner) (w_players w)) \<le> 1
                   then (lastOwner, w)
                   else case updatePlayers (\<lambda>p. pl_id p = pid) clearRole w of
                          None \<Rightarrow> (lastOwner, w)
                        | Some w1 \<Rightarrow>
                            (let w2 = publishAdminsCfgSyncForAllServers ''player.role.unassign''
                                        (actorId actor) w1;
                                 w3 = w2\<lparr>w_cache := invalidatePermissionCache pid (w_cache w2)\<rparr>;
                                 w4 = publishDiscordRoleSync (Some pid) ''player.role.unassign'' w3
                             in (Done 200 None, revokeSessions [pid] w4)))))"

section \<open>The routes behind the authentication hook\<close>

datatype role_op =
    CreateRole string create_body
  | UpdateRole string update_body
  | DeleteRole string
  | AddMember string string "string option"
  | RemoveMember string string
  | BulkRemove string "string list"
  | MoveMembers string string "string list"
  | ImportMembers string string
  | AssignRole string role_assign_body
  | UnassignRole string

fun requiredPermission :: "role_op \<Rightarrow> string" where
  "requiredPermission (CreateRole _ _) = ''role:create''"
| "requiredPermission (UpdateRole _ _) = ''role:edit''"
| "requiredPermission (DeleteRole _) = ''role:delete''"
| "requiredPermission _ = ''user:manage_roles''"

definition routeOf :: "role_op \<Rightarrow> route_config" where
  "routeOf oper = \<lparr>rc_public = False, rc_selfService = False, rc_permissions = [requiredPermission oper],
     rc_roleFlags = []\<rparr>"

fun handle :: "int \<Rightarrow> role_actor option \<Rightarrow> role_op \<Rightarrow> world \<Rightarrow> reply \<times> world" where
  "handle now actor (CreateRole rid b) w = createRole rid actor b w"
| "handle now actor (UpdateRole rid b) w = updateRole rid actor b w"
| "handle now actor (DeleteRole rid) w = deleteRole rid actor w"
| "handle now actor (AddMember rid pid c) w = addMember rid pid c actor w"
| "handle now actor (RemoveMember rid pid) w = removeMember rid pid actor w"
| "handle now actor (BulkRemove rid ids) w = bulkRemove rid ids actor w"
| "handle now actor (MoveMembers rid tgt ids) w = moveMembers rid tgt ids actor w"
| "handle now actor (ImportMembers rid csv) w = importMembers rid csv actor w"
| "handle now actor (AssignRole pid b) w = assignRole now pid b actor w"
| "handle now actor (UnassignRole pid) w = unassignRole pid actor w"

text \<open>The environment of a request: the hash and MAC parameters and the session settings.\<close>

record server_env =
  se_hash :: "string \<Rightarrow> string"
  se_mac :: "string \<Rightarrow> session_payload \<Rightarrow> string"
  se_token_hash :: "string \<Rightarrow> string"
  se_config :: auth_config

definition serve :: "server_env \<Rightarrow> int \<Rightarrow> request \<Rightarrow> role_op \<Rightarrow> world \<Rightarrow> reply \<times> world" where
  "serve env now rq oper w =
     (case authHook (se_hash env) (se_mac env) (se_token_hash env) (se_config env) now
             (routeOf oper) rq w of
        (Unauthenticated, w1) \<Rightarrow> (Failed 401 ''unauthenticated'' [], w1)
      | (Forbidden required, w1) \<Rightarrow> (Failed 403 ''forbidden'' required, w1)
      | (Proceed a, w1) \<Rightarrow> handle now (ra_user a) oper w1)"

end
