(* ===== verification/Role_Safety.thy ===== *)
theory Role_Safety
  imports Role_Routes
begin

text \<open>
  Safety of role management.  Every handler either leaves the state alone or performs one of four
  changes: it reassigns players to a role, creates, edits or deletes a role.  Each change is
  described once, by a predicate on the states before and after, and shown to be a \<open>safe_step\<close>:
  it keeps the keys and foreign keys, the Owner role, an Owner among the players and the coherence of
  the permission cache, and it gives nobody more than they had or than the caller has.
\<close>

section \<open>The four changes\<close>

definition assignable :: "world \<Rightarrow> string option \<Rightarrow> bool" where
  "assignable w r = (case r of None \<Rightarrow> True | Some rid \<Rightarrow> \<exists>row. findRole w rid = Some row \<and> \<not> ownerRole row)"

definition reassigns :: "world \<Rightarrow> string list \<Rightarrow> string option \<Rightarrow> world \<Rightarrow> bool" where
  "reassigns w pids r w' \<longleftrightarrow> (\<exists>p f w1. updatePlayers p f w = Some w1 \<and> w_players w' = w_players w1
     \<and> (\<forall>q. pl_id (f q) = pl_id q)
     \<and> (\<forall>q \<in> set (w_players w). p q \<longrightarrow> pl_role (f q) = r \<and> pl_id q \<in> set pids)
     \<and> w_roles w' = w_roles w \<and> w_squad w' = w_squad w \<and> w_perms w' = w_perms w
     \<and> w_cache w' = invalidateMany pids (w_cache w))"

definition member_change :: "role_actor option \<Rightarrow> world \<Rightarrow> world \<Rightarrow> bool" where
  "member_change actor w w' \<longleftrightarrow>
     (\<exists>pids r. reassigns w pids r w' \<and> assignable w r \<and> checkRoleAssignment w actor pids r = None)"

definition role_created :: "world \<Rightarrow> world \<Rightarrow> bool" where
  "role_created w w' \<longleftrightarrow> (\<exists>row squad. role_id row \<notin> role_id ` set (w_roles w)
     \<and> role_name row \<notin> role_name ` set (w_roles w) \<and> \<not> ownerRole row
     \<and> w_roles w' = w_roles w @ [row] \<and> w_squad w' = w_squad w @ map (Pair (role_id row)) squad
     \<and> w_perms w' = w_perms w \<and> w_players w' = w_players w \<and> w_cache w' = w_cache w)"

definition edits :: "world \<Rightarrow> role_row \<Rightarrow> role_row \<Rightarrow> string list option \<Rightarrow> world \<Rightarrow> bool" where
  "edits w r row squad w' \<longleftrightarrow> findRole w (role_id r) = Some r \<and> \<not> ownerRole r \<and> role_id row = role_id r
     \<and> \<not> list_ex (\<lambda>x. role_id x \<noteq> role_id r \<and> role_name x = role_name row) (w_roles w)
     \<and> w_roles w' = update_rows (\<lambda>x. role_id x = role_id r) (\<lambda>_. row) (w_roles w)
     \<and> w_squad w' = replaceSquad (role_id r) squad (w_squad w)
     \<and> w_perms w' = w_perms w \<and> w_players w' = w_players w
     \<and> w_cache w' = invalidateMany (membersOfRole w (role_id r)) (w_cache w)"

definition proposedContext :: "world \<Rightarrow> role_row \<Rightarrow> string list option \<Rightarrow> permission_context" where
  "proposedContext w row squad = buildRolePermissionContext (role_id row) row
     (orElse squad (squadKeysOf w (role_id row))) (permKeysOf w (role_id row))"

definition role_edited :: "role_actor option \<Rightarrow> world \<Rightarrow> world \<Rightarrow> bool" where
  "role_edited actor w w' \<longleftrightarrow> (\<exists>r row squad. edits w r row squad w'
     \<and> checkGrantsWithinActor actor (proposedContext w row squad) = None)"

definition role_deleted :: "world \<Rightarrow> world \<Rightarrow> bool" where
  "role_deleted w w' \<longleftrightarrow> (\<exists>r. findRole w (role_id r) = Some r \<and> \<not> ownerRole r
     \<and> w_roles w' = filter (\<lambda>x. role_id x \<noteq> role_id r) (w_roles w)
     \<and> w_squad w' = filter (\<lambda>(x, _). x \<noteq> role_id r) (w_squad w)
     \<and> w_perms w' = filter (\<lambda>(x, _). x \<noteq> role_id r) (w_perms w)
     \<and> w_players w' = update_rows (\<lambda>p. pl_role p = Some (role_id r)) clearRole (w_players w)
     \<and> w_cache w' = [])"

definition role_change :: "role_actor option \<Rightarrow> world \<Rightarrow> world \<Rightarrow> bool" where
  "role_change actor w w' \<longleftrightarrow> w' = w \<or> member_change actor w w' \<or> role_created w w'
     \<or> role_edited actor w w' \<or> role_deleted w w'"

section \<open>Effects that leave the access-control tables alone\<close>

lemma publish_core [simp]:
  "w_roles (publishAdminsCfgSyncForAllServers x y w) = w_roles w"
  "w_squad (publishAdminsCfgSyncForAllServers x y w) = w_squad w"
  "w_perms (publishAdminsCfgSyncForAllServers x y w) = w_perms w"
  "w_players (publishAdminsCfgSyncForAllServers x y w) = w_players w"
  "w_cache (publishAdminsCfgSyncForAllServers x y w) = w_cache w"
  by (simp_all add: publishAdminsCfgSyncForAllServers_def)

lemma discord_core [simp]:
  "w_roles (publishDiscordRoleSync x y w) = w_roles w"
  "w_squad (publishDiscordRoleSync x y w) = w_squad w"
  "w_perms (publishDiscordRoleSync x y w) = w_perms w"
  "w_players (publishDiscordRoleSync x y w) = w_players w"
  "w_cache (publishDiscordRoleSync x y w) = w_cache w"
  by (simp_all add: publishDiscordRoleSync_def)

lemma bulk_core [simp]:
  "w_roles (publishBulkSync x y w) = w_roles w"
  "w_squad (publishBulkSync x y w) = w_squad w"
  "w_perms (publishBulkSync x y w) = w_perms w"
  "w_players (publishBulkSync x y w) = w_players w"
  "w_cache (publishBulkSync x y w) = w_cache w"
  by (simp_all add: publishBulkSync_def)

lemma revoke_core [simp]:
  "w_roles (revokeSessions x w) = w_roles w" "w_squad (revokeSessions x w) = w_squad w"
  "w_perms (revokeSessions x w) = w_perms w" "w_players (revokeSessions x w) = w_players w"
  "w_cache (revokeSessions x w) = w_cache w"
  by (simp_all add: revokeSessions_def)

lemma revokeMembers_core [simp]:
  "w_roles (revokeMemberSessions x w) = w_roles w" "w_squad (revokeMemberSessions x w) = w_squad w"
  "w_perms (revokeMemberSessions x w) = w_perms w" "w_players (revokeMemberSessions x w) = w_players w"
  "w_cache (revokeMemberSessions x w) = w_cache w"
  by (induction x arbitrary: w) (simp_all add: revokeMemberSessions_def)

lemma updatePlayers_core:
  assumes "updatePlayers p f w = Some w1"
  shows "w_roles w1 = w_roles w" "w_squad w1 = w_squad w" "w_perms w1 = w_perms w"
    "w_cache w1 = w_cache w" "w_players w1 = update_rows p f (w_players w)"
  using updatePlayers_Some [OF assms] by simp_all

lemma role_fields [simp]:
  "pl_id (giveRole r e c p) = pl_id p" "pl_role (giveRole r e c p) = Some r"
  "pl_id (clearRole p) = pl_id p" "pl_role (clearRole p) = None"
  by (simp_all add: giveRole_def clearRole_def)

section \<open>Every handler performs one of the changes\<close>

lemma reassignsI:
  assumes "updatePlayers p f w = Some w1" and "w_players w' = w_players w1"
    and "\<And>q. pl_id (f q) = pl_id q"
    and "\<And>q. q \<in> set (w_players w) \<Longrightarrow> p q \<Longrightarrow> pl_role (f q) = r \<and> pl_id q \<in> set pids"
    and "w_roles w' = w_roles w1" "w_squad w' = w_squad w1" "w_perms w' = w_perms w1"
    and "w_cache w' = invalidateMany pids (w_cache w1)"
  shows "reassigns w pids r w'"
  unfolding reassigns_def using assms updatePlayers_core [OF assms(1)]
  by (intro exI [of _ p] exI [of _ f] exI [of _ w1]) simp

lemma invalidate_one: "invalidatePermissionCache pid m = invalidateMany [pid] m"
  by (simp add: invalidateMany_def)

lemma member_changeI:
  "reassigns w pids r w' \<Longrightarrow> assignable w r \<Longrightarrow> checkRoleAssignment w actor pids r = None \<Longrightarrow>
     role_change actor w w'"
  by (auto simp: role_change_def member_change_def)

lemma role_change_refl [simp]: "role_change actor w w"
  by (simp add: role_change_def)

lemma addMember_change: "role_change actor w (snd (addMember rid pid c actor w))"
proof -
  have "role_change actor w (snd (addMember rid pid c actor w))"
    if ok: "commentSchema c" "findRole w rid = Some r" "\<not> ownerRole r" "findPlayer w pid \<noteq> None"
      "checkRoleAssignment w actor [pid] (Some rid) = None"
      "updatePlayers (\<lambda>p. pl_id p = pid) (giveRole rid None (storedComment c)) w = Some w1" for r w1
    using ok updatePlayers_core [OF ok(6)]
    by (intro member_changeI [of w "[pid]" "Some rid"] reassignsI [OF ok(6)])
      (auto simp: addMember_def Let_def invalidate_one assignable_def)
  then show ?thesis
    by (cases "findRole w rid"; cases "checkRoleAssignment w actor [pid] (Some rid)";
        cases "updatePlayers (\<lambda>p. pl_id p = pid) (giveRole rid None (storedComment c)) w")
      (auto simp: addMember_def)
qed

lemma unassignRole_change: "role_change actor w (snd (unassignRole pid actor w))"
proof -
  have "role_change actor w (snd (unassignRole pid actor w))"
    if ok: "findPlayer w pid = Some cur" "checkRoleAssignment w actor [pid] None = None"
      "updatePlayers (\<lambda>p. pl_id p = pid) clearRole w = Some w1" for cur w1
  proof (cases "pl_role cur = ownerRoleId w \<and> ownerRoleId w \<noteq> None
      \<and> length (filter (\<lambda>p. pl_role p = ownerRoleId w) (w_players w)) \<le> 1")
    case True
    then show ?thesis using ok by (simp add: unassignRole_def)
  next
    case False
    then show ?thesis
      using ok updatePlayers_core [OF ok(3)]
      by (intro member_changeI [of w "[pid]" None] reassignsI [OF ok(3)])
        (auto simp: unassignRole_def Let_def invalidate_one assignable_def)
  qed
  then show ?thesis
    by (cases "findPlayer w pid"; cases "checkRoleAssignment w actor [pid] None";
        cases "updatePlayers (\<lambda>p. pl_id p = pid) clearRole w")
      (auto simp: unassignRole_def Let_def)
qed

lemma removeMember_change: "role_change actor w (snd (removeMember rid pid actor w))"
proof -
  let ?affected = "\<lambda>p. pl_id p = pid \<and> pl_role p = Some rid"
  have "role_change actor w (snd (removeMember rid pid actor w))"
    if ok: "findRole w rid = Some r" "checkRoleAssignment w actor [pid] None = None"
      "updatePlayers ?affected clearRole w = Some w1" for r w1
  proof (cases "find_row ?affected (w_players w) = None \<or> ownerRole r \<and> length (membersOfRole w rid) \<le> 1")
    case True
    have "w1 = w" if "find_row ?affected (w_players w) = None"
      using that updatePlayers_Some [OF ok(3)] by (simp add: find_row_None)
    then show ?thesis using ok True by (auto simp: removeMember_def Let_def)
  next
    case False
    then show ?thesis
      using ok updatePlayers_core [OF ok(3)]
      by (intro member_changeI [of w "[pid]" None] reassignsI [OF ok(3)])
        (auto simp: removeMember_def Let_def invalidate_one assignable_def)
  qed
  then show ?thesis
    by (cases "findRole w rid"; cases "checkRoleAssignment w actor [pid] None";
        cases "updatePlayers ?affected clearRole w")
      (auto simp: removeMember_def Let_def)
qed

lemma role_change_same: "w' = w \<Longrightarrow> role_change actor w w'"
  by simp

lemma bulkRemove_change: "role_change actor w (snd (bulkRemove rid ids actor w))"
proof -
  let ?p = "\<lambda>p. pl_role p = Some rid \<and> pl_id p \<in> set (js_set ids)"
  let ?gone = "membersOf w rid (js_set ids)"
  have "snd (bulkRemove rid ids actor w) = w \<or> (\<exists>r w1. bulkIdsOk ids \<and> findRole w rid = Some r
      \<and> checkRoleAssignment w actor ?gone None = None
      \<and> \<not> (ownerRole r \<and> length (membersOfRole w rid) - length ?gone < 1)
      \<and> updatePlayers ?p clearRole w = Some w1)"
    by (auto simp: bulkRemove_def Let_def split: option.splits)
  moreover have "role_change actor w (snd (bulkRemove rid ids actor w))"
    if ok: "bulkIdsOk ids" "findRole w rid = Some r" "checkRoleAssignment w actor ?gone None = None"
      "\<not> (ownerRole r \<and> length (membersOfRole w rid) - length ?gone < 1)"
      "updatePlayers ?p clearRole w = Some w1" for r w1
    using ok updatePlayers_core [OF ok(5)]
    by (intro member_changeI [of w ?gone None] reassignsI [OF ok(5)])
      (auto simp: bulkRemove_def Let_def assignable_def membersOf_def)
  ultimately show ?thesis using role_change_same by blast
qed

lemma moveMembers_change: "role_change actor w (snd (moveMembers rid tgt ids actor w))"
proof -
  let ?p = "\<lambda>p. pl_role p = Some rid \<and> pl_id p \<in> set (js_set ids)"
  let ?moved = "membersOf w rid (js_set ids)"
  have "snd (moveMembers rid tgt ids actor w) = w \<or> (\<exists>r t w1. bulkIdsOk ids \<and> findRole w rid = Some r
      \<and> tgt \<noteq> rid \<and> findRole w tgt = Some t \<and> \<not> ownerRole t
      \<and> roleGrantBeyondActor w tgt (actorPermissions actor) = []
      \<and> checkRoleAssignment w actor ?moved (Some tgt) = None
      \<and> \<not> (ownerRole r \<and> length (membersOfRole w rid) - length ?moved < 1)
      \<and> updatePlayers ?p (giveRole tgt None None) w = Some w1)"
    by (auto simp: moveMembers_def Let_def split: option.splits)
  moreover have "role_change actor w (snd (moveMembers rid tgt ids actor w))"
    if ok: "bulkIdsOk ids" "findRole w rid = Some r" "tgt \<noteq> rid" "findRole w tgt = Some t" "\<not> ownerRole t"
      "roleGrantBeyondActor w tgt (actorPermissions actor) = []"
      "checkRoleAssignment w actor ?moved (Some tgt) = None"
      "\<not> (ownerRole r \<and> length (membersOfRole w rid) - length ?moved < 1)"
      "updatePlayers ?p (giveRole tgt None None) w = Some w1" for r t w1
    using ok updatePlayers_core [OF ok(9)]
    by (intro member_changeI [of w ?moved "Some tgt"] reassignsI [OF ok(9)])
      (auto simp: moveMembers_def Let_def assignable_def membersOf_def)
  ultimately show ?thesis using role_change_same by blast
qed

lemma assignRole_change: "role_change actor w (snd (assignRole now pid b actor w))"
proof -
  let ?f = "\<lambda>p. case ra_role_id b of None \<Rightarrow> clearRole p
    | Some rid \<Rightarrow> giveRole rid (ra_expires_at b) (storedComment (ra_comment b)) p"
  let ?out = "snd (assignRole now pid b actor w)"
  have "?out = w \<or> (\<exists>w1. updatePlayers (\<lambda>p. pl_id p = pid) ?f w = Some w1 \<and> assignable w (ra_role_id b)
      \<and> checkRoleAssignment w actor [pid] (ra_role_id b) = None
      \<and> w_players ?out = w_players w1 \<and> w_roles ?out = w_roles w1 \<and> w_squad ?out = w_squad w1
      \<and> w_perms ?out = w_perms w1 \<and> w_cache ?out = invalidateMany [pid] (w_cache w1))"
    by (cases "ra_role_id b"; cases "findRole w (the (ra_role_id b))"; cases "findPlayer w pid";
        cases "checkRoleAssignment w actor [pid] (ra_role_id b)"; cases "updatePlayers (\<lambda>p. pl_id p = pid) ?f w")
      (simp_all add: assignRole_def Let_def assignable_def invalidate_one)
  moreover have "role_change actor w ?out"
    if ok: "updatePlayers (\<lambda>p. pl_id p = pid) ?f w = Some w1" "assignable w (ra_role_id b)"
      "checkRoleAssignment w actor [pid] (ra_role_id b) = None"
      "w_players ?out = w_players w1" "w_roles ?out = w_roles w1" "w_squad ?out = w_squad w1"
      "w_perms ?out = w_perms w1" "w_cache ?out = invalidateMany [pid] (w_cache w1)" for w1
    using ok by (intro member_changeI [of w "[pid]" "ra_role_id b"] reassignsI [OF ok(1)])
      (auto split: option.splits)
  ultimately show ?thesis using role_change_same by blast
qed

lemma importMembers_change: "role_change actor w (snd (importMembers rid csv actor w))"
proof -
  let ?out = "snd (importMembers rid csv actor w)"
  have "?out = w \<or> (\<exists>w1 assignments. importUpdate rid assignments w = Some w1 \<and> assignable w (Some rid)
      \<and> checkRoleAssignment w actor (map fst assignments) (Some rid) = None
      \<and> w_players ?out = w_players w1 \<and> w_roles ?out = w_roles w1 \<and> w_squad ?out = w_squad w1
      \<and> w_perms ?out = w_perms w1 \<and> w_cache ?out = invalidateMany (map fst assignments) (w_cache w1))"
    by (auto simp: importMembers_def Let_def assignable_def split: option.splits prod.splits if_splits)
  moreover have "role_change actor w ?out"
    if ok: "importUpdate rid assignments w = Some w1" "assignable w (Some rid)"
      "checkRoleAssignment w actor (map fst assignments) (Some rid) = None"
      "w_players ?out = w_players w1" "w_roles ?out = w_roles w1" "w_squad ?out = w_squad w1"
      "w_perms ?out = w_perms w1" "w_cache ?out = invalidateMany (map fst assignments) (w_cache w1)"
    for w1 assignments
  proof -
    have upd: "updatePlayers (\<lambda>p. map_of assignments (pl_id p) \<noteq> None)
        (\<lambda>p. giveRole rid None (orElse (map_of assignments (pl_id p)) None) p) w = Some w1"
      using ok(1) updatePlayers_none [of w "\<lambda>p. map_of assignments (pl_id p) \<noteq> None"]
      by (auto simp: importUpdate_def split: if_splits)
    show ?thesis
      using ok by (intro member_changeI [of w "map fst assignments" "Some rid"] reassignsI [OF upd])
        (auto dest!: map_of_SomeD intro: rev_image_eqI)
  qed
  ultimately show ?thesis using role_change_same by blast
qed

lemma createRole_change: "role_change actor w (snd (createRole rid actor b w))"
proof -
  let ?out = "snd (createRole rid actor b w)"
  have "?out = w \<or> role_created w ?out"
    unfolding role_created_def
    by (auto simp: createRole_def Let_def newRoleRow_def ownerRole_def split: option.splits if_splits)
  then show ?thesis by (auto simp: role_change_def)
qed

lemma applyUpdate_fields [simp]:
  "role_id (applyUpdate b r) = role_id r" "is_system_role (applyUpdate b r) = is_system_role r"
  by (simp_all add: applyUpdate_def)

lemma commitUpdate_core [simp]:
  "w_roles (commitUpdate actor r b squad w) = update_rows (\<lambda>x. role_id x = role_id r) (applyUpdate b) (w_roles w)"
  "w_squad (commitUpdate actor r b squad w) = replaceSquad (role_id r) squad (w_squad w)"
  "w_perms (commitUpdate actor r b squad w) = w_perms w"
  "w_players (commitUpdate actor r b squad w) = w_players w"
  "w_cache (commitUpdate actor r b squad w) = invalidateMany (membersOfRole w (role_id r)) (w_cache w)"
  by (simp_all add: commitUpdate_def Let_def invalidatePermissionCacheForRole_def membersOfRole_def)

text \<open>Ids are unique, so the update writes exactly the row that was read.\<close>

lemma update_rows_found:
  assumes "distinct (map role_id (w_roles w))" and "findRole w (role_id r) = Some r"
  shows "update_rows (\<lambda>x. role_id x = role_id r) f (w_roles w)
    = update_rows (\<lambda>x. role_id x = role_id r) (\<lambda>_. f r) (w_roles w)"
proof -
  have "x = r" if "x \<in> set (w_roles w)" "role_id x = role_id r" for x
    using assms that findRole_Some [OF assms(2)] by (metis distinct_map inj_onD)
  then show ?thesis by (auto simp: update_rows_def)
qed

lemma updateRole_writes:
  assumes "updateRole rid actor b w = (rep, w')" and "w' \<noteq> w"
  obtains r squad where "findRole w rid = Some r" "\<not> ownerRole r"
    "checkGrantsWithinActor actor (buildRolePermissionContext rid (applyUpdate b r)
       (orElse squad (squadKeysOf w rid)) (permKeysOf w rid)) = None"
    "\<not> list_ex (\<lambda>x. role_id x \<noteq> rid \<and> role_name x = role_name (applyUpdate b r)) (w_roles w)"
    "w' = commitUpdate actor r b squad w"
proof -
  obtain squad where squad: "(case ub_squad_permissions b of None \<Rightarrow> Some None
      | Some keys \<Rightarrow> map_option Some (squadPermissionsArraySchema keys)) = Some squad"
    using assms unfolding updateRole_def by (force split: if_splits option.splits)
  obtain r where r: "findRole w rid = Some r"
    using assms squad by (cases "findRole w rid") (auto simp: updateRole_def split: if_splits)
  have own: "\<not> ownerRole r" and within: "checkRoleWithinActor w actor rid = None"
    using assms squad r by (auto simp: updateRole_def split: if_splits option.splits)
  let ?row = "applyUpdate b r"
  have dep: "ensureFlagDependency (panel_access ?row) (can_assign_roles ?row) (can_edit_roles ?row)
      (can_view_ips ?row) = None"
    using assms squad r own within by (auto simp: updateRole_def Let_def split: if_splits option.splits)
  show thesis
    using assms squad r own within dep that [of r squad]
    by (auto simp: updateRole_def Let_def loadRoleGrant_def split: if_splits option.splits)
qed

lemma updateRole_change:
  assumes "wf_world w"
  shows "role_change actor w (snd (updateRole rid actor b w))"
proof (cases "snd (updateRole rid actor b w) = w")
  case False
  obtain rep w' where eq: "updateRole rid actor b w = (rep, w')" by fastforce
  with False have "w' \<noteq> w" by simp
  with eq obtain r squad where r: "findRole w rid = Some r" "\<not> ownerRole r"
    "checkGrantsWithinActor actor (buildRolePermissionContext rid (applyUpdate b r)
       (orElse squad (squadKeysOf w rid)) (permKeysOf w rid)) = None"
    "\<not> list_ex (\<lambda>x. role_id x \<noteq> rid \<and> role_name x = role_name (applyUpdate b r)) (w_roles w)"
    "w' = commitUpdate actor r b squad w"
    by (rule updateRole_writes)
  have "role_edited actor w w'"
    unfolding role_edited_def edits_def proposedContext_def
    using r assms update_rows_found [of w r "applyUpdate b"] findRole_Some(2) [OF r(1)]
    by (intro exI [of _ r] exI [of _ "applyUpdate b r"] exI [of _ squad]) (simp add: wf_world_def)
  then show ?thesis using eq by (simp add: role_change_def)
qed simp

lemma deleteRole_change: "role_change actor w (snd (deleteRole rid actor w))"
proof -
  let ?out = "snd (deleteRole rid actor w)"
  have "?out = w \<or> (\<exists>r w1. findRole w rid = Some r \<and> \<not> ownerRole r
      \<and> updatePlayers (\<lambda>p. pl_role p = Some rid) clearRole w = Some w1
      \<and> w_roles ?out = filter (\<lambda>x. role_id x \<noteq> rid) (w_roles w1)
      \<and> w_squad ?out = filter (\<lambda>(x, _). x \<noteq> rid) (w_squad w1)
      \<and> w_perms ?out = filter (\<lambda>(x, _). x \<noteq> rid) (w_perms w1)
      \<and> w_players ?out = w_players w1 \<and> w_cache ?out = [])"
    by (auto simp: deleteRole_def Let_def invalidatePermissionCacheForRole_def invalidateAllPermissionCaches_def
        split: option.splits if_splits)
  moreover have "role_deleted w ?out" if "findRole w rid = Some r" "\<not> ownerRole r"
      "updatePlayers (\<lambda>p. pl_role p = Some rid) clearRole w = Some w1"
      "w_roles ?out = filter (\<lambda>x. role_id x \<noteq> rid) (w_roles w1)"
      "w_squad ?out = filter (\<lambda>(x, _). x \<noteq> rid) (w_squad w1)"
      "w_perms ?out = filter (\<lambda>(x, _). x \<noteq> rid) (w_perms w1)"
      "w_players ?out = w_players w1" "w_cache ?out = []" for r w1
    using that updatePlayers_core [OF that(3)] findRole_Some(2) [OF that(1)]
    by (auto simp: role_deleted_def intro!: exI [of _ r])
  ultimately show ?thesis by (auto simp: role_change_def)
qed

lemma handle_change: "wf_world w \<Longrightarrow> role_change actor w (snd (handle now actor oper w))"
  by (cases oper) (simp_all add: createRole_change updateRole_change deleteRole_change addMember_change
      removeMember_change bulkRemove_change moveMembers_change importMembers_change assignRole_change
      unassignRole_change)

section \<open>Safe steps\<close>

definition within_caller :: "role_actor option \<Rightarrow> world \<Rightarrow> world \<Rightarrow> bool" where
  "within_caller actor w w' \<longleftrightarrow> (\<forall>a pid. actor = Some a \<longrightarrow> \<not> isOwner (actor_ctx a) \<longrightarrow>
     assignedContext w' pid = assignedContext w pid \<or> assignedContext w' pid = emptyContext
     \<or> ctx_le (assignedContext w' pid) (actor_ctx a))"

definition safe_step :: "role_actor option \<Rightarrow> world \<Rightarrow> world \<Rightarrow> bool" where
  "safe_step actor w w' \<longleftrightarrow> wf_world w' \<and> ownerRoleId w' = ownerRoleId w \<and> owners w' \<subseteq> owners w
     \<and> (owners w \<noteq> {} \<longrightarrow> owners w' \<noteq> {}) \<and> (cache_coherent w \<longrightarrow> cache_coherent w')
     \<and> within_caller actor w w'"

lemma safe_step_refl: "wf_world w \<Longrightarrow> safe_step actor w w"
  by (simp add: safe_step_def within_caller_def)

text \<open>Invalidation: a surviving entry is an old entry of another player.\<close>

lemma map_of_invalidateMany:
  "map_of (invalidateMany pids m) k = (if k \<in> set pids then None else map_of m k)"
  unfolding invalidateMany_def invalidatePermissionCache_def
  by (induction pids arbitrary: m) auto

lemma distinct_invalidateMany: "distinct (map fst m) \<Longrightarrow> distinct (map fst (invalidateMany pids m))"
  unfolding invalidateMany_def invalidatePermissionCache_def
  by (induction pids arbitrary: m) (auto intro: distinct_map_del)

lemma coherent_invalidate:
  assumes "cache_coherent w" and "w_cache w' = invalidateMany pids (w_cache w)"
    and "\<And>pid. pid \<notin> set pids \<Longrightarrow> assignedContext w' pid = assignedContext w pid"
  shows "cache_coherent w'"
  using assms distinct_invalidateMany [of "w_cache w" pids]
  by (auto simp: cache_coherent_def map_of_invalidateMany split: if_splits)

lemma loadRolePermissions_cong:
  "w_roles w' = w_roles w \<Longrightarrow> w_squad w' = w_squad w \<Longrightarrow> w_perms w' = w_perms w \<Longrightarrow>
     loadRolePermissions w' rid = loadRolePermissions w rid"
  by (simp add: lookup_defs cong: option.case_cong)

lemma findPlayer_update:
  assumes "w_players w' = update_rows p f (w_players w)" and "\<And>q. pl_id (f q) = pl_id q"
  shows "findPlayer w' pid = map_option (\<lambda>q. if p q then f q else q) (findPlayer w pid)"
  using assms by (auto simp: findPlayer_def update_rows_def intro!: find_row_map)

text \<open>What a reassignment does to each player.\<close>

lemma reassigns_contexts:
  assumes "reassigns w pids r w'"
  shows "assignedContext w' pid = assignedContext w pid
    \<or> pid \<in> set pids \<and> assignedContext w' pid =
        (case r of None \<Rightarrow> emptyContext
         | Some rid \<Rightarrow> case loadRolePermissions w rid of None \<Rightarrow> emptyContext | Some c \<Rightarrow> c)"
proof -
  obtain p f w1 where f: "updatePlayers p f w = Some w1" "w_players w' = w_players w1"
    "\<forall>q. pl_id (f q) = pl_id q"
    "\<forall>q \<in> set (w_players w). p q \<longrightarrow> pl_role (f q) = r \<and> pl_id q \<in> set pids"
    "w_roles w' = w_roles w" "w_squad w' = w_squad w" "w_perms w' = w_perms w"
    using assms unfolding reassigns_def by blast
  have load: "loadRolePermissions w' rid = loadRolePermissions w rid" for rid
    using f(5-7) by (rule loadRolePermissions_cong)
  have find: "findPlayer w' pid = map_option (\<lambda>q. if p q then f q else q) (findPlayer w pid)"
    using f(2,3) updatePlayers_core(5) [OF f(1)] by (intro findPlayer_update) auto
  show ?thesis
  proof (cases "findPlayer w pid")
    case None
    then show ?thesis using find by (simp add: assignedContext_def)
  next
    case (Some q)
    then have "q \<in> set (w_players w)" "pl_id q = pid" using findPlayer_Some by auto
    then show ?thesis using f(4) Some find
      by (auto simp: assignedContext_def load cong: option.case_cong)
  qed
qed

text \<open>Roles, ids and foreign keys are kept.\<close>

lemma ownerRoleId_cong: "w_roles w' = w_roles w \<Longrightarrow> ownerRoleId w' = ownerRoleId w"
  by (simp add: ownerRoleId_def)

lemma assignable_known:
  "assignable w (Some rid) \<Longrightarrow> rid \<in> role_id ` set (w_roles w)"
  using findRole_Some by (fastforce simp: assignable_def)

lemma assignable_not_owner:
  assumes "wf_world w" and "assignable w (Some rid)"
  shows "ownerRoleId w \<noteq> Some rid"
  using assms ownerRoleId_iff by (auto simp: assignable_def)

lemma reassigns_wf:
  assumes "reassigns w pids r w'" and "assignable w r" and "wf_world w"
  shows "wf_world w'"
proof -
  obtain p f w1 where f: "updatePlayers p f w = Some w1" "w_players w' = w_players w1"
    "\<forall>q. pl_id (f q) = pl_id q" "\<forall>q \<in> set (w_players w). p q \<longrightarrow> pl_role (f q) = r"
    "w_roles w' = w_roles w" "w_squad w' = w_squad w" "w_perms w' = w_perms w"
    using assms(1) unfolding reassigns_def by blast
  have players: "w_players w' = update_rows p f (w_players w)"
    using f(2) updatePlayers_core(5) [OF f(1)] by simp
  have "distinct (map pl_id (w_players w'))"
    using assms(3) f(3) players by (simp add: wf_world_def)
  moreover have "rid \<in> role_id ` set (w_roles w)" if "q \<in> set (w_players w')" "pl_role q = Some rid" for q rid
    using that players f(4) assms(2,3) assignable_known [of w rid]
    by (auto simp: set_update_rows wf_world_def)
  ultimately show ?thesis using assms(3) f by (simp add: wf_world_def)
qed

lemma reassigns_owners:
  assumes "reassigns w pids r w'" and "assignable w r" and "wf_world w"
  shows "ownerRoleId w' = ownerRoleId w" "owners w' \<subseteq> owners w" "owners w \<noteq> {} \<Longrightarrow> owners w' \<noteq> {}"
proof -
  obtain p f w1 where f: "updatePlayers p f w = Some w1" "w_players w' = w_players w1"
    "\<forall>q. pl_id (f q) = pl_id q" "\<forall>q \<in> set (w_players w). p q \<longrightarrow> pl_role (f q) = r"
    "w_roles w' = w_roles w"
    using assms(1) unfolding reassigns_def by blast
  have players: "w_players w' = update_rows p f (w_players w)"
    using f(2) updatePlayers_core(5) [OF f(1)] by simp
  show oid: "ownerRoleId w' = ownerRoleId w" using f(5) by (rule ownerRoleId_cong)
  have "r \<noteq> ownerRoleId w \<or> r = None"
    using assignable_not_owner [OF assms(3)] assms(2) by (cases r) (simp, metis)
  then show "owners w' \<subseteq> owners w"
    using players f(3,4) by (fastforce simp: owners_def oid set_update_rows)
  assume "owners w \<noteq> {}"
  then obtain oid' q where "ownerRoleId w = Some oid'" "q \<in> set (w_players w)" "pl_role q = Some oid'"
    by (auto simp: owners_def)
  moreover from this have "\<exists>q \<in> set (w_players w1). pl_role q = Some oid'"
    using f(1) updatePlayersGuarded_owner [of oid' p f "[]" "w_players w"]
    by (force simp: updatePlayers_def)
  ultimately show "owners w' \<noteq> {}" using f(2) by (auto simp: owners_def oid)
qed

lemma member_change_safe:
  assumes "member_change actor w w'" and "wf_world w"
  shows "safe_step actor w w'"
proof -
  obtain pids r where r: "reassigns w pids r w'" "assignable w r" "checkRoleAssignment w actor pids r = None"
    using assms(1) unfolding member_change_def by blast
  have cache: "w_cache w' = invalidateMany pids (w_cache w)" using r(1) unfolding reassigns_def by blast
  have "assignedContext w' pid = assignedContext w pid" if "pid \<notin> set pids" for pid
    using reassigns_contexts [OF r(1), of pid] that by blast
  then have "cache_coherent w \<longrightarrow> cache_coherent w'" using coherent_invalidate [OF _ cache] by blast
  moreover have "within_caller actor w w'"
    unfolding within_caller_def
  proof (intro allI impI)
    fix a pid assume "actor = Some a" "\<not> isOwner (actor_ctx a)"
    then have "ctx_le role (actor_ctx a)" if "r = Some rid" "loadRolePermissions w rid = Some role" for rid role
      using r(3) that by (elim checkRoleAssignment_None) simp
    then show "assignedContext w' pid = assignedContext w pid \<or> assignedContext w' pid = emptyContext
        \<or> ctx_le (assignedContext w' pid) (actor_ctx a)"
      using reassigns_contexts [OF r(1), of pid] by (auto split: option.splits)
  qed
  ultimately show ?thesis
    using reassigns_wf [OF r(1,2) assms(2)] reassigns_owners [OF r(1,2) assms(2)] by (simp add: safe_step_def)
qed

text \<open>Creating, editing and deleting roles.\<close>

lemma find_row_snoc: "\<not> p x \<Longrightarrow> find_row p (xs @ [x]) = find_row p xs"
  by (simp add: find_row_append split: option.split)

lemma player_role_known:
  assumes "wf_world w" and "findPlayer w pid = Some q" and "pl_role q = Some rid"
  shows "rid \<in> role_id ` set (w_roles w)"
  using assms findPlayer_Some [OF assms(2)] by (auto simp: wf_world_def)

lemma assignedContext_roles:
  assumes "wf_world w" and "w_players w' = w_players w"
    and "\<And>rid. rid \<in> role_id ` set (w_roles w) \<Longrightarrow> pid \<in> set (membersOfRole w rid) \<Longrightarrow>
           loadRolePermissions w' rid = loadRolePermissions w rid"
  shows "assignedContext w' pid = assignedContext w pid"
proof (cases "findPlayer w pid")
  case None
  then show ?thesis using assms(2) by (simp add: assignedContext_def findPlayer_def)
next
  case (Some q)
  have "loadRolePermissions w' rid = loadRolePermissions w rid" if "pl_role q = Some rid" for rid
    using that assms(3) player_role_known [OF assms(1) Some] findPlayer_Some [OF Some]
    by (auto simp: membersOfRole_def)
  then show ?thesis
    using Some assms(2) by (simp add: assignedContext_def findPlayer_def cong: option.case_cong)
qed

lemma role_created_safe:
  assumes "role_created w w'" and "wf_world w"
  shows "safe_step actor w w'"
proof -
  obtain row squad where c: "role_id row \<notin> role_id ` set (w_roles w)"
    "role_name row \<notin> role_name ` set (w_roles w)" "\<not> ownerRole row"
    "w_roles w' = w_roles w @ [row]" "w_squad w' = w_squad w @ map (Pair (role_id row)) squad"
    "w_perms w' = w_perms w" "w_players w' = w_players w" "w_cache w' = w_cache w"
    using assms(1) unfolding role_created_def by blast
  have wf: "wf_world w'"
    using assms(2) c by (auto simp: wf_world_def)
  have oid: "ownerRoleId w' = ownerRoleId w"
    using c(3,4) by (simp add: ownerRoleId_def find_row_snoc)
  have "loadRolePermissions w' rid = loadRolePermissions w rid" if "rid \<in> role_id ` set (w_roles w)" for rid
  proof -
    have "role_id row \<noteq> rid" using that c(1) by auto
    then show ?thesis using c by (simp add: lookup_defs find_row_snoc comp_def cong: option.case_cong)
  qed
  then have same: "assignedContext w' pid = assignedContext w pid" for pid
    using assignedContext_roles [OF assms(2) c(7)] by blast
  have "cache_coherent w \<longrightarrow> cache_coherent w'" using same c(8) by (simp add: cache_coherent_def)
  moreover have "owners w' = owners w" using c(7) by (simp add: owners_def oid)
  ultimately show ?thesis using wf oid same by (simp add: safe_step_def within_caller_def)
qed

lemma role_deleted_safe:
  assumes "role_deleted w w'" and "wf_world w"
  shows "safe_step actor w w'"
proof -
  obtain r where d: "findRole w (role_id r) = Some r" "\<not> ownerRole r"
    "w_roles w' = filter (\<lambda>x. role_id x \<noteq> role_id r) (w_roles w)"
    "w_squad w' = filter (\<lambda>(x, _). x \<noteq> role_id r) (w_squad w)"
    "w_perms w' = filter (\<lambda>(x, _). x \<noteq> role_id r) (w_perms w)"
    "w_players w' = update_rows (\<lambda>p. pl_role p = Some (role_id r)) clearRole (w_players w)" "w_cache w' = []"
    using assms(1) unfolding role_deleted_def by blast
  have ids: "role_id ` set (w_roles w') = role_id ` set (w_roles w) - {role_id r}"
    unfolding d(3) by auto
  have wf: "wf_world w'"
    using assms(2) d(4-6) unfolding wf_world_def ids
    by (auto simp: d(3) set_update_rows distinct_map_filter)
  have "role_id x \<noteq> role_id r" if "x \<in> set (w_roles w)" "ownerRole x" for x
    using that d(1,2) findRole_member [OF assms(2) that(1)] by auto
  then have "find_row ownerRole (w_roles w') = find_row ownerRole (w_roles w)"
    unfolding d(3) by (rule find_row_filter)
  then have oid: "ownerRoleId w' = ownerRoleId w" by (simp add: ownerRoleId_def)
  have not_owner: "ownerRoleId w \<noteq> Some (role_id r)" using ownerRoleId_iff [OF assms(2) d(1)] d(2) by simp
  have owners: "owners w' = owners w"
    using not_owner unfolding owners_def oid d(6) set_update_rows by fastforce
  have find: "findPlayer w' pid = map_option (\<lambda>q. if pl_role q = Some (role_id r) then clearRole q else q)
      (findPlayer w pid)" for pid
    using d(6) by (intro findPlayer_update) simp_all
  have load: "loadRolePermissions w' rid = loadRolePermissions w rid" if "rid \<noteq> role_id r" for rid
  proof -
    have "find_row (\<lambda>x. role_id x = rid) (w_roles w') = find_row (\<lambda>x. role_id x = rid) (w_roles w)"
      unfolding d(3) using that by (intro find_row_filter) auto
    moreover have "squadKeysOf w' rid = squadKeysOf w rid" "permKeysOf w' rid = permKeysOf w rid"
      using that d(4,5) by (auto simp: squadKeysOf_def permKeysOf_def intro!: arg_cong [of _ _ "map snd"] filter_cong)
    ultimately show ?thesis by (simp add: loadRolePermissions_def findRole_def cong: option.case_cong)
  qed
  have "assignedContext w' pid = assignedContext w pid \<or> assignedContext w' pid = emptyContext" for pid
  proof (cases "findPlayer w pid")
    case None
    then show ?thesis using find by (simp add: assignedContext_def)
  next
    case (Some q)
    then show ?thesis using find [of pid] load by (cases "pl_role q") (auto simp: assignedContext_def)
  qed
  then show ?thesis using wf oid owners d(7) by (auto simp: safe_step_def within_caller_def cache_coherent_def)
qed

lemma squadKeysOf_replace:
  assumes "w_squad w' = replaceSquad rid squad (w_squad w)"
  shows "squadKeysOf w' rid = orElse squad (squadKeysOf w rid)"
    "rid' \<noteq> rid \<Longrightarrow> squadKeysOf w' rid' = squadKeysOf w rid'"
proof -
  show "squadKeysOf w' rid = orElse squad (squadKeysOf w rid)"
    using assms by (cases squad) (simp_all add: squadKeysOf_def replaceSquad_def comp_def case_prod_beta)
  have "filter (\<lambda>x. fst x \<noteq> rid \<and> fst x = rid') t = filter (\<lambda>(r, _). r = rid') t"
    if "rid' \<noteq> rid" for t :: "(string \<times> string) list"
    using that by (intro filter_cong) auto
  then show "squadKeysOf w' rid' = squadKeysOf w rid'" if "rid' \<noteq> rid"
    using assms that by (cases squad) (simp_all add: squadKeysOf_def replaceSquad_def comp_def case_prod_beta)
qed

lemma find_row_replaced:
  assumes "\<And>x. x \<in> set t \<Longrightarrow> p x \<Longrightarrow> \<not> q x" and "\<not> q row"
  shows "find_row q (update_rows p (\<lambda>_. row) t) = find_row q t"
  using assms by (induction t) (auto simp: update_rows_def)

lemma find_row_replaced_hit:
  assumes "find_row (\<lambda>x. g x = k) t = Some r" and "g row = k"
  shows "find_row (\<lambda>x. g x = k) (update_rows (\<lambda>x. g x = k) (\<lambda>_. row) t) = Some row"
  using assms by (induction t) (auto simp: update_rows_def split: if_splits)

text \<open>Renaming never produces a second Owner role: its name is taken.\<close>

lemma edited_not_owner:
  assumes "wf_world w" and "ownerRoleId w \<noteq> None" and "findRole w (role_id r) = Some r" and "\<not> ownerRole r"
    and "\<not> list_ex (\<lambda>x. role_id x \<noteq> role_id r \<and> role_name x = role_name row) (w_roles w)"
  shows "\<not> ownerRole row"
proof
  assume own: "ownerRole row"
  obtain x where x: "find_row ownerRole (w_roles w) = Some x"
    using assms(2) by (auto simp: ownerRoleId_def)
  then have "x \<in> set (w_roles w)" "ownerRole x" using find_row_Some by fast+
  moreover have "role_id x \<noteq> role_id r"
    using findRole_member [OF assms(1) calculation(1)] assms(3,4) calculation(2) by (metis option.inject)
  ultimately show False using assms(5) own by (auto simp: list_ex_iff ownerRole_def)
qed

lemma distinct_replaced_name:
  assumes "distinct (map role_id t)" and "distinct (map role_name t)" and "role_id row = k"
    and "\<not> list_ex (\<lambda>x. role_id x \<noteq> k \<and> role_name x = role_name row) t"
  shows "distinct (map role_name (update_rows (\<lambda>x. role_id x = k) (\<lambda>_. row) t))"
  using assms
proof (induction t)
  case (Cons x t)
  let ?u = "update_rows (\<lambda>x. role_id x = k) (\<lambda>_. row)"
  have IH: "distinct (map role_name (?u t))" using Cons by simp
  show ?case
  proof (cases "role_id x = k")
    case True
    then have "\<forall>y \<in> set t. role_id y \<noteq> k"
      using Cons.prems(1) by (metis distinct.simps(2) image_eqI list.simps(9) set_map)
    moreover from this have "?u t = t" by simp
    ultimately show ?thesis
      using True Cons.prems by (fastforce simp: update_rows_def list_ex_iff)
  next
    case False
    then have "role_name x \<notin> role_name ` set (?u t)"
      using Cons.prems by (auto simp: set_update_rows)
    moreover have "?u (x # t) = x # ?u t" using False by (simp add: update_rows_def)
    ultimately show ?thesis using IH by simp
  qed
qed (simp add: update_rows_def)

lemma edits_load:
  assumes "edits w r row squad w'"
  shows "loadRolePermissions w' (role_id r) = Some (proposedContext w row squad)"
    "rid \<noteq> role_id r \<Longrightarrow> loadRolePermissions w' rid = loadRolePermissions w rid"
proof -
  have e: "findRole w (role_id r) = Some r" "role_id row = role_id r"
    "w_roles w' = update_rows (\<lambda>x. role_id x = role_id r) (\<lambda>_. row) (w_roles w)"
    "w_squad w' = replaceSquad (role_id r) squad (w_squad w)" "w_perms w' = w_perms w"
    using assms by (simp_all add: edits_def)
  have perms: "permKeysOf w' k = permKeysOf w k" for k using e(5) by (simp add: permKeysOf_def)
  show "loadRolePermissions w' (role_id r) = Some (proposedContext w row squad)"
    using find_row_replaced_hit [of role_id "role_id r" "w_roles w" r row] e(1,2)
    unfolding loadRolePermissions_def findRole_def e(3) squadKeysOf_replace(1) [OF e(4)] perms
      proposedContext_def by simp
  assume rid: "rid \<noteq> role_id r"
  have "findRole w' rid = findRole w rid"
    unfolding findRole_def e(3) using rid e(2) by (intro find_row_replaced) auto
  then show "loadRolePermissions w' rid = loadRolePermissions w rid"
    using squadKeysOf_replace(2) [OF e(4) rid] perms
    by (simp add: loadRolePermissions_def cong: option.case_cong)
qed

lemma edits_contexts:
  assumes "edits w r row squad w'"
  shows "assignedContext w' pid = assignedContext w pid
    \<or> pid \<in> set (membersOfRole w (role_id r)) \<and> assignedContext w' pid = proposedContext w row squad"
proof (cases "findPlayer w pid")
  case None
  then show ?thesis using assms by (simp add: edits_def assignedContext_def findPlayer_def)
next
  case (Some q)
  moreover have "findPlayer w' pid = findPlayer w pid" using assms by (simp add: edits_def findPlayer_def)
  ultimately show ?thesis
    using edits_load [OF assms] findPlayer_Some [OF Some]
    by (cases "pl_role q"; cases "pl_role q = Some (role_id r)")
      (auto simp: assignedContext_def membersOfRole_def)
qed

lemma edits_owner:
  assumes "edits w r row squad w'" and "wf_world w" and "ownerRoleId w \<noteq> None"
  shows "ownerRoleId w' = ownerRoleId w"
proof -
  have e: "findRole w (role_id r) = Some r" "\<not> ownerRole r"
    "\<not> list_ex (\<lambda>x. role_id x \<noteq> role_id r \<and> role_name x = role_name row) (w_roles w)"
    "w_roles w' = update_rows (\<lambda>x. role_id x = role_id r) (\<lambda>_. row) (w_roles w)"
    using assms(1) by (simp_all add: edits_def)
  have "\<not> ownerRole x" if "x \<in> set (w_roles w)" "role_id x = role_id r" for x
    using findRole_member [OF assms(2) that(1)] that(2) e(1,2) by (metis option.inject)
  then have "find_row ownerRole (w_roles w') = find_row ownerRole (w_roles w)"
    unfolding e(4) using edited_not_owner [OF assms(2,3) e(1-3)] by (rule find_row_replaced)
  then show ?thesis by (simp add: ownerRoleId_def)
qed

lemma edits_wf:
  assumes "edits w r row squad w'" and "wf_world w"
  shows "wf_world w'"
proof -
  have e: "findRole w (role_id r) = Some r" "role_id row = role_id r"
    "w_roles w' = update_rows (\<lambda>x. role_id x = role_id r) (\<lambda>_. row) (w_roles w)"
    "w_squad w' = replaceSquad (role_id r) squad (w_squad w)"
    using assms(1) by (simp_all add: edits_def)
  have ids: "map role_id (w_roles w') = map role_id (w_roles w)"
    unfolding e(3) update_rows_def using e(2) by simp
  then have "role_id ` set (w_roles w') = role_id ` set (w_roles w)" by (metis set_map)
  moreover have "role_id r \<in> role_id ` set (w_roles w)" using findRole_Some(1) [OF e(1)] by simp
  then have "fst ` set (w_squad w') \<subseteq> role_id ` set (w_roles w)"
    using assms(2) e(4) by (cases squad) (auto simp: replaceSquad_def wf_world_def)
  moreover have "distinct (map role_name (w_roles w'))"
    unfolding e(3) using assms e(2) by (intro distinct_replaced_name) (auto simp: edits_def wf_world_def)
  ultimately show ?thesis using assms ids by (simp add: edits_def wf_world_def)
qed

lemma role_edited_safe:
  assumes "role_edited actor w w'" and "wf_world w" and "ownerRoleId w \<noteq> None"
  shows "safe_step actor w w'"
proof -
  obtain r row squad where e: "edits w r row squad w'"
    "checkGrantsWithinActor actor (proposedContext w row squad) = None"
    using assms(1) unfolding role_edited_def by blast
  have cache: "w_cache w' = invalidateMany (membersOfRole w (role_id r)) (w_cache w)"
    and players: "w_players w' = w_players w"
    using e(1) by (simp_all add: edits_def)
  have "cache_coherent w \<longrightarrow> cache_coherent w'"
    using coherent_invalidate [OF _ cache] edits_contexts [OF e(1)] by blast
  moreover have "within_caller actor w w'"
    unfolding within_caller_def
  proof (intro allI impI)
    fix a pid assume "actor = Some a" "\<not> isOwner (actor_ctx a)"
    then have "ctx_le (proposedContext w row squad) (actor_ctx a)"
      using e(2) by (simp add: checkGrantsWithinActor_None)
    then show "assignedContext w' pid = assignedContext w pid \<or> assignedContext w' pid = emptyContext
        \<or> ctx_le (assignedContext w' pid) (actor_ctx a)"
      using edits_contexts [OF e(1), of pid] by auto
  qed
  ultimately show ?thesis
    using edits_wf [OF e(1) assms(2)] edits_owner [OF e(1) assms(2,3)] players
    by (simp add: safe_step_def owners_def)
qed

lemma handle_safe:
  assumes "wf_world w" and "ownerRoleId w \<noteq> None"
  shows "safe_step actor w (snd (handle now actor oper w))"
  using handle_change [OF assms(1), of actor now oper] safe_step_refl [OF assms(1)] assms
    member_change_safe role_created_safe role_edited_safe role_deleted_safe
  unfolding role_change_def by metis

section \<open>Requests and runs\<close>

text \<open>The invariant of the panel: keys, the seeded Owner role, a coherent permission cache.\<close>

definition panel_ok :: "world \<Rightarrow> bool" where
  "panel_ok w \<longleftrightarrow> wf_world w \<and> ownerRoleId w \<noteq> None \<and> cache_coherent w"

text \<open>The caller the hook authenticates, if it lets the request through.\<close>

definition callerOf :: "server_env \<Rightarrow> int \<Rightarrow> request \<Rightarrow> role_op \<Rightarrow> world \<Rightarrow> role_actor option" where
  "callerOf env now rq oper w =
     (case fst (authHook (se_hash env) (se_mac env) (se_token_hash env) (se_config env) now
                  (routeOf oper) rq w) of
        Proceed a \<Rightarrow> ra_user a
      | _ \<Rightarrow> None)"

lemma serve_cases:
  obtains (refused) w1 where "callerOf env now rq oper w = None" "snd (serve env now rq oper w) = w1"
      "cache_coherent w \<Longrightarrow> same_tables w w1 \<and> cache_coherent w1"
  | (handled) u w1 where "callerOf env now rq oper w = Some u"
      "serve env now rq oper w = handle now (Some u) oper w1"
      "requiredPermission oper \<in> set (permissions (actor_ctx u))"
      "cache_coherent w \<Longrightarrow> same_tables w w1 \<and> cache_coherent w1
         \<and> ctx_le (actor_ctx u) (assignedContext w (actor_id u))"
proof -
  obtain out w1 where hook: "authHook (se_hash env) (se_mac env) (se_token_hash env) (se_config env) now
      (routeOf oper) rq w = (out, w1)" by fastforce
  have tables: "same_tables w w1 \<and> cache_coherent w1" if "cache_coherent w"
    using authHook_ok(1,2) [OF that hook] by simp
  show thesis
  proof (cases out)
    case (Proceed a)
    obtain u where u: "ra_user a = Some u" "requiredPermission oper \<in> set (permissions (actor_ctx u))"
      using authHook_Proceed [OF hook [unfolded Proceed]] by (auto simp: routeOf_def)
    have "ctx_le (actor_ctx u) (assignedContext w (actor_id u))" if "cache_coherent w"
      using authHook_ok(3) [OF that hook Proceed u(1)] by simp
    then show thesis
      using handled [of u w1] u hook Proceed tables by (simp add: serve_def callerOf_def)
  qed (use refused [of w1] hook tables in \<open>simp_all add: serve_def callerOf_def\<close>)
qed

text \<open>A sequence of requests; with \<open>strict\<close>, none of them by a caller acting as Owner.\<close>

inductive role_run :: "bool \<Rightarrow> server_env \<Rightarrow> world \<Rightarrow> world \<Rightarrow> bool" for strict env where
  start: "role_run strict env w w"
| request: "role_run strict env w w1 \<Longrightarrow>
    (\<And>u. strict \<Longrightarrow> callerOf env now rq oper w1 = Some u \<Longrightarrow> \<not> isOwner (actor_ctx u)) \<Longrightarrow>
    role_run strict env w (snd (serve env now rq oper w1))"

lemma serve_ok:
  assumes "panel_ok w" and w'_def: "w' = snd (serve env now rq oper w)"
  shows "panel_ok w'" "ownerRoleId w' = ownerRoleId w" "owners w' \<subseteq> owners w"
    "owners w \<noteq> {} \<Longrightarrow> owners w' \<noteq> {}"
proof -
  have ok: "wf_world w" "ownerRoleId w \<noteq> None" "cache_coherent w" using assms(1) by (auto simp: panel_ok_def)
  have all: "panel_ok w' \<and> ownerRoleId w' = ownerRoleId w \<and> owners w' \<subseteq> owners w
      \<and> (owners w \<noteq> {} \<longrightarrow> owners w' \<noteq> {})"
  proof (cases rule: serve_cases [of env now rq oper w])
    case (refused w1)
    then show ?thesis
      using ok same_tables_facts [of w w1] by (simp add: w'_def panel_ok_def)
  next
    case (handled u w1)
    then have t: "same_tables w w1" "cache_coherent w1" using ok by auto
    note facts = same_tables_facts [OF t(1)]
    have "safe_step (Some u) w1 w'"
      unfolding w'_def handled(2) using ok facts by (intro handle_safe) auto
    then show ?thesis using ok facts t(2) by (auto simp: safe_step_def panel_ok_def)
  qed
  then show "panel_ok w'" "ownerRoleId w' = ownerRoleId w" "owners w' \<subseteq> owners w"
    "owners w \<noteq> {} \<Longrightarrow> owners w' \<noteq> {}" by auto
qed

text \<open>A request by a caller who is not Owner stays within what somebody already had.\<close>

lemma serve_covered:
  assumes "panel_ok w" and "\<And>u. callerOf env now rq oper w = Some u \<Longrightarrow> \<not> isOwner (actor_ctx u)"
  shows "go.covered (assignedContext (snd (serve env now rq oper w))) (assignedContext w)"
proof (cases rule: serve_cases [of env now rq oper w])
  case (refused w1)
  then have "assignedContext (snd (serve env now rq oper w)) = assignedContext w"
    using assms(1) same_tables_facts(2) [of w w1] by (auto simp: panel_ok_def)
  then show ?thesis by (simp add: go.covered_refl)
next
  case (handled u w1)
  let ?w' = "snd (serve env now rq oper w)"
  have t: "same_tables w w1" and le: "ctx_le (actor_ctx u) (assignedContext w (actor_id u))"
    using handled(4) assms(1) by (auto simp: panel_ok_def)
  note facts = same_tables_facts [OF t]
  have "safe_step (Some u) w1 ?w'"
    unfolding handled(2) using assms(1) facts by (intro handle_safe) (auto simp: panel_ok_def)
  then have "within_caller (Some u) w1 ?w'" by (simp add: safe_step_def)
  then have "assignedContext ?w' p = assignedContext w p \<or> assignedContext ?w' p = emptyContext
      \<or> ctx_le (assignedContext ?w' p) (actor_ctx u)" for p
    using assms(2) [OF handled(1)] facts(2) by (simp add: within_caller_def)
  then show ?thesis
    using le by (intro go.covered_step [of _ _ "actor_ctx u"]) (metis grantsBeyond_Nil)
qed

lemma role_run_ok:
  assumes "role_run strict env w w'" and "panel_ok w"
  shows "panel_ok w' \<and> ownerRoleId w' = ownerRoleId w \<and> owners w' \<subseteq> owners w
    \<and> (owners w \<noteq> {} \<longrightarrow> owners w' \<noteq> {})"
  using assms
proof (induction rule: role_run.induct)
  case (start w)
  then show ?case by simp
next
  case (request w w1 now rq oper)
  then show ?case using serve_ok [OF _ refl, of w1 env now rq oper] by auto
qed

lemma role_run_covered:
  assumes "role_run True env w w'" and "panel_ok w"
  shows "go.covered (assignedContext w') (assignedContext w)"
  using assms
proof (induction rule: role_run.induct)
  case (start w)
  then show ?case by (simp add: go.covered_refl)
next
  case (request w w1 now rq oper)
  have "panel_ok w1" using role_run_ok [OF request.hyps(1) request.prems] by simp
  then have "go.covered (assignedContext (snd (serve env now rq oper w1))) (assignedContext w1)"
    using request.hyps(2) by (intro serve_covered) auto
  then show ?case using request by (blast intro: go.covered_trans)
qed

section \<open>Properties\<close>


text \<open>
  C2: The panel keeps an Owner.  Whatever sequence of requests the role and membership routes serve,
  including requests by Owners, the Owner role stays the same role, no request makes anybody an Owner,
  and if there was an Owner there still is one.
\<close>

theorem owner_kept:
  assumes "panel_ok w" and "role_run False env w w'"
  shows "ownerRoleId w' = ownerRoleId w \<and> owners w' \<subseteq> owners w \<and> (owners w \<noteq> {} \<longrightarrow> owners w' \<noteq> {})"
  using role_run_ok [OF assms(2,1)] by simp

text \<open>
  C8: Invariant of the role store.  Every sequence of requests keeps the primary and foreign keys of
  the role tables, the Owner role, and the coherence of the permission cache: a cached context never
  exceeds what the player's role grants now, so a demotion takes effect at once.
\<close>

theorem panel_invariant:
  assumes "panel_ok w" and "role_run False env w w'"
  shows "panel_ok w'
    \<and> (\<forall>pid c. cacheHit now pid (w_cache w') = Some c \<longrightarrow> ctx_le c (assignedContext w' pid))"
  using role_run_ok [OF assms(2,1)] cacheHit_le by (auto simp: panel_ok_def)


section \<open>A concrete run\<close>

text \<open>\<open>alice\<close>, a moderator, gives \<open>bob\<close> the guest role.\<close>

definition demoEnv :: server_env where
  "demoEnv = \<lparr>se_hash = demoHash, se_mac = demoMac, se_token_hash = demoHash, se_config = demoAuthConfig\<rparr>"

definition demoAssign :: role_op where
  "demoAssign = AssignRole ''bob'' \<lparr>ra_role_id = Some ''r3'', ra_expires_at = None, ra_comment = None\<rparr>"

definition demoAfter :: world where
  "demoAfter = snd (serve demoEnv 7 demoRequest demoAssign demoWorld)"

lemma demoWorld_ok: "panel_ok demoWorld"
  unfolding panel_ok_def using demoWorld_coherent
  by (simp add: demoWorld_def wf_world_def ownerRoleId_def demoRole_def demoPlayer_def ownerRole_def)

lemma demoCaller:
  "(case callerOf demoEnv 7 demoRequest demoAssign demoWorld of None \<Rightarrow> False
    | Some u \<Rightarrow> actor_id u = ''alice'' \<and> \<not> isOwner (actor_ctx u))"
  by code_simp

lemma demoAfter_players: "map pl_role (w_players demoAfter) = [Some ''r1'', Some ''r2'', Some ''r3'']"
  by code_simp

lemma demo_run: "role_run strict demoEnv demoWorld demoAfter"
  unfolding demoAfter_def
  using demoCaller by (intro role_run.request role_run.start) (auto split: option.splits)


lemma demo_owners: "owners demoWorld = {''carol''}" "ownerRoleId demoWorld = Some ''r1''"
proof -
  show oid: "ownerRoleId demoWorld = Some ''r1''"
    by (simp add: demoWorld_def ownerRoleId_def demoRole_def ownerRole_def)
  show "owners demoWorld = {''carol''}"
    unfolding set_eq_iff owners_iff oid by (auto simp: demoWorld_def demoPlayer_def)
qed

theorem owner_kept_witness: "ownerRoleId demoAfter = Some ''r1'' \<and> owners demoAfter = {''carol''}"
proof -
  have "owners demoAfter \<subseteq> {''carol''}" "owners demoAfter \<noteq> {}" "ownerRoleId demoAfter = Some ''r1''"
    using owner_kept [OF demoWorld_ok demo_run] by (auto simp: demo_owners)
  then show ?thesis by blast
qed

theorem panel_invariant_witness: "panel_ok demoAfter"
  using panel_invariant [OF demoWorld_ok demo_run] by blast

lemma demoAfter_differs: "\<not> same_tables demoWorld demoAfter"
proof
  assume "same_tables demoWorld demoAfter"
  then have "map pl_role (w_players demoAfter) = map pl_role (w_players demoWorld)"
    by (simp add: same_tables_def)
  then show False using demoAfter_players by (simp add: demoWorld_def demoPlayer_def)
qed


end
