(* ===== verification/Byte_Streams.thy ===== *)
theory Byte_Streams
  imports Prelude "HOL-Library.Word"
begin

text \<open>
  Shared ground of the stream decoders (\<^verbatim>\<open>rcon/src/protocol.ts\<close>, \<^verbatim>\<open>bridge-client/src/frame.ts\<close>): bytes,
  32-bit integers on the wire, and the interface \<open>buffered_parser\<close> of a decoder that keeps the bytes
  it cannot interpret yet.  The interface says what one iteration of the decoding loop may do; its
  lemmas show that decoding does not depend on how the byte stream is cut into chunks.
\<close>

section \<open>Bytes and 32-bit integers\<close>

type_synonym byte = "8 word"

definition byte4 :: "nat \<Rightarrow> byte list" where
  "byte4 n = [word_of_nat n, word_of_nat (n div 256), word_of_nat (n div 65536), word_of_nat (n div 16777216)]"

text \<open>\<^verbatim>\<open>writeInt32LE\<close>/\<^verbatim>\<open>writeUInt32BE\<close>: the four bytes, least or most significant first.\<close>

definition write32LE :: "nat \<Rightarrow> byte list" where "write32LE n = byte4 n"
definition write32BE :: "nat \<Rightarrow> byte list" where "write32BE n = rev (byte4 n)"

fun u32LE :: "byte list \<Rightarrow> nat" where
  "u32LE (a # b # c # d # _) = unat a + 256 * unat b + 65536 * unat c + 16777216 * unat d"
| "u32LE _ = 0"

fun readUInt32BE :: "byte list \<Rightarrow> nat" where
  "readUInt32BE (d # c # b # a # _) = unat a + 256 * unat b + 65536 * unat c + 16777216 * unat d"
| "readUInt32BE _ = 0"

definition word32LE :: "byte list \<Rightarrow> 32 word" where
  "word32LE bs = word_of_nat (u32LE bs)"

definition readInt32LE :: "byte list \<Rightarrow> int" where
  "readInt32LE bs = sint (word32LE bs)"

lemma digits4:
  "n < 4294967296 \<Longrightarrow> n mod 256 + 256 * (n div 256 mod 256) + 65536 * (n div 65536 mod 256)
     + 16777216 * (n div 16777216 mod 256) = (n :: nat)"
proof -
  assume n: "n < 4294967296"
  define p q r where "p = n div 256" and "q = p div 256" and "r = q div 256"
  have "n = 256 * p + n mod 256" "p = 256 * q + p mod 256" "q = 256 * r + q mod 256"
    by (simp_all add: p_def q_def r_def)
  moreover have "n div 65536 = q" "n div 16777216 = r"
    by (simp_all add: p_def q_def r_def div_mult2_eq [symmetric])
  moreover from n have "r < 256" by (simp add: p_def q_def r_def div_mult2_eq [symmetric] less_mult_imp_div_less)
  ultimately show ?thesis by (simp flip: p_def)
qed

lemma u32LE_write: "n < 2 ^ 32 \<Longrightarrow> u32LE (write32LE n @ r) = n"
  using digits4 [of n] by (simp add: write32LE_def byte4_def unsigned_of_nat take_bit_eq_mod)

lemma readUInt32BE_write: "n < 2 ^ 32 \<Longrightarrow> readUInt32BE (write32BE n @ r) = n"
  using digits4 [of n] by (simp add: write32BE_def byte4_def unsigned_of_nat take_bit_eq_mod)

lemma word32LE_write [simp]: "word32LE (write32LE (unat w) @ r) = w"
  using u32LE_write [of "unat w" r] unsigned_less [of w, where 'a = nat] by (simp add: word32LE_def)

lemma readInt32LE_write: "n < 2 ^ 31 \<Longrightarrow> readInt32LE (write32LE n @ r) = int n"
  using u32LE_write [of n r]
  by (simp add: readInt32LE_def word32LE_def signed_of_nat signed_take_bit_int_eq_self)

lemma length_write32 [simp]: "length (write32LE n) = 4" "length (write32BE n) = 4"
  by (simp_all add: write32LE_def write32BE_def byte4_def)

lemma u32LE_append: "4 \<le> length bs \<Longrightarrow> u32LE (bs @ r) = u32LE bs"
  by (cases bs rule: u32LE.cases) auto

lemma readUInt32BE_append: "4 \<le> length bs \<Longrightarrow> readUInt32BE (bs @ r) = readUInt32BE bs"
  by (cases bs rule: readUInt32BE.cases) auto

lemma word32LE_append: "4 \<le> length bs \<Longrightarrow> word32LE (bs @ r) = word32LE bs"
  by (simp add: word32LE_def u32LE_append)

lemma readInt32LE_append: "4 \<le> length bs \<Longrightarrow> readInt32LE (bs @ r) = readInt32LE bs"
  by (simp add: readInt32LE_def word32LE_append)

section \<open>The interface of a buffering decoder\<close>

datatype ('o, 's) step = Need | Bad | Emit "'o list" 's nat

locale buffered_parser =
  fixes step :: "'s \<Rightarrow> 'b list \<Rightarrow> ('o, 's) step"
    and loop :: "'s \<Rightarrow> 'b list \<Rightarrow> ('o list \<times> 's \<times> 'b list) option"
    and rank :: "'s \<Rightarrow> nat"
  assumes loop_Need: "step s buf = Need \<Longrightarrow> loop s buf = Some ([], s, buf)"
    and loop_Bad: "step s buf = Bad \<Longrightarrow> loop s buf = None"
    and loop_Emit: "step s buf = Emit os s' n \<Longrightarrow>
      loop s buf = map_option (\<lambda>(os', s'', rest). (os @ os', s'', rest)) (loop s' (drop n buf))"
    and emit_mono: "step s buf = Emit os s' n \<Longrightarrow> step s (buf @ more) = Emit os s' n"
    and bad_mono: "step s buf = Bad \<Longrightarrow> step s (buf @ more) = Bad"
    and emit_consumes: "step s buf = Emit os s' n \<Longrightarrow> n \<le> length buf"
    and emit_progress: "step s buf = Emit os s' n \<Longrightarrow> 0 < n \<or> rank s' < rank s"
begin

text \<open>Two results in sequence.\<close>

definition andThen ::
  "('o list \<times> 's \<times> 'b list) option \<Rightarrow> ('s \<Rightarrow> 'b list \<Rightarrow> ('o list \<times> 's \<times> 'b list) option)
   \<Rightarrow> ('o list \<times> 's \<times> 'b list) option" where
  "andThen r k = (case r of None \<Rightarrow> None
     | Some (os, s, rest) \<Rightarrow> map_option (\<lambda>(os', s'', rest'). (os @ os', s'', rest')) (k s rest))"

lemma loop_append: "loop s (a @ b) = andThen (loop s a) (\<lambda>s1 rest. loop s1 (rest @ b))"
proof (induction "(length a, rank s)" arbitrary: a s rule: wf_induct_rule [OF wf_lex_prod [OF wf_less_than wf_less_than]])
  case (1 a s)
  show ?case
  proof (cases "step s a")
    case Need
    then show ?thesis
      by (simp add: loop_Need andThen_def case_prod_unfold option.map_ident)
  next
    case Bad
    then show ?thesis using bad_mono [OF Bad] by (simp add: loop_Bad andThen_def)
  next
    case (Emit os s' n)
    have n: "n \<le> length a" by (rule emit_consumes [OF Emit])
    have "((length (drop n a), rank s'), (length a, rank s)) \<in> less_than <*lex*> less_than"
      using emit_progress [OF Emit] n by auto
    then have "loop s' (drop n a @ b) = andThen (loop s' (drop n a)) (\<lambda>s1 rest. loop s1 (rest @ b))"
      using 1 by blast
    then show ?thesis
      using loop_Emit [OF Emit] loop_Emit [OF emit_mono [OF Emit, of b]] n
      by (simp add: andThen_def option.map_comp comp_def case_prod_unfold split: option.split)
  qed
qed

text \<open>After a run the leftover is not decodable yet: running again changes nothing.\<close>

lemma loop_leftover: "loop s buf = Some (os, s', rest) \<Longrightarrow> step s' rest = Need"
proof (induction "(length buf, rank s)" arbitrary: buf s os rule: wf_induct_rule [OF wf_lex_prod [OF wf_less_than wf_less_than]])
  case (1 buf s)
  show ?case
  proof (cases "step s buf")
    case (Emit os1 s1 n)
    have n: "n \<le> length buf" by (rule emit_consumes [OF Emit])
    have "((length (drop n buf), rank s1), (length buf, rank s)) \<in> less_than <*lex*> less_than"
      using emit_progress [OF Emit] n by auto
    moreover obtain os2 where "loop s1 (drop n buf) = Some (os2, s', rest)"
      using "1.prems" loop_Emit [OF Emit] by auto
    ultimately show ?thesis using 1 by blast
  qed (use "1.prems" in \<open>auto simp: loop_Need loop_Bad\<close>)
qed

text \<open>Feeding a list of chunks, keeping the leftover in front of the next chunk.\<close>

fun chunked :: "'s \<Rightarrow> 'b list \<Rightarrow> 'b list list \<Rightarrow> ('o list \<times> 's \<times> 'b list) option" where
  "chunked s buf [] = Some ([], s, buf)"
| "chunked s buf (c # cs) = andThen (loop s (buf @ c)) (\<lambda>s1 rest. chunked s1 rest cs)"

lemma andThen_assoc: "andThen (andThen r f) g = andThen r (\<lambda>s rest. andThen (f s rest) g)"
  by (auto simp: andThen_def option.map_comp comp_def case_prod_unfold split: option.split)

lemma chunked_concat: "step s buf = Need \<Longrightarrow> chunked s buf cs = loop s (buf @ concat cs)"
proof (induction cs arbitrary: s buf)
  case Nil
  then show ?case by (simp add: loop_Need)
next
  case (Cons c cs)
  have "andThen (loop s (buf @ c)) (\<lambda>s1 rest. chunked s1 rest cs)
      = andThen (loop s (buf @ c)) (\<lambda>s1 rest. loop s1 (rest @ concat cs))"
    using Cons.IH loop_leftover by (auto simp: andThen_def split: option.split)
  then show ?case using loop_append [of s "buf @ c" "concat cs"] by simp
qed

end

end
