(* ===== verification/Rcon_Protocol.thy ===== *)
theory Rcon_Protocol
  imports Byte_Streams
begin

text \<open>
  The RCON packet codec of \<^verbatim>\<open>apps/workers/rcon/src/protocol.ts\<close>.  A packet body is kept as the bytes of
  its UTF-8 text; \<open>id\<close> and \<open>type\<close> are 32-bit words.  \<open>pushLoop\<close> is the loop of
  \<^verbatim>\<open>RconPacketStream.push\<close>: its value is the packets decoded, the two fields that track Squad's broken
  answer to the empty probe, and the unread bytes, or None where the code throws.
\<close>

section \<open>Packets\<close>

record rcon_packet =
  pk_id :: "32 word"
  pk_type :: "32 word"
  pk_body :: "byte list"

definition SERVERDATA_RESPONSE_VALUE :: "32 word" where "SERVERDATA_RESPONSE_VALUE = 0"
definition SERVERDATA_CHAT_VALUE :: "32 word" where "SERVERDATA_CHAT_VALUE = 1"

definition encodePacket :: "rcon_packet \<Rightarrow> byte list" where
  "encodePacket p =
     (let payload = write32LE (unat (pk_id p)) @ write32LE (unat (pk_type p)) @ pk_body p @ [0, 0]
      in write32LE (length payload) @ payload)"

definition SQUAD_BROKEN_PROBE_TAIL :: "byte list" where
  "SQUAD_BROKEN_PROBE_TAIL = [0, 1, 0, 0, 0, 0, 0]"

definition MAX_RCON_PACKET_SIZE :: nat where "MAX_RCON_PACKET_SIZE = 1024 * 1024"
definition EMPTY_FRAME_SIZE :: nat where "EMPTY_FRAME_SIZE = 10"

section \<open>The stream\<close>

record rcon_flags =
  lastEmptyResponseId :: "32 word option"
  expectProbeTail :: bool

definition trackProbeEcho :: "32 word \<Rightarrow> 32 word \<Rightarrow> nat \<Rightarrow> rcon_flags \<Rightarrow> rcon_flags" where
  "trackProbeEcho i t sz f =
     (if t \<noteq> SERVERDATA_RESPONSE_VALUE \<or> sz \<noteq> EMPTY_FRAME_SIZE then f
      else if lastEmptyResponseId f = Some i
      then f\<lparr>expectProbeTail := True, lastEmptyResponseId := None\<rparr>
      else f\<lparr>lastEmptyResponseId := Some i\<rparr>)"

definition framePacket :: "nat \<Rightarrow> byte list \<Rightarrow> rcon_packet" where
  "framePacket sz buf =
     \<lparr>pk_id = word32LE (drop 4 buf), pk_type = word32LE (drop 8 buf),
      pk_body = drop 12 (take (4 + sz - 2) buf)\<rparr>"

definition badSize :: "byte list \<Rightarrow> bool" where
  "badSize buf \<longleftrightarrow> readInt32LE buf < int EMPTY_FRAME_SIZE \<or> int MAX_RCON_PACKET_SIZE < readInt32LE buf"

definition tailPrefix :: "byte list \<Rightarrow> bool" where
  "tailPrefix buf \<longleftrightarrow>
     (let n = min (length buf) (length SQUAD_BROKEN_PROBE_TAIL)
      in take n buf = take n SQUAD_BROKEN_PROBE_TAIL)"

function pushLoop ::
  "rcon_flags \<Rightarrow> byte list \<Rightarrow> (rcon_packet list \<times> rcon_flags \<times> byte list) option" where
  "pushLoop f buf =
     (if buf = [] then Some ([], f, buf)
      else if expectProbeTail f \<and> tailPrefix buf
      then (if length buf < length SQUAD_BROKEN_PROBE_TAIL then Some ([], f, buf)
            else pushLoop (f\<lparr>expectProbeTail := False\<rparr>) (drop (length SQUAD_BROKEN_PROBE_TAIL) buf))
      else let f = f\<lparr>expectProbeTail := False\<rparr> in
        if length buf < 4 then Some ([], f, buf)
        else if badSize buf then None
        else let sz = nat (readInt32LE buf) in
          if length buf - 4 < sz then Some ([], f, buf)
          else let p = framePacket sz buf in
            map_option (\<lambda>(out, s). (p # out, s))
              (pushLoop (trackProbeEcho (pk_id p) (pk_type p) sz f) (drop (4 + sz) buf)))"
  by pat_completeness auto
termination
  by (relation "measure (\<lambda>(f, buf). length buf)") (auto simp: SQUAD_BROKEN_PROBE_TAIL_def)

declare pushLoop.simps [simp del]

record rcon_stream =
  rs_flags :: rcon_flags
  rs_buf :: "byte list"

definition newStream :: rcon_stream where
  "newStream = \<lparr>rs_flags = \<lparr>lastEmptyResponseId = None, expectProbeTail = False\<rparr>, rs_buf = []\<rparr>"

definition push :: "rcon_stream \<Rightarrow> byte list \<Rightarrow> (rcon_packet list \<times> rcon_stream) option" where
  "push s chunk =
     map_option (\<lambda>(out, f, rest). (out, \<lparr>rs_flags = f, rs_buf = rest\<rparr>)) (pushLoop (rs_flags s) (rs_buf s @ chunk))"

text \<open>The data events of a socket, one push per chunk.\<close>

fun pushAll :: "rcon_stream \<Rightarrow> byte list list \<Rightarrow> (rcon_packet list \<times> rcon_stream) option" where
  "pushAll s [] = Some ([], s)"
| "pushAll s (c # cs) =
     (case push s c of None \<Rightarrow> None
      | Some (out, s') \<Rightarrow> map_option (\<lambda>(out', s''). (out @ out', s'')) (pushAll s' cs))"

section \<open>One iteration, and chunk independence\<close>

text \<open>
  The iteration as the interface sees it.  A mismatch of the expected tail is an iteration of its
  own here that consumes nothing and clears the flag.
\<close>

definition rcon_step :: "rcon_flags \<Rightarrow> byte list \<Rightarrow> (rcon_packet, rcon_flags) step" where
  "rcon_step f buf =
     (if buf = [] then Need
      else if expectProbeTail f
      then (if \<not> tailPrefix buf then Emit [] (f\<lparr>expectProbeTail := False\<rparr>) 0
            else if length buf < 7 then Need else Emit [] (f\<lparr>expectProbeTail := False\<rparr>) 7)
      else if length buf < 4 then Need
      else if badSize buf then Bad
      else if length buf - 4 < nat (readInt32LE buf) then Need
      else let p = framePacket (nat (readInt32LE buf)) buf in
        Emit [p] (trackProbeEcho (pk_id p) (pk_type p) (nat (readInt32LE buf)) f) (4 + nat (readInt32LE buf)))"

lemma length_tail [simp]: "length SQUAD_BROKEN_PROBE_TAIL = 7"
  by (simp add: SQUAD_BROKEN_PROBE_TAIL_def)

lemma badSize_append: "4 \<le> length buf \<Longrightarrow> badSize (buf @ ext) = badSize buf"
  by (simp add: badSize_def readInt32LE_append)

lemma framePacket_append:
  "10 \<le> sz \<Longrightarrow> sz \<le> length buf - 4 \<Longrightarrow> framePacket sz (buf @ ext) = framePacket sz buf"
  by (simp add: framePacket_def word32LE_append)

lemma badSize_size: "\<not> badSize buf \<Longrightarrow> 10 \<le> nat (readInt32LE buf) \<and> nat (readInt32LE buf) \<le> MAX_RCON_PACKET_SIZE"
  by (simp add: badSize_def EMPTY_FRAME_SIZE_def) linarith

lemma tailPrefix_append_long: "7 \<le> length buf \<Longrightarrow> tailPrefix (buf @ ext) = tailPrefix buf"
  by (simp add: tailPrefix_def Let_def)

lemma tailPrefix_appendD: "tailPrefix (buf @ ext) \<Longrightarrow> tailPrefix buf"
proof -
  assume a: "tailPrefix (buf @ ext)"
  let ?n = "min (length buf) 7" and ?m = "min (length (buf @ ext)) 7"
  have "take ?n (take ?m (buf @ ext)) = take ?n (take ?m SQUAD_BROKEN_PROBE_TAIL)"
    using a by (simp add: tailPrefix_def Let_def)
  then show ?thesis by (simp add: tailPrefix_def Let_def min_def split: if_splits)
qed

lemma clear_flag: "\<not> expectProbeTail f \<Longrightarrow> f\<lparr>expectProbeTail := False\<rparr> = f"
  by (cases f) simp

interpretation rp: buffered_parser rcon_step pushLoop "\<lambda>f. if expectProbeTail f then 1 else 0"
proof (unfold_locales, goal_cases)
  case (1 f buf)
  then show ?case
    by (subst pushLoop.simps) (auto simp: rcon_step_def Let_def clear_flag split: if_splits)
next
  case (2 f buf)
  then show ?case
    by (subst pushLoop.simps) (auto simp: rcon_step_def Let_def split: if_splits)
next
  case (3 f buf os f' n)
  show ?case
  proof (cases "expectProbeTail f \<and> \<not> tailPrefix buf")
    case True
    then have "buf \<noteq> []" by (auto simp: tailPrefix_def)
    then have "pushLoop f buf = pushLoop (f\<lparr>expectProbeTail := False\<rparr>) buf"
      using True
      by (simp only: pushLoop.simps [of f buf] pushLoop.simps [of "f\<lparr>expectProbeTail := False\<rparr>" buf]) simp
    then show ?thesis using 3 True
      by (auto simp: rcon_step_def case_prod_unfold option.map_ident split: if_splits)
  next
    case False
    then show ?thesis using 3
      by (subst pushLoop.simps)
        (auto simp: rcon_step_def Let_def clear_flag case_prod_unfold option.map_ident split: if_splits)
  qed
next
  case (4 f buf os f' n ext)
  then show ?case
    using badSize_append [of buf ext] tailPrefix_appendD [of buf ext] tailPrefix_append_long [of buf ext]
      badSize_size [of buf] framePacket_append [of "nat (readInt32LE buf)" buf ext] readInt32LE_append [of buf ext]
    by (auto simp: rcon_step_def Let_def split: if_splits)
next
  case (5 f buf ext)
  then show ?case using badSize_append [of buf ext] by (auto simp: rcon_step_def Let_def split: if_splits)
next
  case (6 f buf os f' n)
  then show ?case by (auto simp: rcon_step_def Let_def split: if_splits)
next
  case (7 f buf os f' n)
  then show ?case by (auto simp: rcon_step_def Let_def split: if_splits)
qed

lemma pushAll_chunked:
  "pushAll s cs = map_option (\<lambda>(out, f, rest). (out, \<lparr>rs_flags = f, rs_buf = rest\<rparr>)) (rp.chunked (rs_flags s) (rs_buf s) cs)"
  by (induction cs arbitrary: s)
    (auto simp: push_def rp.andThen_def option.map_comp comp_def case_prod_unfold split: option.split)

lemma step_new: "rcon_step (rs_flags newStream) (rs_buf newStream) = Need"
  by (simp add: rcon_step_def newStream_def)

lemma newStream_sel [simp]: "rs_buf newStream = []" "expectProbeTail (rs_flags newStream) = False"
  by (simp_all add: newStream_def)

lemma pushAll_new: "pushAll newStream cs = push newStream (concat cs)"
  using rp.chunked_concat [OF step_new] by (simp add: pushAll_chunked push_def)

section \<open>What a stream of sent packets decodes to\<close>

definition encodable :: "rcon_packet \<Rightarrow> bool" where
  "encodable p \<longleftrightarrow> length (pk_body p) + EMPTY_FRAME_SIZE \<le> MAX_RCON_PACKET_SIZE"

definition afterPacket :: "rcon_flags \<Rightarrow> rcon_packet \<Rightarrow> rcon_flags" where
  "afterPacket f p = trackProbeEcho (pk_id p) (pk_type p) (length (pk_body p) + 10) (f\<lparr>expectProbeTail := False\<rparr>)"

text \<open>
  A server's output: each packet with a flag saying whether the broken tail follows it.  The tail only
  follows a second empty echo; where a second echo comes without the tail, the next packet does not
  begin with the seven bytes of the tail.
\<close>

fun rconWire :: "(rcon_packet \<times> bool) list \<Rightarrow> byte list" where
  "rconWire [] = []"
| "rconWire ((p, tailed) # ps) = encodePacket p @ (if tailed then SQUAD_BROKEN_PROBE_TAIL else []) @ rconWire ps"

fun wellSent :: "rcon_flags \<Rightarrow> (rcon_packet \<times> bool) list \<Rightarrow> bool" where
  "wellSent f [] \<longleftrightarrow> True"
| "wellSent f ((p, tailed) # ps) \<longleftrightarrow>
     encodable p \<and> (tailed \<longrightarrow> expectProbeTail (afterPacket f p))
     \<and> (expectProbeTail (afterPacket f p) \<and> \<not> tailed \<and> ps \<noteq> [] \<longrightarrow>
          take 7 (encodePacket (fst (hd ps))) \<noteq> SQUAD_BROKEN_PROBE_TAIL)
     \<and> wellSent (afterPacket f p) ps"

lemma length_encodePacket [simp]: "length (encodePacket p) = 14 + length (pk_body p)"
  by (simp add: encodePacket_def Let_def)

lemma encodable_size: "encodable p \<Longrightarrow> length (pk_body p) + 10 < 2 ^ 31"
  by (simp add: encodable_def EMPTY_FRAME_SIZE_def MAX_RCON_PACKET_SIZE_def)

lemma encodePacket_size: "encodable p \<Longrightarrow> readInt32LE (encodePacket p @ r) = int (length (pk_body p) + 10)"
  using readInt32LE_write [OF encodable_size, of p]
  by (simp add: encodePacket_def Let_def algebra_simps)

lemma encodePacket_fields: "framePacket (length (pk_body p) + 10) (encodePacket p @ r) = p"
  by (simp add: framePacket_def encodePacket_def Let_def)

lemma pushLoop_packet:
  assumes "encodable p" and "\<not> expectProbeTail f \<or> take 7 (encodePacket p) \<noteq> SQUAD_BROKEN_PROBE_TAIL"
  shows "pushLoop f (encodePacket p @ r)
    = map_option (\<lambda>(out, s). (p # out, s)) (pushLoop (afterPacket f p) r)"
proof -
  have sz: "readInt32LE (encodePacket p @ r) = int (length (pk_body p) + 10)"
    by (rule encodePacket_size [OF assms(1)])
  have "\<not> badSize (encodePacket p @ r)"
    using assms(1) by (simp add: badSize_def sz encodable_def EMPTY_FRAME_SIZE_def)
  moreover have "encodePacket p \<noteq> []" using length_encodePacket [of p] by fastforce
  moreover have "\<not> (expectProbeTail f \<and> tailPrefix (encodePacket p @ r))"
    using assms(2) by (simp add: tailPrefix_def Let_def)
  ultimately show ?thesis
    by (subst pushLoop.simps) (auto simp: sz encodePacket_fields afterPacket_def Let_def nat_add_distrib)
qed

lemma pushLoop_tail: "expectProbeTail f \<Longrightarrow>
  pushLoop f (SQUAD_BROKEN_PROBE_TAIL @ r) = pushLoop (f\<lparr>expectProbeTail := False\<rparr>) r"
  by (subst pushLoop.simps) (simp add: tailPrefix_def SQUAD_BROKEN_PROBE_TAIL_def)

lemma wellSent_flag [simp]: "wellSent (f\<lparr>expectProbeTail := b\<rparr>) ps = wellSent f ps"
  by (cases ps) (auto simp: afterPacket_def)

lemma pushLoop_wire:
  "wellSent f ps \<Longrightarrow>
   expectProbeTail f \<and> ps \<noteq> [] \<longrightarrow> take 7 (encodePacket (fst (hd ps))) \<noteq> SQUAD_BROKEN_PROBE_TAIL \<Longrightarrow>
   \<exists>f'. pushLoop f (rconWire ps) = Some (map fst ps, f', [])"
proof (induction ps arbitrary: f)
  case Nil
  then show ?case by (simp add: pushLoop.simps)
next
  case (Cons pt ps)
  obtain p t where pt: "pt = (p, t)" by fastforce
  let ?f = "afterPacket f p"
  have step: "pushLoop f (rconWire (pt # ps)) = map_option (\<lambda>(out, s). (p # out, s))
      (pushLoop ?f ((if t then SQUAD_BROKEN_PROBE_TAIL else []) @ rconWire ps))"
    using Cons.prems pushLoop_packet [of p f] by (auto simp: pt)
  have ws: "wellSent ?f ps" and te: "t \<longrightarrow> expectProbeTail ?f"
    and ne: "expectProbeTail ?f \<and> \<not> t \<and> ps \<noteq> [] \<longrightarrow>
      take 7 (encodePacket (fst (hd ps))) \<noteq> SQUAD_BROKEN_PROBE_TAIL"
    using Cons.prems(1) by (simp_all add: pt)
  show ?case
  proof (cases t)
    case True
    obtain f' where "pushLoop (?f\<lparr>expectProbeTail := False\<rparr>) (rconWire ps) = Some (map fst ps, f', [])"
      using Cons.IH [of "?f\<lparr>expectProbeTail := False\<rparr>"] ws by auto
    then show ?thesis using step True te pushLoop_tail [of ?f "rconWire ps"] by (simp add: pt)
  next
    case False
    then obtain f' where "pushLoop ?f (rconWire ps) = Some (map fst ps, f', [])"
      using Cons.IH [OF ws] ne by blast
    then show ?thesis using step False by (simp add: pt)
  qed
qed

section \<open>Properties\<close>

text \<open>
  What the decoder returns depends only on the bytes received, not on how TCP cuts them: pushing any
  list of chunks into a new stream gives the packets, the state and the error of pushing their
  concatenation at once.
\<close>

lemma rcon_chunk_independent: "pushAll newStream chunks = push newStream (concat chunks)"
  by (rule pushAll_new)

text \<open>
  C24: Every stream of packets a server sends is decoded to exactly those packets, whatever the chunking:
  the seven stray bytes after a second empty echo are removed, and nothing else is, as long as a packet
  that directly follows an untailed second echo does not begin with the bytes of the tail.
\<close>

theorem rcon_decodes_sent_packets:
  assumes "wellSent (rs_flags newStream) sent" and "concat chunks = rconWire sent"
  shows "\<exists>f. pushAll newStream chunks = Some (map fst sent, \<lparr>rs_flags = f, rs_buf = []\<rparr>)"
  using pushLoop_wire [OF assms(1)] assms(2) by (auto simp: pushAll_new push_def)

text \<open>
  The undecoded bytes kept between two chunks stay below the largest frame: four bytes of header and
  \<open>MAX_RCON_PACKET_SIZE\<close> bytes of payload.
\<close>

lemma rcon_buffer_bounded:
  assumes "pushAll newStream chunks = Some (out, s)"
  shows "length (rs_buf s) < 4 + MAX_RCON_PACKET_SIZE"
proof -
  obtain f where "pushLoop (rs_flags newStream) (concat chunks) = Some (out, f, rs_buf s)"
    using assms by (auto simp: pushAll_new push_def)
  then have "rcon_step f (rs_buf s) = Need" by (rule rp.loop_leftover)
  then show ?thesis
    using badSize_size [of "rs_buf s"]
    by (auto simp: rcon_step_def Let_def MAX_RCON_PACKET_SIZE_def split: if_splits)
qed

definition demoEcho :: rcon_packet where "demoEcho = \<lparr>pk_id = 7, pk_type = 0, pk_body = []\<rparr>"
definition demoChat :: rcon_packet where "demoChat = \<lparr>pk_id = 0, pk_type = 1, pk_body = replicate 246 97\<rparr>"
definition demoSent :: "(rcon_packet \<times> bool) list" where
  "demoSent = [(demoEcho, False), (demoEcho, True), (demoChat, False)]"

theorem rcon_decodes_sent_packets_witness:
  "wellSent (rs_flags newStream) demoSent \<and>
   (\<exists>f. pushAll newStream (map (\<lambda>b. [b]) (rconWire demoSent))
      = Some ([demoEcho, demoEcho, demoChat], \<lparr>rs_flags = f, rs_buf = []\<rparr>))"
proof -
  have w: "wellSent (rs_flags newStream) demoSent"
    by (simp add: demoSent_def demoEcho_def demoChat_def newStream_def encodable_def afterPacket_def
        trackProbeEcho_def EMPTY_FRAME_SIZE_def MAX_RCON_PACKET_SIZE_def SERVERDATA_RESPONSE_VALUE_def)
  have "concat (map (\<lambda>b. [b]) xs) = xs" for xs :: "byte list" by (induction xs) auto
  then show ?thesis
    using w rcon_decodes_sent_packets [OF w, of "map (\<lambda>b. [b]) (rconWire demoSent)"] by (simp add: demoSent_def)
qed

lemma rcon_buffer_bounded_example:
  "pushAll newStream [[10], [0, 0]] = Some ([], newStream\<lparr>rs_buf := [10, 0, 0]\<rparr>)
   \<and> length (rs_buf (newStream\<lparr>rs_buf := [10, 0, 0]\<rparr>)) < 4 + MAX_RCON_PACKET_SIZE"
proof -
  have e: "pushAll newStream [[10], [0, 0]] = Some ([], newStream\<lparr>rs_buf := [10, 0, 0]\<rparr>)"
    by (simp add: pushAll_new push_def newStream_def pushLoop.simps)
  then show ?thesis using rcon_buffer_bounded [OF e] by blast
qed

end
