(* ===== verification/Bridge_Frame.thy ===== *)
theory Bridge_Frame
  imports Byte_Streams
begin

text \<open>
  The length-prefixed frames between panel and host bridge, \<^verbatim>\<open>packages/bridge-client/src/frame.ts\<close>.
  \<^verbatim>\<open>decodeFrames\<close> is the reference decoder of one buffer; \<^verbatim>\<open>FrameAccumulator\<close> is the optimised
  incremental one, which queues chunks and joins them only when a frame is complete.  A frame body is
  its list of bytes (the UTF-8 text of \<^verbatim>\<open>JSON.stringify\<close> on the sending side); None is a thrown
  \<^verbatim>\<open>FrameTooLargeError\<close>.
\<close>

section \<open>Encoding and the reference decoder\<close>

definition BRIDGE_MAX_FRAME_BYTES :: nat where "BRIDGE_MAX_FRAME_BYTES = 16 * 1024 * 1024"

definition encodeFrame :: "byte list \<Rightarrow> byte list option" where
  "encodeFrame body =
     (if BRIDGE_MAX_FRAME_BYTES < length body then None else Some (write32BE (length body) @ body))"

function decodeFrames :: "byte list \<Rightarrow> (byte list list \<times> byte list) option" where
  "decodeFrames buffer =
     (if length buffer < 4 then Some ([], buffer)
      else if BRIDGE_MAX_FRAME_BYTES < readUInt32BE buffer then None
      else if length buffer - 4 < readUInt32BE buffer then Some ([], buffer)
      else map_option (\<lambda>(frames, remainder). (take (readUInt32BE buffer) (drop 4 buffer) # frames, remainder))
             (decodeFrames (drop (4 + readUInt32BE buffer) buffer)))"
  by pat_completeness auto
termination
  by (relation "measure length") auto

declare decodeFrames.simps [simp del]

section \<open>The accumulator\<close>

record accumulator =
  chunks :: "byte list list"
  queuedBytes :: nat

definition newAccumulator :: accumulator where
  "newAccumulator = \<lparr>chunks = [], queuedBytes = 0\<rparr>"

definition nextFrameSize :: "accumulator \<Rightarrow> nat" where
  "nextFrameSize acc =
     (let head = hd (chunks acc) in
      readUInt32BE (if 4 \<le> length head then head else take 4 (concat (chunks acc))))"

definition pushFrame :: "accumulator \<Rightarrow> byte list \<Rightarrow> (byte list list \<times> accumulator) option" where
  "pushFrame acc0 chunk =
     (let acc = \<lparr>chunks = chunks acc0 @ [chunk], queuedBytes = queuedBytes acc0 + length chunk\<rparr> in
      if queuedBytes acc < 4 then Some ([], acc)
      else if BRIDGE_MAX_FRAME_BYTES < nextFrameSize acc then None
      else if queuedBytes acc < 4 + nextFrameSize acc then Some ([], acc)
      else let joined = (if length (chunks acc) = 1 then chunk else take (queuedBytes acc) (concat (chunks acc))) in
        map_option (\<lambda>(frames, remainder).
            (frames, \<lparr>chunks = (if 0 < length remainder then [remainder] else []),
                      queuedBytes = length remainder\<rparr>))
          (decodeFrames joined))"

definition resetFrames :: "accumulator \<Rightarrow> accumulator" where
  "resetFrames acc = \<lparr>chunks = [], queuedBytes = 0\<rparr>"

fun pushFrames :: "accumulator \<Rightarrow> byte list list \<Rightarrow> (byte list list \<times> accumulator) option" where
  "pushFrames acc [] = Some ([], acc)"
| "pushFrames acc (c # cs) =
     (case pushFrame acc c of None \<Rightarrow> None
      | Some (frames, acc') \<Rightarrow> map_option (\<lambda>(frames', acc''). (frames @ frames', acc'')) (pushFrames acc' cs))"

section \<open>The reference decoder as a buffering parser\<close>

definition frame_step :: "unit \<Rightarrow> byte list \<Rightarrow> (byte list, unit) step" where
  "frame_step u buf =
     (if length buf < 4 then Need
      else if BRIDGE_MAX_FRAME_BYTES < readUInt32BE buf then Bad
      else if length buf - 4 < readUInt32BE buf then Need
      else Emit [take (readUInt32BE buf) (drop 4 buf)] () (4 + readUInt32BE buf))"

definition frame_loop :: "unit \<Rightarrow> byte list \<Rightarrow> (byte list list \<times> unit \<times> byte list) option" where
  "frame_loop u buf = map_option (\<lambda>(frames, remainder). (frames, (), remainder)) (decodeFrames buf)"

interpretation bf: buffered_parser frame_step frame_loop "\<lambda>_. 0"
proof (unfold_locales, goal_cases)
  case (1 u buf)
  then show ?case
    by (subst frame_loop_def, subst decodeFrames.simps) (auto simp: frame_step_def split: if_splits)
next
  case (2 u buf)
  then show ?case
    by (subst frame_loop_def, subst decodeFrames.simps) (auto simp: frame_step_def split: if_splits)
next
  case (3 u buf os u' n)
  then show ?case
    by (subst frame_loop_def, subst decodeFrames.simps)
      (auto simp: frame_step_def frame_loop_def option.map_comp comp_def case_prod_unfold split: if_splits)
next
  case (4 u buf os u' n more)
  then show ?case using readUInt32BE_append [of buf more] by (auto simp: frame_step_def split: if_splits)
next
  case (5 u buf more)
  then show ?case using readUInt32BE_append [of buf more] by (auto simp: frame_step_def split: if_splits)
qed (auto simp: frame_step_def split: if_splits)

section \<open>The accumulator refines the reference decoder\<close>

text \<open>The queue holds the bytes it counts, and an incomplete frame.\<close>

definition acc_ok :: "accumulator \<Rightarrow> bool" where
  "acc_ok acc \<longleftrightarrow> queuedBytes acc = length (concat (chunks acc)) \<and> frame_step () (concat (chunks acc)) = Need"

lemma readUInt32BE_take: "4 \<le> length xs \<Longrightarrow> readUInt32BE (take 4 xs) = readUInt32BE xs"
  by (cases xs rule: readUInt32BE.cases) auto

lemma nextFrameSize_concat:
  "chunks acc \<noteq> [] \<Longrightarrow> 4 \<le> length (concat (chunks acc)) \<Longrightarrow> nextFrameSize acc = readUInt32BE (concat (chunks acc))"
  using readUInt32BE_take [of "concat (chunks acc)"]
  by (cases "chunks acc") (auto simp: nextFrameSize_def Let_def readUInt32BE_append)

text \<open>One push is the reference decoder on the queue and the chunk.\<close>

lemma pushFrame_decode:
  assumes "acc_ok acc"
  shows "map_option (\<lambda>(frames, acc'). (frames, concat (chunks acc'))) (pushFrame acc chunk)
    = decodeFrames (concat (chunks acc) @ chunk)"
proof -
  define acc1 where "acc1 = \<lparr>chunks = chunks acc @ [chunk], queuedBytes = queuedBytes acc + length chunk\<rparr>"
  have q: "queuedBytes acc1 = length (concat (chunks acc) @ chunk)" "concat (chunks acc1) = concat (chunks acc) @ chunk"
    using assms by (simp_all add: acc1_def acc_ok_def)
  have n: "4 \<le> queuedBytes acc1 \<Longrightarrow> nextFrameSize acc1 = readUInt32BE (concat (chunks acc) @ chunk)"
    using nextFrameSize_concat [of acc1] q by (simp add: acc1_def)
  have j: "(if length (chunks acc1) = 1 then chunk else take (queuedBytes acc1) (concat (chunks acc1)))
      = concat (chunks acc) @ chunk"
    using q by (auto simp: acc1_def)
  have keep: "map_option (\<lambda>(frames, remainder). (frames, concat (if 0 < length remainder then [remainder] else []))) r = r"
    for r :: "(byte list list \<times> byte list) option"
    by (cases r) auto
  have p: "pushFrame acc chunk =
     (if queuedBytes acc1 < 4 then Some ([], acc1)
      else if BRIDGE_MAX_FRAME_BYTES < nextFrameSize acc1 then None
      else if queuedBytes acc1 < 4 + nextFrameSize acc1 then Some ([], acc1)
      else map_option (\<lambda>(frames, remainder).
            (frames, \<lparr>chunks = (if 0 < length remainder then [remainder] else []), queuedBytes = length remainder\<rparr>))
          (decodeFrames (concat (chunks acc) @ chunk)))"
    unfolding pushFrame_def Let_def acc1_def [symmetric] j by (rule refl)
  show ?thesis
  proof (cases "queuedBytes acc1 < 4 + nextFrameSize acc1 \<or> queuedBytes acc1 < 4 \<or> BRIDGE_MAX_FRAME_BYTES < nextFrameSize acc1")
    case True
    have "decodeFrames b = (if length b < 4 then Some ([], b)
        else if BRIDGE_MAX_FRAME_BYTES < readUInt32BE b then None else Some ([], b))"
      if "length b < 4 \<or> BRIDGE_MAX_FRAME_BYTES < readUInt32BE b \<or> length b < 4 + readUInt32BE b" for b
      using that by (subst decodeFrames.simps) (simp add: less_diff_conv2, linarith)
    from this [of "concat (chunks acc) @ chunk"] show ?thesis
      using True n q p by (cases "queuedBytes acc1 < 4") (simp_all split: if_splits)
  next
    case False
    then show ?thesis
      using keep [of "decodeFrames (concat (chunks acc) @ chunk)"] p
      by (simp add: option.map_comp comp_def case_prod_unfold)
  qed
qed

lemma decodeFrames_append:
  "decodeFrames (a @ b) = (case decodeFrames a of None \<Rightarrow> None
     | Some (fs, r) \<Rightarrow> map_option (\<lambda>(fs', r'). (fs @ fs', r')) (decodeFrames (r @ b)))"
  using bf.loop_append [of "()" a b]
  by (cases "decodeFrames (a @ b)"; cases "decodeFrames a"; cases "decodeFrames (snd (the (decodeFrames a)) @ b)")
    (auto simp: frame_loop_def bf.andThen_def option.map_comp comp_def case_prod_unfold split: option.splits)

lemma decodeFrames_leftover: "decodeFrames buf = Some (fs, r) \<Longrightarrow> frame_step () r = Need"
  using bf.loop_leftover [of "()" buf fs "()" r] by (simp add: frame_loop_def)

lemma decodeFrames_need: "frame_step () buf = Need \<Longrightarrow> decodeFrames buf = Some ([], buf)"
  by (subst decodeFrames.simps) (auto simp: frame_step_def split: if_splits)

lemma pushFrame_counts:
  "queuedBytes acc = length (concat (chunks acc)) \<Longrightarrow> pushFrame acc chunk = Some (fs, acc') \<Longrightarrow>
   queuedBytes acc' = length (concat (chunks acc'))"
  by (auto simp: pushFrame_def Let_def split: if_splits)

lemma pushFrame_ok:
  assumes "acc_ok acc" and "pushFrame acc chunk = Some (fs, acc')"
  shows "acc_ok acc'"
proof -
  have "decodeFrames (concat (chunks acc) @ chunk) = Some (fs, concat (chunks acc'))"
    using pushFrame_decode [OF assms(1), of chunk] assms(2) by simp
  then show ?thesis
    using decodeFrames_leftover pushFrame_counts [OF _ assms(2)] assms(1) by (simp add: acc_ok_def)
qed

lemma pushFrames_ok: "acc_ok acc \<Longrightarrow> pushFrames acc cs = Some (fs, acc') \<Longrightarrow> acc_ok acc'"
  by (induction cs arbitrary: acc fs) (auto split: option.splits dest: pushFrame_ok)

lemma pushFrames_decode:
  "acc_ok acc \<Longrightarrow> map_option (\<lambda>(frames, acc'). (frames, concat (chunks acc'))) (pushFrames acc cs)
     = decodeFrames (concat (chunks acc) @ concat cs)"
proof (induction cs arbitrary: acc)
  case Nil
  then show ?case by (simp add: acc_ok_def decodeFrames_need)
next
  case (Cons c cs)
  note d = pushFrame_decode [OF Cons.prems, of c]
  have a: "decodeFrames (concat (chunks acc) @ concat (c # cs)) = (case decodeFrames (concat (chunks acc) @ c) of None \<Rightarrow> None
     | Some (fs, r) \<Rightarrow> map_option (\<lambda>(fs', r'). (fs @ fs', r')) (decodeFrames (r @ concat cs)))"
    using decodeFrames_append [of "concat (chunks acc) @ c" "concat cs"] by simp
  show ?case
  proof (cases "pushFrame acc c")
    case None
    then show ?thesis using a d by simp
  next
    case (Some r)
    obtain fs acc' where r: "r = (fs, acc')" by fastforce
    have d': "decodeFrames (concat (chunks acc) @ c) = Some (fs, concat (chunks acc'))"
      using d Some r by simp
    have "decodeFrames (concat (chunks acc') @ concat cs)
        = map_option (\<lambda>(frames, acc'). (frames, concat (chunks acc'))) (pushFrames acc' cs)"
      using Cons.IH [OF pushFrame_ok [OF Cons.prems Some [unfolded r]]] by simp
    then show ?thesis
      using Some r a d' by (simp add: option.map_comp comp_def case_prod_unfold)
  qed
qed

lemma acc_ok_new: "acc_ok newAccumulator"
  by (simp add: acc_ok_def newAccumulator_def frame_step_def)

lemma acc_ok_reset: "acc_ok (resetFrames acc)"
  by (simp add: acc_ok_def resetFrames_def frame_step_def)

section \<open>Properties\<close>

lemma decodeFrames_encoded:
  "encodeFrame body = Some w \<Longrightarrow> decodeFrames (w @ r) = map_option (\<lambda>(fs, r'). (body # fs, r')) (decodeFrames r)"
  using readUInt32BE_write [of "length body" "body @ r"]
  by (subst decodeFrames.simps) (auto simp: encodeFrame_def BRIDGE_MAX_FRAME_BYTES_def split: if_splits)

lemma decodeFrames_wires:
  "map encodeFrame bodies = map Some wires \<Longrightarrow> decodeFrames (concat wires) = Some (bodies, [])"
proof (induction bodies arbitrary: wires)
  case Nil
  then show ?case by (simp add: decodeFrames.simps)
next
  case (Cons body bodies)
  then obtain w ws where "wires = w # ws" "encodeFrame body = Some w" "map encodeFrame bodies = map Some ws"
    by (cases wires) auto
  then show ?case using Cons.IH [of ws] by (simp add: decodeFrames_encoded)
qed

text \<open>
  C35: The incremental decoder is equivalent to the one-shot decoder: pushing any chunks into a new
  accumulator returns the frames, keeps the unread bytes and fails exactly as \<open>decodeFrames\<close> does on
  the chunks' concatenation.
\<close>

theorem frame_accumulator_refines:
  "map_option (\<lambda>(frames, acc). (frames, concat (chunks acc))) (pushFrames newAccumulator cs)
     = decodeFrames (concat cs)"
  using pushFrames_decode [OF acc_ok_new, of cs] by (simp add: newAccumulator_def)

text \<open>
  Frames round-trip: when every body was accepted by \<open>encodeFrame\<close>, the receiver gets exactly those
  bodies in order, whatever the chunking, and no byte is left over.
\<close>

lemma frame_round_trip:
  assumes "map encodeFrame bodies = map Some wires" and "concat cs = concat wires"
  shows "\<exists>acc. pushFrames newAccumulator cs = Some (bodies, acc) \<and> queuedBytes acc = 0"
proof -
  have "map_option (\<lambda>(frames, acc). (frames, concat (chunks acc))) (pushFrames newAccumulator cs) = Some (bodies, [])"
    using pushFrames_decode [OF acc_ok_new, of cs] decodeFrames_wires [OF assms(1)] assms(2)
    by (simp add: newAccumulator_def)
  then obtain acc where "pushFrames newAccumulator cs = Some (bodies, acc)" "concat (chunks acc) = []"
    by auto
  then show ?thesis using pushFrames_ok [OF acc_ok_new] by (auto simp: acc_ok_def)
qed

lemma frame_round_trip_example:
  "map encodeFrame [[1, 2], []] = map Some [[0, 0, 0, 2, 1, 2], [0, 0, 0, 0]]
   \<and> (\<exists>acc. pushFrames newAccumulator [[0, 0, 0], [2, 1], [2, 0, 0, 0], [0]] = Some ([[1, 2], []], acc)
        \<and> queuedBytes acc = 0)"
proof -
  have e: "map encodeFrame [[1, 2], []] = map Some [[0, 0, 0, 2, 1, 2], [0, 0, 0, 0]]"
    by (simp add: encodeFrame_def BRIDGE_MAX_FRAME_BYTES_def write32BE_def byte4_def)
  then show ?thesis using frame_round_trip [OF e, of "[[0, 0, 0], [2, 1], [2, 0, 0, 0], [0]]"] by simp
qed

text \<open>
  The accumulator counts the bytes it queues, and never queues a whole frame: whatever the peer
  sends, fewer than \<open>4 + BRIDGE_MAX_FRAME_BYTES\<close> bytes are held between two chunks.
\<close>

lemma frame_queue_bounded:
  assumes "pushFrames newAccumulator cs = Some (frames, acc)"
  shows "queuedBytes acc = length (concat (chunks acc)) \<and> queuedBytes acc < 4 + BRIDGE_MAX_FRAME_BYTES"
  using pushFrames_ok [OF acc_ok_new assms]
  by (auto simp: acc_ok_def frame_step_def BRIDGE_MAX_FRAME_BYTES_def split: if_splits)

lemma frame_queue_bounded_example:
  "pushFrames newAccumulator [[0, 0], [0]] = Some ([], \<lparr>chunks = [[0, 0], [0]], queuedBytes = 3\<rparr>)
   \<and> (3 :: nat) < 4 + BRIDGE_MAX_FRAME_BYTES"
proof -
  have e: "pushFrames newAccumulator [[0, 0], [0]] = Some ([], \<lparr>chunks = [[0, 0], [0]], queuedBytes = 3\<rparr>)"
    by (simp add: newAccumulator_def pushFrame_def Let_def)
  then show ?thesis using frame_queue_bounded [OF e] by simp
qed

end
