(* ===== verification/Line_Splitter.thy ===== *)
theory Line_Splitter
  imports Strings
begin

text \<open>
  The chunk-to-line splitter of the log tails, \<^verbatim>\<open>apps/workers/log-ingest/src/line-splitter.ts\<close>.  The two
  captured variables are the state; the calls of the two callbacks are the events a chunk gives, in
  order.  Text is a list of UTF-16 code units, whose number is what JavaScript calls its length.
\<close>

section \<open>The splitter\<close>

definition MAX_PENDING_LINE_CHARS :: nat where "MAX_PENDING_LINE_CHARS = 64 * 1024"

datatype split_event = OnLine jstr | OnOverflow

record splitter =
  pending :: jstr
  discardingUntilNewline :: bool

definition newSplitter :: splitter where
  "newSplitter = \<lparr>pending = [], discardingUntilNewline = False\<rparr>"

definition stripCR :: "jstr \<Rightarrow> jstr" where
  "stripCR text = (if text \<noteq> [] \<and> last text = 13 then butlast text else text)"

definition onPart :: "jstr \<Rightarrow> bool \<Rightarrow> split_event list" where
  "onPart text skipped =
     (let line = stripCR text in if skipped \<or> length line = 0 then [] else [OnLine line])"

text \<open>The \<^verbatim>\<open>forEach\<close> over the terminated parts: the first continues the pending text.\<close>

fun forParts :: "splitter \<Rightarrow> jstr list \<Rightarrow> split_event list \<times> splitter" where
  "forParts s [] = ([], s)"
| "forParts s (part # parts) =
     (onPart (pending s @ part) (discardingUntilNewline s) @ concat (map (\<lambda>p. onPart p False) parts),
      s\<lparr>pending := [], discardingUntilNewline := False\<rparr>)"

definition splitChunk :: "splitter \<Rightarrow> jstr \<Rightarrow> split_event list \<times> splitter" where
  "splitChunk s chunk =
     (let all = split_on 10 chunk;
          unterminated = last all;
          parts = butlast all;
          (events, s1) = forParts s parts;
          carried = (if length parts = 0 then pending s1 @ unterminated else unterminated)
      in if discardingUntilNewline s1 \<or> MAX_PENDING_LINE_CHARS < length carried
         then (events @ (if \<not> discardingUntilNewline s1 then [OnOverflow] else []),
               s1\<lparr>discardingUntilNewline := True, pending := []\<rparr>)
         else (events, s1\<lparr>pending := carried\<rparr>))"

fun splitChunks :: "splitter \<Rightarrow> jstr list \<Rightarrow> split_event list \<times> splitter" where
  "splitChunks s [] = ([], s)"
| "splitChunks s (c # cs) =
     (let (e, s1) = splitChunk s c; (es, s2) = splitChunks s1 cs in (e @ es, s2))"

section \<open>What the text says\<close>

text \<open>The terminated lines of a text, the unterminated rest, and what one line delivers.\<close>

definition rawLines :: "jstr \<Rightarrow> jstr list" where "rawLines t = butlast (split_on 10 t)"
definition rest :: "jstr \<Rightarrow> jstr" where "rest t = last (split_on 10 t)"

fun linesOf :: "split_event list \<Rightarrow> jstr list" where
  "linesOf [] = []"
| "linesOf (OnLine l # es) = l # linesOf es"
| "linesOf (OnOverflow # es) = linesOf es"

definition deliver :: "jstr \<Rightarrow> jstr list" where
  "deliver raw = (if stripCR raw = [] then [] else [stripCR raw])"

text \<open>Every line of at most \<open>MAX_PENDING_LINE_CHARS\<close> characters is delivered; a longer one is delivered or dropped.\<close>

inductive delivers :: "jstr list \<Rightarrow> jstr list \<Rightarrow> bool" where
  nil: "delivers [] []"
| keep: "delivers raws ls \<Longrightarrow> delivers (raw # raws) (deliver raw @ ls)"
| drop: "delivers raws ls \<Longrightarrow> MAX_PENDING_LINE_CHARS < length raw \<Longrightarrow> delivers (raw # raws) ls"

lemma delivers_append: "delivers a x \<Longrightarrow> delivers b y \<Longrightarrow> delivers (a @ b) (x @ y)"
  by (induction rule: delivers.induct) (auto intro: delivers.intros)

lemma delivers_all: "delivers raws (concat (map deliver raws))"
  by (induction raws) (auto intro: delivers.intros)

lemma delivers_short:
  "delivers raws ls \<Longrightarrow> \<forall>raw \<in> set raws. length raw \<le> MAX_PENDING_LINE_CHARS \<Longrightarrow> ls = concat (map deliver raws)"
  by (induction rule: delivers.induct) auto

lemma linesOf_append [simp]: "linesOf (a @ b) = linesOf a @ linesOf b"
  by (induction a rule: linesOf.induct) auto

lemma linesOf_onPart [simp]: "linesOf (onPart t sk) = (if sk then [] else deliver t)"
  by (simp add: onPart_def deliver_def Let_def)

lemma linesOf_parts [simp]: "linesOf (concat (map (\<lambda>p. onPart p False) ps)) = concat (map deliver ps)"
  by (induction ps) auto

lemma split_on_join:
  "split_on c (a @ b) = butlast (split_on c a) @ (last (split_on c a) @ hd (split_on c b)) # tl (split_on c b)"
proof (induction a)
  case Nil
  then show ?case by simp
next
  case (Cons x a)
  obtain h t where ht: "split_on c a = h # t" by (cases "split_on c a") auto
  show ?case using Cons ht by (cases t) auto
qed

text \<open>The text so far: raw lines and rest after one more chunk.\<close>

lemma rawLines_snoc:
  "rawLines (t @ c) = rawLines t @ (case rawLines c of [] \<Rightarrow> [] | p # ps \<Rightarrow> (rest t @ p) # ps)"
  "rest (t @ c) = (if rawLines c = [] then rest t @ rest c else rest c)"
proof -
  obtain h tl where "split_on 10 c = h # tl" by (cases "split_on 10 c") auto
  then show "rawLines (t @ c) = rawLines t @ (case rawLines c of [] \<Rightarrow> [] | p # ps \<Rightarrow> (rest t @ p) # ps)"
    "rest (t @ c) = (if rawLines c = [] then rest t @ rest c else rest c)"
    by (auto simp: rawLines_def rest_def split_on_join butlast_append)
qed

text \<open>The state after the text \<open>t\<close>: the rest of \<open>t\<close>, or discarding because that rest is too long.\<close>

definition follows :: "jstr \<Rightarrow> splitter \<Rightarrow> bool" where
  "follows t s \<longleftrightarrow>
     (if discardingUntilNewline s then pending s = [] \<and> MAX_PENDING_LINE_CHARS < length (rest t)
      else pending s = rest t \<and> length (rest t) \<le> MAX_PENDING_LINE_CHARS)"

lemma splitChunk_follows:
  assumes "follows t s" and "splitChunk s c = (es, s')"
  shows "follows (t @ c) s'"
    and "delivers (case rawLines c of [] \<Rightarrow> [] | p # ps \<Rightarrow> (rest t @ p) # ps) (linesOf es)"
    and "OnOverflow \<in> set es \<Longrightarrow> MAX_PENDING_LINE_CHARS < length (rest (t @ c))"
proof -
  have nolap: "OnOverflow \<notin> set (onPart p b)" for p b by (simp add: onPart_def Let_def)
  consider "rawLines c = []" | p ps where "rawLines c = p # ps" by (cases "rawLines c") auto
  then have "follows (t @ c) s' \<and> delivers (case rawLines c of [] \<Rightarrow> [] | p # ps \<Rightarrow> (rest t @ p) # ps) (linesOf es)
    \<and> (OnOverflow \<in> set es \<longrightarrow> MAX_PENDING_LINE_CHARS < length (rest (t @ c)))"
  proof cases
    case 1
    then show ?thesis
      using assms by (auto simp: splitChunk_def Let_def follows_def rawLines_snoc delivers.nil
          simp flip: rawLines_def rest_def split: if_splits)
  next
    case 2
    then have "delivers ((rest t @ p) # ps) ((if discardingUntilNewline s then [] else deliver (rest t @ p)) @ concat (map deliver ps))"
      using assms(1) delivers_all [of ps] by (auto simp: follows_def intro: delivers.intros)
    then show ?thesis
      using assms 2 nolap by (auto simp: splitChunk_def Let_def follows_def rawLines_snoc
          simp flip: rawLines_def rest_def split: if_splits)
  qed
  then show "follows (t @ c) s'"
    and "delivers (case rawLines c of [] \<Rightarrow> [] | p # ps \<Rightarrow> (rest t @ p) # ps) (linesOf es)"
    and "OnOverflow \<in> set es \<Longrightarrow> MAX_PENDING_LINE_CHARS < length (rest (t @ c))"
    by blast+
qed

lemma splitChunks_follows:
  "follows t s \<Longrightarrow> splitChunks s cs = (es, s') \<Longrightarrow>
   follows (t @ concat cs) s' \<and>
   (\<exists>raws. rawLines (t @ concat cs) = rawLines t @ raws \<and> delivers raws (linesOf es))"
proof (induction cs arbitrary: t s es)
  case Nil
  then show ?case by (auto intro: delivers.nil)
next
  case (Cons c cs)
  obtain e s1 es2 where one: "splitChunk s c = (e, s1)" and more: "splitChunks s1 cs = (es2, s')" and es: "es = e @ es2"
    using Cons.prems(2) by (auto simp: Let_def split: prod.splits)
  note f = splitChunk_follows [OF Cons.prems(1) one]
  obtain raws where "follows ((t @ c) @ concat cs) s'" "rawLines ((t @ c) @ concat cs) = rawLines (t @ c) @ raws"
    "delivers raws (linesOf es2)"
    using Cons.IH [OF f(1) more] by blast
  then show ?case using delivers_append [OF f(2)] by (auto simp: es rawLines_snoc(1))
qed

lemma rest_short:
  assumes "\<forall>raw \<in> set (split_on 10 (a @ b)). length raw \<le> n"
  shows "length (rest a) \<le> n"
proof -
  have "rest a @ hd (split_on 10 b) \<in> set (split_on 10 (a @ b))"
    by (simp add: split_on_join rest_def)
  then show ?thesis using assms by fastforce
qed

lemma splitChunks_no_overflow:
  "follows t s \<Longrightarrow> splitChunks s cs = (es, s') \<Longrightarrow>
   \<forall>raw \<in> set (split_on 10 (t @ concat cs)). length raw \<le> MAX_PENDING_LINE_CHARS \<Longrightarrow> OnOverflow \<notin> set es"
proof (induction cs arbitrary: t s es)
  case (Cons c cs)
  obtain e s1 es2 where one: "splitChunk s c = (e, s1)" and more: "splitChunks s1 cs = (es2, s')" and es: "es = e @ es2"
    using Cons.prems(2) by (auto simp: Let_def split: prod.splits)
  note f = splitChunk_follows [OF Cons.prems(1) one]
  have short: "\<forall>raw \<in> set (split_on 10 ((t @ c) @ concat cs)). length raw \<le> MAX_PENDING_LINE_CHARS"
    using Cons.prems(3) by simp
  show ?case using Cons.IH [OF f(1) more short] f(3) rest_short [OF short] by (auto simp: es)
qed simp

lemma only_lines: "OnOverflow \<notin> set es \<Longrightarrow> es = map OnLine (linesOf es)"
  by (induction es rule: linesOf.induct) auto

lemma follows_new: "follows [] newSplitter"
  by (simp add: follows_def newSplitter_def rest_def)

section \<open>Properties\<close>

text \<open>
  Whatever the chunking, the lines handed to \<open>onLine\<close> are the terminated lines of the text, in order,
  without the trailing carriage return and without the empty ones; only lines longer than
  \<open>MAX_PENDING_LINE_CHARS\<close> may be missing, so the splitter is back in step at the newline that ends an
  oversized line.
\<close>

lemma splitter_delivers: "delivers (rawLines (concat chunks)) (linesOf (fst (splitChunks newSplitter chunks)))"
  using splitChunks_follows [OF follows_new, of chunks "fst (splitChunks newSplitter chunks)"
      "snd (splitChunks newSplitter chunks)"]
  by (simp add: rawLines_def)

text \<open>
  For a text whose lines all fit the limit the result does not depend on the chunking: no overflow is
  reported, every non-empty line is delivered once, and the unterminated rest is pending.
\<close>

lemma splitter_chunk_independent:
  assumes "\<forall>raw \<in> set (split_on 10 (concat chunks)). length raw \<le> MAX_PENDING_LINE_CHARS"
  shows "splitChunks newSplitter chunks =
    (map OnLine (concat (map deliver (rawLines (concat chunks)))),
     \<lparr>pending = rest (concat chunks), discardingUntilNewline = False\<rparr>)"
proof -
  obtain es s where r: "splitChunks newSplitter chunks = (es, s)" by fastforce
  have "es = map OnLine (linesOf es)"
    using splitChunks_no_overflow [OF follows_new r] assms only_lines by simp
  moreover have "follows (concat chunks) s" "delivers (rawLines (concat chunks)) (linesOf es)"
    using splitChunks_follows [OF follows_new r] by (auto simp: rawLines_def)
  moreover have "\<forall>raw \<in> set (rawLines (concat chunks)). length raw \<le> MAX_PENDING_LINE_CHARS"
    using assms by (auto simp: rawLines_def dest: in_set_butlastD)
  moreover have "length (rest (concat chunks)) \<le> MAX_PENDING_LINE_CHARS"
    using assms by (simp add: rest_def)
  ultimately show ?thesis
    using delivers_short [of "rawLines (concat chunks)" "linesOf es"]
    by (cases s) (auto simp: r follows_def split: if_splits)
qed

lemma splitter_chunk_independent_example:
  "splitChunks newSplitter [[97, 13], [10, 10, 98], [99, 10, 100]]
     = ([OnLine [97], OnLine [98, 99]], \<lparr>pending = [100], discardingUntilNewline = False\<rparr>)"
  using splitter_chunk_independent [of "[[97, 13], [10, 10, 98], [99, 10, 100]]"]
  by (simp add: MAX_PENDING_LINE_CHARS_def rawLines_def rest_def deliver_def stripCR_def)

text \<open>The text kept between chunks never exceeds \<open>MAX_PENDING_LINE_CHARS\<close>, whatever is received.\<close>

lemma splitter_pending_bounded:
  "length (pending (snd (splitChunks newSplitter chunks))) \<le> MAX_PENDING_LINE_CHARS"
  using splitChunks_follows [OF follows_new, of chunks "fst (splitChunks newSplitter chunks)"
      "snd (splitChunks newSplitter chunks)"]
  by (auto simp: follows_def split: if_splits)

end
