(* ===== verification/Audit_Chain.thy ===== *)
theory Audit_Chain
  imports Strings "HOL-Library.Sublist"
begin

text \<open>
  The hash chain of the audit log: the verifier of \<^verbatim>\<open>apps/api/src/lib/audit-chain.ts\<close>, the paging loop of
  \<^verbatim>\<open>GET /api/v1/audit/verify-chain\<close> in \<^verbatim>\<open>routes/audit.ts\<close>, and the append trigger
  \<^verbatim>\<open>audit_log_append()\<close> of migration 0135.  Text is the list of its UTF-8 bytes, so \<open>length\<close> is
  \<^verbatim>\<open>Buffer.byteLength\<close> and \<^verbatim>\<open>octet_length\<close>; the hash columns are in hexadecimal, as the verifier reads
  them.  SHA-256 is the parameter \<open>sha\<close>, from the hashed bytes to the digest in hexadecimal.
\<close>

section \<open>Rows and their canonical form\<close>

text \<open>\<open>ar_id\<close> is the bigint key; the other columns are the text renderings.\<close>

record audit_row =
  ar_id :: nat
  hash_version :: int
  action_type :: string
  target_type :: "string option"
  target_id :: "string option"
  context_text :: string
  created_at :: string
  created_at_utc :: string
  actor_kind :: string
  actor_player_id :: "string option"
  actor_token_id :: "string option"
  actor_system_label :: "string option"
  actor_ip :: "string option"
  before_snapshot_text :: "string option"
  after_snapshot_text :: "string option"
  status_code_text :: "string option"
  duration_ms_text :: "string option"
  prev_hash_hex :: "string option"
  row_hash_hex :: string

definition idText :: "audit_row \<Rightarrow> string" where "idText row = show_nat (ar_id row)"

definition canonicalAuditStringV1 :: "audit_row \<Rightarrow> string" where
  "canonicalAuditStringV1 row = join_with ''|''
     [action_type row, orElse (target_type row) [], orElse (target_id row) [], context_text row, created_at row]"

fun v2Field :: "string option \<Rightarrow> string" where
  "v2Field None = ''|-''"
| "v2Field (Some v) = ''|'' @ show_nat (length v) @ '':'' @ v"

definition v2Columns :: "audit_row \<Rightarrow> string option list" where
  "v2Columns row =
     [Some (idText row), Some (created_at_utc row), Some (actor_kind row), actor_player_id row,
      actor_token_id row, actor_system_label row, actor_ip row, Some (action_type row), target_type row,
      target_id row, before_snapshot_text row, after_snapshot_text row, Some (context_text row),
      status_code_text row, duration_ms_text row]"

definition canonicalAuditStringV2 :: "audit_row \<Rightarrow> string" where
  "canonicalAuditStringV2 row = concat (''v2'' # map v2Field (v2Columns row))"

text \<open>None is the throw on an unknown version.\<close>

definition canonicalAuditString :: "audit_row \<Rightarrow> string option" where
  "canonicalAuditString row =
     (if hash_version row = 1 then Some (canonicalAuditStringV1 row)
      else if hash_version row = 2 then Some (canonicalAuditStringV2 row)
      else None)"

text \<open>\<^verbatim>\<open>Buffer.from(s, 'hex')\<close>: pairs of hexadecimal digits, up to the first that is none.\<close>

definition hexVal :: "char \<Rightarrow> nat" where
  "hexVal c = (if is_digit c then of_char c - 48 else of_char (lower_char c) - 87)"

fun fromHex :: "string \<Rightarrow> string" where
  "fromHex (a # b # r) = (if is_hex a \<and> is_hex b then char_of (16 * hexVal a + hexVal b) # fromHex r else [])"
| "fromHex _ = []"

definition prevBytes :: "string option \<Rightarrow> string" where
  "prevBytes prev = (case prev of None \<Rightarrow> [] | Some h \<Rightarrow> if h = [] then [] else fromHex h)"

definition expectedRowHashHex :: "(string \<Rightarrow> string) \<Rightarrow> string option \<Rightarrow> audit_row \<Rightarrow> string option" where
  "expectedRowHashHex sha prev row = map_option (\<lambda>c. sha (prevBytes prev @ c)) (canonicalAuditString row)"

section \<open>The verifier\<close>

datatype break_reason = PrevHash | RowHash | HashVersion | Anchor

record audit_anchor =
  an_id :: string
  rowHashHex :: string

record verifier =
  prevHashHex :: "string option"
  highestVersion :: int
  checked :: nat
  broken :: "(string \<times> break_reason) option"
  lastVerified :: "audit_anchor option"
  anchorSeen :: bool

record chain_result =
  cr_ok :: bool
  cr_checked :: nat
  cr_brokenAt :: "string option"
  cr_reason :: "break_reason option"

definition newVerifier :: verifier where
  "newVerifier = \<lparr>prevHashHex = None, highestVersion = 0, checked = 0, broken = None,
     lastVerified = None, anchorSeen = False\<rparr>"

fun feed :: "(string \<Rightarrow> string) \<Rightarrow> audit_anchor option \<Rightarrow> verifier \<Rightarrow> audit_row list \<Rightarrow> bool \<times> verifier" where
  "feed sha anchor v [] = (broken v = None, v)"
| "feed sha anchor v (row # rows) =
     (if broken v \<noteq> None then (False, v)
      else let version = hash_version row in
        if version \<noteq> 1 \<and> version \<noteq> 2 \<or> version < highestVersion v
        then (False, v\<lparr>broken := Some (idText row, HashVersion)\<rparr>)
        else let v = v\<lparr>highestVersion := version\<rparr> in
        if orElse (prevHashHex v) [] \<noteq> orElse (prev_hash_hex row) []
        then (False, v\<lparr>broken := Some (idText row, PrevHash)\<rparr>)
        else if expectedRowHashHex sha (prevHashHex v) row \<noteq> Some (row_hash_hex row)
        then (False, v\<lparr>broken := Some (idText row, RowHash)\<rparr>)
        else let anchored = (case anchor of None \<Rightarrow> False | Some a \<Rightarrow> idText row = an_id a) in
        if anchored \<and> row_hash_hex row \<noteq> rowHashHex (the anchor)
        then (False, v\<lparr>broken := Some (idText row, Anchor)\<rparr>)
        else feed sha anchor
          (v\<lparr>anchorSeen := anchorSeen v \<or> anchored, prevHashHex := Some (row_hash_hex row),
             lastVerified := Some \<lparr>an_id = idText row, rowHashHex = row_hash_hex row\<rparr>,
             checked := checked v + 1\<rparr>) rows)"

definition result :: "audit_anchor option \<Rightarrow> verifier \<Rightarrow> chain_result" where
  "result anchor v =
     (case broken v of
        Some (i, r) \<Rightarrow> \<lparr>cr_ok = False, cr_checked = checked v, cr_brokenAt = Some i, cr_reason = Some r\<rparr>
      | None \<Rightarrow>
        (case anchor of
           Some a \<Rightarrow> if \<not> anchorSeen v
             then \<lparr>cr_ok = False, cr_checked = checked v, cr_brokenAt = Some (an_id a), cr_reason = Some Anchor\<rparr>
             else \<lparr>cr_ok = True, cr_checked = checked v, cr_brokenAt = None, cr_reason = None\<rparr>
         | None \<Rightarrow> \<lparr>cr_ok = True, cr_checked = checked v, cr_brokenAt = None, cr_reason = None\<rparr>))"

definition verifyAuditChain ::
  "(string \<Rightarrow> string) \<Rightarrow> audit_row list \<Rightarrow> audit_anchor option \<Rightarrow> chain_result" where
  "verifyAuditChain sha rows anchor = result anchor (snd (feed sha anchor newVerifier rows))"

section \<open>The paging route and the append trigger\<close>

text \<open>
  One page: the rows after the cursor, in key order.  The table is kept in key order.  The loop ends
  because the cursor moves to the key of the page's last row.
\<close>

definition page :: "nat \<Rightarrow> nat \<Rightarrow> audit_row list \<Rightarrow> audit_row list" where
  "page limit cursor table = take limit (filter (\<lambda>r. cursor < ar_id r) table)"

definition AUDIT_VERIFY_BATCH_SIZE :: nat where "AUDIT_VERIFY_BATCH_SIZE = 5000"

lemma length_filter_strict:
  assumes "\<And>x. P x \<Longrightarrow> Q x" "y \<in> set xs" "Q y" "\<not> P y"
  shows "length (filter P xs) < length (filter Q xs)"
proof -
  have "filter P xs = filter P (filter Q xs)"
    using assms(1) by (simp only: filter_filter) (rule filter_cong, auto)
  then show ?thesis using length_filter_less [of y "filter Q xs" P] assms(2-4) by simp
qed

lemma page_last: "page limit cursor table \<noteq> [] \<Longrightarrow> last (page limit cursor table) \<in> set table
    \<and> cursor < ar_id (last (page limit cursor table))"
proof -
  assume "page limit cursor table \<noteq> []"
  then have "last (page limit cursor table) \<in> set (filter (\<lambda>r. cursor < ar_id r) table)"
    unfolding page_def by (rule in_set_takeD [OF last_in_set])
  then show ?thesis by simp
qed

function verifyPages ::
  "(string \<Rightarrow> string) \<Rightarrow> audit_anchor option \<Rightarrow> nat \<Rightarrow> audit_row list \<Rightarrow> nat \<Rightarrow> verifier \<Rightarrow> verifier" where
  "verifyPages sha anchor limit table cursor v =
     (let rows = page limit cursor table in
      if rows = [] then v
      else let (ok, v') = feed sha anchor v rows in
        if \<not> ok then v' else verifyPages sha anchor limit table (ar_id (last rows)) v')"
  by pat_completeness auto
termination
proof (relation "measure (\<lambda>(sha, anchor, limit, table, cursor, v). length (filter (\<lambda>r. cursor < ar_id r) table))",
    goal_cases)
  case (2 sha anchor limit table cursor v rows x ok v')
  then have "last rows \<in> set table" "cursor < ar_id (last rows)" using page_last by blast+
  then show ?case
    using length_filter_strict [of "\<lambda>r. ar_id (last rows) < ar_id r" "\<lambda>r. cursor < ar_id r" "last rows" table]
    by simp
qed simp

declare verifyPages.simps [simp del]

definition verifyChainRoute ::
  "(string \<Rightarrow> string) \<Rightarrow> audit_anchor option \<Rightarrow> audit_row list \<Rightarrow> chain_result \<times> audit_anchor option" where
  "verifyChainRoute sha anchor table =
     (let v = verifyPages sha anchor AUDIT_VERIFY_BATCH_SIZE table 0 newVerifier in (result anchor v, lastVerified v))"

text \<open>The table and its id sequence; the trigger draws the id, links the row and hashes it.\<close>

record audit_table =
  at_rows :: "audit_row list"
  at_seq :: nat

definition audit_log_append :: "(string \<Rightarrow> string) \<Rightarrow> audit_row \<Rightarrow> audit_table \<Rightarrow> audit_table" where
  "audit_log_append sha new t =
     (let prev = (if at_rows t = [] then None else Some (row_hash_hex (last (at_rows t))));
          row = new\<lparr>ar_id := at_seq t + 1, prev_hash_hex := prev, hash_version := 2\<rparr>;
          row = row\<lparr>row_hash_hex := sha (prevBytes prev @ canonicalAuditStringV2 row)\<rparr>
      in t\<lparr>at_rows := at_rows t @ [row], at_seq := at_seq t + 1\<rparr>)"

section \<open>What a verified chain is\<close>

fun links :: "(string \<Rightarrow> string) \<Rightarrow> string option \<Rightarrow> int \<Rightarrow> audit_row list \<Rightarrow> bool" where
  "links sha prev hv [] \<longleftrightarrow> True"
| "links sha prev hv (r # rs) \<longleftrightarrow>
     (hash_version r = 1 \<or> hash_version r = 2) \<and> hv \<le> hash_version r
     \<and> orElse prev [] = orElse (prev_hash_hex r) []
     \<and> expectedRowHashHex sha prev r = Some (row_hash_hex r)
     \<and> links sha (Some (row_hash_hex r)) (hash_version r) rs"

definition anchorAt :: "audit_anchor option \<Rightarrow> audit_row \<Rightarrow> bool" where
  "anchorAt anchor r \<longleftrightarrow> (case anchor of None \<Rightarrow> False | Some a \<Rightarrow> idText r = an_id a)"

definition anchorKept :: "audit_anchor option \<Rightarrow> audit_row list \<Rightarrow> bool" where
  "anchorKept anchor rows \<longleftrightarrow> list_all (\<lambda>r. anchorAt anchor r \<longrightarrow> row_hash_hex r = rowHashHex (the anchor)) rows"

definition accepts :: "verifier \<Rightarrow> audit_row list \<Rightarrow> audit_anchor option \<Rightarrow> verifier" where
  "accepts v rows anchor = v\<lparr>anchorSeen := anchorSeen v \<or> list_ex (anchorAt anchor) rows,
     prevHashHex := (if rows = [] then prevHashHex v else Some (row_hash_hex (last rows))),
     highestVersion := (if rows = [] then highestVersion v else hash_version (last rows)),
     lastVerified := (if rows = [] then lastVerified v
        else Some \<lparr>an_id = idText (last rows), rowHashHex = row_hash_hex (last rows)\<rparr>),
     checked := checked v + length rows\<rparr>"

lemma feed_step:
  "broken v = None \<Longrightarrow> links sha (prevHashHex v) (highestVersion v) [r] \<Longrightarrow> anchorKept anchor [r] \<Longrightarrow>
   feed sha anchor v (r # rows) = feed sha anchor (accepts v [r] anchor) rows"
  by (cases v) (auto simp: accepts_def anchorKept_def anchorAt_def Let_def split: option.splits)

text \<open>A row that does not link, or contradicts the anchor, ends the walk and is reported.\<close>

definition stopped :: "verifier \<Rightarrow> audit_row \<Rightarrow> verifier \<Rightarrow> bool" where
  "stopped v r v' \<longleftrightarrow> (\<exists>reason. broken v' = Some (idText r, reason)) \<and> checked v' = checked v"

lemma feed_stop:
  "broken v = None \<Longrightarrow> \<not> (links sha (prevHashHex v) (highestVersion v) [r] \<and> anchorKept anchor [r]) \<Longrightarrow>
   \<exists>v'. feed sha anchor v (r # rows) = (False, v') \<and> stopped v r v'"
  by (auto simp: stopped_def anchorKept_def anchorAt_def Let_def split: option.splits)

lemma links_append:
  "links sha p h (a @ b) \<longleftrightarrow> links sha p h a \<and>
     links sha (if a = [] then p else Some (row_hash_hex (last a))) (if a = [] then h else hash_version (last a)) b"
  by (induction a arbitrary: p h) auto

lemma accepts_Cons: "accepts (accepts v [r] anchor) rows anchor = accepts v (r # rows) anchor"
  by (simp add: accepts_def)

lemma accepts_sel [simp]:
  "broken (accepts v rows a) = broken v"
  "checked (accepts v rows a) = checked v + length rows"
  "anchorSeen (accepts v rows a) \<longleftrightarrow> anchorSeen v \<or> list_ex (anchorAt a) rows"
  by (simp_all add: accepts_def)

lemma accepts_Nil [simp]: "accepts v [] a = v"
  by (cases v) (simp add: accepts_def)

lemma anchorKept_Cons: "anchorKept a (r # rs) \<longleftrightarrow> anchorKept a [r] \<and> anchorKept a rs"
  by (simp add: anchorKept_def)

text \<open>The walk either accepts every row, or stops at the first that fails.\<close>

lemma feed_cases:
  assumes "broken v = None"
  obtains (all) "links sha (prevHashHex v) (highestVersion v) rows" "anchorKept anchor rows"
      "feed sha anchor v rows = (True, accepts v rows anchor)"
    | (stop) good r rest v' where "rows = good @ r # rest"
      "links sha (prevHashHex v) (highestVersion v) good" "anchorKept anchor good"
      "\<not> (links sha (prevHashHex v) (highestVersion v) (good @ [r]) \<and> anchorKept anchor (good @ [r]))"
      "feed sha anchor v rows = (False, v')" "stopped (accepts v good anchor) r v'"
proof -
  have "links sha (prevHashHex v) (highestVersion v) rows \<and> anchorKept anchor rows
        \<and> feed sha anchor v rows = (True, accepts v rows anchor)
    \<or> (\<exists>good r rest v'. rows = good @ r # rest \<and> links sha (prevHashHex v) (highestVersion v) good
        \<and> anchorKept anchor good \<and> \<not> (links sha (prevHashHex v) (highestVersion v) (good @ [r]) \<and> anchorKept anchor (good @ [r]))
        \<and> feed sha anchor v rows = (False, v') \<and> stopped (accepts v good anchor) r v')"
    using assms
  proof (induction rows arbitrary: v)
    case Nil
    then show ?case by (simp add: anchorKept_def)
  next
    case (Cons r rows)
    show ?case
    proof (cases "links sha (prevHashHex v) (highestVersion v) [r] \<and> anchorKept anchor [r]")
      case False
      then obtain v' where "feed sha anchor v (r # rows) = (False, v')" "stopped v r v'"
        using feed_stop [OF Cons.prems] by blast
      then show ?thesis using False
        by (intro disjI2 exI [of _ "[]"] exI [of _ r] exI [of _ rows] exI [of _ v'])
          (auto simp: anchorKept_def)
    next
      case True
      let ?v = "accepts v [r] anchor"
      have v: "prevHashHex ?v = Some (row_hash_hex r)" "highestVersion ?v = hash_version r" by (simp_all add: accepts_def)
      have f: "feed sha anchor v (r # rows) = feed sha anchor ?v rows" using feed_step [OF Cons.prems] True by blast
      from Cons.IH [of ?v] Cons.prems consider
        "links sha (Some (row_hash_hex r)) (hash_version r) rows" "anchorKept anchor rows"
          "feed sha anchor ?v rows = (True, accepts ?v rows anchor)"
        | good x rest v' where "rows = good @ x # rest" "links sha (Some (row_hash_hex r)) (hash_version r) good"
          "anchorKept anchor good" "\<not> (links sha (Some (row_hash_hex r)) (hash_version r) (good @ [x]) \<and> anchorKept anchor (good @ [x]))"
          "feed sha anchor ?v rows = (False, v')" "stopped (accepts ?v good anchor) x v'"
        unfolding v accepts_sel by blast
      then show ?thesis
      proof cases
        case 1
        then show ?thesis using True f anchorKept_Cons [of anchor r rows] by (simp add: accepts_Cons)
      next
        case 2
        then show ?thesis
          using True f anchorKept_Cons [of anchor r good] anchorKept_Cons [of anchor r "good @ [x]"]
          by (intro disjI2 exI [of _ "r # good"] exI [of _ x] exI [of _ rest] exI [of _ v'])
            (auto simp: accepts_Cons)
      qed
    qed
  qed
  then show thesis using all stop by blast
qed

lemma newVerifier_sel [simp]:
  "broken newVerifier = None" "prevHashHex newVerifier = None" "highestVersion newVerifier = 0"
  "checked newVerifier = 0" "anchorSeen newVerifier = False"
  by (simp_all add: newVerifier_def)

lemma verify_all:
  "links sha None 0 rows \<Longrightarrow> anchorKept anchor rows \<Longrightarrow>
   snd (feed sha anchor newVerifier rows) = accepts newVerifier rows anchor"
  by (rule feed_cases [of newVerifier sha rows anchor]) (auto simp: links_append anchorKept_def)

lemma anchorAt_None [simp]: "anchorAt None = (\<lambda>r. False)"
  by (simp add: anchorAt_def fun_eq_iff)

lemma list_ex_False [simp]: "list_ex (\<lambda>r. False) xs = False"
  by (induction xs) auto

lemma result_ok: "cr_ok (result anchor v) \<longleftrightarrow> broken v = None \<and> (anchor = None \<or> anchorSeen v)"
  by (auto simp: result_def split: option.splits)

lemma result_checked: "cr_checked (result anchor v) = checked v"
  by (auto simp: result_def split: option.splits)

section \<open>Batches\<close>

lemma feed_broken: "broken v \<noteq> None \<Longrightarrow> feed sha anchor v rows = (False, v)"
  by (cases rows) auto

lemma feed_append:
  "feed sha anchor v (a @ b) = (let (ok, v') = feed sha anchor v a in if ok then feed sha anchor v' b else (False, v'))"
proof (cases "broken v = None")
  case False
  then show ?thesis by (simp add: feed_broken)
next
  case True
  then show ?thesis
  proof (induction a arbitrary: v)
    case Nil
    then show ?case by simp
  next
    case (Cons r a)
    show ?case
    proof (cases "links sha (prevHashHex v) (highestVersion v) [r] \<and> anchorKept anchor [r]")
      case True
      then show ?thesis
        using feed_step [OF Cons.prems, of sha r anchor] Cons.IH [of "accepts v [r] anchor"] Cons.prems
        by (simp del: feed.simps)
    next
      case False
      have "feed sha anchor v (r # a @ b) = feed sha anchor v (r # a)"
        using Cons.prems False by (auto simp: anchorKept_def anchorAt_def Let_def split: option.splits)
      then show ?thesis
        using feed_stop [OF Cons.prems False, of a] by (auto simp del: feed.simps)
    qed
  qed
qed

text \<open>In key order, a page and the rows after its last row make up the rows after the cursor.\<close>

lemma filter_after_last:
  assumes "sorted_wrt (<) (map ar_id xs)" and "take n xs \<noteq> []"
  shows "filter (\<lambda>r. ar_id (last (take n xs)) < ar_id r) xs = drop n xs"
proof -
  let ?l = "last (take n xs)"
  have "sorted_wrt (\<lambda>r s. ar_id r < ar_id s) (take n xs @ drop n xs)"
    using assms(1) by (simp add: sorted_wrt_map)
  then have "\<forall>r \<in> set (drop n xs). ar_id ?l < ar_id r"
    and s: "sorted_wrt (\<lambda>r s. ar_id r < ar_id s) (take n xs)"
    using assms(2) unfolding sorted_wrt_append by (auto simp: last_in_set)
  moreover have "\<forall>r \<in> set (take n xs). \<not> ar_id ?l < ar_id r"
  proof -
    have "sorted_wrt (\<lambda>r s. ar_id r < ar_id s) (butlast (take n xs) @ [?l])" using s assms(2) by simp
    then have "\<forall>r \<in> set (butlast (take n xs)). ar_id r < ar_id ?l" unfolding sorted_wrt_append by simp
    moreover have "set (take n xs) = insert ?l (set (butlast (take n xs)))"
      using assms(2) append_butlast_last_id [of "take n xs"] by (metis list.set(1) list.set(2) set_append Un_insert_right Un_empty_right)
    ultimately show ?thesis by auto
  qed
  ultimately have "filter (\<lambda>r. ar_id ?l < ar_id r) (take n xs @ drop n xs) = drop n xs"
    unfolding filter_append by (simp add: filter_empty_conv)
  then show ?thesis by simp
qed

lemma feed_ok: "feed sha anchor v rows = (True, v') \<Longrightarrow> broken v' = None"
proof -
  assume f: "feed sha anchor v rows = (True, v')"
  then have b: "broken v = None" using feed_broken [of v sha anchor rows] by (cases "broken v = None") auto
  then show ?thesis by (rule feed_cases [of v sha rows anchor]) (use f b in auto)
qed

lemma filter_later:
  "c < d \<Longrightarrow> filter (\<lambda>r. d < ar_id r) (filter (\<lambda>r. c < ar_id r) table) = filter (\<lambda>r. d < ar_id r) table"
  by (auto simp: filter_filter intro: filter_cong)

lemma verifyPages_feed:
  "0 < limit \<Longrightarrow> sorted_wrt (<) (map ar_id table) \<Longrightarrow> broken v = None \<Longrightarrow>
    verifyPages sha anchor limit table cursor v = snd (feed sha anchor v (filter (\<lambda>r. cursor < ar_id r) table))"
proof (induction sha anchor limit table cursor v rule: verifyPages.induct)
  case (1 sha anchor limit table cursor v)
  let ?R = "filter (\<lambda>r. cursor < ar_id r) table"
  let ?rows = "page limit cursor table"
  show ?case
  proof (cases "?rows = []")
    case True
    then have "?R = []" using "1.prems"(1) by (simp add: page_def)
    then show ?thesis using True by (simp add: verifyPages.simps [of sha anchor limit table cursor v])
  next
    case False
    obtain ok v' where f: "feed sha anchor v ?rows = (ok, v')" by fastforce
    have R: "?R = ?rows @ drop limit ?R" by (simp add: page_def)
    have u: "verifyPages sha anchor limit table cursor v =
        (if \<not> ok then v' else verifyPages sha anchor limit table (ar_id (last ?rows)) v')"
      using False f by (simp add: verifyPages.simps [of sha anchor limit table cursor v])
    have w: "feed sha anchor v ?R = (if ok then feed sha anchor v' (drop limit ?R) else (False, v'))"
      using feed_append [of sha anchor v ?rows "drop limit ?R"] f R by simp
    show ?thesis
    proof (cases ok)
      case True
      have "sorted_wrt (<) (map ar_id ?R)"
        using "1.prems"(2) by (simp add: sorted_wrt_map sorted_wrt_filter)
      then have "filter (\<lambda>r. ar_id (last ?rows) < ar_id r) table = drop limit ?R"
        using filter_after_last [of ?R limit] False page_last [OF False]
          filter_later [of cursor "ar_id (last ?rows)" table] by (simp add: page_def)
      moreover have "verifyPages sha anchor limit table (ar_id (last ?rows)) v'
          = snd (feed sha anchor v' (filter (\<lambda>r. ar_id (last ?rows) < ar_id r) table))"
        by (rule "1.IH" [OF refl False f [symmetric] refl]) (use True "1.prems" f feed_ok in auto)
      ultimately show ?thesis using u w True by simp
    qed (use u w in simp)
  qed
qed

section \<open>The canonical form is injective\<close>

lemma takeWhile_digits: "takeWhile is_digit (show_nat n @ CHR '':'' # x) = show_nat n"
  using show_nat_digits [of n] by (simp add: takeWhile_append2 is_digit_def)

lemma length_field: "show_nat m @ CHR '':'' # x = show_nat n @ CHR '':'' # y \<Longrightarrow> m = n \<and> x = y"
proof -
  assume e: "show_nat m @ CHR '':'' # x = show_nat n @ CHR '':'' # y"
  then have "m = n" using takeWhile_digits [of m x] takeWhile_digits [of n y] by simp
  then show ?thesis using e by simp
qed

lemma show_nat_no_dash: "show_nat n @ x \<noteq> CHR ''-'' # y"
  using show_nat_digits [of n] by (cases "show_nat n") (auto simp: is_digit_def)

lemma v2Field_inject: "v2Field a @ x = v2Field b @ y \<Longrightarrow> a = b \<and> x = y"
proof (cases a; cases b)
  fix v w
  assume e: "v2Field a @ x = v2Field b @ y" and ab: "a = Some v" "b = Some w"
  then have "length v = length w \<and> v @ x = w @ y" by (intro length_field) simp
  then show "a = b \<and> x = y" using ab by auto
qed (use show_nat_no_dash in \<open>auto dest: sym\<close>)

lemma v2Fields_inject:
  "length xs = length ys \<Longrightarrow> concat (map v2Field xs) = concat (map v2Field ys) \<Longrightarrow> xs = ys"
  by (induction xs ys rule: list_induct2) (auto dest: v2Field_inject)

lemma canonicalV2_inject: "canonicalAuditStringV2 r = canonicalAuditStringV2 r' \<Longrightarrow> v2Columns r = v2Columns r'"
  using v2Fields_inject [of "v2Columns r" "v2Columns r'"]
  by (simp add: canonicalAuditStringV2_def v2Columns_def del: v2Field.simps)

section \<open>Hexadecimal digests\<close>

definition HEX :: string where "HEX = ''0123456789abcdef''"

definition lowerHex :: "string \<Rightarrow> bool" where
  "lowerHex s \<longleftrightarrow> list_all (\<lambda>c. c \<in> set HEX) s"

text \<open>What SHA-256 in hexadecimal looks like.\<close>

definition digest_format :: "(string \<Rightarrow> string) \<Rightarrow> bool" where
  "digest_format sha \<longleftrightarrow> (\<forall>m. length (sha m) = 64 \<and> lowerHex (sha m))"

lemma hex_table: "list_all (\<lambda>c. is_hex c \<and> hexVal c < 16 \<and> HEX ! hexVal c = c) HEX"
  by code_simp

lemma hex_digit: "c \<in> set HEX \<Longrightarrow> is_hex c" "c \<in> set HEX \<Longrightarrow> hexVal c < 16"
  "c \<in> set HEX \<Longrightarrow> HEX ! hexVal c = c"
  using hex_table by (auto simp: list_all_iff)

lemma hexVal_inject: "c \<in> set HEX \<Longrightarrow> d \<in> set HEX \<Longrightarrow> hexVal c = hexVal d \<Longrightarrow> c = d"
  by (metis hex_digit(3))

lemma hex_byte_inject:
  assumes "a < 16" "b < 16" "a' < 16" "b' < 16" "(char_of (16 * a + b :: nat) :: char) = char_of (16 * a' + b')"
  shows "a = a' \<and> b = b'"
proof -
  have "of_char (char_of (16 * a + b) :: char) = (of_char (char_of (16 * a' + b') :: char) :: nat)"
    using assms(5) by simp
  then have e: "16 * a + b = 16 * a' + b'" using assms(1-4) by simp
  have "a = (16 * a + b) div 16" "b = (16 * a + b) mod 16" "(16 * a' + b') div 16 = a'" "(16 * a' + b') mod 16 = b'"
    using assms(1-4) by simp_all
  then show ?thesis unfolding e by simp
qed

lemma length_fromHex: "lowerHex s \<Longrightarrow> length (fromHex s) = length s div 2"
  by (induction s rule: fromHex.induct) (auto simp: lowerHex_def hex_digit)

lemma fromHex_inject:
  "lowerHex s \<Longrightarrow> lowerHex s' \<Longrightarrow> length s = length s' \<Longrightarrow> even (length s) \<Longrightarrow> fromHex s = fromHex s' \<Longrightarrow> s = s'"
proof (induction s arbitrary: s' rule: fromHex.induct)
  case (1 a b r)
  then obtain a' b' r' where s': "s' = a' # b' # r'" by (cases s' rule: fromHex.cases) auto
  have h: "c \<in> set HEX" if "c \<in> {a, b, a', b'}" for c
    using "1.prems"(1,2) that s' unfolding lowerHex_def list_all_iff by auto
  have e: "(char_of (16 * hexVal a + hexVal b) :: char) = char_of (16 * hexVal a' + hexVal b')" "fromHex r = fromHex r'"
    using "1.prems"(5) s' hex_digit h by auto
  have "hexVal a = hexVal a' \<and> hexVal b = hexVal b'"
    by (rule hex_byte_inject [OF _ _ _ _ e(1)]) (simp_all add: hex_digit h)
  then have "a = a' \<and> b = b'"
    by (intro conjI hexVal_inject [OF h h]) simp_all
  moreover have "r = r'"
    using "1.IH" [of r'] "1.prems" s' e(2) hex_digit h by (auto simp: lowerHex_def)
  ultimately show ?case using s' by simp
qed auto

section \<open>Two chains with the same head\<close>

text \<open>The bytes hashed along a chain.\<close>

definition canon :: "audit_row \<Rightarrow> string" where "canon r = the (canonicalAuditString r)"

fun materials :: "string option \<Rightarrow> audit_row list \<Rightarrow> string list" where
  "materials prev [] = []"
| "materials prev (r # rs) = (prevBytes prev @ canon r) # materials (Some (row_hash_hex r)) rs"

text \<open>
  What is asked of the hash function on two chains: no collision among the bytes they hash, and no
  digest whose bytes are the beginning of a first row's canonical text.
\<close>

definition collision_free :: "(string \<Rightarrow> string) \<Rightarrow> audit_row list \<Rightarrow> audit_row list \<Rightarrow> bool" where
  "collision_free sha xs ys \<longleftrightarrow>
     inj_on sha (set (materials None xs) \<union> set (materials None ys)) \<and>
     (\<forall>r \<in> set (xs @ ys). \<forall>g \<in> set (take 1 xs @ take 1 ys). \<not> prefix (fromHex (row_hash_hex r)) (canon g))"

lemma materials_append:
  "materials p (a @ b) = materials p a @ materials (if a = [] then p else Some (row_hash_hex (last a))) b"
  by (induction a arbitrary: p) auto

lemma collision_free_prefix:
  "collision_free sha (a @ a') (b @ b') \<Longrightarrow> collision_free sha a b"
  by (cases a; cases b) (auto simp: collision_free_def materials_append intro: inj_on_subset)

lemma links_last:
  "links sha None h (a @ [x]) \<Longrightarrow> row_hash_hex x = sha (prevBytes (if a = [] then None else Some (row_hash_hex (last a))) @ canon x)
     \<and> (hash_version x = 1 \<or> hash_version x = 2)"
  by (auto simp: links_append expectedRowHashHex_def canon_def)

lemma links_digests: "links sha p h rows \<Longrightarrow> r \<in> set rows \<Longrightarrow> \<exists>m. sha m = row_hash_hex r"
  by (induction rows arbitrary: p h) (auto simp: expectedRowHashHex_def)

lemma links_versions: "links sha p h rows \<Longrightarrow> r \<in> set rows \<Longrightarrow> hash_version r = 1 \<or> hash_version r = 2"
  by (induction rows arbitrary: p h) auto

definition sameText :: "audit_row \<Rightarrow> audit_row \<Rightarrow> bool" where
  "sameText r r' \<longleftrightarrow> canon r = canon r' \<and> row_hash_hex r = row_hash_hex r'"

lemma digest_bytes:
  assumes "digest_format sha"
  shows "prevBytes (Some (sha m)) = fromHex (sha m)" "length (fromHex (sha m)) = 32"
    "fromHex (sha m) = fromHex (sha m') \<Longrightarrow> sha m = sha m'"
proof -
  have f: "length (sha k) = 64" "lowerHex (sha k)" for k using assms by (simp_all add: digest_format_def)
  show "prevBytes (Some (sha m)) = fromHex (sha m)" using f(1) [of m] by (auto simp: prevBytes_def)
  show "length (fromHex (sha m)) = 32" using length_fromHex [OF f(2)] f(1) by simp
  show "sha m = sha m'" if "fromHex (sha m) = fromHex (sha m')"
    using fromHex_inject [OF f(2) f(2) _ _ that] f(1) by simp
qed

lemma prev_split:
  assumes fmt: "digest_format sha" and "prevBytes (Some (sha m)) @ c = prevBytes (Some (sha m')) @ c'"
  shows "sha m = sha m' \<and> c = c'"
proof -
  have "length (fromHex (sha m)) = length (fromHex (sha m'))" by (simp only: digest_bytes(2) [OF fmt])
  then have "fromHex (sha m) = fromHex (sha m') \<and> c = c'"
    using assms(2) append_eq_append_conv [of "fromHex (sha m)" "fromHex (sha m')" c c', OF disjI1]
    unfolding digest_bytes(1) [OF fmt] by blast
  then show ?thesis using digest_bytes(3) [OF fmt] by blast
qed

lemma same_head:
  assumes fmt: "digest_format sha"
  shows "links sha None 0 a \<Longrightarrow> links sha None 0 b \<Longrightarrow> a \<noteq> [] \<Longrightarrow> b \<noteq> [] \<Longrightarrow>
    row_hash_hex (last a) = row_hash_hex (last b) \<Longrightarrow> collision_free sha a b \<Longrightarrow> list_all2 sameText a b"
proof (induction a arbitrary: b rule: rev_induct)
  case (snoc x a)
  obtain b' y where b: "b = b' @ [y]" using snoc.prems(4) by (cases b rule: rev_cases) auto
  let ?p = "\<lambda>z. if z = [] then None else Some (row_hash_hex (last z))"
  have hx: "row_hash_hex x = sha (prevBytes (?p a) @ canon x)" using links_last [OF snoc.prems(1)] by blast
  have hy: "row_hash_hex y = sha (prevBytes (?p b') @ canon y)" using links_last snoc.prems(2) b by blast
  have inj: "inj_on sha (set (materials None (a @ [x])) \<union> set (materials None (b' @ [y])))"
    using snoc.prems(6) unfolding collision_free_def b by blast
  have "sha (prevBytes (?p a) @ canon x) = sha (prevBytes (?p b') @ canon y)"
    using snoc.prems(5) unfolding hx [symmetric] hy [symmetric] b by simp
  then have m: "prevBytes (?p a) @ canon x = prevBytes (?p b') @ canon y"
    by (rule inj_onD [OF inj]) (simp_all only: materials_append materials.simps set_append list.set Un_iff insert_iff simp_thms)
  have la: "links sha None 0 a" and lb: "links sha None 0 b'"
    using snoc.prems(1,2) b by (auto simp: links_append)
  have clash: "\<not> prefix (fromHex (row_hash_hex r)) (canon g)"
    if "r \<in> set (a @ b')" "g \<in> set (take 1 (a @ [x]) @ take 1 (b' @ [y]))" for r g
    using snoc.prems(6) that unfolding collision_free_def b by auto
  have dig: "\<exists>k. sha k = row_hash_hex (last z) \<and> prevBytes (Some (row_hash_hex (last z))) = fromHex (row_hash_hex (last z))"
    if "links sha None 0 z" "z \<noteq> []" for z
    using links_digests [OF that(1) last_in_set [OF that(2)]] digest_bytes(1) [OF fmt] by metis
  show ?case
  proof (cases "a = []"; cases "b' = []")
    assume "a \<noteq> []" "b' = []"
    then show ?thesis
      using m dig [OF la] clash [of "last a" y] by (auto simp: prevBytes_def [of None] prefix_def dest: sym)
  next
    assume "a = []" "b' \<noteq> []"
    then show ?thesis
      using m dig [OF lb] clash [of "last b'" x] by (auto simp: prevBytes_def [of None] prefix_def)
  next
    assume n: "a \<noteq> []" "b' \<noteq> []"
    obtain k l where kl: "sha k = row_hash_hex (last a)" "sha l = row_hash_hex (last b')"
      using dig [OF la n(1)] dig [OF lb n(2)] by blast
    have "row_hash_hex (last a) = row_hash_hex (last b') \<and> canon x = canon y"
      using m n prev_split [OF fmt, of k "canon x" l "canon y"] by (simp add: kl)
    moreover have "collision_free sha a b'" using snoc.prems(6) b collision_free_prefix by blast
    ultimately show ?thesis
      using snoc.IH [OF la lb n] snoc.prems(5) b by (auto simp: sameText_def intro!: list_all2_appendI)
  qed (use m snoc.prems(5) b in \<open>simp add: prevBytes_def sameText_def\<close>)
qed simp

text \<open>Rows with the same text: for the v2 form every hashed column is the same.\<close>

definition v1Distinct :: "audit_row list \<Rightarrow> bool" where
  "v1Distinct rows \<longleftrightarrow> list_all (\<lambda>r. hash_version r = 1 \<longrightarrow> \<not> prefix ''v2|'' (canonicalAuditStringV1 r)) rows"

definition sameRow :: "audit_row \<Rightarrow> audit_row \<Rightarrow> bool" where
  "sameRow r r' \<longleftrightarrow> hash_version r = hash_version r' \<and> canonicalAuditString r = canonicalAuditString r'
     \<and> row_hash_hex r = row_hash_hex r' \<and> (hash_version r = 2 \<longrightarrow> v2Columns r = v2Columns r')"

lemma canonicalV2_tag: "prefix ''v2|'' (canonicalAuditStringV2 r)"
  by (simp add: canonicalAuditStringV2_def v2Columns_def)

lemma sameText_sameRow:
  assumes "sameText r r'" "hash_version r = 1 \<or> hash_version r = 2" "hash_version r' = 1 \<or> hash_version r' = 2"
    and "hash_version r = 1 \<Longrightarrow> \<not> prefix ''v2|'' (canonicalAuditStringV1 r)"
    and "hash_version r' = 1 \<Longrightarrow> \<not> prefix ''v2|'' (canonicalAuditStringV1 r')"
  shows "sameRow r r'"
  using assms canonicalV2_tag [of r] canonicalV2_tag [of r'] canonicalV2_inject [of r r']
  by (auto simp: sameText_def sameRow_def canon_def canonicalAuditString_def simp del: prefix_code)

lemma sameText_rows:
  assumes "list_all2 sameText a b" "links sha None 0 a" "links sha None 0 b" "v1Distinct a" "v1Distinct b"
  shows "list_all2 sameRow a b"
proof -
  have "sameRow (a ! i) (b ! i)" if "i < length a" for i
  proof (rule sameText_sameRow)
    have l: "length a = length b" using assms(1) by (rule list_all2_lengthD)
    show "sameText (a ! i) (b ! i)" using assms(1) that by (rule list_all2_nthD)
    have "a ! i \<in> set a" "b ! i \<in> set b" using that l by simp_all
    then show "hash_version (a ! i) = 1 \<or> hash_version (a ! i) = 2" "hash_version (b ! i) = 1 \<or> hash_version (b ! i) = 2"
      "hash_version (a ! i) = 1 \<Longrightarrow> \<not> prefix ''v2|'' (canonicalAuditStringV1 (a ! i))"
      "hash_version (b ! i) = 1 \<Longrightarrow> \<not> prefix ''v2|'' (canonicalAuditStringV1 (b ! i))"
      using links_versions [OF assms(2)] links_versions [OF assms(3)] assms(4,5) by (auto simp: v1Distinct_def list_all_iff)
  qed
  then show ?thesis using assms(1) by (simp add: list_all2_conv_all_nth)
qed

section \<open>Verdicts\<close>

lemma verify_ok_iff:
  "cr_ok (verifyAuditChain sha rows anchor) \<longleftrightarrow>
     links sha None 0 rows \<and> anchorKept anchor rows \<and> (anchor = None \<or> list_ex (anchorAt anchor) rows)"
  unfolding verifyAuditChain_def result_ok
  by (rule feed_cases [of newVerifier sha rows anchor]) (auto simp: stopped_def links_append anchorKept_def)

text \<open>The table as the database keeps it: keys ascending and drawn from the sequence.\<close>

definition keyed :: "audit_row list \<Rightarrow> bool" where
  "keyed rows \<longleftrightarrow> sorted_wrt (<) (map ar_id rows) \<and> list_all (\<lambda>r. 0 < ar_id r) rows"

lemma route_is_verify:
  assumes "keyed table"
  shows "fst (verifyChainRoute sha anchor table) = verifyAuditChain sha table anchor"
    and "snd (verifyChainRoute sha anchor table) = lastVerified (snd (feed sha anchor newVerifier table))"
proof -
  have "filter (\<lambda>r. 0 < ar_id r) table = table"
    using assms by (auto simp: keyed_def list_all_iff intro: filter_True)
  moreover have "(0 :: nat) < AUDIT_VERIFY_BATCH_SIZE" by (simp add: AUDIT_VERIFY_BATCH_SIZE_def)
  ultimately have "verifyPages sha anchor AUDIT_VERIFY_BATCH_SIZE table 0 newVerifier = snd (feed sha anchor newVerifier table)"
    using verifyPages_feed [of AUDIT_VERIFY_BATCH_SIZE table newVerifier sha anchor 0] assms by (simp add: keyed_def)
  then show "fst (verifyChainRoute sha anchor table) = verifyAuditChain sha table anchor"
    and "snd (verifyChainRoute sha anchor table) = lastVerified (snd (feed sha anchor newVerifier table))"
    by (simp_all add: verifyChainRoute_def verifyAuditChain_def Let_def)
qed

definition table_ok :: "(string \<Rightarrow> string) \<Rightarrow> audit_table \<Rightarrow> bool" where
  "table_ok sha t \<longleftrightarrow> links sha None 0 (at_rows t) \<and> keyed (at_rows t) \<and> list_all (\<lambda>r. ar_id r \<le> at_seq t) (at_rows t)"

lemma canonical_frame [simp]:
  "canonicalAuditStringV2 (r\<lparr>row_hash_hex := h\<rparr>) = canonicalAuditStringV2 r"
  by (simp add: canonicalAuditStringV2_def v2Columns_def idText_def)

lemma links_version_bound: "links sha p h rows \<Longrightarrow> rows \<noteq> [] \<Longrightarrow> hash_version (last rows) \<le> 2"
  using links_versions [of sha p h rows "last rows"] by auto

lemma append_keeps: "table_ok sha t \<Longrightarrow> table_ok sha (audit_log_append sha new t)"
  using links_version_bound [of sha None 0 "at_rows t"]
  by (auto simp: table_ok_def audit_log_append_def Let_def links_append keyed_def sorted_wrt_append list_all_iff
      expectedRowHashHex_def canonicalAuditString_def)

lemma appends_keep: "table_ok sha t \<Longrightarrow> table_ok sha (fold (audit_log_append sha) news t)"
  by (induction news arbitrary: t) (auto intro: append_keeps)

section \<open>Properties\<close>

text \<open>
  C17: The audit log is tamper-evident.  Let a run of the verify route accept the table \<open>ys\<close> and return the
  head \<open>a\<close>, recorded outside the database.  If a later run accepts the table \<open>xs\<close> against that anchor, then
  \<open>xs\<close> begins with the rows of \<open>ys\<close>: same number, same canonical texts and hashes, and for every row in the
  v2 form the same value in each of the fifteen hashed columns.  So no row was changed, removed, inserted
  or reordered up to the anchor, and the tail was not cut before it.  The hash function is assumed to have
  the format of SHA-256 and no collision on the two tables, and no v1 text to pass for a v2 text.
\<close>

theorem audit_tamper_evident:
  assumes "digest_format sha" "collision_free sha xs ys" "v1Distinct xs" "v1Distinct ys" "keyed xs" "keyed ys"
    and "cr_ok (fst (verifyChainRoute sha None ys))" "snd (verifyChainRoute sha None ys) = Some a"
    and "cr_ok (fst (verifyChainRoute sha (Some a) xs))"
  shows "\<exists>xs1 xs2. xs = xs1 @ xs2 \<and> list_all2 sameRow xs1 ys"
proof -
  have ys: "links sha None 0 ys" "anchorKept None ys"
    using assms(7) route_is_verify(1) [OF assms(6)] by (simp_all add: verify_ok_iff)
  have a: "ys \<noteq> []" "rowHashHex a = row_hash_hex (last ys)"
    using assms(8) route_is_verify(2) [OF assms(6), of sha None] verify_all [OF ys]
    by (auto simp: accepts_def newVerifier_def split: if_splits)
  have xs: "links sha None 0 xs" "anchorKept (Some a) xs" "list_ex (anchorAt (Some a)) xs"
    using assms(9) route_is_verify(1) [OF assms(5)] by (simp_all add: verify_ok_iff)
  then obtain xs1 x xs2 where split: "xs = (xs1 @ [x]) @ xs2" and x: "anchorAt (Some a) x"
    by (metis list_ex_iff split_list append.assoc append_Cons append_Nil)
  have "row_hash_hex x = row_hash_hex (last ys)"
    using xs(2) x a(2) unfolding split anchorKept_def by simp
  moreover have l: "links sha None 0 (xs1 @ [x])" using xs(1) unfolding split links_append by simp
  moreover have "collision_free sha (xs1 @ [x]) ys"
    using assms(2) collision_free_prefix [of sha "xs1 @ [x]" xs2 ys "[]"] unfolding split by simp
  ultimately have "list_all2 sameText (xs1 @ [x]) ys"
    using same_head [OF assms(1) l ys(1)] a(1) by simp
  moreover have "v1Distinct (xs1 @ [x])" using assms(3) unfolding split v1Distinct_def by simp
  ultimately show ?thesis using sameText_rows [OF _ l ys(1) _ assms(4)] split by blast
qed

definition demoSha :: "string \<Rightarrow> string" where
  "demoSha m = replicate 62 CHR ''0'' @ [HEX ! (length m div 16 mod 16), HEX ! (length m mod 16)]"

definition demoEntry :: "string \<Rightarrow> audit_row" where
  "demoEntry action = \<lparr>ar_id = 0, hash_version = 0, action_type = action, target_type = None, target_id = Some ''p1'',
     context_text = ''{}'', created_at = ''t'', created_at_utc = ''t'', actor_kind = ''system'',
     actor_player_id = None, actor_token_id = None, actor_system_label = Some ''demo'', actor_ip = None,
     before_snapshot_text = None, after_snapshot_text = None, status_code_text = None,
     duration_ms_text = None, prev_hash_hex = None, row_hash_hex = []\<rparr>"

definition demoTable :: "string list \<Rightarrow> audit_row list" where
  "demoTable actions = at_rows (fold (audit_log_append demoSha) (map demoEntry actions) \<lparr>at_rows = [], at_seq = 0\<rparr>)"

lemma HEX_facts: "length HEX = 16" "CHR ''0'' \<in> set HEX"
  by (simp_all add: HEX_def)

lemma demoSha_format: "digest_format demoSha"
  by (auto simp: digest_format_def demoSha_def lowerHex_def list_all_iff HEX_facts)

lemma table_verifies:
  assumes "table_ok sha t"
  shows "fst (verifyChainRoute sha None (at_rows t)) =
      \<lparr>cr_ok = True, cr_checked = length (at_rows t), cr_brokenAt = None, cr_reason = None\<rparr>"
    and "snd (verifyChainRoute sha None (at_rows t)) =
      (if at_rows t = [] then None else
        Some \<lparr>an_id = idText (last (at_rows t)), rowHashHex = row_hash_hex (last (at_rows t))\<rparr>)"
proof -
  have l: "links sha None 0 (at_rows t)" and k: "keyed (at_rows t)" using assms by (simp_all add: table_ok_def)
  have "snd (feed sha None newVerifier (at_rows t)) = accepts newVerifier (at_rows t) None"
    by (rule verify_all [OF l]) (simp add: anchorKept_def list_all_iff)
  then show "fst (verifyChainRoute sha None (at_rows t)) =
      \<lparr>cr_ok = True, cr_checked = length (at_rows t), cr_brokenAt = None, cr_reason = None\<rparr>"
    and "snd (verifyChainRoute sha None (at_rows t)) =
      (if at_rows t = [] then None else
        Some \<lparr>an_id = idText (last (at_rows t)), rowHashHex = row_hash_hex (last (at_rows t))\<rparr>)"
    using route_is_verify [OF k] by (auto simp: verifyAuditChain_def result_def accepts_def newVerifier_def)
qed

lemma demoTable_ok: "table_ok demoSha (fold (audit_log_append demoSha) (map demoEntry actions) \<lparr>at_rows = [], at_seq = 0\<rparr>)"
  by (rule appends_keep) (simp add: table_ok_def keyed_def)

lemma demoTable_links: "links demoSha None 0 (demoTable actions)" "keyed (demoTable actions)"
  using demoTable_ok by (simp_all add: demoTable_def table_ok_def)

definition demoA :: "audit_row list" where "demoA = demoTable [''ban'']"
definition demoB :: "audit_row list" where "demoB = demoTable [''ban'', ''kick!'']"
definition demoHead :: audit_anchor where
  "demoHead = \<lparr>an_id = idText (last demoA), rowHashHex = row_hash_hex (last demoA)\<rparr>"

lemma collision_free_check:
  "distinct (map sha (materials None xs)) \<Longrightarrow> list_all (\<lambda>m. m \<in> set (materials None xs)) (materials None ys) \<Longrightarrow>
   list_all (\<lambda>r. list_all (\<lambda>g. \<not> prefix (fromHex (row_hash_hex r)) (canon g)) (take 1 xs @ take 1 ys)) (xs @ ys) \<Longrightarrow>
   collision_free sha xs ys"
  by (auto simp: collision_free_def distinct_map list_all_iff subset_iff Un_absorb2)

lemma demo_collision_free: "collision_free demoSha demoB demoA"
proof (rule collision_free_check)
  show "distinct (map demoSha (materials None demoB))" by code_simp
  show "list_all (\<lambda>m. m \<in> set (materials None demoB)) (materials None demoA)" by code_simp
  show "list_all (\<lambda>r. list_all (\<lambda>g. \<not> prefix (fromHex (row_hash_hex r)) (canon g)) (take 1 demoB @ take 1 demoA)) (demoB @ demoA)"
    by code_simp
qed

theorem audit_tamper_evident_witness:
  "digest_format demoSha \<and> collision_free demoSha demoB demoA
   \<and> cr_ok (fst (verifyChainRoute demoSha (Some demoHead) demoB))
   \<and> (\<exists>xs1 xs2. demoB = xs1 @ xs2 \<and> list_all2 sameRow xs1 demoA)"
proof -
  have v: "v1Distinct demoB" "v1Distinct demoA" by code_simp+
  have k: "keyed demoB" "keyed demoA" by (simp_all add: demoA_def demoB_def demoTable_links)
  have n: "demoA \<noteq> []" by code_simp
  have r: "cr_ok (fst (verifyChainRoute demoSha None demoA))" "snd (verifyChainRoute demoSha None demoA) = Some demoHead"
    using table_verifies [OF demoTable_ok, of "[''ban'']"] n
    by (simp_all add: demoHead_def demoA_def demoTable_def)
  have "anchorKept (Some demoHead) demoB" "list_ex (anchorAt (Some demoHead)) demoB" by code_simp+
  then have b: "cr_ok (fst (verifyChainRoute demoSha (Some demoHead) demoB))"
    using demoTable_links(1) [of "[''ban'', ''kick!'']"]
    by (simp add: route_is_verify(1) [OF k(1)] verify_ok_iff flip: demoB_def)
  show ?thesis
    using audit_tamper_evident [OF demoSha_format demo_collision_free v k r b] demoSha_format demo_collision_free b by blast
qed

text \<open>
  What a run accepts, exactly: every row has a known version that never goes down, links to the hash of
  the row before it and reproduces its own hash, and a given anchor is found, with its hash, in the table.
\<close>

lemma audit_verdict_exact:
  "cr_ok (verifyAuditChain sha rows anchor) \<longleftrightarrow>
     links sha None 0 rows \<and> anchorKept anchor rows \<and> (anchor = None \<or> list_ex (anchorAt anchor) rows)"
  by (rule verify_ok_iff)

text \<open>
  A rejected table is reported at its first bad row: the \<open>checked\<close> rows before it verify, and
  \<open>brokenAt\<close> is the id of the row that follows them, or the id of the anchor when all rows verify and the
  anchor is missing.
\<close>

lemma audit_break_located:
  assumes "verifyAuditChain sha rows anchor = \<lparr>cr_ok = False, cr_checked = n, cr_brokenAt = at, cr_reason = reason\<rparr>"
  shows "links sha None 0 (take n rows) \<and> anchorKept anchor (take n rows) \<and>
    (if n < length rows
     then at = Some (idText (rows ! n)) \<and>
       \<not> (links sha None 0 (take (n + 1) rows) \<and> anchorKept anchor (take (n + 1) rows))
     else at = map_option an_id anchor \<and> reason = Some Anchor)"
proof (rule feed_cases [of newVerifier sha rows anchor])
  assume "links sha (prevHashHex newVerifier) (highestVersion newVerifier) rows" "anchorKept anchor rows"
    "feed sha anchor newVerifier rows = (True, accepts newVerifier rows anchor)"
  then show ?thesis
    using assms by (auto simp: verifyAuditChain_def result_def split: option.splits if_splits)
next
  fix good r rest v'
  assume "rows = good @ r # rest" "links sha (prevHashHex newVerifier) (highestVersion newVerifier) good"
    "anchorKept anchor good" "feed sha anchor newVerifier rows = (False, v')" "stopped (accepts newVerifier good anchor) r v'"
    "\<not> (links sha (prevHashHex newVerifier) (highestVersion newVerifier) (good @ [r]) \<and> anchorKept anchor (good @ [r]))"
  then show ?thesis
    using assms by (auto simp: verifyAuditChain_def result_def stopped_def nth_append)
qed simp

lemma audit_break_located_example:
  "verifyAuditChain demoSha (tl demoB) None = \<lparr>cr_ok = False, cr_checked = 0, cr_brokenAt = Some ''2'', cr_reason = Some PrevHash\<rparr>
   \<and> \<not> (links demoSha None 0 (take 1 (tl demoB)) \<and> anchorKept None (take 1 (tl demoB)))"
proof -
  have e: "verifyAuditChain demoSha (tl demoB) None =
      \<lparr>cr_ok = False, cr_checked = 0, cr_brokenAt = Some ''2'', cr_reason = Some PrevHash\<rparr>" by code_simp
  have "0 < length (tl demoB)" by code_simp
  then show ?thesis using e audit_break_located [OF e] by simp
qed

text \<open>
  The route's keyset paging, five thousand rows at a time with an early exit at a break, gives the verdict
  and the head of one pass over the whole table.
\<close>

lemma audit_paging_complete:
  assumes "keyed table"
  shows "verifyChainRoute sha anchor table =
    (verifyAuditChain sha table anchor, lastVerified (snd (feed sha anchor newVerifier table)))"
  using route_is_verify [OF assms] by (simp add: prod_eq_iff)

lemma audit_paging_complete_example:
  "keyed demoA \<and> verifyChainRoute demoSha None demoA =
     (verifyAuditChain demoSha demoA None, lastVerified (snd (feed demoSha None newVerifier demoA)))"
  using audit_paging_complete [of demoA demoSha None] demoTable_links(2) by (simp add: demoA_def)

text \<open>
  The append trigger keeps the log verifiable: from any table that verifies, whatever rows the
  application inserts, the table verifies again, all rows are checked and the head is the last row.
\<close>

lemma audit_append_verifies:
  assumes "table_ok sha t" and t'_def: "t' = fold (audit_log_append sha) news t"
  shows "table_ok sha t' \<and> fst (verifyChainRoute sha None (at_rows t')) =
      \<lparr>cr_ok = True, cr_checked = length (at_rows t) + length news, cr_brokenAt = None, cr_reason = None\<rparr>"
proof -
  have "length (at_rows (fold (audit_log_append sha) ns u)) = length (at_rows u) + length ns" for ns u
    by (induction ns arbitrary: u) (auto simp: audit_log_append_def Let_def)
  then show ?thesis using appends_keep [OF assms(1)] table_verifies(1) [OF appends_keep [OF assms(1)]] by (simp add: t'_def)
qed

lemma audit_append_verifies_example:
  "table_ok demoSha \<lparr>at_rows = [], at_seq = 0\<rparr> \<and>
   fst (verifyChainRoute demoSha None (at_rows (audit_log_append demoSha (demoEntry ''ban'') \<lparr>at_rows = [], at_seq = 0\<rparr>)))
     = \<lparr>cr_ok = True, cr_checked = 1, cr_brokenAt = None, cr_reason = None\<rparr>"
proof -
  have "table_ok demoSha \<lparr>at_rows = [], at_seq = 0\<rparr>" by (simp add: table_ok_def keyed_def)
  then show ?thesis using audit_append_verifies [of demoSha "\<lparr>at_rows = [], at_seq = 0\<rparr>" _ "[demoEntry ''ban'']", OF _ refl] by simp
qed

end
