(* ===== verification/Js_Time.thy ===== *)
theory Js_Time
  imports Prelude
begin

text \<open>
  JavaScript dates in UTC, as ECMA-262 defines them: a time is a number of milliseconds since 1970, and
  year, month, day of the month, day of the week, hour and minute are computed from it.  The lemmas
  decompose a time at the start of a minute into its day, hour and minute.
\<close>

section \<open>Fields of a time\<close>

type_synonym time = int

definition msPerMinute :: int where "msPerMinute = 60000"
definition msPerHour :: int where "msPerHour = 3600000"
definition msPerDay :: int where "msPerDay = 86400000"

definition dayOf :: "time \<Rightarrow> int" where "dayOf t = t div msPerDay"
definition getUTCHours :: "time \<Rightarrow> int" where "getUTCHours t = t div msPerHour mod 24"
definition getUTCMinutes :: "time \<Rightarrow> int" where "getUTCMinutes t = t div msPerMinute mod 60"
definition getUTCDay :: "time \<Rightarrow> int" where "getUTCDay t = (dayOf t + 4) mod 7"

definition dayFromYear :: "int \<Rightarrow> int" where
  "dayFromYear y = 365 * (y - 1970) + (y - 1969) div 4 - (y - 1901) div 100 + (y - 1601) div 400"

text \<open>The year that contains a day: the largest whose first day is not after it, searched from a guess.\<close>

lemma dayFromYear_mono: "dayFromYear y < dayFromYear (y + 1)"
proof -
  define a a' b b' c c' where "a = (y - 1969) div 4" and "a' = (y + 1 - 1969) div 4"
    and "b = (y - 1901) div 100" and "b' = (y + 1 - 1901) div 100"
    and "c = (y - 1601) div 400" and "c' = (y + 1 - 1601) div 400"
  have "a \<le> a'" "c \<le> c'"
    unfolding a_def a'_def c_def c'_def by (simp_all add: zdiv_mono1)
  moreover have "b' \<le> b + 1"
    unfolding b_def b'_def using zdiv_mono1 [of "y + 1 - 1901" "(y - 1901) + 100" 100] by simp
  ultimately have "365 * (y - 1970) + a - b + c < 365 * (y + 1 - 1970) + a' - b' + c'" by (simp add: algebra_simps)
  then show ?thesis by (simp only: dayFromYear_def a_def a'_def b_def b'_def c_def c'_def)
qed

function yearUp :: "int \<Rightarrow> int \<Rightarrow> int" where
  "yearUp d y = (if dayFromYear (y + 1) \<le> d then yearUp d (y + 1) else y)"
  by pat_completeness auto
termination
  by (relation "measure (\<lambda>(d, y). nat (d - dayFromYear y))")
    (use dayFromYear_mono in \<open>auto simp: nat_less_iff not_less le_less_trans, smt (verit)\<close>)

function yearDown :: "int \<Rightarrow> int \<Rightarrow> int" where
  "yearDown d y = (if d < dayFromYear y then yearDown d (y - 1) else y)"
  by pat_completeness auto
termination
proof (relation "measure (\<lambda>(d, y). nat (dayFromYear y - d))", goal_cases)
  case (2 d y)
  then show ?case using dayFromYear_mono [of "y - 1"] by simp
qed simp

declare yearUp.simps [simp del] yearDown.simps [simp del]

definition yearFromDay :: "int \<Rightarrow> int" where
  "yearFromDay d = yearUp d (yearDown d (1970 + d div 365))"

definition leap :: "int \<Rightarrow> int" where
  "leap y = dayFromYear (y + 1) - dayFromYear y - 365"

definition monthStart :: "int \<Rightarrow> int list" where
  "monthStart l = [0, 31, 59 + l, 90 + l, 120 + l, 151 + l, 181 + l, 212 + l, 243 + l, 273 + l, 304 + l, 334 + l]"

text \<open>Month (from 0) and day of the month, from the day within the year.\<close>

definition monthInYear :: "int \<Rightarrow> int \<Rightarrow> int" where
  "monthInYear l n = int (length (filter (\<lambda>s. s \<le> n) (monthStart l))) - 1"

definition getUTCMonth :: "time \<Rightarrow> int" where
  "getUTCMonth t = (let d = dayOf t; y = yearFromDay d in monthInYear (leap y) (d - dayFromYear y))"

definition getUTCDate :: "time \<Rightarrow> int" where
  "getUTCDate t = (let d = dayOf t; y = yearFromDay d; n = d - dayFromYear y
     in n - monthStart (leap y) ! nat (monthInYear (leap y) n) + 1)"

text \<open>\<^verbatim>\<open>setUTCSeconds(0, 0)\<close> and \<^verbatim>\<open>setUTCHours(0, 0, 0, 0)\<close>.\<close>

definition floorMinute :: "time \<Rightarrow> time" where "floorMinute t = t - t mod msPerMinute"
definition floorDay :: "time \<Rightarrow> time" where "floorDay t = t - t mod msPerDay"

lemmas ms_defs = msPerMinute_def msPerHour_def msPerDay_def

section \<open>Year and day agree\<close>

lemma yearUp_spec: "dayFromYear y \<le> d \<Longrightarrow> dayFromYear (yearUp d y) \<le> d \<and> d < dayFromYear (yearUp d y + 1)"
proof (induction d y rule: yearUp.induct)
  case (1 d y)
  then show ?case by (cases "dayFromYear (y + 1) \<le> d") (simp_all add: yearUp.simps [of d y])
qed

lemma yearDown_spec: "dayFromYear (yearDown d y) \<le> d"
proof (induction d y rule: yearDown.induct)
  case (1 d y)
  then show ?case by (cases "d < dayFromYear y") (simp_all add: yearDown.simps [of d y])
qed

text \<open>The year found is the year of the day.\<close>

lemma yearFromDay_spec: "dayFromYear (yearFromDay d) \<le> d \<and> d < dayFromYear (yearFromDay d + 1)"
  unfolding yearFromDay_def by (rule yearUp_spec [OF yearDown_spec])

section \<open>Minutes of a day\<close>

definition atTime :: "int \<Rightarrow> int \<Rightarrow> int \<Rightarrow> time" where
  "atTime d h m = d * msPerDay + h * msPerHour + m * msPerMinute"

lemma atTime_fields:
  assumes "0 \<le> h" "h < 24" "0 \<le> m" "m < 60"
  shows "dayOf (atTime d h m) = d" "getUTCHours (atTime d h m) = h" "getUTCMinutes (atTime d h m) = m"
    "atTime d h m mod msPerMinute = 0"
proof -
  have "atTime d h m = (h * 60 + m) * 60000 + d * 86400000" by (simp add: atTime_def ms_defs)
  moreover have "(h * 60 + m) * 60000 < 86400000" "0 \<le> (h * 60 + m) * 60000" using assms by simp_all
  ultimately show "dayOf (atTime d h m) = d" by (simp add: dayOf_def ms_defs)
  have "atTime d h m = m * 60000 + (d * 24 + h) * 3600000" by (simp add: atTime_def ms_defs)
  moreover have "m * 60000 < 3600000" "0 \<le> m * 60000" using assms by simp_all
  ultimately have "atTime d h m div 3600000 = d * 24 + h" by simp
  then show "getUTCHours (atTime d h m) = h" using assms by (simp add: getUTCHours_def ms_defs)
  have "atTime d h m = (d * 1440 + h * 60 + m) * 60000" by (simp add: atTime_def ms_defs)
  then have q: "atTime d h m div 60000 = m + (d * 24 + h) * 60" "atTime d h m mod 60000 = 0" by simp_all
  have "(m + (d * 24 + h) * 60) mod 60 = m" using assms(3,4) by (simp only: mod_mult_self1 mod_pos_pos_trivial)
  then show "getUTCMinutes (atTime d h m) = m" "atTime d h m mod msPerMinute = 0"
    by (simp_all only: getUTCMinutes_def msPerMinute_def q)
qed

lemma atTime_split:
  assumes "t mod msPerMinute = 0"
  shows "t = atTime (dayOf t) (getUTCHours t) (getUTCMinutes t)"
proof -
  have q: "t = t div 60000 * 60000" using assms div_mult_mod_eq [of t 60000] by (simp add: ms_defs)
  have h: "t div 3600000 = t div 60000 div 60" "t div 86400000 = t div 60000 div 60 div 24"
    by (simp_all add: zdiv_zmult2_eq [symmetric])
  have "t div 60000 = (t div 60000 div 60) * 60 + t div 60000 mod 60"
    "t div 60000 div 60 = (t div 60000 div 60 div 24) * 24 + t div 60000 div 60 mod 24" by simp_all
  then show ?thesis using q unfolding atTime_def dayOf_def getUTCHours_def getUTCMinutes_def ms_defs h by linarith
qed

lemma field_ranges: "0 \<le> getUTCHours t" "getUTCHours t < 24" "0 \<le> getUTCMinutes t" "getUTCMinutes t < 60"
  by (simp_all add: getUTCHours_def getUTCMinutes_def)

lemma floorMinute_facts:
  "floorMinute t \<le> t" "t < floorMinute t + msPerMinute" "floorMinute t mod msPerMinute = 0"
  by (simp_all add: floorMinute_def ms_defs mod_diff_eq minus_mod_eq_mult_div)

lemma floorDay_atTime: "floorDay t = dayOf t * msPerDay"
  by (simp add: floorDay_def dayOf_def minus_mod_eq_div_mult)

text \<open>Month and date only depend on the day.\<close>

lemma day_fields_cong: "dayOf t = dayOf u \<Longrightarrow>
  getUTCMonth t = getUTCMonth u \<and> getUTCDate t = getUTCDate u \<and> getUTCDay t = getUTCDay u"
  by (simp add: getUTCMonth_def getUTCDate_def getUTCDay_def)

end
