(* ===== verification/Cron.thy ===== *)
theory Cron
  imports Js_Time Strings
begin

text \<open>
  The five-field cron expressions of \<^verbatim>\<open>packages/shared-types/src/cron5.ts\<close> and the due-occurrence rule of
  the scheduler, \<^verbatim>\<open>apps/workers/scheduler/src/due-occurrence.ts\<close>.  A thrown error is a value of
  \<open>cron_error\<close>; null in a field (a bare star) is None.
\<close>

section \<open>Parsing\<close>

datatype cron_error = StepOutOfRange | UnsupportedSyntax | ValueOutOfRange | WrongFieldCount

record cron5_expression =
  c_minute :: "int list option"
  c_hour :: "int list option"
  c_dayOfMonth :: "int list option"
  c_month :: "int list option"
  c_dayOfWeek :: "int list option"
  dayOfMonthStar :: bool
  dayOfWeekStar :: bool

definition allDigits :: "string \<Rightarrow> bool" where
  "allDigits s \<longleftrightarrow> s \<noteq> [] \<and> list_all is_digit s"

text \<open>The step pattern: a star or digits, a slash, digits.\<close>

definition stepMatch :: "string \<Rightarrow> (string \<times> string) option" where
  "stepMatch part = (case split_on CHR ''/'' part of
     [a, b] \<Rightarrow> if (a = ''*'' \<or> allDigits a) \<and> allDigits b then Some (a, b) else None
   | _ \<Rightarrow> None)"

function stepValues :: "int \<Rightarrow> int \<Rightarrow> int \<Rightarrow> int list" where
  "stepValues v step mx = (if 0 < step \<and> v \<le> mx then v # stepValues (v + step) step mx else [])"
  by pat_completeness auto
termination
  by (relation "measure (\<lambda>(v, step, mx). nat (mx + 1 - v))") auto

declare stepValues.simps [simp del]

definition parsePart :: "int \<Rightarrow> int \<Rightarrow> string \<Rightarrow> cron_error + int list" where
  "parsePart mn mx part = (case stepMatch part of
     Some (a, b) \<Rightarrow>
       (let start = (if a = ''*'' then mn else int (nat_of_digits a)); step = int (nat_of_digits b)
        in if step \<le> 0 \<or> start < mn \<or> mx < start then Inl StepOutOfRange
           else Inr (stepValues start step mx))
   | None \<Rightarrow>
       if \<not> allDigits part then Inl UnsupportedSyntax
       else let v = int (nat_of_digits part)
         in if v < mn \<or> mx < v then Inl ValueOutOfRange else Inr [v])"

fun parseParts :: "int \<Rightarrow> int \<Rightarrow> string list \<Rightarrow> int list \<Rightarrow> cron_error + int list" where
  "parseParts mn mx [] values = Inr values"
| "parseParts mn mx (part # parts) values =
     (case parsePart mn mx part of Inl e \<Rightarrow> Inl e
      | Inr vs \<Rightarrow> parseParts mn mx parts (fold js_add vs values))"

definition parseField :: "string \<Rightarrow> int \<Rightarrow> int \<Rightarrow> cron_error + int list option" where
  "parseField raw mn mx =
     (if raw = ''*'' then Inr None
      else case parseParts mn mx (split_on CHR '','' raw) [] of Inl e \<Rightarrow> Inl e | Inr vs \<Rightarrow> Inr (Some (sort vs)))"

text \<open>Splitting on runs of white space.\<close>

function splitWs :: "string \<Rightarrow> string list" where
  "splitWs s =
     (let r = dropWhile (\<lambda>c. \<not> is_ws c) s in
      takeWhile (\<lambda>c. \<not> is_ws c) s # (if r = [] then [] else splitWs (dropWhile is_ws r)))"
  by pat_completeness auto
termination
proof (relation "measure length", goal_cases)
  case (2 s r)
  then have "is_ws (hd r)" "r \<noteq> []" using hd_dropWhile [of "\<lambda>c. \<not> is_ws c" s] by auto
  then have "length (dropWhile is_ws r) < length r" using length_dropWhile_le [of is_ws "tl r"] by (cases r) auto
  also have "\<dots> \<le> length s" unfolding 2(1) by (rule length_dropWhile_le)
  finally show ?case by simp
qed simp

declare splitWs.simps [simp del]

definition startsWithStar :: "string \<Rightarrow> bool" where
  "startsWithStar s \<longleftrightarrow> (case s of [] \<Rightarrow> False | c # _ \<Rightarrow> c = CHR ''*'')"

definition parseCron5 :: "string \<Rightarrow> cron_error + cron5_expression" where
  "parseCron5 expression = (case splitWs (trim expression) of
     [minuteRaw, hourRaw, domRaw, monthRaw, dowRaw] \<Rightarrow>
       (case parseField minuteRaw 0 59 of Inl e \<Rightarrow> Inl e | Inr minute \<Rightarrow>
       (case parseField hourRaw 0 23 of Inl e \<Rightarrow> Inl e | Inr hour \<Rightarrow>
       (case parseField domRaw 1 31 of Inl e \<Rightarrow> Inl e | Inr doms \<Rightarrow>
       (case parseField monthRaw 1 12 of Inl e \<Rightarrow> Inl e | Inr month \<Rightarrow>
       (case parseField dowRaw 0 6 of Inl e \<Rightarrow> Inl e | Inr dow \<Rightarrow>
        Inr \<lparr>c_minute = minute, c_hour = hour, c_dayOfMonth = doms, c_month = month, c_dayOfWeek = dow,
             dayOfMonthStar = startsWithStar domRaw, dayOfWeekStar = startsWithStar dowRaw\<rparr>)))))
   | _ \<Rightarrow> Inl WrongFieldCount)"

definition isValidCron5 :: "string \<Rightarrow> bool" where
  "isValidCron5 expression = (case parseCron5 expression of Inl _ \<Rightarrow> False | Inr _ \<Rightarrow> True)"

section \<open>Matching\<close>

definition admits :: "int list option \<Rightarrow> int \<Rightarrow> bool" where
  "admits field v = (case field of None \<Rightarrow> True | Some vs \<Rightarrow> v \<in> set vs)"

definition cron5Matches :: "cron5_expression \<Rightarrow> time \<Rightarrow> bool" where
  "cron5Matches expr date =
     (let dayOfMonth = getUTCDate date; month = getUTCMonth date + 1; dayOfWeek = getUTCDay date;
          domRestricted = (c_dayOfMonth expr \<noteq> None); dowRestricted = (c_dayOfWeek expr \<noteq> None)
      in if \<not> admits (c_minute expr) (getUTCMinutes date) then False
      else if \<not> admits (c_hour expr) (getUTCHours date) then False
      else if \<not> admits (c_month expr) month then False
      else if domRestricted \<and> dowRestricted \<and> \<not> dayOfMonthStar expr \<and> \<not> dayOfWeekStar expr
      then admits (c_dayOfMonth expr) dayOfMonth \<or> admits (c_dayOfWeek expr) dayOfWeek
      else if domRestricted \<and> \<not> admits (c_dayOfMonth expr) dayOfMonth then False
      else if dowRestricted \<and> \<not> admits (c_dayOfWeek expr) dayOfWeek then False
      else True)"

definition MAX_EXPANSION_MINUTES :: nat where "MAX_EXPANSION_MINUTES = 60 * 24 * 40"

text \<open>The forward scan, one minute at a time, with the iteration cap as the recursion bound.\<close>

fun expandLoop :: "cron5_expression \<Rightarrow> time \<Rightarrow> time \<Rightarrow> nat \<Rightarrow> time list" where
  "expandLoop parsed cursor to 0 = []"
| "expandLoop parsed cursor to (Suc n) =
     (if cursor \<le> to
      then (if cron5Matches parsed cursor then [cursor] else []) @ expandLoop parsed (cursor + msPerMinute) to n
      else [])"

definition expandCron5Occurrences :: "string \<Rightarrow> time \<Rightarrow> time \<Rightarrow> nat \<Rightarrow> cron_error + time list" where
  "expandCron5Occurrences expression from to maxIterations =
     (case parseCron5 expression of Inl e \<Rightarrow> Inl e
      | Inr parsed \<Rightarrow> Inr (expandLoop parsed (floorMinute from) to maxIterations))"

section \<open>The last occurrence\<close>

definition MAX_LOOKBACK_DAYS :: nat where "MAX_LOOKBACK_DAYS = 366 * 5"

definition cron5DayMatches :: "cron5_expression \<Rightarrow> time \<Rightarrow> bool" where
  "cron5DayMatches expr date =
     (if \<not> admits (c_month expr) (getUTCMonth date + 1) then False
      else let domMatches = admits (c_dayOfMonth expr) (getUTCDate date);
               dowMatches = admits (c_dayOfWeek expr) (getUTCDay date)
        in if c_dayOfMonth expr \<noteq> None \<and> c_dayOfWeek expr \<noteq> None then domMatches \<or> dowMatches
           else domMatches \<and> dowMatches)"

definition downFrom :: "nat \<Rightarrow> int list" where "downFrom n = map int (rev [0..<n])"

definition candidates :: "cron5_expression \<Rightarrow> int \<Rightarrow> time list" where
  "candidates parsed day =
     (let hours = (case c_hour parsed of None \<Rightarrow> downFrom 24 | Some hs \<Rightarrow> rev (sort hs));
          minutes = (case c_minute parsed of None \<Rightarrow> downFrom 60 | Some ms \<Rightarrow> rev (sort ms))
      in concat (map (\<lambda>h. map (\<lambda>m. atTime day h m) minutes) hours))"

text \<open>The backward scan over days; \<open>day\<close> is a day number and the cap is the recursion bound.\<close>

fun lookBack :: "cron5_expression \<Rightarrow> time \<Rightarrow> time \<Rightarrow> int \<Rightarrow> nat \<Rightarrow> time option" where
  "lookBack parsed fromFloor toFloor day 0 = None"
| "lookBack parsed fromFloor toFloor day (Suc n) =
     (if dayOf fromFloor \<le> day
      then case (if cron5DayMatches parsed (day * msPerDay)
                 then List.find (\<lambda>c. fromFloor \<le> c \<and> c \<le> toFloor) (candidates parsed day) else None) of
             Some c \<Rightarrow> Some c
           | None \<Rightarrow> lookBack parsed fromFloor toFloor (day - 1) n
      else None)"

definition findLastCron5Occurrence :: "string \<Rightarrow> time \<Rightarrow> time \<Rightarrow> cron_error + time option" where
  "findLastCron5Occurrence expression from to =
     (if to < from then Inr None
      else case parseCron5 expression of Inl e \<Rightarrow> Inl e
      | Inr parsed \<Rightarrow> Inr (lookBack parsed (floorMinute from) (floorMinute to) (dayOf (floorMinute to)) MAX_LOOKBACK_DAYS))"

section \<open>The smallest interval\<close>

definition PROBE_WINDOW_START_MS :: time where "PROBE_WINDOW_START_MS = 1733011200000"
definition PROBE_WINDOW_MINUTES :: nat where "PROBE_WINDOW_MINUTES = 31 * 24 * 60"

text \<open>The fold over consecutive occurrences; None is positive infinity.\<close>

fun minGap :: "time option \<Rightarrow> time list \<Rightarrow> int option \<Rightarrow> int option" where
  "minGap previous [] mn = mn"
| "minGap previous (current # rest) mn =
     minGap (Some current) rest
       (case previous of None \<Rightarrow> mn
        | Some p \<Rightarrow> (let delta = (current - p) div 60000 in
            case mn of None \<Rightarrow> Some delta | Some m \<Rightarrow> if delta < m then Some delta else mn))"

definition minCron5IntervalMinutes :: "string \<Rightarrow> cron_error + int option" where
  "minCron5IntervalMinutes expression =
     (case expandCron5Occurrences expression PROBE_WINDOW_START_MS
        (PROBE_WINDOW_START_MS + (int PROBE_WINDOW_MINUTES - 1) * 60000) PROBE_WINDOW_MINUTES of
        Inl e \<Rightarrow> Inl e
      | Inr occurrences \<Rightarrow> if length occurrences < 2 then Inr None else Inr (minGap None occurrences None))"

section \<open>Due occurrences\<close>

record cron_schedule =
  recurrence :: "string option"
  oneOffAt :: "time option"
  lastExecutedAt :: "time option"
  createdAt :: time

definition resolveCronDueOccurrence :: "cron_schedule \<Rightarrow> time \<Rightarrow> cron_error + time option" where
  "resolveCronDueOccurrence schedule now =
     (case recurrence schedule of
        None \<Rightarrow> Inr (case oneOffAt schedule of None \<Rightarrow> None
          | Some at \<Rightarrow> if lastExecutedAt schedule \<noteq> None then None else if at \<le> now then Some at else None)
      | Some expression \<Rightarrow>
          (let from = (case lastExecutedAt schedule of Some l \<Rightarrow> l + 60000 | None \<Rightarrow> createdAt schedule)
           in if now < from then Inr None else findLastCron5Occurrence expression from now))"

section \<open>Parsed expressions are well formed\<close>

definition fieldOk :: "int \<Rightarrow> int \<Rightarrow> int list option \<Rightarrow> bool" where
  "fieldOk mn mx field = (case field of None \<Rightarrow> True
     | Some vs \<Rightarrow> vs \<noteq> [] \<and> sorted_wrt (<) vs \<and> list_all (\<lambda>v. mn \<le> v \<and> v \<le> mx) vs)"

definition cronOk :: "cron5_expression \<Rightarrow> bool" where
  "cronOk p \<longleftrightarrow> fieldOk 0 59 (c_minute p) \<and> fieldOk 0 23 (c_hour p) \<and> fieldOk 1 31 (c_dayOfMonth p)
     \<and> fieldOk 1 12 (c_month p) \<and> fieldOk 0 6 (c_dayOfWeek p)"

lemma stepValues_range: "v \<in> set (stepValues start step mx) \<Longrightarrow> start \<le> v \<and> v \<le> mx"
proof (induction start step mx rule: stepValues.induct)
  case (1 start step mx)
  show ?case
  proof (cases "0 < step \<and> start \<le> mx")
    case True
    then show ?thesis using 1 by (auto simp: stepValues.simps [of start step mx])
  next
    case False
    then show ?thesis using 1 by (simp add: stepValues.simps [of start step mx])
  qed
qed

lemma parsePart_range:
  assumes "parsePart mn mx part = Inr vs"
  shows "vs \<noteq> [] \<and> (\<forall>v \<in> set vs. mn \<le> v \<and> v \<le> mx)"
proof (cases "stepMatch part")
  case None
  then show ?thesis using assms by (auto simp: parsePart_def Let_def split: if_splits)
next
  case (Some ab)
  obtain a b where ab: "ab = (a, b)" by fastforce
  define start step where "start = (if a = ''*'' then mn else int (nat_of_digits a))"
    and "step = int (nat_of_digits b)"
  have "0 < step" "mn \<le> start" "start \<le> mx" and vs: "vs = stepValues start step mx"
    using assms Some ab by (auto simp: parsePart_def Let_def start_def step_def split: if_splits)
  moreover have "vs \<noteq> []" using calculation by (simp add: vs stepValues.simps [of start step mx])
  ultimately show ?thesis using stepValues_range [of _ start step mx] by fastforce
qed

lemma parseParts_range:
  "parseParts mn mx parts acc = Inr vs \<Longrightarrow> distinct acc \<Longrightarrow> \<forall>v \<in> set acc. mn \<le> v \<and> v \<le> mx \<Longrightarrow>
   distinct vs \<and> (\<forall>v \<in> set vs. mn \<le> v \<and> v \<le> mx) \<and> (parts \<noteq> [] \<or> acc \<noteq> [] \<longrightarrow> vs \<noteq> [])"
proof (induction parts arbitrary: acc)
  case (Cons part parts)
  obtain ws where ws: "parsePart mn mx part = Inr ws" "parseParts mn mx parts (fold js_add ws acc) = Inr vs"
    using Cons.prems(1) by (auto split: sum.splits)
  have "set (fold js_add ws acc) \<noteq> {}" using parsePart_range [OF ws(1)] by (simp only: set_fold_js_add) simp
  then have "fold js_add ws acc \<noteq> []" by force
  moreover have "distinct (fold js_add ws acc)" using Cons.prems(2) by (simp only: distinct_fold_js_add)
  moreover have "\<forall>v \<in> set (fold js_add ws acc). mn \<le> v \<and> v \<le> mx"
    unfolding set_fold_js_add using Cons.prems(3) parsePart_range [OF ws(1)] by blast
  ultimately show ?case using Cons.IH [OF ws(2)] by blast
qed auto

lemma sort_eq_Nil [simp]: "sort xs = [] \<longleftrightarrow> xs = []"
  by (metis length_0_conv length_sort)

lemma parseField_ok: "parseField raw mn mx = Inr field \<Longrightarrow> fieldOk mn mx field"
  using parseParts_range [of mn mx "split_on CHR '','' raw" "[]"]
  by (auto simp: parseField_def fieldOk_def list_all_iff strict_sorted_iff split: if_splits sum.splits)

lemma parseCron5_ok: "parseCron5 expression = Inr p \<Longrightarrow> cronOk p"
  by (auto simp: parseCron5_def cronOk_def dest: parseField_ok split: list.splits sum.splits)

section \<open>A minute matches by day, hour and minute\<close>

text \<open>The day fields are combined as both routines do, unless a stepped star meets a restricted field.\<close>

definition plainDays :: "cron5_expression \<Rightarrow> bool" where
  "plainDays p \<longleftrightarrow> c_dayOfMonth p = None \<or> c_dayOfWeek p = None \<or> \<not> dayOfMonthStar p \<and> \<not> dayOfWeekStar p"

lemma admits_None [simp]: "admits None v" by (simp add: admits_def)

lemma dayOf_day [simp]: "dayOf (d * msPerDay) = d"
  by (simp add: dayOf_def ms_defs)

lemma cron5Matches_split:
  assumes "plainDays p"
  shows "cron5Matches p t \<longleftrightarrow> admits (c_minute p) (getUTCMinutes t) \<and> admits (c_hour p) (getUTCHours t)
    \<and> cron5DayMatches p (dayOf t * msPerDay)"
  using assms day_fields_cong [of t "dayOf t * msPerDay"]
  by (auto simp: cron5Matches_def cron5DayMatches_def plainDays_def Let_def)

definition fieldValues :: "nat \<Rightarrow> int list option \<Rightarrow> int list" where
  "fieldValues n field = (case field of None \<Rightarrow> downFrom n | Some vs \<Rightarrow> rev (sort vs))"

lemma candidates_alt:
  "candidates p day = concat (map (\<lambda>h. map (\<lambda>m. atTime day h m) (fieldValues 60 (c_minute p))) (fieldValues 24 (c_hour p)))"
  by (simp add: candidates_def fieldValues_def Let_def)

lemma set_downFrom: "set (downFrom n) = {v. 0 \<le> v \<and> v < int n}"
  by (auto simp: downFrom_def image_iff) (metis atLeastLessThan_iff nat_eq_iff2 nat_less_iff zero_le)

lemma sorted_downFrom: "sorted_wrt (>) (downFrom n)"
  by (simp add: downFrom_def sorted_wrt_map sorted_wrt_rev)

lemma fieldValues_facts:
  assumes "fieldOk 0 (int n - 1) field"
  shows "set (fieldValues n field) = {v. 0 \<le> v \<and> v < int n \<and> admits field v}" "sorted_wrt (>) (fieldValues n field)"
proof -
  show "set (fieldValues n field) = {v. 0 \<le> v \<and> v < int n \<and> admits field v}"
    using assms by (auto simp: fieldValues_def fieldOk_def admits_def set_downFrom list_all_iff split: option.splits)
  show "sorted_wrt (>) (fieldValues n field)"
    using assms by (auto simp: fieldValues_def fieldOk_def sorted_downFrom sorted_wrt_rev strict_sorted_iff split: option.splits)
qed

lemma atTime_less: "h' < h \<Longrightarrow> 0 \<le> m \<Longrightarrow> m' < 60 \<Longrightarrow> atTime d h' m' < atTime d h m"
  by (simp add: atTime_def ms_defs)

lemma sorted_times:
  assumes "sorted_wrt (>) hs" "sorted_wrt (>) ms" "\<forall>m \<in> set ms. 0 \<le> m \<and> m < 60"
  shows "sorted_wrt (>) (concat (map (\<lambda>h. map (\<lambda>m. atTime d h m) ms) hs))"
  using assms(1)
proof (induction hs)
  case (Cons h hs)
  have "sorted_wrt (>) (map (\<lambda>m. atTime d h m) ms)"
    using assms(2) by (simp add: sorted_wrt_map atTime_def ms_defs)
  then show ?case using Cons assms(3) by (auto simp: sorted_wrt_append intro!: atTime_less)
qed simp

lemma candidates_facts:
  assumes "cronOk p"
  shows "sorted_wrt (>) (candidates p day)"
    and "c \<in> set (candidates p day) \<longleftrightarrow> dayOf c = day \<and> c mod msPerMinute = 0
      \<and> admits (c_hour p) (getUTCHours c) \<and> admits (c_minute p) (getUTCMinutes c)"
proof -
  have h: "set (fieldValues 24 (c_hour p)) = {v. 0 \<le> v \<and> v < 24 \<and> admits (c_hour p) v}" "sorted_wrt (>) (fieldValues 24 (c_hour p))"
    and m: "set (fieldValues 60 (c_minute p)) = {v. 0 \<le> v \<and> v < 60 \<and> admits (c_minute p) v}" "sorted_wrt (>) (fieldValues 60 (c_minute p))"
    using fieldValues_facts [of 24 "c_hour p"] fieldValues_facts [of 60 "c_minute p"] assms by (simp_all add: cronOk_def)
  show "sorted_wrt (>) (candidates p day)"
    unfolding candidates_alt by (rule sorted_times [OF h(2) m(2)]) (simp add: m(1))
  show "c \<in> set (candidates p day) \<longleftrightarrow> dayOf c = day \<and> c mod msPerMinute = 0
      \<and> admits (c_hour p) (getUTCHours c) \<and> admits (c_minute p) (getUTCMinutes c)" (is "?l = ?r")
  proof
    assume ?l
    then obtain hh mm where "c = atTime day hh mm" "0 \<le> hh" "hh < 24" "admits (c_hour p) hh"
      "0 \<le> mm" "mm < 60" "admits (c_minute p) mm"
      unfolding candidates_alt by (auto simp: h(1) m(1))
    then show ?r by (simp add: atTime_fields)
  next
    assume r: ?r
    then have "c = atTime day (getUTCHours c) (getUTCMinutes c)" using atTime_split [of c] by simp
    then show ?l using r field_ranges [of c] unfolding candidates_alt by (force simp: h(1) m(1))
  qed
qed

section \<open>The two scans\<close>

text \<open>A matching minute of the window.\<close>

definition occurs :: "cron5_expression \<Rightarrow> time \<Rightarrow> time \<Rightarrow> time \<Rightarrow> bool" where
  "occurs p from to t \<longleftrightarrow> t mod msPerMinute = 0 \<and> from \<le> t \<and> t \<le> to \<and> cron5Matches p t"

lemma find_greatest:
  "sorted_wrt (>) xs \<Longrightarrow> List.find Q xs = Some t \<Longrightarrow> t \<in> set xs \<and> Q t \<and> (\<forall>u \<in> set xs. Q u \<longrightarrow> u \<le> (t :: int))"
  by (induction xs) (auto split: if_splits simp: order_le_less)

lemma find_none: "List.find Q xs = None \<longleftrightarrow> (\<forall>u \<in> set xs. \<not> Q u)"
  by (auto simp: find_None_iff)

lemma dayOf_mono: "t \<le> u \<Longrightarrow> dayOf t \<le> dayOf u"
  by (simp add: dayOf_def ms_defs zdiv_mono1)

lemma dayOf_less: "dayOf t < dayOf u \<Longrightarrow> t < u"
  using dayOf_mono [of u t] by linarith

text \<open>One day of the backward scan: the candidates in the window are the occurrences of that day.\<close>

lemma day_candidates:
  assumes "cronOk p" "plainDays p"
  shows "occurs p from to t \<and> dayOf t = day \<longleftrightarrow>
    cron5DayMatches p (day * msPerDay) \<and> t \<in> set (candidates p day) \<and> from \<le> t \<and> t \<le> to"
  using candidates_facts(2) [OF assms(1), of t day] cron5Matches_split [OF assms(2), of t]
  by (auto simp: occurs_def)

lemma lookBack_Some:
  assumes "cronOk p" "plainDays p"
  shows "lookBack p from to day n = Some c \<Longrightarrow>
    occurs p from to c \<and> (\<forall>t. occurs p from to t \<and> dayOf t \<le> day \<longrightarrow> t \<le> c)"
proof (induction n arbitrary: day)
  case (Suc n)
  let ?f = "if cron5DayMatches p (day * msPerDay)
    then List.find (\<lambda>c. from \<le> c \<and> c \<le> to) (candidates p day) else None"
  note day = day_candidates [OF assms, of "from" "to" _ day]
  show ?case
  proof (cases ?f)
    case None
    then have "\<not> (occurs p from to t \<and> dayOf t = day)" for t
      unfolding day by (auto simp: find_none split: if_splits)
    moreover have "lookBack p from to (day - 1) n = Some c" using Suc.prems None by (simp split: if_splits)
    ultimately show ?thesis using Suc.IH by (metis order_le_less zle_diff1_eq)
  next
    case (Some d)
    then have m: "cron5DayMatches p (day * msPerDay)"
      and f: "List.find (\<lambda>c. from \<le> c \<and> c \<le> to) (candidates p day) = Some d" by (auto split: if_splits)
    have "d = c" using Suc.prems Some by (simp split: if_splits)
    note g = find_greatest [OF candidates_facts(1) [OF assms(1)] f]
    have "occurs p from to d \<and> dayOf d = day" unfolding day using g m by blast
    moreover have "t \<le> d" if "occurs p from to t" "dayOf t \<le> day" for t
    proof (cases "dayOf t = day")
      case True
      then show ?thesis using g day [of t] that(1) by blast
    next
      case False
      then show ?thesis using that(2) calculation dayOf_less [of t d] by linarith
    qed
    ultimately show ?thesis using \<open>d = c\<close> by blast
  qed
qed simp

lemma lookBack_None:
  assumes "cronOk p" "plainDays p"
  shows "lookBack p from to day n = None \<Longrightarrow> occurs p from to t \<Longrightarrow> dayOf t \<le> day \<Longrightarrow> dayOf t \<le> day - int n"
proof (induction n arbitrary: day)
  case (Suc n)
  have f: "dayOf from \<le> dayOf t" using Suc.prems(2) dayOf_mono by (simp add: occurs_def)
  then have d: "dayOf from \<le> day" using Suc.prems(3) by linarith
  have n: "(if cron5DayMatches p (day * msPerDay)
    then List.find (\<lambda>c. from \<le> c \<and> c \<le> to) (candidates p day) else None) = None"
    and r: "lookBack p from to (day - 1) n = None"
    using Suc.prems(1) d by (simp_all split: option.splits if_splits)
  have "\<not> (occurs p from to t \<and> dayOf t = day)"
    unfolding day_candidates [OF assms] using n by (auto simp: find_none split: if_splits)
  then show ?case using Suc.IH [OF r Suc.prems(2)] Suc.prems(2,3) by linarith
qed simp

text \<open>For any expression the scan stays in its window, so what is due lies beyond the last execution.\<close>

lemma lookBack_window: "lookBack p from to day n = Some c \<Longrightarrow> from \<le> c \<and> c \<le> to"
  by (induction n arbitrary: day) (auto simp: find_Some_iff split: if_splits option.splits)

lemma findLast_window:
  "findLastCron5Occurrence expr from to = Inr (Some c) \<Longrightarrow> floorMinute from \<le> c \<and> c \<le> to"
  using floorMinute_facts(1) [of "to"]
  by (auto simp: findLastCron5Occurrence_def dest!: lookBack_window split: if_splits sum.splits)

lemma due_window:
  assumes "resolveCronDueOccurrence s now = Inr (Some c)"
  shows "c \<le> now \<and> (\<forall>l. lastExecutedAt s = Some l \<longrightarrow> l < c)"
proof (cases "recurrence s")
  case None
  then show ?thesis using assms by (auto simp: resolveCronDueOccurrence_def split: option.splits if_splits)
next
  case (Some e)
  have "l < floorMinute (l + 60000)" for l
    using floorMinute_facts(2) [of l] by (simp add: floorMinute_def ms_defs)
  then show ?thesis
    using assms Some findLast_window [of e _ now c]
    by (cases "lastExecutedAt s") (auto simp: resolveCronDueOccurrence_def Let_def split: if_splits intro: less_le_trans)
qed

lemma expandLoop_set:
  "t \<in> set (expandLoop p cursor to n) \<longleftrightarrow>
     (\<exists>k < n. t = cursor + int k * msPerMinute) \<and> t \<le> to \<and> cron5Matches p t"
proof (induction n arbitrary: cursor)
  case (Suc n)
  have e: "(\<exists>k < Suc n. t = cursor + int k * msPerMinute) \<longleftrightarrow>
      t = cursor \<or> (\<exists>k < n. t = cursor + msPerMinute + int k * msPerMinute)" (is "?l = ?r")
  proof
    assume ?l
    then obtain k where "k < Suc n" "t = cursor + int k * msPerMinute" by blast
    then show ?r by (cases k) (auto simp: algebra_simps)
  next
    assume ?r
    then show ?l
    proof
      assume "\<exists>k < n. t = cursor + msPerMinute + int k * msPerMinute"
      then obtain k where "k < n" "t = cursor + int (Suc k) * msPerMinute" by (auto simp: algebra_simps)
      then show ?thesis by (intro exI [of _ "Suc k"]) simp
    qed (intro exI [of _ 0], simp)
  qed
  have "cursor \<le> t" if "t = cursor + msPerMinute + int k * msPerMinute" for k
    using that by (simp add: ms_defs)
  then have "(\<exists>k < n. t = cursor + msPerMinute + int k * msPerMinute) \<Longrightarrow> t \<le> to \<Longrightarrow> cursor \<le> to" by force
  then show ?case unfolding e using Suc.IH [of "cursor + msPerMinute"] by auto
qed simp

lemma expandLoop_sorted: "sorted_wrt (<) (expandLoop p cursor to n)"
proof (induction n arbitrary: cursor)
  case (Suc n)
  have "cursor < t" if "t \<in> set (expandLoop p (cursor + msPerMinute) to n)" for t
    using that by (auto simp: expandLoop_set ms_defs)
  then show ?case using Suc by auto
qed simp

lemma expandLoop_occurs:
  assumes "cursor mod msPerMinute = 0" "to < cursor + int n * msPerMinute"
  shows "t \<in> set (expandLoop p cursor to n) \<longleftrightarrow> occurs p cursor to t"
proof -
  have "(\<exists>k < n. t = cursor + int k * msPerMinute) \<longleftrightarrow> t mod msPerMinute = 0 \<and> cursor \<le> t" (is "?l = ?r") if "t \<le> to"
  proof
    assume ?l
    then show ?r using assms(1) by (auto simp: ms_defs)
  next
    assume r: ?r
    then have "(t - cursor) mod msPerMinute = 0" using assms(1) by (simp add: mod_diff_eq [symmetric])
    then obtain k where k: "t - cursor = msPerMinute * k" by (auto simp: mod_eq_0_iff_dvd)
    have "0 \<le> k" "k < int n" using k r that assms(2) by (auto simp: ms_defs)
    then have "nat k < n" "t = cursor + int (nat k) * msPerMinute" using k by (auto simp: algebra_simps)
    then show ?l by blast
  qed
  then show ?thesis by (auto simp: expandLoop_set occurs_def)
qed

lemma last_greatest: "sorted_wrt (<) xs \<Longrightarrow> xs \<noteq> [] \<Longrightarrow> u \<in> set xs \<Longrightarrow> u \<le> (last xs :: int)"
  by (induction xs) (auto simp: order_le_less)

lemma floorMinute_le: "t mod msPerMinute = 0 \<Longrightarrow> t \<le> floorMinute u \<longleftrightarrow> t \<le> u"
proof -
  assume t: "t mod msPerMinute = 0"
  have "t \<le> floorMinute u" if "t \<le> u"
  proof -
    have "t = t div msPerMinute * msPerMinute" using t div_mult_mod_eq [of t msPerMinute] by simp
    also have "\<dots> \<le> u div msPerMinute * msPerMinute"
      using zdiv_mono1 [OF that, of msPerMinute] by (simp add: ms_defs)
    also have "\<dots> = floorMinute u" by (simp add: floorMinute_def minus_mod_eq_div_mult)
    finally show ?thesis .
  qed
  then show ?thesis using floorMinute_facts(1) [of u] by linarith
qed

lemma occurs_floor: "occurs p from (floorMinute to) t \<longleftrightarrow> occurs p from to t"
  using floorMinute_le by (auto simp: occurs_def)

lemma dayOf_floorMinute [simp]: "dayOf (floorMinute t) = dayOf t"
proof -
  have "dayOf t * msPerDay mod msPerMinute = 0" by (simp add: ms_defs)
  moreover have "dayOf t * msPerDay \<le> t" by (simp add: dayOf_def ms_defs)
  ultimately have "dayOf t * msPerDay \<le> floorMinute t" by (simp add: floorMinute_le)
  then show ?thesis
    using dayOf_mono [of "dayOf t * msPerDay" "floorMinute t"] dayOf_mono [OF floorMinute_facts(1), of t] by simp
qed

text \<open>The backward scan, as a statement on the window.\<close>

lemma findLast_spec:
  assumes "parseCron5 expr = Inr p" "plainDays p" "from \<le> to"
  obtains (found) t where "findLastCron5Occurrence expr from to = Inr (Some t)" "occurs p (floorMinute from) to t"
      "\<And>u. occurs p (floorMinute from) to u \<Longrightarrow> u \<le> t"
    | (none) "findLastCron5Occurrence expr from to = Inr None"
      "\<And>u. occurs p (floorMinute from) to u \<Longrightarrow> dayOf u \<le> dayOf to - int MAX_LOOKBACK_DAYS"
proof -
  let ?l = "lookBack p (floorMinute from) (floorMinute to) (dayOf to) MAX_LOOKBACK_DAYS"
  have r: "findLastCron5Occurrence expr from to = Inr ?l" using assms by (simp add: findLastCron5Occurrence_def)
  note ok = parseCron5_ok [OF assms(1)] assms(2)
  have d: "dayOf u \<le> dayOf to" if "occurs p (floorMinute from) to u" for u
    using that dayOf_mono by (simp add: occurs_def)
  show thesis
  proof (cases ?l)
    case None
    then show ?thesis using none r lookBack_None [OF ok None] d by (simp add: occurs_floor)
  next
    case (Some t)
    then show ?thesis using found [of t] r lookBack_Some [OF ok Some] d by (auto simp: occurs_floor)
  qed
qed

section \<open>Properties\<close>

text \<open>
  The two scans agree.  For an expression whose day fields are not a stepped star next to a restricted
  field, and a window within the five-year look-back, the backward day scan returns exactly the last of the
  occurrences that the minute-by-minute expansion lists, or null when it lists none.
\<close>

lemma cron_last_is_last_of_expansion:
  assumes "parseCron5 expr = Inr p" "plainDays p" "from \<le> to"
    and "dayOf to - dayOf from < int MAX_LOOKBACK_DAYS" "to < floorMinute from + int n * msPerMinute"
  shows "\<exists>occ. expandCron5Occurrences expr from to n = Inr occ \<and>
    findLastCron5Occurrence expr from to = Inr (if occ = [] then None else Some (last occ))"
proof -
  let ?occ = "expandLoop p (floorMinute from) to n"
  have e: "expandCron5Occurrences expr from to n = Inr ?occ" using assms(1) by (simp add: expandCron5Occurrences_def)
  have m: "t \<in> set ?occ \<longleftrightarrow> occurs p (floorMinute from) to t" for t
    by (rule expandLoop_occurs [OF floorMinute_facts(3) assms(5)])
  have "findLastCron5Occurrence expr from to = Inr (if ?occ = [] then None else Some (last ?occ))"
  proof (rule findLast_spec [OF assms(1-3)])
    fix t
    assume t: "findLastCron5Occurrence expr from to = Inr (Some t)" "occurs p (floorMinute from) to t"
      "\<And>u. occurs p (floorMinute from) to u \<Longrightarrow> u \<le> t"
    then have "?occ \<noteq> []" using m by fastforce
    moreover have "last ?occ = t"
      using last_greatest [OF expandLoop_sorted calculation, of t] t(2) t(3) [of "last ?occ"]
        m [of t] m [of "last ?occ"] last_in_set [OF calculation] by linarith
    ultimately show ?thesis using t(1) by simp
  next
    assume r: "findLastCron5Occurrence expr from to = Inr None"
      "\<And>u. occurs p (floorMinute from) to u \<Longrightarrow> dayOf u \<le> dayOf to - int MAX_LOOKBACK_DAYS"
    have "\<not> occurs p (floorMinute from) to u" for u
      using r(2) [of u] assms(4) dayOf_mono [of "floorMinute from" u] by (force simp: occurs_def)
    then have "?occ = []" using m by (metis last_in_set)
    then show ?thesis using r(1) by simp
  qed
  then show ?thesis using e by blast
qed

text \<open>
  A stepped star in one day field and a restriction in the other make the scans disagree.  For the
  expression below (midnight, every second day of the month, Mondays) the matcher asks for both day fields,
  as the module's documentation says, and no minute of Monday 2 December 2024 matches; the backward scan
  that the scheduler uses accepts either field and returns midnight of that day.
\<close>

lemma cron_stepped_star_disagrees:
  "findLastCron5Occurrence ''0 0 */2 * 1'' 1733097600000 1733097600000 = Inr (Some 1733097600000)
   \<and> expandCron5Occurrences ''0 0 */2 * 1'' 1733097600000 1733097600000 MAX_EXPANSION_MINUTES = Inr []"
proof -
  define p where "p = \<lparr>c_minute = Some [0], c_hour = Some [0],
    c_dayOfMonth = Some [1, 3, 5, 7, 9, 11, 13, 15, 17, 19, 21, 23, 25, 27, 29, 31], c_month = None,
    c_dayOfWeek = Some [1], dayOfMonthStar = True, dayOfWeekStar = False\<rparr>"
  have p: "parseCron5 ''0 0 */2 * 1'' = Inr p" unfolding p_def by code_simp
  have d: "dayOf 1733097600000 = 20059" "floorMinute 1733097600000 = 1733097600000"
    by (simp_all add: dayOf_def floorMinute_def ms_defs)
  have e: "cron5DayMatches p (20059 * msPerDay)" "candidates p 20059 = [1733097600000]"
    "\<not> cron5Matches p 1733097600000"
    unfolding p_def by code_simp+
  obtain n k where nk: "MAX_LOOKBACK_DAYS = Suc n" "MAX_EXPANSION_MINUTES = Suc (Suc k)"
    using that [of 1829 57598] by (simp add: MAX_LOOKBACK_DAYS_def MAX_EXPANSION_MINUTES_def)
  show ?thesis
    unfolding findLastCron5Occurrence_def expandCron5Occurrences_def p d nk using e
    by (simp add: d ms_defs)
qed

text \<open>
  What is due for a recurring schedule whose last execution is the start of a minute: the latest matching
  minute after the last executed one (or since the creation), up to now, if there is one in the look-back; so
  a minute never fires twice and a missed occurrence is not lost.
\<close>

lemma cron_due_exact:
  assumes "recurrence s = Some expr" "parseCron5 expr = Inr p" "plainDays p"
    and clock: "case lastExecutedAt s of Some l \<Rightarrow> l mod msPerMinute = 0 | None \<Rightarrow> createdAt s \<le> now"
    and f: "from = (case lastExecutedAt s of Some l \<Rightarrow> floorMinute l + msPerMinute | None \<Rightarrow> floorMinute (createdAt s))"
  shows "case resolveCronDueOccurrence s now of
      Inl _ \<Rightarrow> False
    | Inr (Some t) \<Rightarrow> occurs p from now t \<and> (\<forall>u. occurs p from now u \<longrightarrow> u \<le> t)
    | Inr None \<Rightarrow> \<forall>u. occurs p from now u \<longrightarrow> dayOf u \<le> dayOf now - int MAX_LOOKBACK_DAYS"
proof -
  define start where "start = (case lastExecutedAt s of Some l \<Rightarrow> l + 60000 | None \<Rightarrow> createdAt s)"
  have fs: "from = floorMinute start"
    by (simp add: f start_def floorMinute_def ms_defs split: option.split)
  have r: "resolveCronDueOccurrence s now = (if now < start then Inr None else findLastCron5Occurrence expr start now)"
    using assms(1) by (simp add: resolveCronDueOccurrence_def start_def)
  show ?thesis
  proof (cases "now < start")
    case True
    have "\<not> occurs p from now u" for u
      using True clock by (auto simp: f start_def occurs_def floorMinute_def ms_defs split: option.splits)
    then show ?thesis using r True by simp
  next
    case False
    then have "start \<le> now" by simp
    then show ?thesis
      by (rule findLast_spec [OF assms(2,3)]) (use r False in \<open>simp_all add: fs\<close>)
  qed
qed

definition demoCron :: string where "demoCron = ''30 4 * * *''"

definition demoCronParsed :: cron5_expression where
  "demoCronParsed = \<lparr>c_minute = Some [30], c_hour = Some [4], c_dayOfMonth = None, c_month = None,
     c_dayOfWeek = None, dayOfMonthStar = True, dayOfWeekStar = True\<rparr>"

lemma demoCron_parse: "parseCron5 demoCron = Inr demoCronParsed" "plainDays demoCronParsed"
  by code_simp+

lemma cron_last_is_last_of_expansion_example:
  "plainDays demoCronParsed \<and> (\<exists>occ. expandCron5Occurrences demoCron 0 86400000 1441 = Inr occ \<and>
     findLastCron5Occurrence demoCron 0 86400000 = Inr (if occ = [] then None else Some (last occ)))"
  using cron_last_is_last_of_expansion [OF demoCron_parse, of 0 86400000 1441] demoCron_parse(2)
  by (simp add: dayOf_def floorMinute_def ms_defs MAX_LOOKBACK_DAYS_def)

definition demoSchedule :: cron_schedule where
  "demoSchedule = \<lparr>recurrence = Some demoCron, oneOffAt = None, lastExecutedAt = Some 16200000, createdAt = 0\<rparr>"

lemma cron_due_exact_example:
  "case resolveCronDueOccurrence demoSchedule 200000000 of
      Inl _ \<Rightarrow> False
    | Inr (Some t) \<Rightarrow> occurs demoCronParsed 16260000 200000000 t \<and> (\<forall>u. occurs demoCronParsed 16260000 200000000 u \<longrightarrow> u \<le> t)
    | Inr None \<Rightarrow> \<forall>u. occurs demoCronParsed 16260000 200000000 u \<longrightarrow> dayOf u \<le> dayOf 200000000 - int MAX_LOOKBACK_DAYS"
  by (rule cron_due_exact [OF _ demoCron_parse]) (simp_all add: demoSchedule_def floorMinute_def ms_defs)

end
