(* ===== verification/Cursor_Schedule.thy ===== *)
theory Cursor_Schedule
  imports Js_Time
begin

text \<open>
  What the scheduler's ticks share.  \<open>runRows\<close> is their loop over the loaded rows, which an exception cuts
  short; the interface \<open>row_loop\<close> says that the step of one row leaves the others alone, and gives that a
  tick does to a row what the row's own step does.  The interface \<open>cursor_schedule\<close> is the contract of a
  tick: each row has a cursor, the last occurrence executed, and a tick either leaves a row's history alone
  or fires one occurrence beyond the cursor and moves the cursor onto it; from it, no occurrence of a row is
  ever fired twice.
\<close>

section \<open>Loops over rows\<close>

datatype progress = Continue | Aborted

fun runRows :: "('r \<Rightarrow> 's \<Rightarrow> progress \<times> 's) \<Rightarrow> 'r list \<Rightarrow> 's \<Rightarrow> progress \<times> 's" where
  "runRows step [] s = (Continue, s)"
| "runRows step (r # rs) s = (case step r s of (Aborted, s') \<Rightarrow> (Aborted, s') | (Continue, s') \<Rightarrow> runRows step rs s')"

lemma runRows_append:
  "runRows step (xs @ zs) s = (case runRows step xs s of (Aborted, s') \<Rightarrow> (Aborted, s') | (Continue, s') \<Rightarrow> runRows step zs s')"
  by (induction xs arbitrary: s) (auto split: prod.splits progress.splits)

lemma runRows_keeps:
  assumes "\<And>r s. f (snd (step r s)) = f s"
  shows "f (snd (runRows step rs s)) = f s"
proof (induction rs arbitrary: s)
  case (Cons r rs)
  then show ?case using assms [of r s] by (auto split: prod.split progress.split)
qed simp

lemma runRows_inv:
  assumes "\<And>r s. P s \<Longrightarrow> P (snd (step r s))" "P s"
  shows "P (snd (runRows step rs s))"
  using assms(2)
proof (induction rs arbitrary: s)
  case (Cons r rs)
  obtain p s1 where "step r s = (p, s1)" by fastforce
  then show ?case using Cons assms(1) [of s r] by (cases p) simp_all
qed simp

lemma runRows_continue:
  "(\<And>r s. r \<in> set rs \<Longrightarrow> fst (step r s) = Continue) \<Longrightarrow> fst (runRows step rs s) = Continue"
proof (induction rs arbitrary: s)
  case (Cons r rs)
  obtain p s1 where p: "step r s = (p, s1)" by fastforce
  then have "p = Continue" using Cons.prems [of r s] by simp
  then show ?case using Cons p by simp
qed simp

locale row_loop =
  fixes step :: "'e \<Rightarrow> 'r \<Rightarrow> 's \<Rightarrow> progress \<times> 's"
    and key :: "'r \<Rightarrow> string"
    and same :: "string \<Rightarrow> 's \<Rightarrow> 's \<Rightarrow> bool"
  assumes same_refl: "same i s s"
    and same_trans: "same i s t \<Longrightarrow> same i t u \<Longrightarrow> same i s u"
    and step_other: "key r \<noteq> i \<Longrightarrow> same i s (snd (step e r s))"
begin

lemma rows_other: "i \<notin> key ` set rs \<Longrightarrow> same i s (snd (runRows (step e) rs s))"
proof (induction rs arbitrary: s)
  case Nil
  then show ?case by (simp add: same_refl)
next
  case (Cons r rs)
  obtain p s1 where p: "step e r s = (p, s1)" by fastforce
  have "same i s s1" using step_other [of r i s e] Cons.prems p by auto
  then show ?case using Cons.IH [of s1] Cons.prems p by (cases p) (auto intro: same_trans)
qed

text \<open>In a list of rows with distinct keys, what happens to a row is what its own step does.\<close>

lemma rows_cases:
  assumes "distinct (map key rs)"
  obtains (idle) "same i s (snd (runRows (step e) rs s))" "fst (runRows (step e) rs s) = Aborted \<or> i \<notin> key ` set rs"
    | (own) r s1 where "r \<in> set rs" "key r = i" "same i s s1" "same i (snd (step e r s1)) (snd (runRows (step e) rs s))"
proof (cases "i \<in> key ` set rs")
  case False
  then show ?thesis using idle rows_other by blast
next
  case True
  then obtain r xs ys where r: "rs = xs @ r # ys" "key r = i" by (auto dest: split_list)
  have x: "i \<notin> key ` set xs" and y: "i \<notin> key ` set ys" using assms r by auto
  obtain p s1 where p: "runRows (step e) xs s = (p, s1)" by fastforce
  obtain q s2 where q: "step e r s1 = (q, s2)" by fastforce
  have v: "same i s s1" using rows_other [OF x, of s e] p by simp
  show thesis
  proof (cases p)
    case Aborted
    then show ?thesis using idle v p r by (simp add: runRows_append)
  next
    case Continue
    have "same i s2 (snd (runRows (step e) rs s))"
      using rows_other [OF y, of s2 e] same_refl by (cases q) (simp_all add: r runRows_append p q Continue)
    then show ?thesis using own [of r s1] v q r by simp
  qed
qed

end

section \<open>Cursors\<close>

definition beyond :: "time option \<Rightarrow> time \<Rightarrow> bool" where
  "beyond c t = (case c of None \<Rightarrow> True | Some l \<Rightarrow> l < t)"

definition cursor_le :: "time option \<Rightarrow> time option \<Rightarrow> bool" where
  "cursor_le c c' = (case c of None \<Rightarrow> True | Some l \<Rightarrow> (case c' of None \<Rightarrow> False | Some l' \<Rightarrow> l \<le> l'))"

definition progresses :: "time option \<Rightarrow> time list \<Rightarrow> time option \<Rightarrow> time list \<Rightarrow> bool" where
  "progresses c f c' f' \<longleftrightarrow> (f' = f \<and> cursor_le c c') \<or> (\<exists>t. f' = f @ [t] \<and> beyond c t \<and> c' = Some t)"

definition settled :: "time option \<Rightarrow> time list \<Rightarrow> bool" where
  "settled c f \<longleftrightarrow> sorted_wrt (<) f \<and> (\<forall>t \<in> set f. \<exists>l. c = Some l \<and> t \<le> l)"

lemma cursor_le_refl [simp]: "cursor_le c c"
  by (simp add: cursor_le_def split: option.split)

lemma progresses_refl [simp]: "progresses c f c f"
  by (simp add: progresses_def)

lemma beyond_cursor_le: "beyond c t \<Longrightarrow> cursor_le c (Some t)"
  by (auto simp: beyond_def cursor_le_def split: option.splits)

lemma progresses_settled: "progresses c f c' f' \<Longrightarrow> settled c f \<Longrightarrow> settled c' f'"
  by (fastforce simp: progresses_def settled_def cursor_le_def beyond_def sorted_wrt_append split: option.splits)

locale cursor_schedule =
  fixes tick :: "'e \<Rightarrow> 's \<Rightarrow> 's"
    and cursor :: "'s \<Rightarrow> string \<Rightarrow> time option"
    and fired :: "'s \<Rightarrow> string \<Rightarrow> time list"
    and writes :: "'e \<Rightarrow> string \<Rightarrow> bool"
    and inv :: "'s \<Rightarrow> bool"
  assumes tick_inv: "inv s \<Longrightarrow> inv (tick e s)"
    and tick_progresses: "inv s \<Longrightarrow> writes e i \<Longrightarrow>
      progresses (cursor s i) (fired s i) (cursor (tick e s) i) (fired (tick e s) i)"
begin

lemma run_settled:
  "inv s \<Longrightarrow> settled (cursor s i) (fired s i) \<Longrightarrow> \<forall>e \<in> set es. writes e i \<Longrightarrow>
   settled (cursor (fold tick es s) i) (fired (fold tick es s) i)"
  by (induction es arbitrary: s) (auto intro: tick_inv progresses_settled tick_progresses)

text \<open>Starting with nothing fired, the occurrences fired are strictly increasing.\<close>

lemma fired_increasing:
  "inv s \<Longrightarrow> fired s i = [] \<Longrightarrow> \<forall>e \<in> set es. writes e i \<Longrightarrow> sorted_wrt (<) (fired (fold tick es s) i)"
  using run_settled [of s i es] by (simp add: settled_def)

end

end
