(* ===== verification/Scheduled_Tasks.thy ===== *)
theory Scheduled_Tasks
  imports Cron Cursor_Schedule
begin

text \<open>
  The scheduler worker's tick over \<^verbatim>\<open>scheduled_tasks\<close>, \<^verbatim>\<open>apps/workers/scheduler/src/scheduled-task-tick.ts\<close>
  with the database operations of \<^verbatim>\<open>deps/scheduled-task.ts\<close>.  The outcome of every call that leaves the
  process (RCON stream, container restart, database writes) is given by the tick's environment; what the
  tick does is recorded in a log.  An exception that leaves the tick is the flag \<open>Aborted\<close>; diagnostics are
  left out.
\<close>

section \<open>Rows, environment, log\<close>

datatype task_type = Restart | SetNextLayer | ChangeLayer | Broadcast

record task_params =
  tp_layer :: "string option"
  tp_message :: "string option"
  tp_messages :: "string list option"

record task =
  tk_id :: string
  tk_serverId :: string
  tk_serverName :: string
  tk_taskType :: task_type
  tk_params :: task_params
  tk_scheduledAt :: "time option"
  tk_recurrence :: "string option"
  tk_lastExecutedAt :: "time option"
  tk_rotationIndex :: nat
  tk_createdBy :: "string option"
  tk_createdAt :: time
  tk_enabled :: bool

datatype dispatch_outcome = Done | Transient | Permanent

record tick_env =
  te_now :: time
  te_deleted :: "string \<Rightarrow> bool"
  te_depotUpdating :: "string \<Rightarrow> bool"
  te_restart :: "string \<Rightarrow> dispatch_outcome"
  te_send :: "string \<Rightarrow> string \<Rightarrow> string list \<Rightarrow> bool"
  te_setLastExecutedAt :: "string \<Rightarrow> bool"
  te_advanceRotationIndex :: "string \<Rightarrow> bool"
  te_echo :: "string \<Rightarrow> bool"
  te_recordRun :: "string \<Rightarrow> bool"
  te_writeAudit :: "string \<Rightarrow> bool"

datatype run_status = Executed | SkippedDepotUpdate | Failed

datatype task_event =
    Dispatched string time string "string list"
  | RunRecorded string time run_status
  | Audited string time run_status
  | Echoed string string

record task_retry =
  attempts :: nat
  nextAttemptAt :: time

record tick_counts =
  n_executed :: nat
  n_skipped :: nat
  n_failed :: nat

record sched =
  sc_tasks :: "task list"
  sc_retries :: "((string \<times> time) \<times> task_retry) list"
  sc_log :: "task_event list"
  sc_counts :: tick_counts

definition MAX_DISPATCH_ATTEMPTS :: nat where "MAX_DISPATCH_ATTEMPTS = 5"
definition RETRY_BASE_DELAY_MS :: int where "RETRY_BASE_DELAY_MS = 30000"
definition RETRY_MAX_DELAY_MS :: int where "RETRY_MAX_DELAY_MS = 10 * 60000"

section \<open>Database operations\<close>

definition loadEnabledTasks :: "tick_env \<Rightarrow> sched \<Rightarrow> task list" where
  "loadEnabledTasks env s = filter (\<lambda>t. tk_enabled t \<and> \<not> te_deleted env (tk_serverId t)) (sc_tasks s)"

definition setLastExecutedAt :: "string \<Rightarrow> time \<Rightarrow> sched \<Rightarrow> sched" where
  "setLastExecutedAt i at s =
     s\<lparr>sc_tasks := update_rows (\<lambda>t. tk_id t = i) (\<lambda>t. t\<lparr>tk_lastExecutedAt := Some at\<rparr>) (sc_tasks s)\<rparr>"

definition setRotationIndex :: "string \<Rightarrow> nat \<Rightarrow> sched \<Rightarrow> sched" where
  "setRotationIndex i n s =
     s\<lparr>sc_tasks := update_rows (\<lambda>t. tk_id t = i) (\<lambda>t. t\<lparr>tk_rotationIndex := n\<rparr>) (sc_tasks s)\<rparr>"

definition logEvent :: "task_event \<Rightarrow> sched \<Rightarrow> sched" where
  "logEvent e s = s\<lparr>sc_log := sc_log s @ [e]\<rparr>"

definition deleteRetry :: "string \<times> time \<Rightarrow> sched \<Rightarrow> sched" where
  "deleteRetry k s = s\<lparr>sc_retries := map_del k (sc_retries s)\<rparr>"

section \<open>Dispatch\<close>

definition resolveDue :: "task \<Rightarrow> time \<Rightarrow> cron_error + time option" where
  "resolveDue t now = resolveCronDueOccurrence
     \<lparr>recurrence = tk_recurrence t, oneOffAt = tk_scheduledAt t, lastExecutedAt = tk_lastExecutedAt t,
      createdAt = tk_createdAt t\<rparr> now"

text \<open>\<^verbatim>\<open>template.replace(/\{server\}/g, ...)\<close>.\<close>

definition SERVER_TOKEN :: string where "SERVER_TOKEN = ''{server}''"

function fillServer :: "string \<Rightarrow> string \<Rightarrow> string" where
  "fillServer name s = (case s of [] \<Rightarrow> []
     | c # r \<Rightarrow> if take 8 s = SERVER_TOKEN then name @ fillServer name (drop 8 s) else c # fillServer name r)"
  by pat_completeness auto
termination
  by (relation "measure (\<lambda>(name, s). length s)") auto

declare fillServer.simps [simp del]

text \<open>The command sent and, for a broadcast, its text and the length of the rotation; or the failure.\<close>

definition dispatchTask ::
  "tick_env \<Rightarrow> task \<Rightarrow> dispatch_outcome + (string \<times> string list \<times> (string \<times> nat) option)" where
  "dispatchTask env t = (case tk_taskType t of
     Restart \<Rightarrow> (case te_restart env (tk_serverId t) of
       Done \<Rightarrow> Inr (''restart'', [], None) | Transient \<Rightarrow> Inl Transient | Permanent \<Rightarrow> Inl Permanent)
   | Broadcast \<Rightarrow>
       (let list = (case tp_messages (tk_params t) of Some ms \<Rightarrow> ms
          | None \<Rightarrow> (case tp_message (tk_params t) of None \<Rightarrow> [] | Some m \<Rightarrow> if m = [] then [] else [m]))
        in if length list = 0 then Inl Transient
           else let text = fillServer (tk_serverName t) (list ! (tk_rotationIndex t mod length list))
             in if te_send env (tk_serverId t) ''AdminBroadcast'' [text]
                then Inr (''AdminBroadcast'', [text], Some (text, length list)) else Inl Transient)
   | type \<Rightarrow> (case tp_layer (tk_params t) of
       None \<Rightarrow> Inl Transient
     | Some layer \<Rightarrow>
         if layer = [] then Inl Transient
         else let command = (if type = ChangeLayer then ''AdminChangeLayer'' else ''AdminSetNextLayer'')
           in if te_send env (tk_serverId t) command [layer] then Inr (command, [layer], None) else Inl Transient))"

section \<open>One task\<close>

definition count :: "(tick_counts \<Rightarrow> tick_counts) \<Rightarrow> sched \<Rightarrow> sched" where
  "count f s = s\<lparr>sc_counts := f (sc_counts s)\<rparr>"

definition skipForDepot :: "tick_env \<Rightarrow> task \<Rightarrow> time \<Rightarrow> sched \<Rightarrow> progress \<times> sched" where
  "skipForDepot env t occ s0 =
     (let s = count (\<lambda>c. c\<lparr>n_skipped := n_skipped c + 1\<rparr>) s0 in
      if \<not> te_recordRun env (tk_id t) then (Aborted, s)
      else let s = logEvent (RunRecorded (tk_id t) occ SkippedDepotUpdate) s in
        if \<not> te_writeAudit env (tk_id t) then (Aborted, s)
        else (Continue, logEvent (Audited (tk_id t) occ SkippedDepotUpdate) s))"

definition retryDelay :: "nat \<Rightarrow> int" where
  "retryDelay n = min (RETRY_BASE_DELAY_MS * 2 ^ n) RETRY_MAX_DELAY_MS"

definition dispatchFailed :: "tick_env \<Rightarrow> task \<Rightarrow> time \<Rightarrow> nat \<Rightarrow> bool \<Rightarrow> sched \<Rightarrow> progress \<times> sched" where
  "dispatchFailed env t occ priorAttempts isPermanent s0 =
     (let s = count (\<lambda>c. c\<lparr>n_failed := n_failed c + 1\<rparr>) s0;
          n = priorAttempts + 1;
          permanent = (isPermanent \<or> MAX_DISPATCH_ATTEMPTS \<le> n)
      in if \<not> te_recordRun env (tk_id t) then (Aborted, s)
         else let s = logEvent (RunRecorded (tk_id t) occ Failed) s in
           if permanent
           then let s = deleteRetry (tk_id t, occ) s in
             if \<not> te_setLastExecutedAt env (tk_id t) then (Aborted, s)
             else (Continue, setLastExecutedAt (tk_id t) occ s)
           else (Continue, s\<lparr>sc_retries := map_put (tk_id t, occ)
               \<lparr>attempts = n, nextAttemptAt = te_now env + retryDelay n\<rparr> (sc_retries s)\<rparr>))"

text \<open>Bookkeeping after a dispatch: the first failing write ends it, and the tick goes on.\<close>

definition recordSuccessfulDispatch ::
  "tick_env \<Rightarrow> task \<Rightarrow> time \<Rightarrow> (string \<times> nat) option \<Rightarrow> sched \<Rightarrow> sched" where
  "recordSuccessfulDispatch env t occ broadcast s =
     (if \<not> te_setLastExecutedAt env (tk_id t) then s
      else let s = setLastExecutedAt (tk_id t) occ s;
        rotates = (case broadcast of Some (_, n) \<Rightarrow> 1 < n | None \<Rightarrow> False)
      in if rotates \<and> \<not> te_advanceRotationIndex env (tk_id t) then s
      else let s = (case broadcast of
                Some (text, n) \<Rightarrow>
                  (let s = (if 1 < n then setRotationIndex (tk_id t) ((tk_rotationIndex t + 1) mod n) s else s)
                   in if tk_createdBy t \<noteq> None \<and> te_echo env (tk_id t) then logEvent (Echoed (tk_id t) text) s else s)
              | None \<Rightarrow> s)
      in if \<not> te_recordRun env (tk_id t) then s
      else let s = logEvent (RunRecorded (tk_id t) occ Executed) s
      in if \<not> te_writeAudit env (tk_id t) then s
      else count (\<lambda>c. c\<lparr>n_executed := n_executed c + 1\<rparr>) (logEvent (Audited (tk_id t) occ Executed) s))"

definition processTask :: "tick_env \<Rightarrow> task \<Rightarrow> sched \<Rightarrow> progress \<times> sched" where
  "processTask env t s =
     (case resolveDue t (te_now env) of
        Inl _ \<Rightarrow> (Aborted, s)
      | Inr None \<Rightarrow> (Continue, s)
      | Inr (Some occ) \<Rightarrow>
          (let retry = map_of (sc_retries s) (tk_id t, occ) in
           if (case retry of Some r \<Rightarrow> te_now env < nextAttemptAt r | None \<Rightarrow> False) then (Continue, s)
           else if te_depotUpdating env (tk_id t) then skipForDepot env t occ s
           else case dispatchTask env t of
             Inl outcome \<Rightarrow>
               dispatchFailed env t occ (case retry of Some r \<Rightarrow> attempts r | None \<Rightarrow> 0) (outcome = Permanent) s
           | Inr (command, args, broadcast) \<Rightarrow>
               (Continue, recordSuccessfulDispatch env t occ broadcast
                 (deleteRetry (tk_id t, occ) (logEvent (Dispatched (tk_id t) occ command args) s)))))"

section \<open>The tick\<close>

definition processTasks :: "tick_env \<Rightarrow> task list \<Rightarrow> sched \<Rightarrow> progress \<times> sched" where
  "processTasks env ts s = runRows (processTask env) ts s"

definition runScheduledTaskTick :: "tick_env \<Rightarrow> sched \<Rightarrow> progress \<times> sched" where
  "runScheduledTaskTick env s0 =
     (let s = s0\<lparr>sc_counts := \<lparr>n_executed = 0, n_skipped = 0, n_failed = 0\<rparr>\<rparr>
      in processTasks env (loadEnabledTasks env s) s)"

section \<open>What concerns one task\<close>

fun eventTask :: "task_event \<Rightarrow> string" where
  "eventTask (Dispatched i _ _ _) = i"
| "eventTask (RunRecorded i _ _) = i"
| "eventTask (Audited i _ _) = i"
| "eventTask (Echoed i _) = i"

definition eventsOf :: "string \<Rightarrow> sched \<Rightarrow> task_event list" where
  "eventsOf i s = filter (\<lambda>e. eventTask e = i) (sc_log s)"

definition rowOf :: "string \<Rightarrow> sched \<Rightarrow> task option" where
  "rowOf i s = find_row (\<lambda>t. tk_id t = i) (sc_tasks s)"

definition cursorOf :: "sched \<Rightarrow> string \<Rightarrow> time option" where
  "cursorOf s i = (case rowOf i s of None \<Rightarrow> None | Some t \<Rightarrow> tk_lastExecutedAt t)"

fun dispatchedAt :: "task_event list \<Rightarrow> time list" where
  "dispatchedAt [] = []"
| "dispatchedAt (Dispatched _ occ _ _ # es) = occ # dispatchedAt es"
| "dispatchedAt (_ # es) = dispatchedAt es"

definition firedOf :: "sched \<Rightarrow> string \<Rightarrow> time list" where
  "firedOf s i = dispatchedAt (eventsOf i s)"

definition retryOf :: "sched \<Rightarrow> string \<Rightarrow> time \<Rightarrow> task_retry option" where
  "retryOf s i occ = map_of (sc_retries s) (i, occ)"

lemma dispatchedAt_append [simp]: "dispatchedAt (a @ b) = dispatchedAt a @ dispatchedAt b"
  by (induction a rule: dispatchedAt.induct) auto

definition ids :: "sched \<Rightarrow> string list" where "ids s = map tk_id (sc_tasks s)"

named_theorems sched_ops \<open>how the primitive operations act on the view of one task\<close>

lemma rowOf_ops [sched_ops]:
  "rowOf i (setLastExecutedAt j at s) = (if i = j then map_option (\<lambda>t. t\<lparr>tk_lastExecutedAt := Some at\<rparr>) (rowOf i s) else rowOf i s)"
  "rowOf i (setRotationIndex j n s) = (if i = j then map_option (\<lambda>t. t\<lparr>tk_rotationIndex := n\<rparr>) (rowOf i s) else rowOf i s)"
  "rowOf i (logEvent e s) = rowOf i s" "rowOf i (deleteRetry k s) = rowOf i s" "rowOf i (count f s) = rowOf i s"
  "rowOf i (s\<lparr>sc_retries := m\<rparr>) = rowOf i s"
  by (simp_all add: rowOf_def setLastExecutedAt_def setRotationIndex_def logEvent_def deleteRetry_def count_def find_row_update)

lemma ids_ops [sched_ops]:
  "ids (setLastExecutedAt j at s) = ids s" "ids (setRotationIndex j n s) = ids s" "ids (logEvent e s) = ids s"
  "ids (deleteRetry k s) = ids s" "ids (count f s) = ids s" "ids (s\<lparr>sc_retries := m\<rparr>) = ids s"
  by (simp_all add: ids_def setLastExecutedAt_def setRotationIndex_def logEvent_def deleteRetry_def count_def)

lemma eventsOf_ops [sched_ops]:
  "eventsOf i (setLastExecutedAt j at s) = eventsOf i s" "eventsOf i (setRotationIndex j n s) = eventsOf i s"
  "eventsOf i (logEvent e s) = eventsOf i s @ (if eventTask e = i then [e] else [])"
  "eventsOf i (deleteRetry k s) = eventsOf i s" "eventsOf i (count f s) = eventsOf i s"
  "eventsOf i (s\<lparr>sc_retries := m\<rparr>) = eventsOf i s"
  by (simp_all add: eventsOf_def setLastExecutedAt_def setRotationIndex_def logEvent_def deleteRetry_def count_def)

lemma retryOf_ops [sched_ops]:
  "retryOf (setLastExecutedAt j at s) i occ = retryOf s i occ" "retryOf (setRotationIndex j n s) i occ = retryOf s i occ"
  "retryOf (logEvent e s) i occ = retryOf s i occ" "retryOf (count f s) i occ = retryOf s i occ"
  "retryOf (deleteRetry k s) i occ = (if k = (i, occ) then None else retryOf s i occ)"
  "retryOf (s\<lparr>sc_retries := map_put k r m\<rparr>) i occ = (if k = (i, occ) then Some r else map_of m (i, occ))"
  by (simp_all add: retryOf_def setLastExecutedAt_def setRotationIndex_def logEvent_def deleteRetry_def count_def)

lemma sc_retries_ops [sched_ops]:
  "sc_retries (setLastExecutedAt j at s) = sc_retries s" "sc_retries (logEvent e s) = sc_retries s"
  "sc_retries (count f s) = sc_retries s"
  by (simp_all add: setLastExecutedAt_def logEvent_def count_def)

text \<open>The view of one task: its row, its events and its retry states.\<close>

definition sameView :: "string \<Rightarrow> sched \<Rightarrow> sched \<Rightarrow> bool" where
  "sameView i s s' \<longleftrightarrow> rowOf i s' = rowOf i s \<and> eventsOf i s' = eventsOf i s \<and> (\<forall>occ. retryOf s' i occ = retryOf s i occ)"

lemma processTask_other:
  assumes "tk_id t \<noteq> i"
  shows "sameView i s (snd (processTask env t s))"
  using assms
  by (auto simp: processTask_def skipForDepot_def dispatchFailed_def recordSuccessfulDispatch_def Let_def sameView_def
      sched_ops retryOf_def [symmetric] split: sum.split option.split prod.split)

interpretation tr: row_loop processTask tk_id sameView
  by unfold_locales (auto simp: processTask_other, simp_all add: sameView_def)

lemma resolveDue_beyond: "resolveDue t now = Inr (Some occ) \<Longrightarrow> beyond (tk_lastExecutedAt t) occ"
  by (auto simp: resolveDue_def beyond_def dest: due_window split: option.split)

lemma processTask_ids: "ids (snd (processTask env t s)) = ids s"
  by (auto simp: processTask_def skipForDepot_def dispatchFailed_def recordSuccessfulDispatch_def Let_def
      sched_ops split: sum.split option.split prod.split)

lemma processTask_self:
  assumes "rowOf (tk_id t) s = Some r" "tk_lastExecutedAt r = tk_lastExecutedAt t" "te_setLastExecutedAt env (tk_id t)"
  defines "s' \<equiv> snd (processTask env t s)"
  shows "progresses (cursorOf s (tk_id t)) (firedOf s (tk_id t)) (cursorOf s' (tk_id t)) (firedOf s' (tk_id t))"
proof (cases "resolveDue t (te_now env)")
  case (Inr due)
  show ?thesis
  proof (cases due)
    case (Some occ)
    have b: "beyond (tk_lastExecutedAt r) occ" using resolveDue_beyond Inr Some assms(2) by simp
    show ?thesis
    proof (cases "dispatchTask env t")
      case (Inl out)
      then show ?thesis
        using assms Inr Some beyond_cursor_le [OF b]
        by (auto simp: processTask_def skipForDepot_def dispatchFailed_def Let_def progresses_def cursorOf_def firedOf_def
            sched_ops split: option.split)
    next
      case (Inr res)
      then show ?thesis
        using assms \<open>resolveDue t (te_now env) = Inr due\<close> Some b
        by (auto simp: processTask_def skipForDepot_def recordSuccessfulDispatch_def Let_def progresses_def cursorOf_def firedOf_def
            sched_ops split: option.split prod.split)
    qed
  qed (use Inr assms in \<open>simp add: processTask_def\<close>)
qed (use assms in \<open>simp add: processTask_def\<close>)

lemma processTasks_ids: "ids (snd (processTasks env ts s)) = ids s"
  unfolding processTasks_def by (rule runRows_keeps) (rule processTask_ids)

lemma view_cursor: "sameView i s s' \<Longrightarrow> cursorOf s' i = cursorOf s i \<and> firedOf s' i = firedOf s i"
  by (simp add: sameView_def cursorOf_def firedOf_def)

lemma rowOf_mem: "distinct (ids s) \<Longrightarrow> t \<in> set (sc_tasks s) \<Longrightarrow> rowOf (tk_id t) s = Some t"
  unfolding rowOf_def ids_def by (rule find_row_unique) (auto simp: distinct_map inj_on_def)

definition resetCounts :: "sched \<Rightarrow> sched" where
  "resetCounts s = s\<lparr>sc_counts := \<lparr>n_executed = 0, n_skipped = 0, n_failed = 0\<rparr>\<rparr>"

lemma resetCounts_view: "sameView i s (resetCounts s)" "ids (resetCounts s) = ids s" "sc_tasks (resetCounts s) = sc_tasks s"
  by (simp_all add: resetCounts_def sameView_def rowOf_def eventsOf_def retryOf_def ids_def)

lemma tick_unfold: "runScheduledTaskTick env s = processTasks env (loadEnabledTasks env s) (resetCounts s)"
  by (simp add: runScheduledTaskTick_def resetCounts_def loadEnabledTasks_def)

lemma loaded_distinct: "distinct (ids s) \<Longrightarrow> distinct (map tk_id (loadEnabledTasks env s))"
  by (simp add: loadEnabledTasks_def ids_def distinct_map inj_on_def)

text \<open>A tick, seen from one task: nothing happens to it, or its own step runs on its row.\<close>

lemma tick_cases:
  assumes "distinct (ids s)"
  obtains (idle) "sameView i s (snd (runScheduledTaskTick env s))"
      "fst (runScheduledTaskTick env s) = Aborted \<or> i \<notin> tk_id ` set (loadEnabledTasks env s)"
    | (own) t s1 where "t \<in> set (loadEnabledTasks env s)" "tk_id t = i" "rowOf i s = Some t" "sameView i s s1"
      "sameView i (snd (processTask env t s1)) (snd (runScheduledTaskTick env s))"
proof (rule tr.rows_cases [OF loaded_distinct [OF assms, of env], of i "resetCounts s" env])
  assume "sameView i (resetCounts s) (snd (runRows (processTask env) (loadEnabledTasks env s) (resetCounts s)))"
    "fst (runRows (processTask env) (loadEnabledTasks env s) (resetCounts s)) = Aborted \<or> i \<notin> tk_id ` set (loadEnabledTasks env s)"
  then show ?thesis
    using idle tr.same_trans [OF resetCounts_view(1)] by (simp add: tick_unfold processTasks_def)
next
  fix t s1
  assume t: "t \<in> set (loadEnabledTasks env s)" "tk_id t = i" "sameView i (resetCounts s) s1"
    "sameView i (snd (processTask env t s1)) (snd (runRows (processTask env) (loadEnabledTasks env s) (resetCounts s)))"
  have "rowOf i s = Some t" using t rowOf_mem [OF assms, of t] by (auto simp: loadEnabledTasks_def)
  then show ?thesis
    using own [of t s1] t tr.same_trans [OF resetCounts_view(1)] by (simp add: tick_unfold processTasks_def)
qed

definition runTick :: "tick_env \<Rightarrow> sched \<Rightarrow> sched" where
  "runTick env s = snd (runScheduledTaskTick env s)"

lemma runTick_ids: "ids (runTick env s) = ids s"
  by (simp add: runTick_def tick_unfold processTasks_ids resetCounts_view)

interpretation st: cursor_schedule runTick cursorOf firedOf te_setLastExecutedAt "\<lambda>s. distinct (ids s)"
proof (unfold_locales, goal_cases)
  case (1 s env)
  then show ?case by (simp add: runTick_ids)
next
  case (2 s env i)
  show ?case
  proof (rule tick_cases [OF 2(1), of i env])
    assume "sameView i s (snd (runScheduledTaskTick env s))"
    then show ?thesis using view_cursor by (simp add: runTick_def)
  next
    fix t s1
    assume t: "tk_id t = i" "rowOf i s = Some t" and v: "sameView i s s1"
      and w: "sameView i (snd (processTask env t s1)) (snd (runScheduledTaskTick env s))"
    have "rowOf (tk_id t) s1 = Some t" using t v by (simp add: sameView_def)
    then have "progresses (cursorOf s1 i) (firedOf s1 i) (cursorOf (snd (processTask env t s1)) i) (firedOf (snd (processTask env t s1)) i)"
      using processTask_self [of t s1 t env] 2(2) t(1) by simp
    then show ?thesis using view_cursor [OF v] view_cursor [OF w] by (simp add: runTick_def)
  qed
qed

section \<open>Retries\<close>

definition failures :: "string \<Rightarrow> time \<Rightarrow> sched \<Rightarrow> nat" where
  "failures i occ s = length (filter (\<lambda>e. e = RunRecorded i occ Failed) (eventsOf i s))"

text \<open>
  The retry table counts the failed runs: an occurrence with an entry has that many failures, fewer than
  the limit; one without has none, or lies at or before the cursor.
\<close>

definition occ_ok :: "time option \<Rightarrow> task_retry option \<Rightarrow> nat \<Rightarrow> time \<Rightarrow> bool" where
  "occ_ok cur retry n occ = (case retry of
       Some r \<Rightarrow> n = attempts r \<and> attempts r < MAX_DISPATCH_ATTEMPTS
     | None \<Rightarrow> n = 0 \<or> n \<le> MAX_DISPATCH_ATTEMPTS \<and> (\<exists>l. cur = Some l \<and> occ \<le> l))"

definition retries_ok :: "string \<Rightarrow> sched \<Rightarrow> bool" where
  "retries_ok i s \<longleftrightarrow> (\<forall>occ. occ_ok (cursorOf s i) (retryOf s i occ) (failures i occ s) occ)"

lemma occ_ok_bound: "occ_ok cur r n occ \<Longrightarrow> n \<le> MAX_DISPATCH_ATTEMPTS"
  by (auto simp: occ_ok_def split: option.splits)

lemma occ_ok_mono: "occ_ok cur r n occ \<Longrightarrow> cursor_le cur cur' \<Longrightarrow> occ_ok cur' r n occ"
  by (auto simp: occ_ok_def cursor_le_def split: option.splits)

lemma view_failures: "sameView i s s' \<Longrightarrow> failures i occ s' = failures i occ s"
  by (simp add: sameView_def failures_def)

lemma retries_ok_view: "sameView i s s' \<Longrightarrow> retries_ok i s' = retries_ok i s"
  using view_cursor [of i s s'] view_failures [of i s s'] by (simp add: retries_ok_def sameView_def)

lemma recordSuccessful_view:
  assumes "rowOf (tk_id t) s = Some r" "te_setLastExecutedAt env (tk_id t)"
  shows "cursorOf (recordSuccessfulDispatch env t occ b s) (tk_id t) = Some occ"
    and "retryOf (recordSuccessfulDispatch env t occ b s) (tk_id t) o' = retryOf s (tk_id t) o'"
    and "failures (tk_id t) o' (recordSuccessfulDispatch env t occ b s) = failures (tk_id t) o' s"
    and "firedOf (recordSuccessfulDispatch env t occ b s) (tk_id t) = firedOf s (tk_id t)"
  using assms by (auto simp: recordSuccessfulDispatch_def Let_def cursorOf_def failures_def firedOf_def sched_ops
      split: option.split prod.split)

text \<open>The outcomes of one step on its own task, when the cursor can be written.\<close>

lemma processTask_outcomes:
  assumes "rowOf (tk_id t) s = Some t" "te_setLastExecutedAt env (tk_id t)"
  defines "s' \<equiv> snd (processTask env t s)" and "i \<equiv> tk_id t"
  obtains (same) "cursorOf s' i = cursorOf s i" "firedOf s' i = firedOf s i" "\<And>o'. retryOf s' i o' = retryOf s i o'"
      "\<And>o'. failures i o' s' = failures i o' s"
    | (dispatched) occ where "resolveDue t (te_now env) = Inr (Some occ)" "cursorOf s' i = Some occ"
      "firedOf s' i = firedOf s i @ [occ]" "\<And>o'. retryOf s' i o' = (if o' = occ then None else retryOf s i o')"
      "\<And>o'. failures i o' s' = failures i o' s"
    | (retry) occ n where "resolveDue t (te_now env) = Inr (Some occ)" "cursorOf s' i = cursorOf s i" "firedOf s' i = firedOf s i"
      "n = (case retryOf s i occ of Some r \<Rightarrow> attempts r | None \<Rightarrow> 0) + 1" "n < MAX_DISPATCH_ATTEMPTS"
      "\<And>o'. retryOf s' i o' = (if o' = occ then Some \<lparr>attempts = n, nextAttemptAt = te_now env + retryDelay n\<rparr> else retryOf s i o')"
      "\<And>o'. failures i o' s' = failures i o' s + (if o' = occ then 1 else 0)"
    | (abandoned) occ where "resolveDue t (te_now env) = Inr (Some occ)" "cursorOf s' i = Some occ" "firedOf s' i = firedOf s i"
      "\<And>o'. retryOf s' i o' = (if o' = occ then None else retryOf s i o')"
      "\<And>o'. failures i o' s' = failures i o' s + (if o' = occ then 1 else 0)"
proof (cases "resolveDue t (te_now env)")
  case (Inl e)
  then show ?thesis using same by (simp add: s'_def processTask_def)
next
  case (Inr due)
  show ?thesis
  proof (cases due)
    case None
    then show ?thesis using same Inr by (simp add: s'_def processTask_def)
  next
    case (Some occ)
    have due: "resolveDue t (te_now env) = Inr (Some occ)" using Inr Some by simp
    let ?waiting = "case retryOf s i occ of Some r \<Rightarrow> te_now env < nextAttemptAt r | None \<Rightarrow> False"
    note u = s'_def i_def processTask_def due retryOf_def [symmetric]
    show ?thesis
    proof (cases "?waiting \<or> te_depotUpdating env i")
      case True
      then show ?thesis
        using same by (auto simp: u skipForDepot_def Let_def cursorOf_def firedOf_def failures_def sched_ops)
    next
      case False
      show ?thesis
      proof (cases "dispatchTask env t")
        case (Inr res)
        obtain c ar b where res: "res = (c, ar, b)" by (cases res)
        let ?s1 = "deleteRetry (i, occ) (logEvent (Dispatched i occ c ar) s)"
        have "s' = recordSuccessfulDispatch env t occ b ?s1" using False Inr res by (simp add: u)
        moreover have "rowOf (tk_id t) ?s1 = Some t" using assms(1) by (simp add: sched_ops)
        note recordSuccessful_view [OF this assms(2)]
        ultimately show ?thesis
          using dispatched [OF due]
          by (simp add: i_def sched_ops firedOf_def failures_def)
      next
        case (Inl out)
        define n where "n = (case retryOf s i occ of Some r \<Rightarrow> attempts r | None \<Rightarrow> 0) + 1"
        have f: "s' = snd (dispatchFailed env t occ (n - 1) (out = Permanent) s)"
          using False Inl by (simp add: u n_def)
        show ?thesis
        proof (cases "te_recordRun env i")
          case True
          show ?thesis
          proof (cases "out = Permanent \<or> MAX_DISPATCH_ATTEMPTS \<le> n")
            case True
            then show ?thesis
              using abandoned [OF due] f \<open>te_recordRun env i\<close> assms(1,2)
              by (auto simp: dispatchFailed_def Let_def n_def i_def sched_ops cursorOf_def firedOf_def failures_def)
          next
            case False
            then show ?thesis
              using retry [OF due _ _ n_def] f \<open>te_recordRun env i\<close> n_def
              by (auto simp: dispatchFailed_def Let_def i_def sched_ops cursorOf_def firedOf_def failures_def retryOf_def)
          qed
        next
          case False
          then show ?thesis
            using same f by (simp add: dispatchFailed_def Let_def i_def sched_ops cursorOf_def firedOf_def failures_def)
        qed
      qed
    qed
  qed
qed

lemma processTask_retries:
  assumes "rowOf (tk_id t) s = Some t" "te_setLastExecutedAt env (tk_id t)" and ok: "retries_ok (tk_id t) s"
  shows "retries_ok (tk_id t) (snd (processTask env t s))"
proof -
  let ?i = "tk_id t" and ?s = "snd (processTask env t s)"
  have o: "occ_ok (cursorOf s ?i) (retryOf s ?i o') (failures ?i o' s) o'" for o'
    using ok by (simp add: retries_ok_def)
  have c: "cursorOf s ?i = tk_lastExecutedAt t" using assms(1) by (simp add: cursorOf_def)
  show ?thesis
  proof (rule processTask_outcomes [OF assms(1,2)])
    fix occ
    assume due: "resolveDue t (te_now env) = Inr (Some occ)" and cur: "cursorOf ?s ?i = Some occ"
      and v: "\<And>o'. retryOf ?s ?i o' = (if o' = occ then None else retryOf s ?i o')" "\<And>o'. failures ?i o' ?s = failures ?i o' s"
    have "cursor_le (cursorOf s ?i) (Some occ)" using beyond_cursor_le [OF resolveDue_beyond [OF due]] c by simp
    then show ?thesis
      unfolding retries_ok_def cur v using o occ_ok_mono [OF o] occ_ok_bound [OF o] by (simp add: occ_ok_def)
  next
    fix occ
    assume due: "resolveDue t (te_now env) = Inr (Some occ)" and cur: "cursorOf ?s ?i = Some occ"
      and v: "\<And>o'. retryOf ?s ?i o' = (if o' = occ then None else retryOf s ?i o')"
        "\<And>o'. failures ?i o' ?s = failures ?i o' s + (if o' = occ then 1 else 0)"
    have b: "beyond (cursorOf s ?i) occ" using resolveDue_beyond [OF due] c by simp
    then have "failures ?i occ s < MAX_DISPATCH_ATTEMPTS"
      using o [of occ] by (auto simp: occ_ok_def beyond_def MAX_DISPATCH_ATTEMPTS_def split: option.splits)
    then show ?thesis
      unfolding retries_ok_def cur v using occ_ok_mono [OF o beyond_cursor_le [OF b]] by (simp add: occ_ok_def [of _ None])
  next
    fix occ n
    assume due: "resolveDue t (te_now env) = Inr (Some occ)" and cur: "cursorOf ?s ?i = cursorOf s ?i"
      and n: "n = (case retryOf s ?i occ of Some r \<Rightarrow> attempts r | None \<Rightarrow> 0) + 1" "n < MAX_DISPATCH_ATTEMPTS"
      and v: "\<And>o'. retryOf ?s ?i o' = (if o' = occ then Some \<lparr>attempts = n, nextAttemptAt = te_now env + retryDelay n\<rparr> else retryOf s ?i o')"
        "\<And>o'. failures ?i o' ?s = failures ?i o' s + (if o' = occ then 1 else 0)"
    have "beyond (cursorOf s ?i) occ" using resolveDue_beyond [OF due] c by simp
    then have "failures ?i occ s + 1 = n"
      using o [of occ] n by (auto simp: occ_ok_def beyond_def split: option.splits)
    then show ?thesis
      unfolding retries_ok_def cur v using o n(2) by (simp add: occ_ok_def [of _ "Some _"])
  qed (use ok in \<open>simp add: retries_ok_def\<close>)
qed

lemma runTick_retries:
  assumes "distinct (ids s)" "te_setLastExecutedAt env i" "retries_ok i s"
  shows "retries_ok i (runTick env s)"
proof (rule tick_cases [OF assms(1), of i env])
  assume "sameView i s (snd (runScheduledTaskTick env s))"
  then show ?thesis using assms(3) by (simp add: runTick_def retries_ok_view)
next
  fix t s1
  assume t: "tk_id t = i" "rowOf i s = Some t" and v: "sameView i s s1"
    and w: "sameView i (snd (processTask env t s1)) (snd (runScheduledTaskTick env s))"
  have "rowOf (tk_id t) s1 = Some t" using t v by (simp add: sameView_def)
  then have "retries_ok i (snd (processTask env t s1))"
    using processTask_retries [of t s1 env] assms(2,3) t(1) retries_ok_view [OF v] by simp
  then show ?thesis using retries_ok_view [OF w] by (simp add: runTick_def)
qed

lemma run_retries:
  "distinct (ids s) \<Longrightarrow> \<forall>env \<in> set envs. te_setLastExecutedAt env i \<Longrightarrow> retries_ok i s \<Longrightarrow> retries_ok i (fold runTick envs s)"
  by (induction envs arbitrary: s) (simp_all add: runTick_ids runTick_retries)

section \<open>A one-off task is settled\<close>

text \<open>Nothing but dispatching fails, and every expression parses: then no tick is cut short.\<close>

definition calm :: "tick_env \<Rightarrow> bool" where
  "calm env \<longleftrightarrow> (\<forall>i. te_recordRun env i \<and> te_writeAudit env i \<and> te_setLastExecutedAt env i)"

definition static :: "task \<Rightarrow> task" where
  "static t = t\<lparr>tk_lastExecutedAt := None, tk_rotationIndex := 0\<rparr>"

definition statics :: "sched \<Rightarrow> task list" where "statics s = map static (sc_tasks s)"

definition validCrons :: "sched \<Rightarrow> bool" where
  "validCrons s \<longleftrightarrow> list_all (\<lambda>t. case tk_recurrence t of None \<Rightarrow> True | Some e \<Rightarrow> isValidCron5 e) (sc_tasks s)"

lemma static_update: "static (t\<lparr>tk_lastExecutedAt := a\<rparr>) = static t" "static (t\<lparr>tk_rotationIndex := n\<rparr>) = static t"
  by (simp_all add: static_def)

lemma statics_ops [sched_ops]:
  "statics (setLastExecutedAt j at s) = statics s" "statics (setRotationIndex j n s) = statics s"
  "statics (logEvent e s) = statics s" "statics (deleteRetry k s) = statics s" "statics (count f s) = statics s"
  "statics (s\<lparr>sc_retries := m\<rparr>) = statics s"
  by (simp_all add: statics_def setLastExecutedAt_def setRotationIndex_def logEvent_def deleteRetry_def count_def
      static_update)

lemma processTask_statics: "statics (snd (processTask env t s)) = statics s"
  by (auto simp: processTask_def skipForDepot_def dispatchFailed_def recordSuccessfulDispatch_def Let_def
      sched_ops split: sum.split option.split prod.split)

lemma processTasks_statics: "statics (snd (processTasks env ts s)) = statics s"
  unfolding processTasks_def by (rule runRows_keeps) (rule processTask_statics)

lemma runTick_statics: "statics (runTick env s) = statics s"
  by (simp add: runTick_def tick_unfold processTasks_statics) (simp add: statics_def resetCounts_def)

lemma validCrons_statics: "validCrons s = list_all (\<lambda>t. case tk_recurrence t of None \<Rightarrow> True | Some e \<Rightarrow> isValidCron5 e) (statics s)"
  by (simp add: validCrons_def statics_def list.pred_map comp_def static_def)

lemma processTask_calm:
  assumes "calm env" "case tk_recurrence t of None \<Rightarrow> True | Some e \<Rightarrow> isValidCron5 e"
  shows "fst (processTask env t s) = Continue"
proof -
  have "resolveDue t (te_now env) \<noteq> Inl e" for e
    using assms(2) by (auto simp: resolveDue_def resolveCronDueOccurrence_def findLastCron5Occurrence_def isValidCron5_def Let_def
        split: option.splits sum.splits)
  then show ?thesis
    using assms(1) by (auto simp: processTask_def skipForDepot_def dispatchFailed_def calm_def Let_def
        split: sum.split option.split prod.split)
qed

lemma runTick_calm:
  assumes "calm env" "validCrons s"
  shows "fst (runScheduledTaskTick env s) = Continue"
  unfolding tick_unfold processTasks_def
  by (rule runRows_continue, rule processTask_calm [OF assms(1)]) (use assms(2) in \<open>auto simp: validCrons_def list_all_iff loadEnabledTasks_def\<close>)

text \<open>The one-off task \<open>i\<close> at \<open>occ\<close> in a table of valid rows, seen by ticks that may touch it.\<close>

definition oneOff :: "string \<Rightarrow> time \<Rightarrow> sched \<Rightarrow> bool" where
  "oneOff i occ s \<longleftrightarrow> distinct (ids s) \<and> validCrons s \<and>
     (\<exists>t. rowOf i s = Some t \<and> tk_recurrence t = None \<and> tk_scheduledAt t = Some occ \<and> tk_enabled t)"

definition serves :: "string \<Rightarrow> sched \<Rightarrow> tick_env \<Rightarrow> bool" where
  "serves i s env \<longleftrightarrow> calm env \<and> \<not> te_depotUpdating env i \<and>
     (case rowOf i s of None \<Rightarrow> False | Some t \<Rightarrow> \<not> te_deleted env (tk_serverId t))"

text \<open>Ticks at least \<open>RETRY_MAX_DELAY_MS\<close> apart.\<close>

fun spaced :: "time \<Rightarrow> tick_env list \<Rightarrow> bool" where
  "spaced T [] \<longleftrightarrow> True"
| "spaced T (env # envs) \<longleftrightarrow> T \<le> te_now env \<and> spaced (te_now env + RETRY_MAX_DELAY_MS) envs"

lemma rowOf_statics: "map_option static (rowOf i s) = find_row (\<lambda>t. tk_id t = i) (statics s)"
proof -
  have "map_option static (find_row (\<lambda>t. tk_id t = i) ts) = find_row (\<lambda>t. tk_id t = i) (map static ts)" for ts
    by (induction ts) (auto simp: static_def)
  then show ?thesis by (simp add: rowOf_def statics_def)
qed

lemma rowOf_runTick: "map_option static (rowOf i (runTick env s)) = map_option static (rowOf i s)"
  by (simp add: rowOf_statics runTick_statics)

lemma static_sel: "static t = static t' \<Longrightarrow>
  tk_recurrence t = tk_recurrence t' \<and> tk_scheduledAt t = tk_scheduledAt t' \<and> tk_enabled t = tk_enabled t' \<and> tk_serverId t = tk_serverId t'"
  by (cases t; cases t') (simp add: static_def)

lemma oneOff_runTick:
  assumes "oneOff i occ s"
  shows "oneOff i occ (runTick env s)"
proof -
  obtain t where t: "rowOf i s = Some t" "tk_recurrence t = None" "tk_scheduledAt t = Some occ" "tk_enabled t"
    using assms by (auto simp: oneOff_def)
  then obtain t' where "rowOf i (runTick env s) = Some t'" "static t' = static t"
    using rowOf_runTick [of i env s] by auto
  then show ?thesis
    using assms t static_sel [of t' t] by (simp add: oneOff_def runTick_ids validCrons_statics runTick_statics)
qed

lemma serves_runTick: "serves i (runTick e s) env = serves i s env"
  using rowOf_runTick [of i e s]
  by (cases "rowOf i (runTick e s)"; cases "rowOf i s") (auto simp: serves_def dest: static_sel)

lemma serves_loaded:
  assumes "oneOff i occ s" "serves i s env" "rowOf i s = Some t"
  shows "t \<in> set (loadEnabledTasks env s) \<and> tk_id t = i"
  using assms find_row_Some [of "\<lambda>t. tk_id t = i" "sc_tasks s" t]
  by (auto simp: oneOff_def serves_def loadEnabledTasks_def rowOf_def)

text \<open>A tick that serves the task runs its step.\<close>

lemma serves_step:
  assumes "oneOff i occ s" "serves i s env"
  obtains t s1 where "rowOf i s = Some t" "tk_id t = i" "tk_recurrence t = None" "tk_scheduledAt t = Some occ"
    "sameView i s s1" "rowOf (tk_id t) s1 = Some t" "te_setLastExecutedAt env (tk_id t)"
    "sameView i (snd (processTask env t s1)) (runTick env s)"
proof -
  obtain t where t: "rowOf i s = Some t" "tk_recurrence t = None" "tk_scheduledAt t = Some occ"
    using assms(1) by (auto simp: oneOff_def)
  have l: "t \<in> set (loadEnabledTasks env s)" "tk_id t = i" using serves_loaded [OF assms t(1)] by simp_all
  have d: "distinct (ids s)" using assms(1) by (simp add: oneOff_def)
  show thesis
  proof (rule tick_cases [OF d, of i env])
    assume "fst (runScheduledTaskTick env s) = Aborted \<or> i \<notin> tk_id ` set (loadEnabledTasks env s)"
    then show thesis using l runTick_calm [of env s] assms by (auto simp: oneOff_def serves_def)
  next
    fix u s1
    assume u: "tk_id u = i" "rowOf i s = Some u" "sameView i s s1"
      "sameView i (snd (processTask env u s1)) (snd (runScheduledTaskTick env s))"
    have "u = t" using u(2) t(1) by simp
    then show thesis
      using that [of t s1] t l(2) u assms(2) by (auto simp: runTick_def sameView_def serves_def calm_def)
  qed
qed

definition waiting :: "string \<Rightarrow> time \<Rightarrow> nat \<Rightarrow> time \<Rightarrow> sched \<Rightarrow> bool" where
  "waiting i occ k T s \<longleftrightarrow> cursorOf s i = None \<and> firedOf s i = [] \<and>
     (case retryOf s i occ of None \<Rightarrow> k = 0 | Some r \<Rightarrow> attempts r = k \<and> nextAttemptAt r \<le> T)"

definition done_with :: "string \<Rightarrow> time \<Rightarrow> sched \<Rightarrow> bool" where
  "done_with i occ s \<longleftrightarrow> cursorOf s i = Some occ \<and>
     (firedOf s i = [occ] \<or> firedOf s i = [] \<and> 0 < failures i occ s)"

lemma done_with_step:
  assumes "oneOff i occ s" "serves i s env" "done_with i occ s"
  shows "done_with i occ (runTick env s)"
proof (rule serves_step [OF assms(1,2)])
  fix t s1
  assume t: "rowOf i s = Some t" "tk_id t = i" "tk_recurrence t = None" "sameView i s s1"
    "sameView i (snd (processTask env t s1)) (runTick env s)"
  have "tk_lastExecutedAt t = Some occ" using t(1) assms(3) by (simp add: done_with_def cursorOf_def)
  then have "processTask env t s1 = (Continue, s1)"
    using t(3) by (simp add: processTask_def resolveDue_def resolveCronDueOccurrence_def split: option.split)
  then have "sameView i s (runTick env s)" using t(4,5) tr.same_trans by simp
  then show ?thesis using assms(3) view_cursor view_failures by (simp add: done_with_def)
qed

lemma retryDelay_le: "retryDelay n \<le> RETRY_MAX_DELAY_MS"
  by (simp add: retryDelay_def)

lemma waiting_step:
  assumes "oneOff i occ s" "serves i s env" "waiting i occ k T s" "T \<le> te_now env" "occ \<le> te_now env"
  shows "done_with i occ (runTick env s) \<or>
    waiting i occ (k + 1) (te_now env + RETRY_MAX_DELAY_MS) (runTick env s) \<and> k + 1 < MAX_DISPATCH_ATTEMPTS"
proof (rule serves_step [OF assms(1,2)])
  fix t s1
  let ?s = "snd (processTask env t s1)"
  assume t: "rowOf i s = Some t" "tk_id t = i" "tk_recurrence t = None" "tk_scheduledAt t = Some occ"
    and v: "sameView i s s1" and r1: "rowOf (tk_id t) s1 = Some t" "te_setLastExecutedAt env (tk_id t)"
    and w: "sameView i ?s (runTick env s)"
  have fin: "cursorOf (runTick env s) i = cursorOf ?s i" "firedOf (runTick env s) i = firedOf ?s i"
    "\<And>o'. retryOf (runTick env s) i o' = retryOf ?s i o'" "\<And>o'. failures i o' (runTick env s) = failures i o' ?s"
    using view_cursor [OF w] view_failures [OF w] w by (simp_all add: sameView_def)
  have w1: "cursorOf s1 i = None" "firedOf s1 i = []" "retryOf s1 i occ = retryOf s i occ"
    using assms(3) view_cursor [OF v] v by (simp_all add: waiting_def sameView_def)
  have "tk_lastExecutedAt t = None" using assms(3) t(1) by (simp add: waiting_def cursorOf_def)
  then have due: "resolveDue t (te_now env) = Inr (Some occ)"
    using t assms(5) by (simp add: resolveDue_def resolveCronDueOccurrence_def)
  have active: "\<not> (case retryOf s1 i occ of Some r \<Rightarrow> te_now env < nextAttemptAt r | None \<Rightarrow> False)"
    using assms(3,4) w1(3) by (auto simp: waiting_def split: option.splits)
  have k: "(case retryOf s1 i occ of Some r \<Rightarrow> attempts r | None \<Rightarrow> 0) = k"
    using assms(3) w1(3) by (auto simp: waiting_def split: option.splits)
  show ?thesis
  proof (cases "dispatchTask env t")
    case (Inr res)
    then obtain c ar b where res: "dispatchTask env t = Inr (c, ar, b)" by (cases res) auto
    let ?s2 = "deleteRetry (i, occ) (logEvent (Dispatched i occ c ar) s1)"
    have "?s = recordSuccessfulDispatch env t occ b ?s2"
      using res active assms(2) t(2) by (simp add: processTask_def due retryOf_def [symmetric] serves_def)
    moreover have "rowOf (tk_id t) ?s2 = Some t" using r1(1) by (simp add: sched_ops)
    note recordSuccessful_view [OF this r1(2)]
    ultimately show ?thesis using t(2) w1 fin by (simp add: done_with_def firedOf_def sched_ops)
  next
    case (Inl out)
    have f: "?s = snd (dispatchFailed env t occ k (out = Permanent) s1)"
      using Inl active assms(2) t(2) by (simp add: processTask_def due retryOf_def [symmetric] serves_def k)
    have rec: "te_recordRun env i" using assms(2) by (simp add: serves_def calm_def)
    show ?thesis
    proof (cases "out = Permanent \<or> MAX_DISPATCH_ATTEMPTS \<le> k + 1")
      case True
      then have "cursorOf ?s i = Some occ \<and> firedOf ?s i = [] \<and> 0 < failures i occ ?s"
        unfolding f using rec r1 t(2) w1(2)
        by (auto simp: dispatchFailed_def Let_def sched_ops cursorOf_def firedOf_def failures_def)
      then show ?thesis by (simp add: fin done_with_def)
    next
      case False
      then have "cursorOf ?s i = None \<and> firedOf ?s i = [] \<and>
          retryOf ?s i occ = Some \<lparr>attempts = k + 1, nextAttemptAt = te_now env + retryDelay (k + 1)\<rparr>"
        unfolding f using rec r1 t(2) w1(1,2)
        by (auto simp: dispatchFailed_def Let_def sched_ops cursorOf_def firedOf_def)
      then show ?thesis using False retryDelay_le [of "k + 1"] by (simp add: fin waiting_def)
    qed
  qed
qed

lemma settles:
  "oneOff i occ s \<Longrightarrow> \<forall>env \<in> set envs. serves i s env \<and> occ \<le> te_now env \<Longrightarrow> spaced T envs \<Longrightarrow>
   done_with i occ s \<or> waiting i occ k T s \<and> MAX_DISPATCH_ATTEMPTS \<le> k + length envs \<and> k < MAX_DISPATCH_ATTEMPTS \<Longrightarrow>
   done_with i occ (fold runTick envs s)"
proof (induction envs arbitrary: s T k)
  case Nil
  then show ?case by auto
next
  case (Cons env envs)
  have o: "oneOff i occ (runTick env s)" by (rule oneOff_runTick [OF Cons.prems(1)])
  have e: "\<forall>e' \<in> set envs. serves i (runTick env s) e' \<and> occ \<le> te_now e'" using Cons.prems(2) by (simp add: serves_runTick)
  have sp: "T \<le> te_now env" "spaced (te_now env + RETRY_MAX_DELAY_MS) envs" using Cons.prems(3) by simp_all
  have sv: "serves i s env" "occ \<le> te_now env" using Cons.prems(2) by simp_all
  have "done_with i occ (runTick env s) \<or>
    waiting i occ (k + 1) (te_now env + RETRY_MAX_DELAY_MS) (runTick env s) \<and>
      MAX_DISPATCH_ATTEMPTS \<le> k + 1 + length envs \<and> k + 1 < MAX_DISPATCH_ATTEMPTS"
    using Cons.prems(4) done_with_step [OF Cons.prems(1) sv(1)]
      waiting_step [OF Cons.prems(1) sv(1) _ sp(1) sv(2), of k] by auto
  then show ?case using Cons.IH [OF o e sp(2), of "k + 1"] by simp
qed

section \<open>Properties\<close>


text \<open>
  A failing occurrence is attempted at most \<open>MAX_DISPATCH_ATTEMPTS\<close> times: that is the largest number of
  failed runs ever recorded for one occurrence of a task.
\<close>

lemma scheduled_retries_bounded:
  assumes "distinct (ids s)" "eventsOf i s = []" "\<And>o'. retryOf s i o' = None"
    and "\<forall>env \<in> set envs. te_setLastExecutedAt env i"
  shows "failures i occ (fold runTick envs s) \<le> MAX_DISPATCH_ATTEMPTS"
proof -
  have "retries_ok i s" using assms(2,3) by (simp add: retries_ok_def occ_ok_def failures_def)
  then have "retries_ok i (fold runTick envs s)" by (rule run_retries [OF assms(1,4)])
  then show ?thesis unfolding retries_ok_def using occ_ok_bound by blast
qed

text \<open>
  A due one-off task is settled.  After \<open>MAX_DISPATCH_ATTEMPTS\<close> ticks at least \<open>RETRY_MAX_DELAY_MS\<close> apart,
  in which the database works and no depot update is under way, its cursor stands on its occurrence: it was
  dispatched exactly once, or given up with its failures recorded; dispatching may fail as it likes, and the
  other tasks cannot hold it up.
\<close>

lemma scheduled_one_off_settles:
  assumes "oneOff i occ s" "cursorOf s i = None" "firedOf s i = []" "retryOf s i occ = None"
    and "\<forall>env \<in> set envs. serves i s env \<and> occ \<le> te_now env" "spaced T envs"
    and "MAX_DISPATCH_ATTEMPTS \<le> length envs"
  shows "cursorOf (fold runTick envs s) i = Some occ \<and>
    (firedOf (fold runTick envs s) i = [occ] \<or>
     firedOf (fold runTick envs s) i = [] \<and> 0 < failures i occ (fold runTick envs s))"
proof -
  have "waiting i occ 0 T s" using assms(2-4) by (simp add: waiting_def)
  then have "done_with i occ (fold runTick envs s)"
    using settles [OF assms(1,5,6), of 0] assms(7) by (simp add: MAX_DISPATCH_ATTEMPTS_def)
  then show ?thesis by (simp add: done_with_def)
qed

definition demoTask :: task where
  "demoTask = \<lparr>tk_id = ''t1'', tk_serverId = ''s1'', tk_serverName = ''One'', tk_taskType = Restart,
     tk_params = \<lparr>tp_layer = None, tp_message = None, tp_messages = None\<rparr>, tk_scheduledAt = Some 1000,
     tk_recurrence = None, tk_lastExecutedAt = None, tk_rotationIndex = 0, tk_createdBy = None,
     tk_createdAt = 0, tk_enabled = True\<rparr>"

definition demoSched :: sched where
  "demoSched = \<lparr>sc_tasks = [demoTask], sc_retries = [], sc_log = [],
     sc_counts = \<lparr>n_executed = 0, n_skipped = 0, n_failed = 0\<rparr>\<rparr>"

definition demoTickEnv :: "time \<Rightarrow> tick_env" where
  "demoTickEnv now = \<lparr>te_now = now, te_deleted = (\<lambda>_. False), te_depotUpdating = (\<lambda>_. False),
     te_restart = (\<lambda>_. if now < 2000000 then Transient else Done), te_send = (\<lambda>_ _ _. True),
     te_setLastExecutedAt = (\<lambda>_. True), te_advanceRotationIndex = (\<lambda>_. True), te_echo = (\<lambda>_. True),
     te_recordRun = (\<lambda>_. True), te_writeAudit = (\<lambda>_. True)\<rparr>"

definition demoTicks :: "tick_env list" where
  "demoTicks = map demoTickEnv [1000, 601000, 1201000, 1801000, 2401000]"

lemmas demo_sched_defs = demoSched_def demoTask_def demoTicks_def demoTickEnv_def


lemma scheduled_retries_bounded_example:
  "failures ''t1'' 1000 (fold runTick demoTicks demoSched) \<le> MAX_DISPATCH_ATTEMPTS"
  by (rule scheduled_retries_bounded) (simp_all add: demo_sched_defs ids_def eventsOf_def retryOf_def)

lemma scheduled_one_off_settles_example:
  "cursorOf (fold runTick demoTicks demoSched) ''t1'' = Some 1000 \<and>
    (firedOf (fold runTick demoTicks demoSched) ''t1'' = [1000] \<or>
     firedOf (fold runTick demoTicks demoSched) ''t1'' = [] \<and> 0 < failures ''t1'' 1000 (fold runTick demoTicks demoSched))"
  by (rule scheduled_one_off_settles [of _ _ _ _ 1000])
    (simp_all add: demo_sched_defs oneOff_def ids_def validCrons_def rowOf_def cursorOf_def firedOf_def eventsOf_def
      retryOf_def serves_def calm_def RETRY_MAX_DELAY_MS_def MAX_DISPATCH_ATTEMPTS_def)

end
