(* ===== verification/Rotation_Schedule.thy ===== *)
theory Rotation_Schedule
  imports Cursor_Schedule
begin

text \<open>
  The scheduler worker's tick over \<^verbatim>\<open>rotation_schedule\<close>, one-off layer changes:
  \<^verbatim>\<open>apps/workers/scheduler/src/rotation-schedule-tick.ts\<close> with the database operations of
  \<^verbatim>\<open>deps/rotation-schedule.ts\<close>.  The environment gives the clock and the outcome of every call that
  leaves the process; diagnostics are left out.  An entry fires at most once and never later than the
  allowed lateness, and an entry past it is settled without firing.
\<close>

section \<open>Rows, environment, state\<close>

datatype rotation_mode = SetNext | ForceChange

record rotation_entry =
  ro_id :: string
  ro_serverId :: string
  ro_scheduledAt :: time
  ro_layer :: string
  ro_mode :: rotation_mode
  ro_lastExecutedAt :: "time option"
  ro_enabled :: bool

datatype rotation_action = RotationExecute | RotationSkipDepotUpdate | RotationSkipExpired

datatype rotation_event =
    RotationSent string time time string string
  | RotationAudited string time rotation_action

definition ROTATION_SCHEDULE_MAX_LATENESS_MS :: int where
  "ROTATION_SCHEDULE_MAX_LATENESS_MS = 15 * 60000"

text \<open>\<open>re_isDepotUpdating\<close> is what a read of the flag would give while an entry is handled, \<open>None\<close> when it throws.\<close>

record rotation_env =
  re_now :: time
  re_deleted :: "string \<Rightarrow> bool"
  re_isDepotUpdating :: "string \<Rightarrow> bool option"
  re_sendRconCommand :: "string \<Rightarrow> string \<Rightarrow> string list \<Rightarrow> bool"
  re_setLastExecutedAt :: "string \<Rightarrow> bool"
  re_writeAuditEntry :: "string \<Rightarrow> bool"

record rotation_state =
  rs_entries :: "rotation_entry list"
  rs_auditedDepotSkips :: "(string \<times> time) list"
  rs_log :: "rotation_event list"
  rs_depotUpdating :: "bool option"
  rs_executed :: nat
  rs_skippedDepotUpdate :: nat

section \<open>Operations\<close>

definition loadEnabledRotationScheduleEntries :: "rotation_env \<Rightarrow> rotation_state \<Rightarrow> rotation_entry list" where
  "loadEnabledRotationScheduleEntries env s =
     filter (\<lambda>e. ro_enabled e \<and> ro_lastExecutedAt e = None \<and> \<not> re_deleted env (ro_serverId e)) (rs_entries s)"

definition setRotationScheduleLastExecutedAt :: "string \<Rightarrow> time \<Rightarrow> rotation_state \<Rightarrow> rotation_state" where
  "setRotationScheduleLastExecutedAt i at s =
     s\<lparr>rs_entries := update_rows (\<lambda>e. ro_id e = i) (\<lambda>e. e\<lparr>ro_lastExecutedAt := Some at\<rparr>) (rs_entries s)\<rparr>"

definition rotationLog :: "rotation_event \<Rightarrow> rotation_state \<Rightarrow> rotation_state" where
  "rotationLog ev s = s\<lparr>rs_log := rs_log s @ [ev]\<rparr>"

definition resolveDueRotationSchedule :: "rotation_entry \<Rightarrow> time \<Rightarrow> time option" where
  "resolveDueRotationSchedule e now =
     (if ro_lastExecutedAt e \<noteq> None \<or> now < ro_scheduledAt e then None else Some (ro_scheduledAt e))"

definition rotationCommand :: "rotation_mode \<Rightarrow> string" where
  "rotationCommand m = (if m = ForceChange then ''AdminChangeLayer'' else ''AdminSetNextLayer'')"

definition skipExpired :: "rotation_env \<Rightarrow> rotation_entry \<Rightarrow> time \<Rightarrow> rotation_state \<Rightarrow> progress \<times> rotation_state" where
  "skipExpired env e occ s =
     (if \<not> re_setLastExecutedAt env (ro_id e) then (Aborted, s)
      else let s = setRotationScheduleLastExecutedAt (ro_id e) occ s in
        if \<not> re_writeAuditEntry env (ro_id e) then (Aborted, s)
        else (Continue, rotationLog (RotationAudited (ro_id e) occ RotationSkipExpired) s))"

definition skipRotationForDepot :: "rotation_env \<Rightarrow> rotation_entry \<Rightarrow> time \<Rightarrow> rotation_state \<Rightarrow> progress \<times> rotation_state" where
  "skipRotationForDepot env e occ s0 =
     (let s = s0\<lparr>rs_skippedDepotUpdate := rs_skippedDepotUpdate s0 + 1\<rparr> in
      if (ro_id e, occ) \<in> set (rs_auditedDepotSkips s) then (Continue, s)
      else if \<not> re_writeAuditEntry env (ro_id e) then (Aborted, s)
      else let s = rotationLog (RotationAudited (ro_id e) occ RotationSkipDepotUpdate) s
        in (Continue, s\<lparr>rs_auditedDepotSkips := js_add (ro_id e, occ) (rs_auditedDepotSkips s)\<rparr>))"

definition sendRotation :: "rotation_env \<Rightarrow> rotation_entry \<Rightarrow> time \<Rightarrow> rotation_state \<Rightarrow> progress \<times> rotation_state" where
  "sendRotation env e occ s0 =
     (let s = s0\<lparr>rs_auditedDepotSkips := removeAll (ro_id e, occ) (rs_auditedDepotSkips s0)\<rparr>;
          command = rotationCommand (ro_mode e)
      in if \<not> re_sendRconCommand env (ro_serverId e) command [ro_layer e] then (Continue, s)
         else let s = rotationLog (RotationSent (ro_id e) occ (re_now env) command (ro_layer e)) s in
           if \<not> re_setLastExecutedAt env (ro_id e) then (Aborted, s)
           else let s = setRotationScheduleLastExecutedAt (ro_id e) occ s in
             if \<not> re_writeAuditEntry env (ro_id e) then (Aborted, s)
             else let s = rotationLog (RotationAudited (ro_id e) occ RotationExecute) s
               in (Continue, s\<lparr>rs_executed := rs_executed s + 1\<rparr>))"

definition processRotationEntry :: "rotation_env \<Rightarrow> rotation_entry \<Rightarrow> rotation_state \<Rightarrow> progress \<times> rotation_state" where
  "processRotationEntry env e s =
     (case resolveDueRotationSchedule e (re_now env) of
        None \<Rightarrow> (Continue, s)
      | Some occ \<Rightarrow>
          if ROTATION_SCHEDULE_MAX_LATENESS_MS < re_now env - occ then skipExpired env e occ s
          else (case (if rs_depotUpdating s = None then re_isDepotUpdating env (ro_id e) else rs_depotUpdating s) of
              None \<Rightarrow> (Aborted, s)
            | Some updating \<Rightarrow>
                (let s = s\<lparr>rs_depotUpdating := Some updating\<rparr>
                 in if updating then skipRotationForDepot env e occ s else sendRotation env e occ s)))"

definition runRotationScheduleTick :: "rotation_env \<Rightarrow> rotation_state \<Rightarrow> progress \<times> rotation_state" where
  "runRotationScheduleTick env s0 =
     (let s = s0\<lparr>rs_executed := 0, rs_skippedDepotUpdate := 0, rs_depotUpdating := None\<rparr>
      in runRows (processRotationEntry env) (loadEnabledRotationScheduleEntries env s) s)"

section \<open>What concerns one entry\<close>

fun rotationEventEntry :: "rotation_event \<Rightarrow> string" where
  "rotationEventEntry (RotationSent i _ _ _ _) = i"
| "rotationEventEntry (RotationAudited i _ _) = i"

definition rotationEvents :: "string \<Rightarrow> rotation_state \<Rightarrow> rotation_event list" where
  "rotationEvents i s = filter (\<lambda>ev. rotationEventEntry ev = i) (rs_log s)"

definition rotationRow :: "string \<Rightarrow> rotation_state \<Rightarrow> rotation_entry option" where
  "rotationRow i s = find_row (\<lambda>e. ro_id e = i) (rs_entries s)"

definition rotationCursor :: "rotation_state \<Rightarrow> string \<Rightarrow> time option" where
  "rotationCursor s i = (case rotationRow i s of None \<Rightarrow> None | Some e \<Rightarrow> ro_lastExecutedAt e)"

fun sentAt :: "rotation_event list \<Rightarrow> time list" where
  "sentAt [] = []"
| "sentAt (RotationSent _ occ _ _ _ # es) = occ # sentAt es"
| "sentAt (_ # es) = sentAt es"

definition rotationFired :: "rotation_state \<Rightarrow> string \<Rightarrow> time list" where
  "rotationFired s i = sentAt (rotationEvents i s)"

definition rotationIds :: "rotation_state \<Rightarrow> string list" where
  "rotationIds s = map ro_id (rs_entries s)"

lemma sentAt_append [simp]: "sentAt (a @ b) = sentAt a @ sentAt b"
  by (induction a rule: sentAt.induct) auto

named_theorems rotation_ops \<open>how the primitive operations act on the view of one entry\<close>

lemma rotationRow_ops [rotation_ops]:
  "rotationRow i (setRotationScheduleLastExecutedAt j at s) =
     (if i = j then map_option (\<lambda>e. e\<lparr>ro_lastExecutedAt := Some at\<rparr>) (rotationRow i s) else rotationRow i s)"
  "rotationRow i (rotationLog ev s) = rotationRow i s" "rotationRow i (s\<lparr>rs_auditedDepotSkips := k\<rparr>) = rotationRow i s"
  "rotationRow i (s\<lparr>rs_depotUpdating := d\<rparr>) = rotationRow i s" "rotationRow i (s\<lparr>rs_executed := n\<rparr>) = rotationRow i s"
  "rotationRow i (s\<lparr>rs_skippedDepotUpdate := n\<rparr>) = rotationRow i s"
  by (simp_all add: rotationRow_def setRotationScheduleLastExecutedAt_def rotationLog_def find_row_update)

lemma rotationEvents_ops [rotation_ops]:
  "rotationEvents i (setRotationScheduleLastExecutedAt j at s) = rotationEvents i s"
  "rotationEvents i (rotationLog ev s) = rotationEvents i s @ (if rotationEventEntry ev = i then [ev] else [])"
  "rotationEvents i (s\<lparr>rs_auditedDepotSkips := k\<rparr>) = rotationEvents i s"
  "rotationEvents i (s\<lparr>rs_depotUpdating := d\<rparr>) = rotationEvents i s" "rotationEvents i (s\<lparr>rs_executed := n\<rparr>) = rotationEvents i s"
  "rotationEvents i (s\<lparr>rs_skippedDepotUpdate := n\<rparr>) = rotationEvents i s"
  by (simp_all add: rotationEvents_def setRotationScheduleLastExecutedAt_def rotationLog_def)

lemma rotationIds_ops [rotation_ops]:
  "rotationIds (setRotationScheduleLastExecutedAt j at s) = rotationIds s" "rotationIds (rotationLog ev s) = rotationIds s"
  "rotationIds (s\<lparr>rs_auditedDepotSkips := k\<rparr>) = rotationIds s" "rotationIds (s\<lparr>rs_depotUpdating := d\<rparr>) = rotationIds s"
  "rotationIds (s\<lparr>rs_executed := n\<rparr>) = rotationIds s" "rotationIds (s\<lparr>rs_skippedDepotUpdate := n\<rparr>) = rotationIds s"
  by (simp_all add: rotationIds_def setRotationScheduleLastExecutedAt_def rotationLog_def)

lemmas rotation_steps = processRotationEntry_def skipExpired_def skipRotationForDepot_def sendRotation_def Let_def

definition sameEntry :: "string \<Rightarrow> rotation_state \<Rightarrow> rotation_state \<Rightarrow> bool" where
  "sameEntry i s s' \<longleftrightarrow> rotationRow i s' = rotationRow i s \<and> rotationEvents i s' = rotationEvents i s"

lemma processRotationEntry_other: "ro_id e \<noteq> i \<Longrightarrow> sameEntry i s (snd (processRotationEntry env e s))"
  by (auto simp: rotation_steps sameEntry_def rotation_ops split: option.split)

lemma processRotationEntry_ids: "rotationIds (snd (processRotationEntry env e s)) = rotationIds s"
  by (auto simp: rotation_steps rotation_ops split: option.split)

interpretation rr: row_loop processRotationEntry ro_id sameEntry
  by unfold_locales (auto simp: processRotationEntry_other, simp_all add: sameEntry_def)

lemma sameEntry_view:
  "sameEntry i s s' \<Longrightarrow> rotationCursor s' i = rotationCursor s i \<and> rotationFired s' i = rotationFired s i"
  by (simp add: sameEntry_def rotationCursor_def rotationFired_def)

definition freshTick :: "rotation_state \<Rightarrow> rotation_state" where
  "freshTick s = s\<lparr>rs_executed := 0, rs_skippedDepotUpdate := 0, rs_depotUpdating := None\<rparr>"

lemma freshTick_view: "sameEntry i s (freshTick s)" "rotationIds (freshTick s) = rotationIds s"
  by (simp_all add: freshTick_def sameEntry_def rotationRow_def rotationEvents_def rotationIds_def)

definition rotationTick :: "rotation_env \<Rightarrow> rotation_state \<Rightarrow> rotation_state" where
  "rotationTick env s = snd (runRotationScheduleTick env s)"

lemma rotationTick_unfold:
  "runRotationScheduleTick env s = runRows (processRotationEntry env) (loadEnabledRotationScheduleEntries env s) (freshTick s)"
  by (simp add: runRotationScheduleTick_def freshTick_def loadEnabledRotationScheduleEntries_def)

lemma rotationTick_ids: "rotationIds (rotationTick env s) = rotationIds s"
  by (simp add: rotationTick_def rotationTick_unfold freshTick_view runRows_keeps [of rotationIds] processRotationEntry_ids)

lemma rotation_cases:
  assumes "distinct (rotationIds s)"
  obtains (idle) "sameEntry i s (rotationTick env s)"
      "fst (runRotationScheduleTick env s) = Aborted \<or> i \<notin> ro_id ` set (loadEnabledRotationScheduleEntries env s)"
    | (own) e s1 where "e \<in> set (loadEnabledRotationScheduleEntries env s)" "ro_id e = i" "rotationRow i s = Some e" "sameEntry i s s1"
      "sameEntry i (snd (processRotationEntry env e s1)) (rotationTick env s)"
proof -
  let ?es = "loadEnabledRotationScheduleEntries env s" and ?run = "runRows (processRotationEntry env)"
  have d: "distinct (map ro_id ?es)"
    using assms by (simp add: loadEnabledRotationScheduleEntries_def rotationIds_def distinct_map inj_on_def)
  show thesis
  proof (rule rr.rows_cases [OF d, of i "freshTick s" env])
    assume "sameEntry i (freshTick s) (snd (?run ?es (freshTick s)))" "fst (?run ?es (freshTick s)) = Aborted \<or> i \<notin> ro_id ` set ?es"
    then show ?thesis using idle rr.same_trans [OF freshTick_view(1)] by (simp add: rotationTick_def rotationTick_unfold)
  next
    fix e s1
    assume e: "e \<in> set ?es" "ro_id e = i" "sameEntry i (freshTick s) s1"
      "sameEntry i (snd (processRotationEntry env e s1)) (snd (?run ?es (freshTick s)))"
    have "rotationRow i s = Some e"
      using e find_row_unique [of ro_id "rs_entries s" e] assms
      by (auto simp: loadEnabledRotationScheduleEntries_def rotationIds_def rotationRow_def)
    then show ?thesis
      using own [of e s1] e rr.same_trans [OF freshTick_view(1)] by (simp add: rotationTick_def rotationTick_unfold)
  qed
qed

text \<open>The outcomes of one step on its own entry.\<close>

lemma processRotationEntry_self:
  assumes "rotationRow (ro_id e) s = Some e" "ro_lastExecutedAt e = None" "re_setLastExecutedAt env (ro_id e)"
  defines "s' \<equiv> snd (processRotationEntry env e s)"
  shows "progresses (rotationCursor s (ro_id e)) (rotationFired s (ro_id e)) (rotationCursor s' (ro_id e)) (rotationFired s' (ro_id e))"
  using assms by (auto simp: rotation_steps resolveDueRotationSchedule_def progresses_def cursor_le_def beyond_def
      rotationCursor_def rotationFired_def rotation_ops split: option.split)

interpretation rs: cursor_schedule rotationTick rotationCursor rotationFired re_setLastExecutedAt "\<lambda>s. distinct (rotationIds s)"
proof (unfold_locales, goal_cases)
  case (1 s env)
  then show ?case by (simp add: rotationTick_ids)
next
  case (2 s env i)
  show ?case
  proof (rule rotation_cases [OF 2(1), of i env])
    assume "sameEntry i s (rotationTick env s)"
    then show ?thesis using sameEntry_view by simp
  next
    fix e s1
    assume e: "e \<in> set (loadEnabledRotationScheduleEntries env s)" "ro_id e = i" "rotationRow i s = Some e"
      and v: "sameEntry i s s1" and w: "sameEntry i (snd (processRotationEntry env e s1)) (rotationTick env s)"
    have "rotationRow (ro_id e) s1 = Some e" "ro_lastExecutedAt e = None"
      using e v by (auto simp: sameEntry_def loadEnabledRotationScheduleEntries_def)
    from processRotationEntry_self [OF this, of env] show ?thesis
      using 2(2) e(2) sameEntry_view [OF v] sameEntry_view [OF w] by simp
  qed
qed

section \<open>Lateness\<close>

fun sentOk :: "rotation_entry \<Rightarrow> rotation_event \<Rightarrow> bool" where
  "sentOk e (RotationSent _ occ now command layer) \<longleftrightarrow>
     occ = ro_scheduledAt e \<and> occ \<le> now \<and> now \<le> occ + ROTATION_SCHEDULE_MAX_LATENESS_MS \<and>
     command = rotationCommand (ro_mode e) \<and> layer = ro_layer e"
| "sentOk e _ \<longleftrightarrow> True"

text \<open>Ticks change nothing of an entry but its cursor, which they set to the scheduled time.\<close>

definition entryOk :: "rotation_entry \<Rightarrow> rotation_state \<Rightarrow> bool" where
  "entryOk e s \<longleftrightarrow> distinct (rotationIds s) \<and>
     (\<exists>l. rotationRow (ro_id e) s = Some (e\<lparr>ro_lastExecutedAt := l\<rparr>) \<and> (l = None \<or> l = Some (ro_scheduledAt e))) \<and>
     list_all (sentOk e) (rotationEvents (ro_id e) s)"

lemma processRotationEntry_row:
  assumes "rotationRow (ro_id e) s = Some e" "ro_lastExecutedAt e = None"
  shows "\<exists>l. rotationRow (ro_id e) (snd (processRotationEntry env e s)) = Some (e\<lparr>ro_lastExecutedAt := l\<rparr>) \<and>
    (l = None \<or> l = Some (ro_scheduledAt e))"
proof -
  let ?r = "rotationRow (ro_id e) (snd (processRotationEntry env e s))"
  have "?r = Some e \<or> ?r = Some (e\<lparr>ro_lastExecutedAt := Some (ro_scheduledAt e)\<rparr>)"
    using assms by (auto simp: rotation_steps resolveDueRotationSchedule_def rotation_ops split: option.split)
  moreover have "e = e\<lparr>ro_lastExecutedAt := None\<rparr>" using assms(2) by (cases e) simp
  ultimately show ?thesis by metis
qed

lemma processRotationEntry_sent:
  "list_all (sentOk e) (rotationEvents (ro_id e) s) \<Longrightarrow>
   list_all (sentOk e) (rotationEvents (ro_id e) (snd (processRotationEntry env e s)))"
  by (auto simp: rotation_steps resolveDueRotationSchedule_def rotation_ops split: option.split)

lemma sentOk_cursor [simp]: "sentOk (e\<lparr>ro_lastExecutedAt := l\<rparr>) = sentOk e"
proof
  show "sentOk (e\<lparr>ro_lastExecutedAt := l\<rparr>) ev = sentOk e ev" for ev by (cases ev) simp_all
qed

lemma rotationTick_entryOk:
  assumes "entryOk e s"
  shows "entryOk e (rotationTick env s)"
proof -
  have d: "distinct (rotationIds s)" using assms by (simp add: entryOk_def)
  show ?thesis
  proof (rule rotation_cases [OF d, of "ro_id e" env])
    assume "sameEntry (ro_id e) s (rotationTick env s)"
    then show ?thesis using assms by (simp add: entryOk_def sameEntry_def rotationTick_ids)
  next
    fix r s1
    assume r: "r \<in> set (loadEnabledRotationScheduleEntries env s)" "ro_id r = ro_id e" "rotationRow (ro_id e) s = Some r"
      and v: "sameEntry (ro_id e) s s1" and w: "sameEntry (ro_id e) (snd (processRotationEntry env r s1)) (rotationTick env s)"
    obtain l where l: "r = e\<lparr>ro_lastExecutedAt := l\<rparr>" using assms r(3) by (auto simp: entryOk_def)
    have one: "rotationRow (ro_id r) s1 = Some r" "ro_lastExecutedAt r = None"
      using r v by (auto simp: sameEntry_def loadEnabledRotationScheduleEntries_def)
    have "list_all (sentOk r) (rotationEvents (ro_id r) s1)"
      using assms v l by (simp add: entryOk_def sameEntry_def)
    from processRotationEntry_sent [OF this, of env] processRotationEntry_row [OF one, of env] show ?thesis
      using w l d by (auto simp: entryOk_def sameEntry_def rotationTick_ids)
  qed
qed

lemma run_entryOk: "entryOk e s \<Longrightarrow> entryOk e (fold rotationTick envs s)"
  by (induction envs arbitrary: s) (simp_all add: rotationTick_entryOk)

lemma sentAt_constant:
  "list_all (sentOk e) es \<Longrightarrow> \<forall>t \<in> set (sentAt es). t = ro_scheduledAt e"
  by (induction es rule: sentAt.induct) auto

lemma increasing_constant: "sorted_wrt (<) (ts :: time list) \<Longrightarrow> \<forall>t \<in> set ts. t = c \<Longrightarrow> length ts \<le> 1"
  by (cases ts; cases "tl ts") auto

text \<open>When the database and the flag can be reached, no tick is cut short, and a late entry is settled.\<close>

definition calmRotation :: "rotation_env \<Rightarrow> bool" where
  "calmRotation env \<longleftrightarrow> (\<forall>i. re_setLastExecutedAt env i \<and> re_writeAuditEntry env i \<and> re_isDepotUpdating env i \<noteq> None)"

lemma processRotationEntry_calm: "calmRotation env \<Longrightarrow> fst (processRotationEntry env e s) = Continue"
  unfolding calmRotation_def by (drule spec [of _ "ro_id e"]) (auto simp: rotation_steps split: option.split)

lemma rotationTick_calm: "calmRotation env \<Longrightarrow> fst (runRotationScheduleTick env s) = Continue"
  unfolding rotationTick_unfold by (rule runRows_continue) (rule processRotationEntry_calm)

lemma processRotationEntry_late:
  assumes "rotationRow (ro_id e) s = Some e" "ro_lastExecutedAt e = None" "calmRotation env"
    and "ro_scheduledAt e + ROTATION_SCHEDULE_MAX_LATENESS_MS < re_now env"
  defines "s' \<equiv> snd (processRotationEntry env e s)"
  shows "rotationCursor s' (ro_id e) = Some (ro_scheduledAt e) \<and> rotationFired s' (ro_id e) = rotationFired s (ro_id e)"
  using assms by (auto simp: rotation_steps resolveDueRotationSchedule_def calmRotation_def rotationCursor_def rotationFired_def
      rotation_ops ROTATION_SCHEDULE_MAX_LATENESS_MS_def)

lemma rotationTick_late:
  assumes ok: "entryOk e s" and env: "ro_enabled e" "\<not> re_deleted env (ro_serverId e)" "calmRotation env"
    and late: "ro_scheduledAt e + ROTATION_SCHEDULE_MAX_LATENESS_MS < re_now env"
  shows "rotationCursor (rotationTick env s) (ro_id e) = Some (ro_scheduledAt e) \<and>
    rotationFired (rotationTick env s) (ro_id e) = rotationFired s (ro_id e)"
proof -
  have d: "distinct (rotationIds s)" using ok by (simp add: entryOk_def)
  obtain l where l: "rotationRow (ro_id e) s = Some (e\<lparr>ro_lastExecutedAt := l\<rparr>)" "l = None \<or> l = Some (ro_scheduledAt e)"
    using ok by (auto simp: entryOk_def)
  let ?e = "e\<lparr>ro_lastExecutedAt := l\<rparr>"
  show ?thesis
  proof (rule rotation_cases [OF d, of "ro_id e" env])
    assume v: "sameEntry (ro_id e) s (rotationTick env s)"
      and "fst (runRotationScheduleTick env s) = Aborted \<or> ro_id e \<notin> ro_id ` set (loadEnabledRotationScheduleEntries env s)"
    then have idle: "ro_id e \<notin> ro_id ` set (loadEnabledRotationScheduleEntries env s)"
      using rotationTick_calm [OF env(3), of s] by simp
    have "?e \<in> set (rs_entries s)" using l(1) find_row_Some by (fastforce simp: rotationRow_def)
    then have "l \<noteq> None \<or> ?e \<in> set (loadEnabledRotationScheduleEntries env s)"
      using env(1,2) by (cases l) (simp_all add: loadEnabledRotationScheduleEntries_def)
    moreover have "?e \<notin> set (loadEnabledRotationScheduleEntries env s)"
      using idle imageI [of ?e "set (loadEnabledRotationScheduleEntries env s)" ro_id] by auto
    ultimately have "l \<noteq> None" by blast
    then show ?thesis using l sameEntry_view [OF v] by (auto simp: rotationCursor_def)
  next
    fix r s1
    assume r: "r \<in> set (loadEnabledRotationScheduleEntries env s)" "ro_id r = ro_id e" "rotationRow (ro_id e) s = Some r"
      and v: "sameEntry (ro_id e) s s1" and w: "sameEntry (ro_id e) (snd (processRotationEntry env r s1)) (rotationTick env s)"
    have one: "rotationRow (ro_id r) s1 = Some r" "ro_lastExecutedAt r = None"
      using r v by (auto simp: sameEntry_def loadEnabledRotationScheduleEntries_def)
    have "ro_scheduledAt r = ro_scheduledAt e" using l(1) r(3) by auto
    then show ?thesis
      using processRotationEntry_late [OF one env(3)] late r(2) sameEntry_view [OF v] sameEntry_view [OF w] by simp
  qed
qed

section \<open>Properties\<close>

text \<open>
  A rotation entry is sent to the game server at most once, and only within the allowed lateness of 15
  minutes after its scheduled time: whatever the ticks' clocks and failures, as long as its own cursor can
  be written, the log of a run from an unsent entry holds at most one command for it, and that command is
  the one of the entry's mode and layer, sent between the scheduled time and the end of the window.
\<close>

lemma rotation_sent_once_in_window:
  assumes "distinct (rotationIds s)" "rotationRow (ro_id e) s = Some e" "ro_lastExecutedAt e = None"
    and "rotationEvents (ro_id e) s = []" "\<forall>env \<in> set envs. re_setLastExecutedAt env (ro_id e)"
  defines "s' \<equiv> fold rotationTick envs s"
  shows "length (rotationFired s' (ro_id e)) \<le> 1 \<and> list_all (sentOk e) (rotationEvents (ro_id e) s')"
proof -
  have "e = e\<lparr>ro_lastExecutedAt := None\<rparr>" using assms(3) by (cases e) simp
  then have "entryOk e s" using assms(1,2,4) unfolding entryOk_def by (metis list.pred_inject(1))
  then have ok: "list_all (sentOk e) (rotationEvents (ro_id e) s')"
    using run_entryOk [of e s envs] by (simp add: entryOk_def s'_def)
  have "sorted_wrt (<) (rotationFired s' (ro_id e))"
    unfolding s'_def by (rule rs.fired_increasing) (use assms in \<open>simp_all add: rotationFired_def\<close>)
  then show ?thesis using ok increasing_constant sentAt_constant [OF ok] by (simp add: rotationFired_def)
qed

definition demoRotation :: rotation_entry where
  "demoRotation = \<lparr>ro_id = ''r1'', ro_serverId = ''srv'', ro_scheduledAt = 1000, ro_layer = ''Narva_RAAS_v1'', ro_mode = ForceChange,
     ro_lastExecutedAt = None, ro_enabled = True\<rparr>"

definition demoRotationState :: rotation_state where
  "demoRotationState = \<lparr>rs_entries = [demoRotation], rs_auditedDepotSkips = [], rs_log = [], rs_depotUpdating = None,
     rs_executed = 0, rs_skippedDepotUpdate = 0\<rparr>"

definition demoRotationEnv :: "time \<Rightarrow> bool \<Rightarrow> rotation_env" where
  "demoRotationEnv now up = \<lparr>re_now = now, re_deleted = (\<lambda>_. False), re_isDepotUpdating = (\<lambda>_. Some (\<not> up)),
     re_sendRconCommand = (\<lambda>_ _ _. up), re_setLastExecutedAt = (\<lambda>_. True), re_writeAuditEntry = (\<lambda>_. True)\<rparr>"

lemmas demo_rotation = demoRotation_def demoRotationState_def demoRotationEnv_def rotationIds_def rotationRow_def rotationEvents_def

lemma rotation_sent_once_in_window_example:
  "length (rotationFired (fold rotationTick [demoRotationEnv 500 True, demoRotationEnv 2000 True, demoRotationEnv 3000 True] demoRotationState) ''r1'') \<le> 1 \<and>
   rotationFired (fold rotationTick [demoRotationEnv 500 True, demoRotationEnv 2000 True, demoRotationEnv 3000 True] demoRotationState) ''r1'' = [1000]"
proof
  show "length (rotationFired (fold rotationTick [demoRotationEnv 500 True, demoRotationEnv 2000 True, demoRotationEnv 3000 True] demoRotationState) ''r1'') \<le> 1"
    using rotation_sent_once_in_window [of demoRotationState demoRotation
        "[demoRotationEnv 500 True, demoRotationEnv 2000 True, demoRotationEnv 3000 True]"]
    by (simp add: demo_rotation)
qed code_simp

text \<open>
  No rotation entry stays pending: whatever happened in earlier ticks, the first tick past the end of
  its window that reaches the database marks an enabled entry of a live server as done, at its scheduled
  time, and sends nothing for it.
\<close>

lemma rotation_settles:
  assumes "distinct (rotationIds s)" "rotationRow (ro_id e) s = Some e" "ro_lastExecutedAt e = None"
    and "rotationEvents (ro_id e) s = []" "ro_enabled e" "\<not> re_deleted env (ro_serverId e)" "calmRotation env"
    and "ro_scheduledAt e + ROTATION_SCHEDULE_MAX_LATENESS_MS < re_now env"
    and s'_def: "s' = fold rotationTick envs s"
  shows "rotationCursor (rotationTick env s') (ro_id e) = Some (ro_scheduledAt e) \<and>
    rotationFired (rotationTick env s') (ro_id e) = rotationFired s' (ro_id e)"
proof -
  have "e = e\<lparr>ro_lastExecutedAt := None\<rparr>" using assms(3) by (cases e) simp
  then have "entryOk e s" using assms(1,2,4) unfolding entryOk_def by (metis list.pred_inject(1))
  from rotationTick_late [OF run_entryOk [OF this] assms(5-8)] show ?thesis by (simp add: s'_def)
qed

lemma rotation_settles_example:
  "rotationCursor (rotationTick (demoRotationEnv 2000000 False) (fold rotationTick [demoRotationEnv 2000 False] demoRotationState)) ''r1'' = Some 1000"
  using rotation_settles [of demoRotationState demoRotation "demoRotationEnv 2000000 False"
      "fold rotationTick [demoRotationEnv 2000 False] demoRotationState" "[demoRotationEnv 2000 False]"]
  by (simp add: demo_rotation calmRotation_def ROTATION_SCHEDULE_MAX_LATENESS_MS_def)

end
