(* ===== verification/Seed_Schedule.thy ===== *)
theory Seed_Schedule
  imports Cron Cursor_Schedule
begin

text \<open>
  The scheduler worker's tick over \<^verbatim>\<open>seed_schedule\<close>: \<^verbatim>\<open>apps/workers/scheduler/src/seed-schedule-tick.ts\<close> with
  \<^verbatim>\<open>deps/seed-schedule.ts\<close> (rows, liveness, the seed call with its cooldown key) and
  \<^verbatim>\<open>packages/db/src/seed-notifications.ts\<close>.  The environment gives the clock, the tables the tick only
  reads and the outcome of every call that leaves the process; texts are UTF-16 strings.  The WHATWG URL
  check of the join link belongs to the environment too.  Diagnostics are left out.
\<close>

section \<open>Rows, environment, state\<close>

record seed_entry =
  se_id :: string
  se_serverId :: string
  se_startsAt :: time
  se_seedLayer :: jstr
  se_broadcastText :: "jstr option"
  se_notifyMinutesBefore :: int
  se_recurrence :: "string option"
  se_lastExecutedAt :: "time option"
  se_createdAt :: time
  se_enabled :: bool

datatype seeding_liveness = Seeding | Live | UnknownLiveness

text \<open>The Redis value \<^verbatim>\<open>seeding:state:<serverId>\<close>: absent, not an object in JSON, or an object with its \<^verbatim>\<open>state\<close>.\<close>

datatype seeding_raw = NoState | BadState | StateField "string option"

record alert_rule =
  al_id :: string
  al_eventKind :: "string option"
  al_channels :: "string list"

record subscription =
  sub_playerId :: string
  sub_channel :: string

record alert =
  at_ruleId :: string
  at_playerId :: string
  at_channel :: string

datatype seed_event =
    LayerQueued string time string jstr
  | BroadcastQueued string jstr
  | SeedAudited string string
  | CallNotified string time "alert list"

record seed_env =
  sv_now :: time
  sv_deleted :: "string \<Rightarrow> bool"
  sv_displayName :: "string \<Rightarrow> jstr"
  sv_gamePort :: "string \<Rightarrow> nat option"
  sv_subscriptions :: "string \<Rightarrow> subscription list"
  sv_rules :: "alert_rule list"
  sv_reads :: "string \<Rightarrow> bool"
  sv_hostInfo :: "(jstr \<times> jstr list) option"
  sv_setNx :: "string \<Rightarrow> bool"
  sv_joinLinkOk :: "jstr \<Rightarrow> bool"
  sv_insertEvent :: "string \<Rightarrow> bool"
  sv_xadd :: "string \<Rightarrow> bool"
  sv_notifyReads :: "string \<Rightarrow> bool"
  sv_insertAlerts :: "string \<Rightarrow> bool"
  sv_publish :: "string \<Rightarrow> bool"
  sv_del :: "string \<Rightarrow> bool"
  sv_isDepotUpdating :: "string \<Rightarrow> bool option"
  sv_seedingState :: "string \<Rightarrow> seeding_raw option"
  sv_send :: "string \<Rightarrow> string \<Rightarrow> jstr \<Rightarrow> bool"
  sv_setLastExecutedAt :: "string \<Rightarrow> bool"
  sv_writeAudit :: "string \<Rightarrow> string \<Rightarrow> bool"

record seed_state =
  ss_entries :: "seed_entry list"
  ss_cooldowns :: "(string \<times> time) list"
  ss_log :: "seed_event list"
  ss_executed :: nat
  ss_skippedDepotUpdate :: nat

definition SEED_CALL_COOLDOWN_SECONDS :: int where "SEED_CALL_COOLDOWN_SECONDS = 2 * 60 * 60"

section \<open>Database and Redis operations\<close>

definition loadEnabledSeedScheduleEntries :: "seed_env \<Rightarrow> seed_state \<Rightarrow> seed_entry list" where
  "loadEnabledSeedScheduleEntries env s =
     filter (\<lambda>e. se_enabled e \<and> \<not> sv_deleted env (se_serverId e) \<and> (se_recurrence e \<noteq> None \<or> se_lastExecutedAt e = None))
       (ss_entries s)"

definition getSeedingLiveness :: "seeding_raw \<Rightarrow> seeding_liveness" where
  "getSeedingLiveness raw = (case raw of
       StateField (Some st) \<Rightarrow> if st = ''live'' then Live else if st = ''seeding'' then Seeding else UnknownLiveness
     | _ \<Rightarrow> UnknownLiveness)"

definition setSeedLastExecutedAt :: "string \<Rightarrow> time \<Rightarrow> seed_state \<Rightarrow> seed_state" where
  "setSeedLastExecutedAt i at s =
     s\<lparr>ss_entries := update_rows (\<lambda>e. se_id e = i) (\<lambda>e. e\<lparr>se_lastExecutedAt := Some at\<rparr>) (ss_entries s)\<rparr>"

definition seedLog :: "seed_event \<Rightarrow> seed_state \<Rightarrow> seed_state" where
  "seedLog ev s = s\<lparr>ss_log := ss_log s @ [ev]\<rparr>"

text \<open>\<^verbatim>\<open>SET key value EX seconds NX\<close> and \<^verbatim>\<open>DEL key\<close> on the cooldown keys, which expire.\<close>

definition claimCooldown :: "string \<Rightarrow> time \<Rightarrow> seed_state \<Rightarrow> bool \<times> seed_state" where
  "claimCooldown server now s =
     (case map_of (ss_cooldowns s) server of
        Some expiry \<Rightarrow> if now < expiry then (False, s)
          else (True, s\<lparr>ss_cooldowns := map_put server (now + SEED_CALL_COOLDOWN_SECONDS * 1000) (ss_cooldowns s)\<rparr>)
      | None \<Rightarrow> (True, s\<lparr>ss_cooldowns := map_put server (now + SEED_CALL_COOLDOWN_SECONDS * 1000) (ss_cooldowns s)\<rparr>))"

definition releaseCooldown :: "string \<Rightarrow> seed_state \<Rightarrow> seed_state" where
  "releaseCooldown server s = s\<lparr>ss_cooldowns := map_del server (ss_cooldowns s)\<rparr>"

section \<open>The seed call\<close>

definition resolveSeedJoinLink :: "seed_env \<Rightarrow> nat \<Rightarrow> jstr option" where
  "resolveSeedJoinLink env gamePort =
     (case sv_hostInfo env of
        None \<Rightarrow> None
      | Some (hostname, ips) \<Rightarrow>
          (let address = (if hostname \<noteq> [] then hostname else case ips of [] \<Rightarrow> [] | ip # _ \<Rightarrow> ip)
           in if address = [] then None
              else Some (lit ''steam://connect/'' @ address @ lit '':'' @ lit (show_nat gamePort))))"

text \<open>\<^verbatim>\<open>seedCallSentPayload\<close> and the default message, nine UTF-16 units of Cyrillic.\<close>

definition DEFAULT_SEED_MESSAGE :: jstr where
  "DEFAULT_SEED_MESSAGE = [1053, 1091, 1078, 1077, 1085, 32, 1089, 1080, 1076]"

definition seedCallPayloadOk :: "seed_env \<Rightarrow> seed_entry \<Rightarrow> jstr \<Rightarrow> bool" where
  "seedCallPayloadOk env e joinLink \<longleftrightarrow>
     1 \<le> length (sv_displayName env (se_serverId e)) \<and> length (sv_displayName env (se_serverId e)) \<le> 128 \<and>
     sv_joinLinkOk env joinLink \<and> length (se_seedLayer e) \<le> 128 \<and>
     length (orElse (se_broadcastText e) DEFAULT_SEED_MESSAGE) \<le> 512"

definition matchRule :: "alert_rule list \<Rightarrow> subscription \<Rightarrow> alert option" where
  "matchRule rules sub = map_option (\<lambda>r. \<lparr>at_ruleId = al_id r, at_playerId = sub_playerId sub, at_channel = sub_channel sub\<rparr>)
     (find_row (\<lambda>r. sub_channel sub \<in> set (al_channels r)) rules)"

definition seedAlerts :: "string \<Rightarrow> subscription list \<Rightarrow> alert_rule list \<Rightarrow> alert list" where
  "seedAlerts kind subs rules = List.map_filter (matchRule (filter (\<lambda>r. al_eventKind r = Some kind) rules)) subs"

text \<open>The alert events are written, then published; the flag is whether the call returns normally.\<close>

definition notifySeedSubscribers :: "seed_env \<Rightarrow> string \<Rightarrow> string \<Rightarrow> seed_state \<Rightarrow> bool \<times> seed_state" where
  "notifySeedSubscribers env server kind s =
     (if \<not> sv_notifyReads env server then (False, s)
      else let alerts = seedAlerts kind (sv_subscriptions env server) (sv_rules env)
        in if length alerts = 0 then (True, s)
           else if \<not> sv_insertAlerts env server then (False, s)
           else (sv_publish env server, seedLog (CallNotified server (sv_now env) alerts) s))"

definition publishSeedCall :: "seed_env \<Rightarrow> seed_entry \<Rightarrow> jstr \<Rightarrow> seed_state \<Rightarrow> bool \<times> seed_state" where
  "publishSeedCall env e joinLink s =
     (if \<not> seedCallPayloadOk env e joinLink \<or> \<not> sv_insertEvent env (se_serverId e) \<or> \<not> sv_xadd env (se_serverId e) then (False, s)
      else case notifySeedSubscribers env (se_serverId e) ''seed.call_sent'' s of
          (False, s') \<Rightarrow> (False, s')
        | (True, s') \<Rightarrow>
            if \<not> sv_writeAudit env (se_id e) ''seed.call_sent'' then (False, s')
            else (True, seedLog (SeedAudited (se_id e) ''seed.call_sent'') s'))"

text \<open>The flag is whether the call returns normally; a throw is caught by the tick.\<close>

definition notifyScheduledSeeders :: "seed_env \<Rightarrow> seed_entry \<Rightarrow> seed_state \<Rightarrow> bool \<times> seed_state" where
  "notifyScheduledSeeders env e s =
     (if \<not> sv_reads env (se_serverId e) then (False, s)
      else if sv_deleted env (se_serverId e) then (True, s)
      else case sv_gamePort env (se_serverId e) of None \<Rightarrow> (True, s)
      | Some gamePort \<Rightarrow>
        (case resolveSeedJoinLink env gamePort of None \<Rightarrow> (True, s)
         | Some joinLink \<Rightarrow>
             if \<not> sv_setNx env (se_serverId e) then (False, s)
             else case claimCooldown (se_serverId e) (sv_now env) s of
                 (False, s') \<Rightarrow> (True, s')
               | (True, s') \<Rightarrow>
                   (case publishSeedCall env e joinLink s' of
                      (True, t) \<Rightarrow> (True, t)
                    | (False, t) \<Rightarrow> (False, if sv_del env (se_serverId e) then releaseCooldown (se_serverId e) t else t))))"

section \<open>The tick\<close>

definition resolveDueOccurrence :: "seed_entry \<Rightarrow> time \<Rightarrow> cron_error + time option" where
  "resolveDueOccurrence e now = resolveCronDueOccurrence
     \<lparr>recurrence = se_recurrence e, oneOffAt = Some (se_startsAt e), lastExecutedAt = se_lastExecutedAt e, createdAt = se_createdAt e\<rparr> now"

definition resolveNotificationOccurrence :: "seed_entry \<Rightarrow> time \<Rightarrow> cron_error + time option" where
  "resolveNotificationOccurrence e now =
     (if se_notifyMinutesBefore e \<le> 0 then Inr None
      else resolveDueOccurrence e (now + se_notifyMinutesBefore e * 60000))"

definition skipSeedForDepot :: "seed_env \<Rightarrow> seed_entry \<Rightarrow> seed_state \<Rightarrow> progress \<times> seed_state" where
  "skipSeedForDepot env e s0 =
     (let s = s0\<lparr>ss_skippedDepotUpdate := ss_skippedDepotUpdate s0 + 1\<rparr>
      in if \<not> sv_writeAudit env (se_id e) ''server.seed_schedule.skip_depot_update'' then (Aborted, s)
         else (Continue, seedLog (SeedAudited (se_id e) ''server.seed_schedule.skip_depot_update'') s))"

definition executeSeedEntry :: "seed_env \<Rightarrow> seed_entry \<Rightarrow> time \<Rightarrow> seed_state \<Rightarrow> progress \<times> seed_state" where
  "executeSeedEntry env e occ s =
     (case sv_seedingState env (se_serverId e) of None \<Rightarrow> (Continue, s)
      | Some raw \<Rightarrow>
        (let command = (if getSeedingLiveness raw = Live then ''AdminSetNextLayer'' else ''AdminChangeLayer'')
         in if \<not> sv_send env (se_serverId e) command (se_seedLayer e) then (Continue, s)
            else let s = seedLog (LayerQueued (se_id e) occ command (se_seedLayer e)) s
            in if \<not> sv_setLastExecutedAt env (se_id e) then (Aborted, s)
            else let s = setSeedLastExecutedAt (se_id e) occ s;
              s = (case se_broadcastText e of None \<Rightarrow> s
                   | Some text \<Rightarrow> if text \<noteq> [] \<and> sv_send env (se_serverId e) ''AdminBroadcast'' text
                                 then seedLog (BroadcastQueued (se_id e) text) s else s)
            in if \<not> sv_writeAudit env (se_id e) ''server.seed_schedule.execute'' then (Aborted, s)
            else let s = seedLog (SeedAudited (se_id e) ''server.seed_schedule.execute'') s
            in (Continue, s\<lparr>ss_executed := ss_executed s + 1\<rparr>)))"

definition processSeedEntry :: "seed_env \<Rightarrow> seed_entry \<Rightarrow> seed_state \<Rightarrow> progress \<times> seed_state" where
  "processSeedEntry env e s =
     (case resolveDueOccurrence e (sv_now env) of Inl _ \<Rightarrow> (Aborted, s)
      | Inr occurrence \<Rightarrow>
        (case resolveNotificationOccurrence e (sv_now env) of Inl _ \<Rightarrow> (Aborted, s)
         | Inr notification \<Rightarrow>
           (let s = (case notification of None \<Rightarrow> s | Some _ \<Rightarrow> snd (notifyScheduledSeeders env e s))
            in case occurrence of None \<Rightarrow> (Continue, s)
               | Some occ \<Rightarrow>
                   (case sv_isDepotUpdating env (se_id e) of None \<Rightarrow> (Aborted, s)
                    | Some True \<Rightarrow> skipSeedForDepot env e s
                    | Some False \<Rightarrow> executeSeedEntry env e occ s))))"

definition runSeedScheduleTick :: "seed_env \<Rightarrow> seed_state \<Rightarrow> progress \<times> seed_state" where
  "runSeedScheduleTick env s0 =
     (let s = s0\<lparr>ss_executed := 0, ss_skippedDepotUpdate := 0\<rparr>
      in runRows (processSeedEntry env) (loadEnabledSeedScheduleEntries env s) s)"

section \<open>What concerns one entry\<close>

fun layersAt :: "string \<Rightarrow> seed_event list \<Rightarrow> time list" where
  "layersAt i [] = []"
| "layersAt i (LayerQueued j occ _ _ # es) = (if j = i then occ # layersAt i es else layersAt i es)"
| "layersAt i (_ # es) = layersAt i es"

fun callsAt :: "string \<Rightarrow> seed_event list \<Rightarrow> time list" where
  "callsAt v [] = []"
| "callsAt v (CallNotified w t _ # es) = (if w = v then t # callsAt v es else callsAt v es)"
| "callsAt v (_ # es) = callsAt v es"

lemma layersAt_append [simp]: "layersAt i (a @ b) = layersAt i a @ layersAt i b"
  by (induction i a rule: layersAt.induct) auto

lemma callsAt_append [simp]: "callsAt v (a @ b) = callsAt v a @ callsAt v b"
  by (induction v a rule: callsAt.induct) auto

definition seedRow :: "string \<Rightarrow> seed_state \<Rightarrow> seed_entry option" where
  "seedRow i s = find_row (\<lambda>e. se_id e = i) (ss_entries s)"

definition seedCursor :: "seed_state \<Rightarrow> string \<Rightarrow> time option" where
  "seedCursor s i = (case seedRow i s of None \<Rightarrow> None | Some e \<Rightarrow> se_lastExecutedAt e)"

definition seedFired :: "seed_state \<Rightarrow> string \<Rightarrow> time list" where
  "seedFired s i = layersAt i (ss_log s)"

definition seedCalls :: "seed_state \<Rightarrow> string \<Rightarrow> time list" where
  "seedCalls s v = callsAt v (ss_log s)"

definition seedIds :: "seed_state \<Rightarrow> string list" where
  "seedIds s = map se_id (ss_entries s)"

definition cooldown :: "seed_state \<Rightarrow> string \<Rightarrow> time option" where
  "cooldown s v = map_of (ss_cooldowns s) v"

named_theorems seed_ops \<open>how the primitive operations act on rows, log and cooldown keys\<close>

lemma seedRow_ops [seed_ops]:
  "seedRow i (setSeedLastExecutedAt j at s) =
     (if i = j then map_option (\<lambda>e. e\<lparr>se_lastExecutedAt := Some at\<rparr>) (seedRow i s) else seedRow i s)"
  "seedRow i (seedLog ev s) = seedRow i s" "seedRow i (s\<lparr>ss_cooldowns := c\<rparr>) = seedRow i s"
  "seedRow i (s\<lparr>ss_executed := n\<rparr>) = seedRow i s" "seedRow i (s\<lparr>ss_skippedDepotUpdate := n\<rparr>) = seedRow i s"
  by (simp_all add: seedRow_def setSeedLastExecutedAt_def seedLog_def find_row_update)

lemma seedCursor_ops [seed_ops]:
  "seedCursor (seedLog ev s) i = seedCursor s i" "seedCursor (s\<lparr>ss_skippedDepotUpdate := n\<rparr>) i = seedCursor s i"
  by (simp_all add: seedCursor_def seedRow_ops)

lemma seedIds_ops [seed_ops]:
  "seedIds (setSeedLastExecutedAt j at s) = seedIds s" "seedIds (seedLog ev s) = seedIds s" "seedIds (s\<lparr>ss_cooldowns := c\<rparr>) = seedIds s"
  "seedIds (s\<lparr>ss_executed := n\<rparr>) = seedIds s" "seedIds (s\<lparr>ss_skippedDepotUpdate := n\<rparr>) = seedIds s"
  by (simp_all add: seedIds_def setSeedLastExecutedAt_def seedLog_def)

lemma seedFired_ops [seed_ops]:
  "seedFired (setSeedLastExecutedAt j at s) i = seedFired s i" "seedFired (seedLog ev s) i = seedFired s i @ layersAt i [ev]"
  "seedFired (s\<lparr>ss_cooldowns := c\<rparr>) i = seedFired s i" "seedFired (s\<lparr>ss_executed := n\<rparr>) i = seedFired s i"
  "seedFired (s\<lparr>ss_skippedDepotUpdate := n\<rparr>) i = seedFired s i"
  by (simp_all add: seedFired_def setSeedLastExecutedAt_def seedLog_def)

lemma seedCalls_ops [seed_ops]:
  "seedCalls (setSeedLastExecutedAt j at s) v = seedCalls s v" "seedCalls (seedLog ev s) v = seedCalls s v @ callsAt v [ev]"
  "seedCalls (s\<lparr>ss_cooldowns := c\<rparr>) v = seedCalls s v" "seedCalls (s\<lparr>ss_executed := n\<rparr>) v = seedCalls s v"
  "seedCalls (s\<lparr>ss_skippedDepotUpdate := n\<rparr>) v = seedCalls s v"
  by (simp_all add: seedCalls_def setSeedLastExecutedAt_def seedLog_def)

lemma cooldown_ops [seed_ops]:
  "cooldown (setSeedLastExecutedAt j at s) v = cooldown s v" "cooldown (seedLog ev s) v = cooldown s v"
  "cooldown (s\<lparr>ss_executed := n\<rparr>) v = cooldown s v" "cooldown (s\<lparr>ss_skippedDepotUpdate := n\<rparr>) v = cooldown s v"
  "cooldown (releaseCooldown w s) v = (if v = w then None else cooldown s v)"
  by (simp_all add: cooldown_def setSeedLastExecutedAt_def seedLog_def releaseCooldown_def)

text \<open>A seed call touches neither rows nor queued layers.\<close>

lemma claim_view:
  "seedRow i (snd (claimCooldown v now s)) = seedRow i s" "seedIds (snd (claimCooldown v now s)) = seedIds s"
  "seedFired (snd (claimCooldown v now s)) i = seedFired s i" "seedCalls (snd (claimCooldown v now s)) w = seedCalls s w"
  by (auto simp: claimCooldown_def seed_ops split: option.split)

lemma release_view:
  "seedRow i (releaseCooldown v s) = seedRow i s" "seedIds (releaseCooldown v s) = seedIds s"
  "seedFired (releaseCooldown v s) i = seedFired s i" "seedCalls (releaseCooldown v s) w = seedCalls s w"
  by (simp_all add: releaseCooldown_def seed_ops)

lemma publish_view:
  "seedRow i (snd (publishSeedCall env e l s)) = seedRow i s" "seedIds (snd (publishSeedCall env e l s)) = seedIds s"
  "seedFired (snd (publishSeedCall env e l s)) i = seedFired s i" "cooldown (snd (publishSeedCall env e l s)) v = cooldown s v"
  by (auto simp: publishSeedCall_def notifySeedSubscribers_def Let_def seed_ops split: prod.split bool.split)

text \<open>The outcomes of a seed call: nothing, or a claim followed by a publication that may be taken back.\<close>

lemma notify_cases:
  obtains (quiet) "snd (notifyScheduledSeeders env e s) = s"
    | (called) l s' where "claimCooldown (se_serverId e) (sv_now env) s = (True, s')"
      "snd (notifyScheduledSeeders env e s) = snd (publishSeedCall env e l s')"
    | (released) l s' where "claimCooldown (se_serverId e) (sv_now env) s = (True, s')" "\<not> fst (publishSeedCall env e l s')"
      "snd (notifyScheduledSeeders env e s) = releaseCooldown (se_serverId e) (snd (publishSeedCall env e l s'))"
proof -
  have keep: "claimCooldown v now s = (False, s') \<Longrightarrow> s' = s" for v now s'
    by (auto simp: claimCooldown_def split: option.splits if_splits)
  consider (off) "snd (notifyScheduledSeeders env e s) = s"
    | (on) l where "snd (notifyScheduledSeeders env e s) = snd (case claimCooldown (se_serverId e) (sv_now env) s of
          (False, s') \<Rightarrow> (True, s')
        | (True, s') \<Rightarrow> (case publishSeedCall env e l s' of (True, t) \<Rightarrow> (True, t)
            | (False, t) \<Rightarrow> (False, if sv_del env (se_serverId e) then releaseCooldown (se_serverId e) t else t)))"
    unfolding notifyScheduledSeeders_def by (fastforce split: option.splits if_splits)
  then show thesis
  proof cases
    case off
    then show ?thesis using quiet by simp
  next
    case (on l)
    obtain c s1 where c: "claimCooldown (se_serverId e) (sv_now env) s = (c, s1)" by fastforce
    obtain p t where p: "publishSeedCall env e l s1 = (p, t)" by fastforce
    show ?thesis
      using quiet called [of s1 l] released [of s1 l] on c p keep
      by (cases c; cases p; cases "sv_del env (se_serverId e)") simp_all
  qed
qed

lemma notify_view:
  defines "t \<equiv> \<lambda>env e s. snd (notifyScheduledSeeders env e s)"
  shows "seedRow i (t env e s) = seedRow i s" "seedIds (t env e s) = seedIds s" "seedFired (t env e s) i = seedFired s i"
proof -
  have c: "claimCooldown v now s = (True, s') \<Longrightarrow> seedRow i s' = seedRow i s \<and> seedIds s' = seedIds s \<and> seedFired s' i = seedFired s i" for v now s'
    using claim_view(1) [of i v now s] claim_view(2) [of v now s] claim_view(3) [of v now s i] by simp
  have "seedRow i (t env e s) = seedRow i s \<and> seedIds (t env e s) = seedIds s \<and> seedFired (t env e s) i = seedFired s i"
    unfolding t_def by (rule notify_cases [of env e s]) (auto simp: publish_view release_view dest!: c)
  then show "seedRow i (t env e s) = seedRow i s" "seedIds (t env e s) = seedIds s" "seedFired (t env e s) i = seedFired s i"
    by simp_all
qed

definition sameSeed :: "string \<Rightarrow> seed_state \<Rightarrow> seed_state \<Rightarrow> bool" where
  "sameSeed i s s' \<longleftrightarrow> seedRow i s' = seedRow i s \<and> seedFired s' i = seedFired s i"

lemmas seed_steps = processSeedEntry_def skipSeedForDepot_def executeSeedEntry_def Let_def

lemma processSeedEntry_other: "se_id e \<noteq> i \<Longrightarrow> sameSeed i s (snd (processSeedEntry env e s))"
  by (auto simp: seed_steps sameSeed_def seed_ops notify_view split: option.split sum.split bool.split)

lemma processSeedEntry_ids: "seedIds (snd (processSeedEntry env e s)) = seedIds s"
  by (auto simp: seed_steps seed_ops notify_view split: option.split sum.split bool.split)

interpretation sr: row_loop processSeedEntry se_id sameSeed
  by unfold_locales (auto simp: processSeedEntry_other, simp_all add: sameSeed_def)

definition freshSeed :: "seed_state \<Rightarrow> seed_state" where
  "freshSeed s = s\<lparr>ss_executed := 0, ss_skippedDepotUpdate := 0\<rparr>"

lemma freshSeed_view:
  "sameSeed i s (freshSeed s)" "seedIds (freshSeed s) = seedIds s" "seedCalls (freshSeed s) v = seedCalls s v" "cooldown (freshSeed s) v = cooldown s v"
  by (simp_all add: freshSeed_def sameSeed_def seed_ops)

definition seedTick :: "seed_env \<Rightarrow> seed_state \<Rightarrow> seed_state" where
  "seedTick env s = snd (runSeedScheduleTick env s)"

lemma seedTick_unfold:
  "seedTick env s = snd (runRows (processSeedEntry env) (loadEnabledSeedScheduleEntries env s) (freshSeed s))"
  by (simp add: seedTick_def runSeedScheduleTick_def freshSeed_def loadEnabledSeedScheduleEntries_def)

lemma seedTick_ids: "seedIds (seedTick env s) = seedIds s"
  by (simp add: seedTick_unfold freshSeed_view runRows_keeps [of seedIds] processSeedEntry_ids)

lemma resolveDueOccurrence_beyond: "resolveDueOccurrence e now = Inr (Some occ) \<Longrightarrow> beyond (se_lastExecutedAt e) occ"
  by (auto simp: resolveDueOccurrence_def beyond_def dest: due_window split: option.split)

lemma execute_self:
  assumes "seedRow (se_id e) s = Some e" "beyond (se_lastExecutedAt e) occ" "sv_setLastExecutedAt env (se_id e)"
  defines "s' \<equiv> snd (executeSeedEntry env e occ s)"
  shows "progresses (seedCursor s (se_id e)) (seedFired s (se_id e)) (seedCursor s' (se_id e)) (seedFired s' (se_id e))"
  using assms by (auto simp: executeSeedEntry_def Let_def progresses_def seedCursor_def seed_ops split: option.split)

lemma processSeedEntry_self:
  assumes "seedRow (se_id e) s = Some e" "sv_setLastExecutedAt env (se_id e)"
  defines "s' \<equiv> snd (processSeedEntry env e s)"
  shows "progresses (seedCursor s (se_id e)) (seedFired s (se_id e)) (seedCursor s' (se_id e)) (seedFired s' (se_id e))"
proof -
  have v: "seedCursor (snd (notifyScheduledSeeders env e s)) (se_id e) = seedCursor s (se_id e)"
    by (simp add: seedCursor_def notify_view)
  have x: "progresses (seedCursor s (se_id e)) (seedFired s (se_id e)) (seedCursor (snd (executeSeedEntry env e occ t)) (se_id e))
      (seedFired (snd (executeSeedEntry env e occ t)) (se_id e))"
    if "resolveDueOccurrence e (sv_now env) = Inr (Some occ)" "t = s \<or> t = snd (notifyScheduledSeeders env e s)" for occ t
    using execute_self [OF _ resolveDueOccurrence_beyond [OF that(1)] assms(2), of t] that(2) assms(1) v by (auto simp: notify_view)
  show ?thesis
    unfolding s'_def processSeedEntry_def skipSeedForDepot_def Let_def
    using v x by (auto simp: notify_view seed_ops split: option.split sum.split bool.split)
qed

interpretation sd: cursor_schedule seedTick seedCursor seedFired sv_setLastExecutedAt "\<lambda>s. distinct (seedIds s)"
proof (unfold_locales, goal_cases)
  case (1 s env)
  then show ?case by (simp add: seedTick_ids)
next
  case (2 s env i)
  let ?es = "loadEnabledSeedScheduleEntries env s"
  have view: "sameSeed i s t \<Longrightarrow> seedCursor t i = seedCursor s i \<and> seedFired t i = seedFired s i" for s t
    by (simp add: sameSeed_def seedCursor_def)
  have d: "distinct (map se_id ?es)"
    using 2(1) by (simp add: loadEnabledSeedScheduleEntries_def seedIds_def distinct_map inj_on_def)
  show ?case
  proof (rule sr.rows_cases [OF d, of i "freshSeed s" env])
    assume "sameSeed i (freshSeed s) (snd (runRows (processSeedEntry env) ?es (freshSeed s)))"
    from view [OF sr.same_trans [OF freshSeed_view(1) this]] show ?thesis by (simp add: seedTick_unfold)
  next
    fix e s1
    assume e: "e \<in> set ?es" "se_id e = i" and v: "sameSeed i (freshSeed s) s1"
      and w: "sameSeed i (snd (processSeedEntry env e s1)) (snd (runRows (processSeedEntry env) ?es (freshSeed s)))"
    have "seedRow i s = Some e"
      using e find_row_unique [of se_id "ss_entries s" e] 2(1) by (auto simp: loadEnabledSeedScheduleEntries_def seedIds_def seedRow_def)
    then have "seedRow (se_id e) s1 = Some e" using v freshSeed_view(1) [of i s] e(2) by (simp add: sameSeed_def)
    from processSeedEntry_self [OF this, of env] show ?thesis
      using 2(2) e(2) view [OF v] view [OF w] view [OF freshSeed_view(1)] by (simp add: seedTick_unfold)
  qed
qed

section \<open>Spacing of the seed calls\<close>

definition CALL_GAP :: time where "CALL_GAP = SEED_CALL_COOLDOWN_SECONDS * 1000"

text \<open>Every call to server \<open>v\<close> so far keeps the key until it is a gap old.\<close>

definition callOk :: "time option \<Rightarrow> time \<Rightarrow> time \<Rightarrow> bool" where
  "callOk key now t = (t + CALL_GAP \<le> now \<or> (\<exists>x. key = Some x \<and> t + CALL_GAP \<le> x))"

definition callsOk :: "string \<Rightarrow> time \<Rightarrow> seed_state \<Rightarrow> bool" where
  "callsOk v now s \<longleftrightarrow> sorted_wrt (\<lambda>a b. a + CALL_GAP \<le> b) (seedCalls s v) \<and>
     (\<forall>t \<in> set (seedCalls s v). callOk (cooldown s v) now t)"

text \<open>Nothing fails once subscribers of \<open>v\<close> have been notified.\<close>

definition calmCalls :: "string \<Rightarrow> seed_env \<Rightarrow> bool" where
  "calmCalls v env \<longleftrightarrow> sv_publish env v \<and> (\<forall>i. sv_writeAudit env i ''seed.call_sent'')"

lemma callsOk_later: "callsOk v now s \<Longrightarrow> now \<le> now' \<Longrightarrow> callsOk v now' s"
  by (fastforce simp: callsOk_def callOk_def)

lemma publish_calls:
  "seedCalls (snd (publishSeedCall env e l s)) v = seedCalls s v \<or>
   v = se_serverId e \<and> seedCalls (snd (publishSeedCall env e l s)) v = seedCalls s v @ [sv_now env]"
  by (auto simp: publishSeedCall_def notifySeedSubscribers_def Let_def seed_ops split: prod.split bool.split)

lemma publish_calm:
  "calmCalls v env \<Longrightarrow> \<not> fst (publishSeedCall env e l s) \<Longrightarrow> seedCalls (snd (publishSeedCall env e l s)) v = seedCalls s v"
  by (auto simp: publishSeedCall_def notifySeedSubscribers_def calmCalls_def Let_def seed_ops split: prod.splits bool.splits if_splits)

lemma claim_cooldown:
  assumes "claimCooldown w now s = (True, s')"
  shows "cooldown s' v = (if v = w then Some (now + CALL_GAP) else cooldown s v)" "\<And>x. cooldown s w = Some x \<Longrightarrow> x \<le> now"
  using assms by (auto simp: claimCooldown_def cooldown_def CALL_GAP_def split: option.splits if_splits)

lemma CALL_GAP_pos: "0 < CALL_GAP"
  by (simp add: CALL_GAP_def SEED_CALL_COOLDOWN_SECONDS_def)

lemma notify_callsOk:
  assumes ok: "callsOk v (sv_now env) s" and calm: "calmCalls v env"
  shows "callsOk v (sv_now env) (snd (notifyScheduledSeeders env e s))"
proof (rule notify_cases [of env e s])
  assume "snd (notifyScheduledSeeders env e s) = s"
  then show ?thesis using ok by simp
next
  fix l s'
  assume c: "claimCooldown (se_serverId e) (sv_now env) s = (True, s')"
    and p: "snd (notifyScheduledSeeders env e s) = snd (publishSeedCall env e l s')"
  have same: "seedCalls s' v = seedCalls s v" using claim_view(4) [of "se_serverId e" "sv_now env" s v] c by simp
  have old: "\<forall>t \<in> set (seedCalls s v). t + CALL_GAP \<le> sv_now env" if "v = se_serverId e"
    using ok claim_cooldown(2) [OF c] that by (fastforce simp: callsOk_def callOk_def)
  show ?thesis
    using publish_calls [of env e l s' v] ok old CALL_GAP_pos unfolding p callsOk_def publish_view claim_cooldown(1) [OF c] same
    by (auto simp: sorted_wrt_append callOk_def)
next
  fix l s'
  assume c: "claimCooldown (se_serverId e) (sv_now env) s = (True, s')" and f: "\<not> fst (publishSeedCall env e l s')"
    and p: "snd (notifyScheduledSeeders env e s) = releaseCooldown (se_serverId e) (snd (publishSeedCall env e l s'))"
  have same: "seedCalls s' v = seedCalls s v" using claim_view(4) [of "se_serverId e" "sv_now env" s v] c by simp
  have old: "\<forall>t \<in> set (seedCalls s v). t + CALL_GAP \<le> sv_now env" if "v = se_serverId e"
    using ok claim_cooldown(2) [OF c] that by (fastforce simp: callsOk_def callOk_def)
  show ?thesis
    using publish_calm [OF calm f] ok old unfolding p callsOk_def release_view same cooldown_ops publish_view claim_cooldown(1) [OF c]
    by (auto simp: callOk_def)
qed

lemma execute_calls:
  "seedCalls (snd (executeSeedEntry env e occ s)) v = seedCalls s v" "cooldown (snd (executeSeedEntry env e occ s)) v = cooldown s v"
  "seedCalls (snd (skipSeedForDepot env e s)) v = seedCalls s v" "cooldown (snd (skipSeedForDepot env e s)) v = cooldown s v"
  by (auto simp: executeSeedEntry_def skipSeedForDepot_def Let_def seed_ops split: option.split)

lemma processSeedEntry_callsOk:
  assumes "callsOk v (sv_now env) s" "calmCalls v env"
  shows "callsOk v (sv_now env) (snd (processSeedEntry env e s))"
proof -
  have x: "callsOk v now (snd (executeSeedEntry env e occ s)) = callsOk v now s" "callsOk v now (snd (skipSeedForDepot env e s)) = callsOk v now s"
    for now occ s by (simp_all add: callsOk_def execute_calls)
  show ?thesis
    using assms(1) notify_callsOk [OF assms, of e]
    by (auto simp: processSeedEntry_def Let_def x split: option.split sum.split bool.split)
qed

lemma seedTick_callsOk:
  assumes "callsOk v (sv_now env) s" "calmCalls v env"
  shows "callsOk v (sv_now env) (seedTick env s)"
  unfolding seedTick_unfold
  by (rule runRows_inv [of "callsOk v (sv_now env)"])
    (use assms processSeedEntry_callsOk in \<open>auto simp: callsOk_def freshSeed_view\<close>)

lemma run_callsOk:
  "sorted (now # map sv_now envs) \<Longrightarrow> \<forall>env \<in> set envs. calmCalls v env \<Longrightarrow> callsOk v now s \<Longrightarrow>
   \<exists>now'. callsOk v now' (fold seedTick envs s)"
proof (induction envs arbitrary: now s)
  case (Cons env envs)
  have "callsOk v (sv_now env) (seedTick env s)"
    using Cons.prems callsOk_later by (intro seedTick_callsOk) auto
  then show ?case using Cons.IH [of "sv_now env" "seedTick env s"] Cons.prems by simp
qed auto

section \<open>Properties\<close>

text \<open>
  No occurrence of a seed schedule entry changes the layer twice: over any sequence of ticks, whatever
  fails in them except the write of the entry's own cursor, the occurrences whose layer command was queued
  are strictly increasing.
\<close>

lemma seed_fires_once:
  assumes "distinct (seedIds s)" "seedFired s i = []" "\<forall>env \<in> set envs. sv_setLastExecutedAt env i"
  shows "sorted_wrt (<) (seedFired (fold seedTick envs s) i)"
  using assms by (rule sd.fired_increasing)

definition demoSeed :: seed_entry where
  "demoSeed = \<lparr>se_id = ''e1'', se_serverId = ''srv'', se_startsAt = 20000000, se_seedLayer = lit ''Sumari_Seed_v1'', se_broadcastText = None,
     se_notifyMinutesBefore = 300, se_recurrence = None, se_lastExecutedAt = None, se_createdAt = 0, se_enabled = True\<rparr>"

definition demoSeedState :: seed_state where
  "demoSeedState = \<lparr>ss_entries = [demoSeed], ss_cooldowns = [], ss_log = [], ss_executed = 0, ss_skippedDepotUpdate = 0\<rparr>"

definition demoSeedEnv :: "time \<Rightarrow> seed_env" where
  "demoSeedEnv now = \<lparr>sv_now = now, sv_deleted = (\<lambda>_. False), sv_displayName = (\<lambda>_. lit ''Server''), sv_gamePort = (\<lambda>_. Some 7787),
     sv_subscriptions = (\<lambda>_. [\<lparr>sub_playerId = ''p1'', sub_channel = ''web''\<rparr>]),
     sv_rules = [\<lparr>al_id = ''rule'', al_eventKind = Some ''seed.call_sent'', al_channels = [''web'']\<rparr>], sv_reads = (\<lambda>_. True),
     sv_hostInfo = Some (lit ''host'', []), sv_setNx = (\<lambda>_. True), sv_joinLinkOk = (\<lambda>_. True), sv_insertEvent = (\<lambda>_. True),
     sv_xadd = (\<lambda>_. True), sv_notifyReads = (\<lambda>_. True), sv_insertAlerts = (\<lambda>_. True), sv_publish = (\<lambda>_. True), sv_del = (\<lambda>_. True),
     sv_isDepotUpdating = (\<lambda>_. Some False), sv_seedingState = (\<lambda>_. Some (StateField (Some ''live''))), sv_send = (\<lambda>_ _ _. True),
     sv_setLastExecutedAt = (\<lambda>_. True), sv_writeAudit = (\<lambda>_ _. True)\<rparr>"

lemmas demo_seed = demoSeed_def demoSeedState_def demoSeedEnv_def

lemmas demo_seed_run = demo_seed seedFired_def seedTick_unfold freshSeed_def loadEnabledSeedScheduleEntries_def seed_steps
  resolveNotificationOccurrence_def resolveDueOccurrence_def resolveCronDueOccurrence_def notifyScheduledSeeders_def
  resolveSeedJoinLink_def claimCooldown_def releaseCooldown_def SEED_CALL_COOLDOWN_SECONDS_def publishSeedCall_def seedCallPayloadOk_def
  DEFAULT_SEED_MESSAGE_def lit_def orElse_def notifySeedSubscribers_def seedAlerts_def matchRule_def List.map_filter_def
  getSeedingLiveness_def setSeedLastExecutedAt_def seedLog_def update_rows_def

lemma seed_fires_once_example:
  "sorted_wrt (<) (seedFired (fold seedTick [demoSeedEnv 20000000, demoSeedEnv 20060000] demoSeedState) ''e1'') \<and>
   seedFired (fold seedTick [demoSeedEnv 20000000, demoSeedEnv 20060000] demoSeedState) ''e1'' = [20000000]"
proof
  show "sorted_wrt (<) (seedFired (fold seedTick [demoSeedEnv 20000000, demoSeedEnv 20060000] demoSeedState) ''e1'')"
    by (rule seed_fires_once) (simp_all add: demo_seed seedIds_def seedFired_def)
qed (simp add: demo_seed_run)

text \<open>
  C38: Seed calls do not flood the subscribers: over ticks with a clock that does not go back, two calls
  that notified the subscribers of one server are at least the cooldown of two hours apart, provided that
  nothing fails after the subscribers were notified (the publication of the alerts and the audit entry).
\<close>

theorem seed_calls_spaced:
  assumes "sorted (map sv_now envs)" "\<forall>env \<in> set envs. calmCalls v env" "seedCalls s v = []"
  shows "sorted_wrt (\<lambda>a b. a + SEED_CALL_COOLDOWN_SECONDS * 1000 \<le> b) (seedCalls (fold seedTick envs s) v)"
proof (cases envs)
  case (Cons env rest)
  have "callsOk v (sv_now env) s" using assms(3) by (simp add: callsOk_def)
  then show ?thesis
    using run_callsOk [of "sv_now env" envs v s] assms(1,2) Cons by (auto simp: callsOk_def CALL_GAP_def)
qed (use assms(3) in simp)

theorem seed_calls_spaced_witness:
  "sorted_wrt (\<lambda>a b. a + SEED_CALL_COOLDOWN_SECONDS * 1000 \<le> b)
     (seedCalls (fold seedTick [demoSeedEnv 2000000, demoSeedEnv 2060000, demoSeedEnv 9300000] demoSeedState) ''srv'')"
  by (rule seed_calls_spaced) (simp_all add: demo_seed calmCalls_def seedCalls_def)

text \<open>
  The cooldown does not make the announcement of an occurrence unique: with a lead of 300 minutes,
  which the table allows, the same occurrence of a one-off entry is announced three times, once per expired
  cooldown, by ticks in which nothing fails.
\<close>

lemma seed_call_repeats:
  "map (resolveNotificationOccurrence demoSeed) [2000000, 9300000, 16600000] = [Inr (Some 20000000), Inr (Some 20000000), Inr (Some 20000000)] \<and>
   seedCalls (fold seedTick [demoSeedEnv 2000000, demoSeedEnv 9300000, demoSeedEnv 16600000] demoSeedState) ''srv'' = [2000000, 9300000, 16600000]"
  by (simp add: demo_seed_run seedCalls_def)

end
