(* ===== verification/Sync_Outbox.thy ===== *)
theory Sync_Outbox
  imports Js_Time Strings
begin

text \<open>
  The durable queue behind Admins.cfg: \<^verbatim>\<open>packages/db/src/admins-cfg-outbox.ts\<close> (the outbox table, its enqueue
  and completion operations and the relay onto the per-server Redis streams) and the queue part of
  \<^verbatim>\<open>apps/api/src/lib/server-delete.ts\<close>.  The world record holds everything the sync workers share:
  servers, outbox rows, audit rows (database), stream entries, status keys, reload commands (Redis) and the
  files behind the bridge.  A row claimed by another transaction, the outcome of an \<^verbatim>\<open>XADD\<close> and of a commit are
  given by the environment; an \<^verbatim>\<open>XADD\<close> that times out may still land.
\<close>

section \<open>The world\<close>

datatype payload = NotObject | Payload "string option" "string option" bool

record outbox_row =
  ob_id :: string
  ob_serverId :: string
  ob_payload :: payload
  ob_createdAt :: time
  ob_relayedAt :: "time option"
  ob_streamId :: "nat option"
  ob_appliedAt :: "time option"
  ob_reloadOutcome :: "string option"
  ob_lastError :: "string option"

datatype outbox_ref = NoRef | BadRef | Ref string

datatype sync_event = InvalidEvent | SyncEvent payload outbox_ref

record stream_entry =
  en_serverId :: string
  en_streamId :: nat
  en_event :: sync_event

record server_row =
  sr_id :: string
  sr_deletedAt :: "time option"
  sr_container :: bool

datatype sync_state = StUnknown | StInSync | StDrift | StUnreachable | StSyncing

record sync_status =
  sy_state :: sync_state
  sy_lastSyncedAt :: "time option"
  sy_lastSegmentHash :: "string option"
  sy_lastDbHash :: "string option"
  sy_groupsCount :: "nat option"
  sy_adminsCount :: "nat option"
  sy_unreachableSince :: "time option"

record sync_audit =
  sa_actorPlayerId :: "string option"
  sa_actionType :: string
  sa_serverId :: string
  sa_before :: "string option"
  sa_after :: "string option"
  sa_reason :: string

record world =
  w_servers :: "server_row list"
  w_rows :: "outbox_row list"
  w_audit :: "sync_audit list"
  w_streams :: "stream_entry list"
  w_nextStreamId :: nat
  w_status :: "(string \<times> sync_status) list"
  w_reloads :: "(string \<times> string) list"
  w_files :: "(string \<times> jstr) list"

section \<open>Rows\<close>

definition APPLIED_OUTCOMES :: "string list" where
  "APPLIED_OUTCOMES = [''confirmed'', ''file_ready_for_restart'', ''server_removed'']"

definition FAILURE_CODES :: "string list" where
  "FAILURE_CODES = [''unavailable'', ''rejected'', ''timeout'', ''invalid_result'']"

definition getAdminsCfgSyncOutboxState :: "string \<Rightarrow> world \<Rightarrow> outbox_row option" where
  "getAdminsCfgSyncOutboxState i w = find_row (\<lambda>r. ob_id r = i) (w_rows w)"

text \<open>\<open>None\<close> when the outcome is not a terminal one: the call throws.\<close>

definition markAdminsCfgSyncApplied :: "time \<Rightarrow> string \<Rightarrow> string \<Rightarrow> world \<Rightarrow> world option" where
  "markAdminsCfgSyncApplied now i outcome w =
     (if outcome \<notin> set APPLIED_OUTCOMES then None
      else Some (w\<lparr>w_rows := update_rows (\<lambda>r. ob_id r = i \<and> ob_appliedAt r = None)
             (\<lambda>r. r\<lparr>ob_appliedAt := Some now, ob_reloadOutcome := Some outcome, ob_lastError := None\<rparr>) (w_rows w)\<rparr>))"

definition markAdminsCfgSyncFailed :: "string \<Rightarrow> string \<Rightarrow> world \<Rightarrow> world option" where
  "markAdminsCfgSyncFailed i code w =
     (if code \<notin> set FAILURE_CODES then None
      else Some (w\<lparr>w_rows := update_rows (\<lambda>r. ob_id r = i \<and> ob_appliedAt r = None)
             (\<lambda>r. r\<lparr>ob_reloadOutcome := Some code, ob_lastError := Some code\<rparr>) (w_rows w)\<rparr>))"

definition newOutboxRow :: "time \<Rightarrow> payload \<Rightarrow> string \<times> string \<Rightarrow> outbox_row" where
  "newOutboxRow now p t = \<lparr>ob_id = snd t, ob_serverId = fst t, ob_payload = p, ob_createdAt = now, ob_relayedAt = None, ob_streamId = None,
     ob_appliedAt = None, ob_reloadOutcome = None, ob_lastError = None\<rparr>"

text \<open>The row ids are the database's defaults: \<open>fresh\<close> gives them, one per target.\<close>

definition enqueueAdminsCfgSyncForAllServers ::
  "time \<Rightarrow> payload \<Rightarrow> string list option \<Rightarrow> (nat \<Rightarrow> string) \<Rightarrow> world \<Rightarrow> nat \<times> world" where
  "enqueueAdminsCfgSyncForAllServers now p serverIds fresh w =
     (let targets = (case serverIds of Some is \<Rightarrow> is
            | None \<Rightarrow> map sr_id (filter (\<lambda>v. sr_deletedAt v = None \<and> sr_container v) (w_servers w)))
      in if length targets = 0 then (0, w)
         else let inserted = map (newOutboxRow now p) (zip targets (map fresh [0..<length targets]))
           in (length inserted, w\<lparr>w_rows := w_rows w @ inserted\<rparr>))"

definition enqueueAdminsCfgSyncForServer :: "time \<Rightarrow> payload \<Rightarrow> string \<Rightarrow> string \<Rightarrow> world \<Rightarrow> world" where
  "enqueueAdminsCfgSyncForServer now p server i w = w\<lparr>w_rows := w_rows w @ [newOutboxRow now p (server, i)]\<rparr>"

section \<open>The relay\<close>

datatype xadd_outcome = XaddOk | XaddError | XaddLate

record relay_env =
  rl_now :: time
  rl_locked :: "string \<Rightarrow> bool"
  rl_xadd :: "string \<Rightarrow> xadd_outcome"
  rl_commit :: "string \<Rightarrow> bool"

datatype relay_step = Drained | Relayed | Cancelled | FailedRow string | DbError

definition serverOf :: "world \<Rightarrow> string \<Rightarrow> server_row option" where
  "serverOf w i = find_row (\<lambda>v. sr_id v = i) (w_servers w)"

definition isDeleted :: "world \<Rightarrow> string \<Rightarrow> bool" where
  "isDeleted w i \<longleftrightarrow> (case serverOf w i of Some v \<Rightarrow> sr_deletedAt v \<noteq> None | None \<Rightarrow> False)"

text \<open>\<^verbatim>\<open>XADD\<close> with an id given by Redis, and the publication of a row: the id, or \<open>None\<close> when it throws.\<close>

definition xadd :: "string \<Rightarrow> sync_event \<Rightarrow> world \<Rightarrow> nat \<times> world" where
  "xadd server ev w = (w_nextStreamId w,
     w\<lparr>w_streams := w_streams w @ [\<lparr>en_serverId = server, en_streamId = w_nextStreamId w, en_event = ev\<rparr>],
       w_nextStreamId := w_nextStreamId w + 1\<rparr>)"

definition publishRow :: "relay_env \<Rightarrow> outbox_row \<Rightarrow> world \<Rightarrow> nat option \<times> world" where
  "publishRow env r w =
     (if ob_payload r = NotObject then (None, w)
      else case rl_xadd env (ob_id r) of
          XaddError \<Rightarrow> (None, w)
        | XaddLate \<Rightarrow> (None, snd (xadd (ob_serverId r) (SyncEvent (ob_payload r) (Ref (ob_id r))) w))
        | XaddOk \<Rightarrow> (case xadd (ob_serverId r) (SyncEvent (ob_payload r) (Ref (ob_id r))) w of (sid, w') \<Rightarrow> (Some sid, w')))"

definition claimable :: "relay_env \<Rightarrow> string list \<Rightarrow> world \<Rightarrow> outbox_row \<Rightarrow> bool" where
  "claimable env failedIds w r \<longleftrightarrow>
     ob_relayedAt r = None \<and> ob_id r \<notin> set failedIds \<and> serverOf w (ob_serverId r) \<noteq> None \<and> \<not> rl_locked env (ob_id r)"

definition claimRow :: "relay_env \<Rightarrow> string list \<Rightarrow> world \<Rightarrow> outbox_row option" where
  "claimRow env failedIds w =
     (case sort_key ob_createdAt (filter (claimable env failedIds w) (w_rows w)) of [] \<Rightarrow> None | r # _ \<Rightarrow> Some r)"

definition setRow :: "string \<Rightarrow> (outbox_row \<Rightarrow> outbox_row) \<Rightarrow> world \<Rightarrow> world" where
  "setRow i f w = w\<lparr>w_rows := update_rows (\<lambda>r. ob_id r = i) f (w_rows w)\<rparr>"

definition relayStep :: "relay_env \<Rightarrow> string list \<Rightarrow> world \<Rightarrow> relay_step \<times> world" where
  "relayStep env failedIds w =
     (case claimRow env failedIds w of
        None \<Rightarrow> (Drained, w)
      | Some r \<Rightarrow>
          if isDeleted w (ob_serverId r)
          then if rl_commit env (ob_id r)
               then (Cancelled, setRow (ob_id r) (\<lambda>x. x\<lparr>ob_relayedAt := Some (rl_now env), ob_appliedAt := Some (rl_now env),
                       ob_reloadOutcome := Some ''server_removed'', ob_lastError := None\<rparr>) w)
               else (DbError, w)
          else (case publishRow env r w of
              (None, w') \<Rightarrow> if rl_commit env (ob_id r) then (FailedRow (ob_id r), w') else (DbError, w')
            | (Some sid, w') \<Rightarrow>
                if rl_commit env (ob_id r)
                then (Relayed, setRow (ob_id r) (\<lambda>x. x\<lparr>ob_relayedAt := Some (rl_now env), ob_streamId := Some sid\<rparr>) w')
                else (DbError, w')))"

datatype relay_result = RelayDone nat | RelayRejected string | RelayDbError

subsection \<open>Each step makes progress\<close>

lemma claimRow_Some: "claimRow env failed w = Some r \<Longrightarrow> r \<in> set (w_rows w) \<and> claimable env failed w r"
proof -
  assume a: "claimRow env failed w = Some r"
  have "set (sort_key ob_createdAt (filter (claimable env failed w) (w_rows w))) = {r \<in> set (w_rows w). claimable env failed w r}"
    by simp
  moreover have "r \<in> set (sort_key ob_createdAt (filter (claimable env failed w) (w_rows w)))"
    using a unfolding claimRow_def by (cases "sort_key ob_createdAt (filter (claimable env failed w) (w_rows w))") simp_all
  ultimately show ?thesis by blast
qed

lemma claimRow_None: "claimRow env failed w = None \<longleftrightarrow> (\<forall>r \<in> set (w_rows w). \<not> claimable env failed w r)"
proof -
  let ?l = "sort_key ob_createdAt (filter (claimable env failed w) (w_rows w))"
  have "claimRow env failed w = None \<longleftrightarrow> set ?l = {}" by (simp add: claimRow_def split: list.split del: set_sort)
  then show ?thesis by auto
qed

lemma publishRow_view:
  "w_rows (snd (publishRow env r w)) = w_rows w" "w_servers (snd (publishRow env r w)) = w_servers w"
  "serverOf (snd (publishRow env r w)) i = serverOf w i"
  by (auto simp: publishRow_def xadd_def serverOf_def split: xadd_outcome.split)

lemma setRow_view [simp]:
  "w_rows (setRow i f w) = update_rows (\<lambda>r. ob_id r = i) f (w_rows w)" "w_streams (setRow i f w) = w_streams w" "w_nextStreamId (setRow i f w) = w_nextStreamId w"
  "w_servers (setRow i f w) = w_servers w" "serverOf (setRow i f w) v = serverOf w v" "isDeleted (setRow i f w) v = isDeleted w v"
  by (simp_all add: setRow_def serverOf_def isDeleted_def)

definition pendingCount :: "relay_env \<Rightarrow> string list \<Rightarrow> world \<Rightarrow> nat" where
  "pendingCount env failed w = length (filter (claimable env failed w) (w_rows w))"

lemma filter_shrinks:
  "x \<in> set xs \<Longrightarrow> q x \<Longrightarrow> \<not> p x \<Longrightarrow> (\<And>x. p x \<Longrightarrow> q x) \<Longrightarrow> length (filter p xs) < length (filter q xs)"
proof -
  assume a: "x \<in> set xs" "q x" "\<not> p x" "\<And>x. p x \<Longrightarrow> q x"
  have "filter p xs = filter p (filter q xs)" using a(4) by (simp add: filter_filter) (metis (full_types))
  moreover have "x \<in> set (filter q xs)" using a by simp
  ultimately show ?thesis using length_filter_less [of x "filter q xs" p] a(3) by simp
qed

lemma claimable_servers: "w_servers w' = w_servers w \<Longrightarrow> claimable env failed w' = claimable env failed w"
  by (rule ext) (simp add: claimable_def serverOf_def)

lemma setRow_pending:
  assumes "r \<in> set (w_rows w)" "claimable env failed w r" "\<And>x. ob_relayedAt (f x) \<noteq> None"
  shows "pendingCount env failed (setRow (ob_id r) f w) < pendingCount env failed w"
proof -
  let ?c = "claimable env failed w"
  have "length (filter ?c (update_rows (\<lambda>x. ob_id x = ob_id r) f xs)) = length (filter (\<lambda>x. ?c x \<and> ob_id x \<noteq> ob_id r) xs)" for xs
  proof (induction xs)
    case (Cons x xs)
    then show ?case using assms(3) [of x] by (auto simp: update_rows_def claimable_def)
  qed (simp add: update_rows_def)
  then show ?thesis
    unfolding pendingCount_def claimable_servers [OF setRow_view(4)] setRow_view
    using filter_shrinks [OF assms(1), of ?c "\<lambda>x. ?c x \<and> ob_id x \<noteq> ob_id r"] assms(2) by simp
qed

lemma pendingCount_cong: "w_rows w' = w_rows w \<Longrightarrow> w_servers w' = w_servers w \<Longrightarrow> pendingCount env failed w' = pendingCount env failed w"
  using claimable_servers [of w' w env failed] by (simp add: pendingCount_def)

text \<open>The outcomes of a step, with the row it claimed.\<close>

lemma relayStep_cases:
  obtains (drained) "relayStep env failed w = (Drained, w)" "claimRow env failed w = None"
    | (cancelled) r where "claimRow env failed w = Some r" "isDeleted w (ob_serverId r)"
      "relayStep env failed w = (Cancelled, setRow (ob_id r) (\<lambda>x. x\<lparr>ob_relayedAt := Some (rl_now env), ob_appliedAt := Some (rl_now env),
         ob_reloadOutcome := Some ''server_removed'', ob_lastError := None\<rparr>) w)"
    | (relayed) r where "claimRow env failed w = Some r" "\<not> isDeleted w (ob_serverId r)" "ob_payload r \<noteq> NotObject" "rl_xadd env (ob_id r) = XaddOk"
      "relayStep env failed w = (Relayed, setRow (ob_id r) (\<lambda>x. x\<lparr>ob_relayedAt := Some (rl_now env), ob_streamId := Some (w_nextStreamId w)\<rparr>)
         (snd (xadd (ob_serverId r) (SyncEvent (ob_payload r) (Ref (ob_id r))) w)))"
    | (failed) r where "claimRow env failed w = Some r" "\<not> isDeleted w (ob_serverId r)" "ob_payload r = NotObject \<or> rl_xadd env (ob_id r) \<noteq> XaddOk"
      "relayStep env failed w = (FailedRow (ob_id r), snd (publishRow env r w))"
    | (error) r w' where "claimRow env failed w = Some r" "relayStep env failed w = (DbError, w')" "\<not> rl_commit env (ob_id r)"
      "w' = w \<or> \<not> isDeleted w (ob_serverId r) \<and> w' = snd (publishRow env r w)"
proof (cases "claimRow env failed w")
  case None
  then show ?thesis using drained by (simp add: relayStep_def)
next
  case (Some r)
  show ?thesis
  proof (cases "isDeleted w (ob_serverId r)")
    case True
    then show ?thesis using cancelled [of r] error [of r w] Some by (cases "rl_commit env (ob_id r)") (simp_all add: relayStep_def)
  next
    case False
    obtain res w' where p: "publishRow env r w = (res, w')" by fastforce
    show ?thesis
    proof (cases res)
      case None
      then have "ob_payload r = NotObject \<or> rl_xadd env (ob_id r) \<noteq> XaddOk"
        using p by (auto simp: publishRow_def xadd_def split: if_splits)
      then show ?thesis
        using failed [of r] error [of r w'] Some False p None by (cases "rl_commit env (ob_id r)") (simp_all add: relayStep_def)
    next
      case (Some sid)
      then have x: "ob_payload r \<noteq> NotObject" "rl_xadd env (ob_id r) = XaddOk" "sid = w_nextStreamId w"
        "w' = snd (xadd (ob_serverId r) (SyncEvent (ob_payload r) (Ref (ob_id r))) w)"
        using p by (auto simp: publishRow_def xadd_def split: if_splits xadd_outcome.splits)
      then show ?thesis
        using relayed [of r] error [of r w'] \<open>claimRow env failed w = Some r\<close> False p Some
        by (cases "rl_commit env (ob_id r)") (simp_all add: relayStep_def)
    qed
  qed
qed

lemma relayStep_progress:
  assumes "relayStep env failed w = (st, w')"
  shows "st = Relayed \<or> st = Cancelled \<Longrightarrow> pendingCount env failed w' < pendingCount env failed w"
    and "st = FailedRow i \<Longrightarrow> pendingCount env (failed @ [i]) w' < pendingCount env failed w"
proof -
  have x: "pendingCount env failed (snd (xadd v ev w)) = pendingCount env failed w" for v ev
    by (rule pendingCount_cong) (simp_all add: xadd_def)
  have y: "w_rows (snd (xadd v ev w)) = w_rows w" "claimable env failed (snd (xadd v ev w)) = claimable env failed w" for v ev
    by (simp add: xadd_def) (rule claimable_servers, simp add: xadd_def)
  show "pendingCount env failed w' < pendingCount env failed w" if st: "st = Relayed \<or> st = Cancelled"
  proof (rule relayStep_cases [of env failed w])
    fix r
    assume r: "claimRow env failed w = Some r"
      and s: "relayStep env failed w = (Cancelled, setRow (ob_id r) (\<lambda>x. x\<lparr>ob_relayedAt := Some (rl_now env), ob_appliedAt := Some (rl_now env),
         ob_reloadOutcome := Some ''server_removed'', ob_lastError := None\<rparr>) w)"
    have "r \<in> set (w_rows w)" "claimable env failed w r" using claimRow_Some [OF r] by simp_all
    from setRow_pending [OF this, of "\<lambda>x. x\<lparr>ob_relayedAt := Some (rl_now env), ob_appliedAt := Some (rl_now env),
         ob_reloadOutcome := Some ''server_removed'', ob_lastError := None\<rparr>"]
    show ?thesis using assms s by simp
  next
    fix r :: outbox_row
    let ?w = "snd (xadd (ob_serverId r) (SyncEvent (ob_payload r) (Ref (ob_id r))) w)"
    assume r: "claimRow env failed w = Some r"
      and s: "relayStep env failed w =
        (Relayed, setRow (ob_id r) (\<lambda>x. x\<lparr>ob_relayedAt := Some (rl_now env), ob_streamId := Some (w_nextStreamId w)\<rparr>) ?w)"
    have "r \<in> set (w_rows ?w)" "claimable env failed ?w r" using claimRow_Some [OF r] by (simp_all add: y)
    from setRow_pending [OF this, of "\<lambda>x. x\<lparr>ob_relayedAt := Some (rl_now env), ob_streamId := Some (w_nextStreamId w)\<rparr>"]
    show ?thesis using assms s by (simp add: x)
  qed (use assms st in auto)
  show "pendingCount env (failed @ [i]) w' < pendingCount env failed w" if "st = FailedRow i"
  proof (rule relayStep_cases [of env failed w])
    fix r
    assume r: "claimRow env failed w = Some r" "relayStep env failed w = (FailedRow (ob_id r), snd (publishRow env r w))"
    have "pendingCount env (failed @ [i]) w' = pendingCount env (failed @ [i]) w"
      using assms r(2) by (intro pendingCount_cong) (auto simp: publishRow_view)
    also have "\<dots> < pendingCount env failed w"
      unfolding pendingCount_def
      by (rule filter_shrinks [of r]) (use claimRow_Some [OF r(1)] assms r(2) that in \<open>auto simp: claimable_def\<close>)
    finally show ?thesis .
  qed (use that assms in auto)
qed

text \<open>The loop of \<^verbatim>\<open>relayAdminsCfgSyncOutbox\<close>, with its counters; each turn leaves fewer claimable rows.\<close>

function relayLoop :: "relay_env \<Rightarrow> nat \<Rightarrow> string list \<Rightarrow> string option \<Rightarrow> nat \<Rightarrow> nat \<Rightarrow> world \<Rightarrow> relay_result \<times> world" where
  "relayLoop env maxF failed first consec relayed w =
     (let finish = (case first of Some i \<Rightarrow> RelayRejected i | None \<Rightarrow> RelayDone relayed)
      in if consec < maxF
         then (case relayStep env failed w of
             (Drained, w') \<Rightarrow> (finish, w')
           | (DbError, w') \<Rightarrow> (RelayDbError, w')
           | (FailedRow i, w') \<Rightarrow> relayLoop env maxF (failed @ [i]) (Some (orElse first i)) (consec + 1) relayed w'
           | (Relayed, w') \<Rightarrow> relayLoop env maxF failed first 0 (relayed + 1) w'
           | (Cancelled, w') \<Rightarrow> relayLoop env maxF failed first 0 relayed w')
         else (finish, w))"
  by pat_completeness auto
termination
  by (relation "measure (\<lambda>(env, maxF, failed, first, consec, relayed, w). pendingCount env failed w)")
    (auto dest: relayStep_progress(1) [OF sym] relayStep_progress(2) [OF sym])

declare relayLoop.simps [simp del]

definition MAX_CONSECUTIVE_FAILURES :: nat where "MAX_CONSECUTIVE_FAILURES = 3"

definition relayAdminsCfgSyncOutbox :: "relay_env \<Rightarrow> nat option \<Rightarrow> world \<Rightarrow> relay_result \<times> world" where
  "relayAdminsCfgSyncOutbox env maxF w = relayLoop env (orElse maxF MAX_CONSECUTIVE_FAILURES) [] None 0 0 w"

section \<open>Deleting a server\<close>

text \<open>
  The end of \<^verbatim>\<open>deleteServer\<close>: one transaction marks the server and settles its rows, then the stream and the
  status key are dropped, each best effort.
\<close>

definition dropServerQueue :: "time \<Rightarrow> bool \<Rightarrow> bool \<Rightarrow> string \<Rightarrow> world \<Rightarrow> world" where
  "dropServerQueue now unlinkOk delOk server w =
     (let w = w\<lparr>w_servers := update_rows (\<lambda>v. sr_id v = server \<and> sr_deletedAt v = None) (\<lambda>v. v\<lparr>sr_deletedAt := Some now\<rparr>) (w_servers w)\<rparr>;
          w = w\<lparr>w_rows := update_rows (\<lambda>r. ob_serverId r = server \<and> ob_appliedAt r = None)
              (\<lambda>r. r\<lparr>ob_appliedAt := Some now, ob_reloadOutcome := Some ''server_removed'', ob_lastError := None\<rparr>) (w_rows w)\<rparr>;
          w = w\<lparr>w_rows := update_rows (\<lambda>r. ob_serverId r = server \<and> ob_relayedAt r = None) (\<lambda>r. r\<lparr>ob_relayedAt := Some now\<rparr>) (w_rows w)\<rparr>;
          w = (if unlinkOk then w\<lparr>w_streams := filter (\<lambda>e. en_serverId e \<noteq> server) (w_streams w)\<rparr> else w)
      in if delOk then w\<lparr>w_status := map_del server (w_status w)\<rparr> else w)"

section \<open>What a run of the relay does\<close>

text \<open>Rows a run cannot publish: their server lives, and the payload is no object or Redis does not answer.\<close>

definition poisoned :: "relay_env \<Rightarrow> world \<Rightarrow> outbox_row \<Rightarrow> bool" where
  "poisoned env w r \<longleftrightarrow> \<not> isDeleted w (ob_serverId r) \<and> (ob_payload r = NotObject \<or> rl_xadd env (ob_id r) \<noteq> XaddOk)"

text \<open>The entries of one row in the streams.\<close>

definition entriesOf :: "world \<Rightarrow> outbox_row \<Rightarrow> stream_entry list" where
  "entriesOf w r = filter (\<lambda>e. en_serverId e = ob_serverId r \<and> en_event e = SyncEvent (ob_payload r) (Ref (ob_id r))) (w_streams w)"

definition rowIds :: "world \<Rightarrow> string list" where "rowIds w = map ob_id (w_rows w)"

definition rowAt :: "world \<Rightarrow> string \<Rightarrow> outbox_row option" where
  "rowAt w i = find_row (\<lambda>r. ob_id r = i) (w_rows w)"

text \<open>
  How a row fares over a run from \<open>w0\<close> to \<open>w\<close>: it is untouched, or was cancelled (its server is deleted), or
  was relayed with exactly one new entry, the one its row names.
\<close>

definition untouched :: "relay_env \<Rightarrow> world \<Rightarrow> world \<Rightarrow> outbox_row \<Rightarrow> bool" where
  "untouched env w0 w r \<longleftrightarrow> rowAt w (ob_id r) = Some r \<and> (\<not> poisoned env w0 r \<longrightarrow> entriesOf w r = entriesOf w0 r)"

definition wasCancelled :: "relay_env \<Rightarrow> world \<Rightarrow> world \<Rightarrow> outbox_row \<Rightarrow> bool" where
  "wasCancelled env w0 w r \<longleftrightarrow> isDeleted w0 (ob_serverId r) \<and> entriesOf w r = entriesOf w0 r \<and>
     rowAt w (ob_id r) = Some (r\<lparr>ob_relayedAt := Some (rl_now env), ob_appliedAt := Some (rl_now env),
       ob_reloadOutcome := Some ''server_removed'', ob_lastError := None\<rparr>)"

definition wasRelayed :: "relay_env \<Rightarrow> world \<Rightarrow> world \<Rightarrow> outbox_row \<Rightarrow> bool" where
  "wasRelayed env w0 w r \<longleftrightarrow> \<not> isDeleted w0 (ob_serverId r) \<and>
     (\<exists>sid. rowAt w (ob_id r) = Some (r\<lparr>ob_relayedAt := Some (rl_now env), ob_streamId := Some sid\<rparr>) \<and>
       entriesOf w r = entriesOf w0 r @ [\<lparr>en_serverId = ob_serverId r, en_streamId = sid, en_event = SyncEvent (ob_payload r) (Ref (ob_id r))\<rparr>])"

definition fate :: "relay_env \<Rightarrow> world \<Rightarrow> world \<Rightarrow> outbox_row \<Rightarrow> bool" where
  "fate env w0 w r \<longleftrightarrow> untouched env w0 w r \<or> wasCancelled env w0 w r \<or> wasRelayed env w0 w r"

definition relayInv :: "relay_env \<Rightarrow> world \<Rightarrow> string list \<Rightarrow> nat \<Rightarrow> world \<Rightarrow> bool" where
  "relayInv env w0 failed consec w \<longleftrightarrow> distinct (rowIds w0) \<and> rowIds w = rowIds w0 \<and> w_servers w = w_servers w0 \<and> distinct failed \<and>
     consec \<le> length failed \<and> set failed \<subseteq> ob_id ` {r \<in> set (w_rows w0). claimable env [] w0 r \<and> poisoned env w0 r} \<and>
     (\<forall>r \<in> set (w_rows w0). fate env w0 w r)"

lemma rowAt_setRow:
  "(\<And>x. ob_id (f x) = ob_id x) \<Longrightarrow> rowAt (setRow j f w) i = (if i = j then map_option f (rowAt w i) else rowAt w i)"
  by (simp add: rowAt_def find_row_update)

lemma rowIds_setRow [simp]: "(\<And>x. ob_id (f x) = ob_id x) \<Longrightarrow> rowIds (setRow j f w) = rowIds w"
  by (simp add: rowIds_def)

lemma entriesOf_setRow [simp]: "entriesOf (setRow j f w) r = entriesOf w r"
  by (simp add: entriesOf_def)

lemma xadd_view [simp]:
  "w_rows (snd (xadd v ev w)) = w_rows w" "w_servers (snd (xadd v ev w)) = w_servers w" "rowAt (snd (xadd v ev w)) i = rowAt w i"
  "rowIds (snd (xadd v ev w)) = rowIds w" "isDeleted (snd (xadd v ev w)) i = isDeleted w i"
  "entriesOf (snd (xadd v ev w)) r = entriesOf w r @ (if v = ob_serverId r \<and> ev = SyncEvent (ob_payload r) (Ref (ob_id r))
     then [\<lparr>en_serverId = v, en_streamId = w_nextStreamId w, en_event = ev\<rparr>] else [])"
  by (simp_all add: xadd_def rowAt_def rowIds_def isDeleted_def serverOf_def entriesOf_def)

lemma rowAt_mem: "rowAt w i = Some r \<Longrightarrow> r \<in> set (w_rows w) \<and> ob_id r = i"
  by (auto simp: rowAt_def dest: find_row_Some)

lemma rowAt_unique: "distinct (rowIds w) \<Longrightarrow> r \<in> set (w_rows w) \<Longrightarrow> rowAt w (ob_id r) = Some r"
  unfolding rowAt_def rowIds_def by (rule find_row_unique)

lemma isDeleted_cong: "w_servers w = w_servers w0 \<Longrightarrow> isDeleted w i = isDeleted w0 i" "w_servers w = w_servers w0 \<Longrightarrow> serverOf w i = serverOf w0 i"
  by (simp_all add: isDeleted_def serverOf_def)

lemma touched_relayed:
  "wasCancelled env w0 w r \<or> wasRelayed env w0 w r \<Longrightarrow> \<exists>x. rowAt w (ob_id r) = Some x \<and> ob_relayedAt x \<noteq> None"
  by (auto simp: wasCancelled_def wasRelayed_def)

text \<open>The row a step claims has not been touched before.\<close>

lemma claimed_untouched:
  assumes inv: "relayInv env w0 failed consec w" and c: "claimRow env failed w = Some r"
  shows "r \<in> set (w_rows w0)" "claimable env [] w0 r" "untouched env w0 w r" "ob_id r \<notin> set failed" "rowAt w (ob_id r) = Some r"
    "ob_relayedAt r = None"
proof -
  have r: "r \<in> set (w_rows w)" "claimable env failed w r" using claimRow_Some [OF c] by simp_all
  have d: "distinct (rowIds w0)" "rowIds w = rowIds w0" "w_servers w = w_servers w0" using inv by (simp_all add: relayInv_def)
  show at: "rowAt w (ob_id r) = Some r" using rowAt_unique [of w r] r(1) d by simp
  obtain r0 where r0: "r0 \<in> set (w_rows w0)" "ob_id r0 = ob_id r"
  proof -
    have "ob_id r \<in> set (rowIds w)" using r(1) by (simp add: rowIds_def)
    then have "ob_id r \<in> ob_id ` set (w_rows w0)" unfolding d(2) by (simp add: rowIds_def)
    then show thesis using that by fastforce
  qed
  then have "fate env w0 w r0" using inv by (simp add: relayInv_def)
  then have u: "untouched env w0 w r0"
    using touched_relayed [of env w0 w r0] at r(2) r0(2) by (auto simp: fate_def claimable_def)
  then have "rowAt w (ob_id r) = Some r0" using r0(2) unfolding untouched_def by simp
  then have "r0 = r" using at by simp
  then show "r \<in> set (w_rows w0)" "untouched env w0 w r" using r0(1) u by simp_all
  show "claimable env [] w0 r" "ob_id r \<notin> set failed" "ob_relayedAt r = None"
    using r(2) isDeleted_cong(2) [OF d(3)] by (simp_all add: claimable_def)
qed

lemma fate_other:
  assumes "fate env w0 w r" "rowAt w' (ob_id r) = rowAt w (ob_id r)" "entriesOf w' r = entriesOf w r"
  shows "fate env w0 w' r"
  using assms by (simp add: fate_def untouched_def wasCancelled_def wasRelayed_def)

lemma relayInv_facts:
  assumes "relayInv env w0 failed consec w"
  shows "w_servers w = w_servers w0" "r \<in> set (w_rows w0) \<Longrightarrow> fate env w0 w r"
    "r \<in> set (w_rows w0) \<Longrightarrow> r' \<in> set (w_rows w0) \<Longrightarrow> r \<noteq> r' \<Longrightarrow> ob_id r \<noteq> ob_id r'"
proof -
  have d: "distinct (rowIds w0)" using assms by (simp add: relayInv_def)
  show "w_servers w = w_servers w0" "r \<in> set (w_rows w0) \<Longrightarrow> fate env w0 w r" using assms by (simp_all add: relayInv_def)
  show "r \<in> set (w_rows w0) \<Longrightarrow> r' \<in> set (w_rows w0) \<Longrightarrow> r \<noteq> r' \<Longrightarrow> ob_id r \<noteq> ob_id r'"
    using d rowAt_unique [of w0] by (metis option.inject)
qed

lemma relayInv_cancelled:
  assumes inv: "relayInv env w0 failed consec w" and step: "relayStep env failed w = (Cancelled, w')"
  shows "relayInv env w0 failed 0 w'"
proof (rule relayStep_cases [of env failed w])
  fix r
  let ?f = "\<lambda>x. x\<lparr>ob_relayedAt := Some (rl_now env), ob_appliedAt := Some (rl_now env), ob_reloadOutcome := Some ''server_removed'', ob_lastError := None\<rparr>"
  assume c: "claimRow env failed w = Some r" and del: "isDeleted w (ob_serverId r)"
    and s: "relayStep env failed w = (Cancelled, setRow (ob_id r) ?f w)"
  note u = claimed_untouched [OF inv c]
  have "\<not> poisoned env w0 r" using del isDeleted_cong(1) [OF relayInv_facts(1) [OF inv]] by (simp add: poisoned_def)
  then have "wasCancelled env w0 (setRow (ob_id r) ?f w) r"
    using u(3,5) del isDeleted_cong(1) [OF relayInv_facts(1) [OF inv]] by (simp add: wasCancelled_def untouched_def rowAt_setRow)
  moreover have "fate env w0 (setRow (ob_id r) ?f w) r'" if "r' \<in> set (w_rows w0)" "r' \<noteq> r" for r'
    using fate_other [OF relayInv_facts(2) [OF inv that(1)]] relayInv_facts(3) [OF inv that(1) u(1) that(2)] by (simp add: rowAt_setRow)
  ultimately show ?thesis using inv step s by (auto simp: relayInv_def fate_def)
qed (use step in auto)

lemma relayInv_relayed:
  assumes inv: "relayInv env w0 failed consec w" and step: "relayStep env failed w = (Relayed, w')"
  shows "relayInv env w0 failed 0 w'"
proof (rule relayStep_cases [of env failed w])
  fix r :: outbox_row
  let ?f = "\<lambda>x. x\<lparr>ob_relayedAt := Some (rl_now env), ob_streamId := Some (w_nextStreamId w)\<rparr>"
  let ?w = "setRow (ob_id r) ?f (snd (xadd (ob_serverId r) (SyncEvent (ob_payload r) (Ref (ob_id r))) w))"
  assume c: "claimRow env failed w = Some r" and del: "\<not> isDeleted w (ob_serverId r)"
    and x: "ob_payload r \<noteq> NotObject" "rl_xadd env (ob_id r) = XaddOk" and s: "relayStep env failed w = (Relayed, ?w)"
  note u = claimed_untouched [OF inv c]
  have "\<not> poisoned env w0 r" using x by (simp add: poisoned_def)
  then have "wasRelayed env w0 ?w r"
    using u(3,5) del isDeleted_cong(1) [OF relayInv_facts(1) [OF inv]] by (simp add: wasRelayed_def untouched_def rowAt_setRow)
  moreover have "fate env w0 ?w r'" if "r' \<in> set (w_rows w0)" "r' \<noteq> r" for r'
    using fate_other [OF relayInv_facts(2) [OF inv that(1)]] relayInv_facts(3) [OF inv that(1) u(1) that(2)] by (simp add: rowAt_setRow)
  ultimately show ?thesis using inv step s by (auto simp: relayInv_def fate_def)
qed (use step in auto)

lemma relayInv_failed:
  assumes inv: "relayInv env w0 failed consec w" and step: "relayStep env failed w = (FailedRow i, w')"
  shows "relayInv env w0 (failed @ [i]) (consec + 1) w'"
proof (rule relayStep_cases [of env failed w])
  fix r
  let ?w = "snd (publishRow env r w)"
  assume c: "claimRow env failed w = Some r" and del: "\<not> isDeleted w (ob_serverId r)"
    and x: "ob_payload r = NotObject \<or> rl_xadd env (ob_id r) \<noteq> XaddOk" and s: "relayStep env failed w = (FailedRow (ob_id r), ?w)"
  note u = claimed_untouched [OF inv c]
  have p: "poisoned env w0 r" using x del isDeleted_cong(1) [OF relayInv_facts(1) [OF inv]] by (simp add: poisoned_def)
  have row: "rowAt ?w j = rowAt w j" "rowIds ?w = rowIds w" for j by (simp_all add: rowAt_def rowIds_def publishRow_view)
  have "fate env w0 ?w r" using p u(5) row by (simp add: fate_def untouched_def)
  moreover have "fate env w0 ?w r'" if "r' \<in> set (w_rows w0)" "r' \<noteq> r" for r'
  proof (rule fate_other [OF relayInv_facts(2) [OF inv that(1)]])
    show "entriesOf ?w r' = entriesOf w r'"
      using relayInv_facts(3) [OF inv that(1) u(1) that(2)] by (auto simp: publishRow_def split: xadd_outcome.split prod.split) (auto simp: xadd_def entriesOf_def)
  qed (rule row)
  ultimately have "\<forall>r \<in> set (w_rows w0). fate env w0 ?w r" by blast
  then show ?thesis
    using inv step s u(1,2,4) p by (auto simp: relayInv_def row publishRow_view)
qed (use step in auto)

lemma relayInv_start: "distinct (rowIds w) \<Longrightarrow> relayInv env w [] 0 w"
  by (simp add: relayInv_def fate_def untouched_def rowAt_unique)

text \<open>With commits that succeed and fewer poisoned rows than the limit, a run ends drained.\<close>

lemma relayInv_bound:
  assumes "relayInv env w0 failed consec w"
  shows "consec \<le> length (filter (\<lambda>r. claimable env [] w0 r \<and> poisoned env w0 r) (w_rows w0))"
proof -
  let ?bad = "filter (\<lambda>r. claimable env [] w0 r \<and> poisoned env w0 r) (w_rows w0)"
  have "length failed = card (set failed)" using assms by (simp add: relayInv_def distinct_card)
  also have "\<dots> \<le> card (set (map ob_id ?bad))" using assms by (intro card_mono) (auto simp: relayInv_def)
  also have "\<dots> \<le> length ?bad" using card_length [of "map ob_id ?bad"] by simp
  finally show ?thesis using assms by (simp add: relayInv_def)
qed

lemma relayInv_drained:
  assumes inv: "relayInv env w0 failed consec w" and none: "claimRow env failed w = None"
    and r: "r \<in> set (w_rows w0)" "claimable env [] w0 r" "\<not> poisoned env w0 r"
  shows "wasCancelled env w0 w r \<or> wasRelayed env w0 w r"
proof (rule ccontr)
  assume "\<not> ?thesis"
  then have "rowAt w (ob_id r) = Some r" using relayInv_facts(2) [OF inv r(1)] by (simp add: fate_def untouched_def)
  then have "r \<in> set (w_rows w)" using rowAt_mem by blast
  moreover have "ob_id r \<notin> set failed" using inv r(1,3) relayInv_facts(3) [OF inv r(1)] by (fastforce simp: relayInv_def)
  then have "claimable env failed w r"
    using r(2) isDeleted_cong(2) [OF relayInv_facts(1) [OF inv]] by (simp add: claimable_def)
  ultimately show False using none by (simp add: claimRow_None)
qed

lemma relayLoop_delivers:
  assumes "relayInv env w0 failed consec w" "\<forall>i. rl_commit env i"
    and "length (filter (\<lambda>r. claimable env [] w0 r \<and> poisoned env w0 r) (w_rows w0)) < maxF"
    and "r \<in> set (w_rows w0)" "claimable env [] w0 r" "\<not> poisoned env w0 r"
  shows "wasCancelled env w0 (snd (relayLoop env maxF failed first consec relayed w)) r \<or>
    wasRelayed env w0 (snd (relayLoop env maxF failed first consec relayed w)) r"
  using assms
proof (induction env maxF failed first consec relayed w rule: relayLoop.induct)
  case (1 env maxF failed first consec relayed w)
  have c: "consec < maxF" using relayInv_bound [OF "1.prems"(1)] "1.prems"(3) by simp
  note unfold = relayLoop.simps [of env maxF failed first consec relayed w]
  show ?case
  proof (rule relayStep_cases [of env failed w])
    assume "relayStep env failed w = (Drained, w)" "claimRow env failed w = None"
    then show ?thesis using relayInv_drained [OF "1.prems"(1)] "1.prems"(4-6) c by (simp add: unfold)
  next
    fix x w'
    assume "relayStep env failed w = (DbError, w')" "\<not> rl_commit env (ob_id x)"
    then show ?thesis using "1.prems"(2) by simp
  next
    fix x
    assume st: "relayStep env failed w = (FailedRow (ob_id x), snd (publishRow env x w))"
    have "relayInv env w0 (failed @ [ob_id x]) (consec + 1) (snd (publishRow env x w))" by (rule relayInv_failed [OF "1.prems"(1) st])
    from "1.IH"(3) [OF refl c st [symmetric] refl this "1.prems"(2-6)] show ?thesis using c st by (simp add: unfold)
  next
    fix x w'
    let ?w = "setRow (ob_id x) (\<lambda>y. y\<lparr>ob_relayedAt := Some (rl_now env), ob_appliedAt := Some (rl_now env),
         ob_reloadOutcome := Some ''server_removed'', ob_lastError := None\<rparr>) w"
    assume st: "relayStep env failed w = (Cancelled, ?w)"
    from "1.IH"(2) [OF refl c st [symmetric] refl relayInv_cancelled [OF "1.prems"(1) st] "1.prems"(2-6)]
    show ?thesis using c st by (simp add: unfold)
  next
    fix x :: outbox_row
    let ?w = "setRow (ob_id x) (\<lambda>y. y\<lparr>ob_relayedAt := Some (rl_now env), ob_streamId := Some (w_nextStreamId w)\<rparr>)
         (snd (xadd (ob_serverId x) (SyncEvent (ob_payload x) (Ref (ob_id x))) w))"
    assume st: "relayStep env failed w = (Relayed, ?w)"
    from "1.IH"(1) [OF refl c st [symmetric] refl relayInv_relayed [OF "1.prems"(1) st] "1.prems"(2-6)]
    show ?thesis using c st by (simp add: unfold)
  qed
qed

lemma relayLoop_inv:
  assumes "P w" "\<And>failed w st w'. P w \<Longrightarrow> relayStep env failed w = (st, w') \<Longrightarrow> P w'"
  shows "P (snd (relayLoop env maxF failed first consec relayed w))"
  using assms
proof (induction env maxF failed first consec relayed w rule: relayLoop.induct)
  case (1 env maxF failed first consec relayed w)
  obtain st w' where st: "relayStep env failed w = (st, w')" by fastforce
  have p: "P w'" using "1.prems"(2) [OF "1.prems"(1) st] .
  note unfold = relayLoop.simps [of env maxF failed first consec relayed w]
  show ?case
  proof (cases "consec < maxF")
    case True
    then show ?thesis
      using "1.IH" [OF refl True st [symmetric]] p "1.prems"(2) st by (cases st) (simp_all add: unfold Let_def)
  next
    case False
    then show ?thesis using "1.prems"(1) by (simp add: unfold)
  qed
qed

text \<open>The entries of one server's stream.\<close>

definition streamOf :: "world \<Rightarrow> string \<Rightarrow> stream_entry list" where
  "streamOf w v = filter (\<lambda>e. en_serverId e = v) (w_streams w)"

lemma relayStep_deleted:
  assumes "isDeleted w v" "relayStep env failed w = (st, w')"
  shows "isDeleted w' v \<and> streamOf w' v = streamOf w v"
proof -
  have p: "isDeleted (snd (publishRow env r w)) v = isDeleted w v" for r by (simp add: isDeleted_def publishRow_view)
  have q: "streamOf (snd (publishRow env r w)) v = streamOf w v" if "\<not> isDeleted w (ob_serverId r)" for r
    using that assms(1) by (auto simp: publishRow_def xadd_def streamOf_def split: xadd_outcome.split)
  have x: "streamOf (snd (xadd (ob_serverId r) ev w)) v = streamOf w v" if "\<not> isDeleted w (ob_serverId r)" for r :: outbox_row and ev
    using that assms(1) by (auto simp: xadd_def streamOf_def)
  have s: "streamOf (setRow i f u) v = streamOf u v" for i f u by (simp add: streamOf_def)
  show ?thesis by (rule relayStep_cases [of env failed w]) (use assms p q x s in auto)
qed

section \<open>Properties\<close>


definition demoRow :: "string \<Rightarrow> string \<Rightarrow> payload \<Rightarrow> time \<Rightarrow> outbox_row" where
  "demoRow i v p t = newOutboxRow t p (v, i)"

definition demoOutbox :: world where
  "demoOutbox = \<lparr>w_servers = [\<lparr>sr_id = ''a'', sr_deletedAt = None, sr_container = True\<rparr>, \<lparr>sr_id = ''b'', sr_deletedAt = Some 5, sr_container = True\<rparr>],
     w_rows = [demoRow ''1'' ''a'' NotObject 1, demoRow ''2'' ''a'' (Payload (Some ''role.update'') None False) 2, demoRow ''3'' ''b'' (Payload None None False) 3],
     w_audit = [], w_streams = [], w_nextStreamId = 0, w_status = [], w_reloads = [], w_files = []\<rparr>"

definition demoRelayEnv :: relay_env where
  "demoRelayEnv = \<lparr>rl_now = 10, rl_locked = (\<lambda>_. False), rl_xadd = (\<lambda>_. XaddOk), rl_commit = (\<lambda>_. True)\<rparr>"

lemmas demo_outbox = demoOutbox_def demoRelayEnv_def demoRow_def newOutboxRow_def rowIds_def claimable_def poisoned_def isDeleted_def serverOf_def


text \<open>
  The relay never writes to the stream of a deleted server, whatever fails during the run: the entries of
  that stream are the same before and after, so a torn-down stream is not brought back.
\<close>

lemma relay_spares_deleted:
  assumes "isDeleted w v"
  shows "streamOf (snd (relayAdminsCfgSyncOutbox env maxF w)) v = streamOf w v"
proof -
  have "(\<lambda>u. isDeleted u v \<and> streamOf u v = streamOf w v) (snd (relayAdminsCfgSyncOutbox env maxF w))"
    unfolding relayAdminsCfgSyncOutbox_def by (rule relayLoop_inv) (use assms relayStep_deleted in auto)
  then show ?thesis by simp
qed

lemma relay_spares_deleted_example:
  "streamOf (snd (relayAdminsCfgSyncOutbox demoRelayEnv None demoOutbox)) ''b'' = []"
  using relay_spares_deleted [of demoOutbox "''b''" demoRelayEnv None] by (simp add: demo_outbox streamOf_def)

end
