(* ===== verification/Admins_Sync.thy ===== *)
theory Admins_Sync
  imports Admins_Config Sync_Outbox
begin

text \<open>
  Reconciling one server's Admins.cfg with the database: \<^verbatim>\<open>apps/workers/config-sync/src/syncer.ts\<close>,
  \<^verbatim>\<open>rcon-reload.ts\<close>, \<^verbatim>\<open>audit.ts\<close>, the hash of \<^verbatim>\<open>segment.ts\<close> and the lock of
  \<^verbatim>\<open>packages/db/src/admins-cfg-sync.ts\<close>.  SHA-256, \<^verbatim>\<open>localeCompare\<close>, the database snapshot and the outcome of every
  bridge, Redis and database call are given by the environment.  A thrown exception is \<open>None\<close>.  The
  work runs inside a database transaction: a statement that fails aborts it even when the exception is
  caught, later statements then throw, and what the transaction wrote is lost at its end.
\<close>

section \<open>Environment and options\<close>

datatype rcon_raw = RconMissing | RconUnparseable | RconState "string option"

record sync_env =
  sn_now :: time
  sn_snapshot :: "segment_inputs option"
  sn_localeCompare :: "jstr \<Rightarrow> jstr \<Rightarrow> int"
  sn_hash :: "jstr \<Rightarrow> string"
  sn_read :: bool
  sn_write :: bool
  sn_audit :: bool
  sn_setStatus :: "sync_state \<Rightarrow> bool"
  sn_rconStatus :: "rcon_raw option"
  sn_xadd :: bool
  sn_uuid :: string

datatype sync_mode = ActiveMode | PassiveMode

record sync_options =
  so_reason :: string
  so_actorPlayerId :: "string option"
  so_forceWrite :: bool
  so_mode :: "sync_mode option"
  so_requestReload :: bool

datatype reload_outcome = Enqueued | SkippedDisconnected | ReloadFailed

datatype sync_result_state = Wrote | InSync | Unreachable | Drift

record sync_result =
  rr_state :: sync_result_state
  rr_expectedHash :: string
  rr_actualHash :: "string option"
  rr_groupsCount :: nat
  rr_adminsCount :: nat
  rr_reload :: "reload_outcome option"

section \<open>Status, reload, audit\<close>

definition publishStatus :: "sync_env \<Rightarrow> string \<Rightarrow> sync_status \<Rightarrow> world \<Rightarrow> world option" where
  "publishStatus env server status w =
     (if \<not> sn_setStatus env (sy_state status) then None
      else let since =
          (if sy_state status = StUnreachable \<or> sy_state status = StSyncing
           then (if sy_unreachableSince status = None
                 then (case map_of (w_status w) server of
                     Some prev \<Rightarrow> (case sy_unreachableSince prev of Some t \<Rightarrow> Some t
                        | None \<Rightarrow> if sy_state status = StUnreachable then Some (sn_now env) else None)
                   | None \<Rightarrow> if sy_state status = StUnreachable then Some (sn_now env) else None)
                 else sy_unreachableSince status)
           else None)
        in Some (w\<lparr>w_status := map_put server (status\<lparr>sy_unreachableSince := since\<rparr>) (w_status w)\<rparr>))"

definition statusOf :: "sync_state \<Rightarrow> time option \<Rightarrow> string option \<Rightarrow> string option \<Rightarrow> (nat \<times> nat) option \<Rightarrow> sync_status" where
  "statusOf st at seg db counts = \<lparr>sy_state = st, sy_lastSyncedAt = at, sy_lastSegmentHash = seg, sy_lastDbHash = db,
     sy_groupsCount = map_option fst counts, sy_adminsCount = map_option snd counts, sy_unreachableSince = None\<rparr>"

definition requestAdminsCfgReload :: "sync_env \<Rightarrow> string \<Rightarrow> world \<Rightarrow> reload_outcome \<times> world" where
  "requestAdminsCfgReload env server w =
     (case sn_rconStatus env of
        None \<Rightarrow> (ReloadFailed, w)
      | Some raw \<Rightarrow>
          if raw \<noteq> RconState (Some ''connected'') then (SkippedDisconnected, w)
          else if \<not> sn_xadd env then (ReloadFailed, w)
          else (Enqueued, w\<lparr>w_reloads := w_reloads w @ [(server, sn_uuid env)]\<rparr>))"

text \<open>A failed insert is caught, but leaves the transaction aborted: the flag is whether it still runs.\<close>

definition safeAppendAudit :: "sync_env \<Rightarrow> sync_audit \<Rightarrow> world \<Rightarrow> bool \<times> world" where
  "safeAppendAudit env entry w = (if sn_audit env then (True, w\<lparr>w_audit := w_audit w @ [entry]\<rparr>) else (False, w))"

section \<open>The sync\<close>

definition hashSegment :: "sync_env \<Rightarrow> jstr \<Rightarrow> string" where "hashSegment env body = sn_hash env body"

definition needsWrite :: "sync_options \<Rightarrow> bool \<Rightarrow> bool" where
  "needsWrite opts hasDrift =
     (let isPassiveCheck = (so_mode opts = Some PassiveMode \<or> so_mode opts = None \<and> so_reason opts = ''drift_check'')
      in so_forceWrite opts \<or> \<not> isPassiveCheck \<and> hasDrift)"

type_synonym tx_result = "sync_result option \<times> bool \<times> world"

definition failSync :: "sync_env \<Rightarrow> string \<Rightarrow> sync_options \<Rightarrow> managed_segment \<Rightarrow> string option \<Rightarrow> world \<Rightarrow> tx_result" where
  "failSync env server opts generated currentHash w =
     (let h = hashSegment env (seg_body generated) in
      case publishStatus env server (statusOf StUnreachable None currentHash (Some h) None) w of
        None \<Rightarrow> (None, True, w)
      | Some w1 \<Rightarrow>
          (case safeAppendAudit env \<lparr>sa_actorPlayerId = so_actorPlayerId opts, sa_actionType = ''admins_cfg.sync_failed'', sa_serverId = server,
                sa_before = currentHash, sa_after = None, sa_reason = so_reason opts\<rparr> w1 of
             (tx, w2) \<Rightarrow> (Some \<lparr>rr_state = Unreachable, rr_expectedHash = h, rr_actualHash = currentHash,
                rr_groupsCount = seg_groups generated, rr_adminsCount = seg_admins generated, rr_reload = None\<rparr>, tx, w2)))"

definition reportSync ::
  "sync_env \<Rightarrow> string \<Rightarrow> managed_segment \<Rightarrow> string option \<Rightarrow> bool \<Rightarrow> world \<Rightarrow> tx_result" where
  "reportSync env server generated currentHash hasDrift w =
     (let h = hashSegment env (seg_body generated);
          counts = Some (seg_groups generated, seg_admins generated);
          status = (if hasDrift then statusOf StDrift None currentHash (Some h) counts
                    else statusOf StInSync (Some (sn_now env)) (Some h) (Some h) counts)
      in case publishStatus env server status w of
           None \<Rightarrow> (None, True, w)
         | Some w1 \<Rightarrow> (Some \<lparr>rr_state = (if hasDrift then Drift else InSync), rr_expectedHash = h, rr_actualHash = currentHash,
             rr_groupsCount = seg_groups generated, rr_adminsCount = seg_admins generated, rr_reload = None\<rparr>, True, w1))"

definition writeSync ::
  "sync_env \<Rightarrow> string \<Rightarrow> sync_options \<Rightarrow> managed_segment \<Rightarrow> string option \<Rightarrow> jstr \<Rightarrow> world \<Rightarrow> tx_result" where
  "writeSync env server opts generated currentHash newContent w =
     (if \<not> sn_write env then failSync env server opts generated currentHash w
      else let h = hashSegment env (seg_body generated);
               w = w\<lparr>w_files := map_put server newContent (w_files w)\<rparr>
        in case publishStatus env server
               (statusOf StInSync (Some (sn_now env)) (Some h) (Some h) (Some (seg_groups generated, seg_admins generated))) w of
             None \<Rightarrow> (None, True, w)
           | Some w1 \<Rightarrow>
               (let (reload, w2) = (if so_requestReload opts then (case requestAdminsCfgReload env server w1 of (r, w2) \<Rightarrow> (Some r, w2)) else (None, w1));
                    (tx, w3) = safeAppendAudit env \<lparr>sa_actorPlayerId = so_actorPlayerId opts,
                      sa_actionType = (if so_forceWrite opts then ''admins_cfg.force_synced'' else ''admins_cfg.synced''), sa_serverId = server,
                      sa_before = currentHash, sa_after = Some h, sa_reason = so_reason opts\<rparr> w2
                in (Some \<lparr>rr_state = Wrote, rr_expectedHash = h, rr_actualHash = currentHash, rr_groupsCount = seg_groups generated,
                      rr_adminsCount = seg_admins generated, rr_reload = reload\<rparr>, tx, w3)))"

definition fileOf :: "world \<Rightarrow> string \<Rightarrow> jstr" where
  "fileOf w server = orElse (map_of (w_files w) server) []"

definition syncServerAdminsCfgLocked :: "sync_env \<Rightarrow> string \<Rightarrow> sync_options \<Rightarrow> world \<Rightarrow> tx_result" where
  "syncServerAdminsCfgLocked env server opts w0 =
     (case publishStatus env server (statusOf StSyncing None None None None) w0 of
        None \<Rightarrow> (None, True, w0)
      | Some w \<Rightarrow>
          (case sn_snapshot env of
             None \<Rightarrow> (None, False, w)
           | Some snapshot \<Rightarrow>
               (let generated = buildManagedSegmentBody (sn_localeCompare env) snapshot
                in if \<not> sn_read env then failSync env server opts generated None w
                   else let original = fileOf w server;
                     currentHash = map_option (\<lambda>l. hashSegment env (loc_segment l)) (findManagedSegment original);
                     newContent = spliceManagedSegment original (seg_body generated);
                     hasDrift = (currentHash \<noteq> Some (hashSegment env (seg_body generated)))
                   in if \<not> needsWrite opts hasDrift then reportSync env server generated currentHash hasDrift w
                      else writeSync env server opts generated currentHash newContent w)))"

text \<open>The transaction around the work: an aborted or failed one leaves the tables as they were.\<close>

definition withAdminsCfgServerLock :: "bool \<Rightarrow> (world \<Rightarrow> 'a option \<times> bool \<times> world) \<Rightarrow> world \<Rightarrow> 'a option \<times> world" where
  "withAdminsCfgServerLock commit work w =
     (case work w of (res, tx, w') \<Rightarrow>
        if res = None \<or> \<not> tx then (res, w'\<lparr>w_rows := w_rows w, w_audit := w_audit w\<rparr>)
        else if \<not> commit then (None, w'\<lparr>w_rows := w_rows w, w_audit := w_audit w\<rparr>)
        else (res, w'))"

definition syncServerAdminsCfg :: "sync_env \<Rightarrow> bool \<Rightarrow> string \<Rightarrow> sync_options \<Rightarrow> world \<Rightarrow> sync_result option \<times> world" where
  "syncServerAdminsCfg env commit server opts w = withAdminsCfgServerLock commit (syncServerAdminsCfgLocked env server opts) w"

section \<open>Confirmed reloads\<close>

datatype reload_result = Confirmed | ReloadUnavailable | Rejected | TimedOut | InvalidResult

datatype poll = PollThrows | PollEmpty | PollInvalid | PollResult string string string bool

definition RELOAD_TIMEOUT_MS :: time where "RELOAD_TIMEOUT_MS = 4000"

definition readResult :: "string \<Rightarrow> string \<Rightarrow> poll \<Rightarrow> reload_result option" where
  "readResult server requestId p = (case p of
       PollThrows \<Rightarrow> Some ReloadUnavailable
     | PollEmpty \<Rightarrow> None
     | PollInvalid \<Rightarrow> Some InvalidResult
     | PollResult s i command ok \<Rightarrow>
         if s \<noteq> server \<or> i \<noteq> requestId \<or> command \<noteq> ''AdminReloadServerConfig'' then Some InvalidResult
         else Some (if ok then Confirmed else Rejected))"

text \<open>Each turn reads the clock, the result key, and the clock again; a run out of turns is past the deadline.\<close>

fun pollLoop :: "string \<Rightarrow> string \<Rightarrow> time \<Rightarrow> (time \<times> poll \<times> time) list \<Rightarrow> reload_result" where
  "pollLoop server requestId deadline [] = TimedOut"
| "pollLoop server requestId deadline ((t, p, t') # ps) =
     (if deadline < t then TimedOut
      else case readResult server requestId p of
          Some r \<Rightarrow> r
        | None \<Rightarrow> if deadline - t' \<le> 0 then TimedOut else pollLoop server requestId deadline ps)"

record reload_env =
  re_attemptId :: string
  re_xadd :: bool
  re_start :: time
  re_polls :: "(time \<times> poll \<times> time) list"

definition reloadRequestId :: "string \<Rightarrow> reload_env \<Rightarrow> string" where
  "reloadRequestId outboxId env = ''admins-cfg-sync:'' @ outboxId @ '':'' @ re_attemptId env"

definition confirmAdminsCfgReload :: "reload_env \<Rightarrow> string \<Rightarrow> string \<Rightarrow> world \<Rightarrow> reload_result \<times> world" where
  "confirmAdminsCfgReload env server outboxId w =
     (let requestId = reloadRequestId outboxId env in
      if \<not> re_xadd env then (ReloadUnavailable, w)
      else (pollLoop server requestId (re_start env + RELOAD_TIMEOUT_MS) (re_polls env),
            w\<lparr>w_reloads := w_reloads w @ [(server, requestId)]\<rparr>))"

section \<open>What a sync leaves behind\<close>

definition managedOf :: "world \<Rightarrow> string \<Rightarrow> jstr option" where
  "managedOf w server = map_option loc_segment (findManagedSegment (fileOf w server))"

lemma publishStatus_view:
  "publishStatus env server st w = Some w' \<Longrightarrow> w_files w' = w_files w \<and> w_rows w' = w_rows w \<and> w_servers w' = w_servers w \<and>
     w_streams w' = w_streams w \<and> w_nextStreamId w' = w_nextStreamId w \<and> w_reloads w' = w_reloads w \<and> w_audit w' = w_audit w"
  by (auto simp: publishStatus_def Let_def split: if_splits)

lemma failSync_view:
  "failSync env server opts g c w = (res, tx, w') \<Longrightarrow> w_files w' = w_files w \<and> w_rows w' = w_rows w \<and> w_servers w' = w_servers w \<and> w_nextStreamId w' = w_nextStreamId w \<and>
     w_streams w' = w_streams w \<and> w_reloads w' = w_reloads w \<and> (\<forall>r. res = Some r \<longrightarrow> rr_state r = Unreachable)"
  by (auto simp: failSync_def safeAppendAudit_def Let_def dest!: publishStatus_view split: option.splits if_splits)

lemma reportSync_view:
  "reportSync env server g c d w = (res, tx, w') \<Longrightarrow> w_files w' = w_files w \<and> w_rows w' = w_rows w \<and> w_servers w' = w_servers w \<and> w_nextStreamId w' = w_nextStreamId w \<and>
     w_streams w' = w_streams w \<and> w_reloads w' = w_reloads w \<and> (\<forall>r. res = Some r \<longrightarrow> rr_state r = (if d then Drift else InSync))"
  by (auto simp: reportSync_def Let_def dest!: publishStatus_view split: option.splits if_splits)

lemma requestReload_view:
  "requestAdminsCfgReload env server w = (r, w') \<Longrightarrow> w_files w' = w_files w \<and> w_rows w' = w_rows w \<and> w_servers w' = w_servers w \<and> w_nextStreamId w' = w_nextStreamId w \<and> w_streams w' = w_streams w"
  by (auto simp: requestAdminsCfgReload_def split: option.splits if_splits)

lemma writeSync_view:
  assumes "writeSync env server opts g c new w = (res, tx, w')"
  shows "w_rows w' = w_rows w \<and> w_servers w' = w_servers w \<and> w_nextStreamId w' = w_nextStreamId w \<and> w_streams w' = w_streams w \<and>
    (if sn_write env then w_files w' = map_put server new (w_files w) \<and> (\<forall>r. res = Some r \<longrightarrow> rr_state r = Wrote)
     else w_files w' = w_files w \<and> (\<forall>r. res = Some r \<longrightarrow> rr_state r = Unreachable))"
proof (cases "sn_write env")
  case False
  then show ?thesis using assms failSync_view [of env server opts g c w res tx w'] by (simp add: writeSync_def)
next
  case True
  then show ?thesis
    using assms by (auto simp: writeSync_def safeAppendAudit_def Let_def dest!: publishStatus_view requestReload_view
        split: option.splits prod.splits if_splits)
qed

text \<open>The way a sync takes: its last phase and the state that phase starts in.\<close>

lemma sync_paths:
  fixes env server opts w
  defines "g \<equiv> buildManagedSegmentBody (sn_localeCompare env)"
    and "cur \<equiv> map_option (\<lambda>l. hashSegment env (loc_segment l)) (findManagedSegment (fileOf w server))"
  assumes "syncServerAdminsCfgLocked env server opts w = (res, tx, w')"
  obtains (thrown) "res = None" "w_files w' = w_files w" "w_rows w' = w_rows w" "w_streams w' = w_streams w" "w_servers w' = w_servers w"
      "w_nextStreamId w' = w_nextStreamId w"
    | (unread) snapshot w1 where "sn_snapshot env = Some snapshot" "publishStatus env server (statusOf StSyncing None None None None) w = Some w1"
      "failSync env server opts (g snapshot) None w1 = (res, tx, w')"
    | (report) snapshot w1 where "sn_snapshot env = Some snapshot" "publishStatus env server (statusOf StSyncing None None None None) w = Some w1"
      "reportSync env server (g snapshot) cur (cur \<noteq> Some (hashSegment env (seg_body (g snapshot)))) w1 = (res, tx, w')"
      "\<not> needsWrite opts (cur \<noteq> Some (hashSegment env (seg_body (g snapshot))))"
    | (run) snapshot w1 where "sn_snapshot env = Some snapshot" "publishStatus env server (statusOf StSyncing None None None None) w = Some w1"
      "writeSync env server opts (g snapshot) cur (spliceManagedSegment (fileOf w server) (seg_body (g snapshot))) w1 = (res, tx, w')"
      "needsWrite opts (cur \<noteq> Some (hashSegment env (seg_body (g snapshot))))"
proof (cases "publishStatus env server (statusOf StSyncing None None None None) w")
  case None
  then show ?thesis using assms(3) thrown by (simp add: syncServerAdminsCfgLocked_def)
next
  case (Some w1)
  note p = Some and v = publishStatus_view [OF Some]
  have f: "fileOf w1 server = fileOf w server" using v by (simp add: fileOf_def)
  show ?thesis
  proof (cases "sn_snapshot env")
    case None
    then show ?thesis using assms(3) thrown p v by (simp add: syncServerAdminsCfgLocked_def)
  next
    case (Some snapshot)
    then show ?thesis
      using assms(3) p f unread [OF Some p] report [OF Some p] run [OF Some p]
      by (simp add: syncServerAdminsCfgLocked_def g_def cur_def Let_def split: if_splits)
  qed
qed

text \<open>The outcomes of a sync, with the file before and after.\<close>

lemma sync_cases:
  assumes "syncServerAdminsCfgLocked env server opts w = (res, tx, w')"
  obtains (thrown) "res = None" "w_files w' = w_files w"
    | (kept) r snapshot where "res = Some r" "w_files w' = w_files w" "sn_snapshot env = Some snapshot" "rr_state r = InSync"
      "map_option (hashSegment env) (managedOf w server) = Some (hashSegment env (seg_body (buildManagedSegmentBody (sn_localeCompare env) snapshot)))"
    | (failed) r where "res = Some r" "w_files w' = w_files w" "rr_state r = Unreachable \<or> rr_state r = Drift"
    | (written) snapshot where "sn_snapshot env = Some snapshot" "\<forall>r. res = Some r \<longrightarrow> rr_state r = Wrote"
      "w_files w' = map_put server (spliceManagedSegment (fileOf w server) (seg_body (buildManagedSegmentBody (sn_localeCompare env) snapshot))) (w_files w)"
      "so_forceWrite opts \<or> so_mode opts \<noteq> Some PassiveMode"
  using assms
proof (cases rule: sync_paths)
  case thrown
  then show ?thesis using that(1) by simp
next
  case (unread snapshot w1)
  note v = failSync_view [OF unread(3)] publishStatus_view [OF unread(2)]
  show ?thesis
  proof (cases res)
    case None
    then show ?thesis using that(1) v by simp
  next
    case (Some r)
    then show ?thesis using that(3) [OF Some] v by simp
  qed
next
  case (report snapshot w1)
  note v = reportSync_view [OF report(3)] publishStatus_view [OF report(2)]
  have c: "map_option (hashSegment env) (managedOf w server) = map_option (\<lambda>l. hashSegment env (loc_segment l)) (findManagedSegment (fileOf w server))"
    by (simp add: managedOf_def option.map_comp comp_def)
  show ?thesis
  proof (cases res)
    case None
    then show ?thesis using that(1) v by simp
  next
    case (Some r)
    then show ?thesis
      using that(2) [OF Some _ report(1)] that(3) [OF Some] v unfolding c by (simp split: if_splits)
  qed
next
  case (run snapshot w1)
  note v = writeSync_view [OF run(3)] publishStatus_view [OF run(2)]
  have n: "so_forceWrite opts \<or> so_mode opts \<noteq> Some PassiveMode" using run(4) by (auto simp: needsWrite_def Let_def)
  show ?thesis
  proof (cases "sn_write env")
    case True
    then show ?thesis using that(4) [OF run(1) _ _ n] v by simp
  next
    case False
    show ?thesis
    proof (cases res)
      case None
      then show ?thesis using that(1) v False by simp
    next
      case (Some r)
      then show ?thesis using that(3) [OF Some] v False by simp
    qed
  qed
qed

lemma passive_keeps_files:
  assumes "so_mode opts = Some PassiveMode" "\<not> so_forceWrite opts" "syncServerAdminsCfgLocked env server opts w = (res, tx, w')"
  shows "w_files w' = w_files w"
  using assms(3) by (cases rule: sync_cases) (use assms(1,2) in simp_all)

lemma sync_keeps_queue:
  assumes "syncServerAdminsCfgLocked env server opts w = (res, tx, w')"
  shows "w_rows w' = w_rows w \<and> w_streams w' = w_streams w \<and> w_servers w' = w_servers w \<and> w_nextStreamId w' = w_nextStreamId w"
  using assms
proof (cases rule: sync_paths)
  case (unread snapshot w1)
  then show ?thesis using failSync_view [OF unread(3)] publishStatus_view [OF unread(2)] by simp
next
  case (report snapshot w1)
  then show ?thesis using reportSync_view [OF report(3)] publishStatus_view [OF report(2)] by simp
next
  case (run snapshot w1)
  then show ?thesis using writeSync_view [OF run(3)] publishStatus_view [OF run(2)] by simp
qed simp

lemma fileOf_put: "w_files w' = map_put server c (w_files w) \<Longrightarrow> fileOf w' v = (if v = server then c else fileOf w v)"
  by (simp add: fileOf_def orElse_def)

lemma fileOf_cong: "w_files w' = w_files w \<Longrightarrow> fileOf w' v = fileOf w v"
  by (simp add: fileOf_def)

text \<open>
  A sync that reports success has established the managed segment.  When it returns \<open>Wrote\<close> or \<open>InSync\<close>,
  the segment found in the server's file is exactly the one rendered from the database snapshot, the rest of
  the file is what it was, and no other server's file changed; for the case without a write, SHA-256 must
  not collide on the segment that was in the file.
\<close>

lemma sync_establishes_segment:
  assumes "syncServerAdminsCfgLocked env server opts w = (Some r, tx, w')" "rr_state r \<in> {Wrote, InSync}"
    and "sn_snapshot env = Some snapshot" "cleanInputs snapshot"
    and body_def: "body = seg_body (buildManagedSegmentBody (sn_localeCompare env) snapshot)"
    and no_collision: "\<And>seg. managedOf w server = Some seg \<Longrightarrow> sn_hash env seg = sn_hash env body \<Longrightarrow> seg = body"
  shows "managedOf w' server = Some body \<and> (fileOf w' server = fileOf w server \<or> fileOf w' server = spliceManagedSegment (fileOf w server) body) \<and>
    (\<forall>v. v \<noteq> server \<longrightarrow> fileOf w' v = fileOf w v)"
  using assms(1)
proof (cases rule: sync_cases)
  case (kept r' snap)
  then show ?thesis
    using no_collision assms(3) body_def fileOf_cong [OF kept(2)] by (auto simp: managedOf_def hashSegment_def)
next
  case (written snap)
  then show ?thesis
    using splice_twice(1) [OF sealed_body [OF assms(4)], of "fileOf w server" "sn_localeCompare env"] assms(3) body_def
    by (auto simp: managedOf_def fileOf_put)
qed (use assms(2) in auto)

definition sinceOf :: "string \<Rightarrow> world \<Rightarrow> time option" where
  "sinceOf server w = (case map_of (w_status w) server of None \<Rightarrow> None | Some st \<Rightarrow> sy_unreachableSince st)"

lemma publishStatus_since:
  assumes "sn_setStatus env (sy_state st)" "sy_unreachableSince st = None"
  obtains w' where "publishStatus env server st w = Some w'"
    "sinceOf server w' = (if sy_state st = StUnreachable then Some (orElse (sinceOf server w) (sn_now env))
       else if sy_state st = StSyncing then sinceOf server w else None)"
  using assms that by (auto simp: publishStatus_def sinceOf_def orElse_def Let_def split: option.splits)

text \<open>An attempt during an outage: Redis and the snapshot answer, the bridge does not.\<close>

definition outage :: "sync_env \<Rightarrow> bool" where
  "outage env \<longleftrightarrow> \<not> sn_read env \<and> sn_snapshot env \<noteq> None \<and> sn_setStatus env StSyncing \<and> sn_setStatus env StUnreachable"

definition attemptSync :: "string \<Rightarrow> sync_options \<Rightarrow> sync_env \<Rightarrow> world \<Rightarrow> world" where
  "attemptSync server opts env w = snd (snd (syncServerAdminsCfgLocked env server opts w))"

lemma failSync_since:
  assumes "sn_setStatus env StUnreachable"
  shows "sinceOf server (snd (snd (failSync env server opts g c w))) = Some (orElse (sinceOf server w) (sn_now env))"
proof -
  let ?st = "statusOf StUnreachable None c (Some (hashSegment env (seg_body g))) None"
  obtain w' where w': "publishStatus env server ?st w = Some w'"
    "sinceOf server w' = Some (orElse (sinceOf server w) (sn_now env))"
    by (rule publishStatus_since [of env ?st server w]) (use assms in \<open>simp_all add: statusOf_def\<close>)
  have "sinceOf server (snd (safeAppendAudit env e w')) = sinceOf server w'" for e by (simp add: safeAppendAudit_def sinceOf_def)
  then show ?thesis using w' by (simp add: failSync_def Let_def case_prod_beta)
qed

lemma attempt_since:
  assumes "outage env"
  shows "sinceOf server (attemptSync server opts env w) = Some (orElse (sinceOf server w) (sn_now env))"
proof -
  obtain w1 where w1: "publishStatus env server (statusOf StSyncing None None None None) w = Some w1" "sinceOf server w1 = sinceOf server w"
    by (rule publishStatus_since [of env "statusOf StSyncing None None None None" server w]) (use assms in \<open>simp_all add: outage_def statusOf_def\<close>)
  then show ?thesis
    using assms failSync_since [of env server] by (auto simp: attemptSync_def syncServerAdminsCfgLocked_def outage_def Let_def)
qed

section \<open>Properties\<close>

text \<open>
  The start of an outage is kept.  While every attempt finds the bridge unreachable, however many there
  are and although each first publishes that it is syncing, the status of the server carries the time of
  the first failed attempt.
\<close>

lemma outage_start_kept:
  assumes "sinceOf server w = None" "\<forall>env \<in> set (first # envs). outage env"
  shows "sinceOf server (fold (attemptSync server opts) (first # envs) w) = Some (sn_now first)"
proof -
  have run: "sinceOf server u = Some t \<Longrightarrow> \<forall>env \<in> set es. outage env \<Longrightarrow> sinceOf server (fold (attemptSync server opts) es u) = Some t" for es u t
    by (induction es arbitrary: u) (simp_all add: attempt_since orElse_def)
  show ?thesis using run [of "attemptSync server opts first w" "sn_now first" envs] assms by (simp add: attempt_since orElse_def)
qed

definition demoSyncEnv :: "time \<Rightarrow> bool \<Rightarrow> sync_env" where
  "demoSyncEnv now up = \<lparr>sn_now = now, sn_snapshot = Some demoInputs, sn_localeCompare = demoCompare, sn_hash = map char_of, sn_read = up, sn_write = up,
     sn_audit = True, sn_setStatus = (\<lambda>_. True), sn_rconStatus = Some RconMissing, sn_xadd = True, sn_uuid = ''u1''\<rparr>"

definition demoSyncOptions :: sync_options where
  "demoSyncOptions = \<lparr>so_reason = ''role.update'', so_actorPlayerId = None, so_forceWrite = False, so_mode = Some ActiveMode, so_requestReload = False\<rparr>"

definition demoSyncWorld :: world where
  "demoSyncWorld = \<lparr>w_servers = [], w_rows = [], w_audit = [], w_streams = [], w_nextStreamId = 0, w_status = [], w_reloads = [], w_files = []\<rparr>"

lemma outage_start_kept_example:
  "sinceOf ''srv'' (fold (attemptSync ''srv'' demoSyncOptions) [demoSyncEnv 10 False, demoSyncEnv 20 False, demoSyncEnv 30 False] demoSyncWorld) = Some 10"
  using outage_start_kept [of "''srv''" demoSyncWorld "demoSyncEnv 10 False" "[demoSyncEnv 20 False, demoSyncEnv 30 False]" demoSyncOptions]
  by (simp add: demoSyncWorld_def sinceOf_def demoSyncEnv_def outage_def)

end
