(* ===== verification/Sync_Delivery.thy ===== *)
theory Sync_Delivery
  imports Admins_Sync
begin

text \<open>
  Applying the stream entries of the outbox: \<^verbatim>\<open>apps/workers/config-sync/src/delivery.ts\<close> and the entry
  handling of \<^verbatim>\<open>index.ts\<close>, on the world of \<^verbatim>\<open>Sync_Outbox\<close> and with the sync of \<^verbatim>\<open>Admins_Sync\<close>.  The
  environment gives what the server-state reads see, the reload attempts and the outcome of database and
  Redis calls.  The last section puts enqueueing, relay, delivery and server deletion together as a step
  relation and shows that no request is lost.
\<close>

section \<open>Environment\<close>

record server_state =
  st_status :: string
  st_deleted :: bool

text \<open>\<open>dl_state n\<close> is the \<open>n\<close>-th read of the server state: it throws, finds no row, or finds a state.\<close>

record delivery_env =
  dl_now :: time
  dl_sync :: sync_env
  dl_getOutbox :: bool
  dl_state :: "nat \<Rightarrow> server_state option option"
  dl_reload :: "nat \<Rightarrow> reload_env"
  dl_mark :: bool
  dl_commit :: bool
  dl_ack :: bool

datatype delivery_outcome = Completed | Retry | Threw

definition isLive :: "server_state option \<Rightarrow> bool" where
  "isLive st \<longleftrightarrow> (case st of None \<Rightarrow> False | Some x \<Rightarrow> \<not> st_deleted x \<and> st_status x \<in> {''running'', ''starting''})"

definition isRemoved :: "server_state option \<Rightarrow> bool" where
  "isRemoved st \<longleftrightarrow> (case st of None \<Rightarrow> True | Some x \<Rightarrow> st_deleted x)"

definition syncParameters :: "payload \<Rightarrow> sync_options" where
  "syncParameters p =
     (case p of NotObject \<Rightarrow> \<lparr>so_reason = ''unknown'', so_actorPlayerId = None, so_forceWrite = False, so_mode = None, so_requestReload = True\<rparr>
      | Payload reason actor force \<Rightarrow>
          (let reason = orElse reason ''unknown''
           in \<lparr>so_reason = reason, so_actorPlayerId = actor, so_forceWrite = (reason = ''force_sync'' \<or> force), so_mode = None,
               so_requestReload = True\<rparr>))"

definition reloadCode :: "reload_result \<Rightarrow> string" where
  "reloadCode r = (case r of Confirmed \<Rightarrow> ''confirmed'' | ReloadUnavailable \<Rightarrow> ''unavailable'' | Rejected \<Rightarrow> ''rejected''
     | TimedOut \<Rightarrow> ''timeout'' | InvalidResult \<Rightarrow> ''invalid_result'')"

definition acknowledgeAndDeleteAdminsCfgEntry :: "stream_entry \<Rightarrow> world \<Rightarrow> world" where
  "acknowledgeAndDeleteAdminsCfgEntry e w =
     w\<lparr>w_streams := filter (\<lambda>x. \<not> (en_serverId x = en_serverId e \<and> en_streamId x = en_streamId e)) (w_streams w)\<rparr>"

section \<open>Work under the lock\<close>

type_synonym work = "delivery_outcome option \<times> bool \<times> world"

definition complete :: "delivery_env \<Rightarrow> string \<Rightarrow> string \<Rightarrow> world \<Rightarrow> work" where
  "complete env i outcome w =
     (if \<not> dl_mark env then (None, False, w)
      else case markAdminsCfgSyncApplied (dl_now env) i outcome w of None \<Rightarrow> (None, True, w) | Some w' \<Rightarrow> (Some Completed, True, w'))"

definition retryLater :: "delivery_env \<Rightarrow> string \<Rightarrow> string \<Rightarrow> world \<Rightarrow> work" where
  "retryLater env i code w =
     (if \<not> dl_mark env then (None, False, w)
      else case markAdminsCfgSyncFailed i code w of None \<Rightarrow> (None, True, w) | Some w' \<Rightarrow> (Some Retry, True, w'))"

definition finishDelivery :: "delivery_env \<Rightarrow> string \<Rightarrow> server_state option \<Rightarrow> world \<Rightarrow> work" where
  "finishDelivery env i final w =
     (if isRemoved final then complete env i ''server_removed'' w
      else complete env i (if isLive final then ''confirmed'' else ''file_ready_for_restart'') w)"

definition settleDelivery :: "delivery_env \<Rightarrow> string \<Rightarrow> string \<Rightarrow> bool \<Rightarrow> world \<Rightarrow> work" where
  "settleDelivery env server i reloadConfirmed w =
     (case dl_state env 1 of
        None \<Rightarrow> (None, False, w)
      | Some final \<Rightarrow>
          if isLive final \<and> \<not> reloadConfirmed
          then (case confirmAdminsCfgReload (dl_reload env 1) server i w of (reload, w1) \<Rightarrow>
                  if reload \<noteq> Confirmed then retryLater env i (reloadCode reload) w1
                  else (case dl_state env 2 of None \<Rightarrow> (None, False, w1) | Some again \<Rightarrow> finishDelivery env i again w1))
          else finishDelivery env i final w)"

definition afterSync :: "delivery_env \<Rightarrow> string \<Rightarrow> string \<Rightarrow> world \<Rightarrow> work" where
  "afterSync env server i w =
     (case dl_state env 0 of
        None \<Rightarrow> (None, False, w)
      | Some first \<Rightarrow>
          if isRemoved first then complete env i ''server_removed'' w
          else if isLive first
          then (case confirmAdminsCfgReload (dl_reload env 0) server i w of (reload, w1) \<Rightarrow>
                  if reload \<noteq> Confirmed then retryLater env i (reloadCode reload) w1
                  else settleDelivery env server i True w1)
          else settleDelivery env server i False w)"

definition deliverOutbox :: "delivery_env \<Rightarrow> string \<Rightarrow> string \<Rightarrow> world \<Rightarrow> work" where
  "deliverOutbox env server i w =
     (if \<not> dl_getOutbox env then (None, False, w)
      else case getAdminsCfgSyncOutboxState i w of
        None \<Rightarrow> (Some Completed, True, w)
      | Some outbox \<Rightarrow>
          if ob_serverId outbox \<noteq> server then (Some Completed, True, w)
          else if ob_appliedAt outbox \<noteq> None then (Some Completed, True, w)
          else (case syncServerAdminsCfgLocked (dl_sync env) server
                  ((syncParameters (ob_payload outbox))\<lparr>so_mode := Some ActiveMode, so_requestReload := False\<rparr>) w of
              (None, tx, w1) \<Rightarrow> (None, tx, w1)
            | (Some result, tx, w1) \<Rightarrow>
                if \<not> tx then (None, False, w1)
                else if rr_state result = Unreachable then retryLater env i ''unavailable'' w1
                else afterSync env server i w1))"

definition acknowledge :: "delivery_env \<Rightarrow> stream_entry \<Rightarrow> world \<Rightarrow> delivery_outcome \<times> world" where
  "acknowledge env e w = (if dl_ack env then (Completed, acknowledgeAndDeleteAdminsCfgEntry e w) else (Threw, w))"

definition handleAdminsCfgSyncEntry :: "delivery_env \<Rightarrow> stream_entry \<Rightarrow> world \<Rightarrow> delivery_outcome \<times> world" where
  "handleAdminsCfgSyncEntry env e w =
     (case en_event e of
        InvalidEvent \<Rightarrow> acknowledge env e w
      | SyncEvent p NoRef \<Rightarrow>
          (case syncServerAdminsCfg (dl_sync env) (dl_commit env) (en_serverId e) (syncParameters p) w of
             (None, w') \<Rightarrow> (Threw, w')
           | (Some r, w') \<Rightarrow> if rr_state r = Unreachable then (Retry, w') else acknowledge env e w')
      | SyncEvent p BadRef \<Rightarrow> acknowledge env e w
      | SyncEvent p (Ref i) \<Rightarrow>
          (case withAdminsCfgServerLock (dl_commit env) (deliverOutbox env (en_serverId e) i) w of
             (None, w') \<Rightarrow> (Threw, w')
           | (Some Completed, w') \<Rightarrow> acknowledge env e w'
           | (Some outcome, w') \<Rightarrow> (outcome, w')))"

section \<open>What a delivery does to the queue\<close>

text \<open>Rows keep their identity and relay mark, and an applied row never changes again.\<close>

definition evolves :: "outbox_row \<Rightarrow> outbox_row \<Rightarrow> bool" where
  "evolves r r' \<longleftrightarrow> ob_id r' = ob_id r \<and> ob_serverId r' = ob_serverId r \<and> ob_payload r' = ob_payload r \<and> ob_relayedAt r' = ob_relayedAt r \<and>
     (ob_appliedAt r \<noteq> None \<longrightarrow> r' = r)"

definition queueEvolves :: "world \<Rightarrow> world \<Rightarrow> bool" where
  "queueEvolves w w' \<longleftrightarrow> list_all2 evolves (w_rows w) (w_rows w') \<and> w_streams w' = w_streams w \<and> w_servers w' = w_servers w \<and>
     w_nextStreamId w' = w_nextStreamId w"

lemma evolves_refl [simp]: "evolves r r"
  by (simp add: evolves_def)

lemma evolves_trans: "evolves r s \<Longrightarrow> evolves s t \<Longrightarrow> evolves r t"
  by (auto simp: evolves_def)

lemma queueEvolves_same:
  "w_rows w' = w_rows w \<Longrightarrow> w_streams w' = w_streams w \<Longrightarrow> w_servers w' = w_servers w \<Longrightarrow> w_nextStreamId w' = w_nextStreamId w \<Longrightarrow> queueEvolves w w'"
  by (simp add: queueEvolves_def list_all2_same)

lemma queueEvolves_trans: "queueEvolves w u \<Longrightarrow> queueEvolves u w' \<Longrightarrow> queueEvolves w w'"
  unfolding queueEvolves_def using list_all2_trans [of evolves evolves evolves] evolves_trans by (metis (no_types, lifting))

lemma queueEvolves_update:
  assumes "\<And>r. p r \<Longrightarrow> evolves r (f r)"
  shows "queueEvolves w (w\<lparr>w_rows := update_rows p f (w_rows w)\<rparr>)"
  using assms by (simp add: queueEvolves_def update_rows_def list_all2_map2 list_all2_same)

text \<open>Applied, as far as the rows of this server with this id go.\<close>

definition appliedIn :: "string \<Rightarrow> string \<Rightarrow> world \<Rightarrow> bool" where
  "appliedIn server i w \<longleftrightarrow> (\<forall>r \<in> set (w_rows w). ob_id r = i \<and> ob_serverId r = server \<longrightarrow> ob_appliedAt r \<noteq> None)"

definition workOk :: "string \<Rightarrow> string \<Rightarrow> world \<Rightarrow> work \<Rightarrow> bool" where
  "workOk server i w res \<longleftrightarrow> queueEvolves w (snd (snd res)) \<and> (fst res = Some Completed \<longrightarrow> appliedIn server i (snd (snd res))) \<and>
     (fst res \<noteq> None \<longrightarrow> fst (snd res)) \<and> fst res \<noteq> Some Threw"

lemma applied_evolves:
  "queueEvolves w (w\<lparr>w_rows := update_rows (\<lambda>r. ob_id r = i \<and> ob_appliedAt r = None)
     (\<lambda>r. r\<lparr>ob_appliedAt := a, ob_reloadOutcome := b, ob_lastError := c\<rparr>) (w_rows w)\<rparr>)"
  "queueEvolves w (w\<lparr>w_rows := update_rows (\<lambda>r. ob_id r = i \<and> ob_appliedAt r = None)
     (\<lambda>r. r\<lparr>ob_reloadOutcome := b, ob_lastError := c\<rparr>) (w_rows w)\<rparr>)"
  by (rule queueEvolves_update, simp add: evolves_def)+

lemma queueEvolves_refl [simp]: "queueEvolves w w"
  by (simp add: queueEvolves_same)

lemma complete_ok: "workOk server i w (complete env i outcome w)"
proof -
  have a: "appliedIn server i (w\<lparr>w_rows := update_rows (\<lambda>r. ob_id r = i \<and> ob_appliedAt r = None)
     (\<lambda>r. r\<lparr>ob_appliedAt := Some t, ob_reloadOutcome := b, ob_lastError := c\<rparr>) (w_rows w)\<rparr>)" for t b c
    by (simp add: appliedIn_def set_update_rows ball_Un)
  show ?thesis
    unfolding complete_def markAdminsCfgSyncApplied_def workOk_def
    by (cases "dl_mark env"; cases "outcome \<in> set APPLIED_OUTCOMES") (simp_all add: applied_evolves a)
qed

lemma retryLater_ok: "workOk server i w (retryLater env i code w)"
  by (simp add: retryLater_def markAdminsCfgSyncFailed_def workOk_def applied_evolves)

lemma workOk_from: "workOk server i u res \<Longrightarrow> queueEvolves w u \<Longrightarrow> workOk server i w res"
  by (auto simp: workOk_def intro: queueEvolves_trans)

lemma confirm_evolves: "queueEvolves w (snd (confirmAdminsCfgReload env server i w))"
  by (rule queueEvolves_same) (simp_all add: confirmAdminsCfgReload_def Let_def)

lemma thrown_ok: "queueEvolves w u \<Longrightarrow> workOk server i w (None, tx, u)"
  by (simp add: workOk_def)

lemma finishDelivery_ok: "workOk server i w (finishDelivery env i final w)"
  by (simp add: finishDelivery_def complete_ok)

lemma settleDelivery_ok: "workOk server i w (settleDelivery env server i c w)"
proof -
  obtain reload w1 where c: "confirmAdminsCfgReload (dl_reload env 1) server i w = (reload, w1)" by fastforce
  have "queueEvolves w w1" using confirm_evolves [of w "dl_reload env 1" server i] c by simp
  then show ?thesis
    using workOk_from [OF retryLater_ok] workOk_from [OF finishDelivery_ok] thrown_ok finishDelivery_ok
    by (auto simp: settleDelivery_def c [simplified] split: option.split)
qed

lemma afterSync_ok: "workOk server i w (afterSync env server i w)"
proof -
  obtain reload w1 where c: "confirmAdminsCfgReload (dl_reload env 0) server i w = (reload, w1)" by fastforce
  have "queueEvolves w w1" using confirm_evolves [of w "dl_reload env 0" server i] c by simp
  then show ?thesis
    using workOk_from [OF retryLater_ok] workOk_from [OF settleDelivery_ok] thrown_ok settleDelivery_ok complete_ok
    by (auto simp: afterSync_def c split: option.split)
qed

lemma deliverOutbox_ok:
  assumes "distinct (rowIds w)"
  shows "workOk server i w (deliverOutbox env server i w)"
proof (cases "getAdminsCfgSyncOutboxState i w")
  case None
  then have "appliedIn server i w" by (auto simp: getAdminsCfgSyncOutboxState_def find_row_None appliedIn_def)
  then show ?thesis using None by (simp add: deliverOutbox_def workOk_def)
next
  case (Some r)
  have u: "ob_id x = i \<Longrightarrow> x \<in> set (w_rows w) \<Longrightarrow> x = r" for x
    using Some rowAt_unique [OF assms, of x] by (simp add: getAdminsCfgSyncOutboxState_def rowAt_def)
  let ?sync = "syncServerAdminsCfgLocked (dl_sync env) server ((syncParameters (ob_payload r))\<lparr>so_mode := Some ActiveMode, so_requestReload := False\<rparr>) w"
  obtain res tx w1 where s: "?sync = (res, tx, w1)" using prod_cases3 by blast
  have e: "queueEvolves w w1" using sync_keeps_queue [OF s] by (simp add: queueEvolves_same)
  show ?thesis
  proof (cases "dl_getOutbox env \<and> ob_serverId r = server \<and> ob_appliedAt r = None")
    case True
    then show ?thesis
      using Some s e workOk_from [OF retryLater_ok e] workOk_from [OF afterSync_ok e] thrown_ok
      by (cases res) (simp_all add: deliverOutbox_def)
  next
    case False
    then show ?thesis using Some u by (auto simp: deliverOutbox_def workOk_def appliedIn_def)
  qed
qed

text \<open>The effect of handling an entry: rows evolve, and the entry is removed only when nothing is left to apply.\<close>

definition handled :: "stream_entry \<Rightarrow> world \<Rightarrow> world \<Rightarrow> bool" where
  "handled e w w' \<longleftrightarrow> list_all2 evolves (w_rows w) (w_rows w') \<and> w_servers w' = w_servers w \<and> w_nextStreamId w' = w_nextStreamId w \<and>
     (w_streams w' = w_streams w \<or>
      w_streams w' = w_streams (acknowledgeAndDeleteAdminsCfgEntry e w) \<and> (\<forall>p i. en_event e = SyncEvent p (Ref i) \<longrightarrow> appliedIn (en_serverId e) i w'))"

lemma queueEvolves_handled: "queueEvolves w w' \<Longrightarrow> handled e w w'"
  by (simp add: queueEvolves_def handled_def)

lemma acknowledge_handled:
  assumes "queueEvolves w u" "\<And>p i. en_event e = SyncEvent p (Ref i) \<Longrightarrow> appliedIn (en_serverId e) i u"
  shows "handled e w (snd (acknowledge env e u))"
  using assms by (auto simp: acknowledge_def handled_def queueEvolves_def acknowledgeAndDeleteAdminsCfgEntry_def appliedIn_def)

lemma lock_evolves:
  assumes "queueEvolves w (snd (snd (work w)))"
  shows "queueEvolves w (snd (withAdminsCfgServerLock commit work w))"
  using assms by (cases "work w") (auto simp: withAdminsCfgServerLock_def queueEvolves_def list_all2_same)

lemma lock_result:
  "withAdminsCfgServerLock commit work w = (Some r, w') \<Longrightarrow> fst (snd (work w)) \<Longrightarrow> work w = (Some r, True, w')"
  by (cases "work w") (auto simp: withAdminsCfgServerLock_def split: if_splits)

lemma handle_ref:
  assumes d: "distinct (rowIds w)" and ev: "en_event e = SyncEvent p (Ref i)"
  shows "handled e w (snd (handleAdminsCfgSyncEntry env e w))"
proof -
  let ?work = "deliverOutbox env (en_serverId e) i"
  have ok: "workOk (en_serverId e) i w (?work w)" by (rule deliverOutbox_ok [OF d])
  have q: "queueEvolves w (snd (withAdminsCfgServerLock (dl_commit env) ?work w))"
    by (rule lock_evolves) (use ok in \<open>simp add: workOk_def\<close>)
  obtain res w' where l: "withAdminsCfgServerLock (dl_commit env) ?work w = (res, w')" by fastforce
  show ?thesis
  proof (cases "res = Some Completed")
    case True
    then have "fst (?work w) \<noteq> None" using l by (cases "?work w") (auto simp: withAdminsCfgServerLock_def split: if_splits)
    then have "?work w = (Some Completed, True, w')" using lock_result [of "dl_commit env" ?work w Completed w'] l True ok by (simp add: workOk_def)
    then have "appliedIn (en_serverId e) i w'" using ok by (simp add: workOk_def)
    then show ?thesis
      using acknowledge_handled [of w w' e env] q l True ev by (simp add: handleAdminsCfgSyncEntry_def)
  next
    case False
    then show ?thesis
      using q l ev by (auto simp: handleAdminsCfgSyncEntry_def queueEvolves_handled split: option.split delivery_outcome.split)
  qed
qed

lemma handle_handled:
  assumes d: "distinct (rowIds w)"
  shows "handled e w (snd (handleAdminsCfgSyncEntry env e w))"
proof (cases "en_event e")
  case InvalidEvent
  then show ?thesis using acknowledge_handled [of w w e env] by (simp add: handleAdminsCfgSyncEntry_def)
next
  case (SyncEvent p ref)
  show ?thesis
  proof (cases ref)
    case NoRef
    let ?work = "syncServerAdminsCfgLocked (dl_sync env) (en_serverId e) (syncParameters p)"
    obtain res tx u where "?work w = (res, tx, u)" using prod_cases3 by blast
    then have q: "queueEvolves w (snd (withAdminsCfgServerLock (dl_commit env) ?work w))"
      using sync_keeps_queue [of "dl_sync env" "en_serverId e" "syncParameters p" w res tx u] by (intro lock_evolves) (simp add: queueEvolves_same)
    then show ?thesis
      using SyncEvent NoRef acknowledge_handled [of w _ e env]
      by (auto simp: handleAdminsCfgSyncEntry_def syncServerAdminsCfg_def queueEvolves_handled split: prod.split option.split)
  next
    case BadRef
    then show ?thesis using SyncEvent acknowledge_handled [of w w e env] by (simp add: handleAdminsCfgSyncEntry_def)
  next
    case (Ref i)
    then show ?thesis using handle_ref [OF d] SyncEvent by simp
  qed
qed

section \<open>The whole queue\<close>

text \<open>Rows enter the table, the relay runs, entries are handled in any order and any number of times, servers go.\<close>

inductive sync_step :: "world \<Rightarrow> world \<Rightarrow> bool" where
  enqueue: "i \<notin> set (rowIds w) \<Longrightarrow> sync_step w (enqueueAdminsCfgSyncForServer now p server i w)"
| enqueue_all: "distinct (rowIds (snd (enqueueAdminsCfgSyncForAllServers now p serverIds fresh w))) \<Longrightarrow>
    sync_step w (snd (enqueueAdminsCfgSyncForAllServers now p serverIds fresh w))"
| relay: "sync_step w (snd (relayAdminsCfgSyncOutbox renv maxF w))"
| deliver: "e \<in> set (w_streams w) \<Longrightarrow> sync_step w (snd (handleAdminsCfgSyncEntry denv e w))"
| drop: "sync_step w (dropServerQueue now unlinkOk delOk server w)"

definition linkedRow :: "world \<Rightarrow> outbox_row \<Rightarrow> bool" where
  "linkedRow w r \<longleftrightarrow> ob_relayedAt r = None \<or> ob_appliedAt r \<noteq> None \<or>
     (\<exists>e \<in> set (w_streams w). en_serverId e = ob_serverId r \<and> (\<exists>p. en_event e = SyncEvent p (Ref (ob_id r))))"

definition queueOk :: "world \<Rightarrow> bool" where
  "queueOk w \<longleftrightarrow> distinct (rowIds w) \<and> distinct (map en_streamId (w_streams w)) \<and>
     (\<forall>e \<in> set (w_streams w). en_streamId e < w_nextStreamId w) \<and> (\<forall>r \<in> set (w_rows w). linkedRow w r)"

lemma evolves_ids: "list_all2 evolves rs rs' \<Longrightarrow> map ob_id rs' = map ob_id rs"
  by (induction rule: list_all2_induct) (auto simp: evolves_def)

lemma evolves_back: "list_all2 evolves rs rs' \<Longrightarrow> r' \<in> set rs' \<Longrightarrow> \<exists>r \<in> set rs. evolves r r'"
  by (induction rule: list_all2_induct) auto

lemma linkedRow_grows:
  "set (w_streams w) \<subseteq> set (w_streams w') \<Longrightarrow> linkedRow w r \<Longrightarrow> linkedRow w' r"
  by (auto simp: linkedRow_def)

lemma deliver_queueOk:
  assumes ok: "queueOk w" and e: "e \<in> set (w_streams w)" and h: "handled e w w'"
  shows "queueOk w'"
proof -
  have rows: "list_all2 evolves (w_rows w) (w_rows w')" and nx: "w_nextStreamId w' = w_nextStreamId w" using h by (simp_all add: handled_def)
  have d: "distinct (rowIds w')" using ok evolves_ids [OF rows] by (simp add: queueOk_def rowIds_def)
  have sub: "set (w_streams w') \<subseteq> set (w_streams w)" "distinct (map en_streamId (w_streams w'))"
    using h ok by (auto simp: handled_def queueOk_def acknowledgeAndDeleteAdminsCfgEntry_def distinct_map_filter)
  have uniq: "x = e" if "x \<in> set (w_streams w)" "en_streamId x = en_streamId e" for x
    using ok e that by (auto simp: queueOk_def distinct_map inj_on_def)
  have "linkedRow w' r'" if r': "r' \<in> set (w_rows w')" for r'
  proof (rule ccontr)
    assume n: "\<not> linkedRow w' r'"
    obtain r where r: "r \<in> set (w_rows w)" "evolves r r'" using evolves_back [OF rows r'] by blast
    have id: "ob_id r' = ob_id r" "ob_serverId r' = ob_serverId r" and l: "ob_relayedAt r \<noteq> None" "ob_appliedAt r = None"
      using r(2) n by (auto simp: evolves_def linkedRow_def)
    obtain x p where x: "x \<in> set (w_streams w)" "en_serverId x = ob_serverId r" "en_event x = SyncEvent p (Ref (ob_id r))"
      using ok r(1) l by (auto simp: queueOk_def linkedRow_def)
    have "x \<notin> set (w_streams w')" using n x id by (auto simp: linkedRow_def)
    then have "en_streamId x = en_streamId e" and a: "\<forall>p i. en_event e = SyncEvent p (Ref i) \<longrightarrow> appliedIn (en_serverId e) i w'"
      using h x(1) by (auto simp: handled_def acknowledgeAndDeleteAdminsCfgEntry_def)
    then have "x = e" using uniq x(1) by simp
    then have "ob_appliedAt r' \<noteq> None" using a x r' id by (auto simp: appliedIn_def)
    then show False using n by (simp add: linkedRow_def)
  qed
  then show ?thesis using d sub ok nx by (auto simp: queueOk_def)
qed

lemma publish_queueOk:
  assumes "queueOk w"
  shows "queueOk (snd (publishRow env r w))" "queueOk (snd (xadd v ev w))"
proof -
  show x: "queueOk (snd (xadd v ev w))" for v ev
    using assms linkedRow_grows [of w "snd (xadd v ev w)"] by (force simp: queueOk_def xadd_def rowIds_def)
  show "queueOk (snd (publishRow env r w))"
    using assms x [of "ob_serverId r" "SyncEvent (ob_payload r) (Ref (ob_id r))"]
    by (auto simp: publishRow_def split: xadd_outcome.split prod.split)
qed

lemma setRow_queueOk:
  assumes "queueOk w" "\<And>x. ob_id (f x) = ob_id x" "\<And>x. x \<in> set (w_rows w) \<Longrightarrow> ob_id x = i \<Longrightarrow> linkedRow w (f x)"
  shows "queueOk (setRow i f w)"
proof -
  have "linkedRow (setRow i f w) r = linkedRow w r" for r by (simp add: linkedRow_def)
  then show ?thesis using assms by (auto simp: queueOk_def set_update_rows)
qed

lemma relayStep_queueOk:
  assumes ok: "queueOk w" and st: "relayStep env failed w = (st, w')"
  shows "queueOk w'"
proof (rule relayStep_cases [of env failed w])
  fix r :: outbox_row
  let ?u = "snd (xadd (ob_serverId r) (SyncEvent (ob_payload r) (Ref (ob_id r))) w)"
  let ?f = "\<lambda>x. x\<lparr>ob_relayedAt := Some (rl_now env), ob_streamId := Some (w_nextStreamId w)\<rparr>"
  assume c: "claimRow env failed w = Some r" and s: "relayStep env failed w = (Relayed, setRow (ob_id r) ?f ?u)"
  have d: "distinct (rowIds w)" and r: "r \<in> set (w_rows w)" using ok claimRow_Some [OF c] by (simp_all add: queueOk_def)
  have "x = r" if "x \<in> set (w_rows w)" "ob_id x = ob_id r" for x
    using rowAt_unique [OF d that(1)] rowAt_unique [OF d r] that(2) by (metis option.inject)
  moreover have "linkedRow ?u (?f r)" by (auto simp: linkedRow_def xadd_def)
  ultimately have "linkedRow ?u (?f x)" if "x \<in> set (w_rows ?u)" "ob_id x = ob_id r" for x
    using that by (metis xadd_view(1))
  then have "queueOk (setRow (ob_id r) ?f ?u)" by (intro setRow_queueOk publish_queueOk ok) auto
  then show ?thesis using st s by simp
next
  fix r
  let ?f = "\<lambda>x. x\<lparr>ob_relayedAt := Some (rl_now env), ob_appliedAt := Some (rl_now env), ob_reloadOutcome := Some ''server_removed'', ob_lastError := None\<rparr>"
  assume s: "relayStep env failed w = (Cancelled, setRow (ob_id r) ?f w)"
  have "queueOk (setRow (ob_id r) ?f w)" by (intro setRow_queueOk ok) (auto simp: linkedRow_def)
  then show ?thesis using st s by simp
qed (use st ok publish_queueOk(1) in auto)

lemma enqueued_queueOk:
  assumes "queueOk w" "\<forall>r \<in> set new. ob_relayedAt r = None" "distinct (rowIds (w\<lparr>w_rows := w_rows w @ new\<rparr>))"
  shows "queueOk (w\<lparr>w_rows := w_rows w @ new\<rparr>)"
  using assms by (auto simp: queueOk_def linkedRow_def)

lemma drop_rows:
  "w_rows (dropServerQueue now unlinkOk delOk server w) =
     update_rows (\<lambda>r. ob_serverId r = server \<and> ob_relayedAt r = None) (\<lambda>r. r\<lparr>ob_relayedAt := Some now\<rparr>)
       (update_rows (\<lambda>r. ob_serverId r = server \<and> ob_appliedAt r = None)
          (\<lambda>r. r\<lparr>ob_appliedAt := Some now, ob_reloadOutcome := Some ''server_removed'', ob_lastError := None\<rparr>) (w_rows w))"
  by (cases unlinkOk; cases delOk) (simp_all add: dropServerQueue_def Let_def)

lemma drop_row_mem:
  assumes "r' \<in> set (w_rows (dropServerQueue now unlinkOk delOk server w))"
  shows "\<exists>r \<in> set (w_rows w). r' = r \<and> ob_serverId r \<noteq> server \<or> ob_appliedAt r' \<noteq> None"
proof -
  obtain x where x: "x \<in> set (update_rows (\<lambda>r. ob_serverId r = server \<and> ob_appliedAt r = None)
        (\<lambda>r. r\<lparr>ob_appliedAt := Some now, ob_reloadOutcome := Some ''server_removed'', ob_lastError := None\<rparr>) (w_rows w))"
      "r' = (if ob_serverId x = server \<and> ob_relayedAt x = None then x\<lparr>ob_relayedAt := Some now\<rparr> else x)"
    using update_rows_mem [OF assms [unfolded drop_rows]] by blast
  obtain r where r: "r \<in> set (w_rows w)" "x = (if ob_serverId r = server \<and> ob_appliedAt r = None
      then r\<lparr>ob_appliedAt := Some now, ob_reloadOutcome := Some ''server_removed'', ob_lastError := None\<rparr> else r)"
    using update_rows_mem [OF x(1)] by blast
  show ?thesis
  proof (intro bexI [OF _ r(1)], cases "ob_serverId r = server")
    case True
    then have "ob_appliedAt x \<noteq> None" by (cases "ob_appliedAt r = None") (simp_all add: r(2))
    then show "r' = r \<and> ob_serverId r \<noteq> server \<or> ob_appliedAt r' \<noteq> None" by (simp add: x(2))
  next
    case False
    then show "r' = r \<and> ob_serverId r \<noteq> server \<or> ob_appliedAt r' \<noteq> None" by (simp add: x(2) r(2))
  qed
qed

lemma drop_queueOk:
  assumes "queueOk w"
  shows "queueOk (dropServerQueue now unlinkOk delOk server w)"
proof -
  let ?w = "dropServerQueue now unlinkOk delOk server w"
  have ids: "rowIds ?w = rowIds w" by (simp add: drop_rows rowIds_def)
  have nx: "w_nextStreamId ?w = w_nextStreamId w" by (simp add: dropServerQueue_def Let_def)
  have st: "w_streams ?w = w_streams w \<or> w_streams ?w = filter (\<lambda>e. en_serverId e \<noteq> server) (w_streams w)"
    by (simp add: dropServerQueue_def Let_def)
  have "linkedRow ?w r'" if "r' \<in> set (w_rows ?w)" for r'
    using drop_row_mem [OF that] st assms by (auto simp: queueOk_def linkedRow_def)
  then show ?thesis using assms ids nx st by (auto simp: queueOk_def distinct_map_filter)
qed

lemma step_queueOk: "sync_step w w' \<Longrightarrow> queueOk w \<Longrightarrow> queueOk w'"
proof (induction rule: sync_step.induct)
  case (enqueue i w now p server)
  then show ?case unfolding enqueueAdminsCfgSyncForServer_def
    by (intro enqueued_queueOk) (auto simp: newOutboxRow_def rowIds_def queueOk_def)
next
  case (enqueue_all now p serverIds fresh w)
  then show ?case using enqueued_queueOk [of w] by (auto simp: enqueueAdminsCfgSyncForAllServers_def newOutboxRow_def Let_def)
next
  case (relay w renv maxF)
  then show ?case unfolding relayAdminsCfgSyncOutbox_def by (rule relayLoop_inv [where P = queueOk]) (rule relayStep_queueOk)
next
  case (deliver e w denv)
  then have "distinct (rowIds w)" by (simp add: queueOk_def)
  from deliver_queueOk [OF deliver(2,1) handle_handled [OF this]] show ?case .
next
  case (drop w now unlinkOk delOk server)
  then show ?case by (rule drop_queueOk)
qed

section \<open>What a confirmed delivery means\<close>

lemma complete_row:
  assumes "complete env i outcome w = (Some Completed, tx, w')" "rowAt w i = Some r" "ob_appliedAt r = None"
  shows "rowAt w' i = Some (r\<lparr>ob_appliedAt := Some (dl_now env), ob_reloadOutcome := Some outcome, ob_lastError := None\<rparr>)"
    and "w_files w' = w_files w" and "w_reloads w' = w_reloads w"
  using assms by (auto simp: complete_def markAdminsCfgSyncApplied_def rowAt_def find_row_update_if split: if_splits)

definition reloadedBy :: "delivery_env \<Rightarrow> string \<Rightarrow> string \<Rightarrow> world \<Rightarrow> bool" where
  "reloadedBy env server i w \<longleftrightarrow> (\<exists>n. re_xadd (dl_reload env n) \<and> (server, reloadRequestId i (dl_reload env n)) \<in> set (w_reloads w) \<and>
     pollLoop server (reloadRequestId i (dl_reload env n)) (re_start (dl_reload env n) + RELOAD_TIMEOUT_MS) (re_polls (dl_reload env n)) = Confirmed)"

text \<open>Once work completes on an unapplied row, the file is as before, and \<open>confirmed\<close> was earned by a reload.\<close>

definition confirmedOk :: "delivery_env \<Rightarrow> string \<Rightarrow> string \<Rightarrow> world \<Rightarrow> work \<Rightarrow> bool" where
  "confirmedOk env server i w res \<longleftrightarrow> (\<forall>tx w'. res = (Some Completed, tx, w') \<longrightarrow> w_files w' = w_files w \<and>
     (\<forall>r. rowAt w' i = Some r \<and> ob_reloadOutcome r = Some ''confirmed'' \<longrightarrow> reloadedBy env server i w'))"

lemma confirm_result:
  assumes "confirmAdminsCfgReload (dl_reload env n) server i w = (reload, w')"
  shows "w_files w' = w_files w" "w_rows w' = w_rows w" "reload = Confirmed \<Longrightarrow> reloadedBy env server i w'"
  using assms by (auto simp: confirmAdminsCfgReload_def reloadedBy_def Let_def split: if_splits)

lemma retry_confirmedOk: "confirmedOk env server i w (retryLater env i' code u)"
  by (simp add: confirmedOk_def retryLater_def markAdminsCfgSyncFailed_def)

lemma complete_confirmedOk:
  assumes "rowAt u i = Some r" "ob_appliedAt r = None" "w_files u = w_files w" "outcome = ''confirmed'' \<Longrightarrow> reloadedBy env server i u"
  shows "confirmedOk env server i w (complete env i outcome u)"
proof -
  have "w_files w' = w_files w \<and> (\<forall>r. rowAt w' i = Some r \<and> ob_reloadOutcome r = Some ''confirmed'' \<longrightarrow> reloadedBy env server i w')"
    if "complete env i outcome u = (Some Completed, tx, w')" for tx w'
    using complete_row [OF that assms(1,2)] assms(3,4) by (auto simp: reloadedBy_def)
  then show ?thesis by (simp add: confirmedOk_def)
qed

lemma finish_confirmedOk:
  assumes "rowAt u i = Some r" "ob_appliedAt r = None" "w_files u = w_files w" "isLive final \<Longrightarrow> reloadedBy env server i u"
  shows "confirmedOk env server i w (finishDelivery env i final u)"
proof -
  have c: "confirmedOk env server i w (complete env i outcome u)" if "outcome \<noteq> ''confirmed'' \<or> reloadedBy env server i u" for outcome
    using complete_confirmedOk [OF assms(1-3)] that by blast
  show ?thesis
    unfolding finishDelivery_def using assms(4) by (cases "isRemoved final"; cases "isLive final") (simp_all add: c)
qed

lemma thrown_confirmedOk: "confirmedOk env server i w (None, tx, u)"
  by (simp add: confirmedOk_def)

lemma settle_confirmedOk:
  assumes "rowAt u i = Some r" "ob_appliedAt r = None" "w_files u = w_files w" "c \<Longrightarrow> reloadedBy env server i u"
  shows "confirmedOk env server i w (settleDelivery env server i c u)"
proof -
  obtain reload u1 where c: "confirmAdminsCfgReload (dl_reload env 1) server i u = (reload, u1)" by fastforce
  have r: "rowAt u1 i = Some r" "w_files u1 = w_files w" using confirm_result(1,2) [OF c] assms(1,3) by (simp_all add: rowAt_def)
  have f: "reload = Confirmed \<Longrightarrow> confirmedOk env server i w (finishDelivery env i st u1)" for st
    using finish_confirmedOk [OF r(1) assms(2) r(2)] confirm_result(3) [OF c] by simp
  show ?thesis
    using f retry_confirmedOk thrown_confirmedOk finish_confirmedOk [OF assms(1-3)] assms(4)
    by (auto simp: settleDelivery_def c [simplified] split: option.split)
qed

lemma afterSync_confirmedOk:
  assumes "rowAt u i = Some r" "ob_appliedAt r = None" "w_files u = w_files w"
  shows "confirmedOk env server i w (afterSync env server i u)"
proof -
  obtain reload u1 where c: "confirmAdminsCfgReload (dl_reload env 0) server i u = (reload, u1)" by fastforce
  have r: "rowAt u1 i = Some r" "w_files u1 = w_files w" using confirm_result(1,2) [OF c] assms(1,3) by (simp_all add: rowAt_def)
  have f: "reload = Confirmed \<Longrightarrow> confirmedOk env server i w (settleDelivery env server i True u1)"
    using settle_confirmedOk [OF r(1) assms(2) r(2)] confirm_result(3) [OF c] by simp
  show ?thesis
    using f retry_confirmedOk thrown_confirmedOk settle_confirmedOk [OF assms, of False] complete_confirmedOk [OF assms, of "''server_removed''"]
    by (auto simp: afterSync_def c split: option.split)
qed

lemma active_not_drift:
  assumes "syncServerAdminsCfgLocked env server opts w = (Some r, tx, w')" "so_mode opts = Some ActiveMode"
  shows "rr_state r \<noteq> Drift"
  using assms(1)
proof (cases rule: sync_paths)
  case (unread snapshot w1)
  then show ?thesis using failSync_view [OF unread(3)] by simp
next
  case (report snapshot w1)
  then show ?thesis using reportSync_view [OF report(3)] assms(2) by (simp add: needsWrite_def split: if_splits)
next
  case (run snapshot w1)
  then show ?thesis using writeSync_view [OF run(3)] by (simp split: if_splits)
qed simp

text \<open>A delivery in which everything answers; the server's state does not change meanwhile.\<close>

definition syncGood :: "sync_env \<Rightarrow> bool" where
  "syncGood env \<longleftrightarrow> sn_read env \<and> sn_write env \<and> sn_audit env \<and> (\<forall>st. sn_setStatus env st) \<and> sn_snapshot env \<noteq> None"

definition deliveryGood :: "delivery_env \<Rightarrow> string \<Rightarrow> string \<Rightarrow> server_state \<Rightarrow> bool" where
  "deliveryGood env server i st \<longleftrightarrow> dl_getOutbox env \<and> dl_mark env \<and> dl_commit env \<and> dl_ack env \<and> syncGood (dl_sync env) \<and>
     (\<forall>n. dl_state env n = Some (Some st)) \<and> \<not> st_deleted st \<and>
     (isLive (Some st) \<longrightarrow> re_xadd (dl_reload env 0) \<and> pollLoop server (reloadRequestId i (dl_reload env 0))
        (re_start (dl_reload env 0) + RELOAD_TIMEOUT_MS) (re_polls (dl_reload env 0)) = Confirmed)"

lemma publishStatus_good: "\<forall>st. sn_setStatus env st \<Longrightarrow> publishStatus env server st w \<noteq> None"
  by (simp add: publishStatus_def Let_def)

lemma sync_good:
  assumes "syncGood env" "syncServerAdminsCfgLocked env server opts w = (res, tx, w')"
  shows "tx \<and> (\<exists>r. res = Some r \<and> rr_state r \<noteq> Unreachable)"
proof -
  have g: "\<forall>st. sn_setStatus env st" "sn_read env" "sn_write env" "sn_audit env" using assms(1) by (simp_all add: syncGood_def)
  obtain snapshot where snap: "sn_snapshot env = Some snapshot" using assms(1) by (auto simp: syncGood_def)
  have n: "publishStatus env server st u = None \<longleftrightarrow> False" for st u using publishStatus_good [OF g(1)] by simp
  obtain w1 where w1: "publishStatus env server (statusOf StSyncing None None None None) w = Some w1" using n by blast
  have r: "reportSync env server m c d w1 = (res, tx, w') \<Longrightarrow> ?thesis" for m c d
    by (auto simp: n reportSync_def Let_def split: option.splits if_splits)
  have v: "writeSync env server opts m c new w1 = (res, tx, w') \<Longrightarrow> ?thesis" for m c new
    using g by (auto simp: n writeSync_def safeAppendAudit_def Let_def split: option.splits prod.splits if_splits)
  have "(\<exists>m c d. reportSync env server m c d w1 = (res, tx, w')) \<or> (\<exists>m c new. writeSync env server opts m c new w1 = (res, tx, w'))"
    using assms(2) g(2) snap w1 unfolding syncServerAdminsCfgLocked_def by (simp add: Let_def split: if_splits) blast+
  then show ?thesis using r v by blast
qed

lemma deliver_unfold:
  assumes "dl_getOutbox env" "rowAt w i = Some r" "ob_appliedAt r = None" "ob_serverId r = server"
    and "syncServerAdminsCfgLocked (dl_sync env) server ((syncParameters (ob_payload r))\<lparr>so_mode := Some ActiveMode, so_requestReload := False\<rparr>) w = (res, tx, w1)"
  shows "deliverOutbox env server i w = (case res of None \<Rightarrow> (None, tx, w1)
     | Some result \<Rightarrow> if \<not> tx then (None, False, w1) else if rr_state result = Unreachable then retryLater env i ''unavailable'' w1
         else afterSync env server i w1)"
  using assms by (simp add: deliverOutbox_def getAdminsCfgSyncOutboxState_def rowAt_def split: option.split)

lemma complete_not_retry: "fst (complete env i outcome w) \<noteq> Some Retry" "fst (finishDelivery env i st w) \<noteq> Some Retry"
  by (auto simp: finishDelivery_def complete_def split: option.split)

lemma settle_retry:
  assumes "settleDelivery env server i c w = (Some Retry, tx, w')"
  shows "\<exists>code u. w_rows u = w_rows w \<and> retryLater env i code u = (Some Retry, tx, w')"
proof -
  obtain reload u where c: "confirmAdminsCfgReload (dl_reload env 1) server i w = (reload, u)" by fastforce
  have n: "finishDelivery env i st x \<noteq> (Some Retry, tx, w')" for st x using complete_not_retry(2) [of env i st x] by auto
  show ?thesis
    using assms confirm_result(2) [OF c] n unfolding settleDelivery_def c by (auto split: option.splits if_splits)
qed

lemma afterSync_retry:
  assumes "afterSync env server i w = (Some Retry, tx, w')"
  shows "\<exists>code u. w_rows u = w_rows w \<and> retryLater env i code u = (Some Retry, tx, w')"
proof -
  obtain reload u where c: "confirmAdminsCfgReload (dl_reload env 0) server i w = (reload, u)" by fastforce
  have n: "complete env i st x \<noteq> (Some Retry, tx, w')" for st x using complete_not_retry(1) [of env i st x] by auto
  show ?thesis
    using assms confirm_result(2) [OF c] n settle_retry [of env server i _ _ tx w'] unfolding afterSync_def c
    by (fastforce split: option.splits if_splits)
qed

lemma retry_row:
  assumes "retryLater env i code u = (Some Retry, tx, w')" "rowAt u i = Some r" "ob_appliedAt r = None" "rowAt w' i = Some r'"
  shows "ob_appliedAt r' = None"
  using assms by (auto simp: retryLater_def markAdminsCfgSyncFailed_def rowAt_def find_row_update_if split: if_splits)

lemma deliver_retry:
  assumes "deliverOutbox env server i w = (Some Retry, tx, w')" "rowAt w i = Some r" "ob_appliedAt r = None" "rowAt w' i = Some r'"
  shows "ob_appliedAt r' = None"
proof -
  have g: "dl_getOutbox env" "ob_serverId r = server" using assms(1-3)
    by (auto simp: deliverOutbox_def getAdminsCfgSyncOutboxState_def rowAt_def split: if_splits)
  obtain res tx1 w1 where s: "syncServerAdminsCfgLocked (dl_sync env) server
      ((syncParameters (ob_payload r))\<lparr>so_mode := Some ActiveMode, so_requestReload := False\<rparr>) w = (res, tx1, w1)" using prod_cases3 by blast
  have q: "w_rows w1 = w_rows w" using sync_keeps_queue [OF s] by simp
  have "\<exists>code u. w_rows u = w_rows w \<and> retryLater env i code u = (Some Retry, tx, w')"
    using assms(1) afterSync_retry [of env server i w1 tx w'] q unfolding deliver_unfold [OF g(1) assms(2,3) g(2) s]
    by (cases res) (auto split: if_splits)
  then show ?thesis using retry_row assms(2-4) by (metis rowAt_def)
qed

text \<open>A row that a delivery applied: the work completed and was committed.\<close>

lemma applied_by_work:
  assumes "en_event e = SyncEvent p (Ref i)" "rowAt w i = Some r" "ob_appliedAt r = None" "distinct (rowIds w)"
    and a: "rowAt (snd (handleAdminsCfgSyncEntry env e w)) i = Some r'" "ob_appliedAt r' \<noteq> None"
  obtains w' where "deliverOutbox env (en_serverId e) i w = (Some Completed, True, w')" "rowAt w' i = Some r'"
    "w_files (snd (handleAdminsCfgSyncEntry env e w)) = w_files w'" "w_reloads (snd (handleAdminsCfgSyncEntry env e w)) = w_reloads w'"
proof -
  obtain res tx w' where d: "deliverOutbox env (en_serverId e) i w = (res, tx, w')" using prod_cases3 by blast
  have ok: "res \<noteq> None \<longrightarrow> tx" "res \<noteq> Some Threw" using deliverOutbox_ok [OF assms(4), of "en_serverId e" i env] d by (simp_all add: workOk_def)
  have old: "rowAt (u\<lparr>w_rows := w_rows w, w_audit := x\<rparr>) i = Some r" for u x using assms(2) by (simp add: rowAt_def)
  have ack: "rowAt (snd (acknowledge env e u)) i = rowAt u i" "w_files (snd (acknowledge env e u)) = w_files u"
    "w_reloads (snd (acknowledge env e u)) = w_reloads u" for u
    by (simp_all add: acknowledge_def acknowledgeAndDeleteAdminsCfgEntry_def rowAt_def)
  note h = handleAdminsCfgSyncEntry_def withAdminsCfgServerLock_def assms(1) d
  have "res = Some Completed \<and> dl_commit env"
  proof (rule ccontr)
    assume n: "\<not> ?thesis"
    have "rowAt (snd (handleAdminsCfgSyncEntry env e w)) i = Some r \<or> deliverOutbox env (en_serverId e) i w = (Some Retry, tx, w') \<and> rowAt w' i = Some r'"
      using n ok a(1) old by (cases res) (auto simp: h split: delivery_outcome.splits if_splits)
    then show False using a assms(3) deliver_retry [OF _ assms(2,3)] by auto
  qed
  then show thesis using that [of w'] d ok a(1) ack by (simp add: h)
qed

lemma complete_good:
  assumes "dl_mark env" "outcome \<in> set APPLIED_OUTCOMES" "rowAt w i = Some r" "ob_appliedAt r = None"
  obtains w' where "complete env i outcome w = (Some Completed, True, w')"
    "rowAt w' i = Some (r\<lparr>ob_appliedAt := Some (dl_now env), ob_reloadOutcome := Some outcome, ob_lastError := None\<rparr>)" "w_streams w' = w_streams w"
  using assms that by (simp add: complete_def markAdminsCfgSyncApplied_def rowAt_def find_row_update_if)

definition goodOutcome :: "server_state \<Rightarrow> string" where
  "goodOutcome st = (if isLive (Some st) then ''confirmed'' else ''file_ready_for_restart'')"

lemma afterSync_good:
  assumes "deliveryGood env server i st" "rowAt w i = Some r" "ob_appliedAt r = None"
  obtains w' where "afterSync env server i w = (Some Completed, True, w')" "w_streams w' = w_streams w"
    "rowAt w' i = Some (r\<lparr>ob_appliedAt := Some (dl_now env), ob_reloadOutcome := Some (goodOutcome st), ob_lastError := None\<rparr>)"
proof -
  have g: "dl_mark env" "\<And>n. dl_state env n = Some (Some st)" "\<not> isRemoved (Some st)" using assms(1) by (auto simp: deliveryGood_def isRemoved_def)
  define u where "u = (if isLive (Some st) then snd (confirmAdminsCfgReload (dl_reload env 0) server i w) else w)"
  have "afterSync env server i w = complete env i (goodOutcome st) u"
    using assms(1) g by (auto simp: afterSync_def settleDelivery_def finishDelivery_def u_def goodOutcome_def deliveryGood_def
        confirmAdminsCfgReload_def Let_def)
  moreover have "rowAt u i = Some r" "w_streams u = w_streams w" using assms(2) by (auto simp: u_def confirmAdminsCfgReload_def rowAt_def Let_def)
  moreover have "goodOutcome st \<in> set APPLIED_OUTCOMES" by (simp add: goodOutcome_def APPLIED_OUTCOMES_def)
  ultimately show thesis by (metis complete_good [OF g(1)] assms(3) that)
qed

lemma good_delivery_applies:
  assumes "en_event e = SyncEvent p (Ref i)" "rowAt w i = Some r" "ob_appliedAt r = None" "ob_serverId r = en_serverId e"
    and good: "deliveryGood env (en_serverId e) i st"
  obtains w' where "handleAdminsCfgSyncEntry env e w = (Completed, w')" "e \<notin> set (w_streams w')"
    "rowAt w' i = Some (r\<lparr>ob_appliedAt := Some (dl_now env), ob_reloadOutcome := Some (goodOutcome st), ob_lastError := None\<rparr>)"
proof -
  obtain res tx w1 where s: "syncServerAdminsCfgLocked (dl_sync env) (en_serverId e)
      ((syncParameters (ob_payload r))\<lparr>so_mode := Some ActiveMode, so_requestReload := False\<rparr>) w = (res, tx, w1)" using prod_cases3 by blast
  have g: "dl_getOutbox env" "dl_commit env" "dl_ack env" "syncGood (dl_sync env)" using good by (simp_all add: deliveryGood_def)
  have row: "rowAt w1 i = Some r" using sync_keeps_queue [OF s] assms(2) by (simp add: rowAt_def)
  obtain u where u: "afterSync env (en_serverId e) i w1 = (Some Completed, True, u)"
      "rowAt u i = Some (r\<lparr>ob_appliedAt := Some (dl_now env), ob_reloadOutcome := Some (goodOutcome st), ob_lastError := None\<rparr>)"
    by (rule afterSync_good [OF good row assms(3)])
  have "deliverOutbox env (en_serverId e) i w = (Some Completed, True, u)"
    using sync_good [OF g(4) s] u(1) by (auto simp: deliver_unfold [OF g(1) assms(2-4) s])
  then have "handleAdminsCfgSyncEntry env e w = (Completed, acknowledgeAndDeleteAdminsCfgEntry e u)"
    using g assms(1) by (simp add: handleAdminsCfgSyncEntry_def withAdminsCfgServerLock_def acknowledge_def)
  then show thesis using that u(2) by (simp add: acknowledgeAndDeleteAdminsCfgEntry_def rowAt_def)
qed

text \<open>A write whose audit entry fails: the file is new, the transaction is lost.\<close>

lemma write_without_audit:
  assumes "\<forall>st. sn_setStatus env st" "sn_write env" "\<not> sn_audit env" "\<not> so_requestReload opts"
  obtains r w' where "writeSync env server opts g c new w = (Some r, False, w')" "w_files w' = map_put server new (w_files w)" "w_streams w' = w_streams w"
proof -
  let ?st = "statusOf StInSync (Some (sn_now env)) (Some (hashSegment env (seg_body g))) (Some (hashSegment env (seg_body g)))
    (Some (seg_groups g, seg_admins g))"
  obtain w1 where w1: "publishStatus env server ?st (w\<lparr>w_files := map_put server new (w_files w)\<rparr>) = Some w1"
    using publishStatus_good [OF assms(1)] by blast
  show thesis using that assms w1 publishStatus_view [OF w1] by (simp add: writeSync_def safeAppendAudit_def Let_def)
qed

section \<open>Properties\<close>

text \<open>
  C18: No sync request is lost.  Starting with empty tables, after any sequence of enqueues, relay runs with
  arbitrary failures, deliveries in any order with arbitrary failures (also lost acknowledgements and
  rollbacks) and server deletions, every outbox row is still to be relayed, or applied, or its reference
  is in its server's stream; row ids and stream ids stay unique.
\<close>

theorem sync_never_lost:
  assumes "sync_step\<^sup>*\<^sup>* w0 w" "w_rows w0 = []" "w_streams w0 = []"
  shows "queueOk w"
  using assms(1)
proof (induction rule: rtranclp_induct)
  case base
  then show ?case using assms(2,3) by (simp add: queueOk_def rowIds_def)
next
  case (step w w')
  then show ?case using step_queueOk by blast
qed

theorem sync_never_lost_witness:
  "queueOk (snd (relayAdminsCfgSyncOutbox demoRelayEnv None (enqueueAdminsCfgSyncForServer 1 (Payload None None True) ''a'' ''1'' demoSyncWorld)))"
proof (rule sync_never_lost)
  show "sync_step\<^sup>*\<^sup>* demoSyncWorld (snd (relayAdminsCfgSyncOutbox demoRelayEnv None
      (enqueueAdminsCfgSyncForServer 1 (Payload None None True) ''a'' ''1'' demoSyncWorld)))"
    by (rule rtranclp_trans [OF r_into_rtranclp r_into_rtranclp], rule sync_step.enqueue, simp add: demoSyncWorld_def rowIds_def, rule sync_step.relay)
qed (simp_all add: demoSyncWorld_def)

text \<open>
  A redelivered request is inert.  Once its row is applied, handling any stream entry that refers to it
  changes no file, sends no reload, writes no audit row and leaves every outbox row as it is; at most the
  entry is removed.
\<close>

lemma redelivery_inert:
  assumes "en_event e = SyncEvent p (Ref i)" "getAdminsCfgSyncOutboxState i w = Some r" "ob_appliedAt r \<noteq> None"
  shows "snd (handleAdminsCfgSyncEntry env e w) = w \<or>
    snd (handleAdminsCfgSyncEntry env e w) = acknowledgeAndDeleteAdminsCfgEntry e w"
proof -
  have "deliverOutbox env (en_serverId e) i w = (None, False, w) \<or> deliverOutbox env (en_serverId e) i w = (Some Completed, True, w)"
    using assms(2,3) by (auto simp: deliverOutbox_def)
  then show ?thesis
    using assms(1) by (auto simp: handleAdminsCfgSyncEntry_def withAdminsCfgServerLock_def acknowledge_def)
qed

definition demoApplied :: world where
  "demoApplied = demoSyncWorld\<lparr>w_rows := [(demoRow ''1'' ''a'' (Payload None None False) 1)\<lparr>ob_relayedAt := Some 2, ob_appliedAt := Some 3\<rparr>]\<rparr>"

definition demoEntry :: stream_entry where
  "demoEntry = \<lparr>en_serverId = ''a'', en_streamId = 0, en_event = SyncEvent (Payload None None False) (Ref ''1'')\<rparr>"

definition demoDelivery :: "bool \<Rightarrow> delivery_env" where
  "demoDelivery audit = \<lparr>dl_now = 5, dl_sync = (demoSyncEnv 5 True)\<lparr>sn_audit := audit\<rparr>, dl_getOutbox = True, dl_state = (\<lambda>_. Some (Some \<lparr>st_status = ''running'', st_deleted = False\<rparr>)),
     dl_reload = (\<lambda>_. \<lparr>re_attemptId = ''x'', re_xadd = True, re_start = 0,
       re_polls = [(1, PollResult ''a'' ''admins-cfg-sync:1:x'' ''AdminReloadServerConfig'' True, 2)]\<rparr>),
     dl_mark = True, dl_commit = True, dl_ack = True\<rparr>"

lemma redelivery_inert_example:
  "snd (handleAdminsCfgSyncEntry (demoDelivery True) demoEntry demoApplied) = demoApplied \<or>
   snd (handleAdminsCfgSyncEntry (demoDelivery True) demoEntry demoApplied) = acknowledgeAndDeleteAdminsCfgEntry demoEntry demoApplied"
  using redelivery_inert [of demoEntry "Payload None None False" "''1''" demoApplied
      "(demoRow ''1'' ''a'' (Payload None None False) 1)\<lparr>ob_relayedAt := Some 2, ob_appliedAt := Some 3\<rparr>" "demoDelivery True"]
  by (simp add: demoEntry_def demoApplied_def demoRow_def newOutboxRow_def getAdminsCfgSyncOutboxState_def)


definition demoPending :: world where
  "demoPending = demoSyncWorld\<lparr>w_rows := [(demoRow ''1'' ''a'' (Payload None None False) 1)\<lparr>ob_relayedAt := Some 2\<rparr>], w_streams := [demoEntry]\<rparr>"

lemma demoDelivery_good: "deliveryGood (demoDelivery True) ''a'' ''1'' \<lparr>st_status = ''running'', st_deleted = False\<rparr>"
  by (simp add: deliveryGood_def demoDelivery_def demoSyncEnv_def syncGood_def reloadRequestId_def RELOAD_TIMEOUT_MS_def readResult_def)

lemma demoPending_row:
  "rowAt demoPending ''1'' = Some ((demoRow ''1'' ''a'' (Payload None None False) 1)\<lparr>ob_relayedAt := Some 2\<rparr>)" "distinct (rowIds demoPending)"
  by (simp_all add: demoPending_def demoRow_def newOutboxRow_def rowAt_def rowIds_def)


text \<open>
  A request whose delivery meets no fault is applied: for an unapplied row and an entry that refers to it,
  when every call answers and the server's state stays what it is, handling the entry completes, marks the
  row applied (confirmed by a reload for a live server, ready for restart otherwise) and removes the entry.
\<close>

lemma delivery_completes:
  assumes "en_event e = SyncEvent p (Ref i)" "rowAt w i = Some r" "ob_appliedAt r = None" "ob_serverId r = en_serverId e"
    and "deliveryGood env (en_serverId e) i st"
  shows "\<exists>w' r'. handleAdminsCfgSyncEntry env e w = (Completed, w') \<and> e \<notin> set (w_streams w') \<and> rowAt w' i = Some r' \<and>
    ob_appliedAt r' = Some (dl_now env) \<and> ob_reloadOutcome r' = Some (if isLive (Some st) then ''confirmed'' else ''file_ready_for_restart'')"
proof -
  obtain w' where "handleAdminsCfgSyncEntry env e w = (Completed, w')" "e \<notin> set (w_streams w')"
    "rowAt w' i = Some (r\<lparr>ob_appliedAt := Some (dl_now env), ob_reloadOutcome := Some (goodOutcome st), ob_lastError := None\<rparr>)"
    by (rule good_delivery_applies [OF assms])
  then show ?thesis by (simp add: goodOutcome_def)
qed

lemma delivery_completes_example:
  "fst (handleAdminsCfgSyncEntry (demoDelivery True) demoEntry demoPending) = Completed"
  using delivery_completes [of demoEntry "Payload None None False" "''1''" demoPending _ "demoDelivery True" "\<lparr>st_status = ''running'', st_deleted = False\<rparr>"]
    demoPending_row demoDelivery_good by (auto simp: demoEntry_def demoRow_def newOutboxRow_def)

text \<open>
  C37: A failing audit insert is fatal for a delivery, although the code logs it as non-fatal.  It aborts the
  surrounding transaction, so when the file has to be rewritten and everything but the audit insert works,
  the file is rewritten, but handling the entry throws, the row stays unapplied and the entry stays in the
  stream.
\<close>

theorem audit_failure_blocks_delivery:
  assumes "en_event e = SyncEvent p (Ref i)" "rowAt w i = Some r" "ob_appliedAt r = None" "ob_serverId r = en_serverId e" "dl_getOutbox env"
    and sync: "\<forall>st. sn_setStatus (dl_sync env) st" "sn_read (dl_sync env)" "sn_write (dl_sync env)" "\<not> sn_audit (dl_sync env)"
    and snap: "sn_snapshot (dl_sync env) = Some snapshot" "body = seg_body (buildManagedSegmentBody (sn_localeCompare (dl_sync env)) snapshot)"
    and drift: "map_option (sn_hash (dl_sync env)) (managedOf w (en_serverId e)) \<noteq> Some (sn_hash (dl_sync env) body)"
    and h: "handleAdminsCfgSyncEntry env e w = (outcome, w')"
  shows "outcome = Threw \<and> w_rows w' = w_rows w \<and> w_streams w' = w_streams w \<and>
    fileOf w' (en_serverId e) = spliceManagedSegment (fileOf w (en_serverId e)) body"
proof -
  let ?opts = "(syncParameters (ob_payload r))\<lparr>so_mode := Some ActiveMode, so_requestReload := False\<rparr>"
  obtain w1 where w1: "publishStatus (dl_sync env) (en_serverId e) (statusOf StSyncing None None None None) w = Some w1"
    using publishStatus_good [OF sync(1)] by blast
  have f: "fileOf w1 (en_serverId e) = fileOf w (en_serverId e)" "w_files w1 = w_files w" "w_streams w1 = w_streams w"
    using publishStatus_view [OF w1] by (simp_all add: fileOf_def)
  let ?cur = "map_option (\<lambda>l. hashSegment (dl_sync env) (loc_segment l)) (findManagedSegment (fileOf w (en_serverId e)))"
  have d: "?cur \<noteq> Some (hashSegment (dl_sync env) body)" using drift by (simp add: managedOf_def hashSegment_def option.map_comp comp_def)
  obtain res u where u: "writeSync (dl_sync env) (en_serverId e) ?opts (buildManagedSegmentBody (sn_localeCompare (dl_sync env)) snapshot) ?cur
      (spliceManagedSegment (fileOf w (en_serverId e)) body) w1 = (Some res, False, u)"
      "w_files u = map_put (en_serverId e) (spliceManagedSegment (fileOf w (en_serverId e)) body) (w_files w1)" "w_streams u = w_streams w1"
    by (rule write_without_audit [OF sync(1,3,4)]) auto
  have "syncServerAdminsCfgLocked (dl_sync env) (en_serverId e) ?opts w = (Some res, False, u)"
    using u(1) d snap w1 f sync(2) by (auto simp: syncServerAdminsCfgLocked_def needsWrite_def Let_def)
  from deliver_unfold [OF assms(5,2,3,4) this] have "deliverOutbox env (en_serverId e) i w = (None, False, u)" by simp
  then show ?thesis
    using h assms(1) u(2,3) f by (auto simp: handleAdminsCfgSyncEntry_def withAdminsCfgServerLock_def fileOf_def orElse_def)
qed

theorem audit_failure_blocks_delivery_witness:
  "fst (handleAdminsCfgSyncEntry (demoDelivery False) demoEntry demoPending) = Threw"
proof -
  obtain outcome w' where h: "handleAdminsCfgSyncEntry (demoDelivery False) demoEntry demoPending = (outcome, w')" by fastforce
  have "managedOf demoPending ''a'' = None" by code_simp
  then show ?thesis
    using audit_failure_blocks_delivery [OF _ demoPending_row(1) _ _ _ _ _ _ _ _ refl _ h] h
    by (simp add: demoEntry_def demoRow_def newOutboxRow_def demoDelivery_def demoSyncEnv_def)
qed

end
