(* ===== verification/Economy.thy ===== *)
theory Economy
  imports Complex_Main Role_Guards Strings
begin

text \<open>
  The bonus economy: the ledger \<^verbatim>\<open>bonus_transactions\<close> with the balance column of \<^verbatim>\<open>players\<close>, the VIP grant of
  \<^verbatim>\<open>packages/db/src/economy/vip-grant.ts\<close>, and the routes that spend or adjust bonuses
  (\<^verbatim>\<open>apps/api/src/routes/economy.ts\<close>, \<^verbatim>\<open>routes/vip-subscriptions.ts\<close>).  The state extends the role tables
  (\<^typ>\<open>world\<close>) by the tables of the economy.  Column types and constraints are part of the writes: an
  \<^verbatim>\<open>integer\<close> out of range, a zero amount, a negative balance, an unknown player or role, or a duplicate key of
  the ledger's unique index makes the statement fail and its transaction roll back.  The routes read the
  settings and the tier before their transaction starts; \<open>e0\<close> is the state they read, \<open>e\<close> the one the
  transaction finds.
\<close>

section \<open>State\<close>

datatype tx_type = EarnOnline | EarnBoost | EarnSeed | Spend | Adjust

record bonus_tx =
  bt_player :: string
  bt_amount :: int
  bt_type :: tx_type
  bt_refType :: "string option"
  bt_refId :: "string option"
  bt_comment :: "string option"
  bt_actor :: "string option"
  bt_createdAt :: int

record tier_row =
  tr_id :: string
  tr_name :: string
  tr_role :: string
  tr_days :: "int option"
  tr_price :: "int option"
  tr_active :: bool

datatype sub_status = SubActive | SubCancelled | SubExpired

record sub_row =
  sb_id :: string
  sb_player :: string
  sb_tier :: string
  sb_status :: sub_status
  sb_days :: int
  sb_price :: int
  sb_next :: int
  sb_cancelledAt :: "int option"

record presence_row =
  pr_player :: string
  pr_server :: string
  pr_day :: string
  pr_online :: int
  pr_boost :: int
  pr_seed :: int

record econ_settings =
  es_kOnline :: rat
  es_kBoost :: rat
  es_kSeed :: rat
  es_seedThreshold :: int
  es_enabled :: bool
  es_rewardRole :: "string option"
  es_rewardHours :: rat

record system_audit =
  au_action :: string
  au_target :: string
  au_ref :: "string option"

record econ =
  ec_world :: world
  ec_balance :: "(string \<times> int) list"
  ec_ledger :: "bonus_tx list"
  ec_tiers :: "tier_row list"
  ec_subs :: "sub_row list"
  ec_presence :: "presence_row list"
  ec_settings :: "econ_settings option"
  ec_audit :: "system_audit list"
  ec_alerts :: "(string \<times> string) list"

datatype db_error = UniqueViolation | OtherError

type_synonym 'a tx = "db_error + ('a \<times> econ)"

section \<open>Columns and constraints\<close>

definition INT4_MAX :: int where "INT4_MAX = 2147483647"
definition DAY_MS :: int where "DAY_MS = 86400000"

definition int4 :: "int \<Rightarrow> bool" where
  "int4 v \<longleftrightarrow> - INT4_MAX - 1 \<le> v \<and> v \<le> INT4_MAX"

definition balanceOf :: "econ \<Rightarrow> string \<Rightarrow> int" where
  "balanceOf e pid = orElse (map_of (ec_balance e) pid) 0"

text \<open>\<^verbatim>\<open>bonus_transactions_accrual_idempotency_idx\<close>: equal keys without a null column.\<close>

definition sameKey :: "bonus_tx \<Rightarrow> bonus_tx \<Rightarrow> bool" where
  "sameKey r s \<longleftrightarrow> bt_player r = bt_player s \<and> bt_type r = bt_type s
     \<and> bt_refType r \<noteq> None \<and> bt_refType r = bt_refType s
     \<and> bt_refId r \<noteq> None \<and> bt_refId r = bt_refId s \<and> bt_createdAt r = bt_createdAt s"

definition insertTx :: "bonus_tx \<Rightarrow> econ \<Rightarrow> db_error + econ" where
  "insertTx r e =
     (if bt_amount r = 0 \<or> \<not> int4 (bt_amount r) \<or> findPlayer (ec_world e) (bt_player r) = None then Inl OtherError
      else if list_ex (sameKey r) (ec_ledger e) then Inl UniqueViolation
      else Inr (e\<lparr>ec_ledger := ec_ledger e @ [r]\<rparr>))"

definition setBalance :: "string \<Rightarrow> int \<Rightarrow> econ \<Rightarrow> db_error + econ" where
  "setBalance pid v e =
     (if v < 0 \<or> \<not> int4 v then Inl OtherError
      else Inr (e\<lparr>ec_balance := map_put pid v (ec_balance e)\<rparr>))"

definition setPlayerRole :: "string \<Rightarrow> string \<Rightarrow> int \<Rightarrow> econ \<Rightarrow> db_error + econ" where
  "setPlayerRole pid rid expires e =
     (if findRole (ec_world e) rid = None then Inl OtherError
      else case updatePlayers (\<lambda>p. pl_id p = pid) (\<lambda>p. p\<lparr>pl_role := Some rid, pl_expires := Some expires\<rparr>) (ec_world e) of
        None \<Rightarrow> Inl OtherError
      | Some w \<Rightarrow> Inr (e\<lparr>ec_world := w\<rparr>))"

definition syncAllServers :: "string \<Rightarrow> string option \<Rightarrow> econ \<Rightarrow> econ" where
  "syncAllServers reason actor e = e\<lparr>ec_world := publishAdminsCfgSyncForAllServers reason actor (ec_world e)\<rparr>"

definition dropCached :: "string \<Rightarrow> econ \<Rightarrow> econ" where
  "dropCached pid e = e\<lparr>ec_world := (ec_world e)\<lparr>w_cache := invalidatePermissionCache pid (w_cache (ec_world e))\<rparr>\<rparr>"

section \<open>The VIP grant\<close>

record vip_tier =
  vt_role :: string
  vt_days :: int
  vt_price :: int

datatype vip_plan =
    PlanOk int int string int
  | PlanInsufficient int
  | PlanConflict
  | PlanPermanent

text \<open>\<open>PlanOk price nextBalance roleId roleExpiresAt\<close>.\<close>

definition planVipGrant :: "int \<Rightarrow> string option \<Rightarrow> int option \<Rightarrow> vip_tier \<Rightarrow> int \<Rightarrow> vip_plan" where
  "planVipGrant balance role roleExpiresAt tier now =
     (let nextBalance = balance - vt_price tier; sameRole = (role = Some (vt_role tier))
      in if nextBalance < 0 then PlanInsufficient balance
         else if role \<noteq> None \<and> \<not> sameRole then PlanConflict
         else if sameRole \<and> roleExpiresAt = None then PlanPermanent
         else let base = (case roleExpiresAt of
                  Some x \<Rightarrow> if sameRole \<and> x > now then x else now
                | None \<Rightarrow> now)
           in PlanOk (vt_price tier) nextBalance (vt_role tier) (base + vt_days tier * DAY_MS))"

definition VIP_RENEWAL_LEAD_MS :: int where "VIP_RENEWAL_LEAD_MS = 6 * 60 * 60 * 1000"

definition nextRenewalAfter :: "int \<Rightarrow> int \<Rightarrow> int" where
  "nextRenewalAfter dueAt days = dueAt + days * DAY_MS"

record grant_input =
  gi_player :: string
  gi_tier :: vip_tier
  gi_actor :: "string option"
  gi_refType :: string
  gi_refId :: string

datatype grant_result =
    GrantOk int string int
  | PlayerNotFound
  | InsufficientBalance int
  | RoleConflict
  | RolePermanent

definition spendTx :: "int \<Rightarrow> grant_input \<Rightarrow> int \<Rightarrow> bonus_tx" where
  "spendTx txTime i price =
     \<lparr>bt_player = gi_player i, bt_amount = - price, bt_type = Spend, bt_refType = Some (gi_refType i),
      bt_refId = Some (gi_refId i), bt_comment = None, bt_actor = gi_actor i, bt_createdAt = txTime\<rparr>"

definition applyVipGrant :: "int \<Rightarrow> int \<Rightarrow> grant_input \<Rightarrow> econ \<Rightarrow> grant_result tx" where
  "applyVipGrant now txTime i e =
     (case findPlayer (ec_world e) (gi_player i) of
        None \<Rightarrow> Inr (PlayerNotFound, e)
      | Some current \<Rightarrow>
          (case planVipGrant (balanceOf e (gi_player i)) (pl_role current) (pl_expires current) (gi_tier i) now of
             PlanInsufficient b \<Rightarrow> Inr (InsufficientBalance b, e)
           | PlanConflict \<Rightarrow> Inr (RoleConflict, e)
           | PlanPermanent \<Rightarrow> Inr (RolePermanent, e)
           | PlanOk price nextBalance role expires \<Rightarrow>
               (case (if price \<noteq> 0 then insertTx (spendTx txTime i price) e else Inr e) of
                  Inl err \<Rightarrow> Inl err
                | Inr e1 \<Rightarrow>
                    (case setBalance (gi_player i) nextBalance e1 of
                       Inl err \<Rightarrow> Inl err
                     | Inr e2 \<Rightarrow>
                         (case setPlayerRole (gi_player i) role expires e2 of
                            Inl err \<Rightarrow> Inl err
                          | Inr e3 \<Rightarrow> Inr (GrantOk nextBalance role expires, e3))))))"

section \<open>Routes\<close>

datatype econ_reply = EcFailed nat string | EcDone nat int | EcThrew

record econ_env =
  ee_now :: int
  ee_txTime :: int
  ee_fresh :: string
  ee_audit :: bool

text \<open>
  \<open>ee_fresh\<close> is the UUID the request generates, \<open>ee_txTime\<close> the database's \<^verbatim>\<open>now()\<close> in the transaction, and
  \<open>ee_audit\<close> says whether the audit insert of an adjustment succeeds.
\<close>

definition manageGuard :: "role_actor option \<Rightarrow> econ_reply option" where
  "manageGuard actor =
     (case actor of
        None \<Rightarrow> Some (EcFailed 401 ''unauthenticated'')
      | Some a \<Rightarrow> if \<not> canManageEconomy (actor_ctx a) then Some (EcFailed 403 ''forbidden'') else None)"

definition purchaseGuard :: "role_actor option \<Rightarrow> econ_reply option" where
  "purchaseGuard actor =
     (case actor of
        None \<Rightarrow> Some (EcFailed 401 ''unauthenticated'')
      | Some a \<Rightarrow>
          if \<not> canManageEconomy (actor_ctx a) then Some (EcFailed 403 ''forbidden'')
          else if \<not> canAssignRoles (actor_ctx a) then Some (EcFailed 403 ''forbidden'')
          else None)"

definition economyEnabled :: "econ \<Rightarrow> bool" where
  "economyEnabled e = (case ec_settings e of Some s \<Rightarrow> es_enabled s | None \<Rightarrow> False)"

definition adjustBody :: "int \<Rightarrow> string \<Rightarrow> bool" where
  "adjustBody amount comment \<longleftrightarrow> - INT4_MAX \<le> amount \<and> amount \<le> INT4_MAX \<and> amount \<noteq> 0
     \<and> 1 \<le> length (trim comment) \<and> length (trim comment) \<le> 512"

definition adjustTx :: "econ_env \<Rightarrow> role_actor \<Rightarrow> string \<Rightarrow> int \<Rightarrow> string \<Rightarrow> bonus_tx" where
  "adjustTx env a pid amount comment =
     \<lparr>bt_player = pid, bt_amount = amount, bt_type = Adjust, bt_refType = None, bt_refId = None,
      bt_comment = Some (trim comment), bt_actor = Some (actor_id a), bt_createdAt = ee_txTime env\<rparr>"

definition adjustBonus ::
  "econ_env \<Rightarrow> role_actor option \<Rightarrow> string \<Rightarrow> int \<Rightarrow> string \<Rightarrow> econ \<Rightarrow> econ_reply \<times> econ" where
  "adjustBonus env actor pid amount comment e =
     (if \<not> adjustBody amount comment then (EcFailed 400 ''validation'', e)
      else case manageGuard actor of
        Some denied \<Rightarrow> (denied, e)
      | None \<Rightarrow>
          (case actor of
             None \<Rightarrow> (EcFailed 401 ''unauthenticated'', e)
           | Some a \<Rightarrow>
               (case findPlayer (ec_world e) pid of
                  None \<Rightarrow> (EcFailed 404 ''player_not_found'', e)
                | Some _ \<Rightarrow>
                    (let nextBalance = balanceOf e pid + amount
                     in if nextBalance < 0 then (EcFailed 409 ''insufficient_balance'', e)
                        else case insertTx (adjustTx env a pid amount comment) e of
                          Inl _ \<Rightarrow> (EcThrew, e)
                        | Inr e1 \<Rightarrow>
                            (case setBalance pid nextBalance e1 of
                               Inl _ \<Rightarrow> (EcThrew, e)
                             | Inr e2 \<Rightarrow>
                                 if \<not> ee_audit env then (EcThrew, e)
                                 else (EcDone 201 nextBalance,
                                   e2\<lparr>ec_audit := ec_audit e2 @ [\<lparr>au_action = ''player.bonus.adjust'', au_target = pid, au_ref = None\<rparr>]\<rparr>))))))"

section \<open>Tiers\<close>

datatype resolved_tier = Resolved vip_tier | TierProblem nat string

definition findTier :: "econ \<Rightarrow> string \<Rightarrow> (tier_row \<times> role_row) option" where
  "findTier e tierId =
     (case find_row (\<lambda>t. tr_id t = tierId) (ec_tiers e) of
        None \<Rightarrow> None
      | Some t \<Rightarrow> map_option (Pair t) (findRole (ec_world e) (tr_role t)))"

definition resolveTier :: "econ \<Rightarrow> string \<Rightarrow> resolved_tier" where
  "resolveTier e tierId =
     (case findTier e tierId of
        None \<Rightarrow> TierProblem 404 ''tier_not_found''
      | Some (t, role) \<Rightarrow>
          (case (tr_active t, tr_price t, tr_days t) of
             (True, Some price, Some days) \<Rightarrow>
               if panel_access role \<or> is_system_role role then TierProblem 403 ''role_grants_panel_access''
               else Resolved \<lparr>vt_role = tr_role t, vt_days = days, vt_price = price\<rparr>
           | _ \<Rightarrow> TierProblem 409 ''tier_not_purchasable''))"

text \<open>The checks the privilege shop makes inline, in its own order.\<close>

definition shopTier :: "econ \<Rightarrow> string \<Rightarrow> resolved_tier" where
  "shopTier e tierId =
     (case findTier e tierId of
        None \<Rightarrow> TierProblem 404 ''tier_not_found''
      | Some (t, role) \<Rightarrow>
          if \<not> tr_active t then TierProblem 409 ''tier_not_purchasable''
          else (case (tr_price t, tr_days t) of
             (Some price, Some days) \<Rightarrow>
               if panel_access role \<or> is_system_role role then TierProblem 403 ''role_grants_panel_access''
               else Resolved \<lparr>vt_role = tr_role t, vt_days = days, vt_price = price\<rparr>
           | _ \<Rightarrow> TierProblem 409 ''tier_not_purchasable''))"

fun replyGrantProblem :: "grant_result \<Rightarrow> econ_reply" where
  "replyGrantProblem PlayerNotFound = EcFailed 404 ''player_not_found''"
| "replyGrantProblem (InsufficientBalance b) = EcFailed 409 ''insufficient_balance''"
| "replyGrantProblem RoleConflict = EcFailed 409 ''role_conflict''"
| "replyGrantProblem RolePermanent = EcFailed 409 ''role_permanent''"
| "replyGrantProblem (GrantOk b r x) = EcFailed 409 ''ok''"

section \<open>Purchases and subscriptions\<close>

definition purchase :: "econ_env \<Rightarrow> string \<Rightarrow> string \<Rightarrow> string \<Rightarrow> vip_tier \<Rightarrow> econ \<Rightarrow> econ_reply \<times> econ" where
  "purchase env actor pid tierId tier e =
     (case applyVipGrant (ee_now env) (ee_txTime env)
             \<lparr>gi_player = pid, gi_tier = tier, gi_actor = Some actor, gi_refType = ''purchase'', gi_refId = tierId\<rparr> e of
        Inl _ \<Rightarrow> (EcThrew, e)
      | Inr (GrantOk b r x, e1) \<Rightarrow>
          (EcDone 201 b, dropCached pid (syncAllServers ''player.role.assign'' (Some actor) e1))
      | Inr (problem, _) \<Rightarrow> (replyGrantProblem problem, e))"

text \<open>\<^verbatim>\<open>POST /players/:playerId/bonus-purchases\<close> and \<^verbatim>\<open>POST /me/purchases\<close>.\<close>

definition bonusPurchase ::
  "econ_env \<Rightarrow> role_actor option \<Rightarrow> string \<Rightarrow> string \<Rightarrow> econ \<Rightarrow> econ \<Rightarrow> econ_reply \<times> econ" where
  "bonusPurchase env actor pid tierId e0 e =
     (case (purchaseGuard actor, actor) of
        (Some denied, _) \<Rightarrow> (denied, e)
      | (None, None) \<Rightarrow> (EcFailed 401 ''unauthenticated'', e)
      | (None, Some a) \<Rightarrow>
          if \<not> economyEnabled e0 then (EcFailed 409 ''economy_disabled'', e)
          else (case shopTier e0 tierId of
                  TierProblem code err \<Rightarrow> (EcFailed code err, e)
                | Resolved tier \<Rightarrow> purchase env (actor_id a) pid tierId tier e))"

definition mePurchase :: "econ_env \<Rightarrow> role_actor option \<Rightarrow> string \<Rightarrow> econ \<Rightarrow> econ \<Rightarrow> econ_reply \<times> econ" where
  "mePurchase env actor tierId e0 e =
     (case actor of
        None \<Rightarrow> (EcFailed 401 ''unauthenticated'', e)
      | Some a \<Rightarrow>
          if \<not> economyEnabled e0 then (EcFailed 409 ''economy_disabled'', e)
          else (case resolveTier e0 tierId of
                  TierProblem code err \<Rightarrow> (EcFailed code err, e)
                | Resolved tier \<Rightarrow> purchase env (actor_id a) (actor_id a) tierId tier e))"

definition hasActiveSub :: "string \<Rightarrow> econ \<Rightarrow> bool" where
  "hasActiveSub pid e \<longleftrightarrow> find_row (\<lambda>s. sb_player s = pid \<and> sb_status s = SubActive) (ec_subs e) \<noteq> None"

text \<open>The insert with the checks and the partial unique index of \<^verbatim>\<open>vip_subscriptions\<close>.\<close>

definition insertSub :: "sub_row \<Rightarrow> econ \<Rightarrow> db_error + econ" where
  "insertSub s e =
     (if \<not> 0 < sb_days s \<or> sb_price s < 0 \<or> \<not> int4 (sb_days s) \<or> \<not> int4 (sb_price s)
         \<or> find_row (\<lambda>t. tr_id t = sb_tier s) (ec_tiers e) = None then Inl OtherError
      else if find_row (\<lambda>r. sb_id r = sb_id s) (ec_subs e) \<noteq> None \<or> hasActiveSub (sb_player s) e then Inl UniqueViolation
      else Inr (e\<lparr>ec_subs := ec_subs e @ [s]\<rparr>))"

definition createSubscription ::
  "econ_env \<Rightarrow> string \<Rightarrow> string \<Rightarrow> string \<Rightarrow> vip_tier \<Rightarrow> econ \<Rightarrow> econ_reply \<times> econ" where
  "createSubscription env actor pid tierId tier e =
     (if hasActiveSub pid e then (EcFailed 409 ''already_subscribed'', e)
      else case applyVipGrant (ee_now env) (ee_txTime env)
             \<lparr>gi_player = pid, gi_tier = tier, gi_actor = Some actor, gi_refType = ''vip_subscription'', gi_refId = ee_fresh env\<rparr> e of
        Inl UniqueViolation \<Rightarrow> (EcFailed 409 ''already_subscribed'', e)
      | Inl OtherError \<Rightarrow> (EcThrew, e)
      | Inr (GrantOk b r x, e1) \<Rightarrow>
          (case insertSub \<lparr>sb_id = ee_fresh env, sb_player = pid, sb_tier = tierId, sb_status = SubActive,
                  sb_days = vt_days tier, sb_price = vt_price tier, sb_next = x - VIP_RENEWAL_LEAD_MS, sb_cancelledAt = None\<rparr> e1 of
             Inl UniqueViolation \<Rightarrow> (EcFailed 409 ''already_subscribed'', e)
           | Inl OtherError \<Rightarrow> (EcThrew, e)
           | Inr e2 \<Rightarrow> (EcDone 201 b, dropCached pid (syncAllServers ''player.role.assign'' (Some actor) e2)))
      | Inr (problem, _) \<Rightarrow> (replyGrantProblem problem, e))"

definition meSubscribe :: "econ_env \<Rightarrow> role_actor option \<Rightarrow> string \<Rightarrow> econ \<Rightarrow> econ \<Rightarrow> econ_reply \<times> econ" where
  "meSubscribe env actor tierId e0 e =
     (case actor of
        None \<Rightarrow> (EcFailed 401 ''unauthenticated'', e)
      | Some a \<Rightarrow>
          if \<not> economyEnabled e0 then (EcFailed 409 ''economy_disabled'', e)
          else (case resolveTier e0 tierId of
                  TierProblem code err \<Rightarrow> (EcFailed code err, e)
                | Resolved tier \<Rightarrow> createSubscription env (actor_id a) (actor_id a) tierId tier e))"

definition grantBody :: "int option \<Rightarrow> int option \<Rightarrow> bool" where
  "grantBody days price \<longleftrightarrow> (case days of None \<Rightarrow> True | Some d \<Rightarrow> 1 \<le> d \<and> d \<le> 3650)
     \<and> (case price of None \<Rightarrow> True | Some p \<Rightarrow> 0 \<le> p \<and> p \<le> INT4_MAX)"

definition grantSubscription ::
  "econ_env \<Rightarrow> role_actor option \<Rightarrow> string \<Rightarrow> string \<Rightarrow> int option \<Rightarrow> int option \<Rightarrow> econ \<Rightarrow> econ \<Rightarrow> econ_reply \<times> econ" where
  "grantSubscription env actor pid tierId days price e0 e =
     (if \<not> grantBody days price then (EcFailed 400 ''validation'', e)
      else case (purchaseGuard actor, actor) of
        (Some denied, _) \<Rightarrow> (denied, e)
      | (None, None) \<Rightarrow> (EcFailed 401 ''unauthenticated'', e)
      | (None, Some a) \<Rightarrow>
          if \<not> economyEnabled e0 then (EcFailed 409 ''economy_disabled'', e)
          else (case resolveTier e0 tierId of
                  TierProblem code err \<Rightarrow> (EcFailed code err, e)
                | Resolved tier \<Rightarrow> createSubscription env (actor_id a) pid tierId
                    (tier\<lparr>vt_days := orElse days (vt_days tier), vt_price := orElse price (vt_price tier)\<rparr>) e))"

definition cancelSubscription :: "econ_env \<Rightarrow> role_actor option \<Rightarrow> string \<Rightarrow> econ \<Rightarrow> econ_reply \<times> econ" where
  "cancelSubscription env actor subId e =
     (case actor of
        None \<Rightarrow> (EcFailed 401 ''unauthenticated'', e)
      | Some a \<Rightarrow>
          (let mine = (\<lambda>s. sb_id s = subId \<and> sb_player s = actor_id a \<and> sb_status s = SubActive)
           in case find_row mine (ec_subs e) of
                None \<Rightarrow> (EcFailed 404 ''subscription_not_found'', e)
              | Some s \<Rightarrow> (EcDone 200 (sb_next s), e\<lparr>ec_subs := update_rows mine
                   (\<lambda>s. s\<lparr>sb_status := SubCancelled, sb_cancelledAt := Some (ee_now env)\<rparr>) (ec_subs e)\<rparr>)))"

section \<open>The ledger balances\<close>

definition ledgerSum :: "econ \<Rightarrow> string \<Rightarrow> int" where
  "ledgerSum e pid = sum_list (map bt_amount (filter (\<lambda>r. bt_player r = pid) (ec_ledger e)))"

definition ledgerOk :: "econ \<Rightarrow> bool" where
  "ledgerOk e \<longleftrightarrow> (\<forall>pid. balanceOf e pid = ledgerSum e pid \<and> 0 \<le> balanceOf e pid \<and> balanceOf e pid \<le> INT4_MAX)
     \<and> (\<forall>r \<in> set (ec_ledger e). bt_amount r \<noteq> 0 \<and> int4 (bt_amount r))"

text \<open>One transaction on the account of \<open>pid\<close>: rows whose sum is the change of the balance.\<close>

definition posts :: "string \<Rightarrow> bonus_tx list \<Rightarrow> econ \<Rightarrow> econ \<Rightarrow> bool" where
  "posts pid rows e e' \<longleftrightarrow> ec_ledger e' = ec_ledger e @ rows
     \<and> (\<forall>r \<in> set rows. bt_player r = pid \<and> bt_amount r \<noteq> 0 \<and> int4 (bt_amount r))
     \<and> ec_balance e' = map_put pid (balanceOf e pid + sum_list (map bt_amount rows)) (ec_balance e)
     \<and> 0 \<le> balanceOf e' pid \<and> balanceOf e' pid \<le> INT4_MAX"

lemma posts_balance: "posts pid rows e e' \<Longrightarrow> balanceOf e' q = balanceOf e q + (if q = pid then sum_list (map bt_amount rows) else 0)"
  by (simp add: posts_def balanceOf_def)

lemma posts_sum:
  assumes "posts pid rows e e'"
  shows "ledgerSum e' q = ledgerSum e q + (if q = pid then sum_list (map bt_amount rows) else 0)"
proof -
  have "filter (\<lambda>r. bt_player r = q) rows = (if q = pid then rows else [])"
    using assms by (auto simp: posts_def filter_id_conv filter_empty_conv)
  then show ?thesis using assms by (simp add: posts_def ledgerSum_def)
qed

lemma posts_ledgerOk:
  assumes p: "posts pid rows e e'" and ok: "ledgerOk e"
  shows "ledgerOk e'"
proof -
  have acc: "balanceOf e q = ledgerSum e q" "0 \<le> balanceOf e q" "balanceOf e q \<le> INT4_MAX" for q
    using ok unfolding ledgerOk_def by blast+
  have "balanceOf e' q = ledgerSum e' q \<and> 0 \<le> balanceOf e' q \<and> balanceOf e' q \<le> INT4_MAX" for q
  proof (cases "q = pid")
    case True
    then show ?thesis using posts_balance [OF p, of q] posts_sum [OF p, of q] acc(1) [of q] p by (simp add: posts_def)
  next
    case False
    then show ?thesis using posts_balance [OF p, of q] posts_sum [OF p, of q] acc [of q] by simp
  qed
  moreover have "\<forall>r \<in> set (ec_ledger e'). bt_amount r \<noteq> 0 \<and> int4 (bt_amount r)"
    using p ok by (auto simp: posts_def ledgerOk_def)
  ultimately show ?thesis unfolding ledgerOk_def by blast
qed

lemma ledgerOk_same: "ec_ledger e' = ec_ledger e \<Longrightarrow> ec_balance e' = ec_balance e \<Longrightarrow> ledgerOk e' = ledgerOk e"
  by (simp add: ledgerOk_def ledgerSum_def balanceOf_def)

lemma balanceOf_updates [simp]:
  "balanceOf (e\<lparr>ec_ledger := x\<rparr>) pid = balanceOf e pid" "balanceOf (e\<lparr>ec_world := w\<rparr>) pid = balanceOf e pid"
  "balanceOf (e\<lparr>ec_subs := s\<rparr>) pid = balanceOf e pid" "balanceOf (e\<lparr>ec_audit := a\<rparr>) pid = balanceOf e pid"
  "balanceOf (e\<lparr>ec_alerts := l\<rparr>) pid = balanceOf e pid" "balanceOf (e\<lparr>ec_presence := p\<rparr>) pid = balanceOf e pid"
  by (simp_all add: balanceOf_def)

section \<open>What a write changes\<close>

lemma insertTx_Inr:
  assumes "insertTx r e = Inr e'"
  shows "e' = e\<lparr>ec_ledger := ec_ledger e @ [r]\<rparr>" "bt_amount r \<noteq> 0" "int4 (bt_amount r)"
  using assms by (auto simp: insertTx_def split: if_splits)

lemma setBalance_Inr:
  assumes "setBalance pid v e = Inr e'"
  shows "e' = e\<lparr>ec_balance := map_put pid v (ec_balance e)\<rparr>" "0 \<le> v" "v \<le> INT4_MAX"
  using assms by (auto simp: setBalance_def int4_def split: if_splits)

lemma setPlayerRole_Inr:
  assumes "setPlayerRole pid rid x e = Inr e'"
  obtains w where "e' = e\<lparr>ec_world := w\<rparr>" and "findRole (ec_world e) rid \<noteq> None"
    and "updatePlayers (\<lambda>p. pl_id p = pid) (\<lambda>p. p\<lparr>pl_role := Some rid, pl_expires := Some x\<rparr>) (ec_world e) = Some w"
  using assms by (auto simp: setPlayerRole_def split: if_splits option.splits)

lemma insertSub_Inr:
  assumes "insertSub s e = Inr e'"
  shows "e' = e\<lparr>ec_subs := ec_subs e @ [s]\<rparr>" "0 < sb_days s" "\<not> hasActiveSub (sb_player s) e"
    "\<forall>r \<in> set (ec_subs e). sb_id r \<noteq> sb_id s"
  using assms by (auto simp: insertSub_def find_row_None split: if_splits)

lemma plan_ok:
  assumes "planVipGrant b role ex tier now = PlanOk price nb rid x"
  shows "price = vt_price tier" "nb = b - vt_price tier" "0 \<le> nb" "rid = vt_role tier"
    "role = None \<or> role = Some rid \<and> ex \<noteq> None"
    "x = (case ex of Some y \<Rightarrow> if role = Some rid \<and> y > now then y else now | None \<Rightarrow> now) + vt_days tier * DAY_MS"
  using assms by (auto simp: planVipGrant_def Let_def split: if_splits)

text \<open>
  A successful grant: the plan's conditions held, the ledger and the balance moved by the price, and one
  player row got the role.  Nothing else of the economy changed.
\<close>

definition grantChange :: "int \<Rightarrow> int \<Rightarrow> grant_input \<Rightarrow> player_row \<Rightarrow> int \<Rightarrow> econ \<Rightarrow> econ \<Rightarrow> bool" where
  "grantChange now txTime i p x e e' \<longleftrightarrow>
     findPlayer (ec_world e) (gi_player i) = Some p
     \<and> (pl_role p = None \<or> pl_role p = Some (vt_role (gi_tier i)) \<and> pl_expires p \<noteq> None)
     \<and> x = (case pl_expires p of Some y \<Rightarrow> if pl_role p = Some (vt_role (gi_tier i)) \<and> y > now then y else now | None \<Rightarrow> now)
           + vt_days (gi_tier i) * DAY_MS
     \<and> posts (gi_player i) (if vt_price (gi_tier i) = 0 then [] else [spendTx txTime i (vt_price (gi_tier i))]) e e'
     \<and> findRole (ec_world e) (vt_role (gi_tier i)) \<noteq> None
     \<and> updatePlayers (\<lambda>p. pl_id p = gi_player i) (\<lambda>p. p\<lparr>pl_role := Some (vt_role (gi_tier i)), pl_expires := Some x\<rparr>) (ec_world e)
         = Some (ec_world e')
     \<and> e' = e\<lparr>ec_world := ec_world e', ec_ledger := ec_ledger e', ec_balance := ec_balance e'\<rparr>"

lemma applyVipGrant_ok:
  assumes "applyVipGrant now txTime i e = Inr (GrantOk b r x, e')"
  obtains p where "grantChange now txTime i p x e e'" and "r = vt_role (gi_tier i)"
    and "b = balanceOf e (gi_player i) - vt_price (gi_tier i)"
proof -
  obtain p where p: "findPlayer (ec_world e) (gi_player i) = Some p"
    using assms by (auto simp: applyVipGrant_def split: option.splits)
  obtain price where plan: "planVipGrant (balanceOf e (gi_player i)) (pl_role p) (pl_expires p) (gi_tier i) now = PlanOk price b r x"
    using assms p by (auto simp: applyVipGrant_def split: vip_plan.splits sum.splits)
  note ok = plan_ok [OF plan]
  obtain e1 e2 where e1: "(if price \<noteq> 0 then insertTx (spendTx txTime i price) e else Inr e) = Inr e1"
      and e2: "setBalance (gi_player i) b e1 = Inr e2" and e3: "setPlayerRole (gi_player i) r x e2 = Inr e'"
    using assms p plan by (auto simp: applyVipGrant_def split: sum.splits)
  have l: "ec_ledger e1 = ec_ledger e @ (if price = 0 then [] else [spendTx txTime i price])"
      "e1 = e\<lparr>ec_ledger := ec_ledger e1\<rparr>" "price \<noteq> 0 \<Longrightarrow> int4 (- price)"
    using e1 by (auto split: if_splits dest: insertTx_Inr simp: spendTx_def)
  obtain w where w: "e' = e2\<lparr>ec_world := w\<rparr>" "findRole (ec_world e2) r \<noteq> None"
      "updatePlayers (\<lambda>p. pl_id p = gi_player i) (\<lambda>p. p\<lparr>pl_role := Some r, pl_expires := Some x\<rparr>) (ec_world e2) = Some w"
    by (rule setPlayerRole_Inr [OF e3])
  have "grantChange now txTime i p x e e'"
    unfolding grantChange_def posts_def
    using p ok l w setBalance_Inr [OF e2] by (auto simp: balanceOf_def spendTx_def)
  then show ?thesis using that ok by simp
qed

lemma applyVipGrant_refused:
  "applyVipGrant now txTime i e = Inr (res, e') \<Longrightarrow> \<nexists>b r x. res = GrantOk b r x \<Longrightarrow> e' = e"
  by (auto simp: applyVipGrant_def split: option.splits vip_plan.splits sum.splits if_splits)

end
