(* ===== verification/Vip_Renewal.thy ===== *)
theory Vip_Renewal
  imports Economy
begin

text \<open>
  The role-expirer worker: the renewal pass over VIP subscriptions (\<^verbatim>\<open>apps/workers/role-expirer/src/renewal.ts\<close>)
  and the expiry of timed role assignments (\<^verbatim>\<open>tick.ts\<close>).  Each pass scans once and then runs one transaction
  per subscription, respectively one for all assignments; the scan may be stale by then.  Which audit
  inserts, notifications and Redis calls fail is given by the environment; diagnostics are left out.
\<close>

section \<open>Renewals\<close>

record due_sub =
  du_id :: string
  du_player :: string
  du_tier :: string
  du_role :: string
  du_price :: int
  du_days :: int
  du_next :: int

datatype charge_result =
    Charged int int nat
  | ChargeRefused grant_result
  | RoleGrantsPanelAccess
  | NotActive

record renewal_env =
  rn_now :: int
  rn_txTime :: "string \<Rightarrow> int"
  rn_chargeAudit :: "string \<Rightarrow> bool"
  rn_expire :: "string \<Rightarrow> bool"
  rn_expireAudit :: "string \<Rightarrow> bool"
  rn_alert :: "string \<Rightarrow> bool"

record renewal_counts =
  rc_renewed :: nat
  rc_expired :: nat
  rc_enqueued :: nat

definition dueSub :: "econ \<Rightarrow> int \<Rightarrow> sub_row \<Rightarrow> due_sub option" where
  "dueSub e now s =
     (if sb_status s = SubActive \<and> sb_next s \<le> now \<and> findPlayer (ec_world e) (sb_player s) \<noteq> None
      then map_option (\<lambda>t. \<lparr>du_id = sb_id s, du_player = sb_player s, du_tier = sb_tier s, du_role = tr_role t,
               du_price = sb_price s, du_days = sb_days s, du_next = sb_next s\<rparr>)
             (find_row (\<lambda>t. tr_id t = sb_tier s) (ec_tiers e))
      else None)"

definition findDueSubscriptions :: "int \<Rightarrow> nat \<Rightarrow> econ \<Rightarrow> due_sub list" where
  "findDueSubscriptions now limit e = take limit (sort_key du_next (List.map_filter (dueSub e now) (ec_subs e)))"

definition stillDue :: "due_sub \<Rightarrow> sub_row \<Rightarrow> bool" where
  "stillDue d s \<longleftrightarrow> sb_id s = du_id d \<and> sb_status s = SubActive \<and> sb_next s = du_next d"

definition renewalInput :: "due_sub \<Rightarrow> grant_input" where
  "renewalInput d =
     \<lparr>gi_player = du_player d, gi_tier = \<lparr>vt_role = du_role d, vt_days = du_days d, vt_price = du_price d\<rparr>,
      gi_actor = None, gi_refType = ''vip_subscription'', gi_refId = du_id d\<rparr>"

text \<open>\<open>chargeRenewal\<close>; \<open>Inl\<close> is an exception other than \<^verbatim>\<open>SubscriptionVanishedError\<close>, which rolls back too.\<close>

definition chargeRenewal :: "renewal_env \<Rightarrow> due_sub \<Rightarrow> econ \<Rightarrow> charge_result tx" where
  "chargeRenewal env d e =
     (case findRole (ec_world e) (du_role d) of
        None \<Rightarrow> Inr (RoleGrantsPanelAccess, e)
      | Some role \<Rightarrow>
          if panel_access role \<or> is_system_role role then Inr (RoleGrantsPanelAccess, e)
          else (case applyVipGrant (rn_now env) (rn_txTime env (du_id d)) (renewalInput d) e of
             Inl err \<Rightarrow> Inl err
           | Inr (GrantOk balance _ expires, e1) \<Rightarrow>
               if find_row (stillDue d) (ec_subs e1) = None then Inr (NotActive, e)
               else if \<not> rn_chargeAudit env (du_id d) then Inl OtherError
               else let e2 = e1\<lparr>ec_subs := update_rows (stillDue d) (\<lambda>s. s\<lparr>sb_next := nextRenewalAfter (du_next d) (du_days d)\<rparr>) (ec_subs e1)\<rparr>;
                        e3 = syncAllServers ''player.role.assign'' None e2
                    in Inr (Charged balance expires (length (w_servers (ec_world e2))),
                         e3\<lparr>ec_audit := ec_audit e3 @ [\<lparr>au_action = ''player.subscription.renew'', au_target = du_player d, au_ref = Some (du_id d)\<rparr>]\<rparr>)
           | Inr (refused, _) \<Rightarrow> Inr (ChargeRefused refused, e)))"

definition expireSubscription :: "string \<Rightarrow> int \<Rightarrow> econ \<Rightarrow> bool \<times> econ" where
  "expireSubscription subId now e =
     (let active = (\<lambda>s. sb_id s = subId \<and> sb_status s = SubActive)
      in (find_row active (ec_subs e) \<noteq> None,
          e\<lparr>ec_subs := update_rows active (\<lambda>s. s\<lparr>sb_status := SubExpired, sb_cancelledAt := Some now\<rparr>) (ec_subs e)\<rparr>))"

definition expireRefused :: "renewal_env \<Rightarrow> due_sub \<Rightarrow> renewal_counts \<times> econ \<Rightarrow> renewal_counts \<times> econ" where
  "expireRefused env d ce =
     (if \<not> rn_expire env (du_id d) then ce
      else case expireSubscription (du_id d) (rn_now env) (snd ce) of
        (False, e) \<Rightarrow> (fst ce, e)
      | (True, e) \<Rightarrow>
          (let counts = (fst ce)\<lparr>rc_expired := rc_expired (fst ce) + 1\<rparr>
           in if \<not> rn_expireAudit env (du_id d) then (counts, e)
              else let e = e\<lparr>ec_audit := ec_audit e @ [\<lparr>au_action = ''player.subscription.expire'', au_target = du_player d, au_ref = Some (du_id d)\<rparr>]\<rparr>
                in if \<not> rn_alert env (du_id d) then (counts, e)
                   else (counts, e\<lparr>ec_alerts := ec_alerts e @ [(''subscription_expired'', du_id d)]\<rparr>)))"

text \<open>The body of the loop with its \<^verbatim>\<open>try\<close>/\<^verbatim>\<open>catch\<close>.\<close>

definition renewOne :: "renewal_env \<Rightarrow> due_sub \<Rightarrow> renewal_counts \<times> econ \<Rightarrow> renewal_counts \<times> econ" where
  "renewOne env d ce =
     (case chargeRenewal env d (snd ce) of
        Inl _ \<Rightarrow> ce
      | Inr (NotActive, _) \<Rightarrow> ce
      | Inr (Charged _ _ n, e) \<Rightarrow>
          ((fst ce)\<lparr>rc_renewed := rc_renewed (fst ce) + 1, rc_enqueued := rc_enqueued (fst ce) + n\<rparr>, e)
      | Inr (_, e) \<Rightarrow> expireRefused env d (fst ce, e))"

definition runSubscriptionRenewalTick :: "renewal_env \<Rightarrow> nat \<Rightarrow> econ \<Rightarrow> renewal_counts \<times> econ" where
  "runSubscriptionRenewalTick env limit e =
     fold (renewOne env) (findDueSubscriptions (rn_now env) limit e)
       (\<lparr>rc_renewed = 0, rc_expired = 0, rc_enqueued = 0\<rparr>, e)"

section \<open>Expiry of role assignments\<close>

record expired_assignment =
  xa_player :: string
  xa_role :: string
  xa_expires :: int
  xa_comment :: "string option"

definition SUBSCRIPTION_RENEWAL_GRACE :: int where "SUBSCRIPTION_RENEWAL_GRACE = DAY_MS"

definition renewsRole :: "econ \<Rightarrow> string \<Rightarrow> string \<Rightarrow> int \<Rightarrow> sub_row \<Rightarrow> bool" where
  "renewsRole e pid rid expires s \<longleftrightarrow> sb_player s = pid \<and> sb_status s = SubActive
     \<and> list_ex (\<lambda>t. tr_id t = sb_tier s \<and> tr_role t = rid) (ec_tiers e)
     \<and> sb_next s \<le> expires + SUBSCRIPTION_RENEWAL_GRACE"

definition expiredAssignment :: "econ \<Rightarrow> int \<Rightarrow> player_row \<Rightarrow> expired_assignment option" where
  "expiredAssignment e now p =
     (case (pl_role p, pl_expires p) of
        (Some rid, Some expires) \<Rightarrow>
          (case findRole (ec_world e) rid of
             None \<Rightarrow> None
           | Some role \<Rightarrow>
               if expires \<le> now \<and> \<not> ownerRole role \<and> \<not> list_ex (renewsRole e (pl_id p) rid expires) (ec_subs e)
               then Some \<lparr>xa_player = pl_id p, xa_role = rid, xa_expires = expires, xa_comment = pl_comment p\<rparr>
               else None)
      | _ \<Rightarrow> None)"

definition findExpiredAssignments :: "int \<Rightarrow> nat \<Rightarrow> econ \<Rightarrow> expired_assignment list" where
  "findExpiredAssignments now limit e =
     take limit (sort_key xa_expires (List.map_filter (expiredAssignment e now) (w_players (ec_world e))))"

definition assignmentUnchanged :: "expired_assignment \<Rightarrow> player_row \<Rightarrow> bool" where
  "assignmentUnchanged a p \<longleftrightarrow> pl_id p = xa_player a \<and> pl_role p = Some (xa_role a) \<and> pl_expires p = Some (xa_expires a)"

record clear_state =
  cs_cleared :: "expired_assignment list"
  cs_revoked :: "(string \<times> string list) list"
  cs_econ :: econ

definition deleteSessionRowsForPlayer :: "string \<Rightarrow> econ \<Rightarrow> string list \<times> econ" where
  "deleteSessionRowsForPlayer pid e =
     (let st = w_sess (ec_world e)
      in (map s_id (filter (\<lambda>s. s_player s = pid) (s_rows st)),
          e\<lparr>ec_world := (ec_world e)\<lparr>w_sess := st\<lparr>s_rows := filter (\<lambda>s. s_player s \<noteq> pid) (s_rows st)\<rparr>\<rparr>\<rparr>))"

text \<open>One assignment inside the transaction; \<open>None\<close> rolls everything back.  \<open>audit\<close> says which inserts succeed.\<close>

definition clearOne :: "(string \<Rightarrow> bool) \<Rightarrow> expired_assignment \<Rightarrow> clear_state \<Rightarrow> clear_state option" where
  "clearOne audit a c =
     (let e = cs_econ c
      in case updatePlayers (assignmentUnchanged a) (\<lambda>p. p\<lparr>pl_role := None, pl_expires := None, pl_comment := None\<rparr>) (ec_world e) of
           None \<Rightarrow> None
         | Some w \<Rightarrow>
             if find_row (assignmentUnchanged a) (w_players (ec_world e)) = None then Some c
             else if \<not> audit (xa_player a) then None
             else let e = e\<lparr>ec_world := w, ec_audit := ec_audit e @ [\<lparr>au_action = ''player.role.expire'', au_target = xa_player a, au_ref = Some (xa_role a)\<rparr>]\<rparr>
               in case deleteSessionRowsForPlayer (xa_player a) e of
                 (ids, e) \<Rightarrow> Some \<lparr>cs_cleared = cs_cleared c @ [a],
                    cs_revoked = (if ids = [] then cs_revoked c else map_put (xa_player a) ids (cs_revoked c)), cs_econ = e\<rparr>)"

fun clearLoop :: "(string \<Rightarrow> bool) \<Rightarrow> expired_assignment list \<Rightarrow> clear_state \<Rightarrow> clear_state option" where
  "clearLoop audit [] c = Some c"
| "clearLoop audit (a # as) c = (case clearOne audit a c of None \<Rightarrow> None | Some c' \<Rightarrow> clearLoop audit as c')"

definition clearExpiredAssignments :: "(string \<Rightarrow> bool) \<Rightarrow> expired_assignment list \<Rightarrow> econ \<Rightarrow> (clear_state \<times> nat) option" where
  "clearExpiredAssignments audit as e =
     (if as = [] then Some (\<lparr>cs_cleared = [], cs_revoked = [], cs_econ = e\<rparr>, 0)
      else case clearLoop audit as \<lparr>cs_cleared = [], cs_revoked = [], cs_econ = e\<rparr> of
        None \<Rightarrow> None
      | Some c \<Rightarrow>
          if cs_cleared c = [] then Some (c, 0)
          else Some (c\<lparr>cs_econ := syncAllServers ''player.role.expire'' None (cs_econ c)\<rparr>, length (w_servers (ec_world (cs_econ c)))))"

datatype notify_outcome = NotifyOk | DelFails | PublishFails nat

definition notifySessionsRevoked :: "notify_outcome \<Rightarrow> string \<Rightarrow> string list \<Rightarrow> econ \<Rightarrow> econ" where
  "notifySessionsRevoked outcome pid ids e =
     (if ids = [] \<or> outcome = DelFails then e
      else let st = w_sess (ec_world e);
               published = (case outcome of PublishFails n \<Rightarrow> take n ids | _ \<Rightarrow> ids)
           in e\<lparr>ec_world := (ec_world e)\<lparr>w_sess := st\<lparr>s_redis := fold map_del ids (s_redis st),
                s_revoked := s_revoked st @ map (Pair pid) published\<rparr>\<rparr>\<rparr>)"

record expiry_env =
  xe_now :: int
  xe_audit :: "string \<Rightarrow> bool"
  xe_notify :: "string \<Rightarrow> notify_outcome"

text \<open>\<open>None\<close> when the transaction throws: the tick rethrows and nothing has changed.\<close>

definition runRoleExpiryTick :: "expiry_env \<Rightarrow> nat \<Rightarrow> econ \<Rightarrow> (nat \<times> nat \<times> econ) option" where
  "runRoleExpiryTick env limit e =
     (let expired = findExpiredAssignments (xe_now env) limit e
      in if expired = [] then Some (0, 0, e)
         else case clearExpiredAssignments (xe_audit env) expired e of
           None \<Rightarrow> None
         | Some (c, enqueued) \<Rightarrow>
             if cs_cleared c = [] then Some (0, 0, cs_econ c)
             else Some (length (cs_cleared c), enqueued,
               fold (\<lambda>a. notifySessionsRevoked (xe_notify env (xa_player a)) (xa_player a) (orElse (map_of (cs_revoked c) (xa_player a)) []))
                 (cs_cleared c) (cs_econ c)))"

end
