(* ===== verification/Seed_Time.thy ===== *)
theory Seed_Time
  imports Prelude
begin

text \<open>
  Seed time of the bonus economy, the pure half of \<^verbatim>\<open>packages/db/src/economy/accrual.ts\<close>: the seeding windows
  of a server from its transition events, the seconds a session spends inside them, and the sweep line that
  counts the seconds a server was below the seeding threshold.  Times are epoch seconds.  The reference
  definitions (\<open>seedingAt\<close>, \<open>population\<close>, \<open>sweepReference\<close>) speak of single seconds; the lemmas show that the
  loops of the source compute them.
\<close>

section \<open>Maps of counters and of lists\<close>

text \<open>\<^verbatim>\<open>m.set(k, (m.get(k) ?? 0) + v)\<close> and the grouping idiom \<^verbatim>\<open>(m.get(k) ?? []).push(x)\<close>.\<close>

definition map_bump :: "'k \<Rightarrow> int \<Rightarrow> ('k \<times> int) list \<Rightarrow> ('k \<times> int) list" where
  "map_bump k v m = map_put k (orElse (map_of m k) 0 + v) m"

definition map_push :: "'k \<Rightarrow> 'a \<Rightarrow> ('k \<times> 'a list) list \<Rightarrow> ('k \<times> 'a list) list" where
  "map_push k x m = map_put k (orElse (map_of m k) [] @ [x]) m"

definition group_by :: "('a \<Rightarrow> 'k) \<Rightarrow> 'a list \<Rightarrow> ('k \<times> 'a list) list" where
  "group_by f xs = fold (\<lambda>x. map_push (f x) x) xs []"

definition bumps :: "('a \<Rightarrow> 'k) \<Rightarrow> ('a \<Rightarrow> int) \<Rightarrow> 'a list \<Rightarrow> ('k \<times> int) list \<Rightarrow> ('k \<times> int) list" where
  "bumps f v xs m = fold (\<lambda>x. map_bump (f x) (v x)) xs m"

definition count_at :: "('k \<times> int) list \<Rightarrow> 'k \<Rightarrow> int" where
  "count_at m k = orElse (map_of m k) 0"

section \<open>Sessions, transitions, windows\<close>

record seed_session =
  ss_player :: string
  ss_server :: string
  ss_start :: int
  ss_end :: int

datatype seeding_kind = Started | Ended

record seeding_event =
  sv_type :: seeding_kind
  sv_at :: int

record seeding_window =
  sw_start :: int
  sw_end :: int

definition windowIf :: "int \<Rightarrow> int \<Rightarrow> seeding_window list" where
  "windowIf s e = (if e > s then [\<lparr>sw_start = s, sw_end = e\<rparr>] else [])"

text \<open>The loop of \<open>computeSeedingWindows\<close> with its two variables, and the closing of an open window.\<close>

fun seedingLoop :: "int \<Rightarrow> int \<Rightarrow> bool \<Rightarrow> int option \<Rightarrow> seeding_event list \<Rightarrow> seeding_window list" where
  "seedingLoop dayStart dayEnd seeding openStart [] =
     (if seeding then windowIf (orElse openStart dayStart) dayEnd else [])"
| "seedingLoop dayStart dayEnd seeding openStart (x # xs) =
     (if sv_at x < dayStart then seedingLoop dayStart dayEnd (sv_type x = Started) openStart xs
      else if dayEnd < sv_at x then seedingLoop dayStart dayEnd seeding openStart []
      else if sv_type x = Started then
        (if \<not> seeding then seedingLoop dayStart dayEnd True (Some (max (sv_at x) dayStart)) xs
         else seedingLoop dayStart dayEnd seeding openStart xs)
      else if seeding then
        (let s = orElse openStart dayStart
         in windowIf s (min (max (sv_at x) s) dayEnd) @ seedingLoop dayStart dayEnd False None xs)
      else seedingLoop dayStart dayEnd seeding openStart xs)"

definition computeSeedingWindows :: "seeding_event list \<Rightarrow> int \<Rightarrow> int \<Rightarrow> seeding_window list" where
  "computeSeedingWindows transitions dayStart dayEnd = seedingLoop dayStart dayEnd False None transitions"

section \<open>Seconds inside the windows\<close>

text \<open>The key \<^verbatim>\<open>${playerId}|${serverId}\<close>.\<close>

definition seedKey :: "seed_session \<Rightarrow> string" where
  "seedKey i = ss_player i @ ''|'' @ ss_server i"

definition overlapSeconds :: "seed_session \<Rightarrow> seeding_window \<Rightarrow> int" where
  "overlapSeconds i w =
     (let s = max (ss_start i) (sw_start w); e = min (ss_end i) (sw_end w) in if e > s then e - s else 0)"

definition withinStep ::
  "(string \<times> seeding_window list) list \<Rightarrow> seed_session \<Rightarrow> (string \<times> int) list \<Rightarrow> (string \<times> int) list" where
  "withinStep windowsByServer i result =
     (if ss_end i \<le> ss_start i then result
      else case map_of windowsByServer (ss_server i) of
        None \<Rightarrow> result
      | Some windows \<Rightarrow>
          if windows = [] then result
          else let seconds = sum_list (map (overlapSeconds i) windows)
            in if seconds > 0 then map_bump (seedKey i) seconds result else result)"

definition computeSeedSecondsWithinWindows ::
  "seed_session list \<Rightarrow> (string \<times> seeding_window list) list \<Rightarrow> (string \<times> int) list" where
  "computeSeedSecondsWithinWindows intervals windowsByServer =
     fold (withinStep windowsByServer) intervals []"

section \<open>The sweep line\<close>

text \<open>
  Sessions are objects and the active set compares them by identity, so the sessions of a server are
  numbered.  \<^verbatim>\<open>active\<close> is a \<^verbatim>\<open>Set\<close> in insertion order.
\<close>

type_synonym numbered = "nat \<times> seed_session"

definition boundariesOf :: "(int \<times> numbered list) list \<Rightarrow> (int \<times> numbered list) list \<Rightarrow> int list" where
  "boundariesOf startsAt endsAt = sort (js_set (map fst startsAt @ map fst endsAt))"

definition activeAfter ::
  "(int \<times> numbered list) list \<Rightarrow> (int \<times> numbered list) list \<Rightarrow> int \<Rightarrow> numbered list \<Rightarrow> numbered list" where
  "activeAfter startsAt endsAt from active =
     fold js_add (orElse (map_of startsAt from) [])
       (fold removeAll (orElse (map_of endsAt from) []) active)"

fun sweep ::
  "int \<Rightarrow> (int \<times> numbered list) list \<Rightarrow> (int \<times> numbered list) list
   \<Rightarrow> int list \<Rightarrow> numbered list \<Rightarrow> (string \<times> int) list \<Rightarrow> (string \<times> int) list" where
  "sweep threshold startsAt endsAt (from # to # bs) active result =
     (let active = activeAfter startsAt endsAt from active
      in if active = [] \<or> int (length active) \<ge> threshold
         then sweep threshold startsAt endsAt (to # bs) active result
         else sweep threshold startsAt endsAt (to # bs) active
                (bumps (seedKey \<circ> snd) (\<lambda>_. to - from) active result))"
| "sweep threshold startsAt endsAt bs active result = result"

definition sweepServer :: "int \<Rightarrow> seed_session list \<Rightarrow> (string \<times> int) list \<Rightarrow> (string \<times> int) list" where
  "sweepServer threshold sessions result =
     (let numbered = List.enumerate 0 sessions;
          startsAt = group_by (ss_start \<circ> snd) numbered;
          endsAt = group_by (ss_end \<circ> snd) numbered
      in sweep threshold startsAt endsAt (boundariesOf startsAt endsAt) [] result)"

definition liveSession :: "seed_session \<Rightarrow> bool" where
  "liveSession i \<longleftrightarrow> \<not> ss_end i \<le> ss_start i"

definition computeSeedSecondsByPlayerServer :: "seed_session list \<Rightarrow> int \<Rightarrow> (string \<times> int) list" where
  "computeSeedSecondsByPlayerServer intervals threshold =
     (if threshold \<le> 0 then []
      else fold (\<lambda>(_, sessions). sweepServer threshold sessions)
             (group_by ss_server (filter liveSession intervals)) [])"

section \<open>Facts on counters and groups\<close>

lemma count_at_bump [simp]: "count_at (map_bump k v m) k' = count_at m k' + (if k' = k then v else 0)"
  by (simp add: count_at_def map_bump_def)

lemma count_at_Nil [simp]: "count_at [] k = 0"
  by (simp add: count_at_def)

lemma count_at_bumps:
  "count_at (bumps f v xs m) k = count_at m k + sum_list (map v (filter (\<lambda>x. f x = k) xs))"
  unfolding bumps_def by (induction xs arbitrary: m) auto

lemma group_by_lookup: "orElse (map_of (group_by f xs) k) [] = filter (\<lambda>x. f x = k) xs"
proof -
  have "orElse (map_of (fold (\<lambda>x. map_push (f x) x) xs m) k) [] = orElse (map_of m k) [] @ filter (\<lambda>x. f x = k) xs" for m
    by (induction xs arbitrary: m) (auto simp: map_push_def)
  then show ?thesis by (simp add: group_by_def)
qed

lemma group_by_keys: "fst ` set (group_by f xs) = f ` set xs"
proof -
  have "fst ` set (fold (\<lambda>x. map_push (f x) x) xs m) = fst ` set m \<union> f ` set xs" for m
    by (induction xs arbitrary: m) (auto simp: map_push_def keys_map_put)
  then show ?thesis by (simp add: group_by_def)
qed

lemma group_by_distinct: "distinct (map fst (group_by f xs))"
proof -
  have "distinct (map fst m) \<Longrightarrow> distinct (map fst (fold (\<lambda>x. map_push (f x) x) xs m))" for m
    by (induction xs arbitrary: m) (auto simp: map_push_def distinct_map_put)
  then show ?thesis by (simp add: group_by_def)
qed

lemma group_by_entry:
  assumes "(k, v) \<in> set (group_by f xs)" shows "v = filter (\<lambda>x. f x = k) xs"
  using group_by_lookup [of f xs k] map_of_is_SomeI [OF group_by_distinct assms] by simp

lemma sum_groups: "sum_list (map (\<lambda>(k, v). sum_list (map h v)) (group_by f xs)) = sum_list (map h (xs :: 'a list))"
  for h :: "'a \<Rightarrow> int"
proof -
  let ?S = "\<lambda>m. sum_list (map (\<lambda>(k, v). sum_list (map h v)) m)"
  have push: "?S (map_push k x m) = ?S m + h x" for k x and m :: "('b \<times> 'a list) list"
    unfolding map_push_def by (induction m) auto
  have "?S (fold (\<lambda>x. map_push (f x) x) xs m) = ?S m + sum_list (map h xs)" for m
    by (induction xs arbitrary: m) (auto simp: push)
  then show ?thesis by (simp add: group_by_def)
qed

section \<open>Windows cover exactly the seeding seconds\<close>

text \<open>
  The state of the server at second \<open>t\<close>: the kind of the last transition at or before it, \<open>s\<close> before the
  first one.
\<close>

fun seedingAfter :: "bool \<Rightarrow> seeding_event list \<Rightarrow> int \<Rightarrow> bool" where
  "seedingAfter s [] t = s"
| "seedingAfter s (x # xs) t = (if sv_at x \<le> t then seedingAfter (sv_type x = Started) xs t else s)"

definition seedingAt :: "seeding_event list \<Rightarrow> int \<Rightarrow> bool" where
  "seedingAt transitions t = seedingAfter False transitions t"

definition covers :: "seeding_window list \<Rightarrow> int \<Rightarrow> bool" where
  "covers ws t \<longleftrightarrow> list_ex (\<lambda>w. sw_start w \<le> t \<and> t < sw_end w) ws"

lemma covers_simps [simp]:
  "covers [] t = False"
  "covers (ws @ vs) t \<longleftrightarrow> covers ws t \<or> covers vs t"
  "covers (windowIf s e) t \<longleftrightarrow> s \<le> t \<and> t < e"
  by (auto simp: covers_def windowIf_def)

lemma seedingAfter_early: "\<forall>x \<in> set xs. t < sv_at x \<Longrightarrow> seedingAfter s xs t = s"
  by (cases xs) auto

definition openOk :: "int \<Rightarrow> bool \<Rightarrow> int option \<Rightarrow> seeding_event list \<Rightarrow> bool" where
  "openOk dayStart s o' xs \<longleftrightarrow> (\<forall>v. o' = Some v \<longrightarrow> s \<and> dayStart \<le> v \<and> (\<forall>x \<in> set xs. v \<le> sv_at x))"

lemma openOk_simps [simp]: "openOk d s None xs" "openOk d s (Some v) xs \<longleftrightarrow> s \<and> d \<le> v \<and> (\<forall>x \<in> set xs. v \<le> sv_at x)"
  by (auto simp: openOk_def)

lemma seedingLoop_covers:
  assumes "sorted (map sv_at xs)" and "openOk dayStart s o' xs" and "dayStart \<le> t"
  shows "covers (seedingLoop dayStart dayEnd s o' xs) t
    \<longleftrightarrow> t < dayEnd \<and> orElse o' dayStart \<le> t \<and> seedingAfter s xs t"
  using assms
proof (induction dayStart dayEnd s o' xs rule: seedingLoop.induct)
  case (1 dayStart dayEnd seeding openStart)
  then show ?case by auto
next
  case (2 dayStart dayEnd seeding openStart x xs)
  have sorted: "sorted (map sv_at xs)" "\<forall>y \<in> set xs. sv_at x \<le> sv_at y" using "2.prems"(1) by auto
  have late: "seedingAfter b xs t = b" if "t < sv_at x" for b
    using sorted(2) that by (intro seedingAfter_early) force
  have ok: "openOk dayStart seeding openStart xs" "openOk dayStart True (Some (max (sv_at x) dayStart)) xs"
    if "\<not> sv_at x < dayStart"
    using "2.prems"(2) sorted(2) that by (auto simp: openOk_def)
  consider (before) "sv_at x < dayStart" | (after) "\<not> sv_at x < dayStart" "dayEnd < sv_at x"
    | (inside) "\<not> sv_at x < dayStart" "\<not> dayEnd < sv_at x" by blast
  then show ?case
  proof cases
    case before
    then have "openStart = None" using "2.prems"(2) by (cases openStart) auto
    with before "2.IH"(1) sorted(1) "2.prems"(3) show ?thesis by simp
  next
    case after
    have "covers (seedingLoop dayStart dayEnd seeding openStart []) t
      \<longleftrightarrow> t < dayEnd \<and> orElse openStart dayStart \<le> t \<and> seeding"
      by (rule trans [OF "2.IH"(2)]) (use after "2.prems" in \<open>auto simp: openOk_def\<close>)
    with after late show ?thesis by auto
  next
    case inside
    show ?thesis
    proof (cases "sv_type x"; cases seeding)
      assume "sv_type x = Started" "\<not> seeding"
      moreover have "openStart = None" using "2.prems"(2) calculation(2) by (auto simp: openOk_def)
      ultimately show ?thesis using inside "2.IH"(3) sorted(1) ok "2.prems"(3) late by auto
    next
      assume "sv_type x = Started" "seeding"
      then show ?thesis using inside "2.IH"(4) sorted(1) ok "2.prems"(3) late by auto
    next
      assume e: "sv_type x = Ended" "seeding"
      have "orElse openStart dayStart \<le> sv_at x" using "2.prems"(2) inside by (cases openStart) auto
      with e show ?thesis using inside "2.IH"(5) sorted(1) "2.prems"(3) late by (auto simp: Let_def)
    next
      assume "sv_type x = Ended" "\<not> seeding"
      then show ?thesis using inside "2.IH"(6) sorted(1) ok "2.prems"(3) late by auto
    qed
  qed
qed

lemma windows_cover:
  assumes "sorted (map sv_at transitions)" and "dayStart \<le> t"
  shows "covers (computeSeedingWindows transitions dayStart dayEnd) t \<longleftrightarrow> t < dayEnd \<and> seedingAt transitions t"
  unfolding computeSeedingWindows_def seedingAt_def using seedingLoop_covers [OF assms(1) _ assms(2)] assms(2) by simp

text \<open>The windows are in order, do not overlap and stay inside the day.\<close>

fun windowsOk :: "int \<Rightarrow> int \<Rightarrow> seeding_window list \<Rightarrow> bool" where
  "windowsOk lo hi [] = True"
| "windowsOk lo hi (w # ws) \<longleftrightarrow> lo \<le> sw_start w \<and> sw_start w < sw_end w \<and> sw_end w \<le> hi \<and> windowsOk (sw_end w) hi ws"

lemma windowsOk_mono: "windowsOk a hi ws \<Longrightarrow> b \<le> a \<Longrightarrow> windowsOk b hi ws"
  by (cases ws) auto

lemma seedingLoop_windowsOk:
  assumes "sorted (map sv_at xs)" and "openOk dayStart s o' xs" and "s \<longrightarrow> lo \<le> orElse o' dayStart"
    and "\<forall>x \<in> set xs. lo \<le> max (sv_at x) dayStart"
  shows "windowsOk lo dayEnd (seedingLoop dayStart dayEnd s o' xs)"
  using assms
proof (induction dayStart dayEnd s o' xs arbitrary: lo rule: seedingLoop.induct)
  case (1 dayStart dayEnd seeding openStart)
  then show ?case by (auto simp: windowIf_def)
next
  case (2 dayStart dayEnd seeding openStart x xs)
  have sorted: "sorted (map sv_at xs)" "\<forall>y \<in> set xs. sv_at x \<le> sv_at y" using "2.prems"(1) by auto
  have ok: "openOk dayStart seeding openStart xs" "openOk dayStart True (Some (max (sv_at x) dayStart)) xs"
    if "\<not> sv_at x < dayStart"
    using "2.prems"(2) sorted(2) that by (auto simp: openOk_def)
  have none: "openStart = None" if "sv_at x < dayStart \<or> \<not> seeding" using "2.prems"(2) that by (cases openStart) auto
  let ?s = "orElse openStart dayStart" let ?e = "min (max (sv_at x) ?s) dayEnd"
  show ?case
  proof (cases "\<not> sv_at x < dayStart \<and> \<not> dayEnd < sv_at x \<and> sv_type x = Ended \<and> seeding")
    case True
    then have e: "?e = (if ?s < sv_at x then sv_at x else min ?s dayEnd)" by (auto simp: max_def min_def)
    have "windowsOk (if ?s < sv_at x then sv_at x else lo) dayEnd (seedingLoop dayStart dayEnd False None xs)"
      using True sorted "2.prems"(4) by (intro "2.IH"(5)) (force intro: order_trans split: if_splits simp: le_max_iff_disj)+
    with True "2.prems"(3) show ?thesis unfolding seedingLoop.simps Let_def e by (auto simp: windowIf_def)
  next
    case False
    then show ?thesis
      using "2.IH"(1-4,6) "2.prems" sorted ok none
      by (cases "sv_at x < dayStart"; cases "dayEnd < sv_at x"; cases "sv_type x"; cases seeding) (auto simp: windowIf_def)
  qed
qed

lemma gap: "(if b > a then b - a else 0) = int (card {a..<b})" for a b :: int
  by simp

lemma overlaps_count:
  assumes "windowsOk lo hi ws"
  shows "sum_list (map (overlapSeconds i) ws) = int (card {t. ss_start i \<le> t \<and> t < ss_end i \<and> covers ws t})"
  using assms
proof (induction ws arbitrary: lo)
  case (Cons w ws)
  let ?in = "\<lambda>P. {t. ss_start i \<le> t \<and> t < ss_end i \<and> P t}"
  have far: "sw_end w \<le> t" if "covers ws t" for t
    using Cons.prems that
  proof -
    have "windowsOk a hi ws \<Longrightarrow> covers ws t \<Longrightarrow> a \<le> t" for a by (induction ws arbitrary: a) (force simp: covers_def)+
    then show ?thesis using Cons.prems that by auto
  qed
  have split: "?in (covers (w # ws)) = {max (ss_start i) (sw_start w)..<min (ss_end i) (sw_end w)} \<union> ?in (covers ws)"
    by (auto simp: covers_def)
  have fin: "finite (?in P)" for P by (rule finite_subset [of _ "{ss_start i..<ss_end i}"]) auto
  have "card (?in (covers (w # ws))) = card {max (ss_start i) (sw_start w)..<min (ss_end i) (sw_end w)} + card (?in (covers ws))"
    unfolding split by (intro card_Un_disjoint fin) (auto simp: disjoint_iff dest!: far)
  moreover have "overlapSeconds i w = int (card {max (ss_start i) (sw_start w)..<min (ss_end i) (sw_end w)})"
    unfolding overlapSeconds_def Let_def by (rule gap)
  moreover have "sum_list (map (overlapSeconds i) ws) = int (card (?in (covers ws)))" using Cons by auto
  ultimately show ?case by (simp only: list.map sum_list.Cons of_nat_add)
qed simp

lemma empty_span: "b \<le> a \<Longrightarrow> {t. a \<le> t \<and> t < b \<and> P t} = {}" for a b :: int
  by auto

lemma within_count:
  assumes "\<And>server ws. map_of windowsByServer server = Some ws \<Longrightarrow> \<exists>lo hi. windowsOk lo hi ws"
  shows "count_at (computeSeedSecondsWithinWindows intervals windowsByServer) key =
    (\<Sum>i \<leftarrow> filter (\<lambda>i. seedKey i = key) intervals.
       int (card {t. ss_start i \<le> t \<and> t < ss_end i \<and> covers (orElse (map_of windowsByServer (ss_server i)) []) t}))"
proof -
  have step: "count_at (withinStep windowsByServer i m) key = count_at m key + (if seedKey i = key then
      int (card {t. ss_start i \<le> t \<and> t < ss_end i \<and> covers (orElse (map_of windowsByServer (ss_server i)) []) t}) else 0)" for i m
  proof (cases "map_of windowsByServer (ss_server i)")
    case (Some ws)
    then obtain lo hi where "windowsOk lo hi ws" using assms by blast
    note count = overlaps_count [OF this, of i]
    show ?thesis using count Some by (auto simp: withinStep_def Let_def empty_span)
  qed (simp add: withinStep_def)
  have "count_at (fold (withinStep windowsByServer) intervals m) key = count_at m key +
    (\<Sum>i \<leftarrow> filter (\<lambda>i. seedKey i = key) intervals.
       int (card {t. ss_start i \<le> t \<and> t < ss_end i \<and> covers (orElse (map_of windowsByServer (ss_server i)) []) t}))" for m
    by (induction intervals arbitrary: m) (simp_all add: step)
  then show ?thesis by (simp add: computeSeedSecondsWithinWindows_def)
qed

section \<open>The sweep counts every second below the threshold\<close>

definition activeAt :: "numbered list \<Rightarrow> int \<Rightarrow> numbered set" where
  "activeAt xs t = {x \<in> set xs. ss_start (snd x) \<le> t \<and> t < ss_end (snd x)}"

definition secondCount :: "int \<Rightarrow> numbered list \<Rightarrow> string \<Rightarrow> int \<Rightarrow> int" where
  "secondCount threshold xs key t =
     (if int (card (activeAt xs t)) < threshold then int (card {x \<in> activeAt xs t. seedKey (snd x) = key}) else 0)"

lemma finite_activeAt [simp]: "finite (activeAt xs t)"
  by (simp add: activeAt_def)

lemma set_fold_removeAll: "set (fold removeAll ys xs) = set xs - set ys"
  by (induction ys arbitrary: xs) auto

lemma distinct_fold_removeAll: "distinct xs \<Longrightarrow> distinct (fold removeAll ys xs)"
  by (induction ys arbitrary: xs) (auto simp: distinct_removeAll)

lemma activeAfter_at:
  assumes "distinct active" and "set active = {x \<in> set xs. ss_start (snd x) < b \<and> b \<le> ss_end (snd x)}"
    and "\<forall>x \<in> set xs. ss_start (snd x) < ss_end (snd x)"
  shows "distinct (activeAfter (group_by (ss_start \<circ> snd) xs) (group_by (ss_end \<circ> snd) xs) b active)"
    and "set (activeAfter (group_by (ss_start \<circ> snd) xs) (group_by (ss_end \<circ> snd) xs) b active) = activeAt xs b"
  using assms by (auto simp: activeAfter_def group_by_lookup set_fold_removeAll distinct_fold_removeAll activeAt_def)

lemma secondCount_const:
  assumes "\<forall>x \<in> set xs. (ss_start (snd x) \<le> a \<or> b \<le> ss_start (snd x)) \<and> (ss_end (snd x) \<le> a \<or> b \<le> ss_end (snd x))"
    and "a \<le> t" "t < b"
  shows "secondCount threshold xs key t = secondCount threshold xs key a"
proof -
  have "activeAt xs t = activeAt xs a" using assms by (force simp: activeAt_def)
  then show ?thesis by (simp add: secondCount_def)
qed

lemma bumps_active:
  assumes "distinct active" and "set active = activeAt xs a" and "\<not> (active = [] \<or> int (length active) \<ge> threshold)"
  shows "count_at (bumps (seedKey \<circ> snd) (\<lambda>_. d) active m) key = count_at m key + d * secondCount threshold xs key a"
proof -
  have "length (filter (\<lambda>x. seedKey (snd x) = key) active) = card {x \<in> activeAt xs a. seedKey (snd x) = key}"
    using distinct_card [OF distinct_filter [OF assms(1)], of "\<lambda>x. seedKey (snd x) = key"] assms(2) by simp
  moreover have "int (card (activeAt xs a)) < threshold"
    using assms distinct_card [OF assms(1)] by simp
  ultimately show ?thesis by (simp add: count_at_bumps secondCount_def sum_list_triv comp_def)
qed

lemma secondCount_skip:
  assumes "distinct active" and "set active = activeAt xs a" and "active = [] \<or> int (length active) \<ge> threshold"
  shows "secondCount threshold xs key a = 0"
  using assms distinct_card [OF assms(1)] by (auto simp: secondCount_def)

lemma sweep_count:
  assumes "sorted_wrt (<) bs" and "bs \<noteq> []" and "distinct active"
    and "set active = {x \<in> set xs. ss_start (snd x) < hd bs \<and> hd bs \<le> ss_end (snd x)}"
    and "\<forall>x \<in> set xs. ss_start (snd x) < ss_end (snd x)"
    and "\<forall>x \<in> set xs. (ss_start (snd x) < hd bs \<or> ss_start (snd x) \<in> set bs) \<and> (ss_end (snd x) < hd bs \<or> ss_end (snd x) \<in> set bs)"
  shows "count_at (sweep threshold (group_by (ss_start \<circ> snd) xs) (group_by (ss_end \<circ> snd) xs) bs active m) key
    = count_at m key + sum (secondCount threshold xs key) {hd bs..<last bs}"
  using assms
proof (induction bs arbitrary: active m rule: induct_list012)
  case (3 p q bs)
  let ?a = "activeAfter (group_by (ss_start \<circ> snd) xs) (group_by (ss_end \<circ> snd) xs) p active"
  let ?sw = "sweep threshold (group_by (ss_start \<circ> snd) xs) (group_by (ss_end \<circ> snd) xs)"
  have lt: "p < q" "sorted_wrt (<) (q # bs)" "\<forall>b \<in> set bs. q < b" using 3(3) by auto
  have hull: "\<forall>x \<in> set xs. (ss_start (snd x) \<le> p \<or> q \<le> ss_start (snd x)) \<and> (ss_end (snd x) \<le> p \<or> q \<le> ss_end (snd x))"
  proof
    fix x assume "x \<in> set xs"
    then have "ss_start (snd x) \<le> p \<or> ss_start (snd x) = q \<or> ss_start (snd x) \<in> set bs"
        "ss_end (snd x) \<le> p \<or> ss_end (snd x) = q \<or> ss_end (snd x) \<in> set bs"
      using bspec [OF 3(8)] by fastforce+
    then show "(ss_start (snd x) \<le> p \<or> q \<le> ss_start (snd x)) \<and> (ss_end (snd x) \<le> p \<or> q \<le> ss_end (snd x))"
      using lt(3) by fastforce
  qed
  have a: "distinct ?a" "set ?a = activeAt xs p"
    using activeAfter_at [OF 3(5) _ 3(7)] 3(6) by simp_all
  have before: "set ?a = {x \<in> set xs. ss_start (snd x) < q \<and> q \<le> ss_end (snd x)}"
    unfolding a(2) activeAt_def using hull lt(1) by force
  have edges: "\<forall>x \<in> set xs. (ss_start (snd x) < q \<or> ss_start (snd x) \<in> set (q # bs)) \<and> (ss_end (snd x) < q \<or> ss_end (snd x) \<in> set (q # bs))"
    using 3(8) lt(1) by auto
  have rest: "count_at (?sw (q # bs) ?a m') key = count_at m' key + sum (secondCount threshold xs key) {q..<last (q # bs)}" for m'
    by (rule "3.IH"(2) [OF lt(2) list.distinct(2) a(1) _ 3(7), unfolded list.sel, OF before edges])
  have block: "sum (secondCount threshold xs key) {p..<q} = (q - p) * secondCount threshold xs key p"
  proof -
    have "sum (secondCount threshold xs key) {p..<q} = (\<Sum>_ \<in> {p..<q}. secondCount threshold xs key p)"
      by (intro sum.cong refl secondCount_const [OF hull]) simp_all
    then show ?thesis using lt(1) by simp
  qed
  have "q \<le> last (q # bs)" using lt(3) last_in_set [of bs] by fastforce
  then have whole: "sum (secondCount threshold xs key) {p..<last (q # bs)}
      = sum (secondCount threshold xs key) {p..<q} + sum (secondCount threshold xs key) {q..<last (q # bs)}"
    using lt(1) by (subst sum.union_disjoint [symmetric]) (auto intro!: arg_cong2 [where f = sum] simp: ivl_disj_un)
  have total: "count_at (?sw (p # q # bs) active m) key
      = count_at m key + (q - p) * secondCount threshold xs key p + sum (secondCount threshold xs key) {q..<last (q # bs)}"
  proof (cases "?a = [] \<or> int (length ?a) \<ge> threshold")
    case True
    then have "?sw (p # q # bs) active m = ?sw (q # bs) ?a m" by (simp only: sweep.simps Let_def if_True)
    then show ?thesis using rest secondCount_skip [OF a True] by simp
  next
    case False
    then have "?sw (p # q # bs) active m = ?sw (q # bs) ?a (bumps (seedKey \<circ> snd) (\<lambda>_. q - p) ?a m)"
      by (simp only: sweep.simps Let_def if_False)
    then show ?thesis using rest bumps_active [OF a False] by simp
  qed
  have "last (p # q # bs) = last (q # bs)" by simp
  then show ?case using total whole block by (simp only: list.sel)
qed simp_all

text \<open>The seconds a session counts for: those of its span in which the server is below the threshold.\<close>

definition population :: "seed_session list \<Rightarrow> string \<Rightarrow> int \<Rightarrow> int" where
  "population intervals server t =
     int (length (filter (\<lambda>j. ss_server j = server \<and> ss_start j \<le> t \<and> t < ss_end j) intervals))"

definition lowSeconds :: "int \<Rightarrow> seed_session list \<Rightarrow> seed_session \<Rightarrow> int" where
  "lowSeconds threshold intervals i =
     int (card {t. ss_start i \<le> t \<and> t < ss_end i \<and> population intervals (ss_server i) t < threshold})"

definition sweepReference :: "seed_session list \<Rightarrow> int \<Rightarrow> string \<Rightarrow> int" where
  "sweepReference intervals threshold key =
     sum_list (map (lowSeconds threshold intervals) (filter (\<lambda>i. seedKey i = key) intervals))"

lemma card_activeAt:
  "int (card (activeAt (List.enumerate 0 sessions) t)) =
     int (length (filter (\<lambda>j. ss_start j \<le> t \<and> t < ss_end j) sessions))"
proof -
  have d: "distinct (List.enumerate 0 sessions)" by (rule distinct_enumerate)
  have "card (activeAt (List.enumerate 0 sessions) t)
      = length (filter (\<lambda>x. ss_start (snd x) \<le> t \<and> t < ss_end (snd x)) (List.enumerate 0 sessions))"
    unfolding activeAt_def using distinct_card [OF distinct_filter [OF d]] by simp
  also have "\<dots> = length (filter (\<lambda>j. ss_start j \<le> t \<and> t < ss_end j) (map snd (List.enumerate 0 sessions)))"
    unfolding filter_map length_map comp_def ..
  finally show ?thesis by (simp only: map_snd_enumerate)
qed

lemma sum_secondCount:
  assumes "finite T" and "\<And>x. x \<in> set xs \<Longrightarrow> {ss_start (snd x)..<ss_end (snd x)} \<subseteq> T" and "distinct xs"
  shows "sum (secondCount threshold xs key) T =
    (\<Sum>x \<leftarrow> filter (\<lambda>x. seedKey (snd x) = key) xs.
       int (card {t. ss_start (snd x) \<le> t \<and> t < ss_end (snd x) \<and> int (card (activeAt xs t)) < threshold}))"
proof -
  let ?low = "\<lambda>t. int (card (activeAt xs t)) < threshold"
  let ?on = "\<lambda>x t. ss_start (snd x) \<le> t \<and> t < ss_end (snd x) \<and> ?low t"
  let ?X = "{x \<in> set xs. seedKey (snd x) = key}"
  have "secondCount threshold xs key t = (\<Sum>x \<in> ?X. if ?on x t then 1 else 0)" for t
  proof -
    have "{x \<in> activeAt xs t. seedKey (snd x) = key} = {x \<in> ?X. ss_start (snd x) \<le> t \<and> t < ss_end (snd x)}"
      by (auto simp: activeAt_def)
    then show ?thesis by (simp add: secondCount_def sum.If_cases Int_def)
  qed
  then have "sum (secondCount threshold xs key) T = (\<Sum>x \<in> ?X. \<Sum>t \<in> T. if ?on x t then 1 else 0)"
    using sum.swap by simp
  also have "\<dots> = (\<Sum>x \<in> ?X. int (card {t. ?on x t}))"
  proof (rule sum.cong [OF refl])
    fix x assume "x \<in> ?X"
    then have "T \<inter> {t. ?on x t} = {t. ?on x t}" using assms(2) by fastforce
    then show "(\<Sum>t \<in> T. if ?on x t then 1 else 0) = int (card {t. ?on x t})"
      using assms(1) by (simp add: sum.If_cases)
  qed
  also have "\<dots> = (\<Sum>x \<leftarrow> filter (\<lambda>x. seedKey (snd x) = key) xs. int (card {t. ?on x t}))"
    using sum.distinct_set_conv_list [OF distinct_filter [OF assms(3)], of "\<lambda>x. int (card {t. ?on x t})" "\<lambda>x. seedKey (snd x) = key"] by simp
  finally show ?thesis .
qed

lemma sum_list_enumerate: "sum_list (map (f \<circ> snd) (filter (p \<circ> snd) (List.enumerate n xs))) = sum_list (map f (filter p xs))"
  by (induction xs arbitrary: n) simp_all

lemma sweepServer_count:
  assumes "\<forall>i \<in> set sessions. liveSession i"
  shows "count_at (sweepServer threshold sessions m) key = count_at m key + (\<Sum>i \<leftarrow> filter (\<lambda>i. seedKey i = key) sessions.
    int (card {t. ss_start i \<le> t \<and> t < ss_end i
      \<and> int (length (filter (\<lambda>j. ss_start j \<le> t \<and> t < ss_end j) sessions)) < threshold}))"
proof (cases "sessions = []")
  case True
  then show ?thesis by (simp add: sweepServer_def group_by_def boundariesOf_def js_set_def)
next
  case False
  define xs where "xs = List.enumerate 0 sessions"
  define bs where "bs = boundariesOf (group_by (ss_start \<circ> snd) xs) (group_by (ss_end \<circ> snd) xs)"
  have live: "\<forall>x \<in> set xs. ss_start (snd x) < ss_end (snd x)"
  proof
    fix x assume "x \<in> set xs"
    then have "snd x \<in> set (map snd xs)" by simp
    then show "ss_start (snd x) < ss_end (snd x)" using assms by (auto simp: xs_def liveSession_def)
  qed
  have set_bs: "set bs = (ss_start \<circ> snd) ` set xs \<union> (ss_end \<circ> snd) ` set xs"
    unfolding bs_def boundariesOf_def by (simp add: group_by_keys)
  have ne: "bs \<noteq> []" using False set_bs by (auto simp: xs_def enumerate_eq_zip)
  have sorted: "sorted bs" "distinct bs" unfolding bs_def boundariesOf_def by simp_all
  then have "sorted_wrt (<) bs" by (simp add: strict_sorted_iff)
  moreover have lo: "\<forall>b \<in> set bs. hd bs \<le> b" using sorted(1) ne by (cases bs) auto
  moreover have hi: "\<forall>b \<in> set bs. b \<le> last bs" using sorted(1) ne by (metis sorted_wrt_append append_butlast_last_id
      list.set_intros(1) order_refl set_ConsD sorted_append rotate1.simps(2) set_rotate1)
  moreover have "{} = {x \<in> set xs. ss_start (snd x) < hd bs \<and> hd bs \<le> ss_end (snd x)}"
    using lo set_bs by force
  moreover have "\<forall>x \<in> set xs. ss_start (snd x) \<in> set bs \<and> ss_end (snd x) \<in> set bs" using set_bs by simp
  ultimately have "count_at (sweep threshold (group_by (ss_start \<circ> snd) xs) (group_by (ss_end \<circ> snd) xs) bs [] m) key
      = count_at m key + sum (secondCount threshold xs key) {hd bs..<last bs}"
    using ne live by (intro sweep_count) simp_all
  also have "sum (secondCount threshold xs key) {hd bs..<last bs} = (\<Sum>x \<leftarrow> filter (\<lambda>x. seedKey (snd x) = key) xs.
       int (card {t. ss_start (snd x) \<le> t \<and> t < ss_end (snd x) \<and> int (card (activeAt xs t)) < threshold}))"
  proof (rule sum_secondCount)
    show "{ss_start (snd x)..<ss_end (snd x)} \<subseteq> {hd bs..<last bs}" if "x \<in> set xs" for x
    proof -
      have "hd bs \<le> ss_start (snd x)" "ss_end (snd x) \<le> last bs" using that lo hi set_bs by auto
      then show ?thesis by auto
    qed
  qed (simp_all add: xs_def)
  finally show ?thesis
    unfolding xs_def card_activeAt sweepServer_def Let_def bs_def
    using sum_list_enumerate [of _ "\<lambda>i. seedKey i = key" 0 sessions] by (simp add: comp_def)
qed

lemma sweep_reference:
  "count_at (computeSeedSecondsByPlayerServer intervals threshold) key = sweepReference intervals threshold key"
proof (cases "threshold \<le> 0")
  case True
  then have "\<not> population intervals server t < threshold" for server t by (simp add: population_def)
  then have "lowSeconds threshold intervals i = 0" for i by (simp add: lowSeconds_def)
  then have "sum_list (map (lowSeconds threshold intervals) xs) = 0" for xs by (induction xs) simp_all
  then show ?thesis using True by (simp add: computeSeedSecondsByPlayerServer_def sweepReference_def)
next
  case False
  let ?live = "filter liveSession intervals"
  let ?h = "\<lambda>i. if seedKey i = key then lowSeconds threshold intervals i else 0"
  have pop: "int (length (filter (\<lambda>j. ss_start j \<le> t \<and> t < ss_end j) (filter (\<lambda>x. ss_server x = s) ?live))) = population intervals s t" for s t
    unfolding population_def filter_filter
    by (intro arg_cong [where f = "\<lambda>xs. int (length xs)"] filter_cong) (auto simp: liveSession_def)
  have server: "count_at (sweepServer threshold v m) key = count_at m key + sum_list (map ?h v)"
    if e: "(s, v) \<in> set (group_by ss_server ?live)" for s v m
  proof -
    have v: "v = filter (\<lambda>x. ss_server x = s) ?live" by (rule group_by_entry [OF e])
    have "map (\<lambda>i. int (card {t. ss_start i \<le> t \<and> t < ss_end i
      \<and> int (length (filter (\<lambda>j. ss_start j \<le> t \<and> t < ss_end j) v)) < threshold})) (filter (\<lambda>i. seedKey i = key) v)
      = map (lowSeconds threshold intervals) (filter (\<lambda>i. seedKey i = key) v)"
      unfolding v pop by (auto simp: lowSeconds_def)
    moreover have "\<forall>i \<in> set v. liveSession i" using v by simp
    ultimately show ?thesis by (simp only: sweepServer_count sum_list_map_filter')
  qed
  have "count_at (fold (\<lambda>(_, sessions). sweepServer threshold sessions) gs m) key
      = count_at m key + sum_list (map (\<lambda>(k, v). sum_list (map ?h v)) gs)"
    if "set gs \<subseteq> set (group_by ss_server ?live)" for gs m
    using that by (induction gs arbitrary: m) (auto simp: server)
  then have "count_at (computeSeedSecondsByPlayerServer intervals threshold) key = sum_list (map ?h ?live)"
    using False by (simp add: computeSeedSecondsByPlayerServer_def sum_groups)
  also have "\<dots> = sweepReference intervals threshold key"
  proof -
    have "sum_list (map ?h (filter liveSession ys)) = sum_list (map (lowSeconds threshold intervals) (filter (\<lambda>i. seedKey i = key) ys))" for ys
      by (induction ys) (auto simp: lowSeconds_def liveSession_def empty_span)
    then show ?thesis by (simp only: sweepReference_def)
  qed
  finally show ?thesis .
qed

lemma bumps_distinct: "distinct (map fst m) \<Longrightarrow> distinct (map fst (bumps f v xs m))"
  unfolding bumps_def by (induction xs arbitrary: m) (auto simp: map_bump_def distinct_map_put)

lemma sweep_distinct: "distinct (map fst m) \<Longrightarrow> distinct (map fst (sweep threshold sa ea bs active m))"
  by (induction threshold sa ea bs active m rule: sweep.induct) (auto simp: Let_def bumps_distinct)

lemma bySweep_distinct: "distinct (map fst (computeSeedSecondsByPlayerServer intervals threshold))"
proof -
  have "distinct (map fst m) \<Longrightarrow> distinct (map fst (fold (\<lambda>(_, sessions). sweepServer threshold sessions) gs m))" for gs :: "(string \<times> seed_session list) list" and m
    by (induction gs arbitrary: m) (auto simp: sweepServer_def Let_def sweep_distinct)
  then show ?thesis by (simp add: computeSeedSecondsByPlayerServer_def)
qed

lemma sum_entries: "distinct (map fst m) \<Longrightarrow> sum_list (map snd (filter (\<lambda>x. fst x = k) m)) = count_at m k"
proof (induction m)
  case (Cons c m)
  then show ?case by (cases c) (auto simp: count_at_def map_of_eq_None_iff [THEN iffD2] filter_empty_conv image_iff)
qed simp

lemma population_server: "P server \<Longrightarrow> population (filter (\<lambda>s. P (ss_server s)) xs) server t = population xs server t"
  unfolding population_def filter_filter by (intro arg_cong [where f = "\<lambda>ys. int (length ys)"] filter_cong) auto

end
