(* ===== verification/Bonus_Accrual.thy ===== *)
theory Bonus_Accrual
  imports Economy Seed_Time "HOL-Library.Multiset"
begin

text \<open>
  The daily accrual of bonuses, \<open>accrueDailyBonuses\<close> of \<^verbatim>\<open>packages/db/src/economy/accrual.ts\<close>: seed seconds from
  the day's sessions and seeding events, the set-based rewrite of the day's ledger rows, and the balance
  changes with the forgiveness of what a balance cannot cover.  The sessions and events tables are read
  only; their times are milliseconds.  Coefficients are exact rationals where the code has doubles.
  \<open>dayStart\<close> is what \<^verbatim>\<open>Date.parse\<close> makes of the day, in seconds.
\<close>

section \<open>Inputs\<close>

record session_row =
  sx_player :: string
  sx_server :: string
  sx_connected :: int
  sx_disconnected :: "int option"
  sx_mode :: "string option"

record seeding_row =
  sg_server :: string
  sg_started :: bool
  sg_at :: int

record accrual_input =
  ai_day :: string
  ai_dayStart :: int
  ai_now :: int
  ai_sessions :: "session_row list"
  ai_events :: "seeding_row list"

definition DAY_SECONDS :: int where "DAY_SECONDS = 86400"
definition SECONDS_PER_HOUR :: int where "SECONDS_PER_HOUR = 3600"
definition DEFAULT_SEED_THRESHOLD :: int where "DEFAULT_SEED_THRESHOLD = 40"
definition SESSION_PRUNE_LOOKBACK_SECONDS :: int where "SESSION_PRUNE_LOOKBACK_SECONDS = 2 * 86400"
definition DAILY_PRESENCE_REFERENCE_TYPE :: string where "DAILY_PRESENCE_REFERENCE_TYPE = ''daily_presence''"
definition ACCRUAL_TX_TYPES :: "tx_type list" where "ACCRUAL_TX_TYPES = [EarnOnline, EarnBoost, EarnSeed]"

section \<open>Seed seconds of the day\<close>

definition sessionOfDay :: "accrual_input \<Rightarrow> session_row \<Rightarrow> bool" where
  "sessionOfDay i s \<longleftrightarrow> orElse (sx_mode s) ''online'' \<noteq> ''queue''
     \<and> sx_connected s < (ai_dayStart i + DAY_SECONDS) * 1000
     \<and> orElse (sx_disconnected s) (ai_now i) > ai_dayStart i * 1000
     \<and> (sx_connected s \<ge> (ai_dayStart i - SESSION_PRUNE_LOOKBACK_SECONDS) * 1000 \<or> sx_disconnected s = None)"

definition intervalsOf :: "accrual_input \<Rightarrow> seed_session list" where
  "intervalsOf i =
     map (\<lambda>s. \<lparr>ss_player = sx_player s, ss_server = sx_server s,
               ss_start = max (sx_connected s div 1000) (ai_dayStart i),
               ss_end = min (orElse (sx_disconnected s) (ai_now i) div 1000) (ai_dayStart i + DAY_SECONDS)\<rparr>)
       (filter (sessionOfDay i) (ai_sessions i))"

definition toTransition :: "seeding_row \<Rightarrow> seeding_event" where
  "toTransition r = \<lparr>sv_type = (if sg_started r then Started else Ended), sv_at = sg_at r div 1000\<rparr>"

definition inDayEvents :: "accrual_input \<Rightarrow> seeding_row list" where
  "inDayEvents i = sort_key sg_at (filter (\<lambda>r. ai_dayStart i * 1000 \<le> sg_at r \<and> sg_at r < (ai_dayStart i + DAY_SECONDS) * 1000) (ai_events i))"

text \<open>\<^verbatim>\<open>DISTINCT ON (server_id) \<dots> ORDER BY server_id, occurred_at DESC\<close>: the latest earlier event per server.\<close>

definition preDayEvents :: "accrual_input \<Rightarrow> seeding_row list" where
  "preDayEvents i = sort_key sg_at (filter (\<lambda>r. sg_at r < ai_dayStart i * 1000) (ai_events i))"

definition preDayByServer :: "accrual_input \<Rightarrow> (string \<times> seeding_event) list" where
  "preDayByServer i = fold (\<lambda>r. map_put (sg_server r) (toTransition r)) (preDayEvents i) []"

definition inDayByServer :: "accrual_input \<Rightarrow> (string \<times> seeding_event list) list" where
  "inDayByServer i = fold (\<lambda>r. map_push (sg_server r) (toTransition r)) (inDayEvents i) []"

definition seedingServerIds :: "accrual_input \<Rightarrow> string list" where
  "seedingServerIds i = js_set (map fst (preDayByServer i) @ map fst (inDayByServer i))"

definition transitionsOf :: "accrual_input \<Rightarrow> string \<Rightarrow> seeding_event list" where
  "transitionsOf i server =
     (case map_of (preDayByServer i) server of Some t \<Rightarrow> [t] | None \<Rightarrow> []) @ orElse (map_of (inDayByServer i) server) []"

definition effectiveDayEnd :: "accrual_input \<Rightarrow> int" where
  "effectiveDayEnd i = min (ai_dayStart i + DAY_SECONDS) (ai_now i div 1000)"

definition windowsByServer :: "accrual_input \<Rightarrow> (string \<times> seeding_window list) list" where
  "windowsByServer i =
     map (\<lambda>server. (server, computeSeedingWindows (transitionsOf i server) (ai_dayStart i) (effectiveDayEnd i))) (seedingServerIds i)"

definition seedByKey :: "accrual_input \<Rightarrow> int \<Rightarrow> (string \<times> int) list" where
  "seedByKey i threshold =
     (let intervals = intervalsOf i;
          inWindows = filter (\<lambda>s. ss_server s \<in> set (seedingServerIds i)) intervals;
          fallback = filter (\<lambda>s. ss_server s \<notin> set (seedingServerIds i)) intervals
      in bumps fst snd (computeSeedSecondsByPlayerServer fallback threshold)
           (computeSeedSecondsWithinWindows inWindows (windowsByServer i)))"

definition seedRowOf :: "string \<times> int \<Rightarrow> (string \<times> string \<times> int) option" where
  "seedRowOf kv =
     (case split_on (CHR ''|'') (fst kv) of
        p # s # _ \<Rightarrow> if p \<noteq> [] \<and> s \<noteq> [] then Some (p, s, snd kv) else None
      | _ \<Rightarrow> None)"

definition seedPresence :: "string \<Rightarrow> (string \<times> int) list \<Rightarrow> presence_row list \<Rightarrow> presence_row list" where
  "seedPresence day seeds rows =
     fold (\<lambda>(p, s, seconds). update_rows (\<lambda>r. pr_day r = day \<and> pr_player r = p \<and> pr_server r = s) (\<lambda>r. r\<lparr>pr_seed := seconds\<rparr>))
       (List.map_filter seedRowOf seeds) (update_rows (\<lambda>r. pr_day r = day) (\<lambda>r. r\<lparr>pr_seed := 0\<rparr>) rows)"

definition updatePresence :: "string \<Rightarrow> (string \<times> int) list \<Rightarrow> econ \<Rightarrow> econ" where
  "updatePresence day seeds e = e\<lparr>ec_presence := seedPresence day seeds (ec_presence e)\<rparr>"

section \<open>The ledger rewrite\<close>

text \<open>\<^verbatim>\<open>Math.round((k * seconds) / 3600)\<close>: half rounds up.\<close>

definition accrualAmount :: "rat \<Rightarrow> int \<Rightarrow> int" where
  "accrualAmount k seconds = \<lfloor>k * of_int seconds / of_int SECONDS_PER_HOUR + 1 / 2\<rfloor>"

definition dayPlayers :: "string \<Rightarrow> econ \<Rightarrow> string list" where
  "dayPlayers day e = js_set (map pr_player (filter (\<lambda>r. pr_day r = day) (ec_presence e)))"

definition daySum :: "(presence_row \<Rightarrow> int) \<Rightarrow> string \<Rightarrow> string \<Rightarrow> econ \<Rightarrow> int" where
  "daySum f day pid e = sum_list (map f (filter (\<lambda>r. pr_day r = day \<and> pr_player r = pid) (ec_presence e)))"

fun desiredAmount :: "econ_settings \<Rightarrow> string \<Rightarrow> econ \<Rightarrow> string \<Rightarrow> tx_type \<Rightarrow> int" where
  "desiredAmount s day e pid EarnOnline = accrualAmount (es_kOnline s) (daySum pr_online day pid e)"
| "desiredAmount s day e pid EarnBoost = accrualAmount (es_kBoost s) (daySum pr_boost day pid e)"
| "desiredAmount s day e pid EarnSeed = accrualAmount (es_kSeed s) (daySum pr_seed day pid e)"
| "desiredAmount s day e pid _ = 0"

definition accrualTx :: "accrual_input \<Rightarrow> string \<Rightarrow> tx_type \<Rightarrow> int \<Rightarrow> bonus_tx" where
  "accrualTx i pid type amount =
     \<lparr>bt_player = pid, bt_amount = amount, bt_type = type, bt_refType = Some DAILY_PRESENCE_REFERENCE_TYPE,
      bt_refId = Some (ai_day i), bt_comment = None, bt_actor = None, bt_createdAt = ai_dayStart i * 1000\<rparr>"

definition desiredRows :: "accrual_input \<Rightarrow> econ_settings \<Rightarrow> econ \<Rightarrow> bonus_tx list" where
  "desiredRows i s e =
     concat (map (\<lambda>pid. map (\<lambda>type. accrualTx i pid type (desiredAmount s (ai_day i) e pid type)) ACCRUAL_TX_TYPES)
       (dayPlayers (ai_day i) e))"

definition insertRows :: "accrual_input \<Rightarrow> econ_settings \<Rightarrow> econ \<Rightarrow> bonus_tx list" where
  "insertRows i s e = filter (\<lambda>r. bt_amount r \<noteq> 0) (desiredRows i s e)"

definition accrualRow :: "string \<Rightarrow> string list \<Rightarrow> bonus_tx \<Rightarrow> bool" where
  "accrualRow day pids r \<longleftrightarrow> bt_player r \<in> set pids \<and> bt_refType r = Some DAILY_PRESENCE_REFERENCE_TYPE
     \<and> bt_refId r = Some day \<and> bt_type r \<in> set ACCRUAL_TX_TYPES"

fun insertAll :: "bonus_tx list \<Rightarrow> econ \<Rightarrow> db_error + econ" where
  "insertAll [] e = Inr e"
| "insertAll (r # rs) e = (case insertTx r e of Inl err \<Rightarrow> Inl err | Inr e' \<Rightarrow> insertAll rs e')"

fun changeBalances :: "(string \<times> int) list \<Rightarrow> econ \<Rightarrow> db_error + econ" where
  "changeBalances [] e = Inr e"
| "changeBalances ((pid, change) # cs) e =
     (case setBalance pid (balanceOf e pid + change) e of Inl err \<Rightarrow> Inl err | Inr e' \<Rightarrow> changeBalances cs e')"

definition forgiveTx :: "accrual_input \<Rightarrow> string \<times> int \<Rightarrow> bonus_tx" where
  "forgiveTx i ps = (accrualTx i (fst ps) Adjust (snd ps))\<lparr>bt_comment := Some ''shortfall''\<rparr>"

definition deltaByPlayer :: "string list \<Rightarrow> bonus_tx list \<Rightarrow> bonus_tx list \<Rightarrow> (string \<times> int) list" where
  "deltaByPlayer pids added removed =
     map (\<lambda>pid. (pid, count_at (bumps bt_player bt_amount added []) pid - count_at (bumps bt_player bt_amount removed []) pid)) pids"

definition shortfallOf :: "econ \<Rightarrow> string \<Rightarrow> int \<Rightarrow> int" where
  "shortfallOf e pid delta = max 0 (- (balanceOf e pid + delta))"

definition shortfalls :: "econ \<Rightarrow> (string \<times> int) list \<Rightarrow> (string \<times> int) list" where
  "shortfalls e deltas =
     map (\<lambda>d. (fst d, shortfallOf e (fst d) (snd d)))
       (filter (\<lambda>d. snd d < 0 \<and> findPlayer (ec_world e) (fst d) \<noteq> None \<and> 0 < shortfallOf e (fst d) (snd d)) deltas)"

record accrual_result =
  ar_enabled :: bool
  ar_playersAccrued :: nat
  ar_transactionsWritten :: nat
  ar_balanceDelta :: int
  ar_shortfallForgiven :: int

definition rewriteLedger :: "accrual_input \<Rightarrow> econ_settings \<Rightarrow> econ \<Rightarrow> accrual_result tx" where
  "rewriteLedger i s e =
     (let pids = dayPlayers (ai_day i) e;
          removed = filter (accrualRow (ai_day i) pids) (ec_ledger e);
          e1 = e\<lparr>ec_ledger := filter (\<lambda>r. \<not> accrualRow (ai_day i) pids r) (ec_ledger e)\<rparr>;
          added = insertRows i s e;
          deltas = deltaByPlayer pids added removed
      in case insertAll added e1 of
           Inl err \<Rightarrow> Inl err
         | Inr e2 \<Rightarrow>
             (let short = shortfalls e2 deltas
              in case insertAll (map (forgiveTx i) short) e2 of
                   Inl err \<Rightarrow> Inl err
                 | Inr e3 \<Rightarrow>
                     (let changes = filter (\<lambda>c. snd c \<noteq> 0) (map (\<lambda>(pid, delta). (pid, delta + count_at short pid)) deltas)
                      in case changeBalances changes e3 of
                           Inl err \<Rightarrow> Inl err
                         | Inr e4 \<Rightarrow> Inr (\<lparr>ar_enabled = True,
                              ar_playersAccrued = length (filter (\<lambda>pid. count_at (bumps bt_player bt_amount added []) pid \<noteq> 0
                                 \<or> count_at (bumps bt_player bt_amount removed []) pid \<noteq> 0) pids),
                              ar_transactionsWritten = length added, ar_balanceDelta = sum_list (map snd changes),
                              ar_shortfallForgiven = sum_list (map snd short)\<rparr>, e4))))"

definition accrueDailyBonuses :: "accrual_input \<Rightarrow> econ \<Rightarrow> accrual_result tx" where
  "accrueDailyBonuses i e =
     (let threshold = (case ec_settings e of Some s \<Rightarrow> es_seedThreshold s | None \<Rightarrow> DEFAULT_SEED_THRESHOLD);
          e = updatePresence (ai_day i) (seedByKey i threshold) e
      in case ec_settings e of
           Some s \<Rightarrow> if es_enabled s then rewriteLedger i s e
             else Inr (\<lparr>ar_enabled = False, ar_playersAccrued = 0, ar_transactionsWritten = 0, ar_balanceDelta = 0, ar_shortfallForgiven = 0\<rparr>, e)
         | None \<Rightarrow> Inr (\<lparr>ar_enabled = False, ar_playersAccrued = 0, ar_transactionsWritten = 0, ar_balanceDelta = 0, ar_shortfallForgiven = 0\<rparr>, e))"

section \<open>Batches of writes\<close>

lemma insertAll_Inr:
  assumes "insertAll rs e = Inr e'"
  shows "e' = e\<lparr>ec_ledger := ec_ledger e @ rs\<rparr>" and "\<forall>r \<in> set rs. bt_amount r \<noteq> 0 \<and> int4 (bt_amount r)"
    and "\<forall>r \<in> set rs. findPlayer (ec_world e) (bt_player r) \<noteq> None"
proof -
  have "e' = e\<lparr>ec_ledger := ec_ledger e @ rs\<rparr> \<and> (\<forall>r \<in> set rs. bt_amount r \<noteq> 0 \<and> int4 (bt_amount r))
      \<and> (\<forall>r \<in> set rs. findPlayer (ec_world e) (bt_player r) \<noteq> None)"
    using assms
  proof (induction rs arbitrary: e)
    case (Cons r rs)
    then obtain e1 where e1: "insertTx r e = Inr e1" and "insertAll rs e1 = Inr e'" by (auto split: sum.splits)
    moreover have "findPlayer (ec_world e) (bt_player r) \<noteq> None" using e1 by (auto simp: insertTx_def split: if_splits)
    ultimately show ?case using Cons.IH [of e1] insertTx_Inr [OF e1] by simp
  qed simp
  then show "e' = e\<lparr>ec_ledger := ec_ledger e @ rs\<rparr>" and "\<forall>r \<in> set rs. bt_amount r \<noteq> 0 \<and> int4 (bt_amount r)"
    and "\<forall>r \<in> set rs. findPlayer (ec_world e) (bt_player r) \<noteq> None" by blast+
qed

lemma insertAll_total:
  assumes "\<forall>r \<in> set rs. bt_amount r \<noteq> 0 \<and> int4 (bt_amount r) \<and> findPlayer (ec_world e) (bt_player r) \<noteq> None"
    and "\<forall>r \<in> set rs. \<forall>s \<in> set (ec_ledger e). \<not> sameKey r s" and "sorted_wrt (\<lambda>r s. \<not> sameKey s r) rs"
  shows "insertAll rs e = Inr (e\<lparr>ec_ledger := ec_ledger e @ rs\<rparr>)"
  using assms
proof (induction rs arbitrary: e)
  case (Cons r rs)
  have "insertTx r e = Inr (e\<lparr>ec_ledger := ec_ledger e @ [r]\<rparr>)"
    using Cons.prems by (auto simp: insertTx_def list_ex_iff)
  with Cons show ?case by auto
qed simp

lemma insertAll_clash:
  assumes "r \<in> set rs" and "list_ex (sameKey r) (ec_ledger e)"
  shows "\<exists>err. insertAll rs e = Inl err"
  using assms
proof (induction rs arbitrary: e)
  case (Cons q rs)
  show ?case
  proof (cases "insertTx q e")
    case (Inr e')
    have "r \<noteq> q" using Inr Cons.prems(2) by (auto simp: insertTx_def split: if_splits)
    then show ?thesis using Cons Inr insertTx_Inr(1) [OF Inr] by auto
  qed simp
qed simp

lemma count_at_absent: "k \<notin> fst ` set m \<Longrightarrow> count_at m k = 0"
  by (simp add: count_at_def map_of_eq_None_iff [THEN iffD2])

lemma changeBalances_Inr:
  assumes "changeBalances cs e = Inr e'" and "distinct (map fst cs)"
  shows "e' = e\<lparr>ec_balance := ec_balance e'\<rparr>" and "balanceOf e' q = balanceOf e q + count_at cs q"
    and "q \<in> fst ` set cs \<Longrightarrow> 0 \<le> balanceOf e' q \<and> balanceOf e' q \<le> INT4_MAX"
proof -
  have "e' = e\<lparr>ec_balance := ec_balance e'\<rparr> \<and> balanceOf e' q = balanceOf e q + count_at cs q
    \<and> (q \<in> fst ` set cs \<longrightarrow> 0 \<le> balanceOf e' q \<and> balanceOf e' q \<le> INT4_MAX)"
    using assms
  proof (induction cs e rule: changeBalances.induct)
    case (2 pid change cs e)
    obtain e1 where e1: "setBalance pid (balanceOf e pid + change) e = Inr e1" and rest: "changeBalances cs e1 = Inr e'"
      using "2.prems"(1) by (auto split: sum.splits)
    note s = setBalance_Inr [OF e1]
    have ih: "e' = e1\<lparr>ec_balance := ec_balance e'\<rparr>" "balanceOf e' q = balanceOf e1 q + count_at cs q"
        "q \<in> fst ` set cs \<longrightarrow> 0 \<le> balanceOf e' q \<and> balanceOf e' q \<le> INT4_MAX"
      using "2.IH" [OF e1 rest] "2.prems"(2) by auto
    have b1: "balanceOf e1 q = (if q = pid then balanceOf e pid + change else balanceOf e q)"
      by (simp add: s(1) balanceOf_def)
    have "e' = e\<lparr>ec_balance := ec_balance e'\<rparr>" using ih(1) s(1) by (metis econ.surjective econ.update_convs(2) econ.select_convs)
    moreover have "pid \<notin> fst ` set cs" using "2.prems"(2) by simp
    ultimately show ?case using ih(2,3) b1 s(2,3) count_at_absent [of pid cs]
      by (cases "q = pid") (auto simp: count_at_def)
  qed simp
  then show "e' = e\<lparr>ec_balance := ec_balance e'\<rparr>" and "balanceOf e' q = balanceOf e q + count_at cs q"
    and "q \<in> fst ` set cs \<Longrightarrow> 0 \<le> balanceOf e' q \<and> balanceOf e' q \<le> INT4_MAX" by blast+
qed

section \<open>What the rewrite leaves behind\<close>

lemma count_at_map: "count_at (map (\<lambda>k. (k, f k)) ks) q = (if q \<in> set ks then f q else 0)"
  by (induction ks) (auto simp: count_at_def)

lemma count_at_nonzero: "distinct (map fst m) \<Longrightarrow> count_at (filter (\<lambda>c. snd c \<noteq> 0) m) q = count_at m q"
proof (induction m)
  case (Cons c m)
  then show ?case
    using count_at_absent [of "fst c" "filter (\<lambda>c. snd c \<noteq> 0) m"] by (cases c) (auto simp: count_at_def image_iff)
qed simp

lemma distinct_dayPlayers [simp]: "distinct (dayPlayers day e)"
  by (simp add: dayPlayers_def)

definition sumOf :: "string \<Rightarrow> bonus_tx list \<Rightarrow> int" where
  "sumOf pid rows = sum_list (map bt_amount (filter (\<lambda>r. bt_player r = pid) rows))"

lemma sumOf_append [simp]: "sumOf q (xs @ ys) = sumOf q xs + sumOf q ys"
  by (simp add: sumOf_def)

lemma sumOf_bumps: "count_at (bumps bt_player bt_amount rows []) q = sumOf q rows"
  by (simp add: count_at_bumps sumOf_def)

lemma ledgerSum_sumOf: "ledgerSum e q = sumOf q (ec_ledger e)"
  by (simp add: ledgerSum_def sumOf_def)

lemma sumOf_split: "sumOf q (filter p rows) + sumOf q (filter (\<lambda>r. \<not> p r) rows) = sumOf q rows"
  by (induction rows) (auto simp: sumOf_def)

lemma sumOf_other: "\<forall>r \<in> set rows. bt_player r \<noteq> q \<Longrightarrow> sumOf q rows = 0"
  by (induction rows) (auto simp: sumOf_def)

text \<open>The change of a player's accruals, and what the balance cannot absorb of it.\<close>

definition dayDelta :: "accrual_input \<Rightarrow> econ_settings \<Rightarrow> econ \<Rightarrow> string \<Rightarrow> int" where
  "dayDelta i s e q = (if q \<in> set (dayPlayers (ai_day i) e)
     then sumOf q (insertRows i s e) - sumOf q (filter (accrualRow (ai_day i) (dayPlayers (ai_day i) e)) (ec_ledger e)) else 0)"

definition dayDeltas :: "accrual_input \<Rightarrow> econ_settings \<Rightarrow> econ \<Rightarrow> (string \<times> int) list" where
  "dayDeltas i s e = map (\<lambda>q. (q, dayDelta i s e q)) (dayPlayers (ai_day i) e)"

definition keptRows :: "accrual_input \<Rightarrow> econ \<Rightarrow> bonus_tx list" where
  "keptRows i e = filter (\<lambda>r. \<not> accrualRow (ai_day i) (dayPlayers (ai_day i) e) r) (ec_ledger e)"

definition dayChanges :: "accrual_input \<Rightarrow> econ_settings \<Rightarrow> econ \<Rightarrow> (string \<times> int) list" where
  "dayChanges i s e = filter (\<lambda>c. snd c \<noteq> 0)
     (map (\<lambda>q. (q, dayDelta i s e q + count_at (shortfalls e (dayDeltas i s e)) q)) (dayPlayers (ai_day i) e))"

lemma shortfalls_ledger [simp]: "shortfalls (e\<lparr>ec_ledger := x\<rparr>) ds = shortfalls e ds"
  by (simp add: shortfalls_def shortfallOf_def)

lemma deltaByPlayer_day:
  "deltaByPlayer (dayPlayers (ai_day i) e) (insertRows i s e) (filter (accrualRow (ai_day i) (dayPlayers (ai_day i) e)) (ec_ledger e))
     = dayDeltas i s e"
  by (auto simp: deltaByPlayer_def dayDeltas_def dayDelta_def sumOf_bumps)

lemma rewriteLedger_eq:
  "rewriteLedger i s e =
     (case insertAll (insertRows i s e) (e\<lparr>ec_ledger := keptRows i e\<rparr>) of
        Inl err \<Rightarrow> Inl err
      | Inr e2 \<Rightarrow>
          (case insertAll (map (forgiveTx i) (shortfalls e2 (dayDeltas i s e))) e2 of
             Inl err \<Rightarrow> Inl err
           | Inr e3 \<Rightarrow>
               (case changeBalances (filter (\<lambda>c. snd c \<noteq> 0) (map (\<lambda>q. (q, dayDelta i s e q + count_at (shortfalls e2 (dayDeltas i s e)) q)) (dayPlayers (ai_day i) e))) e3 of
                  Inl err \<Rightarrow> Inl err
                | Inr e4 \<Rightarrow> Inr (\<lparr>ar_enabled = True,
                    ar_playersAccrued = length (filter (\<lambda>q. sumOf q (insertRows i s e) \<noteq> 0
                       \<or> sumOf q (filter (accrualRow (ai_day i) (dayPlayers (ai_day i) e)) (ec_ledger e)) \<noteq> 0) (dayPlayers (ai_day i) e)),
                    ar_transactionsWritten = length (insertRows i s e),
                    ar_balanceDelta = sum_list (map snd (filter (\<lambda>c. snd c \<noteq> 0) (map (\<lambda>q. (q, dayDelta i s e q + count_at (shortfalls e2 (dayDeltas i s e)) q)) (dayPlayers (ai_day i) e)))),
                    ar_shortfallForgiven = sum_list (map snd (shortfalls e2 (dayDeltas i s e)))\<rparr>, e4))))"
  unfolding rewriteLedger_def Let_def deltaByPlayer_day keptRows_def [symmetric] sumOf_bumps
  by (simp add: dayDeltas_def comp_def split: sum.split)

lemma rewriteLedger_Inr:
  assumes "rewriteLedger i s e = Inr (res, e')"
  shows "ec_ledger e' = keptRows i e @ insertRows i s e @ map (forgiveTx i) (shortfalls e (dayDeltas i s e))"
    and "\<forall>r \<in> set (insertRows i s e @ map (forgiveTx i) (shortfalls e (dayDeltas i s e))). bt_amount r \<noteq> 0 \<and> int4 (bt_amount r)"
    and "changeBalances (dayChanges i s e) (e\<lparr>ec_ledger := ec_ledger e'\<rparr>) = Inr e'"
    and "\<forall>r \<in> set (insertRows i s e). findPlayer (ec_world e) (bt_player r) \<noteq> None"
proof -
  obtain e2 e3 where e2: "insertAll (insertRows i s e) (e\<lparr>ec_ledger := keptRows i e\<rparr>) = Inr e2"
      and e3: "insertAll (map (forgiveTx i) (shortfalls e2 (dayDeltas i s e))) e2 = Inr e3"
      and e4: "changeBalances (filter (\<lambda>c. snd c \<noteq> 0) (map (\<lambda>q. (q, dayDelta i s e q + count_at (shortfalls e2 (dayDeltas i s e)) q)) (dayPlayers (ai_day i) e))) e3 = Inr e'"
    using assms unfolding rewriteLedger_eq by (auto split: sum.splits)
  have e2': "e2 = e\<lparr>ec_ledger := keptRows i e @ insertRows i s e\<rparr>" using insertAll_Inr(1) [OF e2] by simp
  then have sh: "shortfalls e2 ds = shortfalls e ds" for ds by simp
  have e3': "e3 = e\<lparr>ec_ledger := keptRows i e @ insertRows i s e @ map (forgiveTx i) (shortfalls e (dayDeltas i s e))\<rparr>"
    using insertAll_Inr(1) [OF e3] unfolding sh e2' by simp
  have ch: "changeBalances (dayChanges i s e) e3 = Inr e'" using e4 unfolding sh dayChanges_def .
  have "distinct (map fst (dayChanges i s e))" unfolding dayChanges_def by (rule distinct_map_filter) (simp add: comp_def)
  from changeBalances_Inr(1) [OF ch this] have l: "ec_ledger e' = ec_ledger e3" by (metis econ.select_convs econ.surjective econ.update_convs(2))
  show "ec_ledger e' = keptRows i e @ insertRows i s e @ map (forgiveTx i) (shortfalls e (dayDeltas i s e))"
    using l e3' by simp
  show "\<forall>r \<in> set (insertRows i s e @ map (forgiveTx i) (shortfalls e (dayDeltas i s e))). bt_amount r \<noteq> 0 \<and> int4 (bt_amount r)"
    using insertAll_Inr(2) [OF e2] insertAll_Inr(2) [OF e3] unfolding sh by auto
  show "changeBalances (dayChanges i s e) (e\<lparr>ec_ledger := ec_ledger e'\<rparr>) = Inr e'"
    using ch l e3' by simp
  show "\<forall>r \<in> set (insertRows i s e). findPlayer (ec_world e) (bt_player r) \<noteq> None"
    using insertAll_Inr(3) [OF e2] by simp
qed

lemma dayChanges_facts:
  shows "distinct (map fst (dayChanges i s e))"
    and "count_at (dayChanges i s e) q = dayDelta i s e q + count_at (shortfalls e (dayDeltas i s e)) q"
proof -
  have fst: "map fst (map (\<lambda>q. (q, g q)) ks) = ks" for g :: "string \<Rightarrow> int" and ks by (simp add: comp_def)
  show "distinct (map fst (dayChanges i s e))" unfolding dayChanges_def by (rule distinct_map_filter) (simp only: fst distinct_dayPlayers)
  have "fst ` set (shortfalls e (dayDeltas i s e)) \<subseteq> set (dayPlayers (ai_day i) e)"
    by (auto simp: shortfalls_def dayDeltas_def)
  then have "count_at (shortfalls e (dayDeltas i s e)) q = 0" if "q \<notin> set (dayPlayers (ai_day i) e)"
    using that by (intro count_at_absent) blast
  then show "count_at (dayChanges i s e) q = dayDelta i s e q + count_at (shortfalls e (dayDeltas i s e)) q"
    unfolding dayChanges_def by (subst count_at_nonzero) (simp_all only: fst distinct_dayPlayers count_at_map, simp add: dayDelta_def)
qed

lemma sumOf_forgive: "distinct (map fst ss) \<Longrightarrow> sumOf q (map (forgiveTx i) ss) = count_at ss q"
proof (induction ss)
  case (Cons c ss)
  then show ?case using count_at_absent [of "fst c" ss] by (cases c) (auto simp: sumOf_def count_at_def forgiveTx_def accrualTx_def)
qed (simp add: sumOf_def)

lemma distinct_shortfalls: "distinct (map fst ds) \<Longrightarrow> distinct (map fst (shortfalls e ds))"
  by (simp add: shortfalls_def comp_def distinct_map_filter)

lemma insertRows_player: "r \<in> set (insertRows i s e) \<Longrightarrow> bt_player r \<in> set (dayPlayers (ai_day i) e)"
  by (auto simp: insertRows_def desiredRows_def accrualTx_def)

lemma rewriteLedger_ledgerOk:
  assumes ok: "ledgerOk e" and r: "rewriteLedger i s e = Inr (res, e')"
  shows "ledgerOk e'"
proof -
  note led = rewriteLedger_Inr(1) [OF r] and rows = rewriteLedger_Inr(2) [OF r]
  note ch = changeBalances_Inr [OF rewriteLedger_Inr(3) [OF r] dayChanges_facts(1)]
  have acc: "balanceOf e q = ledgerSum e q" "0 \<le> balanceOf e q" "balanceOf e q \<le> INT4_MAX" for q
    using ok unfolding ledgerOk_def by blast+
  have "distinct (map fst (dayDeltas i s e))" by (simp add: dayDeltas_def comp_def)
  note forgive = sumOf_forgive [OF distinct_shortfalls [OF this], of _ i e]
  have sums: "ledgerSum e' q = ledgerSum e q + dayDelta i s e q + count_at (shortfalls e (dayDeltas i s e)) q" for q
  proof -
    have "sumOf q (insertRows i s e) = 0" "sumOf q (filter (accrualRow (ai_day i) (dayPlayers (ai_day i) e)) (ec_ledger e)) = 0"
      if "q \<notin> set (dayPlayers (ai_day i) e)"
      using that insertRows_player by (auto intro!: sumOf_other simp: accrualRow_def)
    then show ?thesis
      using sumOf_split [of q "accrualRow (ai_day i) (dayPlayers (ai_day i) e)" "ec_ledger e"]
      by (auto simp: ledgerSum_sumOf led forgive keptRows_def dayDelta_def)
  qed
  have bal: "balanceOf e' q = balanceOf e q + dayDelta i s e q + count_at (shortfalls e (dayDeltas i s e)) q" for q
    using ch(2) [of q] dayChanges_facts(2) [of i s e q] by simp
  have "0 \<le> balanceOf e' q \<and> balanceOf e' q \<le> INT4_MAX" for q
  proof (cases "q \<in> fst ` set (dayChanges i s e)")
    case True
    then show ?thesis by (rule ch(3))
  next
    case False
    then show ?thesis using ch(2) [of q] acc [of q] by (simp add: count_at_absent)
  qed
  moreover have "\<forall>r \<in> set (ec_ledger e'). bt_amount r \<noteq> 0 \<and> int4 (bt_amount r)"
    using rows ok unfolding led by (auto simp: ledgerOk_def keptRows_def)
  ultimately show ?thesis unfolding ledgerOk_def using bal sums acc(1) by simp
qed

section \<open>Re-running a day\<close>

lemma insertRows_accrual: "r \<in> set (insertRows i s e) \<Longrightarrow> accrualRow (ai_day i) (dayPlayers (ai_day i) e) r"
  by (auto simp: insertRows_def desiredRows_def accrualTx_def accrualRow_def)

lemma forgive_no_accrual: "\<not> accrualRow day pids (forgiveTx i c)"
  by (simp add: forgiveTx_def accrualTx_def accrualRow_def ACCRUAL_TX_TYPES_def)

lemma desiredRows_keys: "map (\<lambda>r. (bt_player r, bt_type r)) (desiredRows i s e) = List.product (dayPlayers (ai_day i) e) ACCRUAL_TX_TYPES"
  unfolding desiredRows_def product_concat_map map_concat by (simp add: comp_def accrualTx_def)

lemma sorted_wrt_distinct: "distinct (map f xs) \<Longrightarrow> sorted_wrt (\<lambda>r s. f s \<noteq> f r) xs"
  by (induction xs) (auto simp: image_iff)

lemma insertRows_keys: "sorted_wrt (\<lambda>r q. \<not> sameKey q r) (insertRows i s e)"
proof -
  have "distinct (map (\<lambda>r. (bt_player r, bt_type r)) (desiredRows i s e))"
    unfolding desiredRows_keys by (intro distinct_product distinct_dayPlayers) (simp add: ACCRUAL_TX_TYPES_def)
  then have "sorted_wrt (\<lambda>r q. (bt_player q, bt_type q) \<noteq> (bt_player r, bt_type r)) (insertRows i s e)"
    unfolding insertRows_def by (intro sorted_wrt_distinct distinct_map_filter)
  then show ?thesis by (rule sorted_wrt_mono_rel [rotated]) (auto simp: sameKey_def)
qed

lemma accrual_same_key: "sameKey r q \<Longrightarrow> accrualRow day pids r \<Longrightarrow> accrualRow day pids q"
  by (auto simp: sameKey_def accrualRow_def)

lemma presence_determines:
  assumes "ec_presence e' = ec_presence e"
  shows "dayPlayers day e' = dayPlayers day e" "insertRows i s e' = insertRows i s e"
proof -
  show dp: "dayPlayers day e' = dayPlayers day e" for day by (simp add: dayPlayers_def assms)
  have "daySum f day pid e' = daySum f day pid e" for f day pid by (simp add: daySum_def assms)
  then have "desiredAmount s day e' pid type = desiredAmount s day e pid type" for day pid type by (cases type) simp_all
  then show "insertRows i s e' = insertRows i s e" by (simp add: insertRows_def desiredRows_def dp)
qed

lemma rewriteLedger_rows:
  assumes r: "rewriteLedger i s e = Inr (res, e')"
  shows "filter (accrualRow (ai_day i) (dayPlayers (ai_day i) e)) (ec_ledger e') = insertRows i s e"
    and "filter (\<lambda>r. \<not> accrualRow (ai_day i) (dayPlayers (ai_day i) e) r) (ec_ledger e')
      = keptRows i e @ map (forgiveTx i) (shortfalls e (dayDeltas i s e))"
  unfolding rewriteLedger_Inr(1) [OF r] using insertRows_accrual [of _ i s e]
  by (auto simp: keptRows_def filter_empty_conv filter_id_conv forgive_no_accrual)

lemma rewriteLedger_frame:
  assumes r: "rewriteLedger i s e = Inr (res, e')"
  shows "e' = e\<lparr>ec_ledger := ec_ledger e', ec_balance := ec_balance e'\<rparr>"
  using changeBalances_Inr(1) [OF rewriteLedger_Inr(3) [OF r] dayChanges_facts(1)] by simp

lemma rewriteLedger_again:
  assumes r: "rewriteLedger i s e = Inr (res, e')"
  shows "\<exists>res2. rewriteLedger i s e' = Inr (res2, e'\<lparr>ec_ledger := keptRows i e' @ insertRows i s e\<rparr>)
    \<and> ar_balanceDelta res2 = 0 \<and> ar_shortfallForgiven res2 = 0"
proof -
  have frame: "ec_presence e' = ec_presence e" "ec_world e' = ec_world e"
    using rewriteLedger_frame [OF r] by (metis econ.select_convs econ.surjective econ.update_convs(2,3))+
  note same = presence_determines [OF frame(1)]
  have d0: "dayDelta i s e' q = 0" for q unfolding dayDelta_def same rewriteLedger_rows(1) [OF r] by simp
  then have sh0: "shortfalls x (dayDeltas i s e') = []" for x by (simp add: shortfalls_def dayDeltas_def filter_empty_conv)
  have "insertAll (insertRows i s e) (e'\<lparr>ec_ledger := keptRows i e'\<rparr>) = Inr (e'\<lparr>ec_ledger := keptRows i e' @ insertRows i s e\<rparr>)"
  proof (rule trans [OF insertAll_total])
    show "\<forall>r \<in> set (insertRows i s e). bt_amount r \<noteq> 0 \<and> int4 (bt_amount r) \<and> findPlayer (ec_world (e'\<lparr>ec_ledger := keptRows i e'\<rparr>)) (bt_player r) \<noteq> None"
      using rewriteLedger_Inr(2,4) [OF r] frame(2) by auto
    show "\<forall>r \<in> set (insertRows i s e). \<forall>q \<in> set (ec_ledger (e'\<lparr>ec_ledger := keptRows i e'\<rparr>)). \<not> sameKey r q"
      using insertRows_accrual [of _ i s e] accrual_same_key by (fastforce simp: keptRows_def same)
  qed (simp_all add: insertRows_keys)
  then show ?thesis
    unfolding rewriteLedger_eq same sh0 by (simp add: d0)
qed

section \<open>Presence rows\<close>

definition seedThresholdOf :: "econ \<Rightarrow> int" where
  "seedThresholdOf e = (case ec_settings e of Some s \<Rightarrow> es_seedThreshold s | None \<Rightarrow> DEFAULT_SEED_THRESHOLD)"

text \<open>The state the ledger rewrite starts from.\<close>

definition withSeeds :: "accrual_input \<Rightarrow> econ \<Rightarrow> econ" where
  "withSeeds i e = updatePresence (ai_day i) (seedByKey i (seedThresholdOf e)) e"

lemma zero_after_seed:
  "update_rows (\<lambda>r. pr_day r = day) (\<lambda>r. r\<lparr>pr_seed := 0\<rparr>)
     (update_rows (\<lambda>r. pr_day r = day \<and> pr_player r = p \<and> pr_server r = s) (\<lambda>r. r\<lparr>pr_seed := x\<rparr>) rows)
   = update_rows (\<lambda>r. pr_day r = day) (\<lambda>r. r\<lparr>pr_seed := 0\<rparr>) rows"
  by (simp add: update_rows_def)

lemma seedPresence_again: "seedPresence day seeds (seedPresence day seeds rows) = seedPresence day seeds rows"
proof -
  let ?zero = "update_rows (\<lambda>r. pr_day r = day) (\<lambda>r. r\<lparr>pr_seed := 0\<rparr>)"
  have fold: "?zero (fold (\<lambda>(p, s, seconds). update_rows (\<lambda>r. pr_day r = day \<and> pr_player r = p \<and> pr_server r = s) (\<lambda>r. r\<lparr>pr_seed := seconds\<rparr>)) us rows)
      = ?zero rows" for us rows
    by (induction us arbitrary: rows) (auto simp: zero_after_seed split: prod.splits)
  have zero: "?zero (?zero rows) = ?zero rows" by (simp add: update_rows_def)
  show ?thesis unfolding seedPresence_def fold zero ..
qed

lemma withSeeds_simps [simp]:
  "ec_settings (withSeeds i e) = ec_settings e" "ec_ledger (withSeeds i e) = ec_ledger e"
  "ec_balance (withSeeds i e) = ec_balance e" "ec_world (withSeeds i e) = ec_world e" "ec_subs (withSeeds i e) = ec_subs e"
  "ec_tiers (withSeeds i e) = ec_tiers e"
  by (simp_all add: withSeeds_def updatePresence_def)

lemma withSeeds_again: "ec_presence e' = ec_presence (withSeeds i e) \<Longrightarrow> ec_settings e' = ec_settings e \<Longrightarrow> withSeeds i e' = e'"
  by (simp add: withSeeds_def seedThresholdOf_def updatePresence_def seedPresence_again)

lemma accrue_eq:
  "accrueDailyBonuses i e =
     (case ec_settings e of
        Some s \<Rightarrow> if es_enabled s then rewriteLedger i s (withSeeds i e)
          else Inr (\<lparr>ar_enabled = False, ar_playersAccrued = 0, ar_transactionsWritten = 0, ar_balanceDelta = 0, ar_shortfallForgiven = 0\<rparr>, withSeeds i e)
      | None \<Rightarrow> Inr (\<lparr>ar_enabled = False, ar_playersAccrued = 0, ar_transactionsWritten = 0, ar_balanceDelta = 0, ar_shortfallForgiven = 0\<rparr>, withSeeds i e))"
  by (simp add: accrueDailyBonuses_def Let_def seedThresholdOf_def [symmetric] withSeeds_def [symmetric] split: option.split)

lemma accrue_cases:
  assumes "accrueDailyBonuses i e = Inr (res, e')"
  obtains (rewritten) s where "ec_settings e = Some s" "es_enabled s" "rewriteLedger i s (withSeeds i e) = Inr (res, e')"
    | (disabled) "e' = withSeeds i e" "ar_balanceDelta res = 0" "ar_shortfallForgiven res = 0"
        "\<And>s. ec_settings e = Some s \<Longrightarrow> \<not> es_enabled s"
  using assms unfolding accrue_eq by (auto split: option.splits if_splits)

lemma accrue_ledgerOk:
  assumes "ledgerOk e" and "accrueDailyBonuses i e = Inr (res, e')"
  shows "ledgerOk e'"
proof -
  have "ledgerOk (withSeeds i e)" using assms(1) ledgerOk_same [of "withSeeds i e" e] by simp
  with assms(2) show ?thesis by (cases rule: accrue_cases) (auto intro: rewriteLedger_ledgerOk)
qed

lemma accrue_frame:
  assumes "accrueDailyBonuses i e = Inr (res, e')"
  shows "ec_world e' = ec_world e" "ec_subs e' = ec_subs e" "ec_tiers e' = ec_tiers e" "ec_settings e' = ec_settings e"
    "ec_presence e' = ec_presence (withSeeds i e)"
proof -
  have "\<exists>l b. e' = (withSeeds i e)\<lparr>ec_ledger := l, ec_balance := b\<rparr>"
    using assms
  proof (cases rule: accrue_cases)
    case (rewritten s)
    then show ?thesis using rewriteLedger_frame by blast
  next
    case disabled
    then show ?thesis by (metis econ.surjective econ.update_convs(2,3))
  qed
  then show "ec_world e' = ec_world e" "ec_subs e' = ec_subs e" "ec_tiers e' = ec_tiers e" "ec_settings e' = ec_settings e"
    "ec_presence e' = ec_presence (withSeeds i e)" by auto
qed

lemma accrue_again:
  assumes r: "accrueDailyBonuses i e = Inr (res, e')"
  shows "\<exists>res2 e2. accrueDailyBonuses i e' = Inr (res2, e2) \<and> ec_balance e2 = ec_balance e'
    \<and> mset (ec_ledger e2) = mset (ec_ledger e') \<and> ec_presence e2 = ec_presence e'
    \<and> ar_balanceDelta res2 = 0 \<and> ar_shortfallForgiven res2 = 0"
proof -
  note fr = accrue_frame [OF r]
  have again: "withSeeds i e' = e'" by (rule withSeeds_again [OF fr(5,4)])
  from r show ?thesis
  proof (cases rule: accrue_cases)
    case (rewritten s)
    obtain res2 where two: "rewriteLedger i s e' = Inr (res2, e'\<lparr>ec_ledger := keptRows i e' @ insertRows i s (withSeeds i e)\<rparr>)"
        "ar_balanceDelta res2 = 0" "ar_shortfallForgiven res2 = 0"
      using rewriteLedger_again [OF rewritten(3)] by blast
    have "mset (keptRows i e' @ insertRows i s (withSeeds i e)) = mset (ec_ledger e')"
    proof -
      have "keptRows i e' = keptRows i (withSeeds i e) @ map (forgiveTx i) (shortfalls (withSeeds i e) (dayDeltas i s (withSeeds i e)))"
        unfolding keptRows_def [of i e'] presence_determines(1) [OF fr(5)] by (rule rewriteLedger_rows(2) [OF rewritten(3)])
      then show ?thesis unfolding rewriteLedger_Inr(1) [OF rewritten(3)] by (simp add: ac_simps)
    qed
    then show ?thesis using two rewritten fr(4) again by (simp add: accrue_eq)
  next
    case disabled
    then show ?thesis using again fr(4) by (auto simp: accrue_eq split: option.split)
  qed
qed

section \<open>Seed seconds\<close>

lemma push_lookup:
  "orElse (map_of (fold (\<lambda>r. map_push (f r) (g r)) xs []) k) [] = map g (filter (\<lambda>r. f r = k) xs)"
proof -
  have "orElse (map_of (fold (\<lambda>r. map_push (f r) (g r)) xs m) k) [] = orElse (map_of m k) [] @ map g (filter (\<lambda>r. f r = k) xs)" for m
    by (induction xs arbitrary: m) (auto simp: map_push_def)
  from this [of "[]"] show ?thesis by simp
qed

lemma put_lookup: "map_of (fold (\<lambda>r. map_put (f r) (g r)) xs []) k = Some v \<Longrightarrow> \<exists>r \<in> set xs. v = g r"
proof -
  have "map_of (fold (\<lambda>r. map_put (f r) (g r)) xs m) k = Some v \<Longrightarrow> map_of m k = Some v \<or> (\<exists>r \<in> set xs. v = g r)" for m
    by (induction xs arbitrary: m) (fastforce split: if_splits)+
  from this [of "[]"] show "map_of (fold (\<lambda>r. map_put (f r) (g r)) xs []) k = Some v \<Longrightarrow> \<exists>r \<in> set xs. v = g r" by auto
qed

lemma transitions_sorted: "sorted (map sv_at (transitionsOf i server))"
proof -
  let ?in = "map toTransition (filter (\<lambda>r. sg_server r = server) (inDayEvents i))"
  have "sorted (map sg_at (filter (\<lambda>r. sg_server r = server) (inDayEvents i)))"
    unfolding inDayEvents_def by (intro sorted_filter) simp
  then have "sorted (map (\<lambda>r. sg_at r div 1000) (filter (\<lambda>r. sg_server r = server) (inDayEvents i)))"
    unfolding sorted_map by (rule sorted_wrt_mono_rel [rotated]) (simp add: zdiv_mono1)
  then have ins: "sorted (map sv_at ?in)" by (simp add: comp_def toTransition_def)
  have late: "ai_dayStart i \<le> sv_at t" if "t \<in> set ?in" for t
    using that by (auto simp: inDayEvents_def toTransition_def)
  have "sv_at t < ai_dayStart i" if "map_of (preDayByServer i) server = Some t" for t
    using put_lookup [OF that [unfolded preDayByServer_def]] by (auto simp: preDayEvents_def toTransition_def)
  with ins late show ?thesis
    unfolding transitionsOf_def inDayByServer_def push_lookup by (auto split: option.split) force
qed

text \<open>
  The seconds of a session that count as seed time: with seeding events, those in which the server was
  seeding; without, those in which fewer sessions than the threshold were open on it.
\<close>

definition seedSeconds :: "accrual_input \<Rightarrow> int \<Rightarrow> seed_session \<Rightarrow> int" where
  "seedSeconds i threshold s =
     (if ss_server s \<in> set (seedingServerIds i)
      then int (card {t. ss_start s \<le> t \<and> t < ss_end s \<and> t < effectiveDayEnd i \<and> seedingAt (transitionsOf i (ss_server s)) t})
      else lowSeconds threshold (intervalsOf i) s)"

lemma windowsByServer_lookup:
  "map_of (windowsByServer i) server = (if server \<in> set (seedingServerIds i)
     then Some (computeSeedingWindows (transitionsOf i server) (ai_dayStart i) (effectiveDayEnd i)) else None)"
  unfolding windowsByServer_def by (simp add: map_of_map_restrict restrict_map_def)

lemma interval_start: "s \<in> set (intervalsOf i) \<Longrightarrow> ai_dayStart i \<le> ss_start s"
  by (auto simp: intervalsOf_def)

lemma seedByKey_count:
  "count_at (seedByKey i threshold) key = (\<Sum>s \<leftarrow> filter (\<lambda>s. seedKey s = key) (intervalsOf i). seedSeconds i threshold s)"
proof -
  let ?ids = "set (seedingServerIds i)" let ?all = "intervalsOf i"
  let ?w = "filter (\<lambda>s. ss_server s \<in> ?ids) ?all" let ?f = "filter (\<lambda>s. ss_server s \<notin> ?ids) ?all"
  have ok: "\<exists>lo hi. windowsOk lo hi ws" if "map_of (windowsByServer i) server = Some ws" for server ws
  proof -
    have "windowsOk (ai_dayStart i) (effectiveDayEnd i) (computeSeedingWindows (transitionsOf i server) (ai_dayStart i) (effectiveDayEnd i))"
      unfolding computeSeedingWindows_def by (rule seedingLoop_windowsOk) (simp_all add: transitions_sorted)
    with that show ?thesis unfolding windowsByServer_lookup by (auto split: if_splits)
  qed
  have inside: "covers (orElse (map_of (windowsByServer i) (ss_server s)) []) t \<longleftrightarrow> t < effectiveDayEnd i \<and> seedingAt (transitionsOf i (ss_server s)) t"
    if "s \<in> set ?w" "ss_start s \<le> t" for s t
    using that interval_start [of s i] by (simp add: windowsByServer_lookup windows_cover [OF transitions_sorted])
  have win: "count_at (computeSeedSecondsWithinWindows ?w (windowsByServer i)) key = (\<Sum>s \<leftarrow> filter (\<lambda>s. seedKey s = key) ?w. seedSeconds i threshold s)"
  proof (subst within_count)
    show "\<exists>lo hi. windowsOk lo hi ws" if "map_of (windowsByServer i) server = Some ws" for server ws by (rule ok [OF that])
    show "(\<Sum>s \<leftarrow> filter (\<lambda>s. seedKey s = key) ?w. int (card {t. ss_start s \<le> t \<and> t < ss_end s \<and> covers (orElse (map_of (windowsByServer i) (ss_server s)) []) t}))
      = (\<Sum>s \<leftarrow> filter (\<lambda>s. seedKey s = key) ?w. seedSeconds i threshold s)"
      by (intro arg_cong [where f = sum_list] map_cong refl) (auto simp: seedSeconds_def inside intro!: arg_cong [where f = card])
  qed
  have low: "lowSeconds threshold ?f s = seedSeconds i threshold s" if "s \<in> set ?f" for s
    using that population_server [of "\<lambda>x. x \<notin> ?ids" "ss_server s" ?all] by (simp add: lowSeconds_def seedSeconds_def)
  have sweep: "count_at (computeSeedSecondsByPlayerServer ?f threshold) key = (\<Sum>s \<leftarrow> filter (\<lambda>s. seedKey s = key) ?f. seedSeconds i threshold s)"
    unfolding sweep_reference sweepReference_def by (intro arg_cong [where f = sum_list] map_cong refl low) simp
  have "count_at (seedByKey i threshold) key = (\<Sum>s \<leftarrow> filter (\<lambda>s. seedKey s = key) ?w. seedSeconds i threshold s) + (\<Sum>s \<leftarrow> filter (\<lambda>s. seedKey s = key) ?f. seedSeconds i threshold s)"
    unfolding seedByKey_def Let_def count_at_bumps sum_entries [OF bySweep_distinct] win sweep ..
  also have "\<dots> = (\<Sum>s \<leftarrow> filter (\<lambda>s. seedKey s = key) ?all. seedSeconds i threshold s)"
  proof -
    have "(\<Sum>s \<leftarrow> filter (\<lambda>s. seedKey s = key) (filter p xs). h s) + (\<Sum>s \<leftarrow> filter (\<lambda>s. seedKey s = key) (filter (\<lambda>s. \<not> p s) xs). h s)
      = (\<Sum>s \<leftarrow> filter (\<lambda>s. seedKey s = key) xs. h s)" for p xs and h :: "seed_session \<Rightarrow> int"
      by (induction xs) auto
    then show ?thesis .
  qed
  finally show ?thesis .
qed

text \<open>The forgiveness rows a run writes.\<close>

definition forgiven :: "accrual_input \<Rightarrow> econ \<Rightarrow> (string \<times> int) list" where
  "forgiven i e = (case ec_settings e of
      Some s \<Rightarrow> if es_enabled s then shortfalls (withSeeds i e) (dayDeltas i s (withSeeds i e)) else []
    | None \<Rightarrow> [])"

lemma forgiven_written:
  assumes "accrueDailyBonuses i e = Inr (res, e')" and "c \<in> set (forgiven i e)"
  shows "forgiveTx i c \<in> set (ec_ledger e')"
  using assms(1)
proof (cases rule: accrue_cases)
  case (rewritten s)
  then show ?thesis using assms(2) by (simp add: forgiven_def rewriteLedger_Inr(1) [OF rewritten(3)])
next
  case disabled
  then show ?thesis using assms(2) by (auto simp: forgiven_def split: option.splits if_splits)
qed

lemma forgiveTx_key: "ai_day i' = ai_day i \<Longrightarrow> ai_dayStart i' = ai_dayStart i \<Longrightarrow> fst c = fst d \<Longrightarrow> sameKey (forgiveTx i' c) (forgiveTx i d)"
  by (simp add: sameKey_def forgiveTx_def accrualTx_def)

lemma forgiven_clash:
  assumes "c \<in> set (forgiven i e)" and "r \<in> set (ec_ledger e)" and "sameKey (forgiveTx i c) r"
  shows "\<exists>err. accrueDailyBonuses i e = Inl err"
proof -
  obtain s where s: "ec_settings e = Some s" "es_enabled s" "c \<in> set (shortfalls (withSeeds i e) (dayDeltas i s (withSeeds i e)))"
    using assms(1) by (cases "ec_settings e") (auto simp: forgiven_def split: if_splits)
  have "\<not> accrualRow day pids r" for day pids
    using assms(3) by (auto simp: sameKey_def forgiveTx_def accrualTx_def accrualRow_def ACCRUAL_TX_TYPES_def)
  then have kept: "r \<in> set (keptRows i (withSeeds i e))" using assms(2) by (simp add: keptRows_def)
  have "\<exists>err. rewriteLedger i s (withSeeds i e) = Inl err"
  proof (cases "insertAll (insertRows i s (withSeeds i e)) ((withSeeds i e)\<lparr>ec_ledger := keptRows i (withSeeds i e)\<rparr>)")
    case (Inr e2)
    have e2: "e2 = (withSeeds i e)\<lparr>ec_ledger := keptRows i (withSeeds i e) @ insertRows i s (withSeeds i e)\<rparr>"
      using insertAll_Inr(1) [OF Inr] by simp
    have "\<exists>err. insertAll (map (forgiveTx i) (shortfalls e2 (dayDeltas i s (withSeeds i e)))) e2 = Inl err"
    proof (rule insertAll_clash)
      show "forgiveTx i c \<in> set (map (forgiveTx i) (shortfalls e2 (dayDeltas i s (withSeeds i e))))" using s(3) e2 by simp
      show "list_ex (sameKey (forgiveTx i c)) (ec_ledger e2)" using kept assms(3) by (auto simp: e2 list_ex_iff)
    qed
    with Inr show ?thesis by (auto simp: rewriteLedger_eq)
  qed (simp add: rewriteLedger_eq)
  with s show ?thesis by (simp add: accrue_eq)
qed

section \<open>A day with a spent accrual\<close>

definition econWorld :: world where
  "econWorld = \<lparr>w_roles = [], w_squad = [], w_perms = [],
     w_players = [\<lparr>pl_id = ''p'', pl_steam = None, pl_role = None, pl_expires = None, pl_comment = None\<rparr>], w_vip = [],
     w_sess = \<lparr>s_rows = [], s_redis = [], s_touches = [], s_revoked = []\<rparr>, w_tokens = [], w_token_touch = [], w_servers = [],
     w_outbox = [], w_discord = [], w_cache = [], w_owner_claimed = False\<rparr>"

definition demoRates :: "rat \<Rightarrow> econ_settings" where
  "demoRates k = \<lparr>es_kOnline = k, es_kBoost = 0, es_kSeed = 0, es_seedThreshold = 1, es_enabled = True, es_rewardRole = None, es_rewardHours = 0\<rparr>"

definition demoDay :: accrual_input where
  "demoDay = \<lparr>ai_day = ''d'', ai_dayStart = 0, ai_now = 0, ai_sessions = [], ai_events = []\<rparr>"

definition demoSpend :: bonus_tx where
  "demoSpend = \<lparr>bt_player = ''p'', bt_amount = - 100, bt_type = Spend, bt_refType = None, bt_refId = None, bt_comment = None, bt_actor = None, bt_createdAt = 1\<rparr>"

text \<open>Ten hours online at ten bonuses an hour, all spent; \<open>rows\<close> are the accrual and forgiveness rows so far.\<close>

definition demoEcon :: "rat \<Rightarrow> bonus_tx list \<Rightarrow> int \<Rightarrow> econ" where
  "demoEcon k rows balance = \<lparr>ec_world = econWorld, ec_balance = [(''p'', balance)], ec_ledger = rows, ec_tiers = [], ec_subs = [],
     ec_presence = [\<lparr>pr_player = ''p'', pr_server = ''s'', pr_day = ''d'', pr_online = 36000, pr_boost = 0, pr_seed = 0\<rparr>],
     ec_settings = Some (demoRates k), ec_audit = [], ec_alerts = []\<rparr>"

lemma demo_first: "accrueDailyBonuses demoDay (demoEcon 5 [accrualTx demoDay ''p'' EarnOnline 100, demoSpend] 0)
   = Inr (\<lparr>ar_enabled = True, ar_playersAccrued = 1, ar_transactionsWritten = 1, ar_balanceDelta = 0, ar_shortfallForgiven = 50\<rparr>,
          demoEcon 5 [demoSpend, accrualTx demoDay ''p'' EarnOnline 50, forgiveTx demoDay (''p'', 50)] 0)"
  by code_simp

lemma demo_first_forgives: "forgiven demoDay (demoEcon 5 [accrualTx demoDay ''p'' EarnOnline 100, demoSpend] 0) = [(''p'', 50)]"
  by code_simp

lemma demo_second_forgives:
  "forgiven demoDay (demoEcon 2 [demoSpend, accrualTx demoDay ''p'' EarnOnline 50, forgiveTx demoDay (''p'', 50)] 0) = [(''p'', 30)]"
  by code_simp

section \<open>Properties\<close>

text \<open>
  C28: Seed time is exact.  For every day, session table and event table, the seed seconds the accrual
  records for a player on a server are the number of seconds of the player's sessions in which the
  server was seeding, when the server has seeding events, and in which fewer sessions than the
  threshold were open on it, when it has none: the window reconstruction and the sweep line agree with
  counting second by second.
\<close>

theorem seed_seconds_exact:
  "count_at (seedByKey i threshold) key = (\<Sum>s \<leftarrow> filter (\<lambda>s. seedKey s = key) (intervalsOf i). seedSeconds i threshold s)"
  by (rule seedByKey_count)

text \<open>
  C29: Accrual is exact and repeatable.  After a run for a day, the day's accrual rows of the players
  with presence are exactly the rounded, non-zero amounts their presence earns.  Running the same
  day again always succeeds, leaves every balance and the ledger's rows as they were (up to their order)
  and forgives nothing: no day is counted twice.
\<close>

theorem accrual_repeatable:
  assumes "accrueDailyBonuses i e = Inr (res, e')"
  shows "(\<forall>s. ec_settings e = Some s \<and> es_enabled s \<longrightarrow>
      filter (accrualRow (ai_day i) (dayPlayers (ai_day i) e')) (ec_ledger e') = insertRows i s e')
    \<and> (\<exists>res2 e2. accrueDailyBonuses i e' = Inr (res2, e2) \<and> ec_balance e2 = ec_balance e'
      \<and> mset (ec_ledger e2) = mset (ec_ledger e') \<and> ar_balanceDelta res2 = 0 \<and> ar_shortfallForgiven res2 = 0)"
proof -
  have "filter (accrualRow (ai_day i) (dayPlayers (ai_day i) e')) (ec_ledger e') = insertRows i s e'"
    if s: "ec_settings e = Some s" "es_enabled s" for s
  proof -
    have r: "rewriteLedger i s (withSeeds i e) = Inr (res, e')" using assms s by (simp add: accrue_eq)
    show ?thesis
      using rewriteLedger_rows(1) [OF r] by (simp add: presence_determines [OF accrue_frame(5) [OF assms]])
  qed
  with accrue_again [OF assms] show ?thesis by blast
qed

theorem accrual_repeatable_witness:
  "let e = demoEcon 5 [accrualTx demoDay ''p'' EarnOnline 100, demoSpend] 0;
       e' = demoEcon 5 [demoSpend, accrualTx demoDay ''p'' EarnOnline 50, forgiveTx demoDay (''p'', 50)] 0
   in (\<exists>res. accrueDailyBonuses demoDay e = Inr (res, e'))
     \<and> (\<exists>res2 e2. accrueDailyBonuses demoDay e' = Inr (res2, e2) \<and> ec_balance e2 = [(''p'', 0)])"
  using accrual_repeatable [OF demo_first] demo_first by (auto simp: demoEcon_def [where balance = 0])

text \<open>
  C40: A second forgiveness blocks the day.  When a run for a day has forgiven a player a shortfall, no later
  run for that day that has to forgive the same player again can succeed: the compensating \<open>adjust\<close>
  row has the key of the first one, the unique index refuses it, and the whole day's transaction rolls
  back, for every player, as long as the shortfall persists.  (The comment of \<^verbatim>\<open>accrueDailyBonuses\<close> says that one
  player's spend never fails the whole day's transaction.)
\<close>

theorem second_forgiveness_fails:
  assumes "accrueDailyBonuses i e = Inr (res, e')" and "pid \<in> fst ` set (forgiven i e)"
    and "set (ec_ledger e') \<subseteq> set (ec_ledger e2)" and "ai_day i2 = ai_day i" and "ai_dayStart i2 = ai_dayStart i"
    and "pid \<in> fst ` set (forgiven i2 e2)"
  shows "\<exists>err. accrueDailyBonuses i2 e2 = Inl err"
proof -
  obtain c d where c: "c \<in> set (forgiven i2 e2)" "d \<in> set (forgiven i e)" "fst c = fst d" using assms(2,6) by force
  have "forgiveTx i d \<in> set (ec_ledger e2)" using forgiven_written [OF assms(1) c(2)] assms(3) by blast
  with forgiven_clash [OF c(1)] forgiveTx_key [OF assms(4,5) c(3)] show ?thesis by blast
qed

theorem second_forgiveness_fails_witness:
  "let e = demoEcon 5 [accrualTx demoDay ''p'' EarnOnline 100, demoSpend] 0;
       rows = [demoSpend, accrualTx demoDay ''p'' EarnOnline 50, forgiveTx demoDay (''p'', 50)]
   in (\<exists>res. accrueDailyBonuses demoDay e = Inr (res, demoEcon 5 rows 0))
     \<and> (\<exists>err. accrueDailyBonuses demoDay (demoEcon 2 rows 0) = Inl err)"
  using second_forgiveness_fails [OF demo_first, of "''p''" "demoEcon 2 [demoSpend, accrualTx demoDay ''p'' EarnOnline 50, forgiveTx demoDay (''p'', 50)] 0" demoDay]
    demo_first by (simp add: demo_first_forgives demo_second_forgives) (simp add: demoEcon_def)

end
