(* ===== verification/Economy_Safety.thy ===== *)
theory Economy_Safety
  imports Vip_Renewal Bonus_Accrual
begin

text \<open>
  Safety of the bonus economy over every sequence of its operations.  \<open>econ_op e0 e e'\<close> is one committed
  operation that takes \<open>e\<close> to \<open>e'\<close>: an adjustment, a purchase, a subscription, a cancellation, a renewal charge or
  expiry, an expiry of roles, an accrual.  \<open>e0\<close> is the state in which a route read settings and tiers, or the
  renewal pass its due subscriptions, before the transaction.  \<open>econ_step\<close> adds everything the rest of the panel may do that leaves ledger, balances
  and subscriptions alone.
\<close>

section \<open>What each operation changes\<close>

lemma frames [simp]:
  "ec_ledger (dropCached pid e) = ec_ledger e" "ec_balance (dropCached pid e) = ec_balance e" "ec_subs (dropCached pid e) = ec_subs e"
  "ec_tiers (dropCached pid e) = ec_tiers e" "w_players (ec_world (dropCached pid e)) = w_players (ec_world e)"
  "w_roles (ec_world (dropCached pid e)) = w_roles (ec_world e)"
  "ec_ledger (syncAllServers r a e) = ec_ledger e" "ec_balance (syncAllServers r a e) = ec_balance e" "ec_subs (syncAllServers r a e) = ec_subs e"
  "ec_tiers (syncAllServers r a e) = ec_tiers e" "w_players (ec_world (syncAllServers r a e)) = w_players (ec_world e)"
  "w_roles (ec_world (syncAllServers r a e)) = w_roles (ec_world e)"
  by (simp_all add: dropCached_def syncAllServers_def publishAdminsCfgSyncForAllServers_def)

text \<open>
  The tables of the economy after a grant, whatever follows it in the same transaction: the player row and
  the account changed as \<^const>\<open>grantChange\<close> says, and the subscriptions are \<open>subs\<close>.
\<close>

definition grants :: "int \<Rightarrow> int \<Rightarrow> grant_input \<Rightarrow> player_row \<Rightarrow> int \<Rightarrow> sub_row list \<Rightarrow> econ \<Rightarrow> econ \<Rightarrow> bool" where
  "grants now txTime i p x subs e e' \<longleftrightarrow> (\<exists>e1. grantChange now txTime i p x e e1
     \<and> ec_ledger e' = ec_ledger e1 \<and> ec_balance e' = ec_balance e1 \<and> ec_subs e' = subs \<and> ec_tiers e' = ec_tiers e1
     \<and> w_players (ec_world e') = w_players (ec_world e1) \<and> w_roles (ec_world e') = w_roles (ec_world e1))"

lemma grantChange_frame:
  assumes "grantChange now txTime i p x e e'"
  shows "ec_subs e' = ec_subs e" "ec_tiers e' = ec_tiers e" "ec_audit e' = ec_audit e"
proof -
  obtain w l b where "e' = e\<lparr>ec_world := w, ec_ledger := l, ec_balance := b\<rparr>" using assms unfolding grantChange_def by blast
  then show "ec_subs e' = ec_subs e" "ec_tiers e' = ec_tiers e" "ec_audit e' = ec_audit e" by simp_all
qed

lemma purchase_cases:
  assumes "purchase env actor pid tierId tier e = (rep, e')"
  obtains "e' = e"
    | now txTime i p x where "grants now txTime i p x (ec_subs e) e e'" and "gi_player i = pid" and "gi_tier i = tier"
proof -
  let ?i = "\<lparr>gi_player = pid, gi_tier = tier, gi_actor = Some actor, gi_refType = ''purchase'', gi_refId = tierId\<rparr>"
  let ?a = "applyVipGrant (ee_now env) (ee_txTime env) ?i e"
  show ?thesis
  proof (cases "\<exists>b r x e1. ?a = Inr (GrantOk b r x, e1)")
    case False
    then have "e' = e" using assms unfolding purchase_def by (auto split: sum.splits grant_result.splits)
    then show ?thesis by (rule that(1))
  next
    case True
    then obtain b r x e1 where a: "?a = Inr (GrantOk b r x, e1)" by blast
    obtain p where g: "grantChange (ee_now env) (ee_txTime env) ?i p x e e1" by (rule applyVipGrant_ok [OF a])
    note grantChange_frame(1) [OF g]
    moreover have "e' = dropCached pid (syncAllServers ''player.role.assign'' (Some actor) e1)"
      using assms a unfolding purchase_def by simp
    ultimately have "grants (ee_now env) (ee_txTime env) ?i p x (ec_subs e) e e'" using g by (auto simp: grants_def)
    then show ?thesis by (rule that(2)) simp_all
  qed
qed

definition newSub :: "econ_env \<Rightarrow> string \<Rightarrow> string \<Rightarrow> vip_tier \<Rightarrow> int \<Rightarrow> sub_row" where
  "newSub env pid tierId tier x = \<lparr>sb_id = ee_fresh env, sb_player = pid, sb_tier = tierId, sb_status = SubActive,
     sb_days = vt_days tier, sb_price = vt_price tier, sb_next = x - VIP_RENEWAL_LEAD_MS, sb_cancelledAt = None\<rparr>"

lemma createSubscription_cases:
  assumes "createSubscription env actor pid tierId tier e = (rep, e')"
  obtains "e' = e"
    | now txTime i p x where "grants now txTime i p x (ec_subs e @ [newSub env pid tierId tier x]) e e'" and "gi_player i = pid"
      and "gi_tier i = tier" and "0 < vt_days tier" and "\<forall>r \<in> set (ec_subs e). sb_id r \<noteq> ee_fresh env"
proof -
  let ?i = "\<lparr>gi_player = pid, gi_tier = tier, gi_actor = Some actor, gi_refType = ''vip_subscription'', gi_refId = ee_fresh env\<rparr>"
  let ?a = "applyVipGrant (ee_now env) (ee_txTime env) ?i e"
  show ?thesis
  proof (cases "\<not> hasActiveSub pid e \<and> (\<exists>b r x e1 e2. ?a = Inr (GrantOk b r x, e1) \<and> insertSub (newSub env pid tierId tier x) e1 = Inr e2)")
    case False
    then have "e' = e" using assms unfolding createSubscription_def newSub_def
      by (auto split: sum.splits grant_result.splits db_error.splits if_splits)
    then show ?thesis by (rule that(1))
  next
    case True
    then obtain b r x e1 e2 where a: "?a = Inr (GrantOk b r x, e1)" and i: "insertSub (newSub env pid tierId tier x) e1 = Inr e2"
        and n: "\<not> hasActiveSub pid e" by blast
    obtain p where g: "grantChange (ee_now env) (ee_txTime env) ?i p x e e1" by (rule applyVipGrant_ok [OF a])
    note subs = grantChange_frame(1) [OF g]
    have "e' = dropCached pid (syncAllServers ''player.role.assign'' (Some actor) e2)"
      using assms a i n unfolding createSubscription_def newSub_def by simp
    then have "grants (ee_now env) (ee_txTime env) ?i p x (ec_subs e @ [newSub env pid tierId tier x]) e e'"
      using g insertSub_Inr(1) [OF i] subs by (auto simp: grants_def)
    then show ?thesis by (rule that(2)) (use insertSub_Inr [OF i] subs in \<open>simp_all add: newSub_def\<close>)
  qed
qed

definition renewSubs :: "due_sub \<Rightarrow> sub_row list \<Rightarrow> sub_row list" where
  "renewSubs d subs = update_rows (stillDue d) (\<lambda>s. s\<lparr>sb_next := nextRenewalAfter (du_next d) (du_days d)\<rparr>) subs"

lemma charge_cases:
  assumes "chargeRenewal env d e = Inr (res, e')"
  obtains (kept) "e' = e" and "\<nexists>b x n. res = Charged b x n"
    | (charged) b x n p role where "res = Charged b x n" and "grants (rn_now env) (rn_txTime env (du_id d)) (renewalInput d) p x (renewSubs d (ec_subs e)) e e'"
      and "find_row (stillDue d) (ec_subs e) \<noteq> None" and "findRole (ec_world e) (du_role d) = Some role"
      and "\<not> panel_access role" and "\<not> is_system_role role" and "b = balanceOf e (du_player d) - du_price d"
proof -
  let ?a = "applyVipGrant (rn_now env) (rn_txTime env (du_id d)) (renewalInput d) e"
  show ?thesis
  proof (cases "\<exists>b x n. res = Charged b x n")
    case False
    then have "e' = e" using assms unfolding chargeRenewal_def
      by (auto simp: Let_def split: option.splits if_splits sum.splits grant_result.splits)
    then show ?thesis using False by (rule that(1))
  next
    case True
    then obtain b x n role r e1 where res: "res = Charged b x n" and role: "findRole (ec_world e) (du_role d) = Some role"
        "\<not> panel_access role" "\<not> is_system_role role" and a: "?a = Inr (GrantOk b r x, e1)"
        and due: "find_row (stillDue d) (ec_subs e1) \<noteq> None"
        and e': "e' = (let e2 = e1\<lparr>ec_subs := renewSubs d (ec_subs e1)\<rparr>; e3 = syncAllServers ''player.role.assign'' None e2
          in e3\<lparr>ec_audit := ec_audit e3 @ [\<lparr>au_action = ''player.subscription.renew'', au_target = du_player d, au_ref = Some (du_id d)\<rparr>]\<rparr>)"
      using assms unfolding chargeRenewal_def renewSubs_def Let_def
      by (auto split: option.splits if_splits sum.splits grant_result.splits)
    obtain p where g: "grantChange (rn_now env) (rn_txTime env (du_id d)) (renewalInput d) p x e e1"
        and b: "b = balanceOf e (gi_player (renewalInput d)) - vt_price (gi_tier (renewalInput d))"
      by (rule applyVipGrant_ok [OF a])
    note subs = grantChange_frame(1) [OF g]
    have "grants (rn_now env) (rn_txTime env (du_id d)) (renewalInput d) p x (renewSubs d (ec_subs e)) e e'"
      using g subs e' by (auto simp: grants_def Let_def)
    then show ?thesis by (rule that(2) [OF res _ _ role]) (use due subs b in \<open>simp_all add: renewalInput_def\<close>)
  qed
qed

lemma grants_ledgerOk:
  assumes "grants now txTime i p x subs e e'" and "ledgerOk e"
  shows "ledgerOk e'"
proof -
  obtain e1 where "grantChange now txTime i p x e e1" and same: "ec_ledger e' = ec_ledger e1" "ec_balance e' = ec_balance e1"
    using assms(1) by (auto simp: grants_def)
  then have "ledgerOk e1" using posts_ledgerOk assms(2) by (auto simp: grantChange_def)
  with ledgerOk_same [OF same] show ?thesis by simp
qed

lemma adjust_posts:
  assumes "adjustBonus env actor pid amount comment e = (rep, e')"
  obtains "e' = e"
    | a where "posts pid [adjustTx env a pid amount comment] e e'" and "ec_subs e' = ec_subs e" and "ec_world e' = ec_world e"
      and "ec_tiers e' = ec_tiers e"
proof (cases "e' = e")
  case False
  then obtain a e1 e2 where 1: "insertTx (adjustTx env a pid amount comment) e = Inr e1"
      and 2: "setBalance pid (balanceOf e pid + amount) e1 = Inr e2"
      and e': "e' = e2\<lparr>ec_audit := ec_audit e2 @ [\<lparr>au_action = ''player.bonus.adjust'', au_target = pid, au_ref = None\<rparr>]\<rparr>"
    using assms by (auto simp: adjustBonus_def Let_def split: if_splits option.splits sum.splits)
  have "posts pid [adjustTx env a pid amount comment] e e'"
    using insertTx_Inr [OF 1] setBalance_Inr [OF 2] e' by (auto simp: posts_def adjustTx_def balanceOf_def)
  moreover have "ec_subs e' = ec_subs e" "ec_world e' = ec_world e" "ec_tiers e' = ec_tiers e"
    using insertTx_Inr [OF 1] setBalance_Inr [OF 2] e' by auto
  ultimately show ?thesis by (rule that(2))
qed (rule that(1))

section \<open>The step relation\<close>

text \<open>
  The fields of a scanned subscription that no operation ever changes agree with its row, if the row is
  there.
\<close>

definition snapshotOf :: "due_sub \<Rightarrow> econ \<Rightarrow> bool" where
  "snapshotOf d e \<longleftrightarrow> (\<forall>s \<in> set (ec_subs e). sb_id s = du_id d \<longrightarrow>
     sb_player s = du_player d \<and> sb_tier s = du_tier d \<and> sb_days s = du_days d \<and> sb_price s = du_price d)"

inductive econ_op :: "econ \<Rightarrow> econ \<Rightarrow> econ \<Rightarrow> bool" where
  adjust: "adjustBonus env actor pid amount comment e = (rep, e') \<Longrightarrow> econ_op e0 e e'"
| shop: "bonusPurchase env actor pid tierId e0 e = (rep, e') \<Longrightarrow> econ_op e0 e e'"
| self_purchase: "mePurchase env actor tierId e0 e = (rep, e') \<Longrightarrow> econ_op e0 e e'"
| self_subscribe: "meSubscribe env actor tierId e0 e = (rep, e') \<Longrightarrow> econ_op e0 e e'"
| admin_subscribe: "grantSubscription env actor pid tierId days price e0 e = (rep, e') \<Longrightarrow> econ_op e0 e e'"
| cancel: "cancelSubscription env actor subId e = (rep, e') \<Longrightarrow> econ_op e0 e e'"
| charge: "d \<in> set (findDueSubscriptions now limit e0) \<Longrightarrow> snapshotOf d e \<Longrightarrow> chargeRenewal renv d e = Inr (res, e') \<Longrightarrow> econ_op e0 e e'"
| refuse: "expireRefused renv d (c, e) = (c', e') \<Longrightarrow> econ_op e0 e e'"
| role_expiry: "runRoleExpiryTick xenv limit e = Some (n, m, e') \<Longrightarrow> econ_op e0 e e'"
| accrue: "accrueDailyBonuses i e = Inr (ares, e') \<Longrightarrow> econ_op e0 e e'"

inductive econ_step :: "econ \<Rightarrow> econ \<Rightarrow> bool" where
  op: "econ_op e0 e e' \<Longrightarrow> econ_step e e'"
| other: "ec_ledger e' = ec_ledger e \<Longrightarrow> ec_balance e' = ec_balance e \<Longrightarrow> ec_subs e' = ec_subs e \<Longrightarrow> econ_step e e'"

section \<open>Expiry of roles\<close>

definition unassigned :: "player_row \<Rightarrow> player_row" where
  "unassigned p = p\<lparr>pl_role := None, pl_expires := None, pl_comment := None\<rparr>"

definition clearedBy :: "expired_assignment list \<Rightarrow> player_row \<Rightarrow> player_row \<Rightarrow> bool" where
  "clearedBy as p p' \<longleftrightarrow> p' = p \<or> (\<exists>a \<in> set as. assignmentUnchanged a p \<and> p' = unassigned p)"

definition expiryAudit :: "expired_assignment \<Rightarrow> system_audit" where
  "expiryAudit a = \<lparr>au_action = ''player.role.expire'', au_target = xa_player a, au_ref = Some (xa_role a)\<rparr>"

definition sessionRows :: "econ \<Rightarrow> session_record list" where
  "sessionRows e = s_rows (w_sess (ec_world e))"

text \<open>Clearing \<open>done'\<close>: the rows, the audit entries and the sessions move together.\<close>

definition clears :: "expired_assignment list \<Rightarrow> expired_assignment list \<Rightarrow> econ \<Rightarrow> econ \<Rightarrow> bool" where
  "clears as done' e e' \<longleftrightarrow> set done' \<subseteq> set as
     \<and> list_all2 (clearedBy done') (w_players (ec_world e)) (w_players (ec_world e'))
     \<and> ec_audit e' = ec_audit e @ map expiryAudit done'
     \<and> sessionRows e' = filter (\<lambda>s. s_player s \<notin> xa_player ` set done') (sessionRows e)
     \<and> ec_ledger e' = ec_ledger e \<and> ec_balance e' = ec_balance e \<and> ec_subs e' = ec_subs e \<and> ec_tiers e' = ec_tiers e
     \<and> w_roles (ec_world e') = w_roles (ec_world e) \<and> w_servers (ec_world e') = w_servers (ec_world e)"

lemma clears_refl: "clears as [] e e"
  by (simp add: clears_def clearedBy_def list_all2_refl)

lemma clearedBy_trans: "clearedBy as p q \<Longrightarrow> clearedBy bs q r \<Longrightarrow> clearedBy (as @ bs) p r"
  by (auto simp: clearedBy_def unassigned_def assignmentUnchanged_def)

lemma clears_trans:
  assumes "clears as xs e e1" and "clears bs ys e1 e2"
  shows "clears (as @ bs) (xs @ ys) e e2"
proof -
  have "list_all2 (clearedBy (xs @ ys)) (w_players (ec_world e)) (w_players (ec_world e2))"
    using assms list_all2_trans [of "clearedBy xs" "clearedBy ys" "clearedBy (xs @ ys)"] clearedBy_trans
    by (auto simp: clears_def)
  then show ?thesis using assms unfolding clears_def by (auto simp: image_Un intro: filter_cong)
qed

lemma clearOne_clears:
  assumes "clearOne audit a c = Some c'"
  shows "\<exists>xs. cs_cleared c' = cs_cleared c @ xs \<and> clears [a] xs (cs_econ c) (cs_econ c')"
proof -
  let ?w = "ec_world (cs_econ c)"
  obtain w where w: "updatePlayers (assignmentUnchanged a) (\<lambda>p. p\<lparr>pl_role := None, pl_expires := None, pl_comment := None\<rparr>) ?w = Some w"
    using assms by (auto simp: clearOne_def Let_def split: option.splits)
  show ?thesis
  proof (cases "find_row (assignmentUnchanged a) (w_players ?w) = None")
    case True
    then have "c' = c" using assms w by (simp add: clearOne_def)
    then show ?thesis using clears_refl by force
  next
    case False
    have rows: "list_all2 (clearedBy [a]) (w_players ?w) (update_rows (assignmentUnchanged a) unassigned (w_players ?w))"
      unfolding update_rows_def by (simp add: list_all2_map2 list_all2_same clearedBy_def)
    have wr: "w = ?w\<lparr>w_players := update_rows (assignmentUnchanged a) unassigned (w_players ?w)\<rparr>"
      using updatePlayers_Some [OF w] by (simp add: unassigned_def [abs_def])
    have c': "cs_cleared c' = cs_cleared c @ [a]"
        "cs_econ c' = snd (deleteSessionRowsForPlayer (xa_player a) ((cs_econ c)\<lparr>ec_world := w, ec_audit := ec_audit (cs_econ c) @ [expiryAudit a]\<rparr>))"
      using assms w False by (auto simp: clearOne_def expiryAudit_def Let_def deleteSessionRowsForPlayer_def split: if_splits)
    have "clears [a] [a] (cs_econ c) (cs_econ c')"
      using rows unfolding c'(2) clears_def deleteSessionRowsForPlayer_def wr sessionRows_def by (simp add: Let_def)
    with c'(1) show ?thesis by blast
  qed
qed

lemma clearLoop_clears:
  assumes "clearLoop audit as c = Some c'"
  shows "\<exists>xs. cs_cleared c' = cs_cleared c @ xs \<and> clears as xs (cs_econ c) (cs_econ c')"
  using assms
proof (induction as arbitrary: c)
  case Nil
  then show ?case using clears_refl by force
next
  case (Cons a as)
  then obtain c1 where c1: "clearOne audit a c = Some c1" and rest: "clearLoop audit as c1 = Some c'" by (auto split: option.splits)
  obtain xs where xs: "cs_cleared c1 = cs_cleared c @ xs" "clears [a] xs (cs_econ c) (cs_econ c1)" using clearOne_clears [OF c1] by blast
  obtain ys where ys: "cs_cleared c' = cs_cleared c1 @ ys" "clears as ys (cs_econ c1) (cs_econ c')" using Cons.IH [OF rest] by blast
  show ?case using clears_trans [OF xs(2) ys(2)] xs(1) ys(1) by auto
qed

lemma clears_frame:
  assumes "clears as xs e e1" and "w_players (ec_world e2) = w_players (ec_world e1)" "w_roles (ec_world e2) = w_roles (ec_world e1)"
    "sessionRows e2 = sessionRows e1" "ec_audit e2 = ec_audit e1" "ec_ledger e2 = ec_ledger e1" "ec_balance e2 = ec_balance e1"
    "ec_subs e2 = ec_subs e1" "ec_tiers e2 = ec_tiers e1" "w_servers (ec_world e2) = w_servers (ec_world e1)"
  shows "clears as xs e e2"
  using assms by (simp add: clears_def)

lemma notify_frame:
  "w_players (ec_world (notifySessionsRevoked o' pid ids e)) = w_players (ec_world e)"
  "w_roles (ec_world (notifySessionsRevoked o' pid ids e)) = w_roles (ec_world e)"
  "w_servers (ec_world (notifySessionsRevoked o' pid ids e)) = w_servers (ec_world e)"
  "sessionRows (notifySessionsRevoked o' pid ids e) = sessionRows e" "ec_audit (notifySessionsRevoked o' pid ids e) = ec_audit e"
  "ec_ledger (notifySessionsRevoked o' pid ids e) = ec_ledger e" "ec_balance (notifySessionsRevoked o' pid ids e) = ec_balance e"
  "ec_subs (notifySessionsRevoked o' pid ids e) = ec_subs e" "ec_tiers (notifySessionsRevoked o' pid ids e) = ec_tiers e"
  by (simp_all add: notifySessionsRevoked_def sessionRows_def Let_def)

lemma notify_fold:
  fixes f :: "'a \<Rightarrow> notify_outcome" and g :: "'a \<Rightarrow> string" and h :: "'a \<Rightarrow> string list"
  defines "N \<equiv> \<lambda>as e. fold (\<lambda>a. notifySessionsRevoked (f a) (g a) (h a)) as e"
  shows "w_players (ec_world (N as e)) = w_players (ec_world e)" "w_roles (ec_world (N as e)) = w_roles (ec_world e)"
    "w_servers (ec_world (N as e)) = w_servers (ec_world e)"
    "sessionRows (N as e) = sessionRows e" "ec_audit (N as e) = ec_audit e" "ec_ledger (N as e) = ec_ledger e"
    "ec_balance (N as e) = ec_balance e" "ec_subs (N as e) = ec_subs e" "ec_tiers (N as e) = ec_tiers e"
  unfolding N_def by (induction as arbitrary: e) (simp_all add: notify_frame)

lemma sync_frame:
  "w_servers (ec_world (syncAllServers r a e)) = w_servers (ec_world e)" "sessionRows (syncAllServers r a e) = sessionRows e"
  "ec_audit (syncAllServers r a e) = ec_audit e"
  by (simp_all add: syncAllServers_def publishAdminsCfgSyncForAllServers_def sessionRows_def)

text \<open>A successful tick clears a part of what its scan found.\<close>

lemma roleExpiry_clears:
  assumes "runRoleExpiryTick env limit e = Some (n, m, e')"
  obtains xs where "clears (findExpiredAssignments (xe_now env) limit e) xs e e'" and "n = length xs"
proof -
  let ?as = "findExpiredAssignments (xe_now env) limit e"
  let ?c0 = "\<lparr>cs_cleared = [], cs_revoked = [], cs_econ = e\<rparr>"
  show ?thesis
  proof (cases "?as = []")
    case True
    then show ?thesis using assms that [of "[]"] clears_refl by (simp add: runRoleExpiryTick_def)
  next
    case False
    then obtain c where c: "clearLoop (xe_audit env) ?as ?c0 = Some c"
      using assms by (auto simp: runRoleExpiryTick_def clearExpiredAssignments_def Let_def split: option.splits if_splits)
    obtain xs where xs: "cs_cleared c = xs" "clears ?as xs e (cs_econ c)" using clearLoop_clears [OF c] by auto
    show ?thesis
    proof (cases "xs = []")
      case True
      then have "e' = cs_econ c" "n = 0" using assms False c xs(1) by (auto simp: runRoleExpiryTick_def clearExpiredAssignments_def Let_def)
      then show ?thesis using that [of xs] xs True by simp
    next
      case nonempty: False
      let ?N = "fold (\<lambda>a. notifySessionsRevoked (xe_notify env (xa_player a)) (xa_player a) (orElse (map_of (cs_revoked c) (xa_player a)) [])) xs"
      have e': "e' = ?N (syncAllServers ''player.role.expire'' None (cs_econ c))" and n: "n = length xs"
        using assms False c xs(1) nonempty by (auto simp: runRoleExpiryTick_def clearExpiredAssignments_def Let_def)
      have "clears ?as xs e e'"
        by (rule clears_frame [OF xs(2)]) (simp_all add: e' notify_fold sync_frame)
      then show ?thesis using n by (rule that)
    qed
  qed
qed

section \<open>Classification of the operations\<close>

text \<open>A role that can be granted: neither opening the panel nor a system role.\<close>

definition sellable :: "econ \<Rightarrow> string \<Rightarrow> bool" where
  "sellable e rid \<longleftrightarrow> (case findRole (ec_world e) rid of Some role \<Rightarrow> \<not> panel_access role \<and> \<not> is_system_role role | None \<Rightarrow> False)"

lemma shop_resolves: "shopTier e tierId = resolveTier e tierId"
  by (auto simp: shopTier_def resolveTier_def split: option.splits)

lemma resolve_sellable:
  assumes "resolveTier e tierId = Resolved tier"
  shows "sellable e (vt_role tier)"
proof -
  obtain t role where t: "findTier e tierId = Some (t, role)" "vt_role tier = tr_role t" "\<not> panel_access role" "\<not> is_system_role role"
    using assms by (auto simp: resolveTier_def split: option.splits bool.splits if_splits)
  then have "findRole (ec_world e) (tr_role t) = Some role" by (auto simp: findTier_def split: option.splits)
  then show ?thesis using t by (simp add: sellable_def)
qed

definition retired :: "sub_row \<Rightarrow> sub_row \<Rightarrow> bool" where
  "retired s s' \<longleftrightarrow> s' = s \<or> sb_status s = SubActive \<and> sb_status s' \<noteq> SubActive \<and> sb_id s' = sb_id s \<and> sb_player s' = sb_player s
     \<and> sb_tier s' = sb_tier s \<and> sb_days s' = sb_days s \<and> sb_price s' = sb_price s \<and> sb_next s' = sb_next s"

definition sameTables :: "econ \<Rightarrow> econ \<Rightarrow> bool" where
  "sameTables e e' \<longleftrightarrow> ec_tiers e' = ec_tiers e \<and> w_players (ec_world e') = w_players (ec_world e) \<and> w_roles (ec_world e') = w_roles (ec_world e)"

lemma retire_rows: "\<forall>s. q s \<longrightarrow> retired s (f s) \<Longrightarrow> list_all2 retired subs (update_rows q f subs)"
  unfolding update_rows_def by (simp add: list_all2_map2 list_all2_same retired_def)

lemma retired_refl [simp]: "list_all2 retired subs subs"
  by (simp add: list_all2_same retired_def)

lemma cancel_retires:
  "cancelSubscription env actor subId e = (rep, e') \<Longrightarrow>
     ec_ledger e' = ec_ledger e \<and> ec_balance e' = ec_balance e \<and> sameTables e e' \<and> list_all2 retired (ec_subs e) (ec_subs e')"
  by (auto simp: cancelSubscription_def Let_def sameTables_def split: option.splits intro!: retire_rows) (simp_all add: retired_def)

lemma refuse_retires:
  "expireRefused env d (c, e) = (c', e') \<Longrightarrow>
     ec_ledger e' = ec_ledger e \<and> ec_balance e' = ec_balance e \<and> sameTables e e' \<and> list_all2 retired (ec_subs e) (ec_subs e')"
  by (auto simp: expireRefused_def expireSubscription_def Let_def sameTables_def split: if_splits bool.splits intro!: retire_rows) (simp_all add: retired_def)

lemma econ_op_cases:
  assumes "econ_op e0 e e'"
  obtains (quiet) "ec_ledger e' = ec_ledger e" "ec_balance e' = ec_balance e" "sameTables e e'" "list_all2 retired (ec_subs e) (ec_subs e')"
    | (post) pid rows where "posts pid rows e e'" "ec_subs e' = ec_subs e" "sameTables e e'"
    | (bought) now txTime i p x tierId where "grants now txTime i p x (ec_subs e) e e'" "resolveTier e0 tierId = Resolved (gi_tier i)"
    | (subscribed) now txTime i p x env tierId where
        "grants now txTime i p x (ec_subs e @ [newSub env (gi_player i) tierId (gi_tier i) x]) e e'"
        "\<exists>tier. resolveTier e0 tierId = Resolved tier \<and> vt_role (gi_tier i) = vt_role tier"
        "0 < vt_days (gi_tier i)" "\<forall>r \<in> set (ec_subs e). sb_id r \<noteq> ee_fresh env"
    | (renewed) now txTime d p x scan limit where "d \<in> set (findDueSubscriptions scan limit e0)" "grants now txTime (renewalInput d) p x (renewSubs d (ec_subs e)) e e'" "sellable e (du_role d)"
        "snapshotOf d e" "find_row (stillDue d) (ec_subs e) \<noteq> None"
    | (expired) now limit xs where "clears (findExpiredAssignments now limit e) xs e e'"
    | (accrued) i res where "accrueDailyBonuses i e = Inr (res, e')"
proof -
  have unchanged: thesis if "e' = e"
    using that by (intro quiet) (simp_all add: sameTables_def)
  have buy: thesis if "resolveTier e0 tierId = Resolved tier" "purchase env a pid tierId tier e = (rep, e')" for tierId tier env a pid rep
    using that(2)
  proof (cases rule: purchase_cases)
    case (2 now txTime i p x)
    then show ?thesis using bought that(1) by simp
  qed (rule unchanged)
  have subscribe: thesis if "\<exists>t. resolveTier e0 tierId = Resolved t \<and> vt_role tier = vt_role t" "createSubscription env a pid tierId tier e = (rep, e')" for tierId tier env a pid rep
    using that(2)
  proof (cases rule: createSubscription_cases)
    case (2 now txTime i p x)
    then show ?thesis using subscribed [of now txTime i p x env tierId] that(1) by simp
  qed (rule unchanged)
  from assms show ?thesis
  proof (cases rule: econ_op.cases)
    case (adjust env actor pid amount comment rep)
    from adjust show ?thesis
    proof (cases rule: adjust_posts)
      case (2 a)
      then show ?thesis by (intro post) (simp_all add: sameTables_def)
    qed (rule unchanged)
  next
    case (shop env actor pid tierId rep)
    then have "e' = e \<or> (\<exists>a tier. resolveTier e0 tierId = Resolved tier \<and> purchase env a pid tierId tier e = (rep, e'))"
      unfolding bonusPurchase_def shop_resolves by (auto split: option.splits if_splits resolved_tier.splits)
    then show ?thesis using unchanged buy by blast
  next
    case (self_purchase env actor tierId rep)
    then have "e' = e \<or> (\<exists>a tier. resolveTier e0 tierId = Resolved tier \<and> purchase env a a tierId tier e = (rep, e'))"
      unfolding mePurchase_def by (auto split: option.splits if_splits resolved_tier.splits)
    then show ?thesis using unchanged buy by blast
  next
    case (self_subscribe env actor tierId rep)
    then have "e' = e \<or> (\<exists>a tier. resolveTier e0 tierId = Resolved tier \<and> createSubscription env a a tierId tier e = (rep, e'))"
      unfolding meSubscribe_def by (auto split: option.splits if_splits resolved_tier.splits)
    then show ?thesis using unchanged subscribe by blast
  next
    case (admin_subscribe env actor pid tierId days price rep)
    then have "e' = e \<or> (\<exists>a tier. resolveTier e0 tierId = Resolved tier
        \<and> createSubscription env a pid tierId (tier\<lparr>vt_days := orElse days (vt_days tier), vt_price := orElse price (vt_price tier)\<rparr>) e = (rep, e'))"
      unfolding grantSubscription_def by (auto split: option.splits if_splits resolved_tier.splits)
    then show ?thesis using unchanged subscribe [of _ "tier\<lparr>vt_days := orElse days (vt_days tier), vt_price := orElse price (vt_price tier)\<rparr>" for tier] by force
  next
    case (cancel env actor subId rep)
    then show ?thesis using cancel_retires quiet by blast
  next
    case (charge d scan limit renv res)
    from charge(3) show ?thesis
    proof (cases rule: charge_cases)
      case kept
      from kept(1) show ?thesis by (rule unchanged)
    next
      case (charged b x n p role)
      then show ?thesis using charge(2) by (intro renewed [OF charge(1)]) (simp_all add: sellable_def)
    qed
  next
    case (refuse renv d c c')
    then show ?thesis using refuse_retires quiet by blast
  next
    case (role_expiry xenv limit n m)
    then show ?thesis by (rule roleExpiry_clears) (rule expired)
  next
    case (accrue i ares)
    then show ?thesis by (rule accrued)
  qed
qed

section \<open>Ledger\<close>

lemma econ_step_ledgerOk:
  assumes "econ_step e e'" and "ledgerOk e"
  shows "ledgerOk e'"
  using assms(1)
proof cases
  case (op e0)
  then show ?thesis
  proof (cases rule: econ_op_cases)
    case quiet
    then show ?thesis using assms(2) ledgerOk_same [of e' e] by simp
  next
    case (expired now limit xs)
    then show ?thesis using assms(2) ledgerOk_same [of e' e] by (simp add: clears_def)
  qed (use assms(2) in \<open>blast intro: posts_ledgerOk grants_ledgerOk accrue_ledgerOk\<close>)+
next
  case other
  then show ?thesis using assms(2) ledgerOk_same [of e' e] by simp
qed

lemma econ_reach_ledgerOk: "econ_step\<^sup>*\<^sup>* e e' \<Longrightarrow> ledgerOk e \<Longrightarrow> ledgerOk e'"
  by (induction rule: rtranclp_induct) (auto intro: econ_step_ledgerOk)

section \<open>Subscriptions\<close>

definition subsOk :: "econ \<Rightarrow> bool" where
  "subsOk e \<longleftrightarrow> distinct (map sb_id (ec_subs e)) \<and> (\<forall>s \<in> set (ec_subs e). 0 < sb_days s)"

text \<open>A later row of the same subscription: its terms are the same and its billing date has not moved back.\<close>

definition laterSub :: "sub_row \<Rightarrow> sub_row \<Rightarrow> bool" where
  "laterSub s s' \<longleftrightarrow> sb_id s' = sb_id s \<and> sb_player s' = sb_player s \<and> sb_tier s' = sb_tier s \<and> sb_days s' = sb_days s
     \<and> sb_price s' = sb_price s \<and> sb_next s \<le> sb_next s'"

lemma laterSub_refl [simp]: "laterSub s s"
  by (simp add: laterSub_def)

lemma laterSub_ids: "list_all2 laterSub ss ss' \<Longrightarrow> map sb_id ss' = map sb_id ss"
  by (induction rule: list_all2_induct) (auto simp: laterSub_def)

lemma laterSub_days: "list_all2 laterSub ss ss' \<Longrightarrow> \<forall>s \<in> set ss. 0 < sb_days s \<Longrightarrow> \<forall>s \<in> set ss'. 0 < sb_days s"
  by (induction rule: list_all2_induct) (auto simp: laterSub_def)

lemma retired_later: "list_all2 retired ss ss' \<Longrightarrow> list_all2 laterSub ss ss'"
  by (erule list_all2_mono) (auto simp: retired_def laterSub_def)

lemma renewSubs_later:
  assumes "snapshotOf d e" and "subsOk e"
  shows "list_all2 laterSub (ec_subs e) (renewSubs d (ec_subs e))"
proof -
  have "laterSub s (if stillDue d s then s\<lparr>sb_next := nextRenewalAfter (du_next d) (du_days d)\<rparr> else s)" if "s \<in> set (ec_subs e)" for s
    using that assms by (auto simp: laterSub_def stillDue_def snapshotOf_def subsOk_def nextRenewalAfter_def DAY_MS_def)
  then show ?thesis unfolding renewSubs_def update_rows_def by (auto simp: list_all2_map2 list_all2_same)
qed

text \<open>The rows after a step: the old ones, each possibly later, and perhaps one with a fresh id.\<close>

lemma econ_step_subs:
  assumes "econ_step e e'" and ok: "subsOk e"
  shows "\<exists>old new. list_all2 laterSub (ec_subs e) old \<and> ec_subs e' = old @ new
    \<and> (\<forall>s \<in> set new. sb_id s \<notin> sb_id ` set (ec_subs e) \<and> 0 < sb_days s) \<and> distinct (map sb_id new)"
  using assms(1)
proof cases
  case other
  then show ?thesis by (intro exI [of _ "ec_subs e"] exI [of _ "[]"]) (simp add: list_all2_same)
next
  case (op e0)
  then show ?thesis
  proof (cases rule: econ_op_cases)
    case quiet
    then show ?thesis using retired_later by (intro exI [of _ "ec_subs e'"] exI [of _ "[]"]) simp
  next
    case (post pid rows)
    then show ?thesis by (intro exI [of _ "ec_subs e"] exI [of _ "[]"]) (simp add: list_all2_same)
  next
    case (bought now txTime i p x tierId)
    then show ?thesis by (intro exI [of _ "ec_subs e"] exI [of _ "[]"]) (auto simp: list_all2_same grants_def)
  next
    case (subscribed now txTime i p x env tierId)
    then show ?thesis by (intro exI [of _ "ec_subs e"] exI [of _ "[newSub env (gi_player i) tierId (gi_tier i) x]"])
        (auto simp: list_all2_same grants_def newSub_def image_iff)
  next
    case (renewed now txTime d p x scan limit)
    then show ?thesis using renewSubs_later [OF _ ok] by (intro exI [of _ "renewSubs d (ec_subs e)"] exI [of _ "[]"]) (auto simp: grants_def)
  next
    case (expired now limit xs)
    then show ?thesis by (intro exI [of _ "ec_subs e"] exI [of _ "[]"]) (simp add: list_all2_same clears_def)
  next
    case (accrued i res)
    then show ?thesis using accrue_frame(2) by (intro exI [of _ "ec_subs e"] exI [of _ "[]"]) (simp add: list_all2_same)
  qed
qed

lemma econ_step_subsOk: "econ_step e e' \<Longrightarrow> subsOk e \<Longrightarrow> subsOk e'"
proof -
  assume "econ_step e e'" and ok: "subsOk e"
  then obtain old new where r: "list_all2 laterSub (ec_subs e) old" "ec_subs e' = old @ new"
      "\<forall>s \<in> set new. sb_id s \<notin> sb_id ` set (ec_subs e) \<and> 0 < sb_days s" "distinct (map sb_id new)"
    using econ_step_subs by blast
  note ids = laterSub_ids [OF r(1)]
  then have "sb_id ` set old = sb_id ` set (ec_subs e)" by (metis set_map)
  then have "distinct (map sb_id (old @ new))"
    using ok r(3,4) ids unfolding map_append distinct_append by (auto simp: subsOk_def) (metis imageI)
  then show "subsOk e'" using ok r(2,3) laterSub_days [OF r(1)] by (auto simp: subsOk_def)
qed

lemma econ_step_later:
  assumes "econ_step e e'" and "subsOk e" and "s \<in> set (ec_subs e)"
  shows "\<exists>s' \<in> set (ec_subs e'). laterSub s s'"
proof -
  obtain old new where "list_all2 laterSub (ec_subs e) old" "ec_subs e' = old @ new" using econ_step_subs [OF assms(1,2)] by blast
  then show ?thesis using assms(3) by (fastforce simp: list_all2_conv_all_nth in_set_conv_nth)
qed

lemma laterSub_trans: "laterSub a b \<Longrightarrow> laterSub b c \<Longrightarrow> laterSub a c"
  by (simp add: laterSub_def)

lemma econ_reach_subs:
  assumes "econ_step\<^sup>*\<^sup>* e e'" and "subsOk e"
  shows "subsOk e' \<and> (\<forall>s \<in> set (ec_subs e). \<exists>s' \<in> set (ec_subs e'). laterSub s s')"
  using assms
proof (induction rule: rtranclp_induct)
  case base
  then show ?case using laterSub_refl by blast
next
  case (step e1 e2)
  then show ?case using econ_step_subsOk econ_step_later laterSub_trans by meson
qed

lemma sub_unique: "subsOk e \<Longrightarrow> s \<in> set (ec_subs e) \<Longrightarrow> t \<in> set (ec_subs e) \<Longrightarrow> sb_id s = sb_id t \<Longrightarrow> s = t"
  by (auto simp: subsOk_def distinct_map inj_on_def)

lemma dueSub_fields:
  assumes "d \<in> set (findDueSubscriptions now limit e)"
  obtains s where "s \<in> set (ec_subs e)" "sb_id s = du_id d" "sb_player s = du_player d" "sb_tier s = du_tier d" "sb_days s = du_days d"
    "sb_price s = du_price d" "sb_next s = du_next d" "\<exists>t. find_row (\<lambda>t. tr_id t = du_tier d) (ec_tiers e) = Some t \<and> tr_role t = du_role d"
proof -
  have "d \<in> set (List.map_filter (dueSub e now) (ec_subs e))"
    using assms set_take_subset by (fastforce simp: findDueSubscriptions_def)
  then obtain s where "s \<in> set (ec_subs e)" "dueSub e now s = Some d" by (auto simp: map_filter_def)
  then show ?thesis by (intro that [of s]) (auto simp: dueSub_def split: if_splits)
qed

text \<open>The side condition on charges holds for every scan of an earlier state.\<close>

lemma scan_snapshot:
  assumes "d \<in> set (findDueSubscriptions now limit e0)" and "subsOk e0" and "econ_step\<^sup>*\<^sup>* e0 e"
  shows "snapshotOf d e"
proof -
  obtain s where s: "s \<in> set (ec_subs e0)" "sb_id s = du_id d" "sb_player s = du_player d" "sb_tier s = du_tier d" "sb_days s = du_days d"
    "sb_price s = du_price d" by (rule dueSub_fields [OF assms(1)])
  obtain s' where s': "s' \<in> set (ec_subs e)" "laterSub s s'" "subsOk e" using econ_reach_subs [OF assms(3,2)] s(1) by blast
  then show ?thesis using s sub_unique [OF s'(3) s'(1)] by (fastforce simp: snapshotOf_def laterSub_def)
qed

lemma charged_moves:
  assumes "chargeRenewal env d e = Inr (Charged b x n, e')" and "subsOk e" and "snapshotOf d e"
  shows "\<exists>s \<in> set (ec_subs e'). sb_id s = du_id d \<and> du_next d < sb_next s \<and> sb_status s = SubActive"
  using assms(1)
proof (cases rule: charge_cases)
  case (charged b' x' n' p role)
  obtain s where s: "s \<in> set (ec_subs e)" "stillDue d s" using charged(3) find_row_Some by fastforce
  have "s\<lparr>sb_next := nextRenewalAfter (du_next d) (du_days d)\<rparr> \<in> set (renewSubs d (ec_subs e))"
    using s by (auto simp: renewSubs_def set_update_rows)
  moreover have "0 < du_days d" using s assms(2,3) by (auto simp: snapshotOf_def subsOk_def stillDue_def)
  moreover have "ec_subs e' = renewSubs d (ec_subs e)" using charged(2) by (auto simp: grants_def)
  ultimately show ?thesis using s(2)
    by (intro bexI [of _ "s\<lparr>sb_next := nextRenewalAfter (du_next d) (du_days d)\<rparr>"]) (auto simp: stillDue_def nextRenewalAfter_def DAY_MS_def)
qed simp

section \<open>Players\<close>

lemma grants_players:
  assumes "grants now txTime i p x subs e e'"
  shows "w_players (ec_world e') = update_rows (\<lambda>p. pl_id p = gi_player i) (\<lambda>p. p\<lparr>pl_role := Some (vt_role (gi_tier i)), pl_expires := Some x\<rparr>) (w_players (ec_world e))"
    and "findPlayer (ec_world e) (gi_player i) = Some p" and "pl_role p = None \<or> pl_role p = Some (vt_role (gi_tier i)) \<and> pl_expires p \<noteq> None"
    and "x = (case pl_expires p of Some y \<Rightarrow> if pl_role p = Some (vt_role (gi_tier i)) \<and> y > now then y else now | None \<Rightarrow> now) + vt_days (gi_tier i) * DAY_MS"
    and "w_roles (ec_world e') = w_roles (ec_world e)" and "ec_tiers e' = ec_tiers e" and "ec_subs e' = subs"
proof -
  obtain e1 where g: "grantChange now txTime i p x e e1" and same: "w_players (ec_world e') = w_players (ec_world e1)"
      "w_roles (ec_world e') = w_roles (ec_world e1)" "ec_tiers e' = ec_tiers e1" "ec_subs e' = subs"
    using assms by (auto simp: grants_def)
  have "updatePlayers (\<lambda>p. pl_id p = gi_player i) (\<lambda>p. p\<lparr>pl_role := Some (vt_role (gi_tier i)), pl_expires := Some x\<rparr>) (ec_world e) = Some (ec_world e1)"
    using g unfolding grantChange_def by blast
  note w = updatePlayers_Some [OF this]
  show "w_players (ec_world e') = update_rows (\<lambda>p. pl_id p = gi_player i) (\<lambda>p. p\<lparr>pl_role := Some (vt_role (gi_tier i)), pl_expires := Some x\<rparr>) (w_players (ec_world e))"
    and "w_roles (ec_world e') = w_roles (ec_world e)" using same w by simp_all
  show "ec_tiers e' = ec_tiers e" "ec_subs e' = subs" using same grantChange_frame [OF g] by simp_all
  show "findPlayer (ec_world e) (gi_player i) = Some p" "pl_role p = None \<or> pl_role p = Some (vt_role (gi_tier i)) \<and> pl_expires p \<noteq> None"
    "x = (case pl_expires p of Some y \<Rightarrow> if pl_role p = Some (vt_role (gi_tier i)) \<and> y > now then y else now | None \<Rightarrow> now) + vt_days (gi_tier i) * DAY_MS"
    using g unfolding grantChange_def by blast+
qed

lemma grants_findPlayer:
  assumes "grants now txTime i p x subs e e'"
  shows "findPlayer (ec_world e') pid = (if pid = gi_player i
    then Some (p\<lparr>pl_role := Some (vt_role (gi_tier i)), pl_expires := Some x\<rparr>) else findPlayer (ec_world e) pid)"
  using grants_players(2) [OF assms] unfolding findPlayer_def grants_players(1) [OF assms]
  by (simp add: find_row_update [where key = pl_id])

lemma cleared_findPlayer:
  assumes "list_all2 (clearedBy xs) ps ps'" and "find_row (\<lambda>p. pl_id p = pid) ps' = Some p'"
  shows "\<exists>p. find_row (\<lambda>p. pl_id p = pid) ps = Some p \<and> clearedBy xs p p'"
  using assms by (induction rule: list_all2_induct) (auto simp: clearedBy_def unassigned_def split: if_splits)

lemma expiredAssignment_facts:
  assumes "a \<in> set (findExpiredAssignments now limit e)" and "assignmentUnchanged a p" and "p \<in> set (w_players (ec_world e))"
    and "distinct (map pl_id (w_players (ec_world e)))"
  shows "expiredAssignment e now p = Some a"
proof -
  have "a \<in> set (List.map_filter (expiredAssignment e now) (w_players (ec_world e)))"
    using assms(1) set_take_subset by (fastforce simp: findExpiredAssignments_def)
  then obtain q where q: "q \<in> set (w_players (ec_world e))" "expiredAssignment e now q = Some a" by (auto simp: map_filter_def)
  then have "pl_id q = xa_player a" by (auto simp: expiredAssignment_def split: option.splits if_splits)
  then have "q = p" using assms(2-4) q(1) by (auto simp: assignmentUnchanged_def distinct_map inj_on_def)
  with q(2) show ?thesis by simp
qed

section \<open>Paying subscribers\<close>

definition tiersOk :: "tier_row list \<Rightarrow> bool" where
  "tiersOk tiers \<longleftrightarrow> distinct (map tr_id tiers) \<and> (\<forall>t \<in> set tiers. \<forall>d. tr_days t = Some d \<longrightarrow> 0 < d)"

text \<open>An active subscriber holds the tier's role, paid for beyond the next billing date by the renewal lead.\<close>

definition holdsRole :: "econ \<Rightarrow> sub_row \<Rightarrow> bool" where
  "holdsRole e s \<longleftrightarrow> (\<exists>p t x. findPlayer (ec_world e) (sb_player s) = Some p \<and> find_row (\<lambda>t. tr_id t = sb_tier s) (ec_tiers e) = Some t
     \<and> pl_role p = Some (tr_role t) \<and> pl_expires p = Some x \<and> sb_next s + VIP_RENEWAL_LEAD_MS \<le> x)"

definition subscribersPaid :: "econ \<Rightarrow> bool" where
  "subscribersPaid e \<longleftrightarrow> (\<forall>s \<in> set (ec_subs e). sb_status s = SubActive \<longrightarrow> holdsRole e s)"

lemma resolve_fields:
  assumes "resolveTier e tierId = Resolved tier"
  shows "\<exists>t. find_row (\<lambda>t. tr_id t = tierId) (ec_tiers e) = Some t \<and> tr_role t = vt_role tier \<and> tr_days t = Some (vt_days tier)"
  using assms by (auto simp: resolveTier_def findTier_def split: option.splits bool.splits if_splits)

lemma resolve_days: "resolveTier e tierId = Resolved tier \<Longrightarrow> tiersOk (ec_tiers e) \<Longrightarrow> 0 < vt_days tier"
  using resolve_fields find_row_Some unfolding tiersOk_def by (metis (no_types, lifting))

text \<open>A grant to a player moves the expiry of a role already held forward.\<close>

lemma grants_extend:
  assumes g: "grants now txTime i p x subs e e'" and days: "0 < vt_days (gi_tier i)" and h: "holdsRole e s" and pl: "sb_player s = gi_player i"
  shows "holdsRole e' s"
    and "\<exists>t y. find_row (\<lambda>t. tr_id t = sb_tier s) (ec_tiers e) = Some t \<and> vt_role (gi_tier i) = tr_role t \<and> sb_next s + VIP_RENEWAL_LEAD_MS \<le> y
      \<and> y + vt_days (gi_tier i) * DAY_MS \<le> x"
proof -
  note gp = grants_players [OF g]
  obtain t y where t: "find_row (\<lambda>t. tr_id t = sb_tier s) (ec_tiers e) = Some t" "pl_role p = Some (tr_role t)" "pl_expires p = Some y"
      "sb_next s + VIP_RENEWAL_LEAD_MS \<le> y"
    using h gp(2) pl by (auto simp: holdsRole_def)
  have role: "vt_role (gi_tier i) = tr_role t" using gp(3) t(2) by simp
  have x: "y + vt_days (gi_tier i) * DAY_MS \<le> x" using gp(4) t role by auto
  show "\<exists>t y. find_row (\<lambda>t. tr_id t = sb_tier s) (ec_tiers e) = Some t \<and> vt_role (gi_tier i) = tr_role t \<and> sb_next s + VIP_RENEWAL_LEAD_MS \<le> y
      \<and> y + vt_days (gi_tier i) * DAY_MS \<le> x" using t role x by blast
  have "0 \<le> vt_days (gi_tier i) * DAY_MS" using days by (simp add: DAY_MS_def)
  then have "sb_next s + VIP_RENEWAL_LEAD_MS \<le> x" using t(4) x by simp
  then show "holdsRole e' s" using t(1) role pl by (simp add: holdsRole_def grants_findPlayer [OF g] gp(6))
qed

lemma holdsRole_other:
  assumes "grants now txTime i p x subs e e'" and "sb_player s \<noteq> gi_player i" and "holdsRole e s"
  shows "holdsRole e' s"
  using assms by (simp add: holdsRole_def grants_findPlayer [OF assms(1)] grants_players(6) [OF assms(1)])

lemma grants_holds:
  assumes "grants now txTime i p x subs e e'" and "0 < vt_days (gi_tier i)" and "holdsRole e s"
  shows "holdsRole e' s"
  using assms grants_extend(1) holdsRole_other by blast

lemma holdsRole_same: "sameTables e e' \<Longrightarrow> sb_player s' = sb_player s \<Longrightarrow> sb_tier s' = sb_tier s \<Longrightarrow> sb_next s' = sb_next s \<Longrightarrow> holdsRole e' s' = holdsRole e s"
  by (simp add: holdsRole_def sameTables_def findPlayer_def)

text \<open>The expiry tick spares such a role: the subscription is due within the grace period.\<close>

lemma clears_spares:
  assumes c: "clears (findExpiredAssignments now limit e) xs e e'" and d: "distinct (map pl_id (w_players (ec_world e)))"
    and s: "s \<in> set (ec_subs e)" "sb_status s = SubActive" and h: "holdsRole e s"
  shows "holdsRole e' s"
proof -
  obtain p t x where p: "findPlayer (ec_world e) (sb_player s) = Some p" "find_row (\<lambda>t. tr_id t = sb_tier s) (ec_tiers e) = Some t"
      "pl_role p = Some (tr_role t)" "pl_expires p = Some x" "sb_next s + VIP_RENEWAL_LEAD_MS \<le> x"
    using h by (auto simp: holdsRole_def)
  note fp = findPlayer_Some [OF p(1)]
  have "renewsRole e (pl_id p) (tr_role t) x s"
    using s(2) fp(2) p(5) find_row_Some [OF p(2)]
    by (auto simp: renewsRole_def list_ex_iff SUBSCRIPTION_RENEWAL_GRACE_def DAY_MS_def VIP_RENEWAL_LEAD_MS_def)
  then have "expiredAssignment e now p = None" using s(1) p(3,4) by (auto simp: expiredAssignment_def list_ex_iff split: option.split)
  then have keep: "\<not> (\<exists>a \<in> set xs. assignmentUnchanged a p)"
    using expiredAssignment_facts [OF _ _ fp(1) d] c by (fastforce simp: clears_def)
  have rows: "list_all2 (clearedBy xs) (w_players (ec_world e)) (w_players (ec_world e'))" using c by (simp add: clears_def)
  have "findPlayer (ec_world e') (sb_player s) = Some p"
    using rows p(1) keep unfolding findPlayer_def
    by (induction rule: list_all2_induct) (auto simp: clearedBy_def unassigned_def split: if_splits)
  then show ?thesis using p c by (auto simp: holdsRole_def clears_def)
qed

definition billingOk :: "econ \<Rightarrow> bool" where
  "billingOk e \<longleftrightarrow> subscribersPaid e \<and> subsOk e \<and> tiersOk (ec_tiers e) \<and> distinct (map pl_id (w_players (ec_world e)))"

lemma clearedBy_ids: "list_all2 (clearedBy xs) ps ps' \<Longrightarrow> map pl_id ps' = map pl_id ps"
  by (induction rule: list_all2_induct) (auto simp: clearedBy_def unassigned_def)

lemma grants_ids: "grants now txTime i p x subs e e' \<Longrightarrow> map pl_id (w_players (ec_world e')) = map pl_id (w_players (ec_world e))"
  by (simp add: grants_players(1))

lemma econ_op_tables:
  assumes "econ_op e0 e e'"
  shows "ec_tiers e' = ec_tiers e" "map pl_id (w_players (ec_world e')) = map pl_id (w_players (ec_world e))"
    "w_roles (ec_world e') = w_roles (ec_world e)"
  using assms
  by (cases rule: econ_op_cases; auto simp: sameTables_def grants_players(5,6) grants_ids clears_def clearedBy_ids accrue_frame)+

lemma renewed_holds:
  assumes g: "grants now txTime (renewalInput d) p x (renewSubs d (ec_subs e)) e e'" and snap: "snapshotOf d e"
    and ok: "subsOk e" "subscribersPaid e" and due: "find_row (stillDue d) (ec_subs e) \<noteq> None"
    and s': "s' \<in> set (renewSubs d (ec_subs e))" "sb_status s' = SubActive"
  shows "holdsRole e' s'"
proof -
  obtain s where s: "s \<in> set (ec_subs e)" "s' = (if stillDue d s then s\<lparr>sb_next := nextRenewalAfter (du_next d) (du_days d)\<rparr> else s)"
    using update_rows_mem [OF s'(1) [unfolded renewSubs_def]] by blast
  have act: "sb_status s = SubActive" using s s'(2) by (auto split: if_splits)
  have h: "holdsRole e s" using ok(2) s(1) act by (simp add: subscribersPaid_def)
  have days: "0 < vt_days (gi_tier (renewalInput d))"
    using due find_row_Some snap ok(1) by (fastforce simp: stillDue_def snapshotOf_def subsOk_def renewalInput_def)
  show ?thesis
  proof (cases "stillDue d s")
    case False
    then show ?thesis using s(2) grants_holds [OF g days h] by simp
  next
    case True
    then have pl: "sb_player s = gi_player (renewalInput d)" "sb_next s = du_next d"
      using snap s(1) by (auto simp: stillDue_def snapshotOf_def renewalInput_def)
    obtain t y where t: "find_row (\<lambda>t. tr_id t = sb_tier s) (ec_tiers e) = Some t" "vt_role (gi_tier (renewalInput d)) = tr_role t"
        "sb_next s + VIP_RENEWAL_LEAD_MS \<le> y" "y + vt_days (gi_tier (renewalInput d)) * DAY_MS \<le> x"
      using grants_extend(2) [OF g days h pl(1)] by blast
    have "nextRenewalAfter (du_next d) (du_days d) + VIP_RENEWAL_LEAD_MS \<le> x"
      using t(3,4) pl(2) by (simp add: nextRenewalAfter_def renewalInput_def)
    then show ?thesis using t(1,2) True s(2) pl(1) by (simp add: holdsRole_def grants_findPlayer [OF g] grants_players(6) [OF g])
  qed
qed

lemma subscribed_holds:
  assumes g: "grants now txTime i p x subs e e'" and tier: "resolveTier e0 tierId = Resolved tier" "vt_role (gi_tier i) = vt_role tier"
    and same: "ec_tiers e0 = ec_tiers e"
  shows "holdsRole e' (newSub env (gi_player i) tierId (gi_tier i) x)"
  using resolve_fields [OF tier(1)] tier(2) same
  by (auto simp: holdsRole_def newSub_def grants_findPlayer [OF g] grants_players(6) [OF g])

lemma econ_op_paid:
  assumes "econ_op e0 e e'" and ok: "billingOk e" and same: "ec_tiers e0 = ec_tiers e"
  shows "subscribersPaid e'"
proof -
  have paid: "holdsRole e s" if "s \<in> set (ec_subs e)" "sb_status s = SubActive" for s
    using that ok by (simp add: billingOk_def subscribersPaid_def)
  have t0: "tiersOk (ec_tiers e0)" using ok same by (simp add: billingOk_def)
  have frame: "subscribersPaid e'" if st: "sameTables e e'" and rt: "list_all2 retired (ec_subs e) (ec_subs e')"
    unfolding subscribersPaid_def
  proof (intro ballI impI)
    fix s' assume s': "s' \<in> set (ec_subs e')" "sb_status s' = SubActive"
    obtain s where "s \<in> set (ec_subs e)" "retired s s'"
      using rt s'(1) by (metis in_set_conv_nth list_all2_conv_all_nth)
    then have "s' \<in> set (ec_subs e)" using s'(2) by (auto simp: retired_def)
    then show "holdsRole e' s'" using paid s'(2) holdsRole_same [OF st, of s' s'] by simp
  qed
  from assms(1) show ?thesis
  proof (cases rule: econ_op_cases)
    case (bought now txTime i p x tierId)
    then show ?thesis using grants_holds [OF bought(1) resolve_days [OF bought(2) t0]] paid grants_players(7) [OF bought(1)]
      by (simp add: subscribersPaid_def)
  next
    case (subscribed now txTime i p x env tierId)
    then show ?thesis using grants_holds [OF subscribed(1,3)] paid subscribed_holds [OF subscribed(1) _ _ same] grants_players(7) [OF subscribed(1)]
      by (auto simp: subscribersPaid_def)
  next
    case (renewed now txTime d p x scan limit)
    then show ?thesis using renewed_holds [OF renewed(2,4)] ok grants_players(7) [OF renewed(2)] by (simp add: subscribersPaid_def billingOk_def)
  next
    case (expired now limit xs)
    then show ?thesis using clears_spares [OF expired] ok paid by (auto simp: subscribersPaid_def billingOk_def clears_def)
  next
    case (accrued i res)
    then show ?thesis using frame accrue_frame [OF accrued] by (simp add: sameTables_def)
  qed (use frame in simp_all)
qed

lemma econ_op_billingOk: "econ_op e0 e e' \<Longrightarrow> billingOk e \<Longrightarrow> ec_tiers e0 = ec_tiers e \<Longrightarrow> billingOk e'"
  using econ_op_paid econ_op_tables econ_step_subsOk [OF op] by (simp add: billingOk_def)

text \<open>Runs of the economy's operations between two edits of the tier catalogue and of the roles by hand.\<close>

inductive billing :: "econ \<Rightarrow> econ \<Rightarrow> bool" where
  start: "billing e e"
| next_op: "billing e e1 \<Longrightarrow> econ_op e0 e1 e2 \<Longrightarrow> ec_tiers e0 = ec_tiers e \<Longrightarrow> billing e e2"

lemma billing_ok: "billing e e' \<Longrightarrow> billingOk e \<Longrightarrow> billingOk e' \<and> ec_tiers e' = ec_tiers e"
  by (induction rule: billing.induct) (auto intro: econ_op_billingOk simp: econ_op_tables)

section \<open>A second pass over a stale scan\<close>

lemma grants_balance:
  assumes "grants now txTime i p x subs e e'"
  shows "balanceOf e' (gi_player i) = balanceOf e (gi_player i) - vt_price (gi_tier i)"
proof -
  obtain e1 where g: "grantChange now txTime i p x e e1" and "ec_balance e' = ec_balance e1" using assms by (auto simp: grants_def)
  then have "balanceOf e' (gi_player i) = balanceOf e1 (gi_player i)" by (simp add: balanceOf_def)
  moreover have "posts (gi_player i) (if vt_price (gi_tier i) = 0 then [] else [spendTx txTime i (vt_price (gi_tier i))]) e e1"
    using g unfolding grantChange_def by blast
  note posts_balance [OF this, of "gi_player i"]
  ultimately show ?thesis by (auto simp: spendTx_def)
qed

lemma grant_short:
  assumes "findPlayer (ec_world e) (gi_player i) \<noteq> None" and "balanceOf e (gi_player i) < vt_price (gi_tier i)"
  shows "applyVipGrant now txTime i e = Inr (InsufficientBalance (balanceOf e (gi_player i)), e)"
  using assms by (auto simp: applyVipGrant_def planVipGrant_def Let_def)

lemma charge_short:
  assumes "sellable e (du_role d)" and "findPlayer (ec_world e) (du_player d) \<noteq> None" and "balanceOf e (du_player d) < du_price d"
  shows "chargeRenewal env d e = Inr (ChargeRefused (InsufficientBalance (balanceOf e (du_player d))), e)"
  using assms grant_short [of e "renewalInput d" "rn_now env" "rn_txTime env (du_id d)"]
  by (auto simp: chargeRenewal_def sellable_def renewalInput_def split: option.splits)

lemma expireSubscription_row:
  assumes "s \<in> set (ec_subs e)" and "sb_id s = i" and "sb_status s = SubActive"
  shows "\<exists>e'. expireSubscription i now e = (True, e') \<and> s\<lparr>sb_status := SubExpired, sb_cancelledAt := Some now\<rparr> \<in> set (ec_subs e')"
proof -
  have "find_row (\<lambda>s. sb_id s = i \<and> sb_status s = SubActive) (ec_subs e) \<noteq> None"
    unfolding find_row_None using assms by blast
  then show ?thesis using assms by (auto simp: expireSubscription_def Let_def set_update_rows)
qed

lemma expireRefused_row:
  assumes "rn_expire env (du_id d)" and "s \<in> set (ec_subs e)" and "sb_id s = du_id d" and "sb_status s = SubActive"
  shows "s\<lparr>sb_status := SubExpired, sb_cancelledAt := Some (rn_now env)\<rparr> \<in> set (ec_subs (snd (expireRefused env d (c, e))))"
  using expireSubscription_row [OF assms(2,3,4), of "rn_now env"] assms(1)
  by (auto simp: expireRefused_def Let_def split: bool.splits)

lemma stale_pass_expires:
  assumes ch: "chargeRenewal env d e = Inr (Charged b x n, e1)" and ok: "subsOk e" and snap: "snapshotOf d e"
    and short: "b < du_price d" and env: "rn_expire env2 (du_id d)"
  shows "\<exists>s \<in> set (ec_subs (snd (renewOne env2 d (c, e1)))). sb_id s = du_id d \<and> sb_status s = SubExpired \<and> du_next d < sb_next s"
  using ch
proof (cases rule: charge_cases)
  case (charged b' x' n' p role)
  note g = charged(2)
  have "sellable e1 (du_role d)" using charged(4-6) grants_players(5) [OF g] by (simp add: sellable_def findRole_def)
  moreover have "findPlayer (ec_world e1) (du_player d) \<noteq> None" using grants_findPlayer [OF g, of "du_player d"] by (simp add: renewalInput_def)
  moreover have "balanceOf e1 (du_player d) < du_price d"
    using grants_balance [OF g] charged(1,7) short by (simp add: renewalInput_def)
  ultimately have refused: "chargeRenewal env2 d e1 = Inr (ChargeRefused (InsufficientBalance (balanceOf e1 (du_player d))), e1)"
    by (rule charge_short)
  obtain s where s: "s \<in> set (ec_subs e1)" "sb_id s = du_id d" "du_next d < sb_next s" "sb_status s = SubActive"
    using charged_moves [OF ch ok snap] by blast
  show ?thesis
    using expireRefused_row [OF env s(1,2,4), of c] s by (intro bexI [of _ "s\<lparr>sb_status := SubExpired, sb_cancelledAt := Some (rn_now env2)\<rparr>"])
      (simp_all add: renewOne_def refused)
qed simp

section \<open>A subscriber, for the examples\<close>

definition vipRole :: role_row where
  "vipRole = \<lparr>role_id = ''v'', role_name = ''VIP'', color = ''red'', description = None, is_system_role = False, panel_access = False,
     can_view_ips = False, can_assign_roles = False, can_edit_roles = False, can_manage_issues = False, can_manage_ban_sources = False,
     can_manage_integrations = False, can_manage_clans = False, can_manage_economy = False, can_manage_media = False,
     can_handle_reports = False, can_manage_infrastructure = False, combat_view = False\<rparr>"

definition demoTier :: tier_row where
  "demoTier = \<lparr>tr_id = ''t'', tr_name = ''VIP'', tr_role = ''v'', tr_days = Some 30, tr_price = Some 60, tr_active = True\<rparr>"

definition demoSub :: "int \<Rightarrow> sub_row" where
  "demoSub nxt = \<lparr>sb_id = ''s'', sb_player = ''p'', sb_tier = ''t'', sb_status = SubActive, sb_days = 30, sb_price = 60, sb_next = nxt, sb_cancelledAt = None\<rparr>"

definition vipSession :: session_record where
  "vipSession = \<lparr>s_id = ''sess'', s_player = ''p'', s_expires = 0, s_last = 0, s_ip = None, s_agent = None, s_scope = Panel\<rparr>"

text \<open>A player with role \<^verbatim>\<open>v\<close> until \<open>x\<close>, a balance of 100 and the subscriptions \<open>subs\<close>.\<close>

definition demoVip :: "int \<Rightarrow> sub_row list \<Rightarrow> econ" where
  "demoVip x subs = (demoEcon 1 [demoSpend\<lparr>bt_amount := 100\<rparr>] 100)\<lparr>ec_tiers := [demoTier], ec_subs := subs,
     ec_world := econWorld\<lparr>w_roles := [vipRole], w_players := [\<lparr>pl_id = ''p'', pl_steam = None, pl_role = Some ''v'', pl_expires = Some x, pl_comment = None\<rparr>],
       w_sess := \<lparr>s_rows = [vipSession], s_redis = [], s_touches = [], s_revoked = []\<rparr>\<rparr>\<rparr>"

definition demoRenewal :: renewal_env where
  "demoRenewal = \<lparr>rn_now = 0, rn_txTime = (\<lambda>_. 5), rn_chargeAudit = (\<lambda>_. True), rn_expire = (\<lambda>_. True), rn_expireAudit = (\<lambda>_. True), rn_alert = (\<lambda>_. True)\<rparr>"

definition demoDue :: due_sub where
  "demoDue = \<lparr>du_id = ''s'', du_player = ''p'', du_tier = ''t'', du_role = ''v'', du_price = 60, du_days = 30, du_next = 0\<rparr>"

lemmas demo_vip_defs = demoVip_def demoEcon_def econWorld_def demoTier_def demoSub_def vipRole_def demoSpend_def demoRenewal_def
  demoDue_def vipSession_def

definition demoStart :: econ where
  "demoStart = demoVip VIP_RENEWAL_LEAD_MS [demoSub 0]"

definition demoLapsed :: econ where
  "demoLapsed = demoVip 0 []"

definition demoExpiry :: expiry_env where
  "demoExpiry = \<lparr>xe_now = 1, xe_audit = (\<lambda>_. True), xe_notify = (\<lambda>_. NotifyOk)\<rparr>"

lemma demo_subsOk: "subsOk demoStart" "snapshotOf demoDue demoStart"
  by (simp_all add: demo_vip_defs demoStart_def subsOk_def snapshotOf_def)

lemma demo_due: "findDueSubscriptions 0 10 demoStart = [demoDue]"
  by code_simp

lemma demo_charge: "case chargeRenewal demoRenewal demoDue demoStart of
    Inr (Charged b x n, e1) \<Rightarrow> b = 40 \<and> balanceOf e1 ''p'' = 40 \<and> chargeRenewal demoRenewal demoDue e1 = Inr (ChargeRefused (InsufficientBalance 40), e1)
      \<and> ec_subs e1 = [demoSub (30 * DAY_MS)]
  | _ \<Rightarrow> False"
  by code_simp

lemma demo_charged:
  obtains e1 x n where "chargeRenewal demoRenewal demoDue demoStart = Inr (Charged 40 x n, e1)" "balanceOf e1 ''p'' = 40"
    "chargeRenewal demoRenewal demoDue e1 = Inr (ChargeRefused (InsufficientBalance 40), e1)" "ec_subs e1 = [demoSub (30 * DAY_MS)]"
    "econ_op demoStart demoStart e1"
proof -
  obtain e1 x n where c: "chargeRenewal demoRenewal demoDue demoStart = Inr (Charged 40 x n, e1)" "balanceOf e1 ''p'' = 40"
    "chargeRenewal demoRenewal demoDue e1 = Inr (ChargeRefused (InsufficientBalance 40), e1)" "ec_subs e1 = [demoSub (30 * DAY_MS)]"
    using demo_charge
    by (cases "chargeRenewal demoRenewal demoDue demoStart"; cases "fst (projr (chargeRenewal demoRenewal demoDue demoStart))") auto
  have "econ_op demoStart demoStart e1" using demo_due demo_subsOk(2) c(1) by (intro charge [of demoDue 0 10]) simp_all
  with c show ?thesis by (rule that)
qed

lemma demo_ledgerOk: "ledgerOk demoStart"
  by (auto simp: ledgerOk_def demoStart_def demo_vip_defs balanceOf_def ledgerSum_def INT4_MAX_def int4_def)

lemma demo_billingOk: "billingOk demoStart"
  using demo_subsOk(1)
  by (simp add: billingOk_def subscribersPaid_def tiersOk_def holdsRole_def demoStart_def demo_vip_defs findPlayer_def)

lemma demo_expires: "case runRoleExpiryTick demoExpiry 10 demoLapsed of
    Some (n, m, e') \<Rightarrow> n = 1 \<and> map pl_role (w_players (ec_world e')) = [None] \<and> map pl_id (w_players (ec_world e')) = [''p'']
  | None \<Rightarrow> False"
  by code_simp

lemma demo_expired:
  obtains m e' p p' where "runRoleExpiryTick demoExpiry 10 demoLapsed = Some (1, m, e')" "findPlayer (ec_world demoLapsed) ''p'' = Some p"
    "findPlayer (ec_world e') ''p'' = Some p'" "pl_role p = Some ''v''" "pl_role p' = None"
proof -
  obtain m e' where r: "runRoleExpiryTick demoExpiry 10 demoLapsed = Some (1, m, e')" "map pl_role (w_players (ec_world e')) = [None]"
      "map pl_id (w_players (ec_world e')) = [''p'']"
    using demo_expires by (auto split: option.splits)
  then obtain p' where "w_players (ec_world e') = [p']" "pl_role p' = None" "pl_id p' = ''p''" by auto
  moreover obtain p where "findPlayer (ec_world demoLapsed) ''p'' = Some p" "pl_role p = Some ''v''"
    by (simp add: findPlayer_def demoLapsed_def demo_vip_defs)
  ultimately show ?thesis using r(1) by (intro that [of m e' p p']) (simp_all add: findPlayer_def)
qed

lemma demo_distinct: "distinct (map pl_id (w_players (ec_world demoLapsed)))"
  by (simp add: demoLapsed_def demo_vip_defs)

section \<open>Properties\<close>

text \<open>
  C7: The ledger balances.  Whatever sequence of adjustments, purchases, subscriptions, cancellations, renewals,
  role expiries and accruals runs, with stale reads and failing statements, every player's balance is the sum
  of their ledger rows, never negative and within the column's range.
\<close>

theorem ledger_balances:
  assumes "econ_step\<^sup>*\<^sup>* e e'" and "ledgerOk e"
  shows "balanceOf e' pid = ledgerSum e' pid \<and> 0 \<le> balanceOf e' pid \<and> balanceOf e' pid \<le> INT4_MAX"
  using econ_reach_ledgerOk [OF assms] unfolding ledgerOk_def by blast

theorem ledger_balances_witness:
  "\<exists>e. econ_step\<^sup>*\<^sup>* demoStart e \<and> balanceOf e ''p'' = 40 \<and> ledgerSum e ''p'' = 40"
proof -
  obtain e1 where e1: "balanceOf e1 ''p'' = 40" "econ_op demoStart demoStart e1" by (rule demo_charged)
  have r: "econ_step\<^sup>*\<^sup>* demoStart e1" using op [OF e1(2)] by blast
  show ?thesis using ledger_balances [OF r demo_ledgerOk, of "''p''"] r e1(1) by auto
qed

text \<open>
  C19: One charge per due date.  Once a renewal has charged a subscription for a due date, no renewal of the
  same subscription for the same date charges anything in any later state, whatever ran in between
  and however stale its scan is.
\<close>

theorem renewal_charged_once:
  assumes "subsOk e" and "snapshotOf d e" and "chargeRenewal env d e = Inr (Charged b x n, e1)" and "econ_step\<^sup>*\<^sup>* e1 e2"
    and "chargeRenewal env' d' e2 = Inr (res, e3)" and "du_id d' = du_id d" and "du_next d' = du_next d"
  shows "e3 = e2 \<and> (\<nexists>b x n. res = Charged b x n)"
  using assms(5)
proof (cases rule: charge_cases)
  case (charged b' x' n' p role)
  obtain s where s: "s \<in> set (ec_subs e1)" "sb_id s = du_id d" "du_next d < sb_next s" using charged_moves [OF assms(3,1,2)] by blast
  from assms(3) have ok1: "subsOk e1"
  proof (cases rule: charge_cases)
    case (charged b'' x'' n'' p' role')
    have "distinct (map sb_id (renewSubs d (ec_subs e)))" "\<forall>s \<in> set (renewSubs d (ec_subs e)). 0 < sb_days s"
      using laterSub_ids [OF renewSubs_later [OF assms(2,1)]] laterSub_days [OF renewSubs_later [OF assms(2,1)]] assms(1) by (auto simp: subsOk_def)
    then show ?thesis using grants_players(7) [OF charged(2)] by (simp add: subsOk_def)
  qed simp
  obtain s' where s': "s' \<in> set (ec_subs e2)" "laterSub s s'" "subsOk e2" using econ_reach_subs [OF assms(4) ok1] s(1) by blast
  obtain t where "t \<in> set (ec_subs e2)" "stillDue d' t" using charged(3) find_row_Some by fastforce
  then have "t = s'" using sub_unique [OF s'(3)] s' s assms(6) by (auto simp: laterSub_def stillDue_def)
  then show ?thesis using \<open>stillDue d' t\<close> s' s assms(7) by (auto simp: laterSub_def stillDue_def)
qed simp

theorem renewal_charged_once_witness:
  "\<exists>x n e1 res e3. chargeRenewal demoRenewal demoDue demoStart = Inr (Charged 40 x n, e1)
     \<and> chargeRenewal demoRenewal demoDue e1 = Inr (res, e3) \<and> e3 = e1"
proof -
  obtain e1 x n where e1: "chargeRenewal demoRenewal demoDue demoStart = Inr (Charged 40 x n, e1)"
      "chargeRenewal demoRenewal demoDue e1 = Inr (ChargeRefused (InsufficientBalance 40), e1)" by (rule demo_charged)
  show ?thesis using renewal_charged_once [OF demo_subsOk e1(1) rtranclp.rtrancl_refl e1(2) refl refl] e1 by blast
qed







text \<open>
  C39: A stale pass ends a paid subscription.  When a pass has renewed a subscription and the balance left is below
  the price, a second pass working from the same scan does not find the subscription renewed: the
  grant is refused for lack of funds before the due date is compared, and the pass marks the subscription
  expired although its period has just been paid.  (The comment on \<^verbatim>\<open>dueAt\<close> says that the second pass rolls
  back as \<^verbatim>\<open>not_active\<close>.)
\<close>

theorem stale_renewal_expires_paid:
  assumes "chargeRenewal env d e = Inr (Charged b x n, e1)" and "subsOk e" and "snapshotOf d e" and "b < du_price d"
    and "rn_expire env2 (du_id d)"
  shows "\<exists>s \<in> set (ec_subs (snd (renewOne env2 d (c, e1)))). sb_id s = du_id d \<and> sb_status s = SubExpired \<and> du_next d < sb_next s"
  using assms by (rule stale_pass_expires)

theorem stale_renewal_expires_paid_witness:
  "\<exists>e1 x n. chargeRenewal demoRenewal demoDue demoStart = Inr (Charged 40 x n, e1)
     \<and> (\<exists>s \<in> set (ec_subs (snd (renewOne demoRenewal demoDue (\<lparr>rc_renewed = 0, rc_expired = 0, rc_enqueued = 0\<rparr>, e1)))).
          sb_id s = ''s'' \<and> sb_status s = SubExpired)"
proof -
  obtain e1 x n where e1: "chargeRenewal demoRenewal demoDue demoStart = Inr (Charged 40 x n, e1)" by (rule demo_charged)
  have "40 < du_price demoDue" "rn_expire demoRenewal (du_id demoDue)" by (simp_all add: demoDue_def demoRenewal_def)
  from stale_renewal_expires_paid [OF e1 demo_subsOk this] e1 show ?thesis by (fastforce simp: demoDue_def)
qed

end
