(* ===== verification/Seed_Reward.thy ===== *)
theory Seed_Reward
  imports Economy_Safety Js_Time
begin

text \<open>
  The seed reward worker (\<^verbatim>\<open>apps/workers/seed-reward/src/tick.ts\<close>): seed seconds of the last thirty days decide
  who holds the configured reward role.  Days are numbered as in \<^const>\<open>dayOf\<close>; \<open>dayNo\<close> is the database's reading of
  a stored date.  The settings, the role and the players' totals are read in \<open>e0\<close>, the conditional updates
  find \<open>e\<close>: other transactions may commit in between.
\<close>

datatype reward_kind = Granted | Revoked

record reward_change =
  rw_kind :: reward_kind
  rw_player :: string
  rw_before :: "string option"
  rw_after :: "string option"
  rw_seconds :: int

record seed_total =
  ss_player :: string
  ss_role :: "string option"
  ss_seconds :: int

record reward_env =
  we_now :: int
  we_dayNo :: "string \<Rightarrow> int"
  we_audit :: bool
  we_delete :: "string \<Rightarrow> bool"
  we_notify :: "string \<Rightarrow> notify_outcome"

text \<open>
  \<open>we_audit\<close> says whether the insert of the audit rows succeeds, \<open>we_delete\<close> whether the sessions of a player can
  be deleted, \<open>we_notify\<close> how far the notification of Redis gets.
\<close>

definition ROLLING_WINDOW_DAYS :: int where "ROLLING_WINDOW_DAYS = 30"

definition rollingSeedRewardWindow :: "int \<Rightarrow> int \<times> int" where
  "rollingSeedRewardWindow now = (dayOf now - (ROLLING_WINDOW_DAYS - 1), dayOf now)"

definition seedSecondsIn :: "(string \<Rightarrow> int) \<Rightarrow> int \<times> int \<Rightarrow> econ \<Rightarrow> string \<Rightarrow> int" where
  "seedSecondsIn dayNo window e pid =
     sum_list (map pr_seed (filter (\<lambda>r. pr_player r = pid
       \<and> fst window \<le> dayNo (pr_day r) \<and> dayNo (pr_day r) \<le> snd window) (ec_presence e)))"

definition seedStates :: "(string \<Rightarrow> int) \<Rightarrow> int \<times> int \<Rightarrow> econ \<Rightarrow> seed_total list" where
  "seedStates dayNo window e =
     map (\<lambda>p. \<lparr>ss_player = pl_id p, ss_role = pl_role p, ss_seconds = seedSecondsIn dayNo window e (pl_id p)\<rparr>)
       (w_players (ec_world e))"

definition rewardKind :: "string \<Rightarrow> rat \<Rightarrow> seed_total \<Rightarrow> reward_kind option" where
  "rewardKind reward threshold s =
     (let qualifies = (rat_of_int (ss_seconds s) \<ge> threshold)
      in if qualifies \<and> ss_role s = None then Some Granted
         else if \<not> qualifies \<and> ss_role s = Some reward then Some Revoked
         else None)"

text \<open>One player of the snapshot; \<open>None\<close> when the database refuses the update and the transaction rolls back.\<close>

definition reconcileOne ::
  "string \<Rightarrow> rat \<Rightarrow> seed_total \<Rightarrow> reward_change list \<times> econ \<Rightarrow> (reward_change list \<times> econ) option" where
  "reconcileOne reward threshold s ce =
     (case rewardKind reward threshold s of
        None \<Rightarrow> Some ce
      | Some kind \<Rightarrow>
          (let after = (if kind = Granted then Some reward else None);
               sel = (\<lambda>p. pl_id p = ss_player s \<and> pl_role p = ss_role s);
               e = snd ce
           in if find_row sel (w_players (ec_world e)) = None then Some ce
              else if kind = Granted \<and> findRole (ec_world e) reward = None then None
              else case updatePlayers sel (\<lambda>p. p\<lparr>pl_role := after, pl_expires := None, pl_comment := None\<rparr>) (ec_world e) of
                None \<Rightarrow> None
              | Some w \<Rightarrow>
                  Some (fst ce @ [\<lparr>rw_kind = kind, rw_player = ss_player s, rw_before = ss_role s,
                         rw_after = after, rw_seconds = ss_seconds s\<rparr>], e\<lparr>ec_world := w\<rparr>)))"

fun reconcileLoop ::
  "string \<Rightarrow> rat \<Rightarrow> seed_total list \<Rightarrow> reward_change list \<times> econ \<Rightarrow> (reward_change list \<times> econ) option" where
  "reconcileLoop reward threshold [] ce = Some ce"
| "reconcileLoop reward threshold (s # ss) ce =
     (case reconcileOne reward threshold s ce of None \<Rightarrow> None | Some ce' \<Rightarrow> reconcileLoop reward threshold ss ce')"

definition rewardAudit :: "reward_change \<Rightarrow> system_audit" where
  "rewardAudit c = \<lparr>au_action = (if rw_kind c = Granted then ''seed.reward_granted'' else ''seed.reward_revoked''),
     au_target = rw_player c, au_ref = None\<rparr>"

text \<open>The role and the threshold in seconds, when the reward is configured.\<close>

definition rewardSettings :: "econ \<Rightarrow> (string \<times> rat) option" where
  "rewardSettings e =
     (case ec_settings e of
        None \<Rightarrow> None
      | Some s \<Rightarrow>
          (case es_rewardRole s of
             None \<Rightarrow> None
           | Some rid \<Rightarrow>
               let threshold = es_rewardHours s * 3600
               in if rid = [] \<or> threshold \<le> 0 then None else Some (rid, threshold)))"

datatype reconciliation =
    NotConfigured
  | Reconciled "reward_change list" nat econ
  | ReconcileThrew

definition reconcileSeedRewardAssignments :: "reward_env \<Rightarrow> econ \<Rightarrow> econ \<Rightarrow> reconciliation" where
  "reconcileSeedRewardAssignments env e0 e =
     (case rewardSettings e0 of
        None \<Rightarrow> NotConfigured
      | Some (reward, threshold) \<Rightarrow>
          (case findRole (ec_world e0) reward of
             None \<Rightarrow> ReconcileThrew
           | Some role \<Rightarrow>
               if panel_access role then ReconcileThrew
               else case reconcileLoop reward threshold
                   (seedStates (we_dayNo env) (rollingSeedRewardWindow (we_now env)) e0) ([], e) of
                 None \<Rightarrow> ReconcileThrew
               | Some (changes, e1) \<Rightarrow>
                   if changes = [] then Reconciled [] 0 e1
                   else if \<not> we_audit env then ReconcileThrew
                   else Reconciled changes (length (w_servers (ec_world e1)))
                     (syncAllServers ''seed.reward.reconcile'' None (e1\<lparr>ec_audit := ec_audit e1 @ map rewardAudit changes\<rparr>))))"

text \<open>Deleting the sessions of the changed players; the first failure ends the loop.\<close>

definition revokeAllSessionsForPlayer :: "reward_env \<Rightarrow> string \<Rightarrow> econ \<Rightarrow> bool \<times> econ" where
  "revokeAllSessionsForPlayer env pid e =
     (if \<not> we_delete env pid then (False, e)
      else case deleteSessionRowsForPlayer pid e of
        (ids, e1) \<Rightarrow>
          if ids = [] then (True, e1)
          else (we_notify env pid = NotifyOk, notifySessionsRevoked (we_notify env pid) pid ids e1))"

fun revokeLoop :: "reward_env \<Rightarrow> reward_change list \<Rightarrow> econ \<Rightarrow> bool \<times> econ" where
  "revokeLoop env [] e = (True, e)"
| "revokeLoop env (c # cs) e =
     (case revokeAllSessionsForPlayer env (rw_player c) e of
        (True, e1) \<Rightarrow> revokeLoop env cs e1
      | (False, e1) \<Rightarrow> (False, e1))"

record reward_result =
  rr_skipped :: bool
  rr_granted :: nat
  rr_revoked :: nat
  rr_enqueued :: nat

text \<open>\<open>None\<close> is the tick's rethrown error.\<close>

definition runSeedRewardTick :: "reward_env \<Rightarrow> econ \<Rightarrow> econ \<Rightarrow> reward_result option \<times> econ" where
  "runSeedRewardTick env e0 e =
     (case reconcileSeedRewardAssignments env e0 e of
        NotConfigured \<Rightarrow> (Some \<lparr>rr_skipped = True, rr_granted = 0, rr_revoked = 0, rr_enqueued = 0\<rparr>, e)
      | ReconcileThrew \<Rightarrow> (None, e)
      | Reconciled changes enqueued e1 \<Rightarrow>
          (case revokeLoop env changes e1 of
             (ok, e2) \<Rightarrow>
               (if ok then
                  let granted = length (filter (\<lambda>c. rw_kind c = Granted) changes)
                  in Some \<lparr>rr_skipped = False, rr_granted = granted, rr_revoked = length changes - granted, rr_enqueued = enqueued\<rparr>
                else None, e2)))"

section \<open>Who is rewarded\<close>

text \<open>A row after the pass, given the snapshot of the totals.\<close>

definition rewardedRow :: "string \<Rightarrow> rat \<Rightarrow> seed_total list \<Rightarrow> player_row \<Rightarrow> player_row" where
  "rewardedRow reward threshold ss p =
     (case find_row (\<lambda>s. ss_player s = pl_id p) ss of
        None \<Rightarrow> p
      | Some s \<Rightarrow>
          (case rewardKind reward threshold s of
             None \<Rightarrow> p
           | Some kind \<Rightarrow>
               if pl_role p = ss_role s
               then p\<lparr>pl_role := if kind = Granted then Some reward else None, pl_expires := None, pl_comment := None\<rparr>
               else p))"

lemma rewardedRow_id [simp]: "pl_id (rewardedRow reward threshold ss p) = pl_id p"
  by (simp add: rewardedRow_def split: option.split)

lemma rewardedRow_Nil [simp]: "rewardedRow reward threshold [] p = p"
  by (simp add: rewardedRow_def find_row_def)

lemma rewardedRow_other: "pl_id p \<notin> ss_player ` set ss \<Longrightarrow> rewardedRow reward threshold ss p = p"
proof -
  assume "pl_id p \<notin> ss_player ` set ss"
  then have "find_row (\<lambda>s. ss_player s = pl_id p) ss = None" unfolding find_row_def find_None_iff by (metis imageI)
  then show ?thesis by (simp add: rewardedRow_def)
qed

lemma rewardedRow_Cons:
  assumes "ss_player s \<notin> ss_player ` set ss"
  shows "rewardedRow reward threshold (s # ss) p = rewardedRow reward threshold ss (rewardedRow reward threshold [s] p)"
proof (cases "ss_player s = pl_id p")
  case True
  then have "rewardedRow reward threshold (s # ss) p = rewardedRow reward threshold [s] p"
    by (simp add: rewardedRow_def find_row_def)
  with True assms show ?thesis by (simp add: rewardedRow_other)
next
  case False
  then have "rewardedRow reward threshold (s # ss) p = rewardedRow reward threshold ss p"
    by (simp add: rewardedRow_def find_row_def)
  moreover have "rewardedRow reward threshold [s] p = p" using False by (simp add: rewardedRow_other)
  ultimately show ?thesis by simp
qed

text \<open>
  What a part of the pass leaves of the state: only the table of players moves, and every row that changed is
  among the recorded changes.
\<close>

definition reconciled ::
  "string \<Rightarrow> rat \<Rightarrow> seed_total list \<Rightarrow> reward_change list \<times> econ \<Rightarrow> reward_change list \<times> econ \<Rightarrow> bool" where
  "reconciled reward threshold ss ce ce' \<longleftrightarrow>
     w_players (ec_world (snd ce')) = map (rewardedRow reward threshold ss) (w_players (ec_world (snd ce)))
     \<and> (\<exists>t. snd ce' = (snd ce)\<lparr>ec_world := (ec_world (snd ce))\<lparr>w_players := t\<rparr>\<rparr>)
     \<and> (\<exists>new. fst ce' = fst ce @ new \<and>
          (\<forall>p \<in> set (w_players (ec_world (snd ce))). rewardedRow reward threshold ss p \<noteq> p \<longrightarrow> pl_id p \<in> rw_player ` set new))"

lemma reconciled_same:
  assumes "\<And>p. p \<in> set (w_players (ec_world (snd ce))) \<Longrightarrow> rewardedRow reward threshold ss p = p"
  shows "reconciled reward threshold ss ce ce"
proof -
  have "snd ce = (snd ce)\<lparr>ec_world := (ec_world (snd ce))\<lparr>w_players := w_players (ec_world (snd ce))\<rparr>\<rparr>" by simp
  moreover have "map (rewardedRow reward threshold ss) (w_players (ec_world (snd ce))) = w_players (ec_world (snd ce))"
    using assms by (simp add: map_idI)
  ultimately show ?thesis using assms unfolding reconciled_def by (metis append_Nil2)
qed

lemma reconcileOne_reconciled:
  assumes "reconcileOne reward threshold s ce = Some ce'"
  shows "reconciled reward threshold [s] ce ce'"
proof -
  let ?w = "ec_world (snd ce)"
  let ?sel = "\<lambda>p. pl_id p = ss_player s \<and> pl_role p = ss_role s"
  show ?thesis
  proof (cases "rewardKind reward threshold s = None \<or> find_row ?sel (w_players ?w) = None")
    case True
    then have "ce' = ce" using assms by (auto simp: reconcileOne_def Let_def split: option.splits)
    moreover have "rewardedRow reward threshold [s] p = p" if "p \<in> set (w_players ?w)" for p
      using True that by (auto simp: rewardedRow_def find_row_def find_None_iff split: option.split)
    ultimately show ?thesis using reconciled_same by blast
  next
    case False
    then obtain kind where k: "rewardKind reward threshold s = Some kind" by auto
    define f :: "player_row \<Rightarrow> player_row" where "f = (\<lambda>p. p\<lparr>pl_role := if kind = Granted then Some reward else None, pl_expires := None, pl_comment := None\<rparr>)"
    define c where "c = \<lparr>rw_kind = kind, rw_player = ss_player s, rw_before = ss_role s,
      rw_after = (if kind = Granted then Some reward else None), rw_seconds = ss_seconds s\<rparr>"
    have c: "rw_player c = ss_player s" by (simp add: c_def)
    obtain w where w: "updatePlayers ?sel f ?w = Some w" and ce': "ce' = (fst ce @ [c], (snd ce)\<lparr>ec_world := w\<rparr>)"
      using assms False k unfolding c_def by (auto simp: reconcileOne_def Let_def f_def split: option.splits if_splits)
    have row: "rewardedRow reward threshold [s] p = (if ?sel p then f p else p)" for p
      using k by (auto simp: rewardedRow_def find_row_def f_def)
    have "w = ?w\<lparr>w_players := map (rewardedRow reward threshold [s]) (w_players ?w)\<rparr>"
      using updatePlayers_Some [OF w] by (simp add: update_rows_def row)
    then show ?thesis using ce' c row by (auto simp: reconciled_def)
  qed
qed

lemma reconciled_trans:
  assumes "reconciled reward threshold [s] ce ce1" and "reconciled reward threshold ss ce1 ce2" and "ss_player s \<notin> ss_player ` set ss"
  shows "reconciled reward threshold (s # ss) ce ce2"
proof -
  obtain n1 n2 where n: "fst ce2 = fst ce @ n1 @ n2"
      "\<forall>p \<in> set (w_players (ec_world (snd ce))). rewardedRow reward threshold [s] p \<noteq> p \<longrightarrow> pl_id p \<in> rw_player ` set n1"
      "\<forall>p \<in> set (w_players (ec_world (snd ce1))). rewardedRow reward threshold ss p \<noteq> p \<longrightarrow> pl_id p \<in> rw_player ` set n2"
    using assms(1,2) unfolding reconciled_def by force
  have rows: "w_players (ec_world (snd ce1)) = map (rewardedRow reward threshold [s]) (w_players (ec_world (snd ce)))"
    using assms(1) by (simp add: reconciled_def)
  have step: "rewardedRow reward threshold (s # ss) p = rewardedRow reward threshold ss (rewardedRow reward threshold [s] p)" for p
    by (rule rewardedRow_Cons [OF assms(3)])
  have "pl_id p \<in> rw_player ` set (n1 @ n2)"
    if "p \<in> set (w_players (ec_world (snd ce)))" "rewardedRow reward threshold (s # ss) p \<noteq> p" for p
    using n(2) n(3) [unfolded rows] that unfolding step by (cases "rewardedRow reward threshold [s] p = p") force+
  moreover have "\<exists>t. snd ce2 = (snd ce)\<lparr>ec_world := (ec_world (snd ce))\<lparr>w_players := t\<rparr>\<rparr>"
    using assms(1,2) unfolding reconciled_def by auto
  ultimately show ?thesis using assms(2) rows n(1) unfolding reconciled_def by (auto simp: step)
qed

lemma reconcileLoop_reconciled:
  "reconcileLoop reward threshold ss ce = Some ce' \<Longrightarrow> distinct (map ss_player ss) \<Longrightarrow> reconciled reward threshold ss ce ce'"
proof (induction ss arbitrary: ce)
  case Nil
  then show ?case by (auto intro: reconciled_same)
next
  case (Cons s ss)
  then obtain ce1 where ce1: "reconcileOne reward threshold s ce = Some ce1" and rest: "reconcileLoop reward threshold ss ce1 = Some ce'"
    by (auto split: option.splits)
  have "reconciled reward threshold ss ce1 ce'" using Cons.IH [OF rest] Cons.prems(2) by simp
  with reconcileOne_reconciled [OF ce1] show ?case by (rule reconciled_trans) (use Cons.prems(2) in simp)
qed

text \<open>Revoking sessions leaves the other tables alone and removes the rows of every player it reaches.\<close>

lemma revokeOne_frame:
  assumes "revokeAllSessionsForPlayer env pid e = (ok, e')"
  shows "w_players (ec_world e') = w_players (ec_world e)" "w_roles (ec_world e') = w_roles (ec_world e)"
    "set (s_rows (w_sess (ec_world e'))) \<subseteq> set (s_rows (w_sess (ec_world e)))"
    "ok \<Longrightarrow> \<forall>r \<in> set (s_rows (w_sess (ec_world e'))). s_player r \<noteq> pid"
    "ec_ledger e' = ec_ledger e" "ec_balance e' = ec_balance e" "ec_subs e' = ec_subs e" "ec_audit e' = ec_audit e"
  using assms by (auto simp: revokeAllSessionsForPlayer_def deleteSessionRowsForPlayer_def notifySessionsRevoked_def Let_def
    split: if_splits prod.splits)

lemma revokeLoop_frame:
  assumes "revokeLoop env cs e = (ok, e')"
  shows "w_players (ec_world e') = w_players (ec_world e)" "w_roles (ec_world e') = w_roles (ec_world e)"
    "set (s_rows (w_sess (ec_world e'))) \<subseteq> set (s_rows (w_sess (ec_world e)))"
    "ok \<Longrightarrow> \<forall>r \<in> set (s_rows (w_sess (ec_world e'))). s_player r \<notin> rw_player ` set cs"
    "ec_ledger e' = ec_ledger e" "ec_balance e' = ec_balance e" "ec_subs e' = ec_subs e" "ec_audit e' = ec_audit e"
proof -
  let ?P = "\<lambda>cs e. w_players (ec_world e') = w_players (ec_world e) \<and> w_roles (ec_world e') = w_roles (ec_world e)
    \<and> set (s_rows (w_sess (ec_world e'))) \<subseteq> set (s_rows (w_sess (ec_world e)))
    \<and> (ok \<longrightarrow> (\<forall>r \<in> set (s_rows (w_sess (ec_world e'))). s_player r \<notin> rw_player ` set cs))
    \<and> ec_ledger e' = ec_ledger e \<and> ec_balance e' = ec_balance e \<and> ec_subs e' = ec_subs e \<and> ec_audit e' = ec_audit e"
  have "?P cs e" using assms
  proof (induction cs arbitrary: e)
    case Nil
    then show ?case by simp
  next
    case (Cons c cs)
    obtain ok1 e1 where one: "revokeAllSessionsForPlayer env (rw_player c) e = (ok1, e1)" by fastforce
    note f = revokeOne_frame [OF one]
    show ?case
    proof (cases ok1)
      case True
      then have "?P cs e1" using Cons.prems one by (intro Cons.IH) simp
      then show ?thesis using f True by auto
    next
      case False
      then show ?thesis using Cons.prems one f by auto
    qed
  qed
  then show "w_players (ec_world e') = w_players (ec_world e)" "w_roles (ec_world e') = w_roles (ec_world e)"
    "set (s_rows (w_sess (ec_world e'))) \<subseteq> set (s_rows (w_sess (ec_world e)))"
    "ok \<Longrightarrow> \<forall>r \<in> set (s_rows (w_sess (ec_world e'))). s_player r \<notin> rw_player ` set cs"
    "ec_ledger e' = ec_ledger e" "ec_balance e' = ec_balance e" "ec_subs e' = ec_subs e" "ec_audit e' = ec_audit e" by blast+
qed

text \<open>Whether a player reached the threshold, by the totals of the snapshot.\<close>

definition qualifies :: "reward_env \<Rightarrow> econ \<Rightarrow> rat \<Rightarrow> string \<Rightarrow> bool" where
  "qualifies env e threshold pid \<longleftrightarrow>
     rat_of_int (seedSecondsIn (we_dayNo env) (rollingSeedRewardWindow (we_now env)) e pid) \<ge> threshold"

lemma rewardedRow_states:
  assumes "distinct (map pl_id (w_players (ec_world e0)))"
    and "ss = seedStates (we_dayNo env) (rollingSeedRewardWindow (we_now env)) e0"
  obtains "rewardedRow reward threshold ss p = p" and "pl_id p \<notin> pl_id ` set (w_players (ec_world e0))"
    | p0 where "p0 \<in> set (w_players (ec_world e0))" and "pl_id p0 = pl_id p"
      and "rewardedRow reward threshold ss p =
        (if pl_role p0 = None \<and> pl_role p = None \<and> qualifies env e0 threshold (pl_id p)
         then p\<lparr>pl_role := Some reward, pl_expires := None, pl_comment := None\<rparr>
         else if pl_role p0 = Some reward \<and> pl_role p = Some reward \<and> \<not> qualifies env e0 threshold (pl_id p)
         then p\<lparr>pl_role := None, pl_expires := None, pl_comment := None\<rparr> else p)"
proof (cases "pl_id p \<in> pl_id ` set (w_players (ec_world e0))")
  case False
  moreover have "ss_player ` set ss = pl_id ` set (w_players (ec_world e0))" by (simp add: assms(2) seedStates_def image_image)
  ultimately show ?thesis using that(1) by (simp add: rewardedRow_other)
next
  case True
  then obtain p0 where p0: "p0 \<in> set (w_players (ec_world e0))" "pl_id p0 = pl_id p" by force
  let ?s = "\<lparr>ss_player = pl_id p0, ss_role = pl_role p0,
    ss_seconds = seedSecondsIn (we_dayNo env) (rollingSeedRewardWindow (we_now env)) e0 (pl_id p0)\<rparr>"
  have "map ss_player ss = map pl_id (w_players (ec_world e0))" by (simp add: assms(2) seedStates_def)
  then have "distinct (map ss_player ss)" using assms(1) by simp
  moreover have "?s \<in> set ss" using p0(1) by (auto simp: assms(2) seedStates_def)
  ultimately have "find_row (\<lambda>s. ss_player s = pl_id p) ss = Some ?s"
    using find_row_unique [of ss_player ss ?s] p0(2) by simp
  then show ?thesis using p0 by (intro that(2) [OF p0]) (auto simp: rewardedRow_def rewardKind_def Let_def qualifies_def)
qed

lemma rewardTick_cases:
  assumes "distinct (map pl_id (w_players (ec_world e0)))" and "runSeedRewardTick env e0 e = (res, e')"
  obtains (kept) "e' = e" and "\<nexists>r. res = Some r \<and> \<not> rr_skipped r"
    | (rewarded) reward threshold role cs e1 where "rewardSettings e0 = Some (reward, threshold)"
      and "findRole (ec_world e0) reward = Some role" and "\<not> panel_access role"
      and "reconciled reward threshold (seedStates (we_dayNo env) (rollingSeedRewardWindow (we_now env)) e0) ([], e) (cs, e1)"
      and "w_players (ec_world e') = w_players (ec_world e1)"
      and "res \<noteq> None \<longrightarrow> (\<forall>r \<in> set (s_rows (w_sess (ec_world e'))). s_player r \<notin> rw_player ` set cs)"
      and "ec_audit e' = ec_audit e @ map rewardAudit cs"
proof (cases "\<exists>changes n e2. reconcileSeedRewardAssignments env e0 e = Reconciled changes n e2")
  case False
  then have "e' = e" "\<nexists>r. res = Some r \<and> \<not> rr_skipped r"
    using assms(2) by (auto simp: runSeedRewardTick_def split: reconciliation.splits)
  then show ?thesis by (rule kept)
next
  case True
  then obtain changes n e2 where rec: "reconcileSeedRewardAssignments env e0 e = Reconciled changes n e2" by blast
  let ?ss = "seedStates (we_dayNo env) (rollingSeedRewardWindow (we_now env)) e0"
  obtain reward threshold role e1 where set: "rewardSettings e0 = Some (reward, threshold)"
      and role: "findRole (ec_world e0) reward = Some role" "\<not> panel_access role"
      and loop: "reconcileLoop reward threshold ?ss ([], e) = Some (changes, e1)"
      and e2: "w_players (ec_world e2) = w_players (ec_world e1)" "ec_audit e2 = ec_audit e1 @ map rewardAudit changes"
    using rec unfolding reconcileSeedRewardAssignments_def syncAllServers_def publishAdminsCfgSyncForAllServers_def
    by (auto split: option.splits prod.splits if_splits)
  have "map ss_player ?ss = map pl_id (w_players (ec_world e0))" by (simp add: seedStates_def)
  then have r: "reconciled reward threshold ?ss ([], e) (changes, e1)"
    using reconcileLoop_reconciled [OF loop] assms(1) by simp
  then have audit: "ec_audit e1 = ec_audit e" by (auto simp: reconciled_def)
  obtain ok where loop2: "revokeLoop env changes e2 = (ok, e')" and ok: "res \<noteq> None \<longrightarrow> ok"
    using assms(2) rec by (auto simp: runSeedRewardTick_def Let_def split: prod.splits if_splits)
  note f = revokeLoop_frame [OF loop2]
  show ?thesis by (rule rewarded [OF set role r]) (use f ok e2 audit in auto)
qed

text \<open>The moves the worker may make with a player's row.\<close>

definition rewardMove :: "reward_env \<Rightarrow> econ \<Rightarrow> player_row \<Rightarrow> player_row \<Rightarrow> bool" where
  "rewardMove env e0 p p' \<longleftrightarrow>
     (case rewardSettings e0 of
        None \<Rightarrow> False
      | Some (reward, threshold) \<Rightarrow>
          (case findRole (ec_world e0) reward of Some role \<Rightarrow> \<not> panel_access role | None \<Rightarrow> False)
          \<and> (if qualifies env e0 threshold (pl_id p)
             then pl_role p = None \<and> p' = p\<lparr>pl_role := Some reward, pl_expires := None, pl_comment := None\<rparr>
             else pl_role p = Some reward \<and> p' = p\<lparr>pl_role := None, pl_expires := None, pl_comment := None\<rparr>))"

lemma rewardedRow_move:
  assumes "distinct (map pl_id (w_players (ec_world e0)))" and "rewardSettings e0 = Some (reward, threshold)"
    and "findRole (ec_world e0) reward = Some role" and "\<not> panel_access role"
  shows "rewardedRow reward threshold (seedStates (we_dayNo env) (rollingSeedRewardWindow (we_now env)) e0) p = p
    \<or> rewardMove env e0 p (rewardedRow reward threshold (seedStates (we_dayNo env) (rollingSeedRewardWindow (we_now env)) e0) p)"
  by (rule rewardedRow_states [OF assms(1) refl, of reward threshold env p])
    (use assms(2-4) in \<open>auto simp: rewardMove_def split: if_splits\<close>)

lemma rewardedRow_settles:
  assumes "distinct (map pl_id (w_players (ec_world e0)))" and "p \<in> set (w_players (ec_world e0))"
    and "q = rewardedRow reward threshold (seedStates (we_dayNo env) (rollingSeedRewardWindow (we_now env)) e0) p"
  shows "if qualifies env e0 threshold (pl_id q) then pl_role q \<noteq> None else pl_role q \<noteq> Some reward"
  using assms(3)
proof (cases rule: rewardedRow_states [OF assms(1) refl, of reward threshold env p])
  case 1
  then show ?thesis using assms(2) by blast
next
  case (2 p0)
  then have "p0 = p" using assms(1,2) by (auto simp: distinct_map inj_on_def)
  with 2 assms(3) show ?thesis by auto
qed

text \<open>
  C31: The seed reward worker moves a player's row only as the totals of its snapshot demand
  (\<open>rewardMove\<close>): a player without a role who reached the threshold gets the reward role, a player who holds the
  reward role and did not reach it loses it, whatever expiry the assignment had, and every other role stays,
  also one assigned between the snapshot and the update.  The reward role does not open the panel.  When the run
  ends without an error no session of a changed player is left; and when nothing intervened, every player who
  qualifies holds a role and no other player holds the reward role.
\<close>

theorem seed_reward_exact:
  assumes "distinct (map pl_id (w_players (ec_world e0)))" and "runSeedRewardTick env e0 e = (res, e')"
  shows "list_all2 (\<lambda>p p'. p' = p \<or> rewardMove env e0 p p'
           \<and> (res \<noteq> None \<longrightarrow> (\<forall>r \<in> set (s_rows (w_sess (ec_world e'))). s_player r \<noteq> pl_id p)))
         (w_players (ec_world e)) (w_players (ec_world e'))
       \<and> (\<forall>r reward threshold. e = e0 \<and> res = Some r \<and> \<not> rr_skipped r \<and> rewardSettings e0 = Some (reward, threshold) \<longrightarrow>
           (\<forall>p \<in> set (w_players (ec_world e')).
              if qualifies env e0 threshold (pl_id p) then pl_role p \<noteq> None else pl_role p \<noteq> Some reward))"
  using assms
proof (cases rule: rewardTick_cases)
  case kept
  then show ?thesis by (auto simp: list_all2_same)
next
  case (rewarded reward threshold role cs e1)
  let ?ss = "seedStates (we_dayNo env) (rollingSeedRewardWindow (we_now env)) e0"
  have rows: "w_players (ec_world e') = map (rewardedRow reward threshold ?ss) (w_players (ec_world e))"
    using rewarded(4,5) by (simp add: reconciled_def)
  have changed: "pl_id p \<in> rw_player ` set cs" if "p \<in> set (w_players (ec_world e))" "rewardedRow reward threshold ?ss p \<noteq> p" for p
    using rewarded(4) that by (auto simp: reconciled_def)
  have "rewardedRow reward threshold ?ss p = p \<or> rewardMove env e0 p (rewardedRow reward threshold ?ss p)
      \<and> (res \<noteq> None \<longrightarrow> (\<forall>r \<in> set (s_rows (w_sess (ec_world e'))). s_player r \<noteq> pl_id p))"
    if "p \<in> set (w_players (ec_world e))" for p
    using rewardedRow_move [OF assms(1) rewarded(1-3), of env p] changed [OF that] rewarded(6) by metis
  then have "list_all2 (\<lambda>p p'. p' = p \<or> rewardMove env e0 p p'
      \<and> (res \<noteq> None \<longrightarrow> (\<forall>r \<in> set (s_rows (w_sess (ec_world e'))). s_player r \<noteq> pl_id p)))
      (w_players (ec_world e)) (w_players (ec_world e'))"
    unfolding rows by (simp add: list_all2_map2 list_all2_same)
  moreover have "if qualifies env e0 threshold (pl_id q) then pl_role q \<noteq> None else pl_role q \<noteq> Some reward"
    if "e = e0" "q \<in> set (w_players (ec_world e'))" for q
  proof -
    have "q \<in> rewardedRow reward threshold ?ss ` set (w_players (ec_world e0))" using that(2) unfolding rows that(1) set_map .
    then obtain p where "p \<in> set (w_players (ec_world e0))" "q = rewardedRow reward threshold ?ss p" by (rule imageE)
    then show ?thesis by (rule rewardedRow_settles [OF assms(1)])
  qed
  ultimately show ?thesis using rewarded(1) by auto
qed

text \<open>
  A subscriber who paid for the reward role but seeded nothing, and a player without a role who seeded two hours
  against a threshold of one.
\<close>

definition demoSeeds :: econ where
  "demoSeeds = (demoVip 1000 [demoSub 0])\<lparr>
     ec_presence := [\<lparr>pr_player = ''q'', pr_server = ''srv'', pr_day = ''1970-01-20'', pr_online = 9000, pr_boost = 0, pr_seed = 7200\<rparr>],
     ec_settings := Some \<lparr>es_kOnline = 1, es_kBoost = 1, es_kSeed = 1, es_seedThreshold = 40, es_enabled = True, es_rewardRole = Some ''v'', es_rewardHours = 1\<rparr>,
     ec_world := (ec_world (demoVip 1000 []))\<lparr>w_players := w_players (ec_world (demoVip 1000 [])) @
       [\<lparr>pl_id = ''q'', pl_steam = None, pl_role = None, pl_expires = None, pl_comment = None\<rparr>]\<rparr>\<rparr>"

definition demoReward :: reward_env where
  "demoReward = \<lparr>we_now = 30 * DAY_MS, we_dayNo = (\<lambda>_. 19), we_audit = True, we_delete = (\<lambda>_. True), we_notify = (\<lambda>_. NotifyOk)\<rparr>"

lemma demo_reward:
  "case runSeedRewardTick demoReward demoSeeds demoSeeds of
     (Some r, e) \<Rightarrow> \<not> rr_skipped r \<and> rr_granted r = 1 \<and> rr_revoked r = 1
       \<and> map (\<lambda>p. (pl_id p, pl_role p)) (w_players (ec_world e)) = [(''p'', None), (''q'', Some ''v'')]
   | _ \<Rightarrow> False"
  "map pl_id (w_players (ec_world demoSeeds)) = [''p'', ''q'']" "rewardSettings demoSeeds = Some (''v'', 3600)"
  by code_simp+

theorem seed_reward_exact_witness:
  "\<exists>r e'. runSeedRewardTick demoReward demoSeeds demoSeeds = (Some r, e')
     \<and> (\<forall>p \<in> set (w_players (ec_world e')). if qualifies demoReward demoSeeds 3600 (pl_id p) then pl_role p \<noteq> None else pl_role p \<noteq> Some ''v'')
     \<and> list_all2 (\<lambda>p p'. p' = p \<or> rewardMove demoReward demoSeeds p p'
           \<and> (Some r \<noteq> None \<longrightarrow> (\<forall>s \<in> set (s_rows (w_sess (ec_world e'))). s_player s \<noteq> pl_id p)))
         (w_players (ec_world demoSeeds)) (w_players (ec_world e'))
     \<and> map (\<lambda>p. (pl_id p, pl_role p)) (w_players (ec_world e')) = [(''p'', None), (''q'', Some ''v'')]"
proof -
  obtain r e' where run: "runSeedRewardTick demoReward demoSeeds demoSeeds = (Some r, e')" "\<not> rr_skipped r"
      and after: "map (\<lambda>p. (pl_id p, pl_role p)) (w_players (ec_world e')) = [(''p'', None), (''q'', Some ''v'')]"
    using demo_reward(1) by (auto split: prod.splits option.splits)
  have "distinct (map pl_id (w_players (ec_world demoSeeds)))" by (simp add: demo_reward(2))
  note exact = seed_reward_exact [OF this run(1)]
  have "\<forall>p \<in> set (w_players (ec_world e')). if qualifies demoReward demoSeeds 3600 (pl_id p) then pl_role p \<noteq> None else pl_role p \<noteq> Some ''v''"
    using conjunct2 [OF exact] run(2) demo_reward(3) by presburger
  then show ?thesis using run(1) after conjunct1 [OF exact] by (intro exI [of _ r] exI [of _ e'] conjI)
qed

end
