(* ===== verification/Expiry_Reminders.thy ===== *)
theory Expiry_Reminders
  imports Economy_Safety
begin

text \<open>
  The daily reminders before a timed role expires (\<^verbatim>\<open>apps/workers/role-expirer/src/reminders.ts\<close>): the smallest
  crossed window of every grant is announced once, to the administrators as an alert and to the player as a
  pending row of \<^verbatim>\<open>expiry_notifications\<close>.  A run may throw at every database or Redis call and leaves what it
  committed before.  The configured windows are JSON numbers, so they need not be integers; display names are
  left out of the payload.
\<close>

section \<open>The tick\<close>

record expiring_grant =
  eg_player :: string
  eg_role :: string
  eg_roleName :: string
  eg_expires :: int

datatype recipient = ToAdmin | ToPlayer

record expiry_claim =
  cl_player :: string
  cl_role :: string
  cl_expires :: int
  cl_window :: int
  cl_recipient :: recipient

record expiry_alert =
  al_player :: string
  al_role :: string
  al_roleName :: string
  al_expires :: int
  al_window :: int

record reminder_state =
  rm_claims :: "expiry_claim list"
  rm_alerts :: "expiry_alert list"
  rm_frames :: "expiry_alert list"

record reminder_env =
  rv_admin :: "expiring_grant \<Rightarrow> bool"
  rv_publish :: "expiring_grant \<Rightarrow> bool"
  rv_player :: "expiring_grant \<Rightarrow> bool"

definition WINDOW_DAYS_MIN :: int where "WINDOW_DAYS_MIN = 1"
definition WINDOW_DAYS_MAX :: int where "WINDOW_DAYS_MAX = 90"
definition DEFAULT_WINDOWS_DAYS :: "rat list" where "DEFAULT_WINDOWS_DAYS = [7, 3, 1]"

text \<open>\<open>None\<close> when the settings row is missing or its value is not an array.\<close>

definition loadReminderWindows :: "rat list option \<Rightarrow> rat list" where
  "loadReminderWindows configured = orElse configured DEFAULT_WINDOWS_DAYS"

definition validWindow :: "rat \<Rightarrow> bool" where
  "validWindow w \<longleftrightarrow> rat_of_int \<lfloor>w\<rfloor> = w \<and> rat_of_int WINDOW_DAYS_MIN \<le> w \<and> w \<le> rat_of_int WINDOW_DAYS_MAX"

definition normalizeWindows :: "rat list \<Rightarrow> int list" where
  "normalizeWindows windows = rev (sort (js_set (map floor (filter validWindow windows))))"

definition expiringGrant :: "int \<Rightarrow> int \<Rightarrow> world \<Rightarrow> player_row \<Rightarrow> expiring_grant option" where
  "expiringGrant now horizon w p =
     (case (pl_role p, pl_expires p) of
        (Some rid, Some expires) \<Rightarrow>
          (case findRole w rid of
             None \<Rightarrow> None
           | Some role \<Rightarrow>
               if now < expires \<and> expires \<le> horizon
               then Some \<lparr>eg_player = pl_id p, eg_role = rid, eg_roleName = role_name role, eg_expires = expires\<rparr>
               else None)
      | _ \<Rightarrow> None)"

definition findExpiringGrants :: "int \<Rightarrow> int \<Rightarrow> nat \<Rightarrow> world \<Rightarrow> expiring_grant list" where
  "findExpiringGrants now maxWindowDays limit w =
     take limit (sort_key eg_expires
       (List.map_filter (expiringGrant now (now + maxWindowDays * DAY_MS) w) (w_players w)))"

text \<open>The insert with \<^verbatim>\<open>ON CONFLICT DO NOTHING\<close>: whether a row was written.\<close>

definition claimExpiryNotification :: "expiry_claim \<Rightarrow> reminder_state \<Rightarrow> bool \<times> reminder_state" where
  "claimExpiryNotification c st =
     (if c \<in> set (rm_claims st) then (False, st) else (True, st\<lparr>rm_claims := rm_claims st @ [c]\<rparr>))"

definition claimOf :: "expiring_grant \<Rightarrow> int \<Rightarrow> recipient \<Rightarrow> expiry_claim" where
  "claimOf g windowDays to' =
     \<lparr>cl_player = eg_player g, cl_role = eg_role g, cl_expires = eg_expires g, cl_window = windowDays, cl_recipient = to'\<rparr>"

definition alertPayload :: "expiring_grant \<Rightarrow> int \<Rightarrow> expiry_alert" where
  "alertPayload g windowDays =
     \<lparr>al_player = eg_player g, al_role = eg_role g, al_roleName = eg_roleName g, al_expires = eg_expires g, al_window = windowDays\<rparr>"

text \<open>Claim and alert in one transaction.\<close>

definition claimAdminAlert :: "expiring_grant \<Rightarrow> int \<Rightarrow> reminder_state \<Rightarrow> bool \<times> reminder_state" where
  "claimAdminAlert g windowDays st =
     (case claimExpiryNotification (claimOf g windowDays ToAdmin) st of
        (False, _) \<Rightarrow> (False, st)
      | (True, st1) \<Rightarrow> (True, st1\<lparr>rm_alerts := rm_alerts st1 @ [alertPayload g windowDays]\<rparr>))"

text \<open>One grant; the first component says whether the loop goes on, the second counts the announcements.\<close>

definition announce :: "reminder_env \<Rightarrow> int \<Rightarrow> expiring_grant \<Rightarrow> nat \<times> reminder_state \<Rightarrow> bool \<times> nat \<times> reminder_state" where
  "announce env windowDays g ns =
     (if \<not> rv_admin env g then (False, ns)
      else case claimAdminAlert g windowDays (snd ns) of
        (claimed, st1) \<Rightarrow>
          if claimed \<and> \<not> rv_publish env g then (False, fst ns, st1)
          else let n = (if claimed then fst ns + 1 else fst ns);
                   st2 = (if claimed then st1\<lparr>rm_frames := rm_frames st1 @ [alertPayload g windowDays]\<rparr> else st1)
            in if \<not> rv_player env g then (False, n, st2)
               else (True, n, snd (claimExpiryNotification (claimOf g windowDays ToPlayer) st2)))"

definition crossedWindows :: "int list \<Rightarrow> int \<Rightarrow> int list" where
  "crossedWindows windows msLeft = filter (\<lambda>w. msLeft \<le> w * DAY_MS) windows"

definition remindOne ::
  "reminder_env \<Rightarrow> int list \<Rightarrow> int \<Rightarrow> expiring_grant \<Rightarrow> nat \<times> reminder_state \<Rightarrow> bool \<times> nat \<times> reminder_state" where
  "remindOne env windows now g ns =
     (let msLeft = eg_expires g - now; crossed = crossedWindows windows msLeft
      in if msLeft \<le> 0 \<or> crossed = [] then (True, ns) else announce env (last crossed) g ns)"

fun remindLoop ::
  "reminder_env \<Rightarrow> int list \<Rightarrow> int \<Rightarrow> expiring_grant list \<Rightarrow> nat \<times> reminder_state \<Rightarrow> bool \<times> nat \<times> reminder_state" where
  "remindLoop env windows now [] ns = (True, ns)"
| "remindLoop env windows now (g # gs) ns =
     (case remindOne env windows now g ns of
        (True, ns') \<Rightarrow> remindLoop env windows now gs ns'
      | (False, ns') \<Rightarrow> (False, ns'))"

definition runRoleExpiryReminderTick ::
  "reminder_env \<Rightarrow> rat list option \<Rightarrow> int \<Rightarrow> nat \<Rightarrow> world \<Rightarrow> reminder_state \<Rightarrow> nat option \<times> reminder_state" where
  "runRoleExpiryReminderTick env configured now limit w st =
     (case normalizeWindows (loadReminderWindows configured) of
        [] \<Rightarrow> (Some 0, st)
      | maxWindow # rest \<Rightarrow>
          (case remindLoop env (maxWindow # rest) now (findExpiringGrants now maxWindow limit w) (0, st) of
             (ok, n, st') \<Rightarrow> (if ok then Some n else None, st')))"

section \<open>One announcement per window\<close>

text \<open>
  The administrators' claims are exactly the alerts, in order; every frame published is the frame of an alert,
  and nothing is claimed or published twice.
\<close>

definition alertClaim :: "expiry_alert \<Rightarrow> expiry_claim" where
  "alertClaim a = \<lparr>cl_player = al_player a, cl_role = al_role a, cl_expires = al_expires a, cl_window = al_window a, cl_recipient = ToAdmin\<rparr>"

definition remindersOk :: "reminder_state \<Rightarrow> bool" where
  "remindersOk st \<longleftrightarrow> distinct (rm_claims st)
     \<and> map alertClaim (rm_alerts st) = filter (\<lambda>c. cl_recipient c = ToAdmin) (rm_claims st)
     \<and> distinct (map alertClaim (rm_frames st)) \<and> set (rm_frames st) \<subseteq> set (rm_alerts st)"

lemma alertClaim_payload [simp]: "alertClaim (alertPayload g w) = claimOf g w ToAdmin"
  by (simp add: alertClaim_def alertPayload_def claimOf_def)

lemma claimOf_recipient [simp]: "cl_recipient (claimOf g w r) = r"
  by (simp add: claimOf_def)

lemma claimOf_inj [simp]: "claimOf g w r = claimOf h v s \<longleftrightarrow>
    eg_player g = eg_player h \<and> eg_role g = eg_role h \<and> eg_expires g = eg_expires h \<and> w = v \<and> r = s"
  by (auto simp: claimOf_def)

lemma player_claim_ok:
  assumes "remindersOk st"
  shows "remindersOk (snd (claimExpiryNotification (claimOf g w ToPlayer) st))"
  using assms by (auto simp: remindersOk_def claimExpiryNotification_def)

lemma admin_claim_ok:
  assumes "remindersOk st" and "claimAdminAlert g w st = (claimed, st1)"
  shows "remindersOk st1" and "claimed \<Longrightarrow> remindersOk (st1\<lparr>rm_frames := rm_frames st1 @ [alertPayload g w]\<rparr>)"
proof -
  have alerts: "alertClaim ` set (rm_alerts st) \<subseteq> set (rm_claims st)"
    using assms(1) unfolding remindersOk_def by (metis filter_is_subset list.set_map)
  show "remindersOk st1"
    using assms by (auto simp: remindersOk_def claimAdminAlert_def claimExpiryNotification_def split: if_splits)
  have fresh: "claimOf g w ToAdmin \<notin> set (rm_claims st)"
      and st1: "st1 = st\<lparr>rm_claims := rm_claims st @ [claimOf g w ToAdmin], rm_alerts := rm_alerts st @ [alertPayload g w]\<rparr>" if claimed
    using assms(2) that by (auto simp: claimAdminAlert_def claimExpiryNotification_def split: if_splits)
  have "claimOf g w ToAdmin \<notin> alertClaim ` set (rm_frames st)" if claimed
    using fresh [OF that] alerts assms(1) unfolding remindersOk_def by blast
  then show "claimed \<Longrightarrow> remindersOk (st1\<lparr>rm_frames := rm_frames st1 @ [alertPayload g w]\<rparr>)"
    using \<open>remindersOk st1\<close> st1 by (auto simp: remindersOk_def)
qed

lemma announce_ok:
  assumes "remindersOk (snd ns)" and "announce env w g ns = (ok, n, st')"
  shows "remindersOk st'"
proof -
  obtain claimed st1 where a: "claimAdminAlert g w (snd ns) = (claimed, st1)" by fastforce
  note inv = admin_claim_ok [OF assms(1) a]
  show ?thesis using assms(2) inv a assms(1)
    by (auto simp: announce_def Let_def split: if_splits intro: player_claim_ok)
qed

lemma remindLoop_ok: "remindersOk (snd ns) \<Longrightarrow> remindLoop env windows now gs ns = (ok, n, st') \<Longrightarrow> remindersOk st'"
proof (induction gs arbitrary: ns)
  case Nil
  then show ?case by auto
next
  case (Cons g gs)
  obtain ok1 n1 st1 where one: "remindOne env windows now g ns = (ok1, n1, st1)" by (metis prod_cases3)
  have "remindersOk st1"
    using one Cons.prems(1) by (auto simp: remindOne_def Let_def split: if_splits intro: announce_ok)
  then show ?case using Cons.IH [of "(n1, st1)"] Cons.prems(2) one by (auto split: bool.splits)
qed

section \<open>Which windows are announced\<close>

lemma normalizeWindows_set: "set (normalizeWindows windows) = {w. rat_of_int w \<in> set windows \<and> WINDOW_DAYS_MIN \<le> w \<and> w \<le> WINDOW_DAYS_MAX}"
proof -
  have "set (normalizeWindows windows) = floor ` {w \<in> set windows. validWindow w}" by (simp add: normalizeWindows_def)
  also have "\<dots> = {w. rat_of_int w \<in> set windows \<and> validWindow (rat_of_int w)}"
    by (auto simp: validWindow_def intro!: image_eqI [where x = "rat_of_int _"])
  finally show ?thesis by (simp add: validWindow_def)
qed

lemma crossed_last:
  assumes "crossedWindows (normalizeWindows windows) msLeft \<noteq> []"
  shows "last (crossedWindows (normalizeWindows windows) msLeft) = Min {w \<in> set (normalizeWindows windows). msLeft \<le> w * DAY_MS}"
proof -
  let ?xs = "filter (\<lambda>w. msLeft \<le> w * DAY_MS) (sort (js_set (map floor (filter validWindow windows))))"
  have cr: "crossedWindows (normalizeWindows windows) msLeft = rev ?xs" by (simp add: crossedWindows_def normalizeWindows_def rev_filter)
  then have "?xs \<noteq> []" using assms by simp
  moreover have "sorted ?xs" by (simp add: sorted_filter [where f = id, simplified])
  ultimately have "hd ?xs = Min (set ?xs)" by (cases ?xs) (auto intro!: Min_eqI [symmetric])
  moreover have "set ?xs = {w \<in> set (normalizeWindows windows). msLeft \<le> w * DAY_MS}" by (simp add: normalizeWindows_def)
  ultimately show ?thesis using \<open>?xs \<noteq> []\<close> unfolding cr by (simp add: last_rev)
qed

text \<open>The claims a run owes: for each grant of its batch the smallest crossed window, for both recipients.\<close>

definition owed :: "rat list \<Rightarrow> int \<Rightarrow> expiring_grant list \<Rightarrow> expiry_claim set" where
  "owed windows now gs = {claimOf g (Min {w \<in> set (normalizeWindows windows). eg_expires g - now \<le> w * DAY_MS}) r | g r.
     g \<in> set gs \<and> now < eg_expires g \<and> (\<exists>w \<in> set (normalizeWindows windows). eg_expires g - now \<le> w * DAY_MS)}"

lemma owed_Cons: "owed windows now (g # gs) = owed windows now [g] \<union> owed windows now gs"
  by (auto simp: owed_def)

lemma owed_one:
  "owed windows now [g] =
     (if eg_expires g - now \<le> 0 \<or> crossedWindows (normalizeWindows windows) (eg_expires g - now) = [] then {}
      else range (claimOf g (last (crossedWindows (normalizeWindows windows) (eg_expires g - now)))))"
proof -
  have "crossedWindows (normalizeWindows windows) m = [] \<longleftrightarrow> \<not> (\<exists>w \<in> set (normalizeWindows windows). m \<le> w * DAY_MS)" for m
    by (auto simp: crossedWindows_def filter_empty_conv)
  then show ?thesis using crossed_last [of windows "eg_expires g - now"] by (auto simp: owed_def)
qed

lemma range_claimOf: "range (claimOf g w) = {claimOf g w ToAdmin, claimOf g w ToPlayer}"
  by (auto intro: recipient.exhaust)

lemma announce_claims:
  assumes "announce env w g ns = (ok, n, st')"
  shows "set (rm_claims (snd ns)) \<subseteq> set (rm_claims st')" and "set (rm_claims st') \<subseteq> set (rm_claims (snd ns)) \<union> range (claimOf g w)"
    and "ok \<Longrightarrow> range (claimOf g w) \<subseteq> set (rm_claims st')"
  using assms unfolding range_claimOf
  by (auto simp: announce_def claimAdminAlert_def claimExpiryNotification_def Let_def split: if_splits)

lemma remindOne_claims:
  assumes "remindOne env (normalizeWindows windows) now g ns = (ok, n, st')"
  shows "set (rm_claims (snd ns)) \<subseteq> set (rm_claims st')" and "set (rm_claims st') \<subseteq> set (rm_claims (snd ns)) \<union> owed windows now [g]"
    and "ok \<Longrightarrow> owed windows now [g] \<subseteq> set (rm_claims st')"
  using assms announce_claims [of env _ g ns ok n st'] unfolding owed_one
  by (auto simp: remindOne_def Let_def split: if_splits)

lemma remindLoop_claims:
  "remindLoop env (normalizeWindows windows) now gs ns = (ok, n, st') \<Longrightarrow>
     set (rm_claims (snd ns)) \<subseteq> set (rm_claims st') \<and> set (rm_claims st') \<subseteq> set (rm_claims (snd ns)) \<union> owed windows now gs
     \<and> (ok \<longrightarrow> owed windows now gs \<subseteq> set (rm_claims st'))"
proof (induction gs arbitrary: ns)
  case Nil
  then show ?case by (auto simp: owed_def)
next
  case (Cons g gs)
  obtain ok1 n1 st1 where one: "remindOne env (normalizeWindows windows) now g ns = (ok1, n1, st1)" by (metis prod_cases3)
  note c = remindOne_claims [OF one]
  show ?case
  proof (cases ok1)
    case True
    then show ?thesis using Cons.IH [of "(n1, st1)"] Cons.prems one c unfolding owed_Cons [of _ _ g gs] by auto
  next
    case False
    then show ?thesis using Cons.prems one c unfolding owed_Cons [of _ _ g gs] by auto
  qed
qed

section \<open>Runs of the tick\<close>

inductive reminder_run :: "reminder_state \<Rightarrow> bool" where
  start: "reminder_run \<lparr>rm_claims = [], rm_alerts = [], rm_frames = []\<rparr>"
| tick: "reminder_run st \<Longrightarrow> runRoleExpiryReminderTick env configured now limit w st = (res, st') \<Longrightarrow> reminder_run st'"

lemma reminderTick_ok:
  assumes "runRoleExpiryReminderTick env configured now limit w st = (res, st')" and "remindersOk st"
  shows "remindersOk st'"
  using assms remindLoop_ok [of "(0, st)"] by (auto simp: runRoleExpiryReminderTick_def split: list.splits prod.splits)

lemma reminder_run_ok: "reminder_run st \<Longrightarrow> remindersOk st"
  by (induction rule: reminder_run.induct) (auto simp: reminderTick_ok, simp add: remindersOk_def)

text \<open>The grants a run looks at: the first \<open>limit\<close> that expire within the widest window.\<close>

definition batch :: "rat list \<Rightarrow> int \<Rightarrow> nat \<Rightarrow> world \<Rightarrow> expiring_grant list" where
  "batch windows now limit w = (case normalizeWindows windows of [] \<Rightarrow> [] | maxWindow # _ \<Rightarrow> findExpiringGrants now maxWindow limit w)"

text \<open>
  C32: However often the reminder tick has run, over whatever states of the panel and with whatever failures, no
  (player, role, expiry, window) was announced twice: the claims are distinct, the alerts are exactly the
  administrators' claims and no live frame was published twice or without its alert.  And a tick claims only
  the smallest crossed window of each grant of its batch, for both recipients, and all of those when it does
  not throw.
\<close>

theorem reminders_once:
  assumes "reminder_run st" and "runRoleExpiryReminderTick env configured now limit w st = (res, st')"
  shows "remindersOk st' \<and> set (rm_claims st) \<subseteq> set (rm_claims st')
    \<and> set (rm_claims st') \<subseteq> set (rm_claims st) \<union> owed (loadReminderWindows configured) now (batch (loadReminderWindows configured) now limit w)
    \<and> (res \<noteq> None \<longrightarrow> owed (loadReminderWindows configured) now (batch (loadReminderWindows configured) now limit w) \<subseteq> set (rm_claims st'))"
proof (cases "normalizeWindows (loadReminderWindows configured)")
  case Nil
  then show ?thesis using assms reminder_run_ok by (auto simp: runRoleExpiryReminderTick_def batch_def owed_def)
next
  case (Cons m rest)
  then obtain ok n where loop: "remindLoop env (normalizeWindows (loadReminderWindows configured)) now (findExpiringGrants now m limit w) (0, st) = (ok, n, st')"
      and res: "res \<noteq> None \<longrightarrow> ok"
    using assms(2) by (auto simp: runRoleExpiryReminderTick_def split: prod.splits if_splits)
  then show ?thesis using remindLoop_claims [OF loop] reminderTick_ok [OF assms(2) reminder_run_ok [OF assms(1)]] Cons
    by (auto simp: batch_def)
qed

text \<open>A subscriber two days before the expiry: the window of three days is announced.\<close>

definition demoReminders :: reminder_state where
  "demoReminders = \<lparr>rm_claims = [], rm_alerts = [], rm_frames = []\<rparr>"

definition demoReminderEnv :: reminder_env where
  "demoReminderEnv = \<lparr>rv_admin = (\<lambda>_. True), rv_publish = (\<lambda>_. True), rv_player = (\<lambda>_. True)\<rparr>"

lemma demo_reminder:
  "case runRoleExpiryReminderTick demoReminderEnv None 0 1000 (ec_world (demoVip (2 * DAY_MS) [])) demoReminders of
     (res, st) \<Rightarrow> res = Some 1 \<and> map cl_window (rm_claims st) = [3, 3]"
  by code_simp

theorem reminders_once_witness:
  "\<exists>st. runRoleExpiryReminderTick demoReminderEnv None 0 1000 (ec_world (demoVip (2 * DAY_MS) [])) demoReminders = (Some 1, st)
     \<and> map cl_window (rm_claims st) = [3, 3] \<and> remindersOk st
     \<and> owed (loadReminderWindows None) 0 (batch (loadReminderWindows None) 0 1000 (ec_world (demoVip (2 * DAY_MS) []))) = set (rm_claims st)"
proof -
  obtain st where run: "runRoleExpiryReminderTick demoReminderEnv None 0 1000 (ec_world (demoVip (2 * DAY_MS) [])) demoReminders = (Some 1, st)"
      and "map cl_window (rm_claims st) = [3, 3]"
    using demo_reminder by (auto split: prod.splits)
  moreover have "reminder_run demoReminders" unfolding demoReminders_def by (rule reminder_run.start)
  from reminders_once [OF this run] have "remindersOk st"
    "owed (loadReminderWindows None) 0 (batch (loadReminderWindows None) 0 1000 (ec_world (demoVip (2 * DAY_MS) []))) = set (rm_claims st)"
    by (auto simp: demoReminders_def)
  ultimately show ?thesis by (intro exI [of _ st] conjI)
qed

end
