(* ===== verification/Network_Hosts.thy ===== *)
theory Network_Hosts
  imports Strings "HOL-Library.Word"
begin

text \<open>
  The guards on the addresses the panel may connect to: \<^verbatim>\<open>packages/shared-types/src/network-host.ts\<close> for hosts an
  operator types in, and the address half of \<^verbatim>\<open>packages/shared-config/src/outbound-url.ts\<close> for URLs a service
  fetches on its own.  Octets, groups and 128-bit addresses are naturals; shifts and masks are the bit
  operations of the code.  Both modules expand an IPv6 literal in the same way, apart from the hexadecimal
  digits and the dotted quads they accept, so the expansion takes these two as arguments.
\<close>

unbundle bit_operations_syntax

section \<open>Literals\<close>

fun all_some :: "'a option list \<Rightarrow> 'a list option" where
  "all_some [] = Some []"
| "all_some (None # xs) = None"
| "all_some (Some x # xs) = map_option ((#) x) (all_some xs)"

text \<open>\<^verbatim>\<open>/^(0|[1-9][0-9]{0,2})$/\<close> and the bound of an octet.\<close>

definition parseOctet :: "string \<Rightarrow> nat option" where
  "parseOctet part =
     (if part \<noteq> [] \<and> list_all is_digit part \<and> length part \<le> 3 \<and> (hd part = CHR ''0'' \<longrightarrow> length part = 1)
      then if nat_of_digits part > 255 then None else Some (nat_of_digits part)
      else None)"

definition parseCanonicalIpv4 :: "string \<Rightarrow> nat list option" where
  "parseCanonicalIpv4 host =
     (let parts = split_on CHR ''.'' host
      in if length parts \<noteq> 4 then None else all_some (map parseOctet parts))"

text \<open>\<^verbatim>\<open>text.split('::')\<close>.\<close>

fun splitPair :: "'a \<Rightarrow> 'a list \<Rightarrow> 'a list list" where
  "splitPair c [] = [[]]"
| "splitPair c [x] = [[x]]"
| "splitPair c (x # y # xs) =
     (if x = c \<and> y = c then [] # splitPair c xs
      else case splitPair c (y # xs) of [] \<Rightarrow> [[x]] | h # t \<Rightarrow> (x # h) # t)"

definition hexDigitVal :: "char \<Rightarrow> nat" where
  "hexDigitVal c = (if is_digit c then of_char c - 48 else of_char (lower_char c) - 87)"

definition hexValue :: "string \<Rightarrow> nat" where
  "hexValue s = foldl (\<lambda>a c. a * 16 + hexDigitVal c) 0 s"

definition lowerHexChar :: "char \<Rightarrow> bool" where
  "lowerHexChar c \<longleftrightarrow> is_digit c \<or> 97 \<le> (of_char c :: nat) \<and> (of_char c :: nat) \<le> 102"

definition parseGroup :: "(char \<Rightarrow> bool) \<Rightarrow> string \<Rightarrow> nat option" where
  "parseGroup hex g = (if g \<noteq> [] \<and> length g \<le> 4 \<and> list_all hex g then Some (hexValue g) else None)"

definition toGroups :: "(char \<Rightarrow> bool) \<Rightarrow> string \<Rightarrow> nat list option" where
  "toGroups hex part = (if part = [] then Some [] else all_some (map (parseGroup hex) (split_on CHR '':'' part)))"

text \<open>The text up to and with the last colon, and what follows it.\<close>

definition uptoColon :: "string \<Rightarrow> string" where
  "uptoColon s = rev (dropWhile (\<lambda>c. c \<noteq> CHR '':'') (rev s))"

definition afterColon :: "string \<Rightarrow> string" where
  "afterColon s = rev (takeWhile (\<lambda>c. c \<noteq> CHR '':'') (rev s))"

definition joinHalves :: "(char \<Rightarrow> bool) \<Rightarrow> string \<Rightarrow> nat list \<Rightarrow> nat list option" where
  "joinHalves hex text tail =
     (case splitPair CHR '':'' text of
        [whole] \<Rightarrow>
          (case toGroups hex whole of
             None \<Rightarrow> None
           | Some groups \<Rightarrow> if length (groups @ tail) = 8 then Some (groups @ tail) else None)
      | [left, right] \<Rightarrow>
          (case (toGroups hex left, toGroups hex right) of
             (Some head, Some rest) \<Rightarrow>
               (let known = length head + length rest + length tail
                in if known > 7 then None else Some (head @ replicate (8 - known) 0 @ rest @ tail))
           | _ \<Rightarrow> None)
      | _ \<Rightarrow> None)"

definition expandIpv6 :: "(char \<Rightarrow> bool) \<Rightarrow> (string \<Rightarrow> nat list option) \<Rightarrow> string \<Rightarrow> nat list option" where
  "expandIpv6 hex quad host =
     (let lastPart = afterColon host
      in if CHR ''.'' \<in> set lastPart
         then case quad lastPart of
             None \<Rightarrow> None
           | Some tail \<Rightarrow>
               (let text = uptoColon host
                in joinHalves hex (if suffix ''::'' text then text else butlast text) tail)
         else joinHalves hex host [])"

definition parseIpv6 :: "string \<Rightarrow> nat list option" where
  "parseIpv6 = expandIpv6 lowerHexChar (\<lambda>part.
     case parseCanonicalIpv4 part of
       Some [a, b, c, d] \<Rightarrow> Some [push_bit 8 a OR b, push_bit 8 c OR d]
     | _ \<Rightarrow> None)"

section \<open>Restricted hosts\<close>

definition isRestrictedIpv4 :: "nat list \<Rightarrow> bool" where
  "isRestrictedIpv4 octets =
     (let a = octets ! 0; b = octets ! 1
      in a = 0 \<or> a = 127 \<or> a = 169 \<and> b = 254 \<or> a \<ge> 224)"

definition isRestrictedIpv6 :: "nat list \<Rightarrow> bool" where
  "isRestrictedIpv6 g =
     (let embeddedV4 = [drop_bit 8 (g ! 6), g ! 6 AND 0xff, drop_bit 8 (g ! 7), g ! 7 AND 0xff];
          upperZero = (g ! 0 = 0 \<and> g ! 1 = 0 \<and> g ! 2 = 0 \<and> g ! 3 = 0 \<and> g ! 4 = 0)
      in if upperZero \<and> g ! 5 = 0 \<and> g ! 6 = 0 \<and> g ! 7 \<le> 1 then True
         else if upperZero \<and> (g ! 5 = 0xffff \<or> g ! 5 = 0) then isRestrictedIpv4 embeddedV4
         else if g ! 0 = 0x64 \<and> g ! 1 = 0xff9b \<and> g ! 2 = 0 \<and> g ! 3 = 0 \<and> g ! 4 = 0 \<and> g ! 5 = 0
         then isRestrictedIpv4 embeddedV4
         else if g ! 0 AND 0xffc0 = 0xfe80 then True
         else g ! 0 AND 0xff00 = 0xff00)"

definition RESTRICTED_NAMES :: "string list" where
  "RESTRICTED_NAMES = [''localhost'', ''metadata'', ''metadata.google.internal'']"

definition RESTRICTED_SUFFIXES :: "string list" where
  "RESTRICTED_SUFFIXES = [''.localhost'', ''.docker.internal'', ''.containers.internal'']"

definition unbracket :: "string \<Rightarrow> string" where
  "unbracket s = (if prefix ''['' s \<and> suffix '']'' s then butlast (tl s) else s)"

text \<open>\<^verbatim>\<open>/^(0x[0-9a-f]*|[0-9]+)$/\<close>.\<close>

definition numericLabel :: "string \<Rightarrow> bool" where
  "numericLabel l \<longleftrightarrow> prefix ''0x'' l \<and> list_all lowerHexChar (drop 2 l) \<or> l \<noteq> [] \<and> list_all is_digit l"

definition isRestrictedNetworkHost :: "string \<Rightarrow> bool" where
  "isRestrictedNetworkHost host =
     (let stripped = unbracket (toLowerCase (trim host));
          normalized = (if suffix ''.'' stripped then butlast stripped else stripped);
          labels = split_on CHR ''.'' normalized
      in if normalized = [] then True
         else if CHR '':'' \<in> set normalized
         then (case parseIpv6 normalized of None \<Rightarrow> True | Some groups \<Rightarrow> isRestrictedIpv6 groups)
         else if list_all numericLabel labels
         then (case parseCanonicalIpv4 normalized of None \<Rightarrow> True | Some octets \<Rightarrow> isRestrictedIpv4 octets)
         else if normalized \<in> set RESTRICTED_NAMES \<or> list_ex (\<lambda>s. suffix s normalized) RESTRICTED_SUFFIXES then True
         else length labels < 2)"

section \<open>Private networks\<close>

record host_cidr =
  hc_address :: nat
  hc_prefix :: nat

definition IPV4_MAPPED_PREFIX :: nat where
  "IPV4_MAPPED_PREFIX = push_bit 32 0xffff"

definition shiftIn :: "nat \<Rightarrow> nat list \<Rightarrow> nat" where
  "shiftIn w xs = foldl (\<lambda>acc x. push_bit w acc OR x) 0 xs"

definition literalToBigInt :: "string \<Rightarrow> nat option" where
  "literalToBigInt host =
     (let text = unbracket (toLowerCase (trim host))
      in if CHR '':'' \<in> set text then map_option (shiftIn 16) (parseIpv6 text)
         else map_option (\<lambda>octets. IPV4_MAPPED_PREFIX OR shiftIn 8 octets) (parseCanonicalIpv4 text))"

definition isInCidr :: "nat \<Rightarrow> host_cidr \<Rightarrow> bool" where
  "isInCidr address cidr = (let shift = 128 - hc_prefix cidr in drop_bit shift address = drop_bit shift (hc_address cidr))"

text \<open>\<open>None\<close> is the error on a malformed entry.\<close>

definition parseCidr :: "string \<Rightarrow> host_cidr option" where
  "parseCidr entry =
     (case split_on CHR ''/'' (trim entry) of
        literal # extra \<Rightarrow>
          (let isV6 = CHR '':'' \<in> set literal; maxLength = (if isV6 then 128 else 32)
           in case (literalToBigInt literal, extra) of
                (Some address, []) \<Rightarrow> Some \<lparr>hc_address = address, hc_prefix = 128\<rparr>
              | (Some address, [len]) \<Rightarrow>
                  if len = [] \<or> length len > 3 \<or> \<not> list_all is_digit len \<or> nat_of_digits len > maxLength then None
                  else Some \<lparr>hc_address = address, hc_prefix = (if isV6 then nat_of_digits len else nat_of_digits len + 96)\<rparr>
              | _ \<Rightarrow> None)
      | [] \<Rightarrow> None)"

definition PRIVATE_NETWORKS :: "host_cidr list" where
  "PRIVATE_NETWORKS = List.map_filter parseCidr
     [''10.0.0.0/8'', ''172.16.0.0/12'', ''192.168.0.0/16'', ''100.64.0.0/10'', ''fc00::/7'']"

definition isPrivateNetworkAddress :: "string \<Rightarrow> bool" where
  "isPrivateNetworkAddress host =
     (case literalToBigInt host of None \<Rightarrow> False | Some address \<Rightarrow> list_ex (isInCidr address) PRIVATE_NETWORKS)"

text \<open>The outer \<open>None\<close> is the error, the inner one the unrestricted setting.\<close>

definition parsePrivateHostAllowlist :: "string option \<Rightarrow> host_cidr list option option" where
  "parsePrivateHostAllowlist raw =
     (let text = (case raw of None \<Rightarrow> [] | Some r \<Rightarrow> trim r)
      in if text = [] then Some None
         else if toLowerCase text = ''none'' then Some (Some [])
         else map_option Some (all_some (map parseCidr (split_on CHR '','' text))))"

definition isPrivateHostAllowed :: "string \<Rightarrow> host_cidr list option \<Rightarrow> bool" where
  "isPrivateHostAllowed host allowlist =
     (case allowlist of
        None \<Rightarrow> True
      | Some cidrs \<Rightarrow>
          if \<not> isPrivateNetworkAddress host then True
          else (case literalToBigInt host of None \<Rightarrow> False | Some address \<Rightarrow> list_ex (isInCidr address) cidrs))"

section \<open>Dotted quads\<close>

lemma all_some_iff: "all_some xs = Some ys \<longleftrightarrow> xs = map Some ys"
  by (induction xs arbitrary: ys rule: all_some.induct) auto

lemma show_nat_length: "n < 10 \<Longrightarrow> length (show_nat n) = 1" "10 \<le> n \<Longrightarrow> n < 100 \<Longrightarrow> length (show_nat n) = 2"
  "100 \<le> n \<Longrightarrow> n < 1000 \<Longrightarrow> length (show_nat n) = 3"
proof -
  show one: "n < 10 \<Longrightarrow> length (show_nat n) = 1" for n by (simp add: show_nat.simps [of n])
  show two: "10 \<le> n \<Longrightarrow> n < 100 \<Longrightarrow> length (show_nat n) = 2" for n
    using one [of "n div 10"] by (simp add: show_nat.simps [of n] div_less_iff_less_mult)
  show "100 \<le> n \<Longrightarrow> n < 1000 \<Longrightarrow> length (show_nat n) = 3"
    using two [of "n div 10"] by (simp add: show_nat.simps [of n] div_less_iff_less_mult)
qed

lemma digit_zero: "digit_char 0 = CHR ''0''"
  by code_simp

lemma show_nat_head: "hd (show_nat n) = CHR ''0'' \<longleftrightarrow> n = 0"
proof (induction n rule: show_nat.induct)
  case (1 n)
  show ?case
  proof (cases "n < 10")
    case True
    then have "hd (show_nat n) = digit_char n" by (simp add: show_nat.simps [of n])
    moreover have "digit_char n = CHR ''0'' \<longleftrightarrow> n = 0"
      using digit_char(1) [OF True] digit_char(1) [of 0] digit_zero by (metis zero_less_numeral)
    ultimately show ?thesis by simp
  next
    case False
    then show ?thesis using 1 by (simp add: show_nat.simps [of n])
  qed
qed

text \<open>A decimal text without superfluous zeros is the text of its value.\<close>

lemma show_nat_of_digits:
  "s \<noteq> [] \<Longrightarrow> list_all is_digit s \<Longrightarrow> (hd s = CHR ''0'' \<longrightarrow> length s = 1) \<Longrightarrow> show_nat (nat_of_digits s) = s"
proof (induction s rule: rev_induct)
  case (snoc c s)
  show ?case
  proof (cases "s = []")
    case True
    then show ?thesis using snoc.prems is_digit_digit_val [of c] nat_of_digits_snoc [of "[]" c]
      by (simp add: show_nat.simps del: nat_of_digits_snoc)
  next
    case False
    then have h: "hd s \<noteq> CHR ''0''" using snoc.prems(3) by auto
    have ih: "show_nat (nat_of_digits s) = s" using snoc False h by simp
    then have "nat_of_digits s \<noteq> 0" using h show_nat_head by metis
    moreover have "digit_val c < 10" "digit_char (digit_val c) = c" using snoc.prems(2) is_digit_digit_val by simp_all
    ultimately show ?thesis using ih by (subst show_nat.simps) simp
  qed
qed simp

lemma parseOctet_iff: "parseOctet s = Some n \<longleftrightarrow> n \<le> 255 \<and> s = show_nat n"
proof
  assume "parseOctet s = Some n"
  then show "n \<le> 255 \<and> s = show_nat n"
    using show_nat_of_digits [of s] by (auto simp: parseOctet_def split: if_splits)
next
  assume a: "n \<le> 255 \<and> s = show_nat n"
  then have "length s \<le> 3" using show_nat_length [of n] by (cases "n < 10"; cases "n < 100") auto
  moreover have "hd s = CHR ''0'' \<longrightarrow> length s = 1" using a show_nat_head [of n] show_nat_length(1) [of 0] by auto
  ultimately show "parseOctet s = Some n" using a show_nat_digits [of n] by (auto simp: parseOctet_def list_all_iff)
qed

definition dotted :: "nat list \<Rightarrow> string" where
  "dotted octets = join_with ''.'' (map show_nat octets)"

lemma digits_no_dot: "CHR ''.'' \<notin> set (show_nat n)" "CHR '':'' \<notin> set (show_nat n)" "CHR '']'' \<notin> set (show_nat n)"
  using show_nat_digits [of n] by (auto simp: is_digit_def)

lemma parseCanonicalIpv4_iff:
  "parseCanonicalIpv4 host = Some octets \<longleftrightarrow> length octets = 4 \<and> (\<forall>n \<in> set octets. n \<le> 255) \<and> host = dotted octets"
proof
  assume "parseCanonicalIpv4 host = Some octets"
  then have l: "length (split_on CHR ''.'' host) = 4" and p: "map parseOctet (split_on CHR ''.'' host) = map Some octets"
    by (auto simp: parseCanonicalIpv4_def all_some_iff Let_def split: if_splits)
  have "split_on CHR ''.'' host = map show_nat octets" "\<forall>n \<in> set octets. n \<le> 255"
  proof -
    have "parseOctet (split_on CHR ''.'' host ! i) = Some (octets ! i)" if "i < length octets" for i
      using that p by (metis length_map nth_map)
    then show "split_on CHR ''.'' host = map show_nat octets" "\<forall>n \<in> set octets. n \<le> 255"
      using map_eq_imp_length_eq [OF p] by (auto simp: parseOctet_iff in_set_conv_nth intro!: nth_equalityI)
  qed
  then show "length octets = 4 \<and> (\<forall>n \<in> set octets. n \<le> 255) \<and> host = dotted octets"
    using l join_split [of "CHR ''.''" host] by (simp add: dotted_def)
next
  assume a: "length octets = 4 \<and> (\<forall>n \<in> set octets. n \<le> 255) \<and> host = dotted octets"
  then have "split_on CHR ''.'' (join_with ''.'' (map show_nat octets)) = map show_nat octets"
    by (intro split_join) (auto simp: digits_no_dot)
  then have parts: "split_on CHR ''.'' host = map show_nat octets" using a by (simp add: dotted_def)
  have "map parseOctet (map show_nat octets) = map Some octets" using a by (simp add: parseOctet_iff)
  with parts a show "parseCanonicalIpv4 host = Some octets" by (simp add: parseCanonicalIpv4_def all_some_iff Let_def)
qed

section \<open>Numbers in groups\<close>

lemma push_or: "x < 2 ^ w \<Longrightarrow> push_bit w a OR x = a * 2 ^ w + (x :: nat)"
proof -
  assume x: "x < 2 ^ w"
  have "\<not> bit x n" if "w \<le> n" for n
    using x that take_bit_nat_eq_self [OF x] by (metis bit_take_bit_iff not_less)
  then have "push_bit w a AND x = 0" by (intro bit_eqI) (auto simp: bit_and_iff bit_push_bit_iff)
  then show ?thesis by (simp add: disjunctive_add_eq_or [symmetric] push_bit_eq_mult)
qed

lemma shiftIn_snoc: "x < 2 ^ w \<Longrightarrow> shiftIn w (xs @ [x]) = shiftIn w xs * 2 ^ w + x"
  by (simp add: shiftIn_def push_or)

lemma shiftIn_Nil [simp]: "shiftIn w [] = 0"
  by (simp add: shiftIn_def)

lemma shiftIn_bound: "\<forall>x \<in> set xs. x < 2 ^ w \<Longrightarrow> shiftIn w xs < 2 ^ (w * length xs)"
proof (induction xs rule: rev_induct)
  case (snoc x xs)
  then have "shiftIn w xs + 1 \<le> 2 ^ (w * length xs)" "x < 2 ^ w" by auto
  then have "shiftIn w xs * 2 ^ w + x < (shiftIn w xs + 1) * 2 ^ w" "(shiftIn w xs + 1) * 2 ^ w \<le> 2 ^ (w * length xs) * 2 ^ w"
    by (simp_all only: mult_le_mono1) simp
  then show ?case using snoc.prems by (simp add: shiftIn_snoc power_add mult.commute)
qed simp

text \<open>The expansion in a base is unique.\<close>

lemma shiftIn_inject:
  "length xs = length ys \<Longrightarrow> \<forall>x \<in> set xs. x < 2 ^ w \<Longrightarrow> \<forall>y \<in> set ys. y < 2 ^ w \<Longrightarrow> shiftIn w xs = shiftIn w ys \<Longrightarrow> xs = ys"
proof (induction xs arbitrary: ys rule: rev_induct)
  case (snoc x xs)
  obtain zs z where ys: "ys = zs @ [z]" using snoc.prems(1) by (cases ys rule: rev_cases) auto
  have b: "x < 2 ^ w" "z < 2 ^ w" using snoc.prems(2,3) ys by auto
  have eq: "shiftIn w xs * 2 ^ w + x = shiftIn w zs * 2 ^ w + z"
    using snoc.prems(4) b by (simp add: ys shiftIn_snoc)
  have "(shiftIn w xs * 2 ^ w + x) mod 2 ^ w = x" "(shiftIn w zs * 2 ^ w + z) mod 2 ^ w = z" using b by simp_all
  with eq have "x = z" by simp
  with eq have "shiftIn w xs = shiftIn w zs" by simp
  then show ?case using snoc.IH [of zs] snoc.prems ys \<open>x = z\<close> by simp
qed simp

lemma mask_high: "g < 2 ^ n \<Longrightarrow> k \<le> n \<Longrightarrow> g AND push_bit k (mask (n - k)) = (g div 2 ^ k) * (2 ^ k :: nat)"
proof -
  assume g: "g < 2 ^ n" and k: "k \<le> n"
  have high: "\<not> bit g i" if "n \<le> i" for i
    using g that take_bit_nat_eq_self [OF g] by (metis bit_take_bit_iff not_less)
  have "g AND push_bit k (mask (n - k)) = push_bit k (drop_bit k g)"
    using high k by (intro bit_eqI) (auto simp: bit_and_iff bit_push_bit_iff bit_mask_iff bit_drop_bit_eq, metis le_add_diff_inverse2 less_diff_conv not_less)
  then show ?thesis by (simp add: push_bit_eq_mult drop_bit_eq_div)
qed

lemma mask_linkLocal: "g < 65536 \<Longrightarrow> g AND 0xffc0 = (0xfe80 :: nat) \<longleftrightarrow> g div 64 = 0x3fa"
  using mask_high [of g 16 6] by (simp add: push_bit_eq_mult mask_eq_exp_minus_1)

lemma mask_multicast: "g < 65536 \<Longrightarrow> g AND 0xff00 = (0xff00 :: nat) \<longleftrightarrow> g div 256 = 0xff"
  using mask_high [of g 16 8] by (simp add: push_bit_eq_mult mask_eq_exp_minus_1)

lemma low_octet: "g AND 0xff = g mod (256 :: nat)"
  using take_bit_eq_mask [of 8 g] by (simp add: take_bit_eq_mod mask_eq_exp_minus_1)

section \<open>Groups of a literal\<close>

lemma length_4: "length xs = 4 \<Longrightarrow> (\<And>a b c d. xs = [a, b, c, d] \<Longrightarrow> P) \<Longrightarrow> P"
  by (auto simp: numeral_eq_Suc length_Suc_conv)

lemma length_8: "length xs = 8 \<Longrightarrow> (\<And>a b c d e f g h. xs = [a, b, c, d, e, f, g, h] \<Longrightarrow> P) \<Longrightarrow> P"
  by (auto simp: numeral_eq_Suc length_Suc_conv)

lemma hexDigitVal_bound: "is_hex c \<Longrightarrow> hexDigitVal c < 16"
  by (auto simp: is_hex_def hexDigitVal_def is_digit_def)

lemma lowerHex_isHex: "lowerHexChar c \<Longrightarrow> is_hex c"
  by (auto simp: lowerHexChar_def is_hex_def lower_char_def)

lemma hexValue_snoc [simp]: "hexValue (s @ [c]) = hexValue s * 16 + hexDigitVal c"
  by (simp add: hexValue_def)

lemma hexValue_bound: "list_all is_hex s \<Longrightarrow> hexValue s < 16 ^ length s"
proof (induction s rule: rev_induct)
  case (snoc c s)
  then have "hexValue s + 1 \<le> 16 ^ length s" "hexDigitVal c < 16" using hexDigitVal_bound by auto
  then have "hexValue s * 16 + hexDigitVal c < 16 ^ length s * 16" by linarith
  then show ?case by simp
qed (simp add: hexValue_def)

lemma parseGroup_bound:
  assumes "parseGroup hex g = Some n" and "\<And>c. hex c \<Longrightarrow> is_hex c"
  shows "n < 65536"
proof -
  have g: "length g \<le> 4" "list_all is_hex g" "n = hexValue g"
    using assms by (auto simp: parseGroup_def list_all_iff split: if_splits)
  have "n < 16 ^ length g" using hexValue_bound [OF g(2)] g(3) by simp
  also have "\<dots> \<le> (16 :: nat) ^ 4" using g(1) by (intro power_increasing) simp_all
  finally show ?thesis by simp
qed

lemma toGroups_bound:
  assumes "toGroups hex part = Some gs" and "\<And>c. hex c \<Longrightarrow> is_hex c"
  shows "\<forall>g \<in> set gs. g < 65536"
proof
  fix g assume g: "g \<in> set gs"
  then have "map (parseGroup hex) (split_on CHR '':'' part) = map Some gs"
    using assms(1) by (auto simp: toGroups_def all_some_iff split: if_splits)
  then obtain p where "parseGroup hex p = Some g" using g by (metis (no_types, lifting) image_iff list.set_map)
  then show "g < 65536" using assms(2) parseGroup_bound by blast
qed

definition wellGrouped :: "nat list \<Rightarrow> bool" where
  "wellGrouped gs \<longleftrightarrow> length gs = 8 \<and> (\<forall>g \<in> set gs. g < 65536)"

lemma joinHalves_groups:
  assumes "joinHalves hex text tail = Some gs" and "\<And>c. hex c \<Longrightarrow> is_hex c" and "\<forall>g \<in> set tail. g < 65536"
  shows "wellGrouped gs"
  using assms(1) toGroups_bound [OF _ assms(2)] assms(3)
  by (auto simp: joinHalves_def wellGrouped_def Let_def split: list.splits option.splits if_splits)

lemma expandIpv6_groups:
  assumes "expandIpv6 hex quad host = Some gs" and "\<And>c. hex c \<Longrightarrow> is_hex c"
    and "\<And>s t. quad s = Some t \<Longrightarrow> \<forall>g \<in> set t. g < 65536"
  shows "wellGrouped gs"
  using assms by (auto simp: expandIpv6_def Let_def split: option.splits if_splits intro: joinHalves_groups)

lemma quad_pair: "a \<le> 255 \<Longrightarrow> b \<le> 255 \<Longrightarrow> push_bit 8 a OR b = a * 256 + (b :: nat)"
  using push_or [of b 8 a] by simp

lemma parseIpv6_groups:
  assumes "parseIpv6 host = Some gs"
  shows "wellGrouped gs"
proof (rule expandIpv6_groups [OF assms [unfolded parseIpv6_def] lowerHex_isHex])
  fix s t
  assume "(case parseCanonicalIpv4 s of Some [a, b, c, d] \<Rightarrow> Some [push_bit 8 a OR b, push_bit 8 c OR d] | _ \<Rightarrow> None) = Some t"
  then obtain a b c d where "parseCanonicalIpv4 s = Some [a, b, c, d]" "t = [push_bit 8 a OR b, push_bit 8 c OR d]"
    by (auto split: option.splits list.splits)
  then show "\<forall>g \<in> set t. g < 65536" by (auto simp: parseCanonicalIpv4_iff quad_pair)
qed

section \<open>The refused addresses as ranges\<close>

text \<open>An address of 128 bits; an IPv4 address is mapped into \<^verbatim>\<open>::ffff:0:0/96\<close>.\<close>

definition restrictedV4 :: "nat \<Rightarrow> bool" where
  "restrictedV4 v \<longleftrightarrow> v div 2 ^ 24 = 0 \<or> v div 2 ^ 24 = 127 \<or> v div 2 ^ 16 = 169 * 256 + 254 \<or> 224 * 2 ^ 24 \<le> v"

definition restrictedAddress :: "nat \<Rightarrow> bool" where
  "restrictedAddress a \<longleftrightarrow> a div 2 ^ 32 \<in> {0, 0xffff, 0x64ff9b * 2 ^ 64} \<and> restrictedV4 (a mod 2 ^ 32)
     \<or> a div 2 ^ 118 = 0x3fa \<or> a div 2 ^ 120 = 0xff"

lemma isRestrictedIpv4_value:
  assumes "a < 256" "b < 256" "c < 256" "d < (256 :: nat)"
  shows "isRestrictedIpv4 [a, b, c, d] \<longleftrightarrow> restrictedV4 (a * 2 ^ 24 + b * 2 ^ 16 + c * 2 ^ 8 + d)"
proof -
  have v: "(a * 2 ^ 24 + b * 2 ^ 16 + c * 2 ^ 8 + d) div 2 ^ 16 = a * 256 + b"
    "(a * 2 ^ 24 + b * 2 ^ 16 + c * 2 ^ 8 + d) div 2 ^ 24 = a" using assms by simp_all
  have "a * 256 + b = 169 * 256 + 254 \<longleftrightarrow> a = 169 \<and> b = 254" using assms by (cases "a < 169"; cases "169 < a") auto
  moreover have "224 * 2 ^ 24 \<le> a * 2 ^ 24 + b * 2 ^ 16 + c * 2 ^ 8 + d \<longleftrightarrow> 224 \<le> a"
    using assms by (cases "224 \<le> a") auto
  ultimately show ?thesis unfolding restrictedV4_def v by (auto simp: isRestrictedIpv4_def)
qed

lemma embedded_value:
  assumes "g6 < 65536" "g7 < (65536 :: nat)"
  shows "isRestrictedIpv4 [drop_bit 8 g6, g6 AND 0xff, drop_bit 8 g7, g7 AND 0xff] \<longleftrightarrow> restrictedV4 (g6 * 65536 + g7)"
proof -
  have "g6 div 256 * 16777216 + g6 mod 256 * 65536 + g7 div 256 * 256 + g7 mod 256 = g6 * 65536 + g7"
    using div_mult_mod_eq [of g6 256] div_mult_mod_eq [of g7 256] by linarith
  moreover have "g6 div 256 < 256" "g7 div 256 < 256" using assms by simp_all
  ultimately show ?thesis
    using isRestrictedIpv4_value [of "g6 div 256" "g6 mod 256" "g7 div 256" "g7 mod 256"]
    by (simp add: low_octet drop_bit_eq_div add.commute)
qed

lemma shiftIn_append:
  "\<forall>y \<in> set ys. y < 2 ^ w \<Longrightarrow> shiftIn w (xs @ ys) = shiftIn w xs * 2 ^ (w * length ys) + shiftIn w ys"
proof (induction ys rule: rev_induct)
  case (snoc y ys)
  then have "shiftIn w ((xs @ ys) @ [y]) = (shiftIn w xs * 2 ^ (w * length ys) + shiftIn w ys) * 2 ^ w + y"
    by (subst shiftIn_snoc) simp_all
  then show ?case using snoc.prems by (simp add: shiftIn_snoc power_add algebra_simps)
qed simp

lemma shiftIn_split:
  assumes "\<forall>y \<in> set ys. y < 2 ^ w"
  shows "shiftIn w (xs @ ys) div 2 ^ (w * length ys) = shiftIn w xs" "shiftIn w (xs @ ys) mod 2 ^ (w * length ys) = shiftIn w ys"
  using shiftIn_bound [OF assms] by (simp_all add: shiftIn_append [OF assms])

lemma shiftIn_one: "shiftIn w [x] = x" "x < 2 ^ w \<Longrightarrow> y < 2 ^ w \<Longrightarrow> shiftIn w [x, y] = x * 2 ^ w + y"
  using shiftIn_snoc [of y w "[x]"] by (simp_all add: shiftIn_def)

lemma isRestrictedIpv6_address:
  assumes "wellGrouped gs"
  shows "isRestrictedIpv6 gs \<longleftrightarrow> restrictedAddress (shiftIn 16 gs)"
proof -
  obtain g0 g1 g2 g3 g4 g5 g6 g7 where gs: "gs = [g0, g1, g2, g3, g4, g5, g6, g7]"
    by (rule length_8 [OF conjunct1 [OF assms [unfolded wellGrouped_def]]])
  have b: "\<forall>g \<in> {g0, g1, g2, g3, g4, g5, g6, g7}. g < 65536" using assms by (simp add: gs wellGrouped_def)
  let ?hi = "[g0, g1, g2, g3, g4, g5]"
  have lo: "shiftIn 16 gs div 2 ^ 32 = shiftIn 16 ?hi" "shiftIn 16 gs mod 2 ^ 32 = g6 * 65536 + g7"
    using b shiftIn_split [of "[g6, g7]" 16 ?hi] shiftIn_one(2) [of g6 16 g7] by (simp_all add: gs)
  have top: "shiftIn 16 gs div 2 ^ 112 = g0"
    using b shiftIn_split(1) [of "[g1, g2, g3, g4, g5, g6, g7]" 16 "[g0]"] by (simp add: gs shiftIn_one)
  have "shiftIn 16 gs div 2 ^ 118 = shiftIn 16 gs div 2 ^ 112 div 2 ^ 6" "shiftIn 16 gs div 2 ^ 120 = shiftIn 16 gs div 2 ^ 112 div 2 ^ 8"
    by (simp_all only: div_mult2_eq [symmetric] power_add [symmetric]) simp_all
  then have tops: "shiftIn 16 gs div 2 ^ 118 = g0 div 64" "shiftIn 16 gs div 2 ^ 120 = g0 div 256" unfolding top by simp_all
  have hi: "shiftIn 16 ?hi = shiftIn 16 [h0, h1, h2, h3, h4, h5] \<longleftrightarrow> ?hi = [h0, h1, h2, h3, h4, h5]"
    if "\<forall>h \<in> {h0, h1, h2, h3, h4, h5}. h < 65536" for h0 h1 h2 h3 h4 h5
    using shiftIn_inject [of ?hi "[h0, h1, h2, h3, h4, h5]" 16] that b by auto
  have nums: "shiftIn 16 [0, 0, 0, 0, 0, 0] = 0" "shiftIn 16 [0, 0, 0, 0, 0, 0xffff] = 0xffff"
      "shiftIn 16 [0x64, 0xff9b, 0, 0, 0, 0] = 0x64ff9b * 2 ^ 64"
    by (simp_all add: shiftIn_def push_bit_eq_mult)
  define Z where "Z \<longleftrightarrow> g0 = 0 \<and> g1 = 0 \<and> g2 = 0 \<and> g3 = 0 \<and> g4 = 0"
  define N where "N \<longleftrightarrow> g0 = 0x64 \<and> g1 = 0xff9b \<and> g2 = 0 \<and> g3 = 0 \<and> g4 = 0 \<and> g5 = 0"
  define R where "R \<longleftrightarrow> restrictedV4 (g6 * 65536 + g7)"
  define L where "L \<longleftrightarrow> g0 div 64 = 0x3fa \<or> g0 div 256 = 0xff"
  have "shiftIn 16 ?hi = 0 \<longleftrightarrow> Z \<and> g5 = 0" using hi [of 0 0 0 0 0 0] unfolding nums(1) Z_def by simp
  moreover have "shiftIn 16 ?hi = 0xffff \<longleftrightarrow> Z \<and> g5 = 0xffff" using hi [of 0 0 0 0 0 "0xffff"] unfolding nums(2) Z_def by simp
  moreover have "shiftIn 16 ?hi = 0x64ff9b * 2 ^ 64 \<longleftrightarrow> N" using hi [of "0x64" "0xff9b" 0 0 0 0] unfolding nums(3) N_def by simp
  ultimately have hi3: "shiftIn 16 ?hi \<in> {0, 0xffff, 0x64ff9b * 2 ^ 64} \<longleftrightarrow> Z \<and> (g5 = 0xffff \<or> g5 = 0) \<or> N"
    unfolding insert_iff empty_iff by argo
  have code: "isRestrictedIpv6 gs \<longleftrightarrow> (if Z \<and> g5 = 0 \<and> g6 = 0 \<and> g7 \<le> 1 then True
      else if Z \<and> (g5 = 0xffff \<or> g5 = 0) then R else if N then R else L)"
    using b embedded_value [of g6 g7] mask_linkLocal [of g0] mask_multicast [of g0]
    by (simp add: gs isRestrictedIpv6_def Let_def Z_def N_def R_def L_def)
  have "R" if "g6 = 0" "g7 \<le> 1" using that unfolding R_def restrictedV4_def by simp
  moreover have "\<not> L" if "Z \<or> N" using that unfolding L_def Z_def N_def by auto
  ultimately show ?thesis unfolding code restrictedAddress_def lo tops hi3 R_def [symmetric] L_def [symmetric] by auto
qed

lemma isRestrictedIpv4_address:
  assumes "parseCanonicalIpv4 host = Some octets"
  shows "isRestrictedIpv4 octets \<longleftrightarrow> restrictedAddress (IPV4_MAPPED_PREFIX OR shiftIn 8 octets)"
proof -
  obtain a b c d where o4: "octets = [a, b, c, d]" and le: "a \<le> 255" "b \<le> 255" "c \<le> 255" "d \<le> 255"
  proof -
    have l: "length octets = 4" and le: "\<forall>n \<in> set octets. n \<le> 255" using assms by (auto simp: parseCanonicalIpv4_iff)
    obtain a b c d where "octets = [a, b, c, d]" by (rule length_4 [OF l])
    with le that show ?thesis by simp
  qed
  define v where "v = a * 2 ^ 24 + b * 2 ^ 16 + c * 2 ^ 8 + d"
  have "shiftIn 8 octets = v"
    using le shiftIn_snoc [of d 8 "[a, b, c]"] shiftIn_snoc [of c 8 "[a, b]"] shiftIn_one(2) [of a 8 b] by (simp add: o4 v_def)
  moreover have v: "v < 2 ^ 32" using le by (simp add: v_def)
  ultimately have "IPV4_MAPPED_PREFIX OR shiftIn 8 octets = 0xffff * 2 ^ 32 + v"
    using push_or [OF v, of "0xffff"] by (simp add: IPV4_MAPPED_PREFIX_def)
  moreover have "(0xffff * 2 ^ 32 + v) div 2 ^ 32 = 0xffff" "(0xffff * 2 ^ 32 + v) mod 2 ^ 32 = v"
      "(0xffff * 2 ^ 32 + v) div 2 ^ 118 = 0" "(0xffff * 2 ^ 32 + v) div 2 ^ 120 = 0"
    using v by (simp_all only: mod_mult_self3 mod_less div_mult_self3) simp_all
  ultimately show ?thesis using isRestrictedIpv4_value [of a b c d] le
    unfolding restrictedAddress_def o4 by (simp add: v_def)
qed

section \<open>Hosts that are literals\<close>

lemma split_on_last: "suffix [c] s \<Longrightarrow> last (split_on c s) = []"
proof -
  assume "suffix [c] s"
  then obtain a where s: "s = a @ [c]" by (auto simp: suffix_def)
  have "split_on c (a @ [c]) = split_on c a @ [[]]"
  proof (induction a)
    case (Cons x a)
    then show ?case by (cases "split_on c a") (auto dest: split_on_not_Nil [THEN notE])
  qed simp
  then show ?thesis using s by simp
qed

lemma dotted_parts: "octets \<noteq> [] \<Longrightarrow> split_on CHR ''.'' (dotted octets) = map show_nat octets"
  unfolding dotted_def by (intro split_join) (auto simp: digits_no_dot)

lemma dotted_no_colon: "CHR '':'' \<notin> set (dotted octets)"
proof -
  have "CHR '':'' \<notin> set (join_with ''.'' (map show_nat octets))"
    by (induction octets rule: induct_list012) (auto simp: digits_no_dot)
  then show ?thesis by (simp add: dotted_def)
qed

lemma dotted_no_final_dot: "octets \<noteq> [] \<Longrightarrow> \<not> suffix ''.'' (dotted octets)"
  using split_on_last [of "CHR ''.''" "dotted octets"] by (auto simp: dotted_parts last_map)

lemma afterColon_suffix: "suffix [c] s \<Longrightarrow> c \<noteq> CHR '':'' \<Longrightarrow> suffix [c] (afterColon s)"
  by (auto simp: suffix_def afterColon_def)

lemma parseIpv6_no_final_dot:
  assumes "parseIpv6 s = Some gs"
  shows "\<not> suffix ''.'' s"
proof
  assume "suffix ''.'' s"
  then have dot: "suffix ''.'' (afterColon s)" by (rule afterColon_suffix) simp
  then have "CHR ''.'' \<in> set (afterColon s)" by (auto simp: suffix_def)
  then obtain octets where "parseCanonicalIpv4 (afterColon s) = Some octets"
    using assms by (auto simp: parseIpv6_def expandIpv6_def Let_def split: option.splits)
  then have "afterColon s = dotted octets" "octets \<noteq> []" by (auto simp: parseCanonicalIpv4_iff)
  then show False using dot dotted_no_final_dot by simp
qed

lemma numericLabel_show: "numericLabel (show_nat n)"
  using show_nat_digits [of n] by (simp add: numericLabel_def list_all_iff)

definition privateAddress :: "nat \<Rightarrow> bool" where
  "privateAddress a \<longleftrightarrow> a div 2 ^ 24 = 0xffff0a \<or> a div 2 ^ 20 = 0xffffac1 \<or> a div 2 ^ 16 = 0xffffc0a8
     \<or> a div 2 ^ 22 = 0xffff * 2 ^ 10 + 401 \<or> a div 2 ^ 121 = 0x7e"

section \<open>Texts of addresses\<close>

definition hexChar :: "nat \<Rightarrow> char" where
  "hexChar d = (if d < 10 then digit_char d else char_of (87 + d))"

fun show_hex :: "nat \<Rightarrow> string" where
  "show_hex n = (if n < 16 then [hexChar n] else show_hex (n div 16) @ [hexChar (n mod 16)])"

declare show_hex.simps [simp del]

lemma hexChar_facts:
  assumes "d < 16"
  shows "hexDigitVal (hexChar d) = d" "lowerHexChar (hexChar d)"
proof -
  have "hexDigitVal (hexChar d) = d \<and> lowerHexChar (hexChar d)"
  proof (cases "d < 10")
    case True
    then show ?thesis using digit_char [OF True] by (simp add: hexChar_def hexDigitVal_def lowerHexChar_def digit_val_def)
  next
    case False
    then have "(of_char (char_of (87 + d) :: char) :: nat) = 87 + d" using assms by simp
    then show ?thesis using assms False by (simp add: hexChar_def hexDigitVal_def lowerHexChar_def lower_char_def is_digit_def)
  qed
  then show "hexDigitVal (hexChar d) = d" "lowerHexChar (hexChar d)" by simp_all
qed

lemma show_hex_facts: "hexValue (show_hex n) = n" "show_hex n \<noteq> []" "list_all lowerHexChar (show_hex n)"
proof -
  have "hexValue (show_hex n) = n \<and> show_hex n \<noteq> [] \<and> list_all lowerHexChar (show_hex n)"
  proof (induction n rule: show_hex.induct)
    case (1 n)
    show ?case
    proof (cases "n < 16")
      case True
      then show ?thesis using hexChar_facts [OF True] by (simp add: show_hex.simps [of n] hexValue_def)
    next
      case False
      then show ?thesis using 1 hexChar_facts [of "n mod 16"] by (simp add: show_hex.simps [of n])
    qed
  qed
  then show "hexValue (show_hex n) = n" "show_hex n \<noteq> []" "list_all lowerHexChar (show_hex n)" by simp_all
qed

lemma show_hex_length: "n < 16 ^ k \<Longrightarrow> 0 < k \<Longrightarrow> length (show_hex n) \<le> k"
proof (induction k arbitrary: n)
  case (Suc k)
  show ?case
  proof (cases "n < 16")
    case True
    then show ?thesis by (simp add: show_hex.simps [of n])
  next
    case False
    then have "0 < k" using Suc.prems(1) by (cases k) auto
    moreover have "n div 16 < 16 ^ k" using Suc.prems(1) by (simp add: div_less_iff_less_mult mult.commute)
    ultimately show ?thesis using Suc.IH [of "n div 16"] False by (simp add: show_hex.simps [of n])
  qed
qed simp

lemma parseGroup_show: "g < 65536 \<Longrightarrow> parseGroup lowerHexChar (show_hex g) = Some g"
  using show_hex_length [of g 4] by (simp add: parseGroup_def show_hex_facts)

definition groupText :: "nat list \<Rightarrow> string" where
  "groupText gs = join_with '':'' (map show_hex gs)"

lemma hex_no_colon: "CHR '':'' \<notin> set (show_hex n)" "CHR ''.'' \<notin> set (show_hex n)"
  using show_hex_facts(3) [of n] by (auto simp: list_all_iff lowerHexChar_def is_digit_def)

lemma toGroups_text: "\<forall>g \<in> set gs. g < 65536 \<Longrightarrow> toGroups lowerHexChar (groupText gs) = Some gs"
proof (cases "gs = []")
  case False
  assume b: "\<forall>g \<in> set gs. g < 65536"
  have "split_on CHR '':'' (groupText gs) = map show_hex gs"
    unfolding groupText_def using False by (intro split_join) (auto simp: hex_no_colon)
  moreover have "groupText gs \<noteq> []" using False show_hex_facts(2) by (cases gs rule: remdups_adj.cases) (auto simp: groupText_def)
  ultimately show ?thesis using b by (simp add: toGroups_def all_some_iff parseGroup_show)
qed (simp add: toGroups_def groupText_def)

fun noPair :: "'a \<Rightarrow> 'a list \<Rightarrow> bool" where
  "noPair c (x # y # xs) \<longleftrightarrow> \<not> (x = c \<and> y = c) \<and> noPair c (y # xs)"
| "noPair c xs \<longleftrightarrow> True"

lemma splitPair_not_Nil: "splitPair c s \<noteq> []"
  by (induction c s rule: splitPair.induct) (auto split: list.split)

lemma splitPair_none: "noPair c s \<Longrightarrow> splitPair c s = [s]"
  by (induction c s rule: splitPair.induct) auto

lemma splitPair_first: "noPair c a \<Longrightarrow> a = [] \<or> last a \<noteq> c \<Longrightarrow> splitPair c (a @ c # c # b) = a # splitPair c b"
proof (induction c a rule: splitPair.induct)
  case (3 c x y xs)
  then show ?case by (auto split: list.split if_splits)
qed auto

lemma noPair_absent: "c \<notin> set s \<Longrightarrow> noPair c s"
  by (induction c s rule: noPair.induct) auto

lemma noPair_glue: "c \<notin> set a \<Longrightarrow> a \<noteq> [] \<Longrightarrow> noPair c b \<Longrightarrow> b \<noteq> [] \<Longrightarrow> hd b \<noteq> c \<Longrightarrow> noPair c (a @ c # b)"
proof (induction a)
  case (Cons x a)
  then show ?case by (cases a; cases b) auto
qed simp

lemma groupText_shape:
  "noPair CHR '':'' (groupText gs) \<and> (gs \<noteq> [] \<longrightarrow> groupText gs \<noteq> [] \<and> hd (groupText gs) \<noteq> CHR '':'' \<and> last (groupText gs) \<noteq> CHR '':'')"
proof (induction gs rule: induct_list012)
  case 1
  then show ?case by (simp add: groupText_def)
next
  case (2 g)
  then show ?case using hex_no_colon(1) [of g] show_hex_facts(2) [of g] hd_in_set last_in_set
    by (fastforce simp: groupText_def noPair_absent)
next
  case (3 g h gs)
  let ?b = "groupText (h # gs)"
  have t: "groupText (g # h # gs) = show_hex g @ CHR '':'' # ?b" by (simp add: groupText_def)
  have "hd (show_hex g) \<noteq> CHR '':''" using hex_no_colon(1) [of g] show_hex_facts(2) [of g] hd_in_set by fastforce
  then show ?case using 3 hex_no_colon(1) [of g] show_hex_facts(2) [of g] noPair_glue [of "CHR '':''" "show_hex g" ?b]
    unfolding t by auto
qed

text \<open>The compressed spelling of an IPv6 address.\<close>

definition compressed :: "nat list \<Rightarrow> nat list \<Rightarrow> string" where
  "compressed head rest = groupText head @ ''::'' @ groupText rest"

definition literalText :: "string \<Rightarrow> bool" where
  "literalText s \<longleftrightarrow> (\<forall>c \<in> set s. lowerHexChar c \<or> c = CHR ''.'' \<or> c = CHR '':'')"

lemma literalChar_facts:
  assumes "lowerHexChar c \<or> c = CHR ''.'' \<or> c = CHR '':''"
  shows "\<not> is_ws c" "lower_char c = c" "c \<noteq> CHR ''/''" "c \<noteq> CHR ''[''"
  using assms by (auto simp: lowerHexChar_def is_digit_def is_ws_def lower_char_def)

lemma normalize_literal:
  assumes "literalText s"
  shows "trim s = s" "unbracket (toLowerCase s) = s"
proof -
  show "trim s = s" using assms literalChar_facts(1) by (intro trim_no_ws) (auto simp: literalText_def)
  have "toLowerCase s = s" using assms literalChar_facts(2) by (auto simp: toLowerCase_def literalText_def intro: map_idI)
  moreover have "\<not> prefix ''['' s" using assms literalChar_facts(4) by (cases s) (auto simp: literalText_def)
  ultimately show "unbracket (toLowerCase s) = s" by (simp add: unbracket_def)
qed

lemma chars_join_with: "set (join_with sep xs) \<subseteq> set sep \<union> (\<Union>x \<in> set xs. set x)"
  by (induction xs rule: induct_list012) auto

lemma literalText_dotted: "literalText (dotted octets)"
  using chars_join_with [of "''.''" "map show_nat octets"] show_nat_digits
  by (fastforce simp: literalText_def dotted_def lowerHexChar_def)

lemma groupText_chars: "c \<in> set (groupText gs) \<Longrightarrow> lowerHexChar c \<or> c = CHR '':''"
  using chars_join_with [of "'':''" "map show_hex gs"] show_hex_facts(3) by (fastforce simp: groupText_def list_all_iff)

lemma literalText_groups: "literalText (groupText gs)" "literalText (compressed head rest)"
  using groupText_chars by (auto simp: literalText_def compressed_def)

lemma groupText_no_dot: "CHR ''.'' \<notin> set (groupText gs)" "CHR ''.'' \<notin> set (compressed head rest)"
  using groupText_chars [of "CHR ''.''"] by (auto simp: compressed_def lowerHexChar_def is_digit_def)

lemma afterColon_subset: "set (afterColon s) \<subseteq> set s"
  by (auto simp: afterColon_def dest: set_takeWhileD)

lemma parseIpv6_compressed:
  assumes "length head + length rest \<le> 7" "\<forall>g \<in> set head \<union> set rest. g < 65536"
  shows "parseIpv6 (compressed head rest) = Some (head @ replicate (8 - length head - length rest) 0 @ rest)"
proof -
  have "splitPair CHR '':'' (compressed head rest) = [groupText head, groupText rest]"
    using splitPair_first [of "CHR '':''" "groupText head" "groupText rest"] groupText_shape [of head] groupText_shape [of rest]
    by (cases "head = []") (auto simp: compressed_def splitPair_none groupText_def)
  moreover have "toGroups lowerHexChar (groupText head) = Some head" "toGroups lowerHexChar (groupText rest) = Some rest"
    using assms(2) by (auto intro: toGroups_text)
  moreover have "CHR ''.'' \<notin> set (afterColon (compressed head rest))"
    using afterColon_subset groupText_no_dot(2) by blast
  ultimately show ?thesis using assms(1) by (simp add: parseIpv6_def expandIpv6_def joinHalves_def Let_def)
qed

lemma parseIpv6_full:
  assumes "length gs = 8" "\<forall>g \<in> set gs. g < 65536"
  shows "parseIpv6 (groupText gs) = Some gs"
proof -
  have "CHR ''.'' \<notin> set (afterColon (groupText gs))" using afterColon_subset groupText_no_dot(1) by blast
  then show ?thesis using assms toGroups_text [of gs] groupText_shape [of gs]
    by (simp add: parseIpv6_def expandIpv6_def joinHalves_def splitPair_none)
qed

lemma literal_dotted:
  assumes "length octets = 4" "\<forall>n \<in> set octets. n \<le> 255"
  shows "literalToBigInt (dotted octets) = Some (IPV4_MAPPED_PREFIX OR shiftIn 8 octets)"
proof -
  have "parseCanonicalIpv4 (dotted octets) = Some octets" using assms by (simp add: parseCanonicalIpv4_iff)
  then show ?thesis by (simp add: literalToBigInt_def Let_def normalize_literal [OF literalText_dotted] dotted_no_colon)
qed

lemma literal_compressed:
  assumes "length head + length rest \<le> 7" "\<forall>g \<in> set head \<union> set rest. g < 65536"
  shows "literalToBigInt (compressed head rest) = Some (shiftIn 16 (head @ replicate (8 - length head - length rest) 0 @ rest))"
proof -
  have "CHR '':'' \<in> set (compressed head rest)" by (simp add: compressed_def)
  then show ?thesis using parseIpv6_compressed [OF assms]
    by (simp add: literalToBigInt_def Let_def normalize_literal [OF literalText_groups(2)])
qed

lemma literal_no_slash: "literalText s \<Longrightarrow> CHR ''/'' \<notin> set s"
  using literalChar_facts(3) by (auto simp: literalText_def)

text \<open>An entry is read as its address and its length, counted in 128 bits.\<close>

lemma parseCidr_text:
  assumes "literalText s" "literalToBigInt s = Some a" "k \<le> (if CHR '':'' \<in> set s then 128 else 32)"
  shows "parseCidr (s @ ''/'' @ show_nat k) = Some \<lparr>hc_address = a, hc_prefix = (if CHR '':'' \<in> set s then k else k + 96)\<rparr>"
proof -
  have digits: "\<forall>c \<in> set (show_nat k). is_digit c" by (rule show_nat_digits)
  then have ns: "CHR ''/'' \<notin> set (show_nat k)" by (auto simp: is_digit_def)
  have "split_on CHR ''/'' (join_with ''/'' [s, show_nat k]) = [s, show_nat k]"
    using literal_no_slash [OF assms(1)] ns by (intro split_join) auto
  moreover have "trim (s @ ''/'' @ show_nat k) = s @ ''/'' @ show_nat k"
  proof (rule trim_no_ws)
    have "literalText (show_nat k)" using digits by (simp add: literalText_def lowerHexChar_def)
    then show "\<forall>c \<in> set (s @ ''/'' @ show_nat k). \<not> is_ws c"
      using assms(1) literalChar_facts(1) unfolding literalText_def by (auto simp: is_ws_def)
  qed
  moreover have "length (show_nat k) \<le> 3"
  proof -
    have "k < 1000" using assms(3) by (simp split: if_splits)
    then show ?thesis using show_nat_length [of k] by linarith
  qed
  moreover have "show_nat k \<noteq> []" "list_all is_digit (show_nat k)" using digits by (simp_all add: list_all_iff)
  ultimately show ?thesis using assms(2,3) by (cases "CHR '':'' \<in> set s") (simp_all add: parseCidr_def)
qed

section \<open>The literals of the private networks\<close>

lemma private_texts:
  "''10.0.0.0/8'' = dotted [10, 0, 0, 0] @ ''/'' @ show_nat 8"
  "''172.16.0.0/12'' = dotted [172, 16, 0, 0] @ ''/'' @ show_nat 12"
  "''192.168.0.0/16'' = dotted [192, 168, 0, 0] @ ''/'' @ show_nat 16"
  "''100.64.0.0/10'' = dotted [100, 64, 0, 0] @ ''/'' @ show_nat 10"
  "''fc00::/7'' = compressed [0xfc00] [] @ ''/'' @ show_nat 7"
proof -
  have "hexChar 15 = CHR ''f''" "hexChar 12 = CHR ''c''" "hexChar 0 = CHR ''0''" by code_simp+
  moreover have "show_nat 7 = ''7''" by code_simp
  ultimately show "''fc00::/7'' = compressed [0xfc00] [] @ ''/'' @ show_nat 7"
    by (simp add: compressed_def groupText_def show_hex.simps)
qed code_simp+

lemma private_cidrs:
  "parseCidr ''10.0.0.0/8'' = Some \<lparr>hc_address = 0xffff0a000000, hc_prefix = 104\<rparr>"
  "parseCidr ''172.16.0.0/12'' = Some \<lparr>hc_address = 0xffffac100000, hc_prefix = 108\<rparr>"
  "parseCidr ''192.168.0.0/16'' = Some \<lparr>hc_address = 0xffffc0a80000, hc_prefix = 112\<rparr>"
  "parseCidr ''100.64.0.0/10'' = Some \<lparr>hc_address = 0xffff64400000, hc_prefix = 106\<rparr>"
  "parseCidr ''fc00::/7'' = Some \<lparr>hc_address = 0xfc00 * 2 ^ 112, hc_prefix = 7\<rparr>"
proof -
  have v4: "parseCidr (dotted [a, b, 0, 0] @ ''/'' @ show_nat k) = Some \<lparr>hc_address = 0xffff00000000 + a * 2 ^ 24 + b * 2 ^ 16, hc_prefix = k + 96\<rparr>"
    if "a \<le> 255" "b \<le> 255" "k \<le> 32" for a b k
  proof -
    have "shiftIn 8 [a, b, 0, 0] = a * 2 ^ 24 + b * 2 ^ 16"
      using that shiftIn_snoc [of 0 8 "[a, b, 0]"] shiftIn_snoc [of 0 8 "[a, b]"] shiftIn_one(2) [of a 8 b] by simp
    moreover have "a * 2 ^ 24 + b * 2 ^ 16 < (2 ^ 32 :: nat)" using that by simp
    ultimately have "IPV4_MAPPED_PREFIX OR shiftIn 8 [a, b, 0, 0] = 0xffff00000000 + a * 2 ^ 24 + b * 2 ^ 16"
      using push_or [of "a * 2 ^ 24 + b * 2 ^ 16" 32 "0xffff"] by (simp add: IPV4_MAPPED_PREFIX_def)
    then show ?thesis using that literal_dotted [of "[a, b, 0, 0]"]
        parseCidr_text [OF literalText_dotted, of "[a, b, 0, 0]" _ k] by (simp add: dotted_no_colon)
  qed
  show "parseCidr ''10.0.0.0/8'' = Some \<lparr>hc_address = 0xffff0a000000, hc_prefix = 104\<rparr>"
    using v4 [of 10 0 8] unfolding private_texts(1) by simp
  show "parseCidr ''172.16.0.0/12'' = Some \<lparr>hc_address = 0xffffac100000, hc_prefix = 108\<rparr>"
    using v4 [of 172 16 12] unfolding private_texts(2) by simp
  show "parseCidr ''192.168.0.0/16'' = Some \<lparr>hc_address = 0xffffc0a80000, hc_prefix = 112\<rparr>"
    using v4 [of 192 168 16] unfolding private_texts(3) by simp
  show "parseCidr ''100.64.0.0/10'' = Some \<lparr>hc_address = 0xffff64400000, hc_prefix = 106\<rparr>"
    using v4 [of 100 64 10] unfolding private_texts(4) by simp
  have "shiftIn 16 [0xfc00, 0, 0, 0, 0, 0, 0, 0] = 0xfc00 * 2 ^ 112" by (simp add: shiftIn_def push_bit_eq_mult)
  moreover have "replicate 7 (0 :: nat) = [0, 0, 0, 0, 0, 0, 0]" by code_simp
  ultimately have "literalToBigInt (compressed [0xfc00] []) = Some (0xfc00 * 2 ^ 112)"
    using literal_compressed [of "[0xfc00]" "[]"] by simp
  moreover have "CHR '':'' \<in> set (compressed [0xfc00] [])" by (simp add: compressed_def)
  ultimately show "parseCidr ''fc00::/7'' = Some \<lparr>hc_address = 0xfc00 * 2 ^ 112, hc_prefix = 7\<rparr>"
    using parseCidr_text [OF literalText_groups(2), of "[0xfc00]" "[]" _ 7] unfolding private_texts(5) by simp
qed

lemma private_networks: "list_ex (isInCidr a) PRIVATE_NETWORKS \<longleftrightarrow> privateAddress a"
  by (simp add: PRIVATE_NETWORKS_def map_filter_simps private_cidrs isInCidr_def privateAddress_def drop_bit_eq_div)

section \<open>The two tests on a literal\<close>

lemma literal_restricted:
  assumes "literalToBigInt host = Some a"
  shows "isRestrictedNetworkHost host \<longleftrightarrow> restrictedAddress a"
proof -
  define t where "t = unbracket (toLowerCase (trim host))"
  show ?thesis
  proof (cases "CHR '':'' \<in> set t")
    case True
    then obtain gs where gs: "parseIpv6 t = Some gs" and a: "a = shiftIn 16 gs"
      using assms by (auto simp: literalToBigInt_def Let_def t_def [symmetric])
    have "isRestrictedNetworkHost host \<longleftrightarrow> isRestrictedIpv6 gs"
      using True gs parseIpv6_no_final_dot [OF gs] by (auto simp: isRestrictedNetworkHost_def Let_def t_def [symmetric])
    then show ?thesis using isRestrictedIpv6_address parseIpv6_groups [OF gs] a by simp
  next
    case False
    then obtain octets where o: "parseCanonicalIpv4 t = Some octets" and a: "a = IPV4_MAPPED_PREFIX OR shiftIn 8 octets"
      using assms by (auto simp: literalToBigInt_def Let_def t_def [symmetric])
    then have d: "t = dotted octets" "octets \<noteq> []" by (auto simp: parseCanonicalIpv4_iff)
    then have "\<not> suffix ''.'' t" "t \<noteq> []" "list_all numericLabel (split_on CHR ''.'' t)"
      using dotted_no_final_dot dotted_parts [of octets] show_nat_not_Nil
      by (auto simp: list_all_iff numericLabel_show simp del: show_nat_not_Nil) (metis show_nat_not_Nil)
    then have "isRestrictedNetworkHost host \<longleftrightarrow> isRestrictedIpv4 octets"
      using False o by (simp add: isRestrictedNetworkHost_def Let_def t_def [symmetric])
    then show ?thesis using isRestrictedIpv4_address [OF o] a by simp
  qed
qed

lemma private_literal:
  "isPrivateNetworkAddress host \<longleftrightarrow> (\<exists>a. literalToBigInt host = Some a \<and> privateAddress a)"
  by (simp add: isPrivateNetworkAddress_def private_networks split: option.split)

text \<open>What is accepted is an unrestricted literal or a name of several labels, not all of them numbers.\<close>

lemma accepted_host:
  assumes "\<not> isRestrictedNetworkHost host" "stripped = unbracket (toLowerCase (trim host))"
    "name = (if suffix ''.'' stripped then butlast stripped else stripped)"
  obtains (v6) gs where "parseIpv6 name = Some gs" "\<not> isRestrictedIpv6 gs"
    | (v4) octets where "parseCanonicalIpv4 name = Some octets" "\<not> isRestrictedIpv4 octets"
    | (dns) "\<not> list_all numericLabel (split_on CHR ''.'' name)" "2 \<le> length (split_on CHR ''.'' name)"
        "name \<notin> set RESTRICTED_NAMES" "\<not> list_ex (\<lambda>s. suffix s name) RESTRICTED_SUFFIXES"
  using assms(1) unfolding isRestrictedNetworkHost_def Let_def assms(2) [symmetric] assms(3) [symmetric]
  by (fastforce split: if_splits option.splits)

lemma literal_loopback: "literalToBigInt ''127.0.0.1'' = Some (0xffff * 2 ^ 32 + 0x7f000001)"
proof -
  have "''127.0.0.1'' = dotted [127, 0, 0, 1]" by code_simp
  moreover have "IPV4_MAPPED_PREFIX OR shiftIn 8 [127, 0, 0, 1] = 0xffff * 2 ^ 32 + 0x7f000001"
    using push_or [of "0x7f000001" 32 "0xffff"] by (simp add: IPV4_MAPPED_PREFIX_def shiftIn_def push_bit_eq_mult)
  ultimately show ?thesis using literal_dotted [of "[127, 0, 0, 1]"] by simp
qed

text \<open>
  The 6to4 spelling of a loopback address, \<^verbatim>\<open>2002:7f00:1::\<close>, embeds an IPv4 address in an IPv6 one and is
  accepted.
\<close>

lemma sixtofour_accepted: "\<not> isRestrictedNetworkHost (compressed [0x2002, 0x7f00, 1] [])"
proof -
  have "replicate 5 (0 :: nat) = [0, 0, 0, 0, 0]" by code_simp
  moreover have "shiftIn 16 [0x2002, 0x7f00, 1, 0, 0, 0, 0, 0] = 0x20027f000001 * 2 ^ 80"
    by (simp add: shiftIn_def push_bit_eq_mult)
  ultimately have "literalToBigInt (compressed [0x2002, 0x7f00, 1] []) = Some (0x20027f000001 * 2 ^ 80)"
    using literal_compressed [of "[0x2002, 0x7f00, 1]" "[]"] by simp
  then show ?thesis by (simp add: literal_restricted restrictedAddress_def)
qed

text \<open>
  C22: On every literal, however it is spelt, the two tests decide on the number it stands for.  A host is
  restricted exactly when its address is unspecified, loopback, link-local, multicast or reserved, also when
  mapped, compatible or NAT64 addresses embed it, and private exactly when its address lies in one of the five
  private networks.
\<close>

theorem host_literals_exact:
  assumes "literalToBigInt host = Some a"
  shows "(isRestrictedNetworkHost host \<longleftrightarrow> restrictedAddress a) \<and> (isPrivateNetworkAddress host \<longleftrightarrow> privateAddress a)"
  using assms by (simp add: literal_restricted private_literal)

theorem host_literals_exact_witness:
  "literalToBigInt ''127.0.0.1'' = Some (0xffff * 2 ^ 32 + 0x7f000001) \<and> isRestrictedNetworkHost ''127.0.0.1''
   \<and> \<not> isPrivateNetworkAddress ''127.0.0.1''"
  using host_literals_exact [OF literal_loopback] literal_loopback
  by (simp add: restrictedAddress_def restrictedV4_def privateAddress_def)

end
