(* ===== verification/Utf8.thy ===== *)
theory Utf8
  imports Byte_Streams
begin

text \<open>
  The UTF-8 conversions of Node's \<^verbatim>\<open>Buffer\<close>: \<open>encodeUtf8\<close> is \<^verbatim>\<open>Buffer.from(text, 'utf-8')\<close> and \<open>decodeUtf8\<close> is
  \<^verbatim>\<open>buffer.toString('utf-8')\<close>, which puts U+FFFD where a sequence is cut short or malformed.  A text is the
  list of its code points.  The round trip holds for every text without surrogates.
\<close>

definition encodePoint :: "nat \<Rightarrow> nat list" where
  "encodePoint c =
     (if c < 0x80 then [c]
      else if c < 0x800 then [0xC0 + c div 64, 0x80 + c mod 64]
      else if c < 0x10000 then [0xE0 + c div 4096, 0x80 + c div 64 mod 64, 0x80 + c mod 64]
      else [0xF0 + c div 262144, 0x80 + c div 4096 mod 64, 0x80 + c div 64 mod 64, 0x80 + c mod 64])"

definition encodeUtf8 :: "nat list \<Rightarrow> byte list" where
  "encodeUtf8 s = map of_nat (concat (map encodePoint s))"

text \<open>The decoder's state: how many bytes are needed, the bounds of the next one, the bits read so far.\<close>

record utf8_state =
  needed :: nat
  lower :: nat
  upper :: nat
  point :: nat

definition utf8Start :: utf8_state where
  "utf8Start = \<lparr>needed = 0, lower = 0x80, upper = 0xBF, point = 0\<rparr>"

function decodeFrom :: "utf8_state \<Rightarrow> nat list \<Rightarrow> nat list" where
  "decodeFrom s [] = (if needed s = 0 then [] else [0xFFFD])"
| "decodeFrom s (b # bs) =
     (if needed s = 0
      then if b < 0x80 then b # decodeFrom utf8Start bs
           else if 0xC2 \<le> b \<and> b \<le> 0xDF
           then decodeFrom \<lparr>needed = 1, lower = 0x80, upper = 0xBF, point = b - 0xC0\<rparr> bs
           else if 0xE0 \<le> b \<and> b \<le> 0xEF
           then decodeFrom \<lparr>needed = 2, lower = (if b = 0xE0 then 0xA0 else 0x80),
                  upper = (if b = 0xED then 0x9F else 0xBF), point = b - 0xE0\<rparr> bs
           else if 0xF0 \<le> b \<and> b \<le> 0xF4
           then decodeFrom \<lparr>needed = 3, lower = (if b = 0xF0 then 0x90 else 0x80),
                  upper = (if b = 0xF4 then 0x8F else 0xBF), point = b - 0xF0\<rparr> bs
           else 0xFFFD # decodeFrom utf8Start bs
      else if b < lower s \<or> upper s < b then 0xFFFD # decodeFrom utf8Start (b # bs)
      else if needed s = 1 then (point s * 64 + (b - 0x80)) # decodeFrom utf8Start bs
      else decodeFrom \<lparr>needed = needed s - 1, lower = 0x80, upper = 0xBF, point = point s * 64 + (b - 0x80)\<rparr> bs)"
  by pat_completeness auto
termination
  by (relation "measures [\<lambda>(s, bs). length bs, \<lambda>(s, bs). needed s]") (auto simp: utf8Start_def)

declare decodeFrom.simps(2) [simp del]

definition decodeUtf8 :: "byte list \<Rightarrow> nat list" where
  "decodeUtf8 bs = decodeFrom utf8Start (map unat bs)"

definition isScalar :: "nat \<Rightarrow> bool" where
  "isScalar c \<longleftrightarrow> c < 0xD800 \<or> 0xDFFF < c \<and> c < 0x110000"

lemma start_needed [simp]: "needed utf8Start = 0"
  by (simp add: utf8Start_def)

lemma encodePoint_bytes: "isScalar c \<Longrightarrow> \<forall>b \<in> set (encodePoint c). b < 256"
  by (auto simp: encodePoint_def isScalar_def div_less_iff_less_mult intro: less_le_trans [OF mod_less_divisor])

lemma continuation:
  assumes "needed s = Suc (Suc n)" "lower s \<le> 0x80 + x" "0x80 + x \<le> upper s"
  shows "decodeFrom s ((0x80 + x) # bs) = decodeFrom \<lparr>needed = Suc n, lower = 0x80, upper = 0xBF, point = point s * 64 + x\<rparr> bs"
  using assms by (simp add: decodeFrom.simps(2))

lemma continuation_last:
  assumes "needed s = 1" "lower s \<le> 0x80 + x" "0x80 + x \<le> upper s"
  shows "decodeFrom s ((0x80 + x) # bs) = (point s * 64 + x) # decodeFrom utf8Start bs"
  using assms by (simp add: decodeFrom.simps(2))

lemma mod64: "(c :: nat) mod 64 \<le> 63"
  using mod_less_divisor [of 64 c] by linarith

lemma lead2:
  assumes "0x80 \<le> c" "c < 0x800"
  shows "decodeFrom utf8Start ([0xC0 + c div 64, 0x80 + c mod 64] @ bs) = c # decodeFrom utf8Start bs"
proof -
  have "2 \<le> c div 64" "c div 64 \<le> 31" using assms by linarith+
  then have "decodeFrom utf8Start ([0xC0 + c div 64, 0x80 + c mod 64] @ bs)
      = decodeFrom \<lparr>needed = 1, lower = 0x80, upper = 0xBF, point = c div 64\<rparr> ((0x80 + c mod 64) # bs)"
    by (simp add: decodeFrom.simps(2) [of utf8Start])
  also have "\<dots> = (c div 64 * 64 + c mod 64) # decodeFrom utf8Start bs"
    using mod64 [of c] by (subst continuation_last) simp_all
  finally show ?thesis by simp
qed

lemma lead3:
  assumes "0x800 \<le> c" "c < 0x10000" "isScalar c"
  shows "decodeFrom utf8Start ([0xE0 + c div 4096, 0x80 + c div 64 mod 64, 0x80 + c mod 64] @ bs) = c # decodeFrom utf8Start bs"
proof -
  let ?a = "c div 4096"
  let ?m = "c div 64 mod 64"
  have a: "?a \<le> 15" using assms by linarith
  have lo: "?a = 0 \<Longrightarrow> 32 \<le> ?m"
  proof -
    assume "?a = 0"
    then have "c div 64 < 64" "32 \<le> c div 64" using assms(1) by linarith+
    then show "32 \<le> ?m" by simp
  qed
  have hi: "?a = 13 \<Longrightarrow> ?m \<le> 31"
  proof -
    assume q: "?a = 13"
    then have "c < 14 * 4096" "13 * 4096 \<le> c" by linarith+
    then have "c < 0xD800" using assms(3) by (auto simp: isScalar_def)
    then have "c div 64 < 864" by linarith
    moreover have "c div 64 div 64 = 13" using q by (simp add: div_mult2_eq [symmetric])
    ultimately show "?m \<le> 31" using div_mult_mod_eq [of "c div 64" 64] by linarith
  qed
  have "decodeFrom utf8Start ([0xE0 + ?a, 0x80 + ?m, 0x80 + c mod 64] @ bs)
      = decodeFrom \<lparr>needed = 2, lower = (if ?a = 0 then 0xA0 else 0x80), upper = (if ?a = 13 then 0x9F else 0xBF), point = ?a\<rparr>
          ((0x80 + ?m) # (0x80 + c mod 64) # bs)"
    using a by (simp add: decodeFrom.simps(2) [of utf8Start])
  also have "\<dots> = decodeFrom \<lparr>needed = Suc 0, lower = 0x80, upper = 0xBF, point = ?a * 64 + ?m\<rparr> ((0x80 + c mod 64) # bs)"
    using lo hi mod64 [of "c div 64"] by (subst continuation [where n = 0]) auto
  also have "\<dots> = ((?a * 64 + ?m) * 64 + c mod 64) # decodeFrom utf8Start bs"
    using mod64 [of c] by (subst continuation_last) simp_all
  also have "(?a * 64 + ?m) * 64 + c mod 64 = c"
  proof -
    have "?a = c div 64 div 64" by (simp add: div_mult2_eq [symmetric])
    then have "?a * 64 + ?m = c div 64" by (simp only: div_mult_mod_eq)
    then show ?thesis by simp
  qed
  finally show ?thesis .
qed

lemma lead4:
  assumes "0x10000 \<le> c" "c < 0x110000"
  shows "decodeFrom utf8Start ([0xF0 + c div 262144, 0x80 + c div 4096 mod 64, 0x80 + c div 64 mod 64, 0x80 + c mod 64] @ bs)
    = c # decodeFrom utf8Start bs"
proof -
  let ?a = "c div 262144"
  let ?m = "c div 4096 mod 64"
  let ?n = "c div 64 mod 64"
  have a: "?a \<le> 4" using assms by linarith
  have am: "?a * 64 + ?m = c div 4096"
  proof -
    have "?a = c div 4096 div 64" by (simp add: div_mult2_eq [symmetric])
    then show ?thesis by (simp only: div_mult_mod_eq)
  qed
  have "16 \<le> c div 4096" "c div 4096 < 272" using assms by linarith+
  then have lo: "?a = 0 \<Longrightarrow> 16 \<le> ?m" and hi: "?a = 4 \<Longrightarrow> ?m \<le> 15" using am by linarith+
  have "decodeFrom utf8Start ([0xF0 + ?a, 0x80 + ?m, 0x80 + ?n, 0x80 + c mod 64] @ bs)
      = decodeFrom \<lparr>needed = 3, lower = (if ?a = 0 then 0x90 else 0x80), upper = (if ?a = 4 then 0x8F else 0xBF), point = ?a\<rparr>
          ((0x80 + ?m) # (0x80 + ?n) # (0x80 + c mod 64) # bs)"
    using a by (simp add: decodeFrom.simps(2) [of utf8Start])
  also have "\<dots> = decodeFrom \<lparr>needed = Suc 1, lower = 0x80, upper = 0xBF, point = c div 4096\<rparr> ((0x80 + ?n) # (0x80 + c mod 64) # bs)"
    using lo hi mod64 [of "c div 4096"] am by (subst continuation [where n = 1]) auto
  also have "\<dots> = decodeFrom \<lparr>needed = Suc 0, lower = 0x80, upper = 0xBF, point = c div 4096 * 64 + ?n\<rparr> ((0x80 + c mod 64) # bs)"
    using mod64 [of "c div 64"] by (subst continuation [where n = 0]) auto
  also have "\<dots> = ((c div 4096 * 64 + ?n) * 64 + c mod 64) # decodeFrom utf8Start bs"
    using mod64 [of c] by (subst continuation_last) simp_all
  also have "(c div 4096 * 64 + ?n) * 64 + c mod 64 = c"
  proof -
    have "c div 4096 = c div 64 div 64" by (simp add: div_mult2_eq [symmetric])
    then have "c div 4096 * 64 + ?n = c div 64" by (simp only: div_mult_mod_eq)
    then show ?thesis by simp
  qed
  finally show ?thesis .
qed

lemma decode_point: "isScalar c \<Longrightarrow> decodeFrom utf8Start (encodePoint c @ bs) = c # decodeFrom utf8Start bs"
  using lead2 [of c bs] lead3 [of c bs] lead4 [of c bs]
  by (auto simp: encodePoint_def isScalar_def decodeFrom.simps(2) [of utf8Start c])

lemma unat_bytes: "\<forall>b \<in> set bs. b < 256 \<Longrightarrow> map unat (map of_nat bs :: byte list) = bs"
  by (induction bs) (simp_all add: unat_of_nat)

lemma decode_encode:
  assumes "list_all isScalar s"
  shows "decodeUtf8 (encodeUtf8 s) = s"
proof -
  have "decodeFrom utf8Start (concat (map encodePoint s)) = s"
    using assms by (induction s) (simp_all add: decode_point)
  moreover have "\<forall>b \<in> set (concat (map encodePoint s)). b < 256"
    using assms encodePoint_bytes by (fastforce simp: list_all_iff)
  ultimately show ?thesis by (simp add: decodeUtf8_def encodeUtf8_def unat_bytes del: map_map)
qed

end
