(* ===== verification/Rcon_Client.thy ===== *)
theory Rcon_Client
  imports Network_Hosts Rcon_Protocol Utf8
begin

text \<open>
  The RCON connection of \<^verbatim>\<open>apps/workers/rcon/src\<close>: the guard on the addresses a client dials
  (\<^verbatim>\<open>address-guard.ts\<close> and \<^verbatim>\<open>RconClient.connect\<close>) and the client itself (\<^verbatim>\<open>client.ts\<close>), whose callbacks are the
  steps of a state machine.  The resolver is an argument; Node's \<^verbatim>\<open>net.isIP\<close> and the way \<^verbatim>\<open>net.connect\<close>
  consults the lookup function are modelled.  A client is dialled once, as \<^verbatim>\<open>per-server.ts\<close> does.
\<close>

section \<open>Which addresses are dialled\<close>

definition zoneChar :: "char \<Rightarrow> bool" where
  "zoneChar c \<longleftrightarrow> is_digit c \<or> 97 \<le> (of_char (lower_char c) :: nat) \<and> (of_char (lower_char c) :: nat) \<le> 122
     \<or> c \<in> set ''-.:''"

definition anyQuad :: "string \<Rightarrow> nat list option" where
  "anyQuad part = map_option (\<lambda>_. [0, 0]) (parseCanonicalIpv4 part)"

definition isIPv6 :: "string \<Rightarrow> bool" where
  "isIPv6 s =
     (let address = takeWhile (\<lambda>c. c \<noteq> CHR ''%'') s; zone = dropWhile (\<lambda>c. c \<noteq> CHR ''%'') s
      in expandIpv6 is_hex anyQuad address \<noteq> None \<and> (zone = [] \<or> tl zone \<noteq> [] \<and> list_all zoneChar (tl zone)))"

definition isIP :: "string \<Rightarrow> nat" where
  "isIP s = (if parseCanonicalIpv4 s \<noteq> None then 4 else if isIPv6 s then 6 else 0)"

datatype AddressRefusal = Restricted | PrivateOutsideAllowlist

definition refuseResolvedAddresses :: "string list \<Rightarrow> host_cidr list option \<Rightarrow> AddressRefusal option" where
  "refuseResolvedAddresses addresses privateHostAllowlist =
     (if addresses = [] then Some Restricted
      else if list_ex isRestrictedNetworkHost addresses then Some Restricted
      else if list_ex (\<lambda>address. \<not> isPrivateHostAllowed address privateHostAllowlist) addresses
      then Some PrivateOutsideAllowlist
      else None)"

datatype rcon_error =
    PasswordUnsafe
  | HostRefused AddressRefusal
  | LookupError
  | ConnectTimeout
  | SocketError
  | ResolvesTo AddressRefusal
  | AuthRejected
  | AuthTimeout
  | RconClosed
  | RconNotConnected
  | RconSocketClosed
  | ExecTimeout "nat list"
  | IdOutOfRange

type_synonym resolver = "string \<Rightarrow> string list option"

definition makeRestrictedAddressLookup ::
  "host_cidr list option \<Rightarrow> resolver \<Rightarrow> string \<Rightarrow> rcon_error + string list" where
  "makeRestrictedAddressLookup privateHostAllowlist resolve hostname =
     (case resolve hostname of
        None \<Rightarrow> Inl LookupError
      | Some addresses \<Rightarrow>
          (case refuseResolvedAddresses addresses privateHostAllowlist of
             Some refusal \<Rightarrow> Inl (ResolvesTo refusal)
           | None \<Rightarrow> Inr addresses))"

record rcon_options =
  ro_host :: string
  ro_password :: "nat list"
  ro_refuse :: bool
  ro_allowlist :: "host_cidr list option"
  ro_keepaliveMs :: int

text \<open>\<^verbatim>\<open>net.connect\<close>: a literal is dialled as it is, any other host goes through the lookup function.\<close>

definition createConnection :: "(string \<Rightarrow> rcon_error + string list) \<Rightarrow> string \<Rightarrow> rcon_error + string list" where
  "createConnection look host = (if isIP host \<noteq> 0 then Inr [host] else look host)"

definition plainLookup :: "resolver \<Rightarrow> string \<Rightarrow> rcon_error + string list" where
  "plainLookup resolve hostname = (case resolve hostname of None \<Rightarrow> Inl LookupError | Some addresses \<Rightarrow> Inr addresses)"

text \<open>\<^verbatim>\<open>connect\<close> up to the socket: the addresses that may be dialled, or the error.\<close>

definition connectTargets :: "rcon_options \<Rightarrow> resolver \<Rightarrow> rcon_error + string list" where
  "connectTargets opts resolve =
     (let host = ro_host opts; refuse = ro_refuse opts; privateHostAllowlist = ro_allowlist opts
      in if list_ex (\<lambda>c. c \<in> {13, 10, 0}) (ro_password opts) then Inl PasswordUnsafe
         else if refuse \<and> isIP host \<noteq> 0 \<and> isRestrictedNetworkHost host then Inl (HostRefused Restricted)
         else if refuse \<and> \<not> isPrivateHostAllowed host privateHostAllowlist then Inl (HostRefused PrivateOutsideAllowlist)
         else createConnection
                (if refuse then makeRestrictedAddressLookup privateHostAllowlist resolve else plainLookup resolve) host)"

section \<open>The client\<close>

definition SERVERDATA_AUTH :: "32 word" where "SERVERDATA_AUTH = 3"
definition SERVERDATA_EXECCOMMAND :: "32 word" where "SERVERDATA_EXECCOMMAND = 2"
definition SERVERDATA_AUTH_RESPONSE :: "32 word" where "SERVERDATA_AUTH_RESPONSE = 2"

datatype rcon_outcome = Resolved "nat list" | Rejected rcon_error

text \<open>A pending command; \<open>pd_call\<close> names the call of \<^verbatim>\<open>exec\<close> whose promise it settles.\<close>

record rcon_pending =
  pd_id :: nat
  pd_command :: "nat list"
  pd_chunks :: "nat list list"
  pd_call :: nat

datatype dial_state = Undialled | Dialling | Dialled

text \<open>
  The fields of \<^verbatim>\<open>RconClient\<close>.  The promise chain \<^verbatim>\<open>execQueue\<close> is the calls that wait for their predecessor
  (\<open>cl_queue\<close>) and the call that runs (\<open>cl_running\<close>).  The last group is what the client shows: how the calls
  were settled, the outcome of \<^verbatim>\<open>connect\<close>, the packets written, the broadcasts handed on, the disconnects
  reported, each with whether it was explicit.
\<close>

record rcon_client =
  cl_dial :: dial_state
  cl_socket :: bool
  cl_attached :: bool
  cl_stream :: rcon_stream
  cl_nextId :: nat
  cl_pending :: "(nat \<times> rcon_pending) list"
  cl_keepalive :: bool
  cl_closed :: bool
  cl_lastCommandAt :: int
  cl_packetHandler :: "nat option"
  cl_authPending :: bool
  cl_queue :: "(nat \<times> nat list) list"
  cl_running :: "nat option"
  cl_calls :: nat
  cl_settled :: "(nat \<times> rcon_outcome) list"
  cl_connects :: "rcon_error option list"
  cl_written :: "rcon_packet list"
  cl_broadcasts :: "nat list list"
  cl_disconnects :: "bool list"

definition newClient :: rcon_client where
  "newClient = \<lparr>cl_dial = Undialled, cl_socket = False, cl_attached = False, cl_stream = newStream, cl_nextId = 1000,
     cl_pending = [], cl_keepalive = False, cl_closed = False, cl_lastCommandAt = 0, cl_packetHandler = None,
     cl_authPending = False, cl_queue = [], cl_running = None, cl_calls = 0, cl_settled = [], cl_connects = [],
     cl_written = [], cl_broadcasts = [], cl_disconnects = []\<rparr>"

text \<open>Settling a promise counts once; the chain moves on when the running call is settled.\<close>

definition settle :: "nat \<Rightarrow> rcon_outcome \<Rightarrow> rcon_client \<Rightarrow> rcon_client" where
  "settle call out cl =
     (if call \<in> fst ` set (cl_settled cl) then cl
      else cl\<lparr>cl_settled := cl_settled cl @ [(call, out)],
              cl_running := (if cl_running cl = Some call then None else cl_running cl)\<rparr>)"

definition rejectAll :: "rcon_error \<Rightarrow> rcon_client \<Rightarrow> rcon_client" where
  "rejectAll err cl =
     (foldl (\<lambda>c (probeId, p). settle (pd_call p) (Rejected err) c) cl (cl_pending cl))\<lparr>cl_pending := []\<rparr>"

definition close :: "rcon_client \<Rightarrow> rcon_client" where
  "close cl = (rejectAll RconClosed (cl\<lparr>cl_closed := True, cl_keepalive := False\<rparr>))\<lparr>cl_socket := False\<rparr>"

definition exec :: "nat list \<Rightarrow> rcon_client \<Rightarrow> rcon_client" where
  "exec command cl = cl\<lparr>cl_queue := cl_queue cl @ [(cl_calls cl, command)], cl_calls := Suc (cl_calls cl)\<rparr>"

definition MAX_INT32 :: nat where "MAX_INT32 = 2147483647"

text \<open>A packet written to the socket.\<close>

definition writePacket :: "nat \<Rightarrow> 32 word \<Rightarrow> nat list \<Rightarrow> rcon_client \<Rightarrow> rcon_client" where
  "writePacket ident kind body cl =
     cl\<lparr>cl_written := cl_written cl @ [\<lparr>pk_id = of_nat ident, pk_type = kind, pk_body = encodeUtf8 body\<rparr>]\<rparr>"

text \<open>An id beyond 32 bits makes \<^verbatim>\<open>encodePacket\<close> throw inside the promise, which rejects the call and leaves it pending.\<close>

definition execNow :: "int \<Rightarrow> nat \<Rightarrow> nat list \<Rightarrow> rcon_client \<Rightarrow> rcon_client" where
  "execNow now call command cl =
     (if cl_closed cl then settle call (Rejected RconClosed) cl
      else if \<not> cl_socket cl then settle call (Rejected RconNotConnected) cl
      else let ident = cl_nextId cl + 1; probeId = cl_nextId cl + 2;
               pending = \<lparr>pd_id = ident, pd_command = command, pd_chunks = [], pd_call = call\<rparr>;
               cl1 = cl\<lparr>cl_lastCommandAt := now, cl_nextId := probeId,
                        cl_pending := map_put probeId pending (cl_pending cl)\<rparr>
           in if ident > MAX_INT32 then settle call (Rejected IdOutOfRange) cl1
              else let cl2 = writePacket ident SERVERDATA_EXECCOMMAND command cl1
                   in if probeId > MAX_INT32 then settle call (Rejected IdOutOfRange) cl2
                      else writePacket probeId SERVERDATA_EXECCOMMAND [] cl2)"

text \<open>The chain runs its next call once the previous one is settled.\<close>

definition runNext :: "int \<Rightarrow> rcon_client \<Rightarrow> rcon_client" where
  "runNext now cl =
     (case (cl_running cl, cl_queue cl) of
        (None, (call, command) # rest) \<Rightarrow> execNow now call command (cl\<lparr>cl_queue := rest, cl_running := Some call\<rparr>)
      | _ \<Rightarrow> cl)"

definition commandTimeout :: "nat \<Rightarrow> rcon_client \<Rightarrow> rcon_client" where
  "commandTimeout probeId cl =
     (case map_of (cl_pending cl) probeId of
        None \<Rightarrow> cl
      | Some p \<Rightarrow> settle (pd_call p) (Rejected (ExecTimeout (pd_command p)))
          (cl\<lparr>cl_pending := map_del (pd_id p) (map_del probeId (cl_pending cl))\<rparr>))"

section \<open>Packets\<close>

definition keepaliveStart :: "rcon_client \<Rightarrow> rcon_client" where
  "keepaliveStart cl = cl\<lparr>cl_keepalive := True\<rparr>"

definition finishAuth :: "rcon_error option \<Rightarrow> rcon_client \<Rightarrow> rcon_client" where
  "finishAuth err cl =
     (if \<not> cl_authPending cl then cl
      else let cl1 = cl\<lparr>cl_authPending := False, cl_connects := cl_connects cl @ [err]\<rparr>
           in if err = None then keepaliveStart cl1 else cl1)"

definition onAuthPacket :: "nat \<Rightarrow> rcon_packet \<Rightarrow> rcon_client \<Rightarrow> rcon_client" where
  "onAuthPacket authId p cl =
     (if pk_type p = 2 \<and> sint (pk_id p) = int authId then finishAuth None (cl\<lparr>cl_packetHandler := None\<rparr>)
      else if pk_type p = 2 \<and> sint (pk_id p) = -1 then finishAuth (Some AuthRejected) (cl\<lparr>cl_packetHandler := None\<rparr>)
      else cl)"

text \<open>The loop over the pending commands, in the order they were put.\<close>

fun deliverPacket :: "rcon_packet \<Rightarrow> (nat \<times> rcon_pending) list \<Rightarrow> rcon_client \<Rightarrow> rcon_client" where
  "deliverPacket p [] cl = cl"
| "deliverPacket p ((probeId, pending) # rest) cl =
     (if sint (pk_id p) = int probeId
      then settle (pd_call pending) (Resolved (concat (pd_chunks pending)))
             (cl\<lparr>cl_pending := map_del probeId (cl_pending cl)\<rparr>)
      else if sint (pk_id p) = int (pd_id pending)
      then cl\<lparr>cl_pending := map_put probeId (pending\<lparr>pd_chunks := pd_chunks pending @ [decodeUtf8 (pk_body p)]\<rparr>) (cl_pending cl)\<rparr>
      else deliverPacket p rest cl)"

definition handlePacket :: "rcon_client \<Rightarrow> rcon_packet \<Rightarrow> rcon_client" where
  "handlePacket cl p =
     (case cl_packetHandler cl of
        Some authId \<Rightarrow> onAuthPacket authId p cl
      | None \<Rightarrow>
          if pk_type p = SERVERDATA_CHAT_VALUE then cl\<lparr>cl_broadcasts := cl_broadcasts cl @ [decodeUtf8 (pk_body p)]\<rparr>
          else if pk_type p \<noteq> SERVERDATA_RESPONSE_VALUE then cl
          else deliverPacket p (cl_pending cl) cl)"

text \<open>A data event.  A frame that cannot be decoded closes the client before any packet of the chunk is handled.\<close>

definition onData :: "byte list \<Rightarrow> rcon_client \<Rightarrow> rcon_client" where
  "onData chunk cl =
     (if \<not> cl_socket cl then cl
      else case push (cl_stream cl) chunk of
          None \<Rightarrow> close cl
        | Some (packets, s) \<Rightarrow> foldl handlePacket (cl\<lparr>cl_stream := s\<rparr>) packets)"

definition onSocketClose :: "rcon_client \<Rightarrow> rcon_client" where
  "onSocketClose cl =
     (if \<not> cl_attached cl then cl
      else (rejectAll RconSocketClosed cl)
             \<lparr>cl_socket := False, cl_attached := False, cl_keepalive := False,
              cl_disconnects := cl_disconnects cl @ [cl_closed cl]\<rparr>)"

section \<open>Connecting\<close>

definition connect :: "rcon_options \<Rightarrow> resolver \<Rightarrow> rcon_client \<Rightarrow> rcon_client" where
  "connect opts resolve cl =
     (if cl_socket cl then cl\<lparr>cl_connects := cl_connects cl @ [None]\<rparr>
      else if cl_dial cl \<noteq> Undialled then cl
      else case connectTargets opts resolve of
          Inl err \<Rightarrow> cl\<lparr>cl_closed := (if err = PasswordUnsafe then cl_closed cl else False), cl_connects := cl_connects cl @ [Some err]\<rparr>
        | Inr targets \<Rightarrow> cl\<lparr>cl_closed := False, cl_dial := Dialling\<rparr>)"

definition authenticate :: "rcon_options \<Rightarrow> rcon_client \<Rightarrow> rcon_client" where
  "authenticate opts cl =
     (let authId = cl_nextId cl + 1
      in writePacket authId SERVERDATA_AUTH (ro_password opts)
           (cl\<lparr>cl_nextId := authId, cl_packetHandler := Some authId, cl_authPending := True\<rparr>))"

definition onConnect :: "rcon_options \<Rightarrow> rcon_client \<Rightarrow> rcon_client" where
  "onConnect opts cl =
     (if cl_dial cl \<noteq> Dialling then cl
      else authenticate opts (cl\<lparr>cl_dial := Dialled, cl_socket := True, cl_attached := True\<rparr>))"

text \<open>The socket reports an error, or the connect timer destroys it, before the connection stands.\<close>

definition onDialFailed :: "rcon_error \<Rightarrow> rcon_client \<Rightarrow> rcon_client" where
  "onDialFailed err cl =
     (if cl_dial cl \<noteq> Dialling then cl else cl\<lparr>cl_dial := Dialled, cl_connects := cl_connects cl @ [Some err]\<rparr>)"

definition authTimeout :: "rcon_client \<Rightarrow> rcon_client" where
  "authTimeout cl = finishAuth (Some AuthTimeout) cl"

definition SHOW_SERVER_INFO :: "nat list" where
  "SHOW_SERVER_INFO = map of_char ''ShowServerInfo''"

definition keepaliveTick :: "rcon_options \<Rightarrow> int \<Rightarrow> rcon_client \<Rightarrow> rcon_client" where
  "keepaliveTick opts now cl =
     (if \<not> cl_keepalive cl \<or> \<not> cl_socket cl then cl
      else if now - cl_lastCommandAt cl < ro_keepaliveMs opts then cl
      else exec SHOW_SERVER_INFO cl)"

section \<open>Runs\<close>

datatype rcon_event =
    Connect resolver
  | Connected
  | DialFailed rcon_error
  | AuthTimedOut
  | Exec "nat list"
  | RunNext int
  | CommandTimedOut nat
  | Data "byte list"
  | SocketClosed
  | Close
  | KeepaliveTick int

fun clientStep :: "rcon_options \<Rightarrow> rcon_client \<Rightarrow> rcon_event \<Rightarrow> rcon_client" where
  "clientStep opts cl (Connect resolve) = connect opts resolve cl"
| "clientStep opts cl Connected = onConnect opts cl"
| "clientStep opts cl (DialFailed err) = onDialFailed err cl"
| "clientStep opts cl AuthTimedOut = authTimeout cl"
| "clientStep opts cl (Exec command) = exec command cl"
| "clientStep opts cl (RunNext now) = runNext now cl"
| "clientStep opts cl (CommandTimedOut probeId) = commandTimeout probeId cl"
| "clientStep opts cl (Data chunk) = onData chunk cl"
| "clientStep opts cl SocketClosed = onSocketClose cl"
| "clientStep opts cl Close = close cl"
| "clientStep opts cl (KeepaliveTick now) = keepaliveTick opts now cl"

definition runClient :: "rcon_options \<Rightarrow> rcon_event list \<Rightarrow> rcon_client" where
  "runClient opts evs = foldl (clientStep opts) newClient evs"

section \<open>What the guard lets through\<close>

lemma set_splitPair: "x \<in> set s \<Longrightarrow> x = c \<or> (\<exists>part \<in> set (splitPair c s). x \<in> set part)"
proof (induction c s rule: splitPair.induct)
  case (3 c y z s)
  show ?case
  proof (cases "y = c \<and> z = c")
    case False
    obtain h t where h: "splitPair c (z # s) = h # t" by (cases "splitPair c (z # s)") (auto simp: splitPair_not_Nil)
    then show ?thesis using 3 False by auto
  qed (use 3 in auto)
qed auto

lemma toGroups_chars:
  assumes "toGroups hex part = Some gs" "c \<in> set part"
  shows "hex c \<or> c = CHR '':''"
proof -
  let ?parts = "split_on CHR '':'' part"
  have "part \<noteq> []" using assms(2) by auto
  then have "map (parseGroup hex) ?parts = map Some gs" using assms(1) by (simp add: toGroups_def all_some_iff)
  from arg_cong [OF this, of set] have image: "parseGroup hex ` set ?parts = Some ` set gs" by simp
  have hex: "list_all hex g" if "g \<in> set ?parts" for g
  proof -
    have "parseGroup hex g \<in> Some ` set gs" using that unfolding image [symmetric] by (rule imageI)
    then show ?thesis by (auto simp: parseGroup_def split: if_splits)
  qed
  have "set part \<subseteq> set '':'' \<union> (\<Union>g \<in> set ?parts. set g)"
    using chars_join_with [of "'':''" ?parts] unfolding join_split .
  with assms(2) have "c = CHR '':'' \<or> (\<exists>g \<in> set ?parts. c \<in> set g)" by fastforce
  then show ?thesis using hex unfolding list_all_iff by blast
qed

lemma joinHalves_chars:
  assumes "joinHalves hex s tail = Some gs" "c \<in> set s"
  shows "hex c \<or> c = CHR '':''"
proof -
  have "\<forall>part \<in> set (splitPair CHR '':'' s). toGroups hex part \<noteq> None"
    using assms(1) by (auto simp: joinHalves_def split: list.splits option.splits)
  then show ?thesis using set_splitPair [OF assms(2), of "CHR '':''"] toGroups_chars by blast
qed

lemma joinHalves_colon:
  assumes "CHR '':'' \<notin> set s" "length tail \<le> 6"
  shows "joinHalves hex s tail = None"
proof -
  have "length gs \<le> 1" if "toGroups hex s = Some gs" for gs
    using that arg_cong [of "map (parseGroup hex) [s]" "map Some gs" length]
    by (auto simp: toGroups_def all_some_iff split_on_no_sep [OF assms(1)] split: if_splits)
  then show ?thesis using assms
    by (fastforce simp: joinHalves_def splitPair_none noPair_absent split: option.split)
qed

lemma upto_after: "uptoColon s @ afterColon s = s"
  by (metis afterColon_def rev_append rev_rev_ident takeWhile_dropWhile_id uptoColon_def)

text \<open>What an expanded text is made of, whichever digits and quads the parser accepts.\<close>

lemma expandIpv6_shape:
  assumes "expandIpv6 hex quad s = Some gs" and quad: "\<And>part tail. quad part = Some tail \<Longrightarrow> length tail \<le> 6 \<and> (\<exists>octets. parseCanonicalIpv4 part = Some octets)"
    and digits: "\<And>c. is_digit c \<Longrightarrow> hex c"
  shows "CHR '':'' \<in> set s" "\<forall>c \<in> set s. hex c \<or> c = CHR '':'' \<or> c = CHR ''.''" "\<not> suffix ''.'' s"
proof -
  have "CHR '':'' \<in> set s \<and> (\<forall>c \<in> set s. hex c \<or> c = CHR '':'' \<or> c = CHR ''.'') \<and> \<not> suffix ''.'' s"
  proof (cases "CHR ''.'' \<in> set (afterColon s)")
    case True
    let ?head = "if suffix ''::'' (uptoColon s) then uptoColon s else butlast (uptoColon s)"
    obtain tail where tail: "quad (afterColon s) = Some tail" "joinHalves hex ?head tail = Some gs"
      using assms(1) True by (auto simp: expandIpv6_def Let_def split: option.splits)
    obtain octets where o: "parseCanonicalIpv4 (afterColon s) = Some octets" "length tail \<le> 6" using quad [OF tail(1)] by blast
    then have d: "afterColon s = dotted octets" "octets \<noteq> []" by (auto simp: parseCanonicalIpv4_iff)
    have "CHR '':'' \<in> set ?head"
    proof (rule ccontr)
      assume "CHR '':'' \<notin> set ?head"
      from joinHalves_colon [OF this o(2), of hex] tail(2) show False by simp
    qed
    then have colon: "CHR '':'' \<in> set (uptoColon s)" by (auto split: if_splits dest: in_set_butlastD)
    have upto: "hex c \<or> c = CHR '':''" if "c \<in> set (uptoColon s)" for c
    proof -
      have ne: "dropWhile (\<lambda>c. c \<noteq> CHR '':'') (rev s) \<noteq> []"
        using colon by (auto simp: uptoColon_def simp del: dropWhile_eq_Nil_conv)
      have "last (uptoColon s) = CHR '':''" using hd_dropWhile [OF ne] ne by (simp add: uptoColon_def last_rev)
      then have "c \<in> set ?head \<or> c = CHR '':''"
        using that by (cases "uptoColon s" rule: rev_cases) auto
      then show ?thesis using joinHalves_chars [OF tail(2)] by blast
    qed
    have after: "hex c \<or> c = CHR ''.''" if "c \<in> set (afterColon s)" for c
      using that chars_join_with [of "''.''" "map show_nat octets"] show_nat_digits digits unfolding d(1) dotted_def by fastforce
    have "\<not> suffix ''.'' s" using afterColon_suffix [of "CHR ''.''" s] dotted_no_final_dot [OF d(2)] d(1) by auto
    then show ?thesis using upto after colon upto_after [of s] by (metis Un_iff set_append)
  next
    case False
    then have j: "joinHalves hex s [] = Some gs" using assms(1) by (simp add: expandIpv6_def Let_def)
    have "CHR '':'' \<in> set s"
    proof (rule ccontr)
      assume "CHR '':'' \<notin> set s"
      from joinHalves_colon [OF this, of "[]" hex] j show False by simp
    qed
    moreover have "\<not> suffix ''.'' s" using False afterColon_suffix [of "CHR ''.''" s] by (auto simp: suffix_def)
    ultimately show ?thesis using joinHalves_chars [OF j] by blast
  qed
  then show "CHR '':'' \<in> set s" "\<forall>c \<in> set s. hex c \<or> c = CHR '':'' \<or> c = CHR ''.''" "\<not> suffix ''.'' s" by blast+
qed

lemma anyQuad_canonical: "anyQuad part = Some tail \<Longrightarrow> length tail \<le> 6 \<and> (\<exists>octets. parseCanonicalIpv4 part = Some octets)"
  by (auto simp: anyQuad_def)

lemma parseIpv6_chars:
  assumes "parseIpv6 s = Some gs"
  shows "literalText s"
proof -
  have "length tail \<le> 6 \<and> (\<exists>octets. parseCanonicalIpv4 part = Some octets)"
    if "(case parseCanonicalIpv4 part of Some [a, b, c, d] \<Rightarrow> Some [push_bit 8 a OR b, push_bit 8 c OR d] | _ \<Rightarrow> None) = Some tail" for part tail
    using that by (auto split: option.splits list.splits)
  from expandIpv6_shape(2) [OF assms [unfolded parseIpv6_def] this] show ?thesis
    by (auto simp: literalText_def lowerHexChar_def)
qed

lemma lower_char_id:
  "lower_char c = CHR '':'' \<longleftrightarrow> c = CHR '':''" "lower_char c = CHR ''.'' \<longleftrightarrow> c = CHR ''.''" "lower_char c = CHR ''['' \<longleftrightarrow> c = CHR ''[''"
  "lower_char c = CHR ''%'' \<longleftrightarrow> c = CHR ''%''"
proof -
  have other: "lower_char c = d \<longleftrightarrow> c = d" if "\<not> (65 \<le> (of_char d :: nat) \<and> (of_char d :: nat) \<le> 90 \<or> 97 \<le> (of_char d :: nat) \<and> (of_char d :: nat) \<le> 122)" for d
  proof (cases "65 \<le> (of_char c :: nat) \<and> (of_char c :: nat) \<le> 90")
    case True
    then have "(of_char (lower_char c) :: nat) = of_char c + 32" by (simp add: lower_char_def)
    then show ?thesis using that True by auto
  qed (auto simp: lower_char_def)
  show "lower_char c = CHR '':'' \<longleftrightarrow> c = CHR '':''" "lower_char c = CHR ''.'' \<longleftrightarrow> c = CHR ''.''" "lower_char c = CHR ''['' \<longleftrightarrow> c = CHR ''[''"
    "lower_char c = CHR ''%'' \<longleftrightarrow> c = CHR ''%''"
    by (rule other; simp)+
qed

lemma hex_plain: "is_hex c \<or> c = CHR '':'' \<or> c = CHR ''.'' \<or> zoneChar c \<or> c = CHR ''%'' \<Longrightarrow> \<not> is_ws c \<and> c \<noteq> CHR ''[''"
  by (auto simp: is_hex_def zoneChar_def is_digit_def is_ws_def lower_char_def split: if_splits)

text \<open>A literal that Node recognises and the guard accepts has an address.\<close>

lemma accepted_literal:
  assumes ip: "isIP a \<noteq> 0" and free: "\<not> isRestrictedNetworkHost a"
  shows "\<exists>v. literalToBigInt a = Some v"
proof (cases "parseCanonicalIpv4 a")
  case (Some octets)
  then show ?thesis using literal_dotted by (auto simp: parseCanonicalIpv4_iff)
next
  case None
  define addr where "addr = takeWhile (\<lambda>c. c \<noteq> CHR ''%'') a"
  define zone where "zone = dropWhile (\<lambda>c. c \<noteq> CHR ''%'') a"
  obtain gs where gs: "expandIpv6 is_hex anyQuad addr = Some gs" and z: "zone = [] \<or> tl zone \<noteq> [] \<and> list_all zoneChar (tl zone)"
    using ip None by (auto simp: isIP_def isIPv6_def Let_def addr_def zone_def split: if_splits)
  have a: "a = addr @ zone" by (simp add: addr_def zone_def)
  have digit: "is_hex c" if "is_digit c" for c using that by (simp add: is_hex_def)
  note shape = expandIpv6_shape [OF gs anyQuad_canonical digit]
  have zonehd: "zone \<noteq> [] \<Longrightarrow> zone = CHR ''%'' # tl zone"
    using hd_dropWhile [of "\<lambda>c. c \<noteq> CHR ''%''" a] by (cases zone) (auto simp: zone_def)
  have plain: "\<not> is_ws c \<and> c \<noteq> CHR ''[''" if "c \<in> set a" for c
  proof -
    have "c \<in> set addr \<or> c = CHR ''%'' \<or> c \<in> set (tl zone)" using that a zonehd by (cases zone) auto
    then show ?thesis using hex_plain [of c] shape(2) z by (auto simp: list_all_iff)
  qed
  have "trim a = a" using plain by (intro trim_no_ws) blast
  moreover have "\<not> prefix ''['' (toLowerCase a)"
  proof (cases a)
    case (Cons c b)
    then have "c \<noteq> CHR ''[''" using plain [of c] by simp
    then show ?thesis using lower_char_id(3) [of c] Cons by (simp add: toLowerCase_def)
  qed (simp add: toLowerCase_def)
  ultimately have t: "unbracket (toLowerCase (trim a)) = toLowerCase a" by (simp add: unbracket_def)
  define name where "name = (if suffix ''.'' (toLowerCase a) then butlast (toLowerCase a) else toLowerCase a)"
  have colon: "CHR '':'' \<in> set name"
  proof -
    have "CHR '':'' \<in> set (toLowerCase a)"
      using shape(1) lower_char_id(1) [of "CHR '':''"] by (force simp: a toLowerCase_def)
    then show ?thesis by (cases "toLowerCase a" rule: rev_cases) (auto simp: name_def)
  qed
  then obtain hs where hs: "parseIpv6 name = Some hs"
    using free by (auto simp: isRestrictedNetworkHost_def Let_def t name_def [symmetric] split: option.splits if_splits)
  have "CHR ''%'' \<notin> set name" using parseIpv6_chars [OF hs] by (auto simp: literalText_def lowerHexChar_def is_digit_def)
  moreover have "CHR ''%'' \<in> set name" if "zone \<noteq> []"
  proof -
    have "toLowerCase a = toLowerCase addr @ lower_char CHR ''%'' # toLowerCase (tl zone)"
      using zonehd [OF that] a by (metis list.simps(9) map_append toLowerCase_def)
    moreover have "toLowerCase (tl zone) \<noteq> []" using z that by (simp add: toLowerCase_def)
    ultimately show ?thesis using lower_char_id(4) [of "CHR ''%''"] by (simp add: name_def butlast_append)
  qed
  ultimately have "a = addr" using a by auto
  then have "\<not> suffix ''.'' a" using shape(3) by simp
  then have "\<not> suffix ''.'' (toLowerCase a)"
  proof (cases a rule: rev_cases)
    case (snoc b c)
    then have "c \<noteq> CHR ''.''" using \<open>\<not> suffix ''.'' a\<close> by simp
    then show ?thesis using lower_char_id(2) [of c] snoc by (simp add: toLowerCase_def)
  qed (simp add: toLowerCase_def)
  then show ?thesis using hs colon by (simp add: literalToBigInt_def Let_def t name_def)
qed

text \<open>
  C9: A client that guards its address dials no address of the panel's own host and no private address its
  operator did not allow.  Whatever the resolver answers for a name, each address the socket may be connected to
  is a literal outside the restricted ranges and, when an allowlist is set, outside the private networks or
  inside one of its ranges.
\<close>

theorem rcon_dials_only_allowed:
  assumes guard: "ro_refuse opts" and dial: "connectTargets opts resolve = Inr targets" and a: "a \<in> set targets"
    and resolver: "\<forall>name addresses. resolve name = Some addresses \<longrightarrow> list_all (\<lambda>a. isIP a \<noteq> 0) addresses"
  shows "\<exists>v. literalToBigInt a = Some v \<and> \<not> restrictedAddress v
    \<and> (\<forall>cidrs. ro_allowlist opts = Some cidrs \<and> privateAddress v \<longrightarrow> list_ex (isInCidr v) cidrs)"
proof -
  have ok: "isIP a \<noteq> 0 \<and> \<not> isRestrictedNetworkHost a \<and> isPrivateHostAllowed a (ro_allowlist opts)"
  proof (cases "isIP (ro_host opts) = 0")
    case False
    then show ?thesis using guard dial a by (auto simp: connectTargets_def createConnection_def Let_def split: if_splits)
  next
    case True
    then have "resolve (ro_host opts) = Some targets" "refuseResolvedAddresses targets (ro_allowlist opts) = None"
      using guard dial
      by (auto simp: connectTargets_def createConnection_def makeRestrictedAddressLookup_def Let_def split: if_splits option.splits)
    then show ?thesis using resolver a by (auto simp: refuseResolvedAddresses_def list_ex_iff list_all_iff split: if_splits)
  qed
  then obtain v where v: "literalToBigInt a = Some v" using accepted_literal by blast
  then have "\<not> restrictedAddress v" using ok literal_restricted by simp
  moreover have "list_ex (isInCidr v) cidrs" if "ro_allowlist opts = Some cidrs" "privateAddress v" for cidrs
    using ok v that private_literal by (auto simp: isPrivateHostAllowed_def split: if_splits)
  ultimately show ?thesis using v by blast
qed

section \<open>Calls are settled in order, once\<close>

definition runningCalls :: "rcon_client \<Rightarrow> nat list" where
  "runningCalls cl = (case cl_running cl of None \<Rightarrow> [] | Some k \<Rightarrow> [k])"

text \<open>What is pending: the probe, the id and the call of each command.\<close>

definition pendingKeys :: "(nat \<times> rcon_pending) list \<Rightarrow> (nat \<times> nat \<times> nat) list" where
  "pendingKeys m = map (\<lambda>(probeId, p). (probeId, pd_id p, pd_call p)) m"

fun idsOf :: "(nat \<times> nat \<times> nat) list \<Rightarrow> nat list" where
  "idsOf [] = []"
| "idsOf ((r, i, k) # ks) = i # r # idsOf ks"

text \<open>
  The invariant of a client: every call is settled, running or queued, in the order of the calls; what is
  pending belongs to the running call, or to a settled one once the ids have run out; a running call is
  pending; ids are below the counter and no id is used twice.
\<close>

definition ordered :: "rcon_client \<Rightarrow> bool" where
  "ordered cl \<longleftrightarrow> map fst (cl_settled cl) @ runningCalls cl @ map fst (cl_queue cl) = [0..<cl_calls cl]"

fun keyOk :: "rcon_client \<Rightarrow> nat \<times> nat \<times> nat \<Rightarrow> bool" where
  "keyOk cl (r, i, k) \<longleftrightarrow>
     (k \<in> fst ` set (cl_settled cl) \<or> cl_running cl = Some k)
     \<and> (cl_nextId cl \<le> MAX_INT32 \<longrightarrow> cl_running cl = Some k) \<and> r = Suc i \<and> r \<le> cl_nextId cl"

definition keysOk :: "rcon_client \<Rightarrow> (nat \<times> nat \<times> nat) list \<Rightarrow> bool" where
  "keysOk cl ks \<longleftrightarrow>
     (\<forall>e \<in> set ks. keyOk cl e)
     \<and> set_option (cl_running cl) \<subseteq> (snd \<circ> snd) ` set ks
     \<and> distinct (idsOf ks) \<and> distinct (map (snd \<circ> snd) ks)"

definition clientOk :: "rcon_client \<Rightarrow> bool" where
  "clientOk cl \<longleftrightarrow> ordered cl \<and> keysOk cl (pendingKeys (cl_pending cl))"

lemma settle_fields [simp]:
  "cl_queue (settle k out cl) = cl_queue cl" "cl_calls (settle k out cl) = cl_calls cl"
  "cl_pending (settle k out cl) = cl_pending cl" "cl_nextId (settle k out cl) = cl_nextId cl"
  "cl_socket (settle k out cl) = cl_socket cl" "cl_closed (settle k out cl) = cl_closed cl"
  "cl_packetHandler (settle k out cl) = cl_packetHandler cl" "cl_written (settle k out cl) = cl_written cl"
  "cl_broadcasts (settle k out cl) = cl_broadcasts cl" "cl_stream (settle k out cl) = cl_stream cl"
  by (simp_all add: settle_def)

lemma clientOk_new: "clientOk newClient"
  by (simp add: clientOk_def ordered_def keysOk_def newClient_def runningCalls_def pendingKeys_def)

lemma settle_ordered:
  assumes "ordered cl" "k \<in> fst ` set (cl_settled cl) \<or> cl_running cl = Some k"
  shows "ordered (settle k out cl)"
  using assms by (auto simp: ordered_def settle_def runningCalls_def split: option.splits)

lemma settled_not_running:
  assumes "ordered cl" "cl_running cl = Some k"
  shows "k \<notin> fst ` set (cl_settled cl)"
proof -
  have "distinct (map fst (cl_settled cl) @ runningCalls cl @ map fst (cl_queue cl))"
    using assms(1) unfolding ordered_def by simp
  then show ?thesis using assms(2) by (auto simp: runningCalls_def)
qed

lemma clientOk_frame:
  assumes "clientOk cl" "cl_settled cl' = cl_settled cl" "cl_running cl' = cl_running cl" "cl_queue cl' = cl_queue cl"
    "cl_calls cl' = cl_calls cl" "pendingKeys (cl_pending cl') = pendingKeys (cl_pending cl)" "cl_nextId cl \<le> cl_nextId cl'"
  shows "clientOk cl'"
proof -
  have "ordered cl'" using assms(1-5) by (simp add: clientOk_def ordered_def runningCalls_def)
  moreover have "keyOk cl' e" if "keyOk cl e" for e using that assms(2,3,7) by (cases e) auto
  then have "keysOk cl' (pendingKeys (cl_pending cl'))"
    using assms by (simp add: clientOk_def keysOk_def)
  ultimately show ?thesis by (simp add: clientOk_def)
qed

lemma pendingKeys_del: "pendingKeys (map_del r m) = filter (\<lambda>e. fst e \<noteq> r) (pendingKeys m)"
  by (induction m) (auto simp: pendingKeys_def map_del_def)

lemma pendingKeys_mem: "(r, p) \<in> set m \<Longrightarrow> (r, pd_id p, pd_call p) \<in> set (pendingKeys m)"
  by (force simp: pendingKeys_def)

lemma fst_pendingKeys: "map fst (pendingKeys m) = map fst m"
  by (simp add: pendingKeys_def comp_def case_prod_unfold)

lemma set_idsOf: "set (idsOf ks) = (fst \<circ> snd) ` set ks \<union> fst ` set ks"
  by (induction ks rule: idsOf.induct) auto

lemma idsOf_apart:
  assumes "distinct (idsOf ks)"
  shows "distinct (map fst ks) \<and> (fst \<circ> snd) ` set ks \<inter> fst ` set ks = {}"
  using assms
  by (induction ks rule: idsOf.induct) (auto simp: set_idsOf)

lemma idsOf_filter: "distinct (idsOf ks) \<Longrightarrow> distinct (idsOf (filter P ks))"
  by (induction ks rule: idsOf.induct) (auto simp: set_idsOf)

text \<open>A command leaves the map and its call is settled: by its probe's echo or by its timer.\<close>

lemma settle_removed:
  assumes ok: "clientOk cl" and p: "(r, p) \<in> set (cl_pending cl)"
  shows "clientOk (settle (pd_call p) out (cl\<lparr>cl_pending := map_del r (cl_pending cl)\<rparr>))"
proof -
  let ?k = "pd_call p"
  let ?cl = "cl\<lparr>cl_pending := map_del r (cl_pending cl)\<rparr>"
  let ?ks = "pendingKeys (cl_pending cl)"
  let ?ks' = "filter (\<lambda>e. fst e \<noteq> r) ?ks"
  have ord: "ordered cl" and ks: "keysOk cl ?ks" using ok by (simp_all add: clientOk_def)
  have mem: "(r, pd_id p, ?k) \<in> set ?ks" using p by (rule pendingKeys_mem)
  have inj: "inj_on fst (set ?ks)" "inj_on (snd \<circ> snd) (set ?ks)"
    using ks idsOf_apart [of ?ks] by (auto simp: keysOk_def distinct_map)
  have split: "e \<in> set ?ks' \<longleftrightarrow> e \<in> set ?ks \<and> snd (snd e) \<noteq> ?k" for e
    using inj_onD [OF inj(1) _ _ mem, of e] inj_onD [OF inj(2) _ _ mem, of e] by (cases e) auto
  have runs: "cl_running (settle ?k out ?cl) = (if cl_running cl = Some ?k then None else cl_running cl)"
    using settled_not_running [OF ord] by (auto simp: settle_def)
  have settled: "fst ` set (cl_settled (settle ?k out ?cl)) = insert ?k (fst ` set (cl_settled cl))"
    by (auto simp: settle_def)
  have "ordered (settle ?k out ?cl)"
    using ord ks mem by (intro settle_ordered) (fastforce simp: ordered_def runningCalls_def keysOk_def)+
  moreover have "set_option (if cl_running cl = Some ?k then None else cl_running cl) \<subseteq> (snd \<circ> snd) ` set ?ks'"
  proof
    fix b
    assume "b \<in> set_option (if cl_running cl = Some ?k then None else cl_running cl)"
    then have b: "cl_running cl = Some b" "b \<noteq> ?k" by (auto split: if_splits)
    then obtain e where e: "e \<in> set ?ks" "snd (snd e) = b" using ks by (force simp: keysOk_def)
    then have "e \<in> set ?ks'" using split [of e] b by simp
    then show "b \<in> (snd \<circ> snd) ` set ?ks'" using e(2) by (intro image_eqI [of _ _ e]) simp_all
  qed
  moreover have "distinct (idsOf ?ks')" "distinct (map (snd \<circ> snd) ?ks')"
    using ks by (simp_all add: keysOk_def idsOf_filter distinct_map_filter)
  moreover have "keyOk (settle ?k out ?cl) e" if "e \<in> set ?ks'" for e
  proof -
    obtain a i j where e: "e = (a, i, j)" by (cases e) auto
    have "keyOk cl e" "j \<noteq> ?k" using that split [of e] ks by (auto simp: keysOk_def e)
    then show ?thesis using runs settled by (auto simp: e)
  qed
  ultimately show ?thesis unfolding clientOk_def keysOk_def settle_fields runs by (simp add: pendingKeys_del)
qed

text \<open>A body is added to a command's chunks.\<close>

lemma pendingKeys_put:
  "(r, p) \<in> set m \<Longrightarrow> distinct (map fst m) \<Longrightarrow> pendingKeys (map_put r (p\<lparr>pd_chunks := cs\<rparr>) m) = pendingKeys m"
proof (induction m)
  case (Cons e m)
  obtain r' q where e: "e = (r', q)" by fastforce
  show ?case
  proof (cases "r' = r")
    case True
    then have "q = p" using Cons.prems by (auto simp: e rev_image_eqI)
    then show ?thesis using True by (simp add: e pendingKeys_def)
  next
    case False
    then show ?thesis using Cons by (simp add: e pendingKeys_def)
  qed
qed simp

lemma distinct_pending: "clientOk cl \<Longrightarrow> distinct (map fst (cl_pending cl))"
  using idsOf_apart [of "pendingKeys (cl_pending cl)"] by (simp add: clientOk_def keysOk_def fst_pendingKeys)

lemma deliverPacket_ok: "clientOk cl \<Longrightarrow> set m \<subseteq> set (cl_pending cl) \<Longrightarrow> clientOk (deliverPacket p m cl)"
proof (induction m)
  case (Cons e m)
  obtain r q where e: "e = (r, q)" by fastforce
  have "clientOk (cl\<lparr>cl_pending := map_put r (q\<lparr>pd_chunks := cs\<rparr>) (cl_pending cl)\<rparr>)" for cs
    using Cons.prems by (intro clientOk_frame [OF Cons.prems(1)]) (auto simp: e pendingKeys_put distinct_pending)
  moreover have "clientOk (settle (pd_call q) out (cl\<lparr>cl_pending := map_del r (cl_pending cl)\<rparr>))" for out
    using Cons.prems by (intro settle_removed) (auto simp: e)
  ultimately show ?case using Cons by (simp add: e)
qed simp

lemma finishAuth_ok: "clientOk cl \<Longrightarrow> clientOk (finishAuth err cl)"
  by (rule clientOk_frame [of cl]) (simp_all add: finishAuth_def keepaliveStart_def Let_def)

lemma handlePacket_ok: "clientOk cl \<Longrightarrow> clientOk (handlePacket cl p)"
proof -
  assume ok: "clientOk cl"
  have "clientOk (cl\<lparr>cl_broadcasts := bs\<rparr>)" for bs by (rule clientOk_frame [OF ok]) simp_all
  moreover have "clientOk (cl\<lparr>cl_packetHandler := h\<rparr>)" for h by (rule clientOk_frame [OF ok]) simp_all
  ultimately show ?thesis using ok by (auto simp: handlePacket_def onAuthPacket_def deliverPacket_ok finishAuth_ok split: option.split)
qed

lemma idsOf_append: "idsOf (as @ bs) = idsOf as @ idsOf bs"
  by (induction as rule: idsOf.induct) auto

text \<open>The next call runs and its command is put into the map.\<close>

lemma keysOk_added:
  assumes ok: "keysOk cl (pendingKeys (cl_pending cl))" and idle: "cl_running cl = None" and fresh: "k \<notin> fst ` set (cl_settled cl)"
    and c: "fst ` set (cl_settled cl) \<subseteq> fst ` set (cl_settled c)" "cl_nextId c = cl_nextId cl + 2"
      "cl_running c = Some k \<or> cl_running c = None \<and> k \<in> fst ` set (cl_settled c) \<and> MAX_INT32 < cl_nextId c"
    and p: "pd_id p = cl_nextId cl + 1" "pd_call p = k"
  shows "keysOk c (pendingKeys (map_put (cl_nextId cl + 2) p (cl_pending cl)))"
proof -
  let ?ks = "pendingKeys (cl_pending cl)"
  have bound: "keyOk cl e \<and> snd (snd e) \<in> fst ` set (cl_settled cl) \<and> MAX_INT32 < cl_nextId cl" if "e \<in> set ?ks" for e
    using ok idle that by (cases e) (fastforce simp: keysOk_def not_le)
  have ids: "\<forall>i \<in> set (idsOf ?ks). i \<le> cl_nextId cl" using bound by (fastforce simp: set_idsOf)
  moreover have "fst ` set (cl_pending cl) \<subseteq> set (idsOf ?ks)"
    using fst_pendingKeys [of "cl_pending cl"] by (metis Un_upper2 list.set_map set_idsOf)
  ultimately have "cl_nextId cl + 2 \<notin> fst ` set (cl_pending cl)" by fastforce
  then have ks: "pendingKeys (map_put (cl_nextId cl + 2) p (cl_pending cl)) = ?ks @ [(cl_nextId cl + 2, cl_nextId cl + 1, k)]"
    by (simp add: map_put_fresh pendingKeys_def p)
  have "distinct (idsOf (?ks @ [(cl_nextId cl + 2, cl_nextId cl + 1, k)]))"
    using ok ids by (auto simp: idsOf_append keysOk_def)
  moreover have "distinct (map (snd \<circ> snd) (?ks @ [(cl_nextId cl + 2, cl_nextId cl + 1, k)]))"
    using ok bound fresh by (auto simp: keysOk_def)
  moreover have "keyOk c e" if "e \<in> set ?ks" for e
    using bound [OF that] idle c(1,2) by (cases e) auto
  moreover have "keyOk c (cl_nextId cl + 2, cl_nextId cl + 1, k)" using c by auto
  ultimately show ?thesis using c(3) unfolding ks keysOk_def by auto
qed

lemma runNext_ok: "clientOk cl \<Longrightarrow> clientOk (runNext now cl)"
proof (cases "cl_running cl = None \<and> cl_queue cl \<noteq> []")
  case True
  assume ok: "clientOk cl"
  obtain k command rest where queue: "cl_queue cl = (k, command) # rest" using True by (cases "cl_queue cl") auto
  let ?cl = "cl\<lparr>cl_queue := rest, cl_running := Some k\<rparr>"
  have ord: "ordered cl" and ks: "keysOk cl (pendingKeys (cl_pending cl))" using ok by (simp_all add: clientOk_def)
  have "distinct (map fst (cl_settled cl) @ runningCalls cl @ map fst (cl_queue cl))"
    using ord unfolding ordered_def by simp
  then have fresh: "k \<notin> fst ` set (cl_settled cl)" by (auto simp: queue)
  have ord': "ordered c" if "cl_settled c = cl_settled cl" "cl_running c = Some k" "cl_queue c = rest" "cl_calls c = cl_calls cl" for c
    using ord True queue that by (simp add: ordered_def runningCalls_def)
  have "clientOk (settle k out ?cl)" for out
  proof -
    have "ordered (settle k out ?cl)" by (intro settle_ordered ord') simp_all
    moreover have "keysOk (settle k out ?cl) (pendingKeys (cl_pending cl))"
      using ks True fresh by (auto simp: keysOk_def settle_def)
    ultimately show ?thesis by (simp add: clientOk_def)
  qed
  moreover have "clientOk c" "MAX_INT32 < cl_nextId c \<Longrightarrow> clientOk (settle k out c)"
    if c: "cl_settled c = cl_settled cl" "cl_running c = Some k" "cl_queue c = rest" "cl_calls c = cl_calls cl"
      "cl_nextId c = cl_nextId cl + 2" "cl_pending c = map_put (cl_nextId cl + 2) p (cl_pending cl)"
      and p: "pd_id p = cl_nextId cl + 1" "pd_call p = k" for c p out
  proof -
    show "clientOk c" using ord' [OF c(1-4)] keysOk_added [OF ks _ fresh, of c p] True c p by (simp add: clientOk_def)
    assume "MAX_INT32 < cl_nextId c"
    then have "keysOk (settle k out c) (pendingKeys (cl_pending c))"
      unfolding c(6) using True c p fresh by (intro keysOk_added [OF ks]) (auto simp: settle_def)
    moreover have "ordered (settle k out c)" using ord' [OF c(1-4)] c(2) by (intro settle_ordered) simp_all
    ultimately show "clientOk (settle k out c)" by (simp add: clientOk_def)
  qed
  ultimately show ?thesis using True queue by (auto simp: runNext_def execNow_def Let_def writePacket_def)
qed (auto simp: runNext_def split: option.split list.split)

text \<open>Closing settles the call that runs.\<close>

lemma foldl_settle:
  assumes "ordered cl" "\<forall>(r, p) \<in> set m. pd_call p \<in> fst ` set (cl_settled cl) \<or> cl_running cl = Some (pd_call p)"
  shows "let c = foldl (\<lambda>c (probeId, p). settle (pd_call p) (Rejected err) c) cl m in
    ordered c \<and> cl_queue c = cl_queue cl \<and> cl_calls c = cl_calls cl \<and> cl_pending c = cl_pending cl
    \<and> (cl_running c = None \<or> cl_running c = cl_running cl \<and> (\<forall>(r, p) \<in> set m. cl_running cl \<noteq> Some (pd_call p)))"
  using assms
proof (induction m arbitrary: cl)
  case (Cons e m)
  obtain r p where e: "e = (r, p)" by fastforce
  let ?cl = "settle (pd_call p) (Rejected err) cl"
  have mem: "pd_call p \<in> fst ` set (cl_settled cl) \<or> cl_running cl = Some (pd_call p)" using Cons.prems(2) by (simp add: e)
  have runs: "cl_running ?cl = (if cl_running cl = Some (pd_call p) then None else cl_running cl)"
    using settled_not_running [OF Cons.prems(1)] by (auto simp: settle_def)
  have "fst ` set (cl_settled ?cl) = insert (pd_call p) (fst ` set (cl_settled cl))" by (auto simp: settle_def)
  then have rest: "\<forall>(r, q) \<in> set m. pd_call q \<in> fst ` set (cl_settled ?cl) \<or> cl_running ?cl = Some (pd_call q)"
    using Cons.prems(2) unfolding runs by auto
  define c where "c = foldl (\<lambda>c (probeId, p). settle (pd_call p) (Rejected err) c) ?cl m"
  have c: "foldl (\<lambda>c (probeId, p). settle (pd_call p) (Rejected err) c) cl (e # m) = c" by (simp add: c_def e)
  have "ordered c \<and> cl_queue c = cl_queue cl \<and> cl_calls c = cl_calls cl \<and> cl_pending c = cl_pending cl
      \<and> (cl_running c = None \<or> cl_running c = cl_running ?cl \<and> (\<forall>(r, p) \<in> set m. cl_running ?cl \<noteq> Some (pd_call p)))"
    using Cons.IH [OF settle_ordered [OF Cons.prems(1) mem, of "Rejected err"] rest] by (simp add: Let_def c_def)
  then show ?case unfolding c Let_def runs by (auto simp: e split: if_splits)
qed simp

lemma rejectAll_ok:
  assumes "clientOk cl"
  shows "clientOk (rejectAll err cl)" "cl_running (rejectAll err cl) = None" "cl_pending (rejectAll err cl) = []"
    "cl_queue (rejectAll err cl) = cl_queue cl" "cl_calls (rejectAll err cl) = cl_calls cl"
proof -
  let ?m = "cl_pending cl"
  let ?c = "foldl (\<lambda>c (probeId, p). settle (pd_call p) (Rejected err) c) cl ?m"
  have ord: "ordered cl" and ks: "keysOk cl (pendingKeys ?m)" using assms by (simp_all add: clientOk_def)
  have "\<forall>(r, p) \<in> set ?m. pd_call p \<in> fst ` set (cl_settled cl) \<or> cl_running cl = Some (pd_call p)"
    using ks pendingKeys_mem by (fastforce simp: keysOk_def)
  from foldl_settle [OF ord this, of err]
  have c: "ordered ?c" "cl_queue ?c = cl_queue cl" "cl_calls ?c = cl_calls cl"
      "cl_running ?c = None \<or> cl_running ?c = cl_running cl \<and> (\<forall>(r, p) \<in> set ?m. cl_running cl \<noteq> Some (pd_call p))"
    by (simp_all add: Let_def)
  have "\<exists>(r, p) \<in> set ?m. pd_call p = k" if "cl_running cl = Some k" for k
    using ks that by (fastforce simp: keysOk_def pendingKeys_def)
  then have idle: "cl_running ?c = None" using c(4) by (cases "cl_running cl") fastforce+
  then show "cl_running (rejectAll err cl) = None" "cl_pending (rejectAll err cl) = []"
    "cl_queue (rejectAll err cl) = cl_queue cl" "cl_calls (rejectAll err cl) = cl_calls cl"
    using c(2,3) by (simp_all add: rejectAll_def)
  show "clientOk (rejectAll err cl)"
    using c(1) idle by (simp add: clientOk_def ordered_def keysOk_def rejectAll_def runningCalls_def pendingKeys_def)
qed

lemma close_ok:
  assumes "clientOk cl"
  shows "clientOk (close cl)" "cl_running (close cl) = None" "cl_queue (close cl) = cl_queue cl" "cl_calls (close cl) = cl_calls cl"
proof -
  have ok: "clientOk (cl\<lparr>cl_closed := True, cl_keepalive := False\<rparr>)" by (rule clientOk_frame [OF assms]) simp_all
  show "clientOk (close cl)" unfolding close_def by (rule clientOk_frame [OF rejectAll_ok(1) [OF ok, of RconClosed]]) simp_all
  show "cl_running (close cl) = None" "cl_queue (close cl) = cl_queue cl" "cl_calls (close cl) = cl_calls cl"
    using rejectAll_ok(2,4,5) [OF ok] by (simp_all add: close_def)
qed

lemma onData_ok: "clientOk cl \<Longrightarrow> clientOk (onData chunk cl)"
proof -
  assume ok: "clientOk cl"
  have fold: "clientOk c \<Longrightarrow> clientOk (foldl handlePacket c ps)" for c ps
    by (induction ps arbitrary: c) (simp_all add: handlePacket_ok)
  have "clientOk (cl\<lparr>cl_stream := s\<rparr>)" for s by (rule clientOk_frame [OF ok]) simp_all
  then show ?thesis using ok fold close_ok(1) by (auto simp: onData_def split: option.split)
qed

lemma onSocketClose_ok: "clientOk cl \<Longrightarrow> clientOk (onSocketClose cl)"
  by (cases "cl_attached cl")
    (simp_all add: onSocketClose_def clientOk_frame [OF rejectAll_ok(1) [of cl RconSocketClosed]])

lemma commandTimeout_ok: "clientOk cl \<Longrightarrow> clientOk (commandTimeout r cl)"
proof -
  assume ok: "clientOk cl"
  show ?thesis
  proof (cases "map_of (cl_pending cl) r")
    case (Some p)
    then have p: "(r, p) \<in> set (cl_pending cl)" by (rule map_of_SomeD)
    have "pd_id p \<notin> fst ` set (cl_pending cl)"
    proof -
      let ?ks = "pendingKeys (cl_pending cl)"
      have "(fst \<circ> snd) ` set ?ks \<inter> fst ` set ?ks = {}" using ok idsOf_apart [of ?ks] by (simp add: clientOk_def keysOk_def)
      moreover have "pd_id p \<in> (fst \<circ> snd) ` set ?ks" using pendingKeys_mem [OF p] by force
      moreover have "fst ` set ?ks = fst ` set (cl_pending cl)" using fst_pendingKeys by (metis list.set_map)
      ultimately show ?thesis by auto
    qed
    then have "map_del (pd_id p) (map_del r (cl_pending cl)) = map_del r (cl_pending cl)"
      by (intro map_del_absent) auto
    then show ?thesis using settle_removed [OF ok p] by (simp add: commandTimeout_def Some)
  qed (simp add: commandTimeout_def ok)
qed

lemma exec_ok: "clientOk cl \<Longrightarrow> clientOk (exec command cl)"
  by (auto simp: clientOk_def ordered_def runningCalls_def keysOk_def exec_def)

lemma clientStep_ok: "clientOk cl \<Longrightarrow> clientOk (clientStep opts cl ev)"
proof (cases ev)
  case (Connect resolve)
  then show "clientOk cl \<Longrightarrow> ?thesis"
    by (elim clientOk_frame) (simp_all add: connect_def split: sum.split)
next
  case Connected
  then show "clientOk cl \<Longrightarrow> ?thesis"
    by (elim clientOk_frame) (simp_all add: onConnect_def authenticate_def writePacket_def Let_def)
next
  case (DialFailed err)
  then show "clientOk cl \<Longrightarrow> ?thesis" by (elim clientOk_frame) (simp_all add: onDialFailed_def)
qed (simp_all add: authTimeout_def finishAuth_ok exec_ok runNext_ok commandTimeout_ok onData_ok onSocketClose_ok close_ok keepaliveTick_def)

lemma runClient_ok: "clientOk (runClient opts evs)"
proof -
  have "clientOk cl \<Longrightarrow> clientOk (foldl (clientStep opts) cl evs)" for cl
    by (induction evs arbitrary: cl) (simp_all add: clientStep_ok)
  then show ?thesis by (simp add: runClient_def clientOk_new)
qed

section \<open>After closing, the queue drains\<close>

lemma runNext_closed:
  assumes "clientOk cl" "cl_closed cl" "cl_running cl = None"
  shows "cl_closed (runNext now cl)" "cl_running (runNext now cl) = None"
    "cl_queue (runNext now cl) = tl (cl_queue cl)" "cl_calls (runNext now cl) = cl_calls cl"
proof -
  have "cl_closed (runNext now cl) \<and> cl_running (runNext now cl) = None \<and> cl_queue (runNext now cl) = tl (cl_queue cl)
      \<and> cl_calls (runNext now cl) = cl_calls cl"
  proof (cases "cl_queue cl")
    case (Cons e rest)
    have "distinct (map fst (cl_settled cl) @ runningCalls cl @ map fst (cl_queue cl))"
      using assms(1) unfolding clientOk_def ordered_def by simp
    then have "fst e \<notin> fst ` set (cl_settled cl)" by (auto simp: Cons)
    then show ?thesis using assms(2,3) Cons by (cases e) (simp add: runNext_def execNow_def settle_def)
  qed (simp add: runNext_def assms)
  then show "cl_closed (runNext now cl)" "cl_running (runNext now cl) = None"
    "cl_queue (runNext now cl) = tl (cl_queue cl)" "cl_calls (runNext now cl) = cl_calls cl" by blast+
qed

lemma drained:
  assumes "clientOk cl" "cl_closed cl" "cl_running cl = None" "length (cl_queue cl) \<le> n"
  shows "map fst (cl_settled (foldl (clientStep opts) cl (replicate n (RunNext now)))) = [0..<cl_calls cl]"
  using assms
proof (induction n arbitrary: cl)
  case 0
  then show ?case by (simp add: clientOk_def ordered_def runningCalls_def)
next
  case (Suc n)
  have "length (cl_queue (runNext now cl)) \<le> n" using Suc.prems by (simp add: runNext_closed(3))
  with Suc show ?case by (simp add: runNext_ok runNext_closed)
qed

lemma settle_flags: "cl_closed (foldl (\<lambda>c (probeId, p). settle (pd_call p) out c) cl m) = cl_closed cl"
  by (induction m arbitrary: cl) (simp_all add: case_prod_unfold)

lemma queue_bound: "clientOk cl \<Longrightarrow> length (cl_queue cl) \<le> cl_calls cl"
proof -
  assume "clientOk cl"
  then have "map fst (cl_settled cl) @ runningCalls cl @ map fst (cl_queue cl) = [0..<cl_calls cl]"
    by (simp add: clientOk_def ordered_def)
  from arg_cong [OF this, of length] show ?thesis by simp
qed

section \<open>The answer to a command\<close>

definition isReply :: "nat \<Rightarrow> rcon_packet \<Rightarrow> bool" where
  "isReply i p \<longleftrightarrow> pk_type p = SERVERDATA_RESPONSE_VALUE \<and> sint (pk_id p) = int i"

definition bodiesOf :: "nat \<Rightarrow> rcon_packet list \<Rightarrow> nat list list" where
  "bodiesOf i ps = map (\<lambda>p. decodeUtf8 (pk_body p)) (filter (isReply i) ps)"

definition chats :: "rcon_packet list \<Rightarrow> nat list list" where
  "chats ps = map (\<lambda>p. decodeUtf8 (pk_body p)) (filter (\<lambda>p. pk_type p = SERVERDATA_CHAT_VALUE) ps)"

lemma chat_not_reply: "SERVERDATA_CHAT_VALUE \<noteq> SERVERDATA_RESPONSE_VALUE"
  by (simp add: SERVERDATA_CHAT_VALUE_def SERVERDATA_RESPONSE_VALUE_def)

lemma before_echo:
  assumes "cl_packetHandler cl = None" "cl_pending cl = [(Suc i, \<lparr>pd_id = i, pd_command = command, pd_chunks = cs, pd_call = k\<rparr>)]"
    "\<forall>p \<in> set ps. \<not> isReply (Suc i) p"
  shows "foldl handlePacket cl ps = cl\<lparr>cl_broadcasts := cl_broadcasts cl @ chats ps,
    cl_pending := [(Suc i, \<lparr>pd_id = i, pd_command = command, pd_chunks = cs @ bodiesOf i ps, pd_call = k\<rparr>)]\<rparr>"
  using assms
proof (induction ps arbitrary: cl cs)
  case Nil
  then show ?case by (simp add: chats_def bodiesOf_def)
next
  case (Cons p ps)
  have "handlePacket cl p = cl\<lparr>cl_broadcasts := cl_broadcasts cl @ chats [p],
      cl_pending := [(Suc i, \<lparr>pd_id = i, pd_command = command, pd_chunks = cs @ bodiesOf i [p], pd_call = k\<rparr>)]\<rparr>"
    using Cons.prems chat_not_reply by (auto simp: handlePacket_def chats_def bodiesOf_def isReply_def)
  then show ?case using Cons.prems Cons.IH [of "handlePacket cl p" "cs @ bodiesOf i [p]"]
    by (simp add: chats_def bodiesOf_def)
qed

lemma after_echo:
  assumes "cl_packetHandler cl = None" "cl_pending cl = []"
  shows "foldl handlePacket cl ps = cl\<lparr>cl_broadcasts := cl_broadcasts cl @ chats ps\<rparr>"
  using assms
proof (induction ps arbitrary: cl)
  case Nil
  then show ?case by (simp add: chats_def)
next
  case (Cons p ps)
  have "handlePacket cl p = cl\<lparr>cl_broadcasts := cl_broadcasts cl @ chats [p]\<rparr>"
    using Cons.prems by (simp add: handlePacket_def chats_def)
  then show ?case using Cons.prems Cons.IH [of "handlePacket cl p"] by (simp add: chats_def)
qed

lemma handlePacket_frame [simp]: "cl_socket (handlePacket cl p) = cl_socket cl" "cl_stream (handlePacket cl p) = cl_stream cl"
proof -
  have "cl_socket (deliverPacket p m cl) = cl_socket cl \<and> cl_stream (deliverPacket p m cl) = cl_stream cl" for m
    by (induction m) (simp_all add: split_paired_all)
  then show "cl_socket (handlePacket cl p) = cl_socket cl" "cl_stream (handlePacket cl p) = cl_stream cl"
    by (simp_all add: handlePacket_def onAuthPacket_def finishAuth_def keepaliveStart_def Let_def split: option.split)
qed

lemma handlePackets_frame [simp]:
  "cl_socket (foldl handlePacket cl ps) = cl_socket cl" "cl_stream (foldl handlePacket cl ps) = cl_stream cl"
  by (induction ps arbitrary: cl) simp_all

lemma settle_stream: "settle k out (cl\<lparr>cl_stream := s\<rparr>) = (settle k out cl)\<lparr>cl_stream := s\<rparr>"
  by (simp add: settle_def)

lemma handlePacket_stream: "handlePacket (cl\<lparr>cl_stream := s\<rparr>) p = (handlePacket cl p)\<lparr>cl_stream := s\<rparr>"
proof -
  have "deliverPacket p m (cl\<lparr>cl_stream := s\<rparr>) = (deliverPacket p m cl)\<lparr>cl_stream := s\<rparr>" for m
  proof (induction m)
    case (Cons e m)
    have "settle k out (cl\<lparr>cl_stream := s, cl_pending := x\<rparr>) = (settle k out (cl\<lparr>cl_pending := x\<rparr>))\<lparr>cl_stream := s\<rparr>" for k out x
    proof -
      have "cl\<lparr>cl_stream := s, cl_pending := x\<rparr> = cl\<lparr>cl_pending := x, cl_stream := s\<rparr>" by simp
      then show ?thesis by (simp only: settle_stream)
    qed
    then show ?case using Cons by (cases e) simp
  qed simp
  then show ?thesis
    by (simp add: handlePacket_def onAuthPacket_def finishAuth_def keepaliveStart_def Let_def split: option.split)
qed

lemma handlePackets_stream: "foldl handlePacket (cl\<lparr>cl_stream := s\<rparr>) ps = (foldl handlePacket cl ps)\<lparr>cl_stream := s\<rparr>"
  by (induction ps arbitrary: cl) (simp_all add: handlePacket_stream)

text \<open>However the bytes are cut, the packets are handled in order.\<close>

lemma onData_packets:
  assumes "cl_socket cl" "pushAll (cl_stream cl) chunks = Some (ps, s)"
  shows "foldl (\<lambda>c ch. onData ch c) cl chunks = (foldl handlePacket cl ps)\<lparr>cl_stream := s\<rparr>"
  using assms
proof (induction chunks arbitrary: cl ps)
  case Nil
  then show ?case by simp
next
  case (Cons ch chunks)
  obtain out s1 out' where push: "push (cl_stream cl) ch = Some (out, s1)" "pushAll s1 chunks = Some (out', s)" "ps = out @ out'"
    using Cons.prems(2) by (auto split: option.splits)
  have "onData ch cl = (foldl handlePacket cl out)\<lparr>cl_stream := s1\<rparr>"
    using Cons.prems(1) push(1) by (simp add: onData_def handlePackets_stream)
  then show ?case using Cons.IH [of "onData ch cl" out'] Cons.prems(1) push by (simp add: handlePackets_stream)
qed

lemma idle_pending:
  assumes "clientOk cl" "cl_running cl = None" "cl_nextId cl \<le> MAX_INT32"
  shows "cl_pending cl = []"
proof (cases "cl_pending cl")
  case (Cons e m)
  then have "(fst e, pd_id (snd e), pd_call (snd e)) \<in> set (pendingKeys (cl_pending cl))" by (simp add: pendingKeys_def case_prod_unfold)
  then show ?thesis using assms by (auto simp: clientOk_def keysOk_def dest: bspec)
qed simp

lemma queued_unsettled:
  assumes "clientOk cl" "cl_queue cl = (k, command) # rest"
  shows "k \<notin> fst ` set (cl_settled cl)"
proof -
  have "distinct (map fst (cl_settled cl) @ runningCalls cl @ map fst (cl_queue cl))"
    using assms(1) unfolding clientOk_def ordered_def by simp
  then show ?thesis by (auto simp: assms(2))
qed

definition commandPacket :: "nat \<Rightarrow> nat list \<Rightarrow> rcon_packet" where
  "commandPacket i command = \<lparr>pk_id = of_nat i, pk_type = SERVERDATA_EXECCOMMAND, pk_body = encodeUtf8 command\<rparr>"

text \<open>
  C20: A client that is connected and authenticated answers the next command with exactly what the server sent
  for it.  It writes the command and the empty probe, and once a packet answers the probe, the call is settled
  with the texts of the packets that carry the command's id and came before, in order.  Chat lines in between
  go to the broadcast handler, and packets with any other id change nothing.
\<close>

theorem exec_result_exact:
  assumes reach: "cl = runClient opts evs" and live: "cl_socket cl" "\<not> cl_closed cl" "cl_packetHandler cl = None"
    and idle: "cl_running cl = None" "cl_queue cl = (k, command) # rest" "cl_nextId cl + 2 \<le> MAX_INT32"
    and bytes: "pushAll (cl_stream cl) chunks = Some (before @ echo # later, s)"
    and echo: "isReply (cl_nextId cl + 2) echo" "\<forall>p \<in> set before. \<not> isReply (cl_nextId cl + 2) p"
  shows "let cl' = foldl (\<lambda>c ch. onData ch c) (runNext now cl) chunks in
    cl_settled cl' = cl_settled cl @ [(k, Resolved (concat (bodiesOf (cl_nextId cl + 1) before)))]
    \<and> cl_broadcasts cl' = cl_broadcasts cl @ chats (before @ later)
    \<and> cl_written cl' = cl_written cl @ [commandPacket (cl_nextId cl + 1) command, commandPacket (cl_nextId cl + 2) []]"
proof -
  let ?i = "cl_nextId cl + 1"
  let ?cl = "runNext now cl"
  have ok: "clientOk cl" unfolding reach by (rule runClient_ok)
  have "cl_pending cl = []" using idle_pending [OF ok idle(1)] idle(3) by simp
  then have run: "?cl = cl\<lparr>cl_queue := rest, cl_running := Some k, cl_lastCommandAt := now, cl_nextId := Suc ?i,
      cl_pending := [(Suc ?i, \<lparr>pd_id = ?i, pd_command = command, pd_chunks = [], pd_call = k\<rparr>)],
      cl_written := cl_written cl @ [commandPacket ?i command, commandPacket (Suc ?i) []]\<rparr>"
    using live idle by (simp add: runNext_def execNow_def writePacket_def commandPacket_def)
  let ?c1 = "?cl\<lparr>cl_broadcasts := cl_broadcasts ?cl @ chats before,
      cl_pending := [(Suc ?i, \<lparr>pd_id = ?i, pd_command = command, pd_chunks = bodiesOf ?i before, pd_call = k\<rparr>)]\<rparr>"
  have c1: "foldl handlePacket ?cl before = ?c1"
    using before_echo [of ?cl ?i command "[]" k before] live(3) echo(2) by (simp add: run)
  define c2 where "c2 = handlePacket ?c1 echo"
  have c2: "c2 = ?c1\<lparr>cl_pending := [], cl_settled := cl_settled cl @ [(k, Resolved (concat (bodiesOf ?i before)))], cl_running := None\<rparr>"
    using live(3) echo(1) queued_unsettled [OF ok idle(2)] chat_not_reply
    by (simp add: c2_def run handlePacket_def isReply_def settle_def map_del_def)
  have "foldl handlePacket ?cl (before @ echo # later) = foldl handlePacket c2 later" by (simp add: c1 c2_def)
  then have "foldl (\<lambda>c ch. onData ch c) ?cl chunks = (foldl handlePacket c2 later)\<lparr>cl_stream := s\<rparr>"
    using onData_packets [of ?cl chunks] bytes live(1) by (simp add: run)
  also have "foldl handlePacket c2 later = c2\<lparr>cl_broadcasts := cl_broadcasts c2 @ chats later\<rparr>"
    using live(3) by (intro after_echo) (simp_all add: c2 run)
  finally show ?thesis by (simp add: c2 run Let_def chats_def)
qed

text \<open>
  C21: Every call of \<^verbatim>\<open>exec\<close> is settled once, in the order of the calls, under any sequence of commands, packets,
  timeouts and disconnects: the calls made are the settled ones, then the one that runs, then the queued ones.
  No call hangs: once the client is closed, letting the chain run settles all of them.
\<close>

theorem exec_calls_settled:
  "let cl = runClient opts evs in
     map fst (cl_settled cl) @ runningCalls cl @ map fst (cl_queue cl) = [0..<cl_calls cl]
     \<and> map fst (cl_settled (runClient opts (evs @ Close # replicate (cl_calls cl) (RunNext now)))) = [0..<cl_calls cl]"
proof -
  let ?cl = "runClient opts evs"
  have ok: "clientOk ?cl" by (rule runClient_ok)
  have "cl_closed (close ?cl)" by (simp add: close_def rejectAll_def settle_flags)
  then have "map fst (cl_settled (foldl (clientStep opts) (close ?cl) (replicate (cl_calls ?cl) (RunNext now)))) = [0..<cl_calls (close ?cl)]"
    using queue_bound [OF ok] by (intro drained) (simp_all add: close_ok [OF ok])
  then show ?thesis using ok by (simp add: Let_def runClient_def clientOk_def ordered_def close_ok [OF ok, unfolded runClient_def])
qed

section \<open>Witnesses\<close>

definition demoOptions :: rcon_options where
  "demoOptions = \<lparr>ro_host = ''game.example.org'', ro_password = [112, 119], ro_refuse = True, ro_allowlist = None, ro_keepaliveMs = 90000\<rparr>"

definition demoResolve :: resolver where
  "demoResolve name = Some [''203.0.113.7'']"

lemma demoTargets: "connectTargets demoOptions demoResolve = Inr [''203.0.113.7'']"
proof -
  have "isIP ''game.example.org'' = 0" by code_simp
  moreover have "isRestrictedNetworkHost ''203.0.113.7'' = False" by code_simp
  ultimately show ?thesis
    by (simp add: connectTargets_def demoOptions_def demoResolve_def createConnection_def makeRestrictedAddressLookup_def
        refuseResolvedAddresses_def isPrivateHostAllowed_def)
qed

theorem rcon_dials_only_allowed_witness:
  "ro_refuse demoOptions \<and> connectTargets demoOptions demoResolve = Inr [''203.0.113.7'']
   \<and> (\<exists>v. literalToBigInt ''203.0.113.7'' = Some v \<and> \<not> restrictedAddress v)"
proof -
  have "isIP ''203.0.113.7'' \<noteq> 0" by code_simp
  then have "\<forall>name addresses. demoResolve name = Some addresses \<longrightarrow> list_all (\<lambda>a. isIP a \<noteq> 0) addresses"
    by (auto simp: demoResolve_def)
  moreover have "ro_refuse demoOptions" by (simp add: demoOptions_def)
  ultimately show ?thesis
    using rcon_dials_only_allowed [of demoOptions demoResolve "[''203.0.113.7'']" "''203.0.113.7''"] demoTargets by auto
qed

definition demoAuth :: rcon_packet where "demoAuth = \<lparr>pk_id = 1001, pk_type = 2, pk_body = []\<rparr>"
definition demoReply :: rcon_packet where "demoReply = \<lparr>pk_id = 1002, pk_type = 0, pk_body = [111, 107]\<rparr>"
definition demoProbe :: rcon_packet where "demoProbe = \<lparr>pk_id = 1003, pk_type = 0, pk_body = []\<rparr>"
definition demoEvents :: "rcon_event list" where
  "demoEvents = [Connect demoResolve, Connected, Data (encodePacket demoAuth), Exec [65]]"

lemma demoRun:
  "let cl = runClient demoOptions demoEvents in
     cl_socket cl \<and> \<not> cl_closed cl \<and> cl_packetHandler cl = None \<and> cl_running cl = None \<and> cl_queue cl = [(0, [65])]
     \<and> cl_nextId cl = 1001 \<and> cl_settled cl = [] \<and> cl_stream cl = newStream"
proof -
  have "pushLoop (rs_flags newStream) (encodePacket demoAuth @ []) = Some ([demoAuth], rs_flags newStream, [])"
    by (subst pushLoop_packet)
      (simp_all add: encodable_def demoAuth_def newStream_def afterPacket_def trackProbeEcho_def pushLoop.simps
        EMPTY_FRAME_SIZE_def MAX_RCON_PACKET_SIZE_def SERVERDATA_RESPONSE_VALUE_def)
  then have "push newStream (encodePacket demoAuth) = Some ([demoAuth], newStream)" by (simp add: push_def newStream_def)
  then show ?thesis
    by (simp add: runClient_def demoEvents_def connect_def newClient_def demoTargets onConnect_def authenticate_def writePacket_def
        onData_def handlePacket_def onAuthPacket_def finishAuth_def keepaliveStart_def exec_def demoAuth_def Let_def)
qed

theorem exec_result_exact_witness:
  "let cl = runClient demoOptions demoEvents in
     cl_queue cl = [(0, [65])] \<and> cl_nextId cl = 1001
     \<and> cl_settled (foldl (\<lambda>c ch. onData ch c) (runNext 5 cl) (map (\<lambda>b. [b]) (rconWire [(demoReply, False), (demoProbe, False)])))
         = [(0, Resolved [111, 107])]"
proof -
  let ?sent = "[(demoReply, False), (demoProbe, False)]"
  let ?chunks = "map (\<lambda>b. [b]) (rconWire ?sent)"
  have bytes: "concat (map (\<lambda>b. [b]) xs) = xs" for xs :: "byte list" by (induction xs) auto
  have "wellSent (rs_flags newStream) ?sent"
    by (simp add: demoReply_def demoProbe_def newStream_def encodable_def afterPacket_def trackProbeEcho_def
        EMPTY_FRAME_SIZE_def MAX_RCON_PACKET_SIZE_def SERVERDATA_RESPONSE_VALUE_def)
  from pushLoop_wire [OF this] obtain f where "pushAll newStream ?chunks = Some ([] @ [demoReply] @ demoProbe # [], \<lparr>rs_flags = f, rs_buf = []\<rparr>)"
    by (auto simp: pushAll_new push_def bytes)
  moreover have "isReply 1003 demoProbe" "\<not> isReply 1003 demoReply" "isReply 1002 demoReply"
    by (simp_all add: isReply_def demoProbe_def demoReply_def SERVERDATA_RESPONSE_VALUE_def)
  moreover have "decodeUtf8 (pk_body demoReply) = [111, 107]" by (simp add: decodeUtf8_def demoReply_def decodeFrom.simps)
  ultimately show ?thesis
    using exec_result_exact [of "runClient demoOptions demoEvents" demoOptions demoEvents 0 "[65]" "[]" ?chunks "[demoReply]" demoProbe "[]" _ 5]
      demoRun by (simp add: Let_def MAX_INT32_def bodiesOf_def)
qed

end
