(* ===== verification/Rcon_Commands.thy ===== *)
theory Rcon_Commands
  imports Strings "HOL-Library.Code_Target_Nat"
begin

text \<open>
  The operator commands of \<^verbatim>\<open>apps/workers/rcon/src/commands.ts\<close>: how a request becomes the line sent to the game
  server, and how the worker handles an entry of the command stream.  The stream may deliver an entry any
  number of times, since a consumer group redelivers what was not acknowledged; a failing Redis call, a crash
  or an error of the game server is the environment's choice.  \<^verbatim>\<open>JSON.parse\<close>, \<^verbatim>\<open>Date.parse\<close> and the date format of the
  schema library are arguments.
\<close>

section \<open>Requests\<close>

text \<open>A value of parsed JSON, as far as the worker looks into it.\<close>

datatype jval = JNone | JNull | JString jstr | JArray "jval list" | JOther

text \<open>The fields of a request object; \<open>rq_extra\<close> tells that it has further keys.\<close>

record raw_request =
  rq_request_id :: jval
  rq_command :: jval
  rq_args :: jval
  rq_actor :: jval
  rq_enqueued_at :: jval
  rq_extra :: bool

text \<open>The parsed request: an object (an array counts as one without these fields), or None for another JSON value.\<close>

type_synonym request_value = "raw_request option"

datatype operator_command =
    AdminBan
  | AdminBroadcast
  | AdminChangeLayer
  | AdminEndMatch
  | AdminKick
  | AdminReloadServerConfig
  | AdminSetNextLayer
  | AdminWarn

definition js :: "string \<Rightarrow> jstr" where "js s = map of_char s"

fun commandText :: "operator_command \<Rightarrow> string" where
  "commandText AdminBan = ''AdminBan''"
| "commandText AdminBroadcast = ''AdminBroadcast''"
| "commandText AdminChangeLayer = ''AdminChangeLayer''"
| "commandText AdminEndMatch = ''AdminEndMatch''"
| "commandText AdminKick = ''AdminKick''"
| "commandText AdminReloadServerConfig = ''AdminReloadServerConfig''"
| "commandText AdminSetNextLayer = ''AdminSetNextLayer''"
| "commandText AdminWarn = ''AdminWarn''"

definition RCON_OPERATOR_COMMANDS :: "operator_command list" where
  "RCON_OPERATOR_COMMANDS = [AdminBan, AdminBroadcast, AdminChangeLayer, AdminEndMatch, AdminKick,
     AdminReloadServerConfig, AdminSetNextLayer, AdminWarn]"

definition commandOfText :: "jstr \<Rightarrow> operator_command option" where
  "commandOfText s = find (\<lambda>c. js (commandText c) = s) RCON_OPERATOR_COMMANDS"

definition RCON_ARG_MAX_LENGTH :: nat where "RCON_ARG_MAX_LENGTH = 1024"
definition RCON_ARGS_MAX_COUNT :: nat where "RCON_ARGS_MAX_COUNT = 8"

record operator_request =
  or_request_id :: jstr
  or_command :: operator_command
  or_args :: "jstr list"

fun stringArg :: "jval \<Rightarrow> jstr option" where
  "stringArg (JString s) = (if length s \<le> RCON_ARG_MAX_LENGTH then Some s else None)"
| "stringArg _ = None"

fun strings_of :: "jval list \<Rightarrow> jstr list option" where
  "strings_of [] = Some []"
| "strings_of (v # vs) = (case (stringArg v, strings_of vs) of (Some s, Some ss) \<Rightarrow> Some (s # ss) | _ \<Rightarrow> None)"

fun argsOf :: "jval \<Rightarrow> jstr list option" where
  "argsOf JNone = Some []"
| "argsOf (JArray vs) = (if length vs \<le> RCON_ARGS_MAX_COUNT then strings_of vs else None)"
| "argsOf _ = None"

fun boundedText :: "nat \<Rightarrow> jval \<Rightarrow> bool" where
  "boundedText n (JString s) \<longleftrightarrow> 1 \<le> length s \<and> length s \<le> n"
| "boundedText n _ \<longleftrightarrow> False"

text \<open>\<^verbatim>\<open>rconCommandRequestSchema\<close>; the argument is the date format of the schema library.\<close>

definition rconCommandRequestSchema :: "(jstr \<Rightarrow> bool) \<Rightarrow> request_value \<Rightarrow> operator_request option" where
  "rconCommandRequestSchema isDatetime request =
     (case request of
        None \<Rightarrow> None
      | Some r \<Rightarrow>
          (case (rq_request_id r, rq_command r, argsOf (rq_args r)) of
             (JString i, JString c, Some args) \<Rightarrow>
               (case commandOfText c of
                  None \<Rightarrow> None
                | Some command \<Rightarrow>
                    if boundedText 128 (rq_request_id r)
                       \<and> (rq_actor r \<in> {JNone, JNull} \<or> boundedText 64 (rq_actor r))
                       \<and> (case rq_enqueued_at r of JNone \<Rightarrow> True | JString s \<Rightarrow> isDatetime s | _ \<Rightarrow> False)
                       \<and> \<not> rq_extra r
                    then Some \<lparr>or_request_id = i, or_command = command, or_args = args\<rparr>
                    else None)
           | _ \<Rightarrow> None))"

section \<open>Building the line\<close>

definition BROADCAST_MAX_CHARS :: nat where "BROADCAST_MAX_CHARS = 300"
definition TARGET_MAX_CHARS :: nat where "TARGET_MAX_CHARS = 64"
definition LAYER_NAME_MAX_CHARS :: nat where "LAYER_NAME_MAX_CHARS = 128"

datatype build_error = Invalid | WrongArgs | Required | TooLong | Unsafe | Whitespace

definition lineBreak :: "nat \<Rightarrow> bool" where "lineBreak c \<longleftrightarrow> c \<in> {13, 10, 0}"

definition assertSafeSingleLineText :: "jstr \<Rightarrow> nat \<Rightarrow> build_error + jstr" where
  "assertSafeSingleLineText value maxChars =
     (let s = jtrim value
      in if s = [] then Inl Required
         else if length s > maxChars then Inl TooLong
         else if list_ex lineBreak s then Inl Unsafe
         else Inr s)"

definition assertSafeTarget :: "jstr \<Rightarrow> build_error + jstr" where
  "assertSafeTarget value =
     (case assertSafeSingleLineText value TARGET_MAX_CHARS of
        Inl e \<Rightarrow> Inl e
      | Inr s \<Rightarrow> if list_ex js_ws s then Inl Whitespace else Inr s)"

definition jdigit :: "nat \<Rightarrow> bool" where "jdigit c \<longleftrightarrow> 48 \<le> c \<and> c \<le> 57"

text \<open>\<^verbatim>\<open>/^\d+[smhdwMy]?$/\<close>\<close>

definition banLengthText :: "jstr \<Rightarrow> bool" where
  "banLengthText s =
     (let rest = dropWhile jdigit s
      in takeWhile jdigit s \<noteq> [] \<and> (rest = [] \<or> (\<exists>u \<in> set (js ''smhdwMy''). rest = [u])))"

definition assertValidBanLength :: "jstr \<Rightarrow> build_error + jstr" where
  "assertValidBanLength value =
     (let s = jtrim value in if s = [] then Inl Required else if banLengthText s then Inr s else Inl Invalid)"

definition layerChar :: "nat \<Rightarrow> bool" where
  "layerChar c \<longleftrightarrow> 65 \<le> c \<and> c \<le> 90 \<or> 97 \<le> c \<and> c \<le> 122 \<or> jdigit c \<or> c \<in> {32, 39, 95, 46, 45}"

definition validateLayerName :: "jstr list \<Rightarrow> build_error + jstr" where
  "validateLayerName args =
     (case args of
        [a] \<Rightarrow>
          (case assertSafeSingleLineText a LAYER_NAME_MAX_CHARS of
             Inl e \<Rightarrow> Inl e
           | Inr s \<Rightarrow> if list_all layerChar s \<and> 1 \<le> length s \<and> length s \<le> 128 then Inr s else Inl Unsafe)
      | _ \<Rightarrow> Inl WrongArgs)"

definition validateBroadcastText :: "jstr list \<Rightarrow> build_error + jstr" where
  "validateBroadcastText args = (case args of [a] \<Rightarrow> assertSafeSingleLineText a BROADCAST_MAX_CHARS | _ \<Rightarrow> Inl WrongArgs)"

definition bindSum :: "'e + 'a \<Rightarrow> ('a \<Rightarrow> 'e + 'b) \<Rightarrow> 'e + 'b" where
  "bindSum r f = (case r of Inl e \<Rightarrow> Inl e | Inr a \<Rightarrow> f a)"

text \<open>The words of a line, one space between them.\<close>

definition line :: "operator_command \<Rightarrow> jstr list \<Rightarrow> jstr" where
  "line command parts = join_with [32] (js (commandText command) # parts)"

definition buildTargetCommand :: "operator_command \<Rightarrow> jstr list \<Rightarrow> build_error + jstr" where
  "buildTargetCommand command args =
     (case args of
        [t, m] \<Rightarrow>
          bindSum (assertSafeTarget t) (\<lambda>target.
          bindSum (assertSafeSingleLineText m BROADCAST_MAX_CHARS) (\<lambda>message.
            Inr (line command [target, message])))
      | _ \<Rightarrow> Inl WrongArgs)"

definition buildAdminWarnCommand :: "jstr list \<Rightarrow> build_error + jstr" where
  "buildAdminWarnCommand = buildTargetCommand AdminWarn"

definition buildAdminKickCommand :: "jstr list \<Rightarrow> build_error + jstr" where
  "buildAdminKickCommand = buildTargetCommand AdminKick"

definition buildAdminBanCommand :: "jstr list \<Rightarrow> build_error + jstr" where
  "buildAdminBanCommand args =
     (case args of
        [t, l, r] \<Rightarrow>
          bindSum (assertSafeTarget t) (\<lambda>target.
          bindSum (assertValidBanLength l) (\<lambda>banLength.
          bindSum (assertSafeSingleLineText r BROADCAST_MAX_CHARS) (\<lambda>reason.
            Inr (line AdminBan [target, banLength, reason]))))
      | _ \<Rightarrow> Inl WrongArgs)"

definition ensureNoArgs :: "operator_command \<Rightarrow> jstr list \<Rightarrow> build_error + jstr" where
  "ensureNoArgs command args = (if args \<noteq> [] then Inl WrongArgs else Inr (line command []))"

definition buildLine :: "operator_request \<Rightarrow> build_error + jstr" where
  "buildLine request =
     (case or_command request of
        AdminBroadcast \<Rightarrow> bindSum (validateBroadcastText (or_args request)) (\<lambda>s. Inr (line AdminBroadcast [s]))
      | AdminChangeLayer \<Rightarrow> bindSum (validateLayerName (or_args request)) (\<lambda>s. Inr (line AdminChangeLayer [s]))
      | AdminEndMatch \<Rightarrow> ensureNoArgs AdminEndMatch (or_args request)
      | AdminReloadServerConfig \<Rightarrow> ensureNoArgs AdminReloadServerConfig (or_args request)
      | AdminSetNextLayer \<Rightarrow> bindSum (validateLayerName (or_args request)) (\<lambda>s. Inr (line AdminSetNextLayer [s]))
      | AdminWarn \<Rightarrow> buildAdminWarnCommand (or_args request)
      | AdminKick \<Rightarrow> buildAdminKickCommand (or_args request)
      | AdminBan \<Rightarrow> buildAdminBanCommand (or_args request))"

definition buildOperatorCommand :: "(jstr \<Rightarrow> bool) \<Rightarrow> request_value \<Rightarrow> build_error + jstr" where
  "buildOperatorCommand isDatetime input =
     (case rconCommandRequestSchema isDatetime input of None \<Rightarrow> Inl Invalid | Some request \<Rightarrow> buildLine request)"

section \<open>What the game server reads\<close>

text \<open>The first words of a line, each up to a space, and what is left.\<close>

fun readWords :: "nat \<Rightarrow> jstr \<Rightarrow> jstr list" where
  "readWords 0 s = [s]"
| "readWords (Suc n) s =
     takeWhile (\<lambda>c. c \<noteq> 32) s # (case dropWhile (\<lambda>c. c \<noteq> 32) s of [] \<Rightarrow> [] | _ # rest \<Rightarrow> readWords n rest)"

lemma word_split: "32 \<notin> set w \<Longrightarrow> takeWhile (\<lambda>c. c \<noteq> 32) (w @ 32 # r) = w" "32 \<notin> set w \<Longrightarrow> dropWhile (\<lambda>c. c \<noteq> 32) (w @ 32 # r) = 32 # r"
  for w :: jstr
  by (induction w) auto

lemma readWords_join:
  "length ws = Suc n \<Longrightarrow> \<forall>w \<in> set (butlast ws). 32 \<notin> set w \<Longrightarrow> readWords n (join_with [32] ws) = ws"
proof (induction n arbitrary: ws)
  case 0
  then show ?case by (cases ws) auto
next
  case (Suc n)
  obtain w v vs where ws: "ws = w # v # vs" using Suc.prems(1) by (cases ws rule: remdups_adj.cases) auto
  have "readWords n (join_with [32] (v # vs)) = v # vs" using Suc ws by simp
  moreover have "32 \<notin> set w" using Suc.prems(2) ws by simp
  ultimately show ?case by (simp add: ws word_split)
qed

lemma name_word: "\<forall>c \<in> set (js (commandText command)). c \<noteq> 32 \<and> \<not> lineBreak c"
  by (cases command) (simp_all add: js_def lineBreak_def)

text \<open>An argument that may go on a line: nothing but the last one may hold white space.\<close>

definition lineArgs :: "jstr list \<Rightarrow> bool" where
  "lineArgs ps \<longleftrightarrow> (\<forall>p \<in> set ps. \<forall>c \<in> set p. \<not> lineBreak c) \<and> (\<forall>p \<in> set (butlast ps). 32 \<notin> set p)"

lemma safeText: "assertSafeSingleLineText v n = Inr s \<Longrightarrow> s = jtrim v \<and> (\<forall>c \<in> set s. \<not> lineBreak c)"
  by (auto simp: assertSafeSingleLineText_def Let_def list_ex_iff split: if_splits)

lemma safeTarget: "assertSafeTarget v = Inr s \<Longrightarrow> s = jtrim v \<and> (\<forall>c \<in> set s. \<not> lineBreak c) \<and> 32 \<notin> set s"
  using safeText [of v TARGET_MAX_CHARS]
  by (auto simp: assertSafeTarget_def list_ex_iff js_ws_def split: sum.splits if_splits)

lemma banLength_chars:
  assumes "banLengthText s" "c \<in> set s"
  shows "jdigit c \<or> c \<in> set (js ''smhdwMy'')"
proof -
  have "c \<in> set (takeWhile jdigit s) \<or> c \<in> set (dropWhile jdigit s)"
    using assms(2) by (metis UnE set_append takeWhile_dropWhile_id)
  then show ?thesis using assms(1) by (auto simp: banLengthText_def Let_def dest: set_takeWhileD set_dropWhileD)
qed

lemma safeLength: "assertValidBanLength v = Inr s \<Longrightarrow> s = jtrim v \<and> (\<forall>c \<in> set s. \<not> lineBreak c) \<and> 32 \<notin> set s"
  using banLength_chars [of "jtrim v"]
  by (fastforce simp: assertValidBanLength_def Let_def lineBreak_def jdigit_def js_def split: if_splits)

lemma safeLayer: "validateLayerName args = Inr s \<Longrightarrow> \<exists>a. args = [a] \<and> s = jtrim a \<and> (\<forall>c \<in> set s. \<not> lineBreak c)"
  by (auto simp: validateLayerName_def split: list.splits sum.splits if_splits dest: safeText)

lemma safeBroadcast: "validateBroadcastText args = Inr s \<Longrightarrow> \<exists>a. args = [a] \<and> s = jtrim a \<and> (\<forall>c \<in> set s. \<not> lineBreak c)"
  by (auto simp: validateBroadcastText_def split: list.splits dest: safeText)

lemma bindSum_Inr: "bindSum r f = Inr b \<longleftrightarrow> (\<exists>a. r = Inr a \<and> f a = Inr b)"
  by (cases r) (simp_all add: bindSum_def)

lemma targetParts:
  "buildTargetCommand command args = Inr cmd \<Longrightarrow> cmd = line command (map jtrim args) \<and> lineArgs (map jtrim args)"
  by (fastforce simp: buildTargetCommand_def bindSum_Inr lineArgs_def split: list.splits dest: safeTarget safeText)

lemma banParts:
  "buildAdminBanCommand args = Inr cmd \<Longrightarrow> cmd = line AdminBan (map jtrim args) \<and> lineArgs (map jtrim args)"
  by (fastforce simp: buildAdminBanCommand_def bindSum_Inr lineArgs_def split: list.splits dest: safeTarget safeLength safeText)

lemma buildLine_parts:
  assumes "buildLine request = Inr cmd"
  shows "cmd = line (or_command request) (map jtrim (or_args request)) \<and> lineArgs (map jtrim (or_args request))"
proof (cases "or_command request")
  case AdminBan
  then show ?thesis using assms banParts by (simp add: buildLine_def)
next
  case AdminKick
  then show ?thesis using assms targetParts by (simp add: buildLine_def buildAdminKickCommand_def)
next
  case AdminWarn
  then show ?thesis using assms targetParts by (simp add: buildLine_def buildAdminWarnCommand_def)
next
  case AdminBroadcast
  then show ?thesis using assms by (auto simp: buildLine_def bindSum_Inr lineArgs_def dest!: safeBroadcast)
qed (use assms in \<open>auto simp: buildLine_def bindSum_Inr lineArgs_def ensureNoArgs_def split: if_splits dest!: safeLayer\<close>)

lemma line_chars: "lineArgs ps \<Longrightarrow> \<forall>c \<in> set (line command ps). \<not> lineBreak c"
proof -
  assume "lineArgs ps"
  moreover have "c \<in> {32} \<union> (\<Union>w \<in> set ws. set w)" if "c \<in> set (join_with [32] ws)" for c and ws :: "jstr list"
    using that by (induction ws rule: induct_list012) auto
  ultimately show ?thesis using name_word [of command] unfolding line_def lineArgs_def by (fastforce simp: lineBreak_def)
qed

text \<open>
  C15: What an operator command sends is one line that the game server reads back as the request: the command's
  name, then its arguments without surrounding white space, in order.  No argument can add a line, and no target
  or ban length can spill into the argument after it.
\<close>

theorem operator_line_faithful:
  assumes "buildOperatorCommand isDatetime input = Inr cmd"
  shows "\<exists>request. rconCommandRequestSchema isDatetime input = Some request
    \<and> (\<forall>c \<in> set cmd. \<not> lineBreak c)
    \<and> readWords (length (or_args request)) cmd = js (commandText (or_command request)) # map jtrim (or_args request)"
proof -
  obtain request where r: "rconCommandRequestSchema isDatetime input = Some request" "buildLine request = Inr cmd"
    using assms by (auto simp: buildOperatorCommand_def split: option.splits)
  note parts = buildLine_parts [OF r(2)]
  have "\<forall>w \<in> set (butlast (js (commandText (or_command request)) # map jtrim (or_args request))). 32 \<notin> set w"
    using parts name_word by (auto simp: lineArgs_def)
  then have "readWords (length (or_args request)) cmd = js (commandText (or_command request)) # map jtrim (or_args request)"
    using parts readWords_join [of "js (commandText (or_command request)) # map jtrim (or_args request)"] by (simp add: line_def)
  then show ?thesis using r(1) parts line_chars by blast
qed

definition demoBan :: raw_request where
  "demoBan = \<lparr>rq_request_id = JString (js ''r1''), rq_command = JString (js ''AdminBan''),
     rq_args = JArray [JString (js ''76561198000000001''), JString (js '' 7d''), JString (js ''team killing'')],
     rq_actor = JNull, rq_enqueued_at = JNone, rq_extra = False\<rparr>"

theorem operator_line_faithful_witness:
  "buildOperatorCommand (\<lambda>_. True) (Some demoBan) = Inr (js ''AdminBan 76561198000000001 7d team killing'')
   \<and> readWords 3 (js ''AdminBan 76561198000000001 7d team killing'')
       = map js [''AdminBan'', ''76561198000000001'', ''7d'', ''team killing'']"
proof -
  have b: "buildOperatorCommand (\<lambda>_. True) (Some demoBan) = Inr (js ''AdminBan 76561198000000001 7d team killing'')" by code_simp
  have s: "rconCommandRequestSchema (\<lambda>_. True) (Some demoBan) = Some \<lparr>or_request_id = js ''r1'', or_command = AdminBan,
      or_args = map js [''76561198000000001'', '' 7d'', ''team killing'']\<rparr>" by code_simp
  have "map jtrim (map js [''76561198000000001'', '' 7d'', ''team killing'']) = map js [''76561198000000001'', ''7d'', ''team killing'']"
    by code_simp
  then show ?thesis using operator_line_faithful [OF b] b s by (simp add: numeral_3_eq_3)
qed

end
