(* ===== verification/Rcon_Queue.thy ===== *)
theory Rcon_Queue
  imports Rcon_Commands
begin

text \<open>
  The consumer of the command stream, \<^verbatim>\<open>RconCommandQueue\<close> in \<^verbatim>\<open>apps/workers/rcon/src/commands.ts\<close>.  One delivery of a
  stream entry is \<open>processEntry\<close>, with every early return; its environment says which Redis calls fail, where the
  process dies, what the game server answers and how long the steps take.  Runs deliver entries in any order
  and any number of times, which covers \<^verbatim>\<open>XREADGROUP\<close>, \<^verbatim>\<open>XAUTOCLAIM\<close> and producers that repeat a request.  An
  entry's id is the pair of its milliseconds and its sequence number, as Redis assigns it.
\<close>

section \<open>Entries\<close>

record queue_lib =
  ql_jsonParse :: "jstr \<Rightarrow> request_value option"
  ql_dateParse :: "jstr \<Rightarrow> int option"
  ql_isDatetime :: "jstr \<Rightarrow> bool"

record queue_entry =
  en_id :: "int \<times> nat"
  en_kv :: "jstr list"

definition getField :: "jstr list \<Rightarrow> string \<Rightarrow> jstr option" where
  "getField kv name = (case dropWhile (\<lambda>k. k \<noteq> js name) kv of _ # v # _ \<Rightarrow> Some v | _ \<Rightarrow> None)"

definition requestIdOf :: "request_value \<Rightarrow> jstr option" where
  "requestIdOf value =
     (case value of
        None \<Rightarrow> None
      | Some r \<Rightarrow> (case rq_request_id r of JString s \<Rightarrow> if s \<noteq> [] then Some s else None | _ \<Rightarrow> None))"

definition commandNameOf :: "request_value \<Rightarrow> operator_command option" where
  "commandNameOf value =
     (case value of None \<Rightarrow> None | Some r \<Rightarrow> (case rq_command r of JString s \<Rightarrow> commandOfText s | _ \<Rightarrow> None))"

definition enqueuedAt :: "queue_lib \<Rightarrow> request_value \<Rightarrow> int option" where
  "enqueuedAt lib request =
     (case request of
        None \<Rightarrow> None
      | Some r \<Rightarrow> (case rq_enqueued_at r of JString s \<Rightarrow> ql_dateParse lib s | _ \<Rightarrow> None))"

definition commandAgeMs :: "queue_lib \<Rightarrow> int \<Rightarrow> queue_entry \<Rightarrow> request_value \<Rightarrow> int" where
  "commandAgeMs lib now en request =
     (case enqueuedAt lib request of Some ms \<Rightarrow> now - ms | None \<Rightarrow> now - fst (en_id en))"

definition deadlineOf :: "queue_lib \<Rightarrow> queue_entry \<Rightarrow> int option" where
  "deadlineOf lib en = (case getField (en_kv en) ''deadline_at'' of None \<Rightarrow> None | Some s \<Rightarrow> ql_dateParse lib s)"

section \<open>Keys\<close>

definition RESULT_TTL_MS :: int where "RESULT_TTL_MS = 120 * 1000"
definition DONE_MARKER_TTL_MS :: int where "DONE_MARKER_TTL_MS = 24 * 3600 * 1000"
definition DEFAULT_MAX_COMMAND_AGE_MS :: int where "DEFAULT_MAX_COMMAND_AGE_MS = 45000"

datatype command_result = Ok jstr | Failed | Stale | Expired

text \<open>A command handed to the game server: the entry and request it came from, the line, and two times.\<close>

record execution =
  ex_entry :: queue_entry
  ex_request :: request_value
  ex_line :: jstr
  ex_startedAt :: int
  ex_at :: int

record queue_state =
  qs_clock :: int
  qs_results :: "(jstr \<times> command_result \<times> int) list"
  qs_done :: "(jstr \<times> int) list"
  qs_executed :: "execution list"
  qs_acked :: "(int \<times> nat) list"

definition newQueue :: "int \<Rightarrow> queue_state" where
  "newQueue now = \<lparr>qs_clock = now, qs_results = [], qs_done = [], qs_executed = [], qs_acked = []\<rparr>"

datatype crash = NoCrash | AfterClaim | AfterExecute

record entry_env =
  ee_resultGetFails :: bool
  ee_doneGetFails :: bool
  ee_claimFails :: bool
  ee_answer :: "jstr option"
  ee_setResultFails :: bool
  ee_setDoneFails :: bool
  ee_ackFails :: bool
  ee_crash :: crash
  ee_checkMs :: nat
  ee_claimMs :: nat
  ee_executeMs :: nat

definition pass :: "nat \<Rightarrow> queue_state \<Rightarrow> queue_state" where
  "pass d st = st\<lparr>qs_clock := qs_clock st + int d\<rparr>"

definition resultExists :: "entry_env \<Rightarrow> jstr \<Rightarrow> queue_state \<Rightarrow> bool" where
  "resultExists env requestId st =
     (\<not> ee_resultGetFails env \<and> (case map_of (qs_results st) requestId of None \<Rightarrow> False | Some (r, e) \<Rightarrow> qs_clock st < e))"

definition markerLive :: "jstr \<Rightarrow> queue_state \<Rightarrow> bool" where
  "markerLive requestId st = (case map_of (qs_done st) requestId of None \<Rightarrow> False | Some e \<Rightarrow> qs_clock st < e)"

definition doneExists :: "entry_env \<Rightarrow> jstr \<Rightarrow> queue_state \<Rightarrow> bool" where
  "doneExists env requestId st = (\<not> ee_doneGetFails env \<and> markerLive requestId st)"

definition setDone :: "jstr \<Rightarrow> queue_state \<Rightarrow> queue_state" where
  "setDone requestId st = st\<lparr>qs_done := map_put requestId (qs_clock st + DONE_MARKER_TTL_MS) (qs_done st)\<rparr>"

text \<open>\<^verbatim>\<open>SET NX\<close>: None is a Redis failure, which propagates.\<close>

definition claimRequest :: "entry_env \<Rightarrow> jstr \<Rightarrow> queue_state \<Rightarrow> (bool \<times> queue_state) option" where
  "claimRequest env requestId st =
     (if ee_claimFails env then None else if markerLive requestId st then Some (False, st) else Some (True, setDone requestId st))"

text \<open>The result schema admits ids of at most 128 units.  The flag says whether the call returned.\<close>

definition writeResult :: "entry_env \<Rightarrow> jstr \<Rightarrow> command_result \<Rightarrow> queue_state \<Rightarrow> bool \<times> queue_state" where
  "writeResult env requestId result st =
     (if length requestId > 128 \<or> ee_setResultFails env then (False, st)
      else let st1 = st\<lparr>qs_results := map_put requestId (result, qs_clock st + RESULT_TTL_MS) (qs_results st)\<rparr>
           in if ee_setDoneFails env then (False, st1) else (True, setDone requestId st1))"

section \<open>One delivery\<close>

definition xack :: "entry_env \<Rightarrow> queue_entry \<Rightarrow> queue_state \<Rightarrow> queue_state" where
  "xack env en st = (if ee_ackFails env then st else st\<lparr>qs_acked := qs_acked st @ [en_id en]\<rparr>)"

text \<open>A stale or expired command: the result is stored, then the entry acknowledged.\<close>

definition dropCommand :: "entry_env \<Rightarrow> queue_entry \<Rightarrow> jstr option \<Rightarrow> command_result \<Rightarrow> queue_state \<Rightarrow> queue_state" where
  "dropCommand env en requestId result st =
     (case requestId of
        None \<Rightarrow> xack env en st
      | Some r \<Rightarrow> (case writeResult env r result st of (True, st1) \<Rightarrow> xack env en st1 | (False, st1) \<Rightarrow> st1))"

definition runCommand :: "queue_lib \<Rightarrow> entry_env \<Rightarrow> queue_entry \<Rightarrow> request_value \<Rightarrow> int \<Rightarrow> queue_state \<Rightarrow> command_result \<times> queue_state" where
  "runCommand lib env en request startedAt st =
     (case buildOperatorCommand (ql_isDatetime lib) request of
        Inl err \<Rightarrow> (Failed, st)
      | Inr command \<Rightarrow>
          ((case ee_answer env of None \<Rightarrow> Failed | Some response \<Rightarrow> Ok response),
           pass (ee_executeMs env)
             (st\<lparr>qs_executed := qs_executed st @
                [\<lparr>ex_entry = en, ex_request = request, ex_line = command, ex_startedAt = startedAt, ex_at = qs_clock st\<rparr>]\<rparr>)))"

fun isOk :: "command_result \<Rightarrow> bool" where
  "isOk (Ok response) \<longleftrightarrow> True"
| "isOk _ \<longleftrightarrow> False"

definition finishCommand :: "entry_env \<Rightarrow> queue_entry \<Rightarrow> jstr option \<Rightarrow> command_result \<Rightarrow> queue_state \<Rightarrow> queue_state" where
  "finishCommand env en requestId result st =
     (case requestId of
        None \<Rightarrow> xack env en st
      | Some r \<Rightarrow>
          (case writeResult env r result st of
             (True, st1) \<Rightarrow> xack env en st1
           | (False, st1) \<Rightarrow> if isOk result then xack env en st1 else st1))"

definition claimAndRun :: "queue_lib \<Rightarrow> entry_env \<Rightarrow> queue_entry \<Rightarrow> request_value \<Rightarrow> int \<Rightarrow> queue_state \<Rightarrow> queue_state" where
  "claimAndRun lib env en request startedAt st =
     (let requestId = requestIdOf request;
          claimed = (case requestId of None \<Rightarrow> Some (True, st) | Some r \<Rightarrow> claimRequest env r st)
      in case claimed of
           None \<Rightarrow> st
         | Some (False, st1) \<Rightarrow> xack env en st1
         | Some (True, st1) \<Rightarrow>
             if ee_crash env = AfterClaim then st1
             else (case runCommand lib env en request startedAt st1 of
                     (result, st2) \<Rightarrow> if ee_crash env = AfterExecute then st2 else finishCommand env en requestId result st2))"

definition processEntry :: "queue_lib \<Rightarrow> entry_env \<Rightarrow> queue_entry \<Rightarrow> queue_state \<Rightarrow> queue_state" where
  "processEntry lib env en st =
     (case getField (en_kv en) ''request'' of
        None \<Rightarrow> xack env en st
      | Some raw \<Rightarrow>
          if raw = [] then xack env en st
          else (case ql_jsonParse lib raw of
             None \<Rightarrow> xack env en st
           | Some request \<Rightarrow>
               (let startedAt = qs_clock st; requestId = requestIdOf request
                in if (case requestId of None \<Rightarrow> False | Some r \<Rightarrow> resultExists env r st \<or> doneExists env r st) then xack env en st
                   else let st1 = pass (ee_checkMs env) st
                        in if commandAgeMs lib (qs_clock st1) en request > DEFAULT_MAX_COMMAND_AGE_MS
                           then dropCommand env en requestId Stale st1
                           else if (case deadlineOf lib en of None \<Rightarrow> False | Some d \<Rightarrow> startedAt > d)
                           then dropCommand env en requestId Expired st1
                           else claimAndRun lib env en request startedAt (pass (ee_claimMs env) st1))))"

section \<open>Runs\<close>

datatype queue_event = Deliver queue_entry entry_env | TakeResult jstr | Pass nat

text \<open>\<open>TakeResult\<close> is the API deleting a result it has read.\<close>

fun queueStep :: "queue_lib \<Rightarrow> queue_state \<Rightarrow> queue_event \<Rightarrow> queue_state" where
  "queueStep lib st (Deliver en env) = processEntry lib env en st"
| "queueStep lib st (TakeResult requestId) = st\<lparr>qs_results := map_del requestId (qs_results st)\<rparr>"
| "queueStep lib st (Pass d) = pass d st"

definition runQueue :: "queue_lib \<Rightarrow> queue_state \<Rightarrow> queue_event list \<Rightarrow> queue_state" where
  "runQueue lib st evs = foldl (queueStep lib) st evs"

section \<open>At most once, and in time\<close>

definition inTime :: "queue_lib \<Rightarrow> execution \<Rightarrow> bool" where
  "inTime lib x \<longleftrightarrow>
     (\<exists>checkedAt. ex_startedAt x \<le> checkedAt \<and> checkedAt \<le> ex_at x
        \<and> commandAgeMs lib checkedAt (ex_entry x) (ex_request x) \<le> DEFAULT_MAX_COMMAND_AGE_MS)
     \<and> (\<forall>d. deadlineOf lib (ex_entry x) = Some d \<longrightarrow> ex_startedAt x \<le> d)"

definition idOf :: "execution \<Rightarrow> jstr option" where
  "idOf x = requestIdOf (ex_request x)"

text \<open>
  Every execution has an id, was in time, and its marker outlives it by the marker's time to live; executions of one
  request are that far apart; no marker outlives the present by more.
\<close>

definition marksBound :: "queue_state \<Rightarrow> bool" where
  "marksBound st \<longleftrightarrow> (\<forall>r e. map_of (qs_done st) r = Some e \<longrightarrow> e \<le> qs_clock st + DONE_MARKER_TTL_MS)"

definition marked :: "queue_state \<Rightarrow> execution \<Rightarrow> bool" where
  "marked st x \<longleftrightarrow> (\<exists>r e. idOf x = Some r \<and> map_of (qs_done st) r = Some e \<and> ex_at x + DONE_MARKER_TTL_MS \<le> e)"

definition apart :: "execution \<Rightarrow> execution \<Rightarrow> bool" where
  "apart x y \<longleftrightarrow> (idOf x = idOf y \<longrightarrow> ex_at x + DONE_MARKER_TTL_MS \<le> ex_at y)"

definition markersOk :: "queue_lib \<Rightarrow> queue_state \<Rightarrow> bool" where
  "markersOk lib st \<longleftrightarrow>
     marksBound st \<and> (\<forall>x \<in> set (qs_executed st). inTime lib x \<and> marked st x) \<and> sorted_wrt apart (qs_executed st)"

text \<open>A step that runs nothing: time goes on and markers are only renewed.\<close>

definition renews :: "queue_state \<Rightarrow> queue_state \<Rightarrow> bool" where
  "renews st st' \<longleftrightarrow>
     qs_executed st' = qs_executed st \<and> qs_clock st \<le> qs_clock st' \<and> (marksBound st \<longrightarrow> marksBound st'
       \<and> (\<forall>r e. map_of (qs_done st) r = Some e \<longrightarrow> (\<exists>e'. map_of (qs_done st') r = Some e' \<and> e \<le> e')))"

lemma renews_refl [simp]: "renews st st"
  by (simp add: renews_def)

lemma renews_trans: "renews st st1 \<Longrightarrow> renews st1 st2 \<Longrightarrow> renews st st2"
  unfolding renews_def by (metis order_trans)

lemma renews_ok: "markersOk lib st \<Longrightarrow> renews st st' \<Longrightarrow> markersOk lib st'"
  unfolding markersOk_def renews_def marked_def by (metis order_trans)

lemma renews_xack [simp]: "renews st (xack env en st)"
  by (simp add: renews_def xack_def marksBound_def)

lemma renews_pass [simp]: "renews st (pass d st)"
  by (fastforce simp: renews_def pass_def marksBound_def)

lemma renews_setDone [simp]: "renews st (setDone r st)"
  by (auto simp: renews_def setDone_def marksBound_def)

lemma renews_results [simp]: "renews st (st\<lparr>qs_results := rs\<rparr>)"
  by (simp add: renews_def marksBound_def)

lemma renews_writeResult: "renews st (snd (writeResult env r result st))"
  by (auto simp: writeResult_def Let_def intro: renews_trans [OF renews_results renews_setDone])

lemma renews_finish: "renews st (finishCommand env en requestId result st)"
proof (cases requestId)
  case (Some r)
  obtain ok st1 where w: "writeResult env r result st = (ok, st1)" by fastforce
  then have "renews st st1" using renews_writeResult [of st env r result] by simp
  then show ?thesis using w Some by (auto simp: finishCommand_def split: bool.split intro: renews_trans)
qed (simp add: finishCommand_def)

lemma renews_drop: "renews st (dropCommand env en requestId result st)"
proof (cases requestId)
  case (Some r)
  obtain ok st1 where w: "writeResult env r result st = (ok, st1)" by fastforce
  then have "renews st st1" using renews_writeResult [of st env r result] by simp
  then show ?thesis using w Some by (auto simp: dropCommand_def split: bool.split intro: renews_trans)
qed (simp add: dropCommand_def)

lemma built_id:
  "buildOperatorCommand isDatetime request = Inr command \<Longrightarrow> \<exists>r. requestIdOf request = Some r"
  by (auto simp: buildOperatorCommand_def rconCommandRequestSchema_def requestIdOf_def split: option.splits jval.splits if_splits)

text \<open>The claim succeeded, so no earlier execution of the request still has its marker.\<close>

lemma claim_run_ok:
  assumes ok: "markersOk lib st" and dead: "\<not> markerLive r st" and rid: "requestIdOf request = Some r"
    and build: "buildOperatorCommand (ql_isDatetime lib) request = Inr command"
    and time: "inTime lib \<lparr>ex_entry = en, ex_request = request, ex_line = command, ex_startedAt = t, ex_at = qs_clock st\<rparr>"
  shows "markersOk lib (snd (runCommand lib env en request t (setDone r st)))"
proof -
  let ?x = "\<lparr>ex_entry = en, ex_request = request, ex_line = command, ex_startedAt = t, ex_at = qs_clock st\<rparr>"
  let ?s = "setDone r st"
  have ok1: "markersOk lib ?s" by (rule renews_ok [OF ok]) simp
  have "apart y ?x" if "y \<in> set (qs_executed st)" for y
  proof -
    have "marked st y" using ok that by (simp add: markersOk_def)
    then show ?thesis using dead rid by (auto simp: marked_def apart_def idOf_def markerLive_def split: option.splits)
  qed
  moreover have "qs_executed ?s = qs_executed st" "qs_clock ?s = qs_clock st" by (simp_all add: setDone_def)
  moreover have "marked ?s ?x" by (simp add: marked_def idOf_def rid setDone_def)
  ultimately have "markersOk lib (?s\<lparr>qs_executed := qs_executed ?s @ [?x]\<rparr>)"
    using ok1 time by (auto simp: markersOk_def marksBound_def marked_def sorted_wrt_append)
  then have "markersOk lib (pass (ee_executeMs env) (?s\<lparr>qs_executed := qs_executed ?s @ [?x]\<rparr>))"
    by (rule renews_ok) simp
  then show ?thesis by (simp add: runCommand_def build setDone_def)
qed

lemma claimAndRun_ok:
  assumes ok: "markersOk lib st" and time: "\<And>command. inTime lib \<lparr>ex_entry = en, ex_request = request, ex_line = command, ex_startedAt = t, ex_at = qs_clock st\<rparr>"
  shows "markersOk lib (claimAndRun lib env en request t st)"
proof -
  have unbuilt: "runCommand lib env en request t s = (Failed, s)" if "buildOperatorCommand (ql_isDatetime lib) request = Inl e" for s e
    using that by (simp add: runCommand_def)
  have ran: "markersOk lib (snd (runCommand lib env en request t (setDone r st)))"
    if "requestIdOf request = Some r" "\<not> markerLive r st" for r
  proof (cases "buildOperatorCommand (ql_isDatetime lib) request")
    case (Inr command)
    then show ?thesis using claim_run_ok [OF ok that(2,1)] time by blast
  qed (simp add: unbuilt renews_ok [OF ok])
  have idle: "runCommand lib env en request t st = (Failed, st)" if "requestIdOf request = None"
    using that built_id [of "ql_isDatetime lib" request] unbuilt by (cases "buildOperatorCommand (ql_isDatetime lib) request") auto
  have acked: "markersOk lib (xack env en st)" by (rule renews_ok [OF ok]) simp
  have finish: "markersOk lib (finishCommand env en i res s)" if "markersOk lib s" for i res s
    using renews_ok [OF that renews_finish] .
  have set: "markersOk lib (setDone r st)" for r by (rule renews_ok [OF ok]) simp
  show ?thesis
  proof (cases "requestIdOf request")
    case None
    then show ?thesis using ok idle finish by (simp add: claimAndRun_def)
  next
    case (Some r)
    obtain res s2 where r2: "runCommand lib env en request t (setDone r st) = (res, s2)" by fastforce
    then show ?thesis using Some ok acked set finish ran [OF Some]
      by (auto simp: claimAndRun_def claimRequest_def Let_def)
  qed
qed

lemma processEntry_ok:
  assumes "markersOk lib st"
  shows "markersOk lib (processEntry lib env en st)"
proof -
  let ?s1 = "pass (ee_checkMs env) st"
  let ?s2 = "pass (ee_claimMs env) ?s1"
  have acked: "markersOk lib (xack env en st)" by (rule renews_ok [OF assms]) simp
  have dropped: "markersOk lib (dropCommand env en i res ?s1)" for i res
    by (rule renews_ok [OF assms renews_trans [OF renews_pass renews_drop]])
  have "markersOk lib (claimAndRun lib env en request (qs_clock st) ?s2)"
    if "commandAgeMs lib (qs_clock ?s1) en request \<le> DEFAULT_MAX_COMMAND_AGE_MS" "\<forall>d. deadlineOf lib en = Some d \<longrightarrow> qs_clock st \<le> d" for request
  proof (rule claimAndRun_ok)
    show "markersOk lib ?s2" by (rule renews_ok [OF assms renews_trans [OF renews_pass renews_pass]])
    show "inTime lib \<lparr>ex_entry = en, ex_request = request, ex_line = command, ex_startedAt = qs_clock st, ex_at = qs_clock ?s2\<rparr>" for command
      unfolding inTime_def using that by (auto simp: pass_def intro!: exI [of _ "qs_clock ?s1"])
  qed
  then show ?thesis using acked dropped
    by (auto simp: processEntry_def Let_def not_less split: option.splits)
qed

lemma runQueue_ok: "markersOk lib (runQueue lib (newQueue now) evs)"
proof -
  have step: "markersOk lib st \<Longrightarrow> markersOk lib (queueStep lib st ev)" for st ev
    by (cases ev) (auto intro: processEntry_ok renews_ok)
  have "markersOk lib st \<Longrightarrow> markersOk lib (foldl (queueStep lib) st evs)" for st
    by (induction evs arbitrary: st) (simp_all add: step)
  moreover have "markersOk lib (newQueue now)" by (simp add: markersOk_def marksBound_def newQueue_def)
  ultimately show ?thesis by (simp add: runQueue_def)
qed

text \<open>
  A failure whose result could not be stored leaves the entry pending with the request claimed: a redelivery
  within the life of the marker acknowledges it without running anything and without a result.
\<close>

lemma lost_failure_not_retried:
  assumes "requestIdOf request = Some r" "getField (en_kv en) ''request'' = Some raw" "raw \<noteq> []" "ql_jsonParse lib raw = Some request"
    "markerLive r st" "\<not> ee_doneGetFails env"
  shows "processEntry lib env en st = xack env en st"
  using assms by (simp add: processEntry_def doneExists_def)

text \<open>
  C13: A command reaches the game server at most once within a day, and never late.  Whatever is redelivered or sent
  again, whichever Redis calls fail and wherever the worker dies, two executions of one request id lie at least
  the life of its marker apart; every execution was at most 45 seconds old when it was checked, and started no
  later than the deadline its producer set.
\<close>

theorem commands_run_once:
  assumes "st = runQueue lib (newQueue now) evs"
  shows "(\<forall>x \<in> set (qs_executed st). inTime lib x)
    \<and> (\<forall>j < length (qs_executed st). \<forall>i < j. idOf (qs_executed st ! i) = idOf (qs_executed st ! j)
          \<longrightarrow> ex_at (qs_executed st ! i) + DONE_MARKER_TTL_MS \<le> ex_at (qs_executed st ! j))"
proof (intro conjI allI impI)
  have ok: "markersOk lib st" unfolding assms by (rule runQueue_ok)
  then show "\<forall>x \<in> set (qs_executed st). inTime lib x" by (simp add: markersOk_def)
  show "ex_at (qs_executed st ! i) + DONE_MARKER_TTL_MS \<le> ex_at (qs_executed st ! j)"
    if "j < length (qs_executed st)" "i < j" "idOf (qs_executed st ! i) = idOf (qs_executed st ! j)" for i j
    using ok that by (auto simp: markersOk_def apart_def sorted_wrt_iff_nth_less)
qed

definition demoLib :: queue_lib where
  "demoLib = \<lparr>ql_jsonParse = (\<lambda>_. Some (Some demoBan)), ql_dateParse = (\<lambda>_. None), ql_isDatetime = (\<lambda>_. True)\<rparr>"

definition calmEnv :: entry_env where
  "calmEnv = \<lparr>ee_resultGetFails = False, ee_doneGetFails = False, ee_claimFails = False, ee_answer = Some [], ee_setResultFails = False,
     ee_setDoneFails = False, ee_ackFails = False, ee_crash = NoCrash, ee_checkMs = 0, ee_claimMs = 0, ee_executeMs = 5\<rparr>"

definition demoEntryAt :: "int \<Rightarrow> queue_entry" where
  "demoEntryAt ms = \<lparr>en_id = (ms, 0), en_kv = [js ''request'', [123]]\<rparr>"

definition demoQueueEvents :: "queue_event list" where
  "demoQueueEvents = [Deliver (demoEntryAt 0) (calmEnv\<lparr>ee_crash := AfterExecute\<rparr>), Deliver (demoEntryAt 0) calmEnv, Pass 86400000,
     Deliver (demoEntryAt 86400000) calmEnv]"

theorem commands_run_once_witness:
  "let st = runQueue demoLib (newQueue 0) demoQueueEvents in
     map ex_at (qs_executed st) = [0, 86400005] \<and> idOf (qs_executed st ! 0) = idOf (qs_executed st ! 1)
     \<and> ex_at (qs_executed st ! 0) + DONE_MARKER_TTL_MS \<le> ex_at (qs_executed st ! 1)"
proof -
  let ?st = "runQueue demoLib (newQueue 0) demoQueueEvents"
  have at: "map ex_at (qs_executed ?st) = [0, 86400005]" by code_simp
  have ids: "map idOf (qs_executed ?st) = [Some (js ''r1''), Some (js ''r1'')]" by code_simp
  have len: "length (qs_executed ?st) = 2" using arg_cong [OF at, of length] by simp
  have "idOf (qs_executed ?st ! 0) = idOf (qs_executed ?st ! 1)"
    using arg_cong [OF ids, of "\<lambda>l. l ! 0"] arg_cong [OF ids, of "\<lambda>l. l ! 1"] len by simp
  moreover have "ex_at (qs_executed ?st ! 0) + DONE_MARKER_TTL_MS \<le> ex_at (qs_executed ?st ! 1)"
    if "idOf (qs_executed ?st ! 0) = idOf (qs_executed ?st ! 1)"
    using commands_run_once [OF refl, of demoLib 0 demoQueueEvents] len that by auto
  ultimately show ?thesis using at by (simp add: Let_def)
qed

end
