(* ===== verification/Iso_Date.thy ===== *)
theory Iso_Date
  imports Js_Time Strings
begin

text \<open>
  \<^verbatim>\<open>Date.prototype.toISOString\<close>: the UTC date and time of a moment as text, with four digits for the years 0 to 9999
  and a sign and six digits for the others.  Different moments have different texts.
\<close>

fun padded :: "nat \<Rightarrow> nat \<Rightarrow> string" where
  "padded 0 n = []"
| "padded (Suc k) n = padded k (n div 10) @ [digit_char (n mod 10)]"

definition getUTCFullYear :: "time \<Rightarrow> int" where "getUTCFullYear t = yearFromDay (dayOf t)"
definition getUTCSeconds :: "time \<Rightarrow> int" where "getUTCSeconds t = t div 1000 mod 60"
definition getUTCMilliseconds :: "time \<Rightarrow> int" where "getUTCMilliseconds t = t mod 1000"

definition yearText :: "int \<Rightarrow> string" where
  "yearText y =
     (if 0 \<le> y \<and> y \<le> 9999 then padded 4 (nat y)
      else (if y < 0 then CHR ''-'' else CHR ''+'') # padded 6 (nat \<bar>y\<bar>))"

definition twoDigits :: "int \<Rightarrow> string" where "twoDigits n = padded 2 (nat n)"

definition toISOString :: "time \<Rightarrow> string" where
  "toISOString t = yearText (getUTCFullYear t) @ ''-'' @ twoDigits (getUTCMonth t + 1) @ ''-'' @ twoDigits (getUTCDate t)
     @ ''T'' @ twoDigits (getUTCHours t) @ '':'' @ twoDigits (getUTCMinutes t) @ '':'' @ twoDigits (getUTCSeconds t)
     @ ''.'' @ padded 3 (nat (getUTCMilliseconds t)) @ ''Z''"

lemma length_padded [simp]: "length (padded k n) = k"
  by (induction k arbitrary: n) auto

lemma digit_char_inject: "a < 10 \<Longrightarrow> b < 10 \<Longrightarrow> digit_char a = digit_char b \<longleftrightarrow> a = b"
  by (metis digit_char(1))

lemma padded_inject: "m < 10 ^ k \<Longrightarrow> n < 10 ^ k \<Longrightarrow> padded k m = padded k n \<longleftrightarrow> m = n"
proof (induction k arbitrary: m n)
  case (Suc k)
  have "m div 10 < 10 ^ k" "n div 10 < 10 ^ k" using Suc.prems by (simp_all add: div_less_iff_less_mult mult.commute)
  moreover have "m div 10 = n div 10 \<and> m mod 10 = n mod 10 \<longleftrightarrow> m = n" by (metis div_mult_mod_eq)
  ultimately show ?case using Suc.IH digit_char_inject by simp
qed simp

lemma padded_digits: "c \<in> set (padded k n) \<Longrightarrow> is_digit c"
  by (induction k arbitrary: n) auto

lemma twoDigits_inject: "0 \<le> a \<Longrightarrow> a < 100 \<Longrightarrow> 0 \<le> b \<Longrightarrow> b < 100 \<Longrightarrow> twoDigits a = twoDigits b \<longleftrightarrow> a = b"
  using padded_inject [of "nat a" 2 "nat b"] by (auto simp: twoDigits_def nat_less_iff eq_nat_nat_iff)

lemma length_twoDigits [simp]: "length (twoDigits n) = 2"
  by (simp add: twoDigits_def)

lemma yearText_inject:
  assumes "\<bar>y\<bar> < 1000000" "\<bar>z\<bar> < 1000000" "yearText y = yearText z"
  shows "y = z"
proof -
  have four: "padded 4 (nat y) = padded 4 (nat z) \<Longrightarrow> y = z" if "0 \<le> y" "y \<le> 9999" "0 \<le> z" "z \<le> 9999"
    using that padded_inject [of "nat y" 4 "nat z"] by (simp add: nat_less_iff)
  have six: "padded 6 (nat \<bar>y\<bar>) = padded 6 (nat \<bar>z\<bar>) \<Longrightarrow> \<bar>y\<bar> = \<bar>z\<bar>"
    using assms(1,2) padded_inject [of "nat \<bar>y\<bar>" 6 "nat \<bar>z\<bar>"] by (simp add: nat_less_iff)
  have "length (yearText y) = length (yearText z)" using assms(3) by simp
  then have "(0 \<le> y \<and> y \<le> 9999) = (0 \<le> z \<and> z \<le> 9999)" by (auto simp: yearText_def split: if_splits)
  then show ?thesis using assms(3) four six by (auto simp: yearText_def split: if_splits)
qed

section \<open>The day from its fields\<close>

lemma div_step:
  assumes "0 < (k :: int)"
  shows "(x + 1) div k = x div k + (if k dvd x + 1 then 1 else 0)"
proof -
  have x: "x + 1 = (x mod k + 1) + x div k * k" by simp
  have "(x + 1) div k = (x mod k + 1) div k + x div k" using assms by (subst x) (simp only: div_mult_self1)
  moreover have r: "0 \<le> x mod k" "x mod k < k" using assms by simp_all
  moreover have "k dvd x + 1 \<longleftrightarrow> k dvd x mod k + 1" by (subst x) (rule dvd_add_times_triv_right_iff)
  moreover have "k dvd x mod k + 1 \<longleftrightarrow> x mod k + 1 = k" using r zdvd_imp_le [of k "x mod k + 1"] by auto
  ultimately show ?thesis using assms by (cases "x mod k + 1 = k") (simp_all add: div_pos_pos_trivial)
qed

lemma leap_values: "leap y = 0 \<or> leap y = 1"
proof -
  have "leap y = (if 4 dvd y - 1969 + 1 then 1 else 0) - (if 100 dvd y - 1901 + 1 then 1 else 0) + (if 400 dvd y - 1601 + 1 then 1 else 0)"
    using div_step [of 4 "y - 1969"] div_step [of 100 "y - 1901"] div_step [of 400 "y - 1601"]
    by (simp add: leap_def dayFromYear_def algebra_simps del: dvd_imp_mod_0)
  moreover have "4 dvd y - 1969 + 1" if "100 dvd y - 1901 + 1"
    using dvd_diff [OF dvd_trans [of 4, OF _ that], of 68] by simp
  moreover have "100 dvd y - 1901 + 1" if "400 dvd y - 1601 + 1"
    using dvd_diff [OF dvd_trans [of 100, OF _ that], of 300] by simp
  ultimately show ?thesis by auto
qed

lemma sorted_count: "sorted xs \<Longrightarrow> i < length xs \<Longrightarrow> xs ! i \<le> n \<longleftrightarrow> i < length (filter (\<lambda>s. s \<le> n) xs)" for n :: int
proof (induction xs arbitrary: i)
  case (Cons x xs)
  show ?case
  proof (cases "x \<le> n")
    case True
    then show ?thesis using Cons by (cases i) auto
  next
    case False
    have "filter (\<lambda>s. s \<le> n) xs = []" using False Cons.prems(1) by (auto simp: filter_empty_conv)
    moreover have "\<not> (x # xs) ! i \<le> n" using False Cons.prems by (cases i) (auto simp: all_set_conv_all_nth)
    ultimately show ?thesis using False by simp
  qed
qed simp

lemma month_date_bounds:
  assumes l: "l = 0 \<or> l = 1" and n: "0 \<le> n" "n < 365 + l"
  shows "0 \<le> monthInYear l n \<and> monthInYear l n \<le> 11
    \<and> 0 \<le> n - monthStart l ! nat (monthInYear l n) \<and> n - monthStart l ! nat (monthInYear l n) < 31"
proof -
  let ?c = "length (filter (\<lambda>s. s \<le> n) (monthStart l))"
  have len: "length (monthStart l) = 12" by (simp add: monthStart_def)
  have s: "sorted (monthStart l)" using l by (auto simp: monthStart_def)
  have c: "?c \<le> 12" using length_filter_le [of "\<lambda>s. s \<le> n" "monthStart l"] len by simp
  have "monthStart l ! 0 = 0" by (simp add: monthStart_def)
  then have "0 < ?c" using sorted_count [OF s, of 0 n] n len by simp
  then obtain m where m: "?c = Suc m" "m < 12" using c by (cases ?c) auto
  then have month: "monthInYear l n = int m" by (simp add: monthInYear_def)
  have low: "monthStart l ! m \<le> n" using sorted_count [OF s, of m n] m len by simp
  have gaps: "\<forall>i < 11. monthStart l ! Suc i - monthStart l ! i \<le> 31"
    using l by (auto simp: monthStart_def All_less_Suc numeral_eq_Suc)
  have "n - monthStart l ! m < 31"
  proof (cases "m = 11")
    case True
    then show ?thesis using n by (simp add: monthStart_def)
  next
    case False
    then have "m < 11" using m(2) by simp
    moreover have "n < monthStart l ! Suc m" using sorted_count [OF s, of "Suc m" n] m \<open>m < 11\<close> len by simp
    ultimately show ?thesis using gaps by fastforce
  qed
  then show ?thesis using low m(2) by (simp add: month)
qed

lemma date_fields:
  "0 \<le> getUTCMonth t" "getUTCMonth t \<le> 11" "1 \<le> getUTCDate t" "getUTCDate t \<le> 31"
  "dayOf t = dayFromYear (getUTCFullYear t) + monthStart (leap (getUTCFullYear t)) ! nat (getUTCMonth t) + getUTCDate t - 1"
proof -
  let ?y = "getUTCFullYear t"
  have "0 \<le> dayOf t - dayFromYear ?y" "dayOf t - dayFromYear ?y < 365 + leap ?y"
    using yearFromDay_spec [of "dayOf t"] by (simp_all add: getUTCFullYear_def leap_def)
  from month_date_bounds [OF leap_values this]
  show "0 \<le> getUTCMonth t" "getUTCMonth t \<le> 11" "1 \<le> getUTCDate t" "getUTCDate t \<le> 31"
    by (simp_all add: getUTCMonth_def getUTCDate_def getUTCFullYear_def Let_def)
  show "dayOf t = dayFromYear ?y + monthStart (leap ?y) ! nat (getUTCMonth t) + getUTCDate t - 1"
    by (simp add: getUTCMonth_def getUTCDate_def getUTCFullYear_def Let_def)
qed

lemma time_fields: "t = dayOf t * msPerDay + getUTCHours t * msPerHour + getUTCMinutes t * msPerMinute + getUTCSeconds t * 1000 + getUTCMilliseconds t"
proof -
  have "t = t div 1000 * 1000 + t mod 1000" by simp
  moreover have "t div 1000 = t div 60000 * 60 + t div 1000 mod 60" using div_mult_mod_eq [of "t div 1000" 60] by (simp add: zdiv_zmult2_eq [symmetric])
  moreover have "t div 60000 = t div 3600000 * 60 + t div 60000 mod 60" using div_mult_mod_eq [of "t div 60000" 60] by (simp add: zdiv_zmult2_eq [symmetric])
  moreover have "t div 3600000 = t div 86400000 * 24 + t div 3600000 mod 24" using div_mult_mod_eq [of "t div 3600000" 24] by (simp add: zdiv_zmult2_eq [symmetric])
  ultimately show ?thesis
    unfolding dayOf_def getUTCHours_def getUTCMinutes_def getUTCSeconds_def getUTCMilliseconds_def ms_defs by linarith
qed

section \<open>Different moments, different texts\<close>

text \<open>The moments a \<^verbatim>\<open>Date\<close> can hold.\<close>

definition validDate :: "time \<Rightarrow> bool" where "validDate t \<longleftrightarrow> \<bar>t\<bar> \<le> 8640000000000000"

lemma year_bound:
  assumes "validDate t"
  shows "\<bar>getUTCFullYear t\<bar> < 1000000"
proof -
  have d: "\<bar>dayOf t\<bar> \<le> 100000000" using assms by (auto simp: validDate_def dayOf_def msPerDay_def)
  have lin: "365 * (y - 1970) - 10000 \<le> dayFromYear y + \<bar>y\<bar>" "dayFromYear y \<le> 365 * (y - 1970) + \<bar>y\<bar> + 10000" for y
    unfolding dayFromYear_def by linarith+
  define y where "y = getUTCFullYear t"
  have a: "dayFromYear y \<le> dayOf t" and b: "dayOf t < dayFromYear (y + 1)"
    using yearFromDay_spec [of "dayOf t"] by (simp_all add: y_def getUTCFullYear_def)
  have "y < 1000000" using a d lin(1) [of y] by (cases "0 \<le> y") simp_all
  moreover have "- 1000000 < y" using b d lin(2) [of "y + 1"] by (cases "0 \<le> y + 1") simp_all
  ultimately show ?thesis by (simp add: y_def [symmetric] abs_less_iff)
qed

lemma toISOString_inject:
  assumes v: "validDate t" "validDate u" and eq: "toISOString t = toISOString u"
  shows "t = u"
proof -
  let ?rest = "\<lambda>t. ''-'' @ twoDigits (getUTCMonth t + 1) @ ''-'' @ twoDigits (getUTCDate t)
     @ ''T'' @ twoDigits (getUTCHours t) @ '':'' @ twoDigits (getUTCMinutes t) @ '':'' @ twoDigits (getUTCSeconds t)
     @ ''.'' @ padded 3 (nat (getUTCMilliseconds t)) @ ''Z''"
  have "yearText (getUTCFullYear t) @ ?rest t = yearText (getUTCFullYear u) @ ?rest u" using eq unfolding toISOString_def .
  moreover have "length (?rest t) = length (?rest u)" by simp
  ultimately have "yearText (getUTCFullYear t) = yearText (getUTCFullYear u) \<and> ?rest t = ?rest u"
    by (rule iffD1 [OF append_eq_append_conv [OF disjI2], rotated])
  then have y: "yearText (getUTCFullYear t) = yearText (getUTCFullYear u)" and r: "?rest t = ?rest u" by blast+
  have two: "twoDigits (getUTCMonth t + 1) = twoDigits (getUTCMonth u + 1)" "twoDigits (getUTCDate t) = twoDigits (getUTCDate u)"
    "twoDigits (getUTCHours t) = twoDigits (getUTCHours u)" "twoDigits (getUTCMinutes t) = twoDigits (getUTCMinutes u)"
    "twoDigits (getUTCSeconds t) = twoDigits (getUTCSeconds u)"
    "padded 3 (nat (getUTCMilliseconds t)) = padded 3 (nat (getUTCMilliseconds u))"
    using r by simp_all
  have year: "getUTCFullYear t = getUTCFullYear u" using yearText_inject [OF year_bound [OF v(1)] year_bound [OF v(2)] y] .
  have day: "getUTCMonth t = getUTCMonth u" "getUTCDate t = getUTCDate u"
    using two(1,2) date_fields(1-4) [of t] date_fields(1-4) [of u] by (simp_all add: twoDigits_inject)
  have clock: "getUTCHours t = getUTCHours u" "getUTCMinutes t = getUTCMinutes u"
    using two(3,4) field_ranges [of t] field_ranges [of u] by (simp_all add: twoDigits_inject)
  have sec: "getUTCSeconds t = getUTCSeconds u" using two(5) by (subst (asm) twoDigits_inject) (simp_all add: getUTCSeconds_def)
  have "nat (getUTCMilliseconds t) = nat (getUTCMilliseconds u)"
    using two(6) by (subst (asm) padded_inject) (simp_all add: getUTCMilliseconds_def nat_less_iff)
  then have ms: "getUTCMilliseconds t = getUTCMilliseconds u" by (simp add: getUTCMilliseconds_def eq_nat_nat_iff)
  have "dayOf t = dayOf u" using date_fields(5) [of t] date_fields(5) [of u] year day by simp
  then show ?thesis using time_fields [of t] time_fields [of u] clock sec ms by simp
qed

end
