(* ===== verification/Ban_Merge.thy ===== *)
theory Ban_Merge
  imports Iso_Date Prelude "HOL-Library.List_Lexorder"
begin

text \<open>
  The merging of an external ban list into the table \<^verbatim>\<open>external_bans\<close>: \<^verbatim>\<open>apps/workers/ban-sync/src/merge.ts\<close> with the
  table's constraints (\<^verbatim>\<open>packages/db/src/schema/external-ban-sources.ts\<close>).  A JSON number is kept as its text.
\<close>

section \<open>Records and rows\<close>

datatype bjson = BNull | BTrue | BFalse | BNum jstr | BStr jstr | BArr "bjson list" | BObj "(jstr \<times> bjson) list"

record parsed_ban =
  pb_steamId64 :: "string option"
  pb_eosId :: "string option"
  pb_nickname :: "string option"
  pb_reason :: "string option"
  pb_adminName :: "string option"
  pb_issuedAt :: "time option"
  pb_expiresAt :: "time option"
  pb_raw :: "bjson option"

record ban_row =
  eb_id :: string
  eb_sourceId :: string
  eb_steamId64 :: "string option"
  eb_eosId :: "string option"
  eb_nickname :: "string option"
  eb_reason :: "string option"
  eb_adminName :: "string option"
  eb_issuedAt :: "time option"
  eb_expiresAt :: "time option"
  eb_raw :: bjson
  eb_revokedAt :: "time option"

record merge_update =
  mu_id :: string
  mu_nickname :: "string option"
  mu_reason :: "string option"
  mu_adminName :: "string option"
  mu_expiresAt :: "time option"
  mu_raw :: "bjson option"

record merge_plan =
  mp_toInsert :: "parsed_ban list"
  mp_toUpdate :: "merge_update list"
  mp_toRevokeIds :: "string list"
  mp_skippedDuplicateKeys :: nat

section \<open>Keys and comparison\<close>

definition dedupKey :: "string option \<Rightarrow> string option \<Rightarrow> time option \<Rightarrow> string" where
  "dedupKey steamId64 eosId issuedAt =
     orElse steamId64 [] @ ''|'' @ orElse eosId [] @ ''|'' @ (case issuedAt of None \<Rightarrow> ''epoch'' | Some t \<Rightarrow> toISOString t)"

definition rowKey :: "ban_row \<Rightarrow> string" where
  "rowKey r = dedupKey (eb_steamId64 r) (eb_eosId r) (eb_issuedAt r)"

definition banKey :: "parsed_ban \<Rightarrow> string" where
  "banKey b = dedupKey (pb_steamId64 b) (pb_eosId b) (pb_issuedAt b)"

definition hexDigit :: "nat \<Rightarrow> nat" where "hexDigit d = (if d < 10 then 48 + d else 87 + d)"

definition unicodeEscape :: "nat \<Rightarrow> jstr" where
  "unicodeEscape c = [92, 117, hexDigit (c div 4096), hexDigit (c div 256 mod 16), hexDigit (c div 16 mod 16), hexDigit (c mod 16)]"

definition highSurrogate :: "nat \<Rightarrow> bool" where "highSurrogate c \<longleftrightarrow> 0xD800 \<le> c \<and> c \<le> 0xDBFF"
definition lowSurrogate :: "nat \<Rightarrow> bool" where "lowSurrogate c \<longleftrightarrow> 0xDC00 \<le> c \<and> c \<le> 0xDFFF"

definition quoteUnit :: "nat \<Rightarrow> jstr" where
  "quoteUnit c =
     (if c = 34 then [92, 34] else if c = 92 then [92, 92] else if c = 8 then [92, 98] else if c = 9 then [92, 116]
      else if c = 10 then [92, 110] else if c = 12 then [92, 102] else if c = 13 then [92, 114]
      else if c < 32 \<or> highSurrogate c \<or> lowSurrogate c then unicodeEscape c else [c])"

text \<open>\<^verbatim>\<open>JSON.stringify\<close> of a string; a surrogate pair is kept, a lone surrogate escaped.\<close>

fun quoteUnits :: "jstr \<Rightarrow> jstr" where
  "quoteUnits (a # b # s) = (if highSurrogate a \<and> lowSurrogate b then a # b # quoteUnits s else quoteUnit a @ quoteUnits (b # s))"
| "quoteUnits [a] = quoteUnit a"
| "quoteUnits [] = []"

definition jsonQuote :: "jstr \<Rightarrow> jstr" where "jsonQuote s = [34] @ quoteUnits s @ [34]"

fun canonicalJson :: "bjson \<Rightarrow> jstr" where
  "canonicalJson (BArr vs) = [91] @ join_with [44] (map canonicalJson vs) @ [93]"
| "canonicalJson (BObj es) =
     [123] @ join_with [44] (map snd (sort_key fst (map (\<lambda>(k, v). (k, jsonQuote k @ [58] @ canonicalJson v)) es))) @ [125]"
| "canonicalJson (BStr s) = jsonQuote s"
| "canonicalJson (BNum s) = s"
| "canonicalJson BNull = map of_char ''null''"
| "canonicalJson BTrue = map of_char ''true''"
| "canonicalJson BFalse = map of_char ''false''"

definition emptyObject :: bjson where "emptyObject = BObj []"

definition nonNull :: "bjson option \<Rightarrow> bjson" where
  "nonNull v = (case v of None \<Rightarrow> emptyObject | Some BNull \<Rightarrow> emptyObject | Some j \<Rightarrow> j)"

definition fieldsDiffer :: "ban_row \<Rightarrow> parsed_ban \<Rightarrow> bool" where
  "fieldsDiffer existing incoming =
     (if eb_nickname existing \<noteq> pb_nickname incoming then True
      else if eb_reason existing \<noteq> pb_reason incoming then True
      else if eb_adminName existing \<noteq> pb_adminName incoming then True
      else if eb_expiresAt existing \<noteq> pb_expiresAt incoming then True
      else if canonicalJson (nonNull (Some (eb_raw existing))) \<noteq> canonicalJson (nonNull (pb_raw incoming)) then True
      else eb_revokedAt existing \<noteq> None)"

section \<open>The plan\<close>

record merge_state =
  ms_toInsert :: "parsed_ban list"
  ms_toUpdate :: "merge_update list"
  ms_seenKeys :: "string list"
  ms_skipped :: nat

definition updateOf :: "ban_row \<Rightarrow> parsed_ban \<Rightarrow> merge_update" where
  "updateOf row b = \<lparr>mu_id = eb_id row, mu_nickname = pb_nickname b, mu_reason = pb_reason b, mu_adminName = pb_adminName b,
     mu_expiresAt = pb_expiresAt b, mu_raw = pb_raw b\<rparr>"

definition mergeStep :: "(string \<times> ban_row) list \<Rightarrow> merge_state \<Rightarrow> parsed_ban \<Rightarrow> merge_state" where
  "mergeStep existingByKey ms b =
     (let key = banKey b
      in if key \<in> set (ms_seenKeys ms) then ms\<lparr>ms_skipped := Suc (ms_skipped ms)\<rparr>
         else let ms1 = ms\<lparr>ms_seenKeys := js_add key (ms_seenKeys ms)\<rparr>
              in case map_of existingByKey key of
                   None \<Rightarrow> ms1\<lparr>ms_toInsert := ms_toInsert ms1 @ [b]\<rparr>
                 | Some row \<Rightarrow>
                     if fieldsDiffer row b then ms1\<lparr>ms_toUpdate := ms_toUpdate ms1 @ [updateOf row b]\<rparr> else ms1)"

definition indexRows :: "ban_row list \<Rightarrow> (string \<times> ban_row) list" where
  "indexRows existing = foldl (\<lambda>m row. map_put (rowKey row) row m) [] existing"

definition planMerge :: "ban_row list \<Rightarrow> parsed_ban list \<Rightarrow> merge_plan" where
  "planMerge existing incoming =
     (let ms = foldl (mergeStep (indexRows existing)) \<lparr>ms_toInsert = [], ms_toUpdate = [], ms_seenKeys = [], ms_skipped = 0\<rparr> incoming
      in \<lparr>mp_toInsert = ms_toInsert ms, mp_toUpdate = ms_toUpdate ms,
          mp_toRevokeIds = map eb_id (filter (\<lambda>row. eb_revokedAt row = None \<and> rowKey row \<notin> set (ms_seenKeys ms)) existing),
          mp_skippedDuplicateKeys = ms_skipped ms\<rparr>)"

section \<open>Applying it\<close>

definition MERGE_BATCH_SIZE :: nat where "MERGE_BATCH_SIZE = 1000"
definition UPDATE_BATCH_ROWS :: nat where "UPDATE_BATCH_ROWS = 500"

text \<open>The size is one of the two constants, so positive.\<close>

function chunk :: "nat \<Rightarrow> 'a list \<Rightarrow> 'a list list" where
  "chunk n items = (if items = [] \<or> n = 0 then [] else take n items # chunk n (drop n items))"
  by pat_completeness auto
termination
  by (relation "measure (\<lambda>(n, items). length items)") auto

declare chunk.simps [simp del]

text \<open>The unique index \<^verbatim>\<open>external_bans_dedup_key\<close>.\<close>

definition dbKey :: "ban_row \<Rightarrow> string \<times> string \<times> string \<times> time" where
  "dbKey r = (eb_sourceId r, orElse (eb_steamId64 r) [], orElse (eb_eosId r) [], orElse (eb_issuedAt r) 0)"

definition newRow :: "string \<Rightarrow> string \<Rightarrow> parsed_ban \<Rightarrow> ban_row" where
  "newRow i sourceId b = \<lparr>eb_id = i, eb_sourceId = sourceId, eb_steamId64 = pb_steamId64 b, eb_eosId = pb_eosId b,
     eb_nickname = pb_nickname b, eb_reason = pb_reason b, eb_adminName = pb_adminName b, eb_issuedAt = pb_issuedAt b,
     eb_expiresAt = pb_expiresAt b, eb_raw = nonNull (pb_raw b), eb_revokedAt = None\<rparr>"

text \<open>
  One row of an \<^verbatim>\<open>INSERT .. ON CONFLICT DO NOTHING\<close>: the row and the number of rows inserted, or None where the check
  \<^verbatim>\<open>external_bans_identity_chk\<close> fails.
\<close>

definition insertBan :: "string \<Rightarrow> string \<times> parsed_ban \<Rightarrow> ban_row list \<times> nat \<Rightarrow> (ban_row list \<times> nat) option" where
  "insertBan sourceId ib tn =
     (let row = newRow (fst ib) sourceId (snd ib)
      in if eb_steamId64 row = None \<and> eb_eosId row = None then None
         else if list_ex (\<lambda>r. dbKey r = dbKey row \<or> eb_id r = eb_id row) (fst tn) then Some tn
         else Some (fst tn @ [row], Suc (snd tn)))"

fun insertBans :: "string \<Rightarrow> (string \<times> parsed_ban) list \<Rightarrow> ban_row list \<times> nat \<Rightarrow> (ban_row list \<times> nat) option" where
  "insertBans sourceId [] tn = Some tn"
| "insertBans sourceId (ib # ibs) tn =
     (case insertBan sourceId ib tn of None \<Rightarrow> None | Some tn' \<Rightarrow> insertBans sourceId ibs tn')"

fun insertBatches :: "string \<Rightarrow> (string \<times> parsed_ban) list list \<Rightarrow> ban_row list \<times> nat \<Rightarrow> (ban_row list \<times> nat) option" where
  "insertBatches sourceId [] tn = Some tn"
| "insertBatches sourceId (batch # batches) tn =
     (case insertBans sourceId batch tn of None \<Rightarrow> None | Some tn' \<Rightarrow> insertBatches sourceId batches tn')"

definition updateBan :: "ban_row list \<Rightarrow> merge_update \<Rightarrow> ban_row list" where
  "updateBan rows u =
     update_rows (\<lambda>r. eb_id r = mu_id u)
       (\<lambda>r. r\<lparr>eb_nickname := mu_nickname u, eb_reason := mu_reason u, eb_adminName := mu_adminName u,
              eb_expiresAt := mu_expiresAt u, eb_raw := nonNull (mu_raw u), eb_revokedAt := None\<rparr>) rows"

definition revokeBans :: "time \<Rightarrow> ban_row list \<Rightarrow> string list \<Rightarrow> ban_row list" where
  "revokeBans now rows ids =
     update_rows (\<lambda>r. eb_id r \<in> set ids \<and> eb_revokedAt r = None) (\<lambda>r. r\<lparr>eb_revokedAt := Some now\<rparr>) rows"

record apply_result =
  ar_added :: nat
  ar_updated :: nat
  ar_revoked :: nat

text \<open>The transaction: None rolls back.  \<open>ids\<close> are the identifiers generated for the inserted rows.\<close>

definition applyMergePlan :: "time \<Rightarrow> string list \<Rightarrow> string \<Rightarrow> merge_plan \<Rightarrow> ban_row list \<Rightarrow> (ban_row list \<times> apply_result) option" where
  "applyMergePlan now ids sourceId plan rows =
     (case insertBatches sourceId (chunk MERGE_BATCH_SIZE (zip ids (mp_toInsert plan))) (rows, 0) of
        None \<Rightarrow> None
      | Some (rows1, added) \<Rightarrow>
          (let rows2 = foldl (foldl updateBan) rows1 (chunk UPDATE_BATCH_ROWS (mp_toUpdate plan));
               rows3 = foldl (revokeBans now) rows2 (chunk MERGE_BATCH_SIZE (mp_toRevokeIds plan))
           in Some (rows3, \<lparr>ar_added = added, ar_updated = length (mp_toUpdate plan), ar_revoked = length (mp_toRevokeIds plan)\<rparr>)))"

definition loadExistingBans :: "string \<Rightarrow> ban_row list \<Rightarrow> ban_row list" where
  "loadExistingBans sourceId rows = filter (\<lambda>r. eb_sourceId r = sourceId) rows"

text \<open>The merge of one sync: read, plan, apply.\<close>

definition mergeSource :: "time \<Rightarrow> string list \<Rightarrow> string \<Rightarrow> parsed_ban list \<Rightarrow> ban_row list \<Rightarrow> (ban_row list \<times> apply_result) option" where
  "mergeSource now ids sourceId incoming rows =
     applyMergePlan now ids sourceId (planMerge (loadExistingBans sourceId rows) incoming) rows"

section \<open>Keys that keep bans apart\<close>

text \<open>Identifiers without the separator, and dates other than the epoch itself.\<close>

definition cleanIds :: "string option \<Rightarrow> string option \<Rightarrow> time option \<Rightarrow> bool" where
  "cleanIds steamId64 eosId issuedAt \<longleftrightarrow>
     CHR ''|'' \<notin> set (orElse steamId64 []) \<and> CHR ''|'' \<notin> set (orElse eosId [])
     \<and> (\<forall>t. issuedAt = Some t \<longrightarrow> validDate t \<and> t \<noteq> 0)"

definition cleanBan :: "parsed_ban \<Rightarrow> bool" where
  "cleanBan b \<longleftrightarrow> cleanIds (pb_steamId64 b) (pb_eosId b) (pb_issuedAt b) \<and> (pb_steamId64 b \<noteq> None \<or> pb_eosId b \<noteq> None)"

definition cleanRow :: "ban_row \<Rightarrow> bool" where
  "cleanRow r \<longleftrightarrow> cleanIds (eb_steamId64 r) (eb_eosId r) (eb_issuedAt r)"

lemma split_first:
  assumes "c \<notin> set a" "c \<notin> set b" "a @ c # x = b @ c # y"
  shows "a = b \<and> x = y"
  using assms(3,1,2) by (induction a b rule: list_induct2') auto

lemma iso_not_epoch: "toISOString t \<noteq> ''epoch''"
proof
  assume "toISOString t = ''epoch''"
  then have "length (toISOString t) = 5" by simp
  then show False by (simp add: toISOString_def)
qed

lemma dedupKey_eq:
  assumes "cleanIds s e t" "cleanIds s' e' t'"
  shows "dedupKey s e t = dedupKey s' e' t' \<longleftrightarrow> orElse s [] = orElse s' [] \<and> orElse e [] = orElse e' [] \<and> t = t'"
proof
  let ?iso = "\<lambda>t. case t of None \<Rightarrow> ''epoch'' | Some t \<Rightarrow> toISOString t"
  assume "dedupKey s e t = dedupKey s' e' t'"
  then have eq: "orElse s [] @ CHR ''|'' # orElse e [] @ CHR ''|'' # ?iso t = orElse s' [] @ CHR ''|'' # orElse e' [] @ CHR ''|'' # ?iso t'"
    by (simp add: dedupKey_def)
  have no: "CHR ''|'' \<notin> set (orElse s [])" "CHR ''|'' \<notin> set (orElse s' [])" "CHR ''|'' \<notin> set (orElse e [])" "CHR ''|'' \<notin> set (orElse e' [])"
    using assms by (simp_all add: cleanIds_def)
  have one: "orElse s [] = orElse s' [] \<and> orElse e [] @ CHR ''|'' # ?iso t = orElse e' [] @ CHR ''|'' # ?iso t'"
    by (rule split_first [OF no(1,2) eq])
  have two: "orElse e [] = orElse e' [] \<and> ?iso t = ?iso t'" by (rule split_first [OF no(3,4) conjunct2 [OF one]])
  have "t = t'"
    using conjunct2 [OF two] assms iso_not_epoch iso_not_epoch [symmetric] toISOString_inject
    by (cases t; cases t') (auto simp: cleanIds_def)
  with one two show "orElse s [] = orElse s' [] \<and> orElse e [] = orElse e' [] \<and> t = t'" by blast
next
  assume "orElse s [] = orElse s' [] \<and> orElse e [] = orElse e' [] \<and> t = t'"
  then show "dedupKey s e t = dedupKey s' e' t'" by (simp add: dedupKey_def)
qed

lemma dbKey_rowKey:
  assumes "cleanRow r" "cleanRow r'"
  shows "dbKey r = dbKey r' \<longleftrightarrow> eb_sourceId r = eb_sourceId r' \<and> rowKey r = rowKey r'"
proof -
  have "orElse (eb_issuedAt r) 0 = orElse (eb_issuedAt r') 0 \<longleftrightarrow> eb_issuedAt r = eb_issuedAt r'"
    using assms by (cases "eb_issuedAt r"; cases "eb_issuedAt r'") (auto simp: cleanRow_def cleanIds_def)
  then show ?thesis using dedupKey_eq assms by (simp add: dbKey_def rowKey_def cleanRow_def)
qed

lemma newRow_sel [simp]:
  "eb_id (newRow i s b) = i" "eb_sourceId (newRow i s b) = s" "eb_revokedAt (newRow i s b) = None"
  "rowKey (newRow i s b) = banKey b" "cleanBan b \<Longrightarrow> cleanRow (newRow i s b)"
  by (simp_all add: newRow_def rowKey_def banKey_def cleanBan_def cleanRow_def)

section \<open>Batches\<close>

lemma chunk_Nil [simp]: "chunk n [] = []"
  by (simp add: chunk.simps)

lemma concat_chunk: "0 < n \<Longrightarrow> concat (chunk n xs) = xs"
proof (induction n xs rule: chunk.induct)
  case (1 n xs)
  then show ?case by (cases "xs = []") (simp_all add: chunk.simps [of n xs])
qed

lemma chunk_bound: "c \<in> set (chunk n xs) \<Longrightarrow> c \<noteq> [] \<and> length c \<le> n"
proof (induction n xs rule: chunk.induct)
  case (1 n xs)
  then show ?case by (cases "xs = [] \<or> n = 0") (auto simp: chunk.simps [of n xs])
qed

lemma insertBans_append:
  "insertBans s (xs @ ys) tn = (case insertBans s xs tn of None \<Rightarrow> None | Some tn' \<Rightarrow> insertBans s ys tn')"
  by (induction xs arbitrary: tn) (auto split: option.split)

lemma insertBatches_concat: "insertBatches s bs tn = insertBans s (concat bs) tn"
  by (induction bs arbitrary: tn) (auto simp: insertBans_append split: option.split)

lemma foldl_concat: "foldl (foldl f) a xss = foldl f a (concat xss)"
  by (induction xss arbitrary: a) simp_all

lemma revoke_append: "revokeBans now (revokeBans now rows a) b = revokeBans now rows (a @ b)"
  by (auto simp: revokeBans_def update_rows_def)

lemma revoke_batches: "foldl (revokeBans now) rows idss = revokeBans now rows (concat idss)"
proof (induction idss arbitrary: rows)
  case Nil
  then show ?case by (simp add: revokeBans_def)
next
  case (Cons ids idss)
  then show ?case by (simp add: revoke_append)
qed

text \<open>The batches change nothing: the transaction is the inserts, the updates and the revocations in a row.\<close>

lemma apply_unbatched:
  "applyMergePlan now ids s plan rows =
     map_option (\<lambda>(rows1, added). (revokeBans now (foldl updateBan rows1 (mp_toUpdate plan)) (mp_toRevokeIds plan),
         \<lparr>ar_added = added, ar_updated = length (mp_toUpdate plan), ar_revoked = length (mp_toRevokeIds plan)\<rparr>))
       (insertBans s (zip ids (mp_toInsert plan)) (rows, 0))"
  by (simp add: applyMergePlan_def insertBatches_concat concat_chunk MERGE_BATCH_SIZE_def UPDATE_BATCH_ROWS_def foldl_concat revoke_batches
      split: option.split)

section \<open>What is planned\<close>

text \<open>The records that count: the first of each key.\<close>

fun firsts :: "string set \<Rightarrow> parsed_ban list \<Rightarrow> parsed_ban list" where
  "firsts seen [] = []"
| "firsts seen (b # bs) = (if banKey b \<in> seen then firsts seen bs else b # firsts (insert (banKey b) seen) bs)"

definition updates :: "(string \<times> ban_row) list \<Rightarrow> parsed_ban \<Rightarrow> merge_update list" where
  "updates existingByKey b =
     (case map_of existingByKey (banKey b) of None \<Rightarrow> [] | Some row \<Rightarrow> if fieldsDiffer row b then [updateOf row b] else [])"

lemma firsts_keys: "distinct (map banKey (firsts seen bs)) \<and> set (firsts seen bs) \<subseteq> set bs
    \<and> banKey ` set (firsts seen bs) = banKey ` set bs - seen"
proof (induction bs arbitrary: seen)
  case (Cons b bs)
  show ?case
  proof (cases "banKey b \<in> seen")
    case True
    then show ?thesis using Cons [of seen] by auto
  next
    case False
    then show ?thesis using Cons [of "insert (banKey b) seen"] by auto
  qed
qed simp

lemma merge_loop:
  "foldl (mergeStep m) ms bs = \<lparr>ms_toInsert = ms_toInsert ms @ filter (\<lambda>b. map_of m (banKey b) = None) (firsts (set (ms_seenKeys ms)) bs),
     ms_toUpdate = ms_toUpdate ms @ concat (map (updates m) (firsts (set (ms_seenKeys ms)) bs)),
     ms_seenKeys = fold js_add (map banKey bs) (ms_seenKeys ms),
     ms_skipped = ms_skipped ms + (length bs - length (firsts (set (ms_seenKeys ms)) bs))\<rparr>"
proof (induction bs arbitrary: ms)
  case Nil
  then show ?case by simp
next
  case (Cons b bs)
  have len: "length (firsts seen bs) \<le> length bs" for seen bs by (induction bs arbitrary: seen) (auto simp: le_SucI)
  show ?case
  proof (cases "banKey b \<in> set (ms_seenKeys ms)")
    case True
    then show ?thesis using Cons [of "mergeStep m ms b"] len [of "set (ms_seenKeys ms)" bs] by (simp add: mergeStep_def js_add_def Suc_diff_le)
  next
    case False
    then show ?thesis using Cons [of "mergeStep m ms b"]
      by (auto simp: mergeStep_def Let_def updates_def split: option.split)
  qed
qed

lemma indexRows_distinct: "distinct (map rowKey rows) \<Longrightarrow> indexRows rows = map (\<lambda>r. (rowKey r, r)) rows"
proof (induction rows rule: rev_induct)
  case (snoc r rows)
  have "rowKey r \<notin> fst ` set (map (\<lambda>r. (rowKey r, r)) rows)" using snoc.prems by (auto simp: image_image)
  then show ?case using snoc by (simp add: indexRows_def map_put_fresh)
qed (simp add: indexRows_def)

lemma indexRows_lookup:
  assumes "distinct (map rowKey rows)"
  shows "map_of (indexRows rows) k = Some r \<longleftrightarrow> r \<in> set rows \<and> rowKey r = k"
    "map_of (indexRows rows) k = None \<longleftrightarrow> k \<notin> rowKey ` set rows"
proof -
  have "map fst (indexRows rows) = map rowKey rows" using assms by (simp add: indexRows_distinct comp_def)
  then have d: "distinct (map fst (indexRows rows))" using assms by simp
  show "map_of (indexRows rows) k = Some r \<longleftrightarrow> r \<in> set rows \<and> rowKey r = k"
    using map_of_eq_Some_iff [OF d, of k r] by (auto simp: indexRows_distinct [OF assms])
  show "map_of (indexRows rows) k = None \<longleftrightarrow> k \<notin> rowKey ` set rows"
    by (auto simp: map_of_eq_None_iff indexRows_distinct [OF assms] image_image)
qed

lemma set_fold_js_add_keys: "set (fold js_add ks seen) = set ks \<union> set seen"
  by (induction ks arbitrary: seen) (auto simp: js_add_def)

lemma plan_parts:
  assumes "distinct (map rowKey E)"
  shows "mp_toInsert (planMerge E bs) = filter (\<lambda>b. banKey b \<notin> rowKey ` set E) (firsts {} bs)"
    "u \<in> set (mp_toUpdate (planMerge E bs)) \<longleftrightarrow> (\<exists>b \<in> set (firsts {} bs). \<exists>r \<in> set E. rowKey r = banKey b \<and> fieldsDiffer r b \<and> u = updateOf r b)"
    "i \<in> set (mp_toRevokeIds (planMerge E bs)) \<longleftrightarrow> (\<exists>r \<in> set E. eb_id r = i \<and> eb_revokedAt r = None \<and> rowKey r \<notin> banKey ` set bs)"
proof -
  note lookup = indexRows_lookup [OF assms]
  show "mp_toInsert (planMerge E bs) = filter (\<lambda>b. banKey b \<notin> rowKey ` set E) (firsts {} bs)"
    by (simp add: planMerge_def merge_loop lookup(2))
  have "u \<in> set (updates (indexRows E) b) \<longleftrightarrow> (\<exists>r \<in> set E. rowKey r = banKey b \<and> fieldsDiffer r b \<and> u = updateOf r b)" for b
  proof (cases "map_of (indexRows E) (banKey b)")
    case None
    then show ?thesis using lookup(2) [of "banKey b"] by (force simp: updates_def)
  next
    case (Some row)
    moreover have "r = row" if "r \<in> set E" "rowKey r = banKey b" for r
      using lookup(1) [of "banKey b" r] that Some by simp
    ultimately show ?thesis using lookup(1) [of "banKey b" row] by (auto simp: updates_def)
  qed
  then show "u \<in> set (mp_toUpdate (planMerge E bs)) \<longleftrightarrow> (\<exists>b \<in> set (firsts {} bs). \<exists>r \<in> set E. rowKey r = banKey b \<and> fieldsDiffer r b \<and> u = updateOf r b)"
    by (simp add: planMerge_def merge_loop)
  show "i \<in> set (mp_toRevokeIds (planMerge E bs)) \<longleftrightarrow> (\<exists>r \<in> set E. eb_id r = i \<and> eb_revokedAt r = None \<and> rowKey r \<notin> banKey ` set bs)"
    by (auto simp: planMerge_def merge_loop set_fold_js_add_keys)
qed

section \<open>What is applied\<close>

lemma inserts_all:
  assumes "\<forall>(i, b) \<in> set ibs. cleanBan b" "distinct (map fst ibs)" "distinct (map (banKey \<circ> snd) ibs)"
    "\<forall>r \<in> set rows. eb_id r \<notin> fst ` set ibs" "\<forall>r \<in> set rows. eb_sourceId r = s \<longrightarrow> cleanRow r \<and> rowKey r \<notin> (banKey \<circ> snd) ` set ibs"
  shows "insertBans s ibs (rows, n) = Some (rows @ map (\<lambda>(i, b). newRow i s b) ibs, n + length ibs)"
  using assms
proof (induction ibs arbitrary: rows n)
  case (Cons ib ibs)
  obtain i b where ib: "ib = (i, b)" by fastforce
  let ?row = "newRow i s b"
  have clean: "cleanBan b" using Cons.prems(1) by (simp add: ib)
  have "dbKey r \<noteq> dbKey ?row \<and> eb_id r \<noteq> i" if "r \<in> set rows" for r
  proof (cases "eb_sourceId r = s")
    case True
    then have "cleanRow r" "rowKey r \<noteq> banKey b" "eb_id r \<noteq> i" using Cons.prems(4,5) that by (auto simp: ib)
    then show ?thesis using dbKey_rowKey [of r ?row] clean by simp
  next
    case False
    then show ?thesis using Cons.prems(4) that by (auto simp: ib dbKey_def)
  qed
  then have "\<not> list_ex (\<lambda>r. dbKey r = dbKey ?row \<or> eb_id r = eb_id ?row) rows" by (auto simp: list_ex_iff)
  moreover have "\<not> (eb_steamId64 ?row = None \<and> eb_eosId ?row = None)" using clean by (simp add: newRow_def cleanBan_def)
  ultimately have one: "insertBan s ib (rows, n) = Some (rows @ [?row], Suc n)" by (simp add: insertBan_def Let_def ib)
  have "insertBans s ibs (rows @ [?row], Suc n) = Some ((rows @ [?row]) @ map (\<lambda>(i, b). newRow i s b) ibs, Suc n + length ibs)"
    using Cons.prems clean by (intro Cons.IH) (auto simp: ib rev_image_eqI)
  then show ?case using one by (simp add: ib)
qed simp

definition writeFields :: "merge_update \<Rightarrow> ban_row \<Rightarrow> ban_row" where
  "writeFields u r = r\<lparr>eb_nickname := mu_nickname u, eb_reason := mu_reason u, eb_adminName := mu_adminName u,
     eb_expiresAt := mu_expiresAt u, eb_raw := nonNull (mu_raw u), eb_revokedAt := None\<rparr>"

lemma writeFields_sel [simp]:
  "eb_id (writeFields u r) = eb_id r" "eb_sourceId (writeFields u r) = eb_sourceId r" "rowKey (writeFields u r) = rowKey r"
  "dbKey (writeFields u r) = dbKey r"
  by (simp_all add: writeFields_def rowKey_def dbKey_def)

text \<open>A row after the updates: the last update that names it.\<close>

definition updated :: "merge_update list \<Rightarrow> ban_row \<Rightarrow> ban_row" where
  "updated us r = foldl (\<lambda>r u. if eb_id r = mu_id u then writeFields u r else r) r us"

lemma updates_map: "foldl updateBan rows us = map (updated us) rows"
  by (induction us arbitrary: rows) (simp_all add: updated_def [abs_def] updateBan_def update_rows_def writeFields_def comp_def)

lemma updated_sel [simp]:
  "eb_id (updated us r) = eb_id r" "eb_sourceId (updated us r) = eb_sourceId r" "rowKey (updated us r) = rowKey r" "dbKey (updated us r) = dbKey r"
proof -
  have "eb_id (updated us r) = eb_id r \<and> eb_sourceId (updated us r) = eb_sourceId r \<and> rowKey (updated us r) = rowKey r \<and> dbKey (updated us r) = dbKey r"
    by (induction us arbitrary: r) (simp_all add: updated_def)
  then show "eb_id (updated us r) = eb_id r" "eb_sourceId (updated us r) = eb_sourceId r" "rowKey (updated us r) = rowKey r" "dbKey (updated us r) = dbKey r"
    by blast+
qed

lemma updated_none: "\<forall>u \<in> set us. mu_id u \<noteq> eb_id r \<Longrightarrow> updated us r = r"
  by (induction us) (auto simp: updated_def)

lemma updated_unique:
  assumes "u \<in> set us" "mu_id u = eb_id r" "\<forall>v \<in> set us. mu_id v = eb_id r \<longrightarrow> v = u"
  shows "updated us r = writeFields u r"
proof -
  have idem: "writeFields u (writeFields u r) = writeFields u r" for r by (simp add: writeFields_def)
  have "foldl (\<lambda>r v. if eb_id r = mu_id v then writeFields v r else r) x vs = writeFields u r"
    if "x = writeFields u r \<or> x = r \<and> u \<in> set vs" "set vs \<subseteq> set us" for x vs
    using that
  proof (induction vs arbitrary: x)
    case (Cons v vs)
    show ?case
    proof (cases "mu_id v = eb_id r")
      case True
      then have "v = u" using assms(3) Cons.prems(2) by auto
      then show ?thesis using Cons assms(2) idem by auto
    next
      case False
      then show ?thesis using Cons assms(2) by auto
    qed
  qed auto
  then show ?thesis using assms(1) by (simp add: updated_def)
qed

definition revoked :: "time \<Rightarrow> string list \<Rightarrow> ban_row \<Rightarrow> ban_row" where
  "revoked now ids r = (if eb_id r \<in> set ids \<and> eb_revokedAt r = None then r\<lparr>eb_revokedAt := Some now\<rparr> else r)"

lemma revoke_map: "revokeBans now rows ids = map (revoked now ids) rows"
  by (simp add: revokeBans_def update_rows_def revoked_def [abs_def])

lemma revoked_sel [simp]:
  "eb_id (revoked now ids r) = eb_id r" "eb_sourceId (revoked now ids r) = eb_sourceId r" "rowKey (revoked now ids r) = rowKey r" "dbKey (revoked now ids r) = dbKey r"
  by (simp_all add: revoked_def rowKey_def dbKey_def)

section \<open>The table after a merge\<close>

definition banTable :: "string \<Rightarrow> ban_row list \<Rightarrow> bool" where
  "banTable s rows \<longleftrightarrow> distinct (map eb_id rows) \<and> distinct (map dbKey rows) \<and> (\<forall>r \<in> set rows. eb_sourceId r = s \<longrightarrow> cleanRow r)"

definition finalRow :: "time \<Rightarrow> merge_plan \<Rightarrow> ban_row \<Rightarrow> ban_row" where
  "finalRow now plan r = revoked now (mp_toRevokeIds plan) (updated (mp_toUpdate plan) r)"

lemma finalRow_sel [simp]:
  "eb_id (finalRow now plan r) = eb_id r" "eb_sourceId (finalRow now plan r) = eb_sourceId r"
  "rowKey (finalRow now plan r) = rowKey r" "dbKey (finalRow now plan r) = dbKey r"
  by (simp_all add: finalRow_def)

lemma existing_keys:
  assumes "banTable s rows"
  shows "distinct (map rowKey (loadExistingBans s rows))"
proof -
  have "distinct (map dbKey (loadExistingBans s rows))"
    using assms by (simp add: banTable_def loadExistingBans_def distinct_map_filter)
  moreover have "inj_on rowKey (set (loadExistingBans s rows))"
  proof (rule inj_onI)
    fix x y
    assume xy: "x \<in> set (loadExistingBans s rows)" "y \<in> set (loadExistingBans s rows)" "rowKey x = rowKey y"
    then have "dbKey x = dbKey y" using assms dbKey_rowKey [of x y] by (auto simp: banTable_def loadExistingBans_def)
    then show "x = y" using xy assms by (auto simp: banTable_def loadExistingBans_def distinct_map inj_on_def)
  qed
  ultimately show ?thesis by (simp add: distinct_map)
qed

lemma same_id:
  assumes "banTable s rows" "r \<in> set rows" "q \<in> set rows" "eb_id r = eb_id q"
  shows "r = q"
  using assms by (auto simp: banTable_def distinct_map inj_on_def)

text \<open>The plan of a sync, for a table that meets its constraints.\<close>

definition syncPlan :: "string \<Rightarrow> ban_row list \<Rightarrow> parsed_ban list \<Rightarrow> merge_plan" where
  "syncPlan s rows bs = planMerge (loadExistingBans s rows) bs"

lemma sync_insert:
  assumes "banTable s rows"
  shows "mp_toInsert (syncPlan s rows bs) = filter (\<lambda>b. banKey b \<notin> rowKey ` {r \<in> set rows. eb_sourceId r = s}) (firsts {} bs)"
  using plan_parts(1) [OF existing_keys [OF assms], of bs] by (simp add: syncPlan_def loadExistingBans_def)

lemma sync_update:
  assumes "banTable s rows"
  shows "u \<in> set (mp_toUpdate (syncPlan s rows bs)) \<longleftrightarrow>
    (\<exists>b \<in> set (firsts {} bs). \<exists>r \<in> set rows. eb_sourceId r = s \<and> rowKey r = banKey b \<and> fieldsDiffer r b \<and> u = updateOf r b)"
  using plan_parts(2) [OF existing_keys [OF assms], where u = u and bs = bs] by (simp add: syncPlan_def loadExistingBans_def Bex_def conj_assoc)

lemma sync_revoke:
  assumes "banTable s rows"
  shows "i \<in> set (mp_toRevokeIds (syncPlan s rows bs)) \<longleftrightarrow>
    (\<exists>r \<in> set rows. eb_sourceId r = s \<and> eb_id r = i \<and> eb_revokedAt r = None \<and> rowKey r \<notin> banKey ` set bs)"
  using plan_parts(3) [OF existing_keys [OF assms], where i = i and bs = bs] by (simp add: syncPlan_def loadExistingBans_def Bex_def conj_assoc)

lemma update_of_row:
  assumes t: "banTable s rows" and r: "r \<in> set rows"
    and u: "u \<in> set (mp_toUpdate (syncPlan s rows bs))" "mu_id u = eb_id r"
  shows "\<exists>b \<in> set (firsts {} bs). eb_sourceId r = s \<and> rowKey r = banKey b \<and> fieldsDiffer r b \<and> u = updateOf r b"
proof -
  obtain b q where b: "b \<in> set (firsts {} bs)" and q: "q \<in> set rows" "eb_sourceId q = s" "rowKey q = banKey b" "fieldsDiffer q b" "u = updateOf q b"
    using iffD1 [OF sync_update [OF t] u(1)] by (elim bexE conjE) (rule that)
  have "mu_id u = eb_id q" unfolding q(5) by (simp add: updateOf_def)
  then have "r = q" using u(2) same_id [OF t r q(1)] by simp
  then show ?thesis using b q by blast
qed

lemma revoked_row:
  assumes t: "banTable s rows" and r: "r \<in> set rows"
  shows "eb_id r \<in> set (mp_toRevokeIds (syncPlan s rows bs)) \<longleftrightarrow> eb_sourceId r = s \<and> eb_revokedAt r = None \<and> rowKey r \<notin> banKey ` set bs"
proof -
  have "q = r" if "q \<in> set rows" "eb_id q = eb_id r" for q using same_id [OF t that(1) r that(2)] .
  then show ?thesis unfolding sync_revoke [OF t] using r by blast
qed

text \<open>A row of another source, a row whose ban is gone, and a row whose ban is listed.\<close>

lemma updated_unlisted:
  assumes "banTable s rows" "r \<in> set rows" "eb_sourceId r \<noteq> s \<or> rowKey r \<notin> banKey ` set bs"
  shows "updated (mp_toUpdate (syncPlan s rows bs)) r = r"
proof (rule updated_none, intro ballI notI)
  fix u
  assume u: "u \<in> set (mp_toUpdate (syncPlan s rows bs))" "mu_id u = eb_id r"
  obtain b where "b \<in> set (firsts {} bs)" "eb_sourceId r = s" "rowKey r = banKey b"
    using update_of_row [OF assms(1,2) u] by blast
  then show False using assms(3) firsts_keys [of "{}" bs] by auto
qed

lemma final_other:
  assumes "banTable s rows" "r \<in> set rows" "eb_sourceId r \<noteq> s"
  shows "finalRow now (syncPlan s rows bs) r = r"
  using updated_unlisted [OF assms(1,2), of bs] revoked_row [OF assms(1,2), of bs] assms(3) by (simp add: finalRow_def revoked_def)

lemma final_gone:
  assumes "banTable s rows" "r \<in> set rows" "eb_sourceId r = s" "rowKey r \<notin> banKey ` set bs"
  shows "finalRow now (syncPlan s rows bs) r = (if eb_revokedAt r = None then r\<lparr>eb_revokedAt := Some now\<rparr> else r)"
  using updated_unlisted [OF assms(1,2), of bs] revoked_row [OF assms(1,2), of bs] assms(3,4) by (simp add: finalRow_def revoked_def)

lemma final_listed:
  assumes t: "banTable s rows" and r: "r \<in> set rows" "eb_sourceId r = s" and b: "b \<in> set (firsts {} bs)" "rowKey r = banKey b"
  shows "finalRow now (syncPlan s rows bs) r = (if fieldsDiffer r b then writeFields (updateOf r b) r else r)"
proof -
  let ?us = "mp_toUpdate (syncPlan s rows bs)"
  have inj: "inj_on banKey (set (firsts {} bs))" using firsts_keys [of "{}" bs] by (simp add: distinct_map)
  have only: "v = updateOf r b \<and> fieldsDiffer r b" if v: "v \<in> set ?us" "mu_id v = eb_id r" for v
  proof -
    obtain c where c: "c \<in> set (firsts {} bs)" "rowKey r = banKey c" "fieldsDiffer r c" "v = updateOf r c"
      using update_of_row [OF t r(1) v] by blast
    have "c = b" using inj_onD [OF inj _ c(1) b(1)] b(2) c(2) by simp
    then show ?thesis using c by simp
  qed
  have "updated ?us r = (if fieldsDiffer r b then writeFields (updateOf r b) r else r)"
  proof (cases "fieldsDiffer r b")
    case True
    have "updateOf r b \<in> set ?us"
      unfolding sync_update [OF t] by (rule bexI [OF _ b(1)], rule bexI [OF _ r(1)]) (simp add: r b True)
    moreover have "mu_id (updateOf r b) = eb_id r" by (simp add: updateOf_def)
    moreover have "\<forall>v \<in> set ?us. mu_id v = eb_id r \<longrightarrow> v = updateOf r b" using only by blast
    ultimately have "updated ?us r = writeFields (updateOf r b) r" by (rule updated_unique)
    then show ?thesis using True by simp
  next
    case False
    then have "updated ?us r = r" using only by (intro updated_none) blast
    then show ?thesis using False by simp
  qed
  moreover have "rowKey r \<in> banKey ` set bs" using b firsts_keys [of "{}" bs] by auto
  then have "eb_id r \<notin> set (mp_toRevokeIds (syncPlan s rows bs))" using revoked_row [OF t r(1)] by simp
  ultimately show ?thesis by (simp add: finalRow_def revoked_def)
qed

definition insertedRows :: "string list \<Rightarrow> string \<Rightarrow> ban_row list \<Rightarrow> parsed_ban list \<Rightarrow> ban_row list" where
  "insertedRows ids s rows bs = map (\<lambda>(i, b). newRow i s b) (zip ids (mp_toInsert (syncPlan s rows bs)))"

definition freshIds :: "string list \<Rightarrow> ban_row list \<Rightarrow> bool" where
  "freshIds ids rows \<longleftrightarrow> distinct ids \<and> set ids \<inter> eb_id ` set rows = {}"

lemma zip_parts: "(i, b) \<in> set (zip is bs) \<Longrightarrow> i \<in> set is \<and> b \<in> set bs"
  by (auto dest: set_zip_leftD set_zip_rightD)

lemma inserted_rows:
  assumes t: "banTable s rows" and bs: "list_all cleanBan bs" and ids: "freshIds ids rows"
  shows "insertBans s (zip ids (mp_toInsert (syncPlan s rows bs))) (rows, 0) = Some (rows @ insertedRows ids s rows bs, length (insertedRows ids s rows bs))"
proof -
  let ?ins = "mp_toInsert (syncPlan s rows bs)"
  have sub: "b \<in> set bs \<and> banKey b \<notin> rowKey ` {r \<in> set rows. eb_sourceId r = s}" if "b \<in> set ?ins" for b
    using that firsts_keys [of "{}" bs] unfolding sync_insert [OF t] by auto
  have d: "distinct (map banKey ?ins)"
    unfolding sync_insert [OF t] using firsts_keys [of "{}" bs] by (simp add: distinct_map_filter)
  have "distinct (map (banKey \<circ> snd) (zip ids ?ins))"
    using distinct_take [OF d, of "min (length ids) (length ?ins)"]
    by (simp add: map_map [symmetric] map_snd_zip_take take_map del: map_map)
  moreover have "distinct (map fst (zip ids ?ins))" using ids by (simp add: freshIds_def map_fst_zip_take)
  moreover have "\<forall>(i, b) \<in> set (zip ids ?ins). cleanBan b"
    using zip_parts sub bs by (fastforce simp: list_all_iff)
  moreover have "\<forall>r \<in> set rows. eb_id r \<notin> fst ` set (zip ids ?ins)"
    using zip_parts ids by (fastforce simp: freshIds_def)
  moreover have "cleanRow r \<and> rowKey r \<notin> (banKey \<circ> snd) ` set (zip ids ?ins)" if r: "r \<in> set rows" "eb_sourceId r = s" for r
  proof -
    have "rowKey r \<noteq> banKey b" if "(i, b) \<in> set (zip ids ?ins)" for i b
      using sub [OF conjunct2 [OF zip_parts [OF that]]] r by force
    then have "rowKey r \<notin> (banKey \<circ> snd) ` set (zip ids ?ins)" unfolding image_def by (simp only: mem_Collect_eq) fastforce
    then show ?thesis using t r by (simp add: banTable_def)
  qed
  ultimately show ?thesis using inserts_all [of "zip ids ?ins" rows s 0] by (simp add: insertedRows_def)
qed

lemma inserted_fixed:
  assumes t: "banTable s rows" and ids: "freshIds ids rows" and r: "r \<in> set (insertedRows ids s rows bs)"
  shows "finalRow now (syncPlan s rows bs) r = r"
proof -
  obtain i b where ib: "(i, b) \<in> set (zip ids (mp_toInsert (syncPlan s rows bs)))" "r = newRow i s b"
    using r by (auto simp: insertedRows_def)
  have fresh: "eb_id r \<noteq> eb_id q" if "q \<in> set rows" for q
    using zip_parts [OF ib(1)] ids that by (auto simp: ib(2) freshIds_def)
  have "updated (mp_toUpdate (syncPlan s rows bs)) r = r"
  proof (rule updated_none, intro ballI)
    fix u
    assume "u \<in> set (mp_toUpdate (syncPlan s rows bs))"
    then obtain q b where "q \<in> set rows" "u = updateOf q b" unfolding sync_update [OF t] by blast
    then show "mu_id u \<noteq> eb_id r" using fresh [of q] by (simp add: updateOf_def)
  qed
  moreover have "eb_id r \<notin> set (mp_toRevokeIds (syncPlan s rows bs))"
    unfolding sync_revoke [OF t] using fresh by (metis (no_types))
  ultimately show ?thesis by (simp add: finalRow_def revoked_def)
qed

definition mergeCounts :: "string list \<Rightarrow> string \<Rightarrow> parsed_ban list \<Rightarrow> ban_row list \<Rightarrow> apply_result" where
  "mergeCounts ids s bs rows = \<lparr>ar_added = length (insertedRows ids s rows bs), ar_updated = length (mp_toUpdate (syncPlan s rows bs)),
     ar_revoked = length (mp_toRevokeIds (syncPlan s rows bs))\<rparr>"

lemma merge_result:
  assumes "banTable s rows" "list_all cleanBan bs" "freshIds ids rows"
  shows "mergeSource now ids s bs rows =
    Some (map (finalRow now (syncPlan s rows bs)) rows @ insertedRows ids s rows bs, mergeCounts ids s bs rows)"
proof -
  have "map (finalRow now (syncPlan s rows bs)) (insertedRows ids s rows bs) = insertedRows ids s rows bs"
    using inserted_fixed [OF assms(1,3)] by (intro map_idI)
  then show ?thesis
    unfolding mergeSource_def syncPlan_def [symmetric] apply_unbatched inserted_rows [OF assms]
    by (simp add: updates_map revoke_map finalRow_def [abs_def] comp_def mergeCounts_def)
qed

section \<open>The table mirrors the list\<close>

type_synonym ban_view = "string \<times> string \<times> time option \<times> string option \<times> string option \<times> string option \<times> time option \<times> jstr"

definition viewRow :: "ban_row \<Rightarrow> ban_view" where
  "viewRow r = (orElse (eb_steamId64 r) [], orElse (eb_eosId r) [], eb_issuedAt r, eb_nickname r, eb_reason r, eb_adminName r, eb_expiresAt r,
     canonicalJson (nonNull (Some (eb_raw r))))"

definition viewBan :: "parsed_ban \<Rightarrow> ban_view" where
  "viewBan b = (orElse (pb_steamId64 b) [], orElse (pb_eosId b) [], pb_issuedAt b, pb_nickname b, pb_reason b, pb_adminName b, pb_expiresAt b,
     canonicalJson (nonNull (pb_raw b)))"

definition activeRows :: "string \<Rightarrow> ban_row list \<Rightarrow> ban_row list" where
  "activeRows s rows = filter (\<lambda>r. eb_sourceId r = s \<and> eb_revokedAt r = None) rows"

lemma nonNull_idem [simp]: "nonNull (Some (nonNull v)) = nonNull v"
  by (cases v) (auto simp: nonNull_def emptyObject_def split: bjson.split)

lemma fieldsDiffer_write [simp]: "\<not> fieldsDiffer (writeFields (updateOf r b) r) b"
  by (simp add: fieldsDiffer_def writeFields_def updateOf_def)

lemma fieldsDiffer_new [simp]: "\<not> fieldsDiffer (newRow i s b) b"
  by (simp add: fieldsDiffer_def newRow_def)

lemma same_view:
  assumes "cleanRow r" "cleanBan b" "rowKey r = banKey b" "\<not> fieldsDiffer r b"
  shows "viewRow r = viewBan b \<and> eb_revokedAt r = None"
proof -
  have "orElse (eb_steamId64 r) [] = orElse (pb_steamId64 b) [] \<and> orElse (eb_eosId r) [] = orElse (pb_eosId b) [] \<and> eb_issuedAt r = pb_issuedAt b"
    using assms(1,2,3) dedupKey_eq unfolding cleanRow_def cleanBan_def rowKey_def banKey_def by blast
  then show ?thesis using assms(4) by (simp add: viewRow_def viewBan_def fieldsDiffer_def split: if_splits)
qed

text \<open>A row in step with the list: gone and revoked, or listed with the fields of its record.\<close>

definition inStep :: "parsed_ban list \<Rightarrow> ban_row \<Rightarrow> bool" where
  "inStep bs r \<longleftrightarrow> rowKey r \<notin> banKey ` set bs \<and> eb_revokedAt r \<noteq> None \<or> (\<exists>b \<in> set (firsts {} bs). rowKey r = banKey b \<and> \<not> fieldsDiffer r b)"

lemma first_of_key: "k \<in> banKey ` set bs \<Longrightarrow> \<exists>b \<in> set (firsts {} bs). k = banKey b"
  using firsts_keys [of "{}" bs] by (auto simp: image_iff)

lemma final_inStep:
  assumes t: "banTable s rows" and r: "r \<in> set rows" "eb_sourceId r = s"
  shows "inStep bs (finalRow now (syncPlan s rows bs) r)"
proof (cases "rowKey r \<in> banKey ` set bs")
  case True
  then obtain b where b: "b \<in> set (firsts {} bs)" "rowKey r = banKey b" using first_of_key by blast
  have "\<not> fieldsDiffer (finalRow now (syncPlan s rows bs) r) b" unfolding final_listed [OF t r b] by simp
  then show ?thesis unfolding inStep_def using b by (intro disjI2 bexI [of _ b]) simp_all
next
  case False
  then show ?thesis using final_gone [OF t r False, of now] finalRow_sel(3) [of now "syncPlan s rows bs" r] by (simp add: inStep_def)
qed

lemma inserted_member:
  assumes "r \<in> set (insertedRows ids s rows bs)"
  obtains i b where "i \<in> set ids" "b \<in> set (mp_toInsert (syncPlan s rows bs))" "r = newRow i s b"
  using assms zip_parts unfolding insertedRows_def by fastforce

lemma inserted_inStep:
  assumes "banTable s rows" "r \<in> set (insertedRows ids s rows bs)"
  shows "inStep bs r"
proof -
  obtain i b where ib: "b \<in> set (mp_toInsert (syncPlan s rows bs))" "r = newRow i s b" by (rule inserted_member [OF assms(2)])
  then have "b \<in> set (firsts {} bs)" by (simp add: sync_insert [OF assms(1)])
  then show ?thesis unfolding inStep_def ib(2) by (intro disjI2 bexI [of _ b]) simp_all
qed

text \<open>A merge over a table in step plans nothing.\<close>

lemma merge_settled:
  assumes t: "banTable s rows" "list_all cleanBan bs" "freshIds ids rows"
    and step: "\<forall>r \<in> set rows. eb_sourceId r = s \<longrightarrow> inStep bs r"
    and all: "banKey ` set bs \<subseteq> rowKey ` {r \<in> set rows. eb_sourceId r = s}"
  shows "mergeSource now ids s bs rows = Some (rows, \<lparr>ar_added = 0, ar_updated = 0, ar_revoked = 0\<rparr>)"
proof -
  have "mp_toInsert (syncPlan s rows bs) = []"
    unfolding sync_insert [OF t(1)] filter_empty_conv using all firsts_keys [of "{}" bs] by blast
  then have none: "insertedRows ids s rows bs = []" by (simp add: insertedRows_def)
  have "u \<notin> set (mp_toUpdate (syncPlan s rows bs))" for u
  proof
    assume "u \<in> set (mp_toUpdate (syncPlan s rows bs))"
    then obtain b r where b: "b \<in> set (firsts {} bs)" and r: "r \<in> set rows" "eb_sourceId r = s" "rowKey r = banKey b" "fieldsDiffer r b"
      unfolding sync_update [OF t(1)] by blast
    have "banKey b \<in> banKey ` set bs" using b firsts_keys [of "{}" bs] by blast
    then obtain c where c: "c \<in> set (firsts {} bs)" "rowKey r = banKey c" "\<not> fieldsDiffer r c"
      using step r by (auto simp: inStep_def)
    have inj: "inj_on banKey (set (firsts {} bs))" using firsts_keys [of "{}" bs] by (simp add: distinct_map)
    show False using inj_onD [OF inj _ c(1) b] c(2,3) r(3,4) by simp
  qed
  then have upd: "mp_toUpdate (syncPlan s rows bs) = []" by (cases "mp_toUpdate (syncPlan s rows bs)") auto
  have "i \<notin> set (mp_toRevokeIds (syncPlan s rows bs))" for i
  proof
    assume "i \<in> set (mp_toRevokeIds (syncPlan s rows bs))"
    then obtain r where r: "r \<in> set rows" "eb_sourceId r = s" "eb_revokedAt r = None" "rowKey r \<notin> banKey ` set bs"
      unfolding sync_revoke [OF t(1)] by blast
    have "inStep bs r" using step r(1,2) by blast
    then obtain b where "b \<in> set (firsts {} bs)" "rowKey r = banKey b" using r(3) by (auto simp: inStep_def)
    then show False using r(4) firsts_keys [of "{}" bs] by blast
  qed
  then have rev: "mp_toRevokeIds (syncPlan s rows bs) = []" by (cases "mp_toRevokeIds (syncPlan s rows bs)") auto
  have "map (finalRow now (syncPlan s rows bs)) rows = rows" by (rule map_idI) (simp add: finalRow_def upd rev updated_def revoked_def)
  then show ?thesis using merge_result [OF t(1,2,3), of now] by (simp add: none upd rev mergeCounts_def)
qed

definition mergedRows :: "time \<Rightarrow> string list \<Rightarrow> string \<Rightarrow> parsed_ban list \<Rightarrow> ban_row list \<Rightarrow> ban_row list" where
  "mergedRows now ids s bs rows = map (finalRow now (syncPlan s rows bs)) rows @ insertedRows ids s rows bs"

lemma inserted_keys:
  assumes t: "banTable s rows" and bs: "list_all cleanBan bs"
  shows "distinct (map dbKey (insertedRows ids s rows bs))" "\<forall>r \<in> set (insertedRows ids s rows bs). cleanRow r \<and> dbKey r \<notin> dbKey ` set rows"
proof -
  let ?ins = "mp_toInsert (syncPlan s rows bs)"
  have clean: "\<forall>b \<in> set ?ins. cleanBan b \<and> banKey b \<notin> rowKey ` {r \<in> set rows. eb_sourceId r = s}"
    using bs firsts_keys [of "{}" bs] unfolding sync_insert [OF t] by (auto simp: list_all_iff)
  have d: "distinct (map banKey ?ins)"
    unfolding sync_insert [OF t] using firsts_keys [of "{}" bs] by (simp add: distinct_map_filter)
  have "distinct (map (\<lambda>(i, b). dbKey (newRow i s b)) (zip js xs))"
    if "distinct (map banKey xs)" "\<forall>b \<in> set xs. cleanBan b" for js xs
    using that
  proof (induction js xs rule: list_induct2')
    case (4 i js b xs)
    have "dbKey (newRow i s b) \<noteq> dbKey (newRow j s c)" if "(j, c) \<in> set (zip js xs)" for j c
    proof -
      have "c \<in> set xs" using zip_parts [OF that] by simp
      then have "cleanBan b" "cleanBan c" "banKey b \<noteq> banKey c" using 4 by auto
      then show ?thesis using dbKey_rowKey [of "newRow i s b" "newRow j s c"] by simp
    qed
    then show ?case using 4 by auto
  qed simp_all
  then have "distinct (map (\<lambda>(i, b). dbKey (newRow i s b)) (zip ids ?ins))" using d clean by blast
  then show "distinct (map dbKey (insertedRows ids s rows bs))" by (simp add: insertedRows_def comp_def case_prod_unfold)
  show "\<forall>r \<in> set (insertedRows ids s rows bs). cleanRow r \<and> dbKey r \<notin> dbKey ` set rows"
  proof (intro ballI conjI notI)
    fix r
    assume "r \<in> set (insertedRows ids s rows bs)"
    then obtain i b where b: "b \<in> set ?ins" "r = newRow i s b" by (rule inserted_member)
    then show c: "cleanRow r" using clean by simp
    assume "dbKey r \<in> dbKey ` set rows"
    then obtain q where q: "q \<in> set rows" "dbKey r = dbKey q" by auto
    then have src: "eb_sourceId q = s" using b(2) by (simp add: dbKey_def)
    then have "cleanRow q" using t q by (simp add: banTable_def)
    then have "rowKey q = banKey b" using dbKey_rowKey [OF c, of q] q(2) b(2) by simp
    then show False using clean b(1) q(1) src by force
  qed
qed

lemma final_clean [simp]: "cleanRow (finalRow now p r) = cleanRow r"
proof -
  have "cleanRow (updated us r) = cleanRow r" for us
    by (induction us arbitrary: r) (simp_all add: updated_def writeFields_def cleanRow_def)
  then show ?thesis by (simp add: finalRow_def revoked_def cleanRow_def)
qed

lemma merged_table:
  assumes t: "banTable s rows" "list_all cleanBan bs" "freshIds ids rows"
  shows "banTable s (mergedRows now ids s bs rows)"
proof -
  let ?ins = "mp_toInsert (syncPlan s rows bs)"
  have ids: "map eb_id (insertedRows ids s rows bs) = take (min (length ids) (length ?ins)) ids"
    using map_fst_zip_take [of ids ?ins] by (simp add: insertedRows_def comp_def case_prod_unfold)
  have "distinct (map eb_id (mergedRows now ids s bs rows))"
    using t set_take_subset [of "min (length ids) (length ?ins)" ids]
    by (auto simp: mergedRows_def ids comp_def banTable_def freshIds_def simp del: min_def)
  moreover have "distinct (map dbKey (mergedRows now ids s bs rows))"
  proof -
    have "set (map dbKey rows) \<inter> set (map dbKey (insertedRows ids s rows bs)) = {}"
    proof (rule Int_emptyI)
      fix k
      assume k: "k \<in> set (map dbKey rows)" "k \<in> set (map dbKey (insertedRows ids s rows bs))"
      from k(2) obtain r where r: "r \<in> set (insertedRows ids s rows bs)" "k = dbKey r" unfolding set_map by (rule imageE)
      have "dbKey r \<notin> dbKey ` set rows" using inserted_keys(2) [OF t(1,2), of ids] r(1) by blast
      then show False using k(1) unfolding r(2) set_map by (rule notE)
    qed
    then show ?thesis using inserted_keys(1) [OF t(1,2), of ids] t(1) by (simp add: mergedRows_def comp_def banTable_def)
  qed
  moreover have "\<forall>r \<in> set (mergedRows now ids s bs rows). eb_sourceId r = s \<longrightarrow> cleanRow r"
  proof (intro ballI impI)
    fix r
    assume r: "r \<in> set (mergedRows now ids s bs rows)" "eb_sourceId r = s"
    consider q where "q \<in> set rows" "r = finalRow now (syncPlan s rows bs) q" | "r \<in> set (insertedRows ids s rows bs)"
      using r(1) by (auto simp: mergedRows_def)
    then show "cleanRow r"
    proof cases
      case 1
      then show ?thesis using r(2) t(1) by (simp add: banTable_def)
    next
      case 2
      then show ?thesis using inserted_keys(2) [OF t(1,2)] by blast
    qed
  qed
  ultimately show ?thesis by (simp add: banTable_def)
qed

lemma merged_covers:
  assumes t: "banTable s rows" and len: "length bs \<le> length ids" and b: "b \<in> set (firsts {} bs)"
  shows "\<exists>r \<in> set (mergedRows now ids s bs rows). eb_sourceId r = s \<and> rowKey r = banKey b"
proof (cases "banKey b \<in> rowKey ` {r \<in> set rows. eb_sourceId r = s}")
  case True
  then obtain r where "r \<in> set rows" "eb_sourceId r = s" "rowKey r = banKey b" by auto
  then show ?thesis by (intro bexI [of _ "finalRow now (syncPlan s rows bs) r"]) (simp_all add: mergedRows_def)
next
  case False
  let ?ins = "mp_toInsert (syncPlan s rows bs)"
  have "length (firsts seen xs) \<le> length xs" for seen xs by (induction xs arbitrary: seen) (auto simp: le_SucI)
  then have "length ?ins \<le> length ids"
    unfolding sync_insert [OF t] using len le_trans [OF length_filter_le] le_trans by blast
  moreover have "b \<in> set ?ins" using False b by (simp add: sync_insert [OF t])
  then obtain n where "n < length ?ins" "?ins ! n = b" by (auto simp: in_set_conv_nth)
  ultimately have "(ids ! n, b) \<in> set (zip ids ?ins)" by (auto simp: set_zip intro!: exI [of _ n])
  then have "newRow (ids ! n) s b \<in> set (insertedRows ids s rows bs)" by (force simp: insertedRows_def)
  then show ?thesis by (intro bexI [of _ "newRow (ids ! n) s b"]) (simp_all add: mergedRows_def)
qed

lemma merged_inStep:
  assumes "banTable s rows" "r \<in> set (mergedRows now ids s bs rows)" "eb_sourceId r = s"
  shows "inStep bs r"
proof -
  consider q where "q \<in> set rows" "r = finalRow now (syncPlan s rows bs) q" | "r \<in> set (insertedRows ids s rows bs)"
    using assms(2) by (auto simp: mergedRows_def)
  then show ?thesis
  proof cases
    case 1
    then have "eb_sourceId q = s" using assms(3) by simp
    then show ?thesis unfolding 1(2) by (rule final_inStep [OF assms(1) 1(1)])
  next
    case 2
    then show ?thesis by (rule inserted_inStep [OF assms(1)])
  qed
qed

lemma merged_views:
  assumes t: "banTable s rows" and bs: "list_all cleanBan bs" and ids: "freshIds ids rows" "length bs \<le> length ids"
  shows "viewRow ` set (activeRows s (mergedRows now ids s bs rows)) = viewBan ` set (firsts {} bs)"
proof -
  let ?m = "mergedRows now ids s bs rows"
  have clean: "\<forall>b \<in> set (firsts {} bs). cleanBan b" using bs firsts_keys [of "{}" bs] by (auto simp: list_all_iff)
  have rows: "\<forall>r \<in> set ?m. eb_sourceId r = s \<longrightarrow> cleanRow r" using merged_table [OF t bs ids(1)] by (simp add: banTable_def)
  have "viewRow r \<in> viewBan ` set (firsts {} bs)" if "r \<in> set (activeRows s ?m)" for r
  proof -
    have r: "r \<in> set ?m" "eb_sourceId r = s" "eb_revokedAt r = None" using that by (simp_all add: activeRows_def)
    obtain b where b: "b \<in> set (firsts {} bs)" "rowKey r = banKey b" "\<not> fieldsDiffer r b"
      using merged_inStep [OF t r(1,2)] r(3) by (auto simp: inStep_def)
    have "viewRow r = viewBan b" using same_view [of r b] rows clean r b by blast
    then show ?thesis using b(1) by blast
  qed
  moreover have "viewBan b \<in> viewRow ` set (activeRows s ?m)" if b: "b \<in> set (firsts {} bs)" for b
  proof -
    obtain r where r: "r \<in> set ?m" "eb_sourceId r = s" "rowKey r = banKey b" using merged_covers [OF t ids(2) b, of now] by blast
    have "banKey b \<in> banKey ` set bs" using b firsts_keys [of "{}" bs] by blast
    then obtain c where c: "c \<in> set (firsts {} bs)" "rowKey r = banKey c" "\<not> fieldsDiffer r c"
      using merged_inStep [OF t r(1,2)] r(3) by (auto simp: inStep_def)
    have inj: "inj_on banKey (set (firsts {} bs))" using firsts_keys [of "{}" bs] by (simp add: distinct_map)
    have "c = b" using inj_onD [OF inj _ c(1) b] c(2) r(3) by simp
    then have "viewRow r = viewBan b \<and> eb_revokedAt r = None" using same_view [of r b] rows clean r b c by blast
    then show ?thesis using r by (intro image_eqI [of _ _ r]) (simp_all add: activeRows_def)
  qed
  ultimately show ?thesis by blast
qed

lemma merged_others: "banTable s rows \<Longrightarrow> filter (\<lambda>r. eb_sourceId r \<noteq> s) (mergedRows now ids s bs rows) = filter (\<lambda>r. eb_sourceId r \<noteq> s) rows"
proof -
  assume t: "banTable s rows"
  have "filter (\<lambda>r. eb_sourceId r \<noteq> s) (insertedRows ids s rows bs) = []"
    by (auto simp: filter_empty_conv elim: inserted_member)
  moreover have "filter (\<lambda>r. eb_sourceId r \<noteq> s) (map (finalRow now (syncPlan s rows bs)) rs) = filter (\<lambda>r. eb_sourceId r \<noteq> s) rs"
    if "set rs \<subseteq> set rows" for rs
    using that by (induction rs) (auto simp: final_other [OF t])
  ultimately show ?thesis by (simp add: mergedRows_def)
qed

lemma merged_again:
  assumes t: "banTable s rows" "list_all cleanBan bs" "freshIds ids rows" "length bs \<le> length ids" and ids': "freshIds ids' (mergedRows now ids s bs rows)"
  shows "mergeSource now' ids' s bs (mergedRows now ids s bs rows) = Some (mergedRows now ids s bs rows, \<lparr>ar_added = 0, ar_updated = 0, ar_revoked = 0\<rparr>)"
proof (rule merge_settled [OF merged_table [OF t(1,2,3)] t(2) ids'])
  show "\<forall>r \<in> set (mergedRows now ids s bs rows). eb_sourceId r = s \<longrightarrow> inStep bs r" using merged_inStep [OF t(1)] by blast
  show "banKey ` set bs \<subseteq> rowKey ` {r \<in> set (mergedRows now ids s bs rows). eb_sourceId r = s}"
  proof
    fix k
    assume "k \<in> banKey ` set bs"
    then obtain b where b: "b \<in> set (firsts {} bs)" "k = banKey b" using first_of_key by blast
    then show "k \<in> rowKey ` {r \<in> set (mergedRows now ids s bs rows). eb_sourceId r = s}"
      using merged_covers [OF t(1,4) b(1), of now] by (auto simp: image_iff)
  qed
qed

text \<open>
  C14: after a merge the active rows of the source show exactly the bans of its list (of several records with one key the first),
  with their names, reasons, dates and raw records; the rows of other sources are as before and no row is deleted, re-keyed or
  re-identified; a second merge of the same list, at any later time, adds nothing and leaves the table as it is.  The table's
  identifiers and keys are unique, as its constraints demand; the records name a player, their identifiers do not contain the
  separator of the keys and none is dated at the epoch itself.
\<close>

theorem sync_mirrors_source:
  assumes "banTable s rows" "list_all cleanBan incoming" "freshIds ids rows" "length incoming \<le> length ids"
  shows "\<exists>rows' result. mergeSource now ids s incoming rows = Some (rows', result)
    \<and> viewRow ` set (activeRows s rows') = viewBan ` set (firsts {} incoming)
    \<and> filter (\<lambda>r. eb_sourceId r \<noteq> s) rows' = filter (\<lambda>r. eb_sourceId r \<noteq> s) rows
    \<and> map (\<lambda>r. (eb_id r, dbKey r)) (take (length rows) rows') = map (\<lambda>r. (eb_id r, dbKey r)) rows
    \<and> length rows' = length rows + ar_added result
    \<and> (\<forall>later ids'. freshIds ids' rows' \<longrightarrow> 
          mergeSource later ids' s incoming rows' = Some (rows', \<lparr>ar_added = 0, ar_updated = 0, ar_revoked = 0\<rparr>))"
proof (intro exI conjI allI impI)
  let ?m = "mergedRows now ids s incoming rows"
  show "mergeSource now ids s incoming rows = Some (?m, mergeCounts ids s incoming rows)"
    unfolding mergedRows_def by (rule merge_result [OF assms(1,2,3)])
  show "viewRow ` set (activeRows s ?m) = viewBan ` set (firsts {} incoming)" by (rule merged_views [OF assms])
  show "filter (\<lambda>r. eb_sourceId r \<noteq> s) ?m = filter (\<lambda>r. eb_sourceId r \<noteq> s) rows" by (rule merged_others [OF assms(1)])
  show "map (\<lambda>r. (eb_id r, dbKey r)) (take (length rows) ?m) = map (\<lambda>r. (eb_id r, dbKey r)) rows" by (simp add: mergedRows_def comp_def)
  show "length ?m = length rows + ar_added (mergeCounts ids s incoming rows)" by (simp add: mergedRows_def mergeCounts_def)
  show "mergeSource later ids' s incoming ?m = Some (?m, \<lparr>ar_added = 0, ar_updated = 0, ar_revoked = 0\<rparr>)" if "freshIds ids' ?m" for later ids'
    by (rule merged_again [OF assms that])
qed

definition demoListed :: "string \<Rightarrow> time option \<Rightarrow> string \<Rightarrow> parsed_ban" where
  "demoListed steam at reason = \<lparr>pb_steamId64 = Some steam, pb_eosId = None, pb_nickname = None, pb_reason = Some reason, pb_adminName = None,
     pb_issuedAt = at, pb_expiresAt = None, pb_raw = None\<rparr>"

theorem sync_mirrors_source_witness:
  "\<exists>rows' added. mergeSource 5 [''i1'', ''i2''] ''s'' [demoListed ''7'' None ''new'', demoListed ''8'' None ''x'']
      [newRow ''r1'' ''s'' (demoListed ''7'' None ''old''), newRow ''r2'' ''s'' (demoListed ''9'' None ''gone'')] = Some (rows', added)
    \<and> viewRow ` set (activeRows ''s'' rows') = viewBan ` set (firsts {} [demoListed ''7'' None ''new'', demoListed ''8'' None ''x''])"
  using sync_mirrors_source [where s = "''s''" and ids = "[''i1'', ''i2'']" and now = 5
      and incoming = "[demoListed ''7'' None ''new'', demoListed ''8'' None ''x'']"
      and rows = "[newRow ''r1'' ''s'' (demoListed ''7'' None ''old''), newRow ''r2'' ''s'' (demoListed ''9'' None ''gone'')]"]
  by (force simp: banTable_def dbKey_def newRow_def demoListed_def cleanBan_def cleanRow_def cleanIds_def freshIds_def orElse_def)

text \<open>
  The key of the plan tells a ban without a date from one dated at the epoch, the unique index of the table does not: when a source
  starts to date a listed ban at the epoch, the new row is refused as a conflict and the old one revoked, and the listed ban is no longer active.
\<close>

lemma epoch_ban_lost:
  "mergeSource now [i] s [demoListed steam (Some 0) reason] [newRow r s (demoListed steam None reason)]
     = Some ([(newRow r s (demoListed steam None reason))\<lparr>eb_revokedAt := Some now\<rparr>],
             \<lparr>ar_added = 0, ar_updated = 0, ar_revoked = 1\<rparr>)"
proof -
  let ?old = "newRow r s (demoListed steam None reason)"
  let ?ban = "demoListed steam (Some 0) reason"
  have key: "banKey ?ban \<noteq> rowKey ?old" using iso_not_epoch [of 0] by (auto simp: banKey_def demoListed_def dedupKey_def)
  have "planMerge [?old] [?ban] = \<lparr>mp_toInsert = [?ban], mp_toUpdate = [], mp_toRevokeIds = [r], mp_skippedDuplicateKeys = 0\<rparr>"
    using key by (simp add: planMerge_def mergeStep_def indexRows_distinct js_add_def Let_def)
  moreover have "insertBans s [(i, ?ban)] ([?old], 0) = Some ([?old], 0)"
    by (simp add: insertBan_def Let_def newRow_def demoListed_def dbKey_def orElse_def)
  ultimately show ?thesis
    by (simp add: mergeSource_def loadExistingBans_def apply_unbatched revokeBans_def update_rows_def)
qed

end
