(* ===== verification/Ban_Sync.thy ===== *)
theory Ban_Sync
  imports Ban_Merge
begin

text \<open>
  The synchronisation of external ban lists: \<^verbatim>\<open>sync-source.ts\<close>, \<^verbatim>\<open>alerts.ts\<close> and \<^verbatim>\<open>tick.ts\<close> of \<^verbatim>\<open>apps/workers/ban-sync/src\<close>.
  What lies outside of a sync (the key, the network, the parser of the list's format, the failures of the database and of Redis) is a
  record of outcomes per sync; a sync is one atomic step.
\<close>

section \<open>State\<close>

record ban_source =
  so_id :: string
  so_name :: string
  so_url :: string
  so_format :: string
  so_authHeaderEncrypted :: "string option"
  so_parserConfig :: bjson
  so_enabled :: bool
  so_pollIntervalMinutes :: int
  so_lastSyncAt :: "time option"
  so_lastSyncStatus :: "string option"
  so_lastSyncError :: "string option"
  so_importedCount :: nat
  so_consecutiveFailures :: nat

record custom_rule =
  al_id :: string
  al_type :: string
  al_enabled :: bool
  al_eventKind :: "string option"
  al_severity :: "string option"

record sync_alert =
  ae_ruleId :: string
  ae_severity :: string
  ae_sourceId :: string
  ae_sourceName :: string
  ae_error :: string
  ae_consecutiveFailures :: nat

datatype bansync_event =
    BansyncCompleted string apply_result nat int nat
  | BansyncFailed string string nat int

record sync_world =
  sw_bans :: "ban_row list"
  sw_sources :: "ban_source list"
  sw_rules :: "custom_rule list"
  sw_alerts :: "sync_alert list"
  sw_events :: "bansync_event list"
  sw_cacheVersion :: nat

record fetched_list =
  fl_text :: string
  fl_durationMs :: int
  fl_bytes :: nat

text \<open>
  The outcomes of one sync.  An optional string is the error of a step that fails; \<open>ye_alertInserts\<close> is the number of alerts that can be
  written before the database fails, if it does.
\<close>

record source_env =
  ye_startedAt :: time
  ye_appliedAt :: time
  ye_okAt :: time
  ye_failedAt :: time
  ye_ids :: "string list"
  ye_decrypt :: "string \<Rightarrow> string + string"
  ye_fetch :: "string \<Rightarrow> string option \<Rightarrow> string + fetched_list"
  ye_parse :: "string \<Rightarrow> string \<Rightarrow> bjson \<Rightarrow> string + (parsed_ban list \<times> nat)"
  ye_loadError :: "string option"
  ye_applyError :: "string option"
  ye_checkError :: string
  ye_okError :: "string option"
  ye_cacheUp :: bool
  ye_publishUp :: bool
  ye_statusUp :: bool
  ye_alertInserts :: "nat option"

record sync_report =
  sr_ok :: bool
  sr_counts :: apply_result
  sr_skipped :: nat
  sr_durationMs :: int
  sr_bytes :: nat
  sr_error :: "string option"

section \<open>The writes\<close>

definition updateSourceOk :: "string \<Rightarrow> time \<Rightarrow> nat \<Rightarrow> ban_source list \<Rightarrow> ban_source list" where
  "updateSourceOk sourceId lastSyncAt importedCount sources =
     update_rows (\<lambda>s. so_id s = sourceId)
       (\<lambda>s. s\<lparr>so_lastSyncAt := Some lastSyncAt, so_lastSyncStatus := Some ''ok'', so_lastSyncError := None,
              so_importedCount := importedCount, so_consecutiveFailures := 0\<rparr>) sources"

definition updateSourceError :: "string \<Rightarrow> time \<Rightarrow> string \<Rightarrow> nat \<Rightarrow> ban_source list \<Rightarrow> ban_source list" where
  "updateSourceError sourceId lastSyncAt lastSyncError consecutiveFailures sources =
     update_rows (\<lambda>s. so_id s = sourceId)
       (\<lambda>s. s\<lparr>so_lastSyncAt := Some lastSyncAt, so_lastSyncStatus := Some ''error'', so_lastSyncError := Some lastSyncError,
              so_consecutiveFailures := consecutiveFailures\<rparr>) sources"

definition alertOf :: "ban_source \<Rightarrow> string \<Rightarrow> nat \<Rightarrow> custom_rule \<Rightarrow> sync_alert" where
  "alertOf src errorText failures rule =
     \<lparr>ae_ruleId = al_id rule, ae_severity = orElse (al_severity rule) ''warning'', ae_sourceId = so_id src, ae_sourceName = so_name src,
      ae_error = errorText, ae_consecutiveFailures = failures\<rparr>"

definition failureRules :: "custom_rule list \<Rightarrow> custom_rule list" where
  "failureRules rules =
     filter (\<lambda>r. al_eventKind r = Some ''bansync.failed'') (filter (\<lambda>r. al_type r = ''custom'' \<and> al_enabled r) rules)"

definition raiseBanSyncFailureAlert :: "nat option \<Rightarrow> ban_source \<Rightarrow> string \<Rightarrow> nat \<Rightarrow> sync_world \<Rightarrow> sync_world" where
  "raiseBanSyncFailureAlert inserts src errorText failures w =
     (let alerts = map (alertOf src errorText failures) (failureRules (sw_rules w))
      in w\<lparr>sw_alerts := sw_alerts w @ (case inserts of None \<Rightarrow> alerts | Some n \<Rightarrow> take n alerts)\<rparr>)"

section \<open>One sync\<close>

definition ALERT_CONSECUTIVE_FAILURE_THRESHOLD :: nat where "ALERT_CONSECUTIVE_FAILURE_THRESHOLD = 3"

definition noCounts :: apply_result where "noCounts = \<lparr>ar_added = 0, ar_updated = 0, ar_revoked = 0\<rparr>"

definition recordFailure :: "source_env \<Rightarrow> ban_source \<Rightarrow> string \<Rightarrow> sync_world \<Rightarrow> sync_world \<times> sync_report" where
  "recordFailure env src message w =
     (let failures = so_consecutiveFailures src + 1;
          durationMs = ye_failedAt env - ye_startedAt env;
          w1 = (if ye_statusUp env then w\<lparr>sw_sources := updateSourceError (so_id src) (ye_failedAt env) message failures (sw_sources w)\<rparr> else w);
          w2 = (if ye_publishUp env then w1\<lparr>sw_events := sw_events w1 @ [BansyncFailed (so_id src) message failures durationMs]\<rparr> else w1);
          w3 = (if failures = ALERT_CONSECUTIVE_FAILURE_THRESHOLD then raiseBanSyncFailureAlert (ye_alertInserts env) src message failures w2 else w2)
      in (w3, \<lparr>sr_ok = False, sr_counts = noCounts, sr_skipped = 0, sr_durationMs = durationMs, sr_bytes = 0, sr_error = Some message\<rparr>))"

text \<open>The stages that decide the outcome: the world they leave, and an error or the counts, the skipped records and the fetch.\<close>

definition syncStages :: "source_env \<Rightarrow> ban_source \<Rightarrow> sync_world \<Rightarrow> sync_world \<times> (string + apply_result \<times> nat \<times> fetched_list)" where
  "syncStages env src w =
     (case (case so_authHeaderEncrypted src of None \<Rightarrow> Inr None | Some blob \<Rightarrow> map_sum id Some (ye_decrypt env blob)) of
        Inl e \<Rightarrow> (w, Inl e)
      | Inr authHeader \<Rightarrow>
     (case ye_fetch env (so_url src) authHeader of
        Inl e \<Rightarrow> (w, Inl e)
      | Inr fetched \<Rightarrow>
     (case ye_parse env (so_format src) (fl_text fetched) (so_parserConfig src) of
        Inl e \<Rightarrow> (w, Inl e)
      | Inr (records, skipped) \<Rightarrow>
     (case ye_loadError env of
        Some e \<Rightarrow> (w, Inl e)
      | None \<Rightarrow>
     (let plan = planMerge (loadExistingBans (so_id src) (sw_bans w)) records
      in case ye_applyError env of
        Some e \<Rightarrow> (w, Inl e)
      | None \<Rightarrow>
     (case applyMergePlan (ye_appliedAt env) (ye_ids env) (so_id src) plan (sw_bans w) of
        None \<Rightarrow> (w, Inl (ye_checkError env))
      | Some (bans, applied) \<Rightarrow>
     (let w1 = w\<lparr>sw_bans := bans\<rparr>
      in case ye_okError env of
        Some e \<Rightarrow> (w1, Inl e)
      | None \<Rightarrow>
          (w1\<lparr>sw_sources := updateSourceOk (so_id src) (ye_okAt env) (ar_added applied + ar_updated applied) (sw_sources w1)\<rparr>,
           Inr (applied, skipped + mp_skippedDuplicateKeys plan, fetched)))))))))"

definition syncSource :: "source_env \<Rightarrow> ban_source \<Rightarrow> sync_world \<Rightarrow> sync_world \<times> sync_report" where
  "syncSource env src w =
     (case syncStages env src w of
        (w1, Inl e) \<Rightarrow> recordFailure env src e w1
      | (w1, Inr (applied, totalSkipped, fetched)) \<Rightarrow>
          (let w2 = (if ye_cacheUp env then w1\<lparr>sw_cacheVersion := Suc (sw_cacheVersion w1)\<rparr> else w1);
               w3 = (if ye_publishUp env
                     then w2\<lparr>sw_events := sw_events w2 @ [BansyncCompleted (so_id src) applied totalSkipped (fl_durationMs fetched) (fl_bytes fetched)]\<rparr>
                     else w2)
           in (w3, \<lparr>sr_ok = True, sr_counts = applied, sr_skipped = totalSkipped, sr_durationMs = fl_durationMs fetched,
                    sr_bytes = fl_bytes fetched, sr_error = None\<rparr>)))"

section \<open>The poll cycle\<close>

definition BASE_BACKOFF_MS :: int where "BASE_BACKOFF_MS = 60000"
definition MAX_BACKOFF_MS :: int where "MAX_BACKOFF_MS = 60 * 60000"

definition backoffDelayMs :: "nat \<Rightarrow> int" where
  "backoffDelayMs consecutiveFailures = min MAX_BACKOFF_MS (BASE_BACKOFF_MS * 2 ^ consecutiveFailures)"

definition isDue :: "ban_source \<Rightarrow> time \<Rightarrow> bool" where
  "isDue src now =
     (case so_lastSyncAt src of None \<Rightarrow> True | Some t \<Rightarrow> t + so_pollIntervalMinutes src * 60000 \<le> now)"

text \<open>\<open>tk_trace\<close> lists the syncs run, for the statements below.\<close>

record tick_state =
  tk_world :: sync_world
  tk_backoff :: "(string \<times> time) list"
  tk_inFlight :: "string list"
  tk_synced :: nat
  tk_failed :: nat
  tk_skippedBackoff :: nat
  tk_trace :: "(string \<times> bool) list"

definition syncExclusively :: "source_env \<Rightarrow> ban_source \<Rightarrow> tick_state \<Rightarrow> tick_state \<times> sync_report option" where
  "syncExclusively env src st =
     (if so_id src \<in> set (tk_inFlight st) then (st, None)
      else let st1 = st\<lparr>tk_inFlight := js_add (so_id src) (tk_inFlight st)\<rparr>;
               (w, report) = syncSource env src (tk_world st1)
           in (st1\<lparr>tk_world := w, tk_inFlight := filter (\<lambda>i. i \<noteq> so_id src) (tk_inFlight st1), tk_trace := tk_trace st1 @ [(so_id src, sr_ok report)]\<rparr>,
               Some report))"

definition tickSource :: "source_env \<Rightarrow> time \<Rightarrow> ban_source \<Rightarrow> tick_state \<Rightarrow> tick_state" where
  "tickSource env now src st =
     (if \<not> isDue src now then st
      else if (case map_of (tk_backoff st) (so_id src) of None \<Rightarrow> False | Some nextAttemptAt \<Rightarrow> nextAttemptAt > now)
        then st\<lparr>tk_skippedBackoff := Suc (tk_skippedBackoff st)\<rparr>
      else case syncExclusively env src st of
             (st1, None) \<Rightarrow> st1
           | (st1, Some report) \<Rightarrow>
               if sr_ok report then st1\<lparr>tk_backoff := map_del (so_id src) (tk_backoff st1), tk_synced := Suc (tk_synced st1)\<rparr>
               else st1\<lparr>tk_backoff := map_put (so_id src) (now + backoffDelayMs (so_consecutiveFailures src + 1)) (tk_backoff st1),
                        tk_failed := Suc (tk_failed st1)\<rparr>)"

text \<open>The loop: per source whether a shutdown is seen before it, and the outcomes of its sync.\<close>

fun tickLoop :: "time \<Rightarrow> (bool \<times> source_env \<times> ban_source) list \<Rightarrow> tick_state \<Rightarrow> tick_state" where
  "tickLoop now [] st = st"
| "tickLoop now ((stop, env, src) # rest) st = (if stop then st else tickLoop now rest (tickSource env now src st))"

definition listEnabledSources :: "sync_world \<Rightarrow> ban_source list" where
  "listEnabledSources w = filter so_enabled (sw_sources w)"

definition runBanSyncTick :: "time \<Rightarrow> (string \<Rightarrow> bool \<times> source_env) \<Rightarrow> tick_state \<Rightarrow> tick_state" where
  "runBanSyncTick now envs st =
     tickLoop now (map (\<lambda>src. (fst (envs (so_id src)), snd (envs (so_id src)), src)) (listEnabledSources (tk_world st)))
       (st\<lparr>tk_synced := 0, tk_failed := 0, tk_skippedBackoff := 0\<rparr>)"

section \<open>Outages\<close>

text \<open>Syncs of one source in a row, each from the row the table holds then.\<close>

fun runSyncs :: "string \<Rightarrow> source_env list \<Rightarrow> sync_world \<Rightarrow> sync_world \<times> sync_report list" where
  "runSyncs sid [] w = (w, [])"
| "runSyncs sid (env # envs) w =
     (case find_row (\<lambda>s. so_id s = sid) (sw_sources w) of
        None \<Rightarrow> (w, [])
      | Some src \<Rightarrow> (let (w1, report) = syncSource env src w; (w2, reports) = runSyncs sid envs w1 in (w2, report # reports)))"

text \<open>The failures in a row at the end of a list of outcomes, and the number of third failures in a row.\<close>

definition streak :: "bool list \<Rightarrow> nat" where
  "streak oks = length (takeWhile Not (rev oks))"

definition thirdFailures :: "bool list \<Rightarrow> bool list \<Rightarrow> nat" where
  "thirdFailures before oks = length (filter (\<lambda>n. streak (before @ take (Suc n) oks) = 3 ) [0..<length oks])"

lemma streak_snoc [simp]: "streak [] = 0" "streak (oks @ [ok]) = (if ok then 0 else Suc (streak oks))"
  by (simp_all add: streak_def)

lemma thirdFailures_Cons:
  "thirdFailures before (ok # oks) = (if streak (before @ [ok]) = 3 then 1 else 0) + thirdFailures (before @ [ok]) oks"
proof -
  have "[0..<length (ok # oks)] = 0 # map Suc [0..<length oks]" by (simp add: upt_conv_Cons map_Suc_upt del: upt_Suc)
  then show ?thesis by (simp add: thirdFailures_def filter_map comp_def del: upt_Suc)
qed

lemma find_update:
  assumes "find_row (\<lambda>s. so_id s = sid) sources = Some src" "\<And>s. so_id (f s) = so_id s"
  shows "find_row (\<lambda>s. so_id s = sid) (update_rows (\<lambda>s. so_id s = sid) f sources) = Some (f src)"
  using assms by (induction sources) (auto simp: update_rows_def split: if_splits)

lemma stages_world:
  assumes "syncStages env src w = (w1, res)"
  shows "sw_alerts w1 = sw_alerts w" "sw_rules w1 = sw_rules w" "sw_events w1 = sw_events w"
    "res = Inl e \<Longrightarrow> sw_sources w1 = sw_sources w"
    "res = Inr (a, k, f) \<Longrightarrow> sw_sources w1 = updateSourceOk (so_id src) (ye_okAt env) (ar_added a + ar_updated a) (sw_sources w)"
    "res = Inl e \<Longrightarrow> ye_okError env = None \<Longrightarrow> sw_bans w1 = sw_bans w"
  using assms by (auto simp: syncStages_def Let_def split: sum.splits option.splits prod.splits)

lemma syncSource_step:
  assumes src: "find_row (\<lambda>s. so_id s = sid) (sw_sources w) = Some src" and env: "ye_statusUp env" "ye_alertInserts env = None"
    and run: "syncSource env src w = (w1, report)"
  shows "\<exists>src1. find_row (\<lambda>s. so_id s = sid) (sw_sources w1) = Some src1
      \<and> so_consecutiveFailures src1 = (if sr_ok report then 0 else Suc (so_consecutiveFailures src))"
    "sw_rules w1 = sw_rules w"
    "length (sw_alerts w1) = length (sw_alerts w)
      + (if \<not> sr_ok report \<and> Suc (so_consecutiveFailures src) = 3 then length (failureRules (sw_rules w)) else 0)"
proof -
  have sid: "so_id src = sid" using find_row_Some [OF src] by simp
  obtain w0 res where st: "syncStages env src w = (w0, res)" by fastforce
  note stages = stages_world [OF st]
  have all: "(\<exists>src1. find_row (\<lambda>s. so_id s = sid) (sw_sources w1) = Some src1
      \<and> so_consecutiveFailures src1 = (if sr_ok report then 0 else Suc (so_consecutiveFailures src)))
    \<and> sw_rules w1 = sw_rules w
    \<and> length (sw_alerts w1) = length (sw_alerts w)
      + (if \<not> sr_ok report \<and> Suc (so_consecutiveFailures src) = 3 then length (failureRules (sw_rules w)) else 0)"
  proof (cases res)
    case (Inl e)
    have "find_row (\<lambda>s. so_id s = sid) (updateSourceError sid (ye_failedAt env) e (Suc (so_consecutiveFailures src)) (sw_sources w0))
        = Some (src\<lparr>so_lastSyncAt := Some (ye_failedAt env), so_lastSyncStatus := Some ''error'', so_lastSyncError := Some e,
                     so_consecutiveFailures := Suc (so_consecutiveFailures src)\<rparr>)"
      unfolding updateSourceError_def stages(4) [OF Inl] by (rule find_update [OF src]) simp
    then show ?thesis using run st Inl env stages(1,2)
      by (auto simp: syncSource_def recordFailure_def raiseBanSyncFailureAlert_def ALERT_CONSECUTIVE_FAILURE_THRESHOLD_def Let_def sid)
  next
    case (Inr r)
    obtain a k f where r: "r = (a, k, f)" by (cases r) auto
    have "find_row (\<lambda>s. so_id s = sid) (sw_sources w0)
        = Some (src\<lparr>so_lastSyncAt := Some (ye_okAt env), so_lastSyncStatus := Some ''ok'', so_lastSyncError := None,
                     so_importedCount := ar_added a + ar_updated a, so_consecutiveFailures := 0\<rparr>)"
      unfolding stages(5) [OF Inr [unfolded r]] updateSourceOk_def sid by (rule find_update [OF src]) simp
    then show ?thesis using run st Inr stages(1,2) by (auto simp: syncSource_def Let_def r)
  qed
  then show "\<exists>src1. find_row (\<lambda>s. so_id s = sid) (sw_sources w1) = Some src1
      \<and> so_consecutiveFailures src1 = (if sr_ok report then 0 else Suc (so_consecutiveFailures src))"
    "sw_rules w1 = sw_rules w"
    "length (sw_alerts w1) = length (sw_alerts w)
      + (if \<not> sr_ok report \<and> Suc (so_consecutiveFailures src) = 3 then length (failureRules (sw_rules w)) else 0)" by blast+
qed

lemma syncs_history:
  assumes "find_row (\<lambda>s. so_id s = sid) (sw_sources w) = Some src" "so_consecutiveFailures src = streak before"
    "\<forall>env \<in> set envs. ye_statusUp env \<and> ye_alertInserts env = None" "runSyncs sid envs w = (w', reports)"
  shows "length reports = length envs
    \<and> length (sw_alerts w') = length (sw_alerts w) + length (failureRules (sw_rules w)) * thirdFailures before (map sr_ok reports)
    \<and> (\<exists>src'. find_row (\<lambda>s. so_id s = sid) (sw_sources w') = Some src' \<and> so_consecutiveFailures src' = streak (before @ map sr_ok reports))"
  using assms
proof (induction envs arbitrary: w src before reports)
  case Nil
  then show ?case by (simp add: thirdFailures_def)
next
  case (Cons env envs)
  obtain w1 report where one: "syncSource env src w = (w1, report)" by fastforce
  obtain rest where run: "runSyncs sid envs w1 = (w', rest)" "reports = report # rest"
    using Cons.prems(1,4) one by (auto simp: Let_def split: prod.splits)
  have env: "ye_statusUp env" "ye_alertInserts env = None" using Cons.prems(3) by simp_all
  note step = syncSource_step [OF Cons.prems(1) env one]
  obtain src1 where src1: "find_row (\<lambda>s. so_id s = sid) (sw_sources w1) = Some src1"
      "so_consecutiveFailures src1 = (if sr_ok report then 0 else Suc (so_consecutiveFailures src))"
    using step(1) by blast
  have "so_consecutiveFailures src1 = streak (before @ [sr_ok report])" using src1(2) Cons.prems(2) by simp
  then have "length rest = length envs
    \<and> length (sw_alerts w') = length (sw_alerts w1) + length (failureRules (sw_rules w1)) * thirdFailures (before @ [sr_ok report]) (map sr_ok rest)
    \<and> (\<exists>src'. find_row (\<lambda>s. so_id s = sid) (sw_sources w') = Some src' \<and> so_consecutiveFailures src' = streak ((before @ [sr_ok report]) @ map sr_ok rest))"
    using Cons.prems(3) run(1) by (intro Cons.IH [OF src1(1)]) simp_all
  then show ?case using step(2,3) Cons.prems(2) by (simp add: run(2) thirdFailures_Cons algebra_simps)
qed

text \<open>
  C33: over any sequence of syncs of a source, alerts are written exactly when a sync is the third in a row to fail, one per enabled custom rule
  for such failures: once per outage, however long it lasts, and again only after a sync has succeeded.  The source's failure count is the
  length of the current outage.  The writes of the status and of the alerts succeed.
\<close>

theorem outage_alerts_once:
  assumes "find_row (\<lambda>s. so_id s = sid) (sw_sources w) = Some src" "so_consecutiveFailures src = 0"
    "\<forall>env \<in> set envs. ye_statusUp env \<and> ye_alertInserts env = None" "runSyncs sid envs w = (w', reports)"
  shows "length reports = length envs
    \<and> length (sw_alerts w') = length (sw_alerts w) + length (failureRules (sw_rules w)) * thirdFailures [] (map sr_ok reports)
    \<and> map_option so_consecutiveFailures (find_row (\<lambda>s. so_id s = sid) (sw_sources w')) = Some (streak (map sr_ok reports))"
  using syncs_history [OF assms(1) _ assms(3,4), of "[]"] assms(2) by auto

definition demoBanEnv :: "time \<Rightarrow> bool \<Rightarrow> source_env" where
  "demoBanEnv t up = \<lparr>ye_startedAt = t, ye_appliedAt = t, ye_okAt = t, ye_failedAt = t, ye_ids = [''b1''], ye_decrypt = (\<lambda>_. Inl ''key''),
     ye_fetch = (\<lambda>_ _. if up then Inr \<lparr>fl_text = [], fl_durationMs = 5, fl_bytes = 0\<rparr> else Inl ''timeout''),
     ye_parse = (\<lambda>_ _ _. Inr ([], 0)), ye_loadError = None, ye_applyError = None, ye_checkError = ''check'', ye_okError = None,
     ye_cacheUp = True, ye_publishUp = True, ye_statusUp = True, ye_alertInserts = None\<rparr>"

definition demoSource :: ban_source where
  "demoSource = \<lparr>so_id = ''s'', so_name = ''list'', so_url = ''u'', so_format = ''csv'', so_authHeaderEncrypted = None, so_parserConfig = BNull,
     so_enabled = True, so_pollIntervalMinutes = 15, so_lastSyncAt = None, so_lastSyncStatus = None, so_lastSyncError = None,
     so_importedCount = 0, so_consecutiveFailures = 0\<rparr>"

definition demoBanWorld :: sync_world where
  "demoBanWorld = \<lparr>sw_bans = [], sw_sources = [demoSource],
     sw_rules = [\<lparr>al_id = ''r'', al_type = ''custom'', al_enabled = True, al_eventKind = Some ''bansync.failed'', al_severity = None\<rparr>],
     sw_alerts = [], sw_events = [], sw_cacheVersion = 0\<rparr>"

definition demoOutage :: "source_env list" where
  "demoOutage = [demoBanEnv 1 False, demoBanEnv 2 False, demoBanEnv 3 False, demoBanEnv 4 False, demoBanEnv 5 True, demoBanEnv 6 False]"

lemma demo_reports: "map sr_ok (snd (runSyncs ''s'' demoOutage demoBanWorld)) = [False, False, False, False, True, False]"
  by code_simp

theorem outage_alerts_once_witness: "length (sw_alerts (fst (runSyncs ''s'' demoOutage demoBanWorld))) = 1"
proof -
  have "length (failureRules (sw_rules demoBanWorld)) = 1" "thirdFailures [] [False, False, False, False, True, False] = 1" by code_simp+
  moreover have "sw_alerts demoBanWorld = []" by (simp add: demoBanWorld_def)
  moreover have "find_row (\<lambda>s. so_id s = ''s'') (sw_sources demoBanWorld) = Some demoSource" by (simp add: demoBanWorld_def demoSource_def)
  moreover have "so_consecutiveFailures demoSource = 0" by (simp add: demoSource_def)
  moreover have "\<forall>env \<in> set demoOutage. ye_statusUp env \<and> ye_alertInserts env = None" by (simp add: demoOutage_def demoBanEnv_def)
  ultimately show ?thesis
    using outage_alerts_once [of "''s''" demoBanWorld demoSource demoOutage, OF _ _ _ prod.collapse [symmetric]] demo_reports by simp
qed

section \<open>Backoff\<close>

lemma backoff_bounds: "2 * 60000 \<le> backoffDelayMs (Suc n) \<and> backoffDelayMs n \<le> 3600000"
proof -
  have "(2::int) \<le> 2 ^ Suc n" by simp
  then show ?thesis by (simp add: backoffDelayMs_def BASE_BACKOFF_MS_def MAX_BACKOFF_MS_def)
qed

text \<open>The syncs of a source in a part of the trace.\<close>

definition attempts :: "string \<Rightarrow> tick_state \<Rightarrow> tick_state \<Rightarrow> bool list" where
  "attempts sid st st' = map snd (filter (\<lambda>a. fst a = sid) (drop (length (tk_trace st)) (tk_trace st')))"

definition blockedUntil :: "string \<Rightarrow> time \<Rightarrow> tick_state \<Rightarrow> bool" where
  "blockedUntil sid t st \<longleftrightarrow> map_of (tk_backoff st) sid = Some t"

lemma tickSource_other:
  assumes "so_id src \<noteq> sid"
  shows "\<exists>ys. tk_trace (tickSource env now src st) = tk_trace st @ ys \<and> sid \<notin> fst ` set ys"
    "map_of (tk_backoff (tickSource env now src st)) sid = map_of (tk_backoff st) sid"
  using assms by (auto simp: tickSource_def syncExclusively_def Let_def split: option.split prod.split)

lemma tickSource_blocked:
  assumes "blockedUntil (so_id src) t st" "now < t"
  shows "tk_trace (tickSource env now src st) = tk_trace st" "tk_backoff (tickSource env now src st) = tk_backoff st"
  using assms by (auto simp: tickSource_def blockedUntil_def)

lemma tickSource_failed:
  assumes "tk_trace (tickSource env now src st) = tk_trace st @ ys" "(so_id src, False) \<in> set ys"
  shows "blockedUntil (so_id src) (now + backoffDelayMs (so_consecutiveFailures src + 1)) (tickSource env now src st)"
  using assms by (auto simp: tickSource_def syncExclusively_def blockedUntil_def Let_def split: option.splits prod.splits if_splits)

lemma tickSource_trace: "\<exists>ys. tk_trace (tickSource env now src st) = tk_trace st @ ys \<and> set ys \<subseteq> {so_id src} \<times> UNIV"
  by (auto simp: tickSource_def syncExclusively_def Let_def split: option.split prod.split)

lemma loop_blocked:
  assumes "blockedUntil sid t st" "now < t"
  shows "blockedUntil sid t (tickLoop now srcs st) \<and> (\<exists>ys. tk_trace (tickLoop now srcs st) = tk_trace st @ ys \<and> sid \<notin> fst ` set ys)"
  using assms
proof (induction now srcs st rule: tickLoop.induct)
  case (2 now stop env src rest st)
  have one: "blockedUntil sid t (tickSource env now src st) \<and> (\<exists>ys. tk_trace (tickSource env now src st) = tk_trace st @ ys \<and> sid \<notin> fst ` set ys)"
  proof (cases "so_id src = sid")
    case True
    then show ?thesis using tickSource_blocked [of src t st now env] "2.prems" by (simp add: blockedUntil_def)
  next
    case False
    then show ?thesis using tickSource_other [OF False] "2.prems"(1) by (simp add: blockedUntil_def)
  qed
  show ?case
  proof (cases stop)
    case True
    then show ?thesis using "2.prems" by simp
  next
    case False
    obtain ys where ys: "tk_trace (tickSource env now src st) = tk_trace st @ ys" "sid \<notin> fst ` set ys" using one by blast
    have "blockedUntil sid t (tickLoop now rest (tickSource env now src st))
        \<and> (\<exists>zs. tk_trace (tickLoop now rest (tickSource env now src st)) = tk_trace (tickSource env now src st) @ zs \<and> sid \<notin> fst ` set zs)"
      using "2.IH" [OF False] one "2.prems"(2) by blast
    then obtain zs where "blockedUntil sid t (tickLoop now rest (tickSource env now src st))"
        "tk_trace (tickLoop now rest (tickSource env now src st)) = tk_trace st @ ys @ zs" "sid \<notin> fst ` set zs" using ys(1) by auto
    then show ?thesis using False ys(2) by (intro conjI exI [of _ "ys @ zs"]) auto
  qed
qed simp

lemma loop_other:
  assumes "sid \<notin> (so_id \<circ> snd \<circ> snd) ` set srcs"
  shows "map_of (tk_backoff (tickLoop now srcs st)) sid = map_of (tk_backoff st) sid
    \<and> (\<exists>ys. tk_trace (tickLoop now srcs st) = tk_trace st @ ys \<and> sid \<notin> fst ` set ys)"
  using assms
proof (induction now srcs st rule: tickLoop.induct)
  case (2 now stop env src rest st)
  show ?case
  proof (cases stop)
    case True
    then show ?thesis by simp
  next
    case False
    have src: "so_id src \<noteq> sid" and rest: "sid \<notin> (so_id \<circ> snd \<circ> snd) ` set rest" using "2.prems" by auto
    obtain ys where ys: "tk_trace (tickSource env now src st) = tk_trace st @ ys" "sid \<notin> fst ` set ys" using tickSource_other(1) [OF src] by blast
    obtain zs where zs: "tk_trace (tickLoop now rest (tickSource env now src st)) = tk_trace st @ ys @ zs" "sid \<notin> fst ` set zs"
        "map_of (tk_backoff (tickLoop now rest (tickSource env now src st))) sid = map_of (tk_backoff st) sid"
      using "2.IH" [OF False rest] ys(1) tickSource_other(2) [OF src] by auto
    then show ?thesis using False ys(2) by (intro conjI exI [of _ "ys @ zs"]) auto
  qed
qed simp

lemma loop_extends: "\<exists>zs. tk_trace (tickLoop now srcs st) = tk_trace st @ zs"
proof (induction now srcs st rule: tickLoop.induct)
  case (2 now stop env src rest st)
  obtain ys where "tk_trace (tickSource env now src st) = tk_trace st @ ys" using tickSource_trace by blast
  then show ?case using "2.IH" by (cases stop) auto
qed simp

lemma loop_failed:
  assumes "distinct (map (so_id \<circ> snd \<circ> snd) srcs)" "(stop0, env0, src0) \<in> set srcs"
    "tk_trace (tickLoop now srcs st) = tk_trace st @ ys" "(so_id src0, False) \<in> set ys"
  shows "blockedUntil (so_id src0) (now + backoffDelayMs (so_consecutiveFailures src0 + 1)) (tickLoop now srcs st)"
  using assms
proof (induction now srcs st arbitrary: ys rule: tickLoop.induct)
  case (2 now stop env src rest st)
  have run: "\<not> stop" using "2.prems"(3,4) by auto
  let ?st = "tickSource env now src st"
  obtain xs where xs: "tk_trace ?st = tk_trace st @ xs" "set xs \<subseteq> {so_id src} \<times> UNIV" using tickSource_trace by blast
  show ?case
  proof (cases "so_id src = so_id src0")
    case True
    then have rest: "so_id src0 \<notin> (so_id \<circ> snd \<circ> snd) ` set rest" using "2.prems"(1) by auto
    have src: "src = src0" using "2.prems"(2) rest by force
    obtain zs where zs: "tk_trace (tickLoop now rest ?st) = tk_trace ?st @ zs" "so_id src0 \<notin> fst ` set zs"
        "map_of (tk_backoff (tickLoop now rest ?st)) (so_id src0) = map_of (tk_backoff ?st) (so_id src0)"
      using loop_other [OF rest] by blast
    have "ys = xs @ zs" using "2.prems"(3) run xs(1) zs(1) by simp
    then have "(so_id src0, False) \<in> set xs" using "2.prems"(4) zs(2) by force
    then have "blockedUntil (so_id src0) (now + backoffDelayMs (so_consecutiveFailures src0 + 1)) ?st"
      using tickSource_failed [OF xs(1)] src by simp
    then show ?thesis using run zs(3) by (simp add: blockedUntil_def)
  next
    case False
    then have mem: "(stop0, env0, src0) \<in> set rest" using "2.prems"(2) by auto
    obtain zs where zs: "tk_trace (tickLoop now rest ?st) = tk_trace ?st @ zs" using loop_extends by blast
    have "ys = xs @ zs" using "2.prems"(3) run xs(1) zs by simp
    then have "(so_id src0, False) \<in> set zs" using "2.prems"(4) xs(2) False by auto
    then have "blockedUntil (so_id src0) (now + backoffDelayMs (so_consecutiveFailures src0 + 1)) (tickLoop now rest ?st)"
      using "2.prems"(1) by (intro "2.IH" [OF run _ mem zs]) simp_all
    then show ?thesis using run by simp
  qed
qed simp

text \<open>Ticks in a row, each at its time.\<close>

fun runTicks :: "(time \<times> (string \<Rightarrow> bool \<times> source_env)) list \<Rightarrow> tick_state \<Rightarrow> tick_state" where
  "runTicks [] st = st"
| "runTicks ((now, envs) # ticks) st = runTicks ticks (runBanSyncTick now envs st)"

lemma ticks_blocked:
  assumes "blockedUntil sid t st" "\<forall>(now, envs) \<in> set ticks. now < t"
  shows "\<exists>ys. tk_trace (runTicks ticks st) = tk_trace st @ ys \<and> sid \<notin> fst ` set ys"
  using assms
proof (induction ticks arbitrary: st)
  case (Cons tick ticks)
  obtain now envs where tick: "tick = (now, envs)" by fastforce
  have one: "blockedUntil sid t (runBanSyncTick now envs st) \<and> (\<exists>ys. tk_trace (runBanSyncTick now envs st) = tk_trace st @ ys \<and> sid \<notin> fst ` set ys)"
    using loop_blocked [of sid t "st\<lparr>tk_synced := 0, tk_failed := 0, tk_skippedBackoff := 0\<rparr>" now] Cons.prems
    by (simp add: runBanSyncTick_def blockedUntil_def tick)
  obtain ys where ys: "tk_trace (runBanSyncTick now envs st) = tk_trace st @ ys" "sid \<notin> fst ` set ys" using one by blast
  obtain zs where zs: "tk_trace (runTicks ticks (runBanSyncTick now envs st)) = tk_trace (runBanSyncTick now envs st) @ zs" "sid \<notin> fst ` set zs"
    using Cons.IH [OF conjunct1 [OF one]] Cons.prems(2) by auto
  show ?case using ys zs by (intro exI [of _ "ys @ zs"]) (auto simp: tick)
qed simp

text \<open>
  C34: once a tick's sync of a source has failed, no later tick tries that source before the backoff of its failure count has passed, whatever
  the other sources do (manual syncs, which end a backoff when they succeed, apart); the backoff is never below two minutes and never above an hour.
\<close>

theorem failed_source_rests:
  assumes "distinct (map so_id (sw_sources (tk_world st)))" "src \<in> set (sw_sources (tk_world st))"
    "False \<in> set (attempts (so_id src) st (runBanSyncTick now envs st))"
    "\<forall>(later, envs') \<in> set ticks. later < now + backoffDelayMs (so_consecutiveFailures src + 1)"
  shows "attempts (so_id src) (runBanSyncTick now envs st) (runTicks ticks (runBanSyncTick now envs st)) = []
    \<and> 2 * 60000 \<le> backoffDelayMs (so_consecutiveFailures src + 1) \<and> backoffDelayMs (so_consecutiveFailures src + 1) \<le> 3600000"
proof -
  let ?st0 = "st\<lparr>tk_synced := 0, tk_failed := 0, tk_skippedBackoff := 0\<rparr>"
  let ?srcs = "map (\<lambda>src. (fst (envs (so_id src)), snd (envs (so_id src)), src)) (listEnabledSources (tk_world st))"
  have d: "distinct (map (so_id \<circ> snd \<circ> snd) ?srcs)" using assms(1) by (simp add: comp_def listEnabledSources_def distinct_map_filter)
  obtain ys where ys: "tk_trace (tickLoop now ?srcs ?st0) = tk_trace ?st0 @ ys" using loop_extends by blast
  have failed: "(so_id src, False) \<in> set ys" using assms(3) ys by (auto simp: attempts_def runBanSyncTick_def)
  have "so_id src \<in> (so_id \<circ> snd \<circ> snd) ` set ?srcs"
    using loop_other [of "so_id src" ?srcs now ?st0] ys failed by force
  then obtain src1 where "src1 \<in> set (sw_sources (tk_world st))" "so_enabled src1" "so_id src1 = so_id src" by (auto simp: listEnabledSources_def)
  then have "so_enabled src" using assms(1,2) by (auto simp: distinct_map dest: inj_onD)
  then have "(fst (envs (so_id src)), snd (envs (so_id src)), src) \<in> set ?srcs" using assms(2) by (simp add: listEnabledSources_def image_iff)
  then have "blockedUntil (so_id src) (now + backoffDelayMs (so_consecutiveFailures src + 1)) (runBanSyncTick now envs st)"
    unfolding runBanSyncTick_def using loop_failed [OF d _ ys failed] by blast
  then obtain zs where "tk_trace (runTicks ticks (runBanSyncTick now envs st)) = tk_trace (runBanSyncTick now envs st) @ zs" "so_id src \<notin> fst ` set zs"
    using ticks_blocked assms(4) by blast
  then have "attempts (so_id src) (runBanSyncTick now envs st) (runTicks ticks (runBanSyncTick now envs st)) = []"
    by (force simp: attempts_def filter_empty_conv)
  then show ?thesis using backoff_bounds by simp
qed

definition demoTick :: tick_state where
  "demoTick = \<lparr>tk_world = demoBanWorld, tk_backoff = [], tk_inFlight = [], tk_synced = 0, tk_failed = 0, tk_skippedBackoff = 0, tk_trace = []\<rparr>"

definition demoEnvs :: "time \<Rightarrow> string \<Rightarrow> bool \<times> source_env" where
  "demoEnvs t sid = (False, demoBanEnv t False)"

theorem failed_source_rests_witness:
  "attempts ''s'' (runBanSyncTick 0 (demoEnvs 0) demoTick) (runTicks [(60000, demoEnvs 60000)] (runBanSyncTick 0 (demoEnvs 0) demoTick)) = []"
proof -
  have "attempts ''s'' demoTick (runBanSyncTick 0 (demoEnvs 0) demoTick) = [False]" by code_simp
  then show ?thesis
    using failed_source_rests [of demoTick demoSource 0 "demoEnvs 0" "[(60000, demoEnvs 60000)]"]
    by (simp add: demoTick_def demoBanWorld_def demoSource_def backoffDelayMs_def BASE_BACKOFF_MS_def MAX_BACKOFF_MS_def)
qed

end
