(* ===== verification/Spec2Isabelle.thy ===== *)
theory Spec2Isabelle
  imports Role_Safety Rcon_Protocol Bridge_Frame Line_Splitter Audit_Chain Scheduled_Tasks Rotation_Schedule Seed_Schedule Sync_Delivery
    Economy_Safety Seed_Reward Expiry_Reminders Rcon_Client Rcon_Queue Ban_Sync
begin

text \<open>
  Verification of the Squad admin panel: a web panel, written in TypeScript, that administers Squad game
  servers.  An API process (\<^verbatim>\<open>apps/api\<close>) serves the browser and holds the rights model; worker processes
  (\<^verbatim>\<open>apps/workers/*\<close>) talk to the game servers over RCON, rewrite their configuration files and run
  schedules; all of them share PostgreSQL tables, Redis keys and Redis streams.

  \<^bold>\<open>How the parts interact.\<close>  A request enters the authentication hook, which turns a session cookie or an
  API token into a user with a permission context and refuses the request or passes it to a route.  A
  role route checks the request against the role hierarchy, writes the role tables, appends an audit row
  (chained by a hash in a database trigger) and enqueues one Admins.cfg sync per server in an outbox table,
  in the same transaction.  The relay moves outbox rows to Redis streams, the config-sync worker takes them
  from there, renders the managed segment of Admins.cfg from the role tables, writes the file through the
  host bridge and has the server reload it over RCON.  The scheduler worker sends restarts, broadcasts,
  layer changes and seed calls at the times its tables name.  Players earn bonus points for the time they
  spend on the servers (a daily accrual), spend them on timed roles and subscriptions, and lose a role when it
  runs out; all of these write the same role column and the same ledger.

  \<^bold>\<open>Conventions.\<close>  A table is a list of row records, a JavaScript \<^verbatim>\<open>Set\<close> a distinct list and a \<^verbatim>\<open>Map\<close> an
  association list in insertion order (\<open>Prelude\<close>); times are integers in milliseconds; identifiers are
  strings; text whose UTF-16 units matter is \<open>jstr\<close>, a list of code units (\<open>Strings\<close>).  Definitions carry
  the names of the source.  A thrown exception is \<open>None\<close>, an error constructor or \<open>Aborted\<close>; a database
  transaction that throws leaves the state it started from.  What a database, Redis, a game server or a
  clock may answer is a field of an environment record, over which the theorems quantify.  Hash functions,
  \<^verbatim>\<open>localeCompare\<close>, the URL checker, the DNS resolver and the date format of the schema library are parameters.

  \<^bold>\<open>Theories.\<close>
  \<^item> \<open>Permissions\<close>, \<open>Rbac\<close>, \<open>Permission_Cache\<close>: the catalogues of \<^verbatim>\<open>packages/shared-config\<close>, the derivation of
    a permission context in \<^verbatim>\<open>apps/api/src/lib/rbac.ts\<close>, the narrowing by API tokens, and the process-local
    cache with its bound and time to live (locale \<open>ttl_cache\<close>).
  \<^item> \<open>Sessions\<close>, \<open>Api_Auth\<close>: \<^verbatim>\<open>lib/sessions.ts\<close> as a state machine whose Redis half an adversary may write,
    and the whole hook of \<^verbatim>\<open>plugins/auth.ts\<close>.
  \<^item> \<open>Role_Store\<close>, \<open>Role_Guards\<close>, \<open>Role_Routes\<close>, \<open>Role_Safety\<close>: the role tables with the last-owner trigger and
    the first-owner claim, the checks of \<^verbatim>\<open>role-hierarchy.ts\<close>, \<^verbatim>\<open>role-guards.ts\<close> and
    \<^verbatim>\<open>whitelist-role-guard.ts\<close> (locale \<open>grant_order\<close>), every mutating handler of the role and membership
    routes, and the safety of their composition over all request sequences.
  \<^item> \<open>Strings\<close>, \<open>Admins_Config\<close>: JavaScript string operations, and the rendering, locating and splicing of the
    managed segment (\<^verbatim>\<open>packages/shared-config/src/admins-config.ts\<close>).
  \<^item> \<open>Audit_Chain\<close>: canonical row texts, append trigger, verifier and paging of the audit log.
  \<^item> \<open>Byte_Streams\<close>, \<open>Rcon_Protocol\<close>, \<open>Bridge_Frame\<close>, \<open>Line_Splitter\<close>: stream decoders (locale
    \<open>buffered_parser\<close>) for RCON packets, bridge frames and log lines, on \<open>8 word\<close> bytes and \<open>32 word\<close> fields.
  \<^item> \<open>Network_Hosts\<close>: \<^verbatim>\<open>packages/shared-types/src/network-host.ts\<close>, which hosts and addresses an operator may have
    the panel connect to, compared with ranges of 128-bit numbers.
  \<^item> \<open>Utf8\<close>, \<open>Rcon_Client\<close>: the UTF-8 conversions of Node's buffers, and the RCON client of
    \<^verbatim>\<open>apps/workers/rcon/src/client.ts\<close> as a state machine over its callbacks: the guard on what it dials, and the
    matching of answers to commands under any chunking, timeout or disconnect.
  \<^item> \<open>Rcon_Commands\<close>, \<open>Rcon_Queue\<close>: the request schema and the command lines of \<^verbatim>\<open>apps/workers/rcon/src/commands.ts\<close>, and
    its handling of one stream entry (age, claim, execution, result, acknowledgement) under redelivery and crashes.
  \<^item> \<open>Iso_Date\<close>, \<open>Ban_Merge\<close>, \<open>Ban_Sync\<close>: the texts of dates, the merging of an external ban list into its table
    (\<^verbatim>\<open>apps/workers/ban-sync/src/merge.ts\<close>), the sync of one source with its failures and alerts
    (\<^verbatim>\<open>sync-source.ts\<close>, \<^verbatim>\<open>alerts.ts\<close>) and the poll cycle with its backoff (\<^verbatim>\<open>tick.ts\<close>).  The download and the parsers of
    the list formats are parameters of a sync.
  \<^item> \<open>Js_Time\<close>, \<open>Cron\<close>: UTC dates and the five-field expressions of \<^verbatim>\<open>cron5.ts\<close>.
  \<^item> \<open>Cursor_Schedule\<close>, \<open>Scheduled_Tasks\<close>, \<open>Rotation_Schedule\<close>, \<open>Seed_Schedule\<close>: the loop and the cursor rule
    the scheduler's ticks share (locales \<open>row_loop\<close> and \<open>cursor_schedule\<close>), and the three ticks.
  \<^item> \<open>Sync_Outbox\<close>, \<open>Admins_Sync\<close>, \<open>Sync_Delivery\<close>: the outbox and its relay, the sync of one server, and the
    handling of stream entries as a step relation with crashes and redelivery.
  \<^item> \<open>Seed_Time\<close>, \<open>Bonus_Accrual\<close>: the seeding windows and the sweep line of
    \<^verbatim>\<open>packages/db/src/economy/accrual.ts\<close>, compared with counting second by second, and the daily rewriting of the
    ledger.  Coefficients are exact rationals, where the code computes with doubles.
  \<^item> \<open>Economy\<close>, \<open>Vip_Renewal\<close>, \<open>Economy_Safety\<close>: the ledger and its constraints, the VIP grant, the routes of
    \<^verbatim>\<open>economy.ts\<close> and \<^verbatim>\<open>vip-subscriptions.ts\<close>, the renewal and expiry ticks of the role-expirer worker, and
    the step relations that compose them with stale reads: balances, charges and roles over every sequence.
  \<^item> \<open>Seed_Reward\<close>, \<open>Expiry_Reminders\<close>: the worker that hands out the seed reward role, and the reminders before a
    timed role expires.

  \<^bold>\<open>Termination and bounds.\<close>  No definition uses fuel.  The decoder loops, the relay loop and the cron
  look-back are total functions with termination proofs on the buffer length, the number of rows left and
  the number of minutes left.

  \<^bold>\<open>Not modelled.\<close>  Process wiring, timers and diagnostics; SQL whose result the code only displays; the
  React user interface; calls to third-party services (Steam, Discord, object storage, ban lists); the Go host daemon,
  of which only the framing is modelled; regular-expression parsers of game logs and of RCON answers.
\<close>

end
